(* ===== verification/Prelude.thy ===== *)
theory Prelude
  imports Main "HOL-Library.Word"
begin

text \<open>
  Shared vocabulary of the development: the fixed-width integer types of the C and C++
  sources, bytes and their little- and big-endian codings, the text that \<open>printf\<close>
  conversions produce, errno numbers, and the generic list, map and word lemmas that the
  component theories use.
\<close>

unbundle bit_operations_syntax

section \<open>Integer types\<close>

type_synonym u8 = "8 word"
type_synonym u16 = "16 word"
type_synonym u32 = "32 word"
type_synonym u64 = "64 word"
type_synonym byte = "8 word"

text \<open>Signed C integers share the words; \<open>sint\<close> reads them.\<close>

type_synonym i16 = "16 word"
type_synonym i32 = "32 word"
type_synonym i64 = "64 word"

named_theorems layout_simps \<open>offsets and sizes of C structures\<close>
named_theorems text_len \<open>lengths of formatted text\<close>
named_theorems frame_simps \<open>state components an operation leaves alone\<close>

lemma unat_bound: "unat (w :: 'a::len word) < 2 ^ LENGTH('a)"
  by (rule unsigned_less)

section \<open>errno\<close>

abbreviation ENOENT :: int where "ENOENT \<equiv> 2"
abbreviation E2BIG :: int where "E2BIG \<equiv> 7"
abbreviation ENOMEM :: int where "ENOMEM \<equiv> 12"
abbreviation EEXIST :: int where "EEXIST \<equiv> 17"
abbreviation EINVAL :: int where "EINVAL \<equiv> 22"
abbreviation ENOSPC :: int where "ENOSPC \<equiv> 28"
abbreviation ERANGE :: int where "ERANGE \<equiv> 34"
abbreviation EOPNOTSUPP :: int where "EOPNOTSUPP \<equiv> 95"
abbreviation EUCLEAN :: int where "EUCLEAN \<equiv> 117"
abbreviation ENOTSUP :: int where "ENOTSUP \<equiv> 95"

abbreviation INT_MAX :: int where "INT_MAX \<equiv> 2147483647"

section \<open>Bytes\<close>

text \<open>\<open>le_enc k v\<close> is \<open>v\<close> in \<open>k\<close> bytes, least significant first.\<close>

fun le_enc :: "nat \<Rightarrow> nat \<Rightarrow> byte list" where
  "le_enc 0 v = []"
| "le_enc (Suc k) v = of_nat v # le_enc k (v div 256)"

fun le_dec :: "byte list \<Rightarrow> nat" where
  "le_dec [] = 0"
| "le_dec (b # bs) = unat b + 256 * le_dec bs"

definition be_enc :: "nat \<Rightarrow> nat \<Rightarrow> byte list" where
  "be_enc k v = rev (le_enc k v)"

definition be_dec :: "byte list \<Rightarrow> nat" where
  "be_dec bs = le_dec (rev bs)"

lemma length_le_enc [simp]: "length (le_enc k v) = k"
  by (induction k v rule: le_enc.induct) auto

lemma length_be_enc [simp]: "length (be_enc k v) = k"
  by (simp add: be_enc_def)

lemma unat_of_nat_byte: "unat (of_nat v :: byte) = v mod 256"
  by (simp add: unat_of_nat)

lemma le_dec_enc: "le_dec (le_enc k v) = v mod 256 ^ k"
proof (induction k v rule: le_enc.induct)
  case (1 v)
  show ?case by simp
next
  case (2 k v)
  have "v mod (256 * 256 ^ k) = 256 * (v div 256 mod 256 ^ k) + v mod 256"
    by (rule mod_mult2_eq)
  with 2 show ?case by (simp add: unat_of_nat_byte)
qed

lemma le_dec_bound: "le_dec bs < 256 ^ length bs"
proof (induction bs)
  case Nil
  show ?case by simp
next
  case (Cons b bs)
  have "unat b < 256" using unat_bound [of b] by simp
  with Cons show ?case by simp
qed

lemma le_enc_dec: "length bs = k \<Longrightarrow> le_enc k (le_dec bs) = bs"
proof (induction bs arbitrary: k)
  case Nil
  then show ?case by simp
next
  case (Cons b bs)
  have "unat b < 256" using unat_bound [of b] by simp
  then have q: "(unat b + 256 * le_dec bs) div 256 = le_dec bs" by simp
  have "of_nat (unat b + 256 * le_dec bs) = b"
    by (simp only: word_unat_eq_iff unat_of_nat) (simp add: \<open>unat b < 256\<close>)
  with q Cons show ?case by (auto simp del: of_nat_add of_nat_mult)
qed

definition u16_le :: "u16 \<Rightarrow> byte list" where "u16_le w = le_enc 2 (unat w)"
definition u32_le :: "u32 \<Rightarrow> byte list" where "u32_le w = le_enc 4 (unat w)"
definition u64_le :: "u64 \<Rightarrow> byte list" where "u64_le w = le_enc 8 (unat w)"
definition le_u16 :: "byte list \<Rightarrow> u16" where "le_u16 bs = of_nat (le_dec (take 2 bs))"
definition le_u32 :: "byte list \<Rightarrow> u32" where "le_u32 bs = of_nat (le_dec (take 4 bs))"
definition le_u64 :: "byte list \<Rightarrow> u64" where "le_u64 bs = of_nat (le_dec (take 8 bs))"

lemma length_words_le [simp]:
  "length (u16_le a) = 2" "length (u32_le b) = 4" "length (u64_le c) = 8"
  by (simp_all add: u16_le_def u32_le_def u64_le_def)

lemma word_le_roundtrip [simp]:
  "le_u16 (u16_le a @ xs) = a" "le_u32 (u32_le b @ xs) = b" "le_u64 (u64_le c @ xs) = c"
  using unat_bound [of a] unat_bound [of b] unat_bound [of c]
  by (simp_all add: u16_le_def u32_le_def u64_le_def le_u16_def le_u32_def le_u64_def le_dec_enc)

lemma word_le_roundtrip_nil [simp]:
  "le_u16 (u16_le a) = a" "le_u32 (u32_le b) = b" "le_u64 (u64_le c) = c"
  using word_le_roundtrip(1) [where xs = "[]"] word_le_roundtrip(2) [where xs = "[]"]
    word_le_roundtrip(3) [where xs = "[]"] by simp_all

text \<open>A slice of a byte list; out of range it is shorter than asked for.\<close>

definition slice :: "nat \<Rightarrow> nat \<Rightarrow> 'a list \<Rightarrow> 'a list" where
  "slice off n bs = take n (drop off bs)"

lemma length_slice [simp]: "off + n \<le> length bs \<Longrightarrow> length (slice off n bs) = n"
  by (simp add: slice_def)

text \<open>A C string in a character array: the bytes up to the first NUL.\<close>

definition c_str :: "byte list \<Rightarrow> string" where
  "c_str bs = map (\<lambda>b. char_of (unat b)) (takeWhile (\<lambda>b. b \<noteq> 0) bs)"

lemma length_c_str: "length (c_str bs) \<le> length bs"
  by (simp add: c_str_def length_takeWhile_le)

section \<open>Text of printf conversions\<close>

text \<open>\<open>dec_digits\<close> is the \<open>%u\<close> text of a number.\<close>

fun dec_digits :: "nat \<Rightarrow> string" where
  "dec_digits n =
     (if n < 10 then [char_of (n + 48)]
      else dec_digits (n div 10) @ [char_of (n mod 10 + 48)])"

declare dec_digits.simps [simp del]

definition hex_digit :: "nat \<Rightarrow> char" where
  "hex_digit d = char_of (if d < 10 then d + 48 else d + 87)"

fun hex_digits :: "nat \<Rightarrow> string" where
  "hex_digits n =
     (if n < 16 then [hex_digit n] else hex_digits (n div 16) @ [hex_digit (n mod 16)])"

declare hex_digits.simps [simp del]

definition dec_u :: "'a::len word \<Rightarrow> string" where
  "dec_u w = dec_digits (unat w)"

definition dec_int :: "int \<Rightarrow> string" where
  "dec_int i = (if i < 0 then ''-'' @ dec_digits (nat (- i)) else dec_digits (nat i))"

definition dec_s :: "'a::len word \<Rightarrow> string" where
  "dec_s w = dec_int (sint w)"

definition hex_u :: "'a::len word \<Rightarrow> string" where
  "hex_u w = hex_digits (unat w)"

lemma length_dec_digits: "0 < k \<Longrightarrow> n < 10 ^ k \<Longrightarrow> length (dec_digits n) \<le> k"
proof (induction n arbitrary: k rule: dec_digits.induct)
  case (1 n)
  show ?case
  proof (cases "n < 10")
    case True
    with "1.prems" show ?thesis by (subst dec_digits.simps) simp
  next
    case False
    then obtain j where k: "k = Suc j" and j: "0 < j"
      using "1.prems" by (cases k; cases "k - 1") auto
    have "n div 10 < 10 ^ j" using "1.prems" k by (simp add: less_mult_imp_div_less mult.commute)
    with "1.IH" [OF False j] False k show ?thesis by (subst dec_digits.simps) simp
  qed
qed

lemma length_hex_digits: "0 < k \<Longrightarrow> n < 16 ^ k \<Longrightarrow> length (hex_digits n) \<le> k"
proof (induction n arbitrary: k rule: hex_digits.induct)
  case (1 n)
  show ?case
  proof (cases "n < 16")
    case True
    with "1.prems" show ?thesis by (subst hex_digits.simps) simp
  next
    case False
    then obtain j where k: "k = Suc j" and j: "0 < j"
      using "1.prems" by (cases k; cases "k - 1") auto
    have "n div 16 < 16 ^ j" using "1.prems" k by (simp add: less_mult_imp_div_less mult.commute)
    with "1.IH" [OF False j] False k show ?thesis by (subst hex_digits.simps) simp
  qed
qed

lemma dec_digits_nonempty [simp]: "dec_digits n \<noteq> []"
  by (subst dec_digits.simps) simp

lemma length_dec_u16 [text_len]: "length (dec_u (w :: u16)) \<le> 5"
  using unat_bound [of w] unfolding dec_u_def by (intro length_dec_digits) simp_all

lemma length_dec_u8 [text_len]: "length (dec_u (w :: u8)) \<le> 3"
  using unat_bound [of w] unfolding dec_u_def by (intro length_dec_digits) simp_all

lemma length_dec_u32 [text_len]: "length (dec_u (w :: u32)) \<le> 10"
  using unat_bound [of w] unfolding dec_u_def by (intro length_dec_digits) simp_all

lemma length_dec_u64 [text_len]: "length (dec_u (w :: u64)) \<le> 20"
  using unat_bound [of w] unfolding dec_u_def by (intro length_dec_digits) simp_all

lemma length_hex_u64 [text_len]: "length (hex_u (w :: u64)) \<le> 16"
  using unat_bound [of w] unfolding hex_u_def by (intro length_hex_digits) simp_all

lemma length_dec_s64 [text_len]: "length (dec_s (w :: i64)) \<le> 20"
proof -
  have b: "- (2 ^ 63) \<le> sint w" "sint w < 2 ^ 63"
    using sint_ge [of w] sint_lt [of w] by simp_all
  have "length (dec_digits (nat (- sint w))) \<le> 19" "length (dec_digits (nat (sint w))) \<le> 19"
    using b by (auto intro!: length_dec_digits)
  then show ?thesis by (auto simp: dec_s_def dec_int_def)
qed

text \<open>
  \<open>snprintf\<close> into a buffer of \<open>n\<close> bytes keeps the first \<open>n - 1\<close>
  characters (and stores nothing when the size is 0).
\<close>

definition snprintf_text :: "nat \<Rightarrow> string \<Rightarrow> string" where
  "snprintf_text n s = take (n - 1) s"

lemma snprintf_text_fits: "length s < n \<Longrightarrow> snprintf_text n s = s"
  by (simp add: snprintf_text_def)

text \<open>Padding of \<open>%-Nu\<close> and \<open>%-Ns\<close> (left justified) and \<open>%0Nd\<close> (leading zeros).\<close>

definition pad_right :: "nat \<Rightarrow> string \<Rightarrow> string" where
  "pad_right n s = s @ replicate (n - length s) (CHR '' '')"

definition pad_zero :: "nat \<Rightarrow> string \<Rightarrow> string" where
  "pad_zero n s = replicate (n - length s) (CHR ''0'') @ s"

section \<open>Lists and maps\<close>

lemma take_drop_slice: "take n (drop off bs) = slice off n bs"
  by (simp add: slice_def)

lemma slice_append_left: "off + n \<le> length xs \<Longrightarrow> slice off n (xs @ ys) = slice off n xs"
  by (simp add: slice_def)

lemma slice_append_right:
  "length xs \<le> off \<Longrightarrow> slice off n (xs @ ys) = slice (off - length xs) n ys"
  by (simp add: slice_def)

lemma slice_0_append: "length xs = n \<Longrightarrow> slice 0 n (xs @ ys) = xs"
  by (simp add: slice_def)

text \<open>A fold that may fail: it stops at the first \<open>None\<close>.\<close>

fun fold_opt :: "('a \<Rightarrow> 's \<Rightarrow> 's option) \<Rightarrow> 'a list \<Rightarrow> 's \<Rightarrow> 's option" where
  "fold_opt f [] s = Some s"
| "fold_opt f (x # xs) s = (case f x s of None \<Rightarrow> None | Some s' \<Rightarrow> fold_opt f xs s')"

lemma fold_opt_cong [fundef_cong]:
  "xs = ys \<Longrightarrow> s = t \<Longrightarrow> (\<And>x u. x \<in> set ys \<Longrightarrow> f x u = g x u) \<Longrightarrow>
     fold_opt f xs s = fold_opt g ys t"
proof (induction ys arbitrary: xs s t)
  case (Cons y ys)
  then show ?case by (auto split: option.splits)
qed simp

lemma fold_opt_append:
  "fold_opt f (xs @ ys) s =
     (case fold_opt f xs s of None \<Rightarrow> None | Some s' \<Rightarrow> fold_opt f ys s')"
  by (induction xs arbitrary: s) (auto split: option.splits)

lemma fold_opt_inv:
  assumes "fold_opt f xs s = Some t" and "P s"
    and "\<And>x s s'. x \<in> set xs \<Longrightarrow> P s \<Longrightarrow> f x s = Some s' \<Longrightarrow> P s'"
  shows "P t"
  using assms
proof (induction xs arbitrary: s)
  case Nil
  then show ?case by simp
next
  case (Cons x xs)
  from Cons.prems(1) obtain s' where s': "f x s = Some s'" "fold_opt f xs s' = Some t"
    by (auto split: option.splits)
  have "P s'" using Cons.prems(2,3) s'(1) by (meson list.set_intros(1))
  moreover have "\<And>y u u'. y \<in> set xs \<Longrightarrow> P u \<Longrightarrow> f y u = Some u' \<Longrightarrow> P u'"
    using Cons.prems(3) by (meson list.set_intros(2))
  ultimately show ?case using s'(2) by (intro Cons.IH)
qed

end
