(* ===== verification/Events.thy ===== *)
theory Events
  imports Prelude
begin

text \<open>
  The data that the BPF programs and the user-space loader share: the SOME/IP constants of
  \<open>src/common/vsomeip_types.h\<close> and the event structures \<open>event_header\<close>,
  \<open>routing_event\<close>, \<open>app_event\<close>, \<open>sd_event\<close>. A record arrives in user space as
  bytes that a handler casts to its structure; \<open>dec_*\<close> reads the fields at the offsets
  the C ABI gives them on the 64-bit targets (little-endian, natural alignment), and is
  \<open>None\<close> where the cast would read past the record.
\<close>

section \<open>SOME/IP constants\<close>

definition SOMEIP_MT_REQUEST :: u8 where "SOMEIP_MT_REQUEST = 0x00"
definition SOMEIP_MT_REQUEST_NO_RETURN :: u8 where "SOMEIP_MT_REQUEST_NO_RETURN = 0x01"
definition SOMEIP_MT_NOTIFICATION :: u8 where "SOMEIP_MT_NOTIFICATION = 0x02"
definition SOMEIP_MT_REQUEST_ACK :: u8 where "SOMEIP_MT_REQUEST_ACK = 0x40"
definition SOMEIP_MT_RESPONSE :: u8 where "SOMEIP_MT_RESPONSE = 0x80"
definition SOMEIP_MT_ERROR :: u8 where "SOMEIP_MT_ERROR = 0x81"

lemmas someip_mt_defs =
  SOMEIP_MT_REQUEST_def SOMEIP_MT_REQUEST_NO_RETURN_def SOMEIP_MT_NOTIFICATION_def
  SOMEIP_MT_REQUEST_ACK_def SOMEIP_MT_RESPONSE_def SOMEIP_MT_ERROR_def

definition SOMEIP_HEADER_SIZE :: nat where "SOMEIP_HEADER_SIZE = 16"

definition SOMEIP_OFF_SERVICE_ID :: nat where "SOMEIP_OFF_SERVICE_ID = 0"
definition SOMEIP_OFF_METHOD_ID :: nat where "SOMEIP_OFF_METHOD_ID = 2"
definition SOMEIP_OFF_LENGTH :: nat where "SOMEIP_OFF_LENGTH = 4"
definition SOMEIP_OFF_CLIENT_ID :: nat where "SOMEIP_OFF_CLIENT_ID = 8"
definition SOMEIP_OFF_SESSION_ID :: nat where "SOMEIP_OFF_SESSION_ID = 10"
definition SOMEIP_OFF_PROTOCOL_VER :: nat where "SOMEIP_OFF_PROTOCOL_VER = 12"
definition SOMEIP_OFF_INTERFACE_VER :: nat where "SOMEIP_OFF_INTERFACE_VER = 13"
definition SOMEIP_OFF_MESSAGE_TYPE :: nat where "SOMEIP_OFF_MESSAGE_TYPE = 14"
definition SOMEIP_OFF_RETURN_CODE :: nat where "SOMEIP_OFF_RETURN_CODE = 15"

lemmas someip_off_defs =
  SOMEIP_HEADER_SIZE_def SOMEIP_OFF_SERVICE_ID_def SOMEIP_OFF_METHOD_ID_def
  SOMEIP_OFF_LENGTH_def SOMEIP_OFF_CLIENT_ID_def SOMEIP_OFF_SESSION_ID_def
  SOMEIP_OFF_PROTOCOL_VER_def SOMEIP_OFF_INTERFACE_VER_def SOMEIP_OFF_MESSAGE_TYPE_def
  SOMEIP_OFF_RETURN_CODE_def

definition DIR_SEND :: u8 where "DIR_SEND = 0"
definition DIR_RECV :: u8 where "DIR_RECV = 1"

lemmas dir_defs = DIR_SEND_def DIR_RECV_def

section \<open>Event structures\<close>

record event_header =
  timestamp_ns :: u64
  pid :: u32
  tid :: u32
  comm :: "byte list"
  module_id :: u8
  hook_id :: u8
  direction :: u8
  is_retprobe :: bool

record routing_event =
  re_hdr :: event_header
  re_service_id :: u16
  re_method_id :: u16
  re_client_id :: u16
  re_session_id :: u16
  re_protocol_version :: u8
  re_interface_version :: u8
  re_message_type :: u8
  re_return_code :: u8
  re_payload_length :: u32
  re_retval :: i64

record app_event =
  ae_hdr :: event_header
  ae_this_ptr :: u64
  ae_message_ptr :: u64
  ae_retval :: i64

record sd_event =
  se_hdr :: event_header
  se_service_id :: u16
  se_instance_id :: u16
  se_eventgroup_id :: u16
  se_ttl :: u32

section \<open>Layout\<close>

definition sizeof_event_header :: nat where [layout_simps]: "sizeof_event_header = 40"
definition sizeof_routing_event :: nat where [layout_simps]: "sizeof_routing_event = 64"
definition sizeof_app_event :: nat where [layout_simps]: "sizeof_app_event = 64"
definition sizeof_sd_event :: nat where [layout_simps]: "sizeof_sd_event = 56"

definition dec_event_header :: "byte list \<Rightarrow> event_header option" where
  "dec_event_header bs =
     (if length bs < sizeof_event_header then None
      else Some \<lparr>timestamp_ns = le_u64 bs, pid = le_u32 (drop 8 bs), tid = le_u32 (drop 12 bs),
                 comm = slice 16 16 bs, module_id = bs ! 32, hook_id = bs ! 33,
                 direction = bs ! 34, is_retprobe = (bs ! 35 \<noteq> 0)\<rparr>)"

definition dec_routing_event :: "byte list \<Rightarrow> routing_event option" where
  "dec_routing_event bs =
     (if length bs < sizeof_routing_event then None
      else map_option (\<lambda>h. \<lparr>re_hdr = h,
             re_service_id = le_u16 (drop 40 bs), re_method_id = le_u16 (drop 42 bs),
             re_client_id = le_u16 (drop 44 bs), re_session_id = le_u16 (drop 46 bs),
             re_protocol_version = bs ! 48, re_interface_version = bs ! 49,
             re_message_type = bs ! 50, re_return_code = bs ! 51,
             re_payload_length = le_u32 (drop 52 bs), re_retval = le_u64 (drop 56 bs)\<rparr>)
           (dec_event_header bs))"

definition dec_app_event :: "byte list \<Rightarrow> app_event option" where
  "dec_app_event bs =
     (if length bs < sizeof_app_event then None
      else map_option (\<lambda>h. \<lparr>ae_hdr = h, ae_this_ptr = le_u64 (drop 40 bs),
             ae_message_ptr = le_u64 (drop 48 bs), ae_retval = le_u64 (drop 56 bs)\<rparr>)
           (dec_event_header bs))"

definition dec_sd_event :: "byte list \<Rightarrow> sd_event option" where
  "dec_sd_event bs =
     (if length bs < sizeof_sd_event then None
      else map_option (\<lambda>h. \<lparr>se_hdr = h,
             se_service_id = le_u16 (drop 40 bs), se_instance_id = le_u16 (drop 42 bs),
             se_eventgroup_id = le_u16 (drop 44 bs), se_ttl = le_u32 (drop 48 bs)\<rparr>)
           (dec_event_header bs))"

text \<open>
  The bytes of a structure in memory. Padding bytes have whatever value the memory had:
  they are arguments.
\<close>

definition enc_event_header :: "byte list \<Rightarrow> event_header \<Rightarrow> byte list" where
  "enc_event_header pad h =
     u64_le (timestamp_ns h) @ u32_le (pid h) @ u32_le (tid h) @ comm h @
     [module_id h, hook_id h, direction h, if is_retprobe h then 1 else 0] @ pad"

definition enc_routing_event :: "byte list \<Rightarrow> routing_event \<Rightarrow> byte list" where
  "enc_routing_event pad e =
     enc_event_header pad (re_hdr e) @
     u16_le (re_service_id e) @ u16_le (re_method_id e) @ u16_le (re_client_id e) @
     u16_le (re_session_id e) @
     [re_protocol_version e, re_interface_version e, re_message_type e, re_return_code e] @
     u32_le (re_payload_length e) @ u64_le (re_retval e)"

definition enc_app_event :: "byte list \<Rightarrow> app_event \<Rightarrow> byte list" where
  "enc_app_event pad e =
     enc_event_header pad (ae_hdr e) @
     u64_le (ae_this_ptr e) @ u64_le (ae_message_ptr e) @ u64_le (ae_retval e)"

definition enc_sd_event :: "byte list \<Rightarrow> byte list \<Rightarrow> byte list \<Rightarrow> sd_event \<Rightarrow> byte list" where
  "enc_sd_event pad pad2 pad3 e =
     enc_event_header pad (se_hdr e) @
     u16_le (se_service_id e) @ u16_le (se_instance_id e) @ u16_le (se_eventgroup_id e) @ pad2 @
     u32_le (se_ttl e) @ pad3"

definition header_wf :: "event_header \<Rightarrow> bool" where
  "header_wf h \<longleftrightarrow> length (comm h) = 16"

lemma length_enc_event_header [simp]:
  "header_wf h \<Longrightarrow> length pad = 4 \<Longrightarrow> length (enc_event_header pad h) = sizeof_event_header"
  by (simp add: enc_event_header_def header_wf_def layout_simps)

lemma length_enc_events [simp]:
  "header_wf (re_hdr e) \<Longrightarrow> length pad = 4 \<Longrightarrow> length (enc_routing_event pad e) = sizeof_routing_event"
  "header_wf (ae_hdr a) \<Longrightarrow> length pad = 4 \<Longrightarrow> length (enc_app_event pad a) = sizeof_app_event"
  "header_wf (se_hdr d) \<Longrightarrow> length pad = 4 \<Longrightarrow> length pad2 = 2 \<Longrightarrow> length pad3 = 4 \<Longrightarrow>
     length (enc_sd_event pad pad2 pad3 d) = sizeof_sd_event"
  by (simp_all add: enc_routing_event_def enc_app_event_def enc_sd_event_def layout_simps)

lemma dec_enc_event_header:
  assumes "header_wf h" "length pad = 4"
  shows "dec_event_header (enc_event_header pad h @ rest) = Some h"
proof -
  have l: "length (comm h) = 16" using assms(1) by (simp add: header_wf_def)
  show ?thesis
    unfolding dec_event_header_def
    by (simp add: assms layout_simps)
       (simp add: enc_event_header_def l assms slice_def nth_append)
qed

lemma dec_enc_routing_event:
  assumes "header_wf (re_hdr e)" "length pad = 4"
  shows "dec_routing_event (enc_routing_event pad e) = Some e"
proof -
  define H where "H = enc_event_header pad (re_hdr e)"
  have l: "length H = 40" using assms by (simp add: H_def sizeof_event_header_def)
  have d: "dec_event_header (H @ rest) = Some (re_hdr e)" for rest
    using assms by (simp add: H_def dec_enc_event_header)
  show ?thesis
    unfolding dec_routing_event_def enc_routing_event_def H_def [symmetric]
    by (simp add: d l assms nth_append layout_simps)
qed

lemma dec_enc_app_event:
  assumes "header_wf (ae_hdr e)" "length pad = 4"
  shows "dec_app_event (enc_app_event pad e) = Some e"
proof -
  define H where "H = enc_event_header pad (ae_hdr e)"
  have l: "length H = 40" using assms by (simp add: H_def sizeof_event_header_def)
  have d: "dec_event_header (H @ rest) = Some (ae_hdr e)" for rest
    using assms by (simp add: H_def dec_enc_event_header)
  show ?thesis
    unfolding dec_app_event_def enc_app_event_def H_def [symmetric]
    by (simp add: d l assms nth_append layout_simps)
qed

lemma dec_enc_sd_event:
  assumes "header_wf (se_hdr e)" "length pad = 4" "length pad2 = 2" "length pad3 = 4"
  shows "dec_sd_event (enc_sd_event pad pad2 pad3 e) = Some e"
proof -
  define H where "H = enc_event_header pad (se_hdr e)"
  have l: "length H = 40" using assms by (simp add: H_def sizeof_event_header_def)
  have d: "dec_event_header (H @ rest) = Some (se_hdr e)" for rest
    using assms by (simp add: H_def dec_enc_event_header)
  show ?thesis
    unfolding dec_sd_event_def enc_sd_event_def H_def [symmetric]
    by (simp add: d l assms nth_append layout_simps)
qed

text \<open>Every structure starts with the common header, so the header can be read from any of them.\<close>

lemma header_of_any_event:
  "dec_routing_event bs = Some e \<Longrightarrow> dec_event_header bs = Some (re_hdr e)"
  "dec_app_event bs = Some a \<Longrightarrow> dec_event_header bs = Some (ae_hdr a)"
  "dec_sd_event bs = Some d \<Longrightarrow> dec_event_header bs = Some (se_hdr d)"
  by (auto simp: dec_routing_event_def dec_app_event_def dec_sd_event_def split: if_splits)

lemma dec_event_header_wf: "dec_event_header bs = Some h \<Longrightarrow> header_wf h"
  by (auto simp: dec_event_header_def header_wf_def layout_simps split: if_splits)

end
