(* ===== verification/Hook_Config.thy ===== *)
theory Hook_Config
  imports Prelude
begin

text \<open>
  The hook configuration: \<open>config/hooks.json\<close> as data and the generator
  \<open>scripts/gen_hook_config.sh\<close>, which turns it into the macros of \<open>hook_ids.h\<close>
  (\<open>MODULE_*\<close> and \<open>HOOK_*\<close>) and into the \<open>file_groups[]\<close> table of
  \<open>hook_config.h\<close> that drives the collectors. The offset tables that
  \<open>export_symbol.sh\<close> writes are not in the repository: the lookup of a symbol's offset
  is a parameter.
\<close>

section \<open>hooks.json\<close>

record hook_json =
  hk_name :: string
  hk_demangled :: string
  hk_retprobe :: bool

record hooks_file =
  hf_name :: string
  hf_ringbuf_map :: string
  hf_module_id :: nat
  hf_lib :: string
  hf_target_path :: string
  hf_hooks :: "hook_json list"

definition dm_rm_send :: string where
  "dm_rm_send =
     ''vsomeip_v3::routing_manager_impl::send(unsigned short, unsigned char const*, '' @
     ''unsigned int, unsigned short, bool, unsigned short, vsomeip_sec_client_t const*, '' @
     ''unsigned char, bool, bool)''"

definition dm_rm_send_to :: string where
  "dm_rm_send_to =
     ''vsomeip_v3::routing_manager_impl::send_to(std::shared_ptr<vsomeip_v3::endpoint_defin'' @
     ''ition> const&, unsigned char const*, unsigned int, unsigned short)''"

definition dm_rm_on_message :: string where
  "dm_rm_on_message =
     ''vsomeip_v3::routing_manager_impl::on_message(unsigned char const*, unsigned int, '' @
     ''vsomeip_v3::boardnet_endpoint*, boost::asio::ip::address const&, unsigned short, '' @
     ''bool)''"

definition dm_app_send :: string where
  "dm_app_send =
     ''vsomeip_v3::application_impl::send(std::shared_ptr<vsomeip_v3::message>)''"

definition dm_app_on_message :: string where
  "dm_app_on_message =
     ''vsomeip_v3::application_impl::on_message(std::shared_ptr<vsomeip_v3::message>&&)''"

definition dm_sd_send :: string where
  "dm_sd_send =
     ''vsomeip_v3::sd::service_discovery_impl::send(bool)''"

definition dm_sd_process_offer :: string where
  "dm_sd_process_offer =
     ''vsomeip_v3::sd::service_discovery_impl::process_offerservice_serviceentry(unsigned '' @
     ''short, unsigned short, unsigned char, unsigned int, unsigned int, '' @
     ''boost::asio::ip::address const&, unsigned short, boost::asio::ip::address const&, '' @
     ''unsigned short, std::vector<std::shared_ptr<vsomeip_v3::sd::message_impl>, '' @
     ''std::allocator<std::shared_ptr<vsomeip_v3::sd::message_impl> > >&, bool, '' @
     ''vsomeip_v3::sd::service_discovery_impl::sd_acceptance_state_t const&)''"

definition dm_sd_send_subscription :: string where
  "dm_sd_send_subscription =
     ''vsomeip_v3::sd::service_discovery_impl::send_subscription(std::shared_ptr<vsomeip_v3'' @
     ''::sd::subscription> const&, unsigned short, unsigned short, unsigned short, '' @
     ''unsigned short)''"

definition dm_sd_handle_subscription :: string where
  "dm_sd_handle_subscription =
     ''vsomeip_v3::sd::service_discovery_impl::handle_eventgroup_subscription(unsigned '' @
     ''short, unsigned short, unsigned short, unsigned char, unsigned int, unsigned short, '' @
     ''boost::asio::ip::address const&, unsigned short, bool, boost::asio::ip::address '' @
     ''const&, unsigned short, bool, '' @
     ''std::shared_ptr<vsomeip_v3::sd::remote_subscription_ack>&, bool, bool, '' @
     ''std::set<unsigned short, std::less<unsigned short>, std::allocator<unsigned short> '' @
     ''> const&, vsomeip_v3::sd::service_discovery_impl::sd_acceptance_state_t const&, '' @
     ''std::shared_ptr<vsomeip_v3::eventgroupinfo> const&, boost::asio::ip::address const&)''"

definition hooks_json :: "hooks_file list" where
  "hooks_json =
    [\<lparr>hf_name = ''routing'', hf_ringbuf_map = ''routing_events'', hf_module_id = 1,
       hf_lib = ''libvsomeip3.so.3.7.4'', hf_target_path = ''/usr/lib/libvsomeip3.so.3'',
       hf_hooks =
        [\<lparr>hk_name = ''rm_send_entry'', hk_demangled = dm_rm_send, hk_retprobe = False\<rparr>,
         \<lparr>hk_name = ''rm_send_ret'', hk_demangled = dm_rm_send, hk_retprobe = True\<rparr>,
         \<lparr>hk_name = ''rm_send_to_entry'', hk_demangled = dm_rm_send_to, hk_retprobe = False\<rparr>,
         \<lparr>hk_name = ''rm_send_to_ret'', hk_demangled = dm_rm_send_to, hk_retprobe = True\<rparr>,
         \<lparr>hk_name = ''rm_on_message'', hk_demangled = dm_rm_on_message, hk_retprobe = False\<rparr>]\<rparr>,
     \<lparr>hf_name = ''app'', hf_ringbuf_map = ''app_events'', hf_module_id = 2,
       hf_lib = ''libvsomeip3.so.3.7.4'', hf_target_path = ''/usr/lib/libvsomeip3.so.3'',
       hf_hooks =
        [\<lparr>hk_name = ''app_send_entry'', hk_demangled = dm_app_send, hk_retprobe = False\<rparr>,
         \<lparr>hk_name = ''app_send_ret'', hk_demangled = dm_app_send, hk_retprobe = True\<rparr>,
         \<lparr>hk_name = ''app_on_message'', hk_demangled = dm_app_on_message, hk_retprobe = False\<rparr>]\<rparr>,
     \<lparr>hf_name = ''sd'', hf_ringbuf_map = ''sd_events'', hf_module_id = 3,
       hf_lib = ''libvsomeip3-sd.so.3.7.4'', hf_target_path = ''/usr/lib/libvsomeip3-sd.so.3'',
       hf_hooks =
        [\<lparr>hk_name = ''sd_send'', hk_demangled = dm_sd_send, hk_retprobe = False\<rparr>,
         \<lparr>hk_name = ''sd_process_offer'', hk_demangled = dm_sd_process_offer, hk_retprobe = False\<rparr>,
         \<lparr>hk_name = ''sd_send_subscription'', hk_demangled = dm_sd_send_subscription, hk_retprobe = False\<rparr>,
         \<lparr>hk_name = ''sd_handle_subscription'', hk_demangled = dm_sd_handle_subscription, hk_retprobe = False\<rparr>]\<rparr>]"

section \<open>hook\_ids.h\<close>

text \<open>\<open>str.upper()\<close> on ASCII names.\<close>

definition upper_char :: "char \<Rightarrow> char" where
  "upper_char c =
     (if of_char c \<ge> (97::nat) \<and> of_char c \<le> (122::nat) then char_of (of_char c - 32 :: nat) else c)"

definition upper :: "string \<Rightarrow> string" where
  "upper s = map upper_char s"

definition module_macros :: "hooks_file list \<Rightarrow> (string \<times> nat) list" where
  "module_macros files = map (\<lambda>fg. (''MODULE_'' @ upper (hf_name fg), hf_module_id fg)) files"

definition hook_macros :: "hooks_file list \<Rightarrow> (string \<times> nat) list" where
  "hook_macros files =
     concat (map (\<lambda>fg. map (\<lambda>(i, h). (''HOOK_'' @ upper (hk_name h), i))
                         (enumerate 0 (hf_hooks fg))) files)"

definition gen_hook_ids :: "hooks_file list \<Rightarrow> (string \<times> nat) list" where
  "gen_hook_ids files = module_macros files @ hook_macros files"

text \<open>The value the preprocessor gives a macro of the generated header.\<close>

definition macro_u8 :: "string \<Rightarrow> u8" where
  "macro_u8 nm = (case map_of (gen_hook_ids hooks_json) nm of Some v \<Rightarrow> of_nat v | None \<Rightarrow> 0)"

definition MODULE_ROUTING :: u8 where "MODULE_ROUTING = macro_u8 ''MODULE_ROUTING''"
definition MODULE_APP :: u8 where "MODULE_APP = macro_u8 ''MODULE_APP''"
definition MODULE_SD :: u8 where "MODULE_SD = macro_u8 ''MODULE_SD''"
definition HOOK_RM_SEND_ENTRY :: u8 where "HOOK_RM_SEND_ENTRY = macro_u8 ''HOOK_RM_SEND_ENTRY''"
definition HOOK_RM_SEND_RET :: u8 where "HOOK_RM_SEND_RET = macro_u8 ''HOOK_RM_SEND_RET''"
definition HOOK_RM_SEND_TO_ENTRY :: u8 where
  "HOOK_RM_SEND_TO_ENTRY = macro_u8 ''HOOK_RM_SEND_TO_ENTRY''"
definition HOOK_RM_SEND_TO_RET :: u8 where
  "HOOK_RM_SEND_TO_RET = macro_u8 ''HOOK_RM_SEND_TO_RET''"
definition HOOK_RM_ON_MESSAGE :: u8 where "HOOK_RM_ON_MESSAGE = macro_u8 ''HOOK_RM_ON_MESSAGE''"
definition HOOK_APP_SEND_ENTRY :: u8 where "HOOK_APP_SEND_ENTRY = macro_u8 ''HOOK_APP_SEND_ENTRY''"
definition HOOK_APP_SEND_RET :: u8 where "HOOK_APP_SEND_RET = macro_u8 ''HOOK_APP_SEND_RET''"
definition HOOK_APP_ON_MESSAGE :: u8 where "HOOK_APP_ON_MESSAGE = macro_u8 ''HOOK_APP_ON_MESSAGE''"
definition HOOK_SD_SEND :: u8 where "HOOK_SD_SEND = macro_u8 ''HOOK_SD_SEND''"
definition HOOK_SD_PROCESS_OFFER :: u8 where
  "HOOK_SD_PROCESS_OFFER = macro_u8 ''HOOK_SD_PROCESS_OFFER''"
definition HOOK_SD_SEND_SUBSCRIPTION :: u8 where
  "HOOK_SD_SEND_SUBSCRIPTION = macro_u8 ''HOOK_SD_SEND_SUBSCRIPTION''"
definition HOOK_SD_HANDLE_SUBSCRIPTION :: u8 where
  "HOOK_SD_HANDLE_SUBSCRIPTION = macro_u8 ''HOOK_SD_HANDLE_SUBSCRIPTION''"

lemma upper_Nil [simp]: "upper [] = []"
  by (simp add: upper_def)

lemma upper_Cons [simp]: "upper (c # s) = upper_char c # upper s"
  by (simp add: upper_def)

lemma gen_hook_ids_json:
  "gen_hook_ids hooks_json =
     [(''MODULE_ROUTING'', 1), (''MODULE_APP'', 2), (''MODULE_SD'', 3),
      (''HOOK_RM_SEND_ENTRY'', 0), (''HOOK_RM_SEND_RET'', 1), (''HOOK_RM_SEND_TO_ENTRY'', 2),
      (''HOOK_RM_SEND_TO_RET'', 3), (''HOOK_RM_ON_MESSAGE'', 4),
      (''HOOK_APP_SEND_ENTRY'', 0), (''HOOK_APP_SEND_RET'', 1), (''HOOK_APP_ON_MESSAGE'', 2),
      (''HOOK_SD_SEND'', 0), (''HOOK_SD_PROCESS_OFFER'', 1), (''HOOK_SD_SEND_SUBSCRIPTION'', 2),
      (''HOOK_SD_HANDLE_SUBSCRIPTION'', 3)]"
  by (simp add: gen_hook_ids_def module_macros_def hook_macros_def hooks_json_def upper_char_def char_of_def
      bit_0)

lemma macro_values [simp]:
  "MODULE_ROUTING = 1" "MODULE_APP = 2" "MODULE_SD = 3"
  "HOOK_RM_SEND_ENTRY = 0" "HOOK_RM_SEND_RET = 1" "HOOK_RM_SEND_TO_ENTRY = 2"
  "HOOK_RM_SEND_TO_RET = 3" "HOOK_RM_ON_MESSAGE = 4"
  "HOOK_APP_SEND_ENTRY = 0" "HOOK_APP_SEND_RET = 1" "HOOK_APP_ON_MESSAGE = 2"
  "HOOK_SD_SEND = 0" "HOOK_SD_PROCESS_OFFER = 1" "HOOK_SD_SEND_SUBSCRIPTION = 2"
  "HOOK_SD_HANDLE_SUBSCRIPTION = 3"
  by (simp_all add: MODULE_ROUTING_def MODULE_APP_def MODULE_SD_def HOOK_RM_SEND_ENTRY_def
      HOOK_RM_SEND_RET_def HOOK_RM_SEND_TO_ENTRY_def HOOK_RM_SEND_TO_RET_def
      HOOK_RM_ON_MESSAGE_def HOOK_APP_SEND_ENTRY_def HOOK_APP_SEND_RET_def
      HOOK_APP_ON_MESSAGE_def HOOK_SD_SEND_def HOOK_SD_PROCESS_OFFER_def
      HOOK_SD_SEND_SUBSCRIPTION_def HOOK_SD_HANDLE_SUBSCRIPTION_def macro_u8_def
      gen_hook_ids_json)

section \<open>hook\_config.h\<close>

record hook_cfg =
  hc_name :: string
  hc_target_path :: string
  hc_offset :: nat
  hc_retprobe :: bool

text \<open>
  \<open>fg_handler\<close> is the symbol of the handler function; the loader resolves it to the
  function of that name. The embedded bytecode is named the same way.
\<close>

record file_group =
  fg_name :: string
  fg_embed_data :: string
  fg_ringbuf_map :: string
  fg_module_id :: nat
  fg_hook_count :: nat
  fg_hooks :: "hook_cfg list"
  fg_hook_names :: "string list"
  fg_handler :: string

text \<open>
  One group. A hook whose symbol has no offset is left out of the \<open>hook_cfgs\<close> array
  (\<open>if not off: continue\<close>), but not out of \<open>hook_names\<close> nor of the count.
\<close>

definition gen_hook_cfgs :: "(string \<Rightarrow> string \<Rightarrow> nat option) \<Rightarrow> hooks_file \<Rightarrow> hook_cfg list" where
  "gen_hook_cfgs offs fg =
     List.map_filter
       (\<lambda>h. case offs (hf_lib fg) (hk_demangled h) of
              None \<Rightarrow> None
            | Some off \<Rightarrow> Some \<lparr>hc_name = hk_name h, hc_target_path = hf_target_path fg,
                                hc_offset = off, hc_retprobe = hk_retprobe h\<rparr>)
       (hf_hooks fg)"

definition gen_file_group :: "(string \<Rightarrow> string \<Rightarrow> nat option) \<Rightarrow> hooks_file \<Rightarrow> file_group" where
  "gen_file_group offs fg =
     \<lparr>fg_name = hf_name fg, fg_embed_data = hf_name fg @ ''_bpf_o'',
      fg_ringbuf_map = hf_ringbuf_map fg, fg_module_id = hf_module_id fg,
      fg_hook_count = length (hf_hooks fg), fg_hooks = gen_hook_cfgs offs fg,
      fg_hook_names = map hk_name (hf_hooks fg), fg_handler = hf_name fg @ ''_event_handler''\<rparr>"

definition gen_file_groups ::
    "(string \<Rightarrow> string \<Rightarrow> nat option) \<Rightarrow> hooks_file list \<Rightarrow> file_group list" where
  "gen_file_groups offs files = map (gen_file_group offs) files"

definition gen_max_module_id :: "hooks_file list \<Rightarrow> nat" where
  "gen_max_module_id files = Max (set (map hf_module_id files))"

definition MAX_MODULE_ID :: nat where
  "MAX_MODULE_ID = gen_max_module_id hooks_json"

lemma MAX_MODULE_ID_eq [simp]: "MAX_MODULE_ID = 3"
  by (simp add: MAX_MODULE_ID_def gen_max_module_id_def hooks_json_def)

section \<open>Facts about the generated tables\<close>

text \<open>A group's table is well formed when the array has an entry for every counted hook.\<close>

definition group_ok :: "file_group \<Rightarrow> bool" where
  "group_ok g \<longleftrightarrow> length (fg_hooks g) = fg_hook_count g \<and> length (fg_hook_names g) = fg_hook_count g"

lemma map_filter_length:
  "length (List.map_filter f xs) = length xs \<longleftrightarrow> (\<forall>x\<in>set xs. f x \<noteq> None)"
proof (induction xs)
  case Nil
  show ?case by (simp add: List.map_filter_simps)
next
  case (Cons x xs)
  have "length (List.map_filter f xs) \<le> length xs"
    by (simp add: List.map_filter_def)
  with Cons show ?case by (auto simp: List.map_filter_simps split: option.splits)
qed

lemma gen_file_group_names [simp]:
  "length (fg_hook_names (gen_file_group offs fg)) = fg_hook_count (gen_file_group offs fg)"
  by (simp add: gen_file_group_def)

lemma gen_file_group_ok_iff:
  "group_ok (gen_file_group offs fg) \<longleftrightarrow>
     (\<forall>h\<in>set (hf_hooks fg). offs (hf_lib fg) (hk_demangled h) \<noteq> None)"
  by (auto simp: group_ok_def gen_file_group_def gen_hook_cfgs_def map_filter_length
      split: option.splits)

end
