(* ===== verification/Bpf_Probes.thy ===== *)
theory Bpf_Probes
  imports Events Hook_Config
begin

text \<open>
  The BPF programs of \<open>src/bpf\<close>: the helpers of \<open>common.bpf.h\<close> and the twelve hooks of
  \<open>routing.bpf.c\<close>, \<open>app.bpf.c\<close> and \<open>sd.bpf.c\<close>. The kernel's helpers are an
  environment record. \<open>bpf_ringbuf_reserve\<close> gives memory whose contents are whatever the
  ring held before: a hook takes the reserved structure as an argument (\<open>None\<close> when the ring
  is full) and returns the structure it submits, with the fields it did not write as they were.
\<close>

section \<open>The kernel's side\<close>

record bpf_env =
  be_pid_tgid :: u64
  be_ktime_ns :: u64
  be_comm :: "byte list"
  be_probe_read_user :: "u64 \<Rightarrow> nat \<Rightarrow> byte list option"

record pt_regs =
  pt_parm1 :: u64
  pt_parm2 :: u64
  pt_parm3 :: u64
  pt_parm4 :: u64
  pt_parm5 :: u64
  pt_rc :: u64

section \<open>common.bpf.h\<close>

definition fill_header ::
    "bpf_env \<Rightarrow> u8 \<Rightarrow> u8 \<Rightarrow> u8 \<Rightarrow> bool \<Rightarrow> event_header \<Rightarrow> event_header" where
  "fill_header env mid hid dir is_ret h =
     (let pid_tgid = be_pid_tgid env in
      h\<lparr>timestamp_ns := be_ktime_ns env,
        pid := ucast (drop_bit 32 pid_tgid),
        tid := ucast pid_tgid,
        module_id := mid,
        hook_id := hid,
        direction := dir,
        is_retprobe := is_ret,
        comm := be_comm env\<rparr>)"

definition read_someip_header ::
    "bpf_env \<Rightarrow> routing_event \<Rightarrow> u64 \<Rightarrow> u32 \<Rightarrow> int \<times> routing_event" where
  "read_someip_header env e data len =
     (if data = 0 \<or> unat len < SOMEIP_HEADER_SIZE then (-1, e)
      else case be_probe_read_user env data SOMEIP_HEADER_SIZE of
        None \<Rightarrow> (-1, e)
      | Some hdr \<Rightarrow>
         (0, e\<lparr>re_service_id := push_bit 8 (ucast (hdr ! 0)) OR ucast (hdr ! 1),
               re_method_id := push_bit 8 (ucast (hdr ! 2)) OR ucast (hdr ! 3),
               re_payload_length :=
                 push_bit 24 (ucast (hdr ! 4)) OR push_bit 16 (ucast (hdr ! 5)) OR
                 push_bit 8 (ucast (hdr ! 6)) OR ucast (hdr ! 7),
               re_client_id := push_bit 8 (ucast (hdr ! 8)) OR ucast (hdr ! 9),
               re_session_id := push_bit 8 (ucast (hdr ! 10)) OR ucast (hdr ! 11),
               re_protocol_version := hdr ! 12,
               re_interface_version := hdr ! 13,
               re_message_type := hdr ! 14,
               re_return_code := hdr ! 15\<rparr>))"

section \<open>routing.bpf.c\<close>

text \<open>A program returns its exit code and the record it submitted, if any.\<close>

definition submit_routing ::
    "bpf_env \<Rightarrow> routing_event option \<Rightarrow> u8 \<Rightarrow> u8 \<Rightarrow> bool \<Rightarrow> u64 \<Rightarrow> u32 \<Rightarrow> i64 \<Rightarrow>
     int \<times> routing_event option" where
  "submit_routing env mem hid dir is_ret data_ptr data_len retval =
     (case mem of
        None \<Rightarrow> (0, None)
      | Some e \<Rightarrow>
          let e = e\<lparr>re_hdr := fill_header env MODULE_ROUTING hid dir is_ret (re_hdr e)\<rparr>;
              e = (if data_ptr \<noteq> 0 \<and> SOMEIP_HEADER_SIZE \<le> unat data_len
                   then snd (read_someip_header env e data_ptr data_len) else e);
              e = e\<lparr>re_retval := retval\<rparr>
          in (0, Some e))"

definition hook_rm_send_entry where
  "hook_rm_send_entry env mem ctx =
     submit_routing env mem HOOK_RM_SEND_ENTRY DIR_SEND False (pt_parm3 ctx) (ucast (pt_parm4 ctx)) 0"

definition hook_rm_send_ret where
  "hook_rm_send_ret env mem ctx =
     submit_routing env mem HOOK_RM_SEND_RET DIR_SEND True 0 0 (pt_rc ctx)"

definition hook_rm_send_to_entry where
  "hook_rm_send_to_entry env mem ctx =
     submit_routing env mem HOOK_RM_SEND_TO_ENTRY DIR_SEND False (pt_parm3 ctx) (ucast (pt_parm4 ctx)) 0"

definition hook_rm_send_to_ret where
  "hook_rm_send_to_ret env mem ctx =
     submit_routing env mem HOOK_RM_SEND_TO_RET DIR_SEND True 0 0 (pt_rc ctx)"

definition hook_rm_on_message where
  "hook_rm_on_message env mem ctx =
     submit_routing env mem HOOK_RM_ON_MESSAGE DIR_RECV False (pt_parm2 ctx) (ucast (pt_parm3 ctx)) 0"

lemmas rm_hook_defs =
  hook_rm_send_entry_def hook_rm_send_ret_def hook_rm_send_to_entry_def
  hook_rm_send_to_ret_def hook_rm_on_message_def

section \<open>app.bpf.c\<close>

definition submit_app ::
    "bpf_env \<Rightarrow> app_event option \<Rightarrow> u8 \<Rightarrow> u8 \<Rightarrow> bool \<Rightarrow> u64 \<Rightarrow> u64 \<Rightarrow> i64 \<Rightarrow>
     int \<times> app_event option" where
  "submit_app env mem hid dir is_ret this_ptr msg_ptr retval =
     (case mem of
        None \<Rightarrow> (0, None)
      | Some e \<Rightarrow>
          (0, Some (e\<lparr>ae_hdr := fill_header env MODULE_APP hid dir is_ret (ae_hdr e),
                      ae_this_ptr := this_ptr, ae_message_ptr := msg_ptr,
                      ae_retval := retval\<rparr>)))"

definition hook_app_send_entry where
  "hook_app_send_entry env mem ctx =
     submit_app env mem HOOK_APP_SEND_ENTRY DIR_SEND False (pt_parm1 ctx) (pt_parm2 ctx) 0"

definition hook_app_send_ret where
  "hook_app_send_ret env mem ctx =
     submit_app env mem HOOK_APP_SEND_RET DIR_SEND True 0 0 (pt_rc ctx)"

definition hook_app_on_message where
  "hook_app_on_message env mem ctx =
     submit_app env mem HOOK_APP_ON_MESSAGE DIR_RECV False (pt_parm1 ctx) (pt_parm2 ctx) 0"

lemmas app_hook_defs = hook_app_send_entry_def hook_app_send_ret_def hook_app_on_message_def

section \<open>sd.bpf.c\<close>

definition submit_sd ::
    "bpf_env \<Rightarrow> sd_event option \<Rightarrow> u8 \<Rightarrow> u8 \<Rightarrow> u16 \<Rightarrow> u16 \<Rightarrow> u16 \<Rightarrow> int \<times> sd_event option" where
  "submit_sd env mem hid dir svc inst evg =
     (case mem of
        None \<Rightarrow> (0, None)
      | Some e \<Rightarrow>
          (0, Some (e\<lparr>se_hdr := fill_header env MODULE_SD hid dir False (se_hdr e),
                      se_service_id := svc, se_instance_id := inst,
                      se_eventgroup_id := evg, se_ttl := 0\<rparr>)))"

definition hook_sd_send where
  "hook_sd_send env mem ctx =
     submit_sd env mem HOOK_SD_SEND DIR_SEND 0 0 (ucast (pt_parm2 ctx))"

definition hook_sd_process_offer where
  "hook_sd_process_offer env mem ctx =
     submit_sd env mem HOOK_SD_PROCESS_OFFER DIR_RECV
       (ucast (pt_parm2 ctx)) (ucast (pt_parm3 ctx)) 0"

definition hook_sd_send_subscription where
  "hook_sd_send_subscription env mem ctx =
     submit_sd env mem HOOK_SD_SEND_SUBSCRIPTION DIR_SEND
       (ucast (pt_parm3 ctx)) (ucast (pt_parm4 ctx)) (ucast (pt_parm5 ctx))"

definition hook_sd_handle_subscription where
  "hook_sd_handle_subscription env mem ctx =
     submit_sd env mem HOOK_SD_HANDLE_SUBSCRIPTION DIR_RECV
       (ucast (pt_parm2 ctx)) (ucast (pt_parm3 ctx)) (ucast (pt_parm4 ctx))"

lemmas sd_hook_defs =
  hook_sd_send_def hook_sd_process_offer_def hook_sd_send_subscription_def
  hook_sd_handle_subscription_def

section \<open>Facts\<close>

lemma or_eq_plus:
  "(\<And>n. bit a n \<Longrightarrow> bit b n \<Longrightarrow> False) \<Longrightarrow> (a OR b :: 'a::len word) = a + b"
proof -
  assume "\<And>n. bit a n \<Longrightarrow> bit b n \<Longrightarrow> False"
  then have "a AND b = 0" by (intro bit_word_eqI) (auto simp: bit_simps)
  then show ?thesis by (simp add: disjunctive_add_eq_or)
qed

lemma be16_bits:
  "(push_bit 8 (ucast (b0 :: byte)) OR ucast (b1 :: byte) :: u16) = of_nat (be_dec [b0, b1])"
  by (subst or_eq_plus, force simp: bit_simps dest: bit_imp_le_length)
     (auto simp: be_dec_def push_bit_eq_mult)

lemma be32_bits:
  "(push_bit 24 (ucast (b0 :: byte)) OR push_bit 16 (ucast (b1 :: byte)) OR
    push_bit 8 (ucast (b2 :: byte)) OR ucast (b3 :: byte) :: u32) = of_nat (be_dec [b0, b1, b2, b3])"
  by (subst or_eq_plus, force simp: bit_simps dest: bit_imp_le_length)+
     (auto simp: be_dec_def push_bit_eq_mult algebra_simps)

lemma fill_header_wf:
  "length (be_comm env) = 16 \<Longrightarrow> header_wf (fill_header env m i d r h)"
  by (simp add: fill_header_def header_wf_def Let_def)

lemma read_someip_header_frame [frame_simps]:
  "re_hdr (snd (read_someip_header env e data len)) = re_hdr e"
  "re_retval (snd (read_someip_header env e data len)) = re_retval e"
  by (auto simp: read_someip_header_def split: option.splits)

lemma read_someip_header_error:
  "fst (read_someip_header env e data len) = -1 \<Longrightarrow> snd (read_someip_header env e data len) = e"
  by (auto simp: read_someip_header_def split: option.splits if_splits)

lemma submit_routing_header:
  "snd (submit_routing env (Some e) i d r p l v) = Some e' \<Longrightarrow>
     re_hdr e' = fill_header env MODULE_ROUTING i d r (re_hdr e)"
  by (auto simp: submit_routing_def Let_def frame_simps split: if_splits)

end
