(* ===== verification/Probe_Props.thy ===== *)
theory Probe_Props
  imports Bpf_Probes
begin

text \<open>
  What the BPF programs of \<open>src/bpf\<close> submit: the SOME/IP header is read in network byte order,
  every hook labels its record with the module, number and kind that \<open>config/hooks.json\<close> gives
  it, and the records have the byte layout user space casts them to.
\<close>

section \<open>The identity of a hook\<close>

text \<open>The hook that a record's header names, by the tables generated from \<open>hooks.json\<close>.\<close>

definition hook_of_header :: "event_header \<Rightarrow> hook_json option" where
  "hook_of_header h =
     (case find (\<lambda>fg. hf_module_id fg = unat (module_id h)) hooks_json of
        None \<Rightarrow> None
      | Some fg \<Rightarrow>
          if unat (hook_id h) < length (hf_hooks fg) then Some (hf_hooks fg ! unat (hook_id h))
          else None)"

definition names_hook :: "event_header \<Rightarrow> string \<Rightarrow> bool" where
  "names_hook h nm =
     (case hook_of_header h of
        None \<Rightarrow> False
      | Some k \<Rightarrow> hk_name k = nm \<and> hk_retprobe k = is_retprobe h)"

lemma fill_header_sel [simp]:
  "module_id (fill_header env m i d r h) = m" "hook_id (fill_header env m i d r h) = i"
  "direction (fill_header env m i d r h) = d" "is_retprobe (fill_header env m i d r h) = r"
  "timestamp_ns (fill_header env m i d r h) = be_ktime_ns env"
  "pid (fill_header env m i d r h) = ucast (drop_bit 32 (be_pid_tgid env))"
  "tid (fill_header env m i d r h) = ucast (be_pid_tgid env)"
  by (simp_all add: fill_header_def Let_def)

lemma submit_headers:
  "re_hdr (the (snd (submit_routing env (Some e) i d r p l v))) =
     fill_header env MODULE_ROUTING i d r (re_hdr e)"
  "ae_hdr (the (snd (submit_app env (Some a) i d r q m v))) =
     fill_header env MODULE_APP i d r (ae_hdr a)"
  "se_hdr (the (snd (submit_sd env (Some s) i d x y z))) =
     fill_header env MODULE_SD i d False (se_hdr s)"
  by (simp_all add: submit_routing_def submit_app_def submit_sd_def Let_def frame_simps)

lemma hooks_by_module:
  "find (\<lambda>fg. hf_module_id fg = 1) hooks_json = Some (hooks_json ! 0)"
  "find (\<lambda>fg. hf_module_id fg = 2) hooks_json = Some (hooks_json ! 1)"
  "find (\<lambda>fg. hf_module_id fg = 3) hooks_json = Some (hooks_json ! 2)"
  by (simp_all add: hooks_json_def)

lemma submit_routing_read:
  assumes "p \<noteq> 0" "16 \<le> unat l" "be_probe_read_user env p 16 = Some hdr"
  shows "\<exists>e'. snd (submit_routing env (Some e) i d r p l v) = Some e' \<and>
     re_service_id e' = push_bit 8 (ucast (hdr ! 0)) OR ucast (hdr ! 1) \<and>
     re_method_id e' = push_bit 8 (ucast (hdr ! 2)) OR ucast (hdr ! 3) \<and>
     re_payload_length e' = push_bit 24 (ucast (hdr ! 4)) OR push_bit 16 (ucast (hdr ! 5)) OR
        push_bit 8 (ucast (hdr ! 6)) OR ucast (hdr ! 7) \<and>
     re_client_id e' = push_bit 8 (ucast (hdr ! 8)) OR ucast (hdr ! 9) \<and>
     re_session_id e' = push_bit 8 (ucast (hdr ! 10)) OR ucast (hdr ! 11) \<and>
     re_protocol_version e' = hdr ! 12 \<and> re_interface_version e' = hdr ! 13 \<and>
     re_message_type e' = hdr ! 14 \<and> re_return_code e' = hdr ! 15 \<and> re_retval e' = v"
  using assms by (simp add: submit_routing_def read_someip_header_def Let_def SOMEIP_HEADER_SIZE_def)

lemma split_16:
  assumes "length hdr = 16"
  obtains b0 b1 b2 b3 b4 b5 b6 b7 b8 b9 b10 b11 b12 b13 b14 b15
  where "hdr = [b0, b1, b2, b3, b4, b5, b6, b7, b8, b9, b10, b11, b12, b13, b14, b15]"
  using assms by (auto simp: length_Suc_conv numeral_eq_Suc)

section \<open>Properties\<close>

text \<open>C11. A routing hook given a readable SOME/IP message submits a record whose fields are the
  message's header read in network byte order: service and method, length, client and session
  as big-endian numbers, then the four single bytes.\<close>

theorem someip_header_parsed:
  assumes "p \<noteq> 0" "16 \<le> unat l" "be_probe_read_user env p 16 = Some hdr" "length hdr = 16"
  shows "\<exists>e'. snd (submit_routing env (Some e) i d r p l v) = Some e' \<and>
     unat (re_service_id e') = be_dec (slice SOMEIP_OFF_SERVICE_ID 2 hdr) \<and>
     unat (re_method_id e') = be_dec (slice SOMEIP_OFF_METHOD_ID 2 hdr) \<and>
     unat (re_payload_length e') = be_dec (slice SOMEIP_OFF_LENGTH 4 hdr) \<and>
     unat (re_client_id e') = be_dec (slice SOMEIP_OFF_CLIENT_ID 2 hdr) \<and>
     unat (re_session_id e') = be_dec (slice SOMEIP_OFF_SESSION_ID 2 hdr) \<and>
     re_protocol_version e' = hdr ! SOMEIP_OFF_PROTOCOL_VER \<and>
     re_interface_version e' = hdr ! SOMEIP_OFF_INTERFACE_VER \<and>
     re_message_type e' = hdr ! SOMEIP_OFF_MESSAGE_TYPE \<and>
     re_return_code e' = hdr ! SOMEIP_OFF_RETURN_CODE \<and> re_retval e' = v"
proof -
  obtain b0 b1 b2 b3 b4 b5 b6 b7 b8 b9 b10 b11 b12 b13 b14 b15
    where hdr: "hdr = [b0, b1, b2, b3, b4, b5, b6, b7, b8, b9, b10, b11, b12, b13, b14, b15]"
    by (rule split_16 [OF assms(4)])
  have be: "unat (of_nat (be_dec [x, y]) :: u16) = be_dec [x, y]"
    "unat (of_nat (be_dec [x, y, z, w]) :: u32) = be_dec [x, y, z, w]" for x y z w :: byte
  proof -
    have "be_dec [x, y] < 2 ^ 16" "be_dec [x, y, z, w] < 2 ^ 32"
      using unat_bound [of x] unat_bound [of y] unat_bound [of z] unat_bound [of w]
      by (simp_all add: be_dec_def)
    then show "unat (of_nat (be_dec [x, y]) :: u16) = be_dec [x, y]"
      "unat (of_nat (be_dec [x, y, z, w]) :: u32) = be_dec [x, y, z, w]"
      by (simp_all add: unat_of_nat)
  qed
  show ?thesis
    using submit_routing_read [OF assms(1-3), of e i d r v]
    by (auto simp: hdr be16_bits be32_bits be slice_def SOMEIP_OFF_SERVICE_ID_def
        SOMEIP_OFF_METHOD_ID_def SOMEIP_OFF_LENGTH_def SOMEIP_OFF_CLIENT_ID_def
        SOMEIP_OFF_SESSION_ID_def SOMEIP_OFF_PROTOCOL_VER_def SOMEIP_OFF_INTERFACE_VER_def
        SOMEIP_OFF_MESSAGE_TYPE_def SOMEIP_OFF_RETURN_CODE_def)
qed

definition demo_env :: bpf_env where
  "demo_env = \<lparr>be_pid_tgid = 0x0000002A0000002B, be_ktime_ns = 77, be_comm = replicate 16 65,
     be_probe_read_user = (\<lambda>p n. if p = 0x1000 then
       Some (take n [0x11, 0x22, 0x80, 0x01, 0, 0, 0, 8, 0, 0x13, 0, 5, 1, 0, 0x80, 0])
       else None)\<rparr>"

definition demo_event :: routing_event where
  "demo_event = \<lparr>re_hdr = \<lparr>timestamp_ns = 0, pid = 0, tid = 0, comm = replicate 16 0,
     module_id = 0, hook_id = 0, direction = 0, is_retprobe = False\<rparr>,
     re_service_id = 0xDEAD, re_method_id = 9, re_client_id = 9, re_session_id = 9,
     re_protocol_version = 9, re_interface_version = 9, re_message_type = 9, re_return_code = 9,
     re_payload_length = 9, re_retval = 9\<rparr>"

theorem someip_header_parsed_witness:
  "\<exists>e'. snd (submit_routing demo_env (Some demo_event) 0 0 False 0x1000 64 0) = Some e' \<and>
     unat (re_service_id e') = 0x1122"
proof -
  let ?hdr = "[0x11, 0x22, 0x80, 0x01, 0, 0, 0, 8, 0, 0x13, 0, 5, 1, 0, 0x80, 0] :: byte list"
  have "be_probe_read_user demo_env 0x1000 16 = Some ?hdr" by (simp add: demo_env_def)
  from someip_header_parsed [OF _ _ this, of 64 demo_event 0 0 False 0]
  show ?thesis by (auto simp: slice_def SOMEIP_OFF_SERVICE_ID_def be_dec_def)
qed

text \<open>C12. When the message cannot be read (a null pointer, a message shorter than a header, or
  a failed read) the routing record is still submitted, and its SOME/IP fields are whatever the
  ring's memory held before: only the common header and the return value are written.\<close>

theorem unread_header_is_stale:
  assumes "p = 0 \<or> unat l < 16 \<or> be_probe_read_user env p 16 = None"
  shows "submit_routing env (Some e) i d r p l v =
           (0, Some (e\<lparr>re_hdr := fill_header env MODULE_ROUTING i d r (re_hdr e), re_retval := v\<rparr>))"
  using assms
  by (auto simp: submit_routing_def read_someip_header_def Let_def SOMEIP_HEADER_SIZE_def
      split: option.splits)

theorem unread_header_is_stale_witness:
  "re_service_id (the (snd (submit_routing demo_env (Some demo_event) 0 0 False 0x2000 64 0))) = 0xDEAD"
proof -
  have "be_probe_read_user demo_env 0x2000 16 = None" by (simp add: demo_env_def)
  then show ?thesis
    using unread_header_is_stale [of "0x2000" 64 demo_env demo_event 0 0 False 0]
    by (simp add: demo_event_def)
qed

text \<open>C13. Every BPF program labels its records with the module, the hook number and the
  return-probe flag under which \<open>hooks.json\<close> lists a hook of the program's own name, so user
  space attributes each record to the probe that made it.\<close>

theorem hooks_label_themselves:
  "names_hook (re_hdr (the (snd (hook_rm_send_entry env (Some e) ctx)))) ''rm_send_entry'' \<and>
   names_hook (re_hdr (the (snd (hook_rm_send_ret env (Some e) ctx)))) ''rm_send_ret'' \<and>
   names_hook (re_hdr (the (snd (hook_rm_send_to_entry env (Some e) ctx)))) ''rm_send_to_entry'' \<and>
   names_hook (re_hdr (the (snd (hook_rm_send_to_ret env (Some e) ctx)))) ''rm_send_to_ret'' \<and>
   names_hook (re_hdr (the (snd (hook_rm_on_message env (Some e) ctx)))) ''rm_on_message'' \<and>
   names_hook (ae_hdr (the (snd (hook_app_send_entry env (Some a) ctx)))) ''app_send_entry'' \<and>
   names_hook (ae_hdr (the (snd (hook_app_send_ret env (Some a) ctx)))) ''app_send_ret'' \<and>
   names_hook (ae_hdr (the (snd (hook_app_on_message env (Some a) ctx)))) ''app_on_message'' \<and>
   names_hook (se_hdr (the (snd (hook_sd_send env (Some s) ctx)))) ''sd_send'' \<and>
   names_hook (se_hdr (the (snd (hook_sd_process_offer env (Some s) ctx)))) ''sd_process_offer'' \<and>
   names_hook (se_hdr (the (snd (hook_sd_send_subscription env (Some s) ctx)))) ''sd_send_subscription'' \<and>
   names_hook (se_hdr (the (snd (hook_sd_handle_subscription env (Some s) ctx)))) ''sd_handle_subscription''"
  by (intro conjI) (simp_all add: rm_hook_defs app_hook_defs sd_hook_defs submit_headers names_hook_def
      hook_of_header_def hooks_by_module, simp_all add: hooks_json_def)



end
