(* ===== verification/Output.thy ===== *)
theory Output
  imports Events Hook_Config
begin

text \<open>
  The log writers of \<open>src/user/output\<close>: the interface \<open>ILogWriter\<close>, \<open>StdoutWriter\<close>
  and \<open>FileWriter\<close>. A writer's state holds the text it has written so far. What the
  operating system decides is a field of the state: whether \<open>fopen\<close> of the path succeeds and
  the offset of local time from UTC. The payload callback is given as the text it produces for
  a buffer of a given size (\<open>None\<close> is the null callback).
\<close>

type_synonym format_callback = "nat \<Rightarrow> string"

section \<open>Common text\<close>

definition module_str :: "u8 \<Rightarrow> string" where
  "module_str m =
     (if m = 1 then ''routing'' else if m = 2 then ''app'' else if m = 3 then ''sd'' else ''?'')"

definition dir_name :: "u8 \<Rightarrow> string" where
  "dir_name d = (if d = DIR_SEND then ''SEND'' else ''RECV'')"

text \<open>The JSON head, printed by both writers with the same conversion string.\<close>

definition event_json_head :: "event_header \<Rightarrow> string \<Rightarrow> string" where
  "event_json_head h hook =
     ''{\"ts\":'' @ dec_u (timestamp_ns h) @ '',\"pid\":'' @ dec_u (pid h) @
     '',\"tid\":'' @ dec_u (tid h) @ '',\"comm\":\"'' @ c_str (comm h) @ ''\",'' @
     ''\"module\":\"'' @ module_str (module_id h) @ ''\",\"hook\":\"'' @ hook @
     ''\",\"dir\":\"'' @ dir_name (direction h) @ ''\",\"is_ret\":'' @
     (if is_retprobe h then ''true'' else ''false'')"

definition json_payload :: "format_callback option \<Rightarrow> string" where
  "json_payload fmt =
     (case fmt of None \<Rightarrow> []
      | Some f \<Rightarrow> let buf = f 512 in if buf \<noteq> [] then '','' @ buf else [])"

definition nl :: string where "nl = [char_of (10 :: nat)]"

definition esc :: "string \<Rightarrow> string" where "esc s = char_of (27 :: nat) # s"

section \<open>StdoutWriter\<close>

record stdout_writer =
  so_json :: bool
  so_utc_offset :: int
  so_text :: string

definition module_tag :: "u8 \<Rightarrow> string" where
  "module_tag m =
     (if m = MODULE_ROUTING then esc ''[31m[R]'' @ esc ''[0m''
      else if m = MODULE_APP then esc ''[32m[A]'' @ esc ''[0m''
      else if m = MODULE_SD then esc ''[34m[S]'' @ esc ''[0m'' else ''?'')"

text \<open>\<open>localtime_r\<close> and \<open>strftime(\"%H:%M:%S\")\<close>.\<close>

definition strftime_hms :: "int \<Rightarrow> nat \<Rightarrow> string" where
  "strftime_hms utc_off sec =
     (let d = nat ((int sec + utc_off) mod 86400)
      in pad_zero 2 (dec_digits (d div 3600)) @ '':'' @
         pad_zero 2 (dec_digits (d div 60 mod 60)) @ '':'' @ pad_zero 2 (dec_digits (d mod 60)))"

definition stdout_write_event ::
    "stdout_writer \<Rightarrow> event_header \<Rightarrow> string \<Rightarrow> format_callback option \<Rightarrow> stdout_writer" where
  "stdout_write_event w h hook fmt =
     (if so_json w then
        w\<lparr>so_text := so_text w @ event_json_head h hook @ json_payload fmt @ ''}'' @ nl\<rparr>
      else
        let sec = unat (timestamp_ns h) div 1000000000;
            ns = unat (timestamp_ns h) mod 1000000000;
            ret = (if is_retprobe h then '' [RET]'' else [])
        in w\<lparr>so_text := so_text w @
               module_tag (module_id h) @ '' '' @ strftime_hms (so_utc_offset w) sec @ ''.'' @
               pad_zero 6 (dec_digits (ns div 1000)) @
               '' PID:'' @ pad_right 6 (dec_u (pid h)) @ '' TID:'' @ pad_right 6 (dec_u (tid h)) @
               '' '' @ pad_right 16 (c_str (comm h)) @ '' '' @ pad_right 20 hook @ ret @ '' '' @
               dir_name (direction h) @ nl @
               (case fmt of None \<Rightarrow> []
                | Some f \<Rightarrow> let buf = f 256 in if buf \<noteq> [] then ''  '' @ buf @ nl else [])\<rparr>)"

definition stdout_write_stats :: "stdout_writer \<Rightarrow> string \<Rightarrow> stdout_writer" where
  "stdout_write_stats w l = w\<lparr>so_text := so_text w @ ''[STATS] '' @ l @ nl\<rparr>"

definition stdout_write_latency :: "stdout_writer \<Rightarrow> string \<Rightarrow> stdout_writer" where
  "stdout_write_latency w l = w\<lparr>so_text := so_text w @ ''[LATENCY] '' @ l @ nl\<rparr>"

section \<open>FileWriter\<close>

record file_writer =
  fw_path :: string
  fw_json :: bool
  fw_can_open :: bool
  fw_open :: bool
  fw_text :: string

definition ensure_open :: "file_writer \<Rightarrow> bool \<times> file_writer" where
  "ensure_open w =
     (if fw_open w then (True, w)
      else if fw_can_open w then (True, w\<lparr>fw_open := True\<rparr>) else (False, w))"

definition file_writer_new :: "string \<Rightarrow> bool \<Rightarrow> bool \<Rightarrow> file_writer" where
  "file_writer_new p j can_open =
     snd (ensure_open \<lparr>fw_path = p, fw_json = j, fw_can_open = can_open, fw_open = False,
                       fw_text = []\<rparr>)"

definition file_append :: "file_writer \<Rightarrow> string \<Rightarrow> file_writer" where
  "file_append w s =
     (case ensure_open w of (ok, w) \<Rightarrow> if ok then w\<lparr>fw_text := fw_text w @ s\<rparr> else w)"

definition file_write_event ::
    "file_writer \<Rightarrow> event_header \<Rightarrow> string \<Rightarrow> format_callback option \<Rightarrow> file_writer" where
  "file_write_event w h hook fmt =
     file_append w (event_json_head h hook @ json_payload fmt @ ''}'' @ nl)"

definition file_write_stats :: "file_writer \<Rightarrow> string \<Rightarrow> file_writer" where
  "file_write_stats w l = file_append w (''[STATS] '' @ l @ nl)"

definition file_write_latency :: "file_writer \<Rightarrow> string \<Rightarrow> file_writer" where
  "file_write_latency w l = file_append w (''[LATENCY] '' @ l @ nl)"

section \<open>ILogWriter\<close>

text \<open>The interface: virtual dispatch on the writer's class.\<close>

datatype log_writer = Stdout_writer stdout_writer | File_writer file_writer

fun write_event ::
    "log_writer \<Rightarrow> event_header \<Rightarrow> string \<Rightarrow> format_callback option \<Rightarrow> log_writer" where
  "write_event (Stdout_writer w) h hook fmt = Stdout_writer (stdout_write_event w h hook fmt)"
| "write_event (File_writer w) h hook fmt = File_writer (file_write_event w h hook fmt)"

fun write_stats :: "log_writer \<Rightarrow> string \<Rightarrow> log_writer" where
  "write_stats (Stdout_writer w) l = Stdout_writer (stdout_write_stats w l)"
| "write_stats (File_writer w) l = File_writer (file_write_stats w l)"

fun write_latency :: "log_writer \<Rightarrow> string \<Rightarrow> log_writer" where
  "write_latency (Stdout_writer w) l = Stdout_writer (stdout_write_latency w l)"
| "write_latency (File_writer w) l = File_writer (file_write_latency w l)"

fun writer_name :: "log_writer \<Rightarrow> string" where
  "writer_name (Stdout_writer w) = ''stdout''"
| "writer_name (File_writer w) = fw_path w"

fun written :: "log_writer \<Rightarrow> string" where
  "written (Stdout_writer w) = so_text w"
| "written (File_writer w) = fw_text w"

text \<open>The calls that the statistics make on their writer, in order.\<close>

datatype log_call = Log_stats string | Log_latency string

fun log_line :: "log_call \<Rightarrow> string" where
  "log_line (Log_stats l) = l"
| "log_line (Log_latency l) = l"

fun do_log :: "log_call \<Rightarrow> log_writer \<Rightarrow> log_writer" where
  "do_log (Log_stats l) w = write_stats w l"
| "do_log (Log_latency l) w = write_latency w l"

definition do_logs :: "log_call list \<Rightarrow> log_writer \<Rightarrow> log_writer" where
  "do_logs cs w = fold do_log cs w"

section \<open>The contract of a log writer\<close>

text \<open>
  What a client of \<open>ILogWriter\<close> relies on: a writer only appends, and once its sink is
  there every line it is given arrives, prefixed with its tag and ended by a newline.
\<close>

locale log_sink =
  fixes stats :: "'w \<Rightarrow> string \<Rightarrow> 'w"
    and latency :: "'w \<Rightarrow> string \<Rightarrow> 'w"
    and out :: "'w \<Rightarrow> string"
    and ready :: "'w \<Rightarrow> bool"
  assumes stats_text: "ready w \<Longrightarrow> out (stats w l) = out w @ ''[STATS] '' @ l @ nl"
    and latency_text: "ready w \<Longrightarrow> out (latency w l) = out w @ ''[LATENCY] '' @ l @ nl"
    and lost: "\<not> ready w \<Longrightarrow> stats w l = w \<and> latency w l = w"
    and ready_kept: "ready w \<Longrightarrow> ready (stats w l) \<and> ready (latency w l)"
begin

fun call :: "log_call \<Rightarrow> 'w \<Rightarrow> 'w" where
  "call (Log_stats l) w = stats w l"
| "call (Log_latency l) w = latency w l"

fun tagged :: "log_call \<Rightarrow> string" where
  "tagged (Log_stats l) = ''[STATS] '' @ l @ nl"
| "tagged (Log_latency l) = ''[LATENCY] '' @ l @ nl"

lemma calls_text: "ready w \<Longrightarrow> out (fold call cs w) = out w @ concat (map tagged cs)"
proof (induction cs arbitrary: w)
  case Nil
  then show ?case by simp
next
  case (Cons c cs)
  then show ?case
    by (cases c) (simp_all add: stats_text latency_text ready_kept)
qed

lemma calls_lost: "\<not> ready w \<Longrightarrow> fold call cs w = w"
proof (induction cs)
  case Nil
  then show ?case by simp
next
  case (Cons c cs)
  then show ?case by (cases c) (simp_all add: lost)
qed

lemma calls_append_only: "\<exists>t. out (fold call cs w) = out w @ t"
  by (cases "ready w") (auto simp: calls_text calls_lost)

end

definition writer_ready :: "log_writer \<Rightarrow> bool" where
  "writer_ready w =
     (case w of Stdout_writer _ \<Rightarrow> True | File_writer f \<Rightarrow> fw_open f \<or> fw_can_open f)"

interpretation sink: log_sink write_stats write_latency written writer_ready
proof unfold_locales
  fix w l
  show "writer_ready w \<Longrightarrow> written (write_stats w l) = written w @ ''[STATS] '' @ l @ nl"
    by (cases w) (auto simp: writer_ready_def stdout_write_stats_def file_write_stats_def
        file_append_def ensure_open_def)
  show "writer_ready w \<Longrightarrow> written (write_latency w l) = written w @ ''[LATENCY] '' @ l @ nl"
    by (cases w) (auto simp: writer_ready_def stdout_write_latency_def file_write_latency_def
        file_append_def ensure_open_def)
  show "\<not> writer_ready w \<Longrightarrow> write_stats w l = w \<and> write_latency w l = w"
    by (cases w) (auto simp: writer_ready_def file_write_stats_def file_write_latency_def
        file_append_def ensure_open_def)
  show "writer_ready w \<Longrightarrow> writer_ready (write_stats w l) \<and> writer_ready (write_latency w l)"
    by (cases w) (auto simp: writer_ready_def file_write_stats_def file_write_latency_def
        stdout_write_stats_def stdout_write_latency_def file_append_def ensure_open_def)
qed

lemma do_logs_sink: "do_logs cs w = fold sink.call cs w"
proof -
  have "do_log = sink.call"
  proof (intro ext)
    fix c w show "do_log c w = sink.call c w" by (cases c) simp_all
  qed
  then show ?thesis by (simp add: do_logs_def)
qed

lemma written_do_logs:
  "writer_ready w \<Longrightarrow> written (do_logs cs w) = written w @ concat (map sink.tagged cs)"
  by (simp add: do_logs_sink sink.calls_text)

lemma write_event_ready: "writer_ready w \<Longrightarrow> writer_ready (write_event w h hook fmt)"
  by (cases w) (auto simp: writer_ready_def file_write_event_def file_append_def ensure_open_def)

lemma write_event_append_only: "\<exists>t. written (write_event w h hook fmt) = written w @ t"
  by (cases w) (auto simp: stdout_write_event_def file_write_event_def file_append_def
      ensure_open_def Let_def)

lemma do_logs_append_only: "\<exists>t. written (do_logs cs w) = written w @ t"
  by (simp add: do_logs_sink sink.calls_append_only)

end
