(* ===== verification/Float_Text.thy ===== *)
theory Float_Text
  imports Prelude
begin

text \<open>
  The two \<open>%.1f\<close> conversions of the statistics code. A \<open>double\<close> is the natural number
  \<open>V\<close> with value \<open>V / 2^100\<close>: every double between \<open>2^-47\<close> and \<open>2^64\<close>, the only ones
  that occur (nanosecond counts and their quotients by 1000 and 10^9), is such a number.
  \<open>dbl n d\<close> is the double nearest to \<open>n / d\<close> (53 significant bits, ties to even), which is
  what a conversion from an integer (\<open>d = 1\<close>) and an IEEE division give; \<open>fmt_1f\<close> prints
  one decimal, rounding the exact binary value (ties to even), as glibc does.
\<close>

definition dbl_scale :: nat where "dbl_scale = 2 ^ 100"

fun bitlen :: "nat \<Rightarrow> nat" where
  "bitlen n = (if n = 0 then 0 else Suc (bitlen (n div 2)))"

declare bitlen.simps [simp del]

definition round_half_even :: "nat \<Rightarrow> nat \<Rightarrow> nat" where
  "round_half_even n d =
     (let q = n div d; r = n mod d
      in if 2 * r < d then q else if d < 2 * r then Suc q else if even q then q else Suc q)"

definition dbl :: "nat \<Rightarrow> nat \<Rightarrow> nat" where
  "dbl n d =
     (let k = bitlen (n * dbl_scale div d) - 53
      in round_half_even (n * dbl_scale) (d * 2 ^ k) * 2 ^ k)"

definition dbl_of_int :: "nat \<Rightarrow> nat" where
  "dbl_of_int n = dbl n 1"

definition dbl_div :: "nat \<Rightarrow> nat \<Rightarrow> nat" where
  "dbl_div V m = dbl V (m * dbl_scale)"

definition fmt_1f :: "nat \<Rightarrow> string" where
  "fmt_1f V =
     (let t = round_half_even (V * 10) dbl_scale
      in dec_digits (t div 10) @ ''.'' @ dec_digits (t mod 10))"

lemma round_half_even_le: "round_half_even n d \<le> Suc (n div d)"
  by (simp add: round_half_even_def Let_def)

lemma bitlen_le: "0 < n \<Longrightarrow> 2 ^ (bitlen n - 1) \<le> n"
proof (induction n rule: bitlen.induct)
  case (1 n)
  show ?case
  proof (cases "n div 2 = 0")
    case True
    with "1.prems" show ?thesis by (subst bitlen.simps) (simp add: bitlen.simps)
  next
    case False
    then have ih: "2 ^ (bitlen (n div 2) - 1) \<le> n div 2" using "1.IH" "1.prems" by simp
    obtain b where b: "bitlen (n div 2) = Suc b"
      using False by (subst (asm) bitlen.simps) (auto simp: bitlen.simps [of "n div 2"])
    have "bitlen n = Suc (Suc b)" using "1.prems" b by (subst bitlen.simps) simp
    with ih b show ?thesis by simp
  qed
qed

lemma dbl_le: "dbl n d \<le> 2 * (n * dbl_scale div d) + 1"
proof -
  define q where "q = n * dbl_scale div d"
  define k where "k = bitlen q - 53"
  have "dbl n d \<le> Suc (n * dbl_scale div (d * 2 ^ k)) * 2 ^ k"
    unfolding dbl_def Let_def k_def q_def by (intro mult_right_mono round_half_even_le) simp
  also have "\<dots> = (q div 2 ^ k) * 2 ^ k + 2 ^ k" by (simp add: q_def div_mult2_eq)
  also have "\<dots> \<le> q + 2 ^ k" by (simp add: div_times_less_eq_dividend)
  also have "2 ^ k \<le> q + 1"
  proof (cases "q = 0")
    case True
    then show ?thesis by (simp add: k_def bitlen.simps)
  next
    case False
    have "(2::nat) ^ k \<le> 2 ^ (bitlen q - 1)" unfolding k_def by (intro power_increasing) auto
    with bitlen_le [of q] False show ?thesis by linarith
  qed
  finally show ?thesis by (simp add: q_def)
qed

lemma length_fmt_1f:
  assumes "0 < k" "Suc (V div dbl_scale) < 10 ^ k"
  shows "length (fmt_1f V) \<le> k + 2"
proof -
  define t where "t = round_half_even (V * 10) dbl_scale"
  have "t \<le> Suc (V * 10 div dbl_scale)" unfolding t_def by (rule round_half_even_le)
  also have "V * 10 div dbl_scale \<le> 10 * (V div dbl_scale) + 9"
  proof -
    have "V mod dbl_scale < dbl_scale" by (simp add: dbl_scale_def)
    then have "V * 10 < 10 * (V div dbl_scale * dbl_scale) + 10 * dbl_scale"
      using div_mult_mod_eq [of V dbl_scale] by linarith
    then have "V * 10 < (10 * (V div dbl_scale) + 10) * dbl_scale"
      by (simp add: distrib_right mult.assoc)
    then have "V * 10 div dbl_scale < 10 * (V div dbl_scale) + 10"
      by (rule less_mult_imp_div_less)
    then show ?thesis by simp
  qed
  finally have "t div 10 \<le> Suc (V div dbl_scale)" by linarith
  with assms have "t div 10 < 10 ^ k" by simp
  then have "length (dec_digits (t div 10)) \<le> k" using assms(1) by (intro length_dec_digits)
  moreover have "length (dec_digits (t mod 10)) \<le> 1" by (intro length_dec_digits) simp_all
  ultimately show ?thesis by (simp add: fmt_1f_def Let_def t_def [symmetric])
qed

lemma twice_div_le: "0 < m \<Longrightarrow> 2 * (a div m) \<le> 2 * a div (m :: nat)"
  by (simp add: less_eq_div_iff_mult_less_eq mult.assoc)

lemma length_fmt_div:
  assumes "0 < k" "0 < m" "n < N" "4 * N div m + 3 \<le> 10 ^ k"
  shows "length (fmt_1f (dbl_div (dbl_of_int n) m)) \<le> k + 2"
proof (rule length_fmt_1f [OF assms(1)])
  have sc: "0 < dbl_scale" by (simp add: dbl_scale_def)
  have a: "dbl_of_int n \<le> 2 * (n * dbl_scale) + 1"
    unfolding dbl_of_int_def using dbl_le [of n 1] by simp
  have "dbl_div (dbl_of_int n) m \<le> 2 * (dbl_of_int n * dbl_scale div (m * dbl_scale)) + 1"
    unfolding dbl_div_def by (rule dbl_le)
  also have "\<dots> = 2 * (dbl_of_int n div m) + 1" using sc by simp
  also have "\<dots> \<le> 2 * ((2 * (n * dbl_scale) + 1) div m) + 1"
    using a by (simp add: div_le_mono)
  also have "\<dots> \<le> (4 * (n * dbl_scale) + 2) div m + 1"
    using twice_div_le [OF assms(2), of "2 * (n * dbl_scale) + 1"] by simp
  also have "\<dots> \<le> (4 * N * dbl_scale) div m + 1"
  proof -
    have "n * dbl_scale + dbl_scale \<le> N * dbl_scale"
      using assms(3) by (metis Suc_leI add.commute mult_Suc mult_le_mono1)
    moreover have "2 \<le> dbl_scale" by (simp add: dbl_scale_def)
    ultimately have "4 * (n * dbl_scale) + 2 \<le> 4 * N * dbl_scale" by linarith
    then show ?thesis by (simp add: div_le_mono)
  qed
  finally have le: "dbl_div (dbl_of_int n) m \<le> (4 * N * dbl_scale) div m + 1" .
  have "(4 * N * dbl_scale) div m < (4 * N div m + 1) * dbl_scale"
  proof (rule less_mult_imp_div_less)
    have "4 * N < (4 * N div m + 1) * m" using assms(2)
      by (simp add: dividend_less_div_times)
    then show "4 * N * dbl_scale < (4 * N div m + 1) * dbl_scale * m"
      using sc by (metis mult.commute mult.left_commute mult_less_mono2)
  qed
  with le have "dbl_div (dbl_of_int n) m \<le> (4 * N div m + 1) * dbl_scale" by linarith
  then have "dbl_div (dbl_of_int n) m div dbl_scale \<le> 4 * N div m + 1"
    using sc by (metis div_le_mono nonzero_mult_div_cancel_right not_gr_zero)
  with assms(4) show "Suc (dbl_div (dbl_of_int n) m div dbl_scale) < 10 ^ k" by linarith
qed

lemmas float_eval =
  fmt_1f_def dbl_div_def dbl_of_int_def dbl_def round_half_even_def dbl_scale_def
  bitlen.simps dec_digits.simps Let_def char_of_def bit_0

lemma fmt_1f_examples:
  "fmt_1f (dbl_div (dbl_of_int 334200) 1000) = ''334.2''"
  "fmt_1f (dbl_div (dbl_of_int 1250) 1000) = ''1.2''"
  "fmt_1f (dbl_div (dbl_of_int 1350) 1000) = ''1.4''"
  by (simp_all add: float_eval)

end
