(* ===== verification/Stats.thy ===== *)
theory Stats
  imports Output Float_Text
begin

text \<open>
  \<open>StatsCollector\<close> (\<open>src/user/stats\<close>): per-hook and per-module counters, the table of
  pending requests, the latency samples and the periodic reports. The standard library's
  unordered maps are maps; where the code iterates over one, the iteration order is an
  argument. The clock reading is an argument too. Each operation returns the calls it makes on
  its log writer beside the new state. \<open>None\<close> is an access outside \<open>mod_send_\<close> or
  \<open>mod_recv_\<close>, undefined in C++.
\<close>

section \<open>State\<close>

record hook_counts =
  hs_total :: u64
  hs_succ :: u64
  hs_fail :: u64

definition hook_counts_zero :: hook_counts where
  "hook_counts_zero = \<lparr>hs_total = 0, hs_succ = 0, hs_fail = 0\<rparr>"

record stats_collector =
  hook_stats :: "string \<rightharpoonup> hook_counts"
  mod_send :: "u64 list"
  mod_recv :: "u64 list"
  pending :: "u64 \<rightharpoonup> u64"
  latency :: "u64 list"
  last_report_ns :: u64
  report_interval_sec :: int
  has_log_writer :: bool

definition stats_new :: stats_collector where
  "stats_new =
     \<lparr>hook_stats = Map.empty, mod_send = replicate (MAX_MODULE_ID + 1) 0,
      mod_recv = replicate (MAX_MODULE_ID + 1) 0, pending = Map.empty, latency = [],
      last_report_ns = 0, report_interval_sec = 10, has_log_writer = False\<rparr>"

definition set_log_writer :: "stats_collector \<Rightarrow> stats_collector" where
  "set_log_writer s = s\<lparr>has_log_writer := True\<rparr>"

definition set_report_interval :: "int \<Rightarrow> stats_collector \<Rightarrow> stats_collector" where
  "set_report_interval sec s = s\<lparr>report_interval_sec := sec\<rparr>"

definition TIMEOUT_NS :: u64 where "TIMEOUT_NS = 30 * 1000 * 1000 * 1000"
definition LATENCY_MAX_NS :: u64 where "LATENCY_MAX_NS = 60 * 1000 * 1000 * 1000"

type_synonym stats_result = "stats_collector \<times> log_call list"

section \<open>Counters\<close>

definition bump_hook :: "bool \<Rightarrow> i64 \<Rightarrow> hook_counts \<Rightarrow> hook_counts" where
  "bump_hook is_ret retval c =
     (let c = c\<lparr>hs_total := hs_total c + 1\<rparr>
      in if is_ret then
           if retval = 0 then c\<lparr>hs_succ := hs_succ c + 1\<rparr> else c\<lparr>hs_fail := hs_fail c + 1\<rparr>
         else c)"

definition bump_at :: "nat \<Rightarrow> u64 list \<Rightarrow> u64 list option" where
  "bump_at i xs = (if i < length xs then Some (xs[i := xs ! i + 1]) else None)"

definition process_event ::
    "event_header \<Rightarrow> string \<Rightarrow> i64 \<Rightarrow> (stats_collector \<Rightarrow> stats_result) option \<Rightarrow>
     stats_collector \<Rightarrow> stats_result option" where
  "process_event hdr hook retval on_latency s =
     (let is_ret = is_retprobe hdr;
          c = (case hook_stats s hook of None \<Rightarrow> hook_counts_zero | Some c \<Rightarrow> c);
          s = s\<lparr>hook_stats := (hook_stats s)(hook \<mapsto> bump_hook is_ret retval c)\<rparr>;
          counted =
            (if is_ret then Some s
             else if direction hdr = DIR_SEND
             then map_option (\<lambda>xs. s\<lparr>mod_send := xs\<rparr>) (bump_at (unat (module_id hdr)) (mod_send s))
             else map_option (\<lambda>xs. s\<lparr>mod_recv := xs\<rparr>) (bump_at (unat (module_id hdr)) (mod_recv s)))
      in case counted of
           None \<Rightarrow> None
         | Some s \<Rightarrow> Some (case on_latency of None \<Rightarrow> (s, []) | Some f \<Rightarrow> f s))"

section \<open>Latency matching\<close>

definition pending_key :: "u16 \<Rightarrow> u16 \<Rightarrow> u16 \<Rightarrow> u16 \<Rightarrow> u64" where
  "pending_key svc meth client session =
     push_bit 48 (ucast svc) OR push_bit 32 (ucast meth) OR push_bit 16 (ucast client) OR
     ucast session"

definition record_pending ::
    "u16 \<Rightarrow> u16 \<Rightarrow> u16 \<Rightarrow> u16 \<Rightarrow> u64 \<Rightarrow> stats_collector \<Rightarrow> stats_collector" where
  "record_pending svc meth client session ts s =
     (let k = pending_key svc meth client session
      in case pending s k of
           None \<Rightarrow> s\<lparr>pending := (pending s)(k \<mapsto> ts)\<rparr>
         | Some _ \<Rightarrow> s)"

definition latency_type :: "u8 \<Rightarrow> string" where
  "latency_type t =
     (if t = SOMEIP_MT_RESPONSE then ''RESPONSE''
      else if t = SOMEIP_MT_ERROR then ''ERROR''
      else if t = SOMEIP_MT_NOTIFICATION then ''NOTIFICATION'' else ''UNKNOWN'')"

definition latency_text ::
    "u16 \<Rightarrow> u16 \<Rightarrow> u16 \<Rightarrow> u16 \<Rightarrow> u8 \<Rightarrow> u64 \<Rightarrow> u64 \<Rightarrow> u64 \<Rightarrow> string" where
  "latency_text svc meth client session t send_ts recv_ts lat =
     ''{\"svc\":'' @ dec_u svc @ '',\"method\":'' @ dec_u meth @ '',\"client\":'' @ dec_u client @
     '',\"session\":'' @ dec_u session @ '',\"type\":\"'' @ latency_type t @
     ''\",\"send_ts\":'' @ dec_u send_ts @ '',\"recv_ts\":'' @ dec_u recv_ts @
     '',\"latency_us\":'' @ fmt_1f (dbl_div (dbl_of_int (unat lat)) 1000) @ ''}''"

definition try_match ::
    "u16 \<Rightarrow> u16 \<Rightarrow> u16 \<Rightarrow> u16 \<Rightarrow> u64 \<Rightarrow> u8 \<Rightarrow> stats_collector \<Rightarrow> stats_result" where
  "try_match svc meth client session recv_ts msg_type s =
     (let k = pending_key svc meth client session
      in case pending s k of
           None \<Rightarrow> (s, [])
         | Some send_ts \<Rightarrow>
             let lat = recv_ts - send_ts
             in if LATENCY_MAX_NS < lat then (s\<lparr>pending := (pending s)(k := None)\<rparr>, [])
                else (s\<lparr>latency := latency s @ [lat], pending := (pending s)(k := None)\<rparr>,
                      if has_log_writer s
                      then [Log_latency (snprintf_text 256
                              (latency_text svc meth client session msg_type send_ts recv_ts lat))]
                      else []))"

section \<open>Reports\<close>

definition group_name_of :: "file_group list \<Rightarrow> nat \<Rightarrow> string" where
  "group_name_of groups m =
     (case find (\<lambda>g. fg_module_id g = m) groups of None \<Rightarrow> ''?'' | Some g \<Rightarrow> fg_name g)"

definition module_text :: "string \<Rightarrow> nat \<Rightarrow> u64 \<Rightarrow> u64 \<Rightarrow> string" where
  "module_text nm elapse send recv =
     ''{\"module\":\"'' @ nm @ ''\",\"elapsed\":'' @ fmt_1f elapse @ '',\"send\":'' @ dec_u send @
     '',\"recv\":'' @ dec_u recv @ ''}''"

fun flush_modules ::
    "file_group list \<Rightarrow> nat \<Rightarrow> nat list \<Rightarrow> stats_collector \<Rightarrow> stats_result" where
  "flush_modules groups elapse [] s = (s, [])"
| "flush_modules groups elapse (m # ms) s =
     (if mod_send s ! m = 0 \<and> mod_recv s ! m = 0 then flush_modules groups elapse ms s
      else
        let line = Log_stats (snprintf_text 256
              (module_text (group_name_of groups m) elapse (mod_send s ! m) (mod_recv s ! m)));
            (s', cs) = flush_modules groups elapse ms
              (s\<lparr>mod_send := (mod_send s)[m := 0], mod_recv := (mod_recv s)[m := 0]\<rparr>)
        in (s', line # cs))"

definition percentile_index :: "u64 \<Rightarrow> u64 \<Rightarrow> nat" where
  "percentile_index n p = unat (n * p div 100)"

record latency_report =
  lr_samples :: u64
  lr_avg_us :: u64
  lr_p50_us :: u64
  lr_p99_us :: u64
  lr_max_us :: u64

definition latency_summary :: "u64 list \<Rightarrow> latency_report" where
  "latency_summary samples =
     (let l = sort samples;
          n = of_nat (length l) :: u64;
          total = fold (\<lambda>v acc. acc + v) l 0
      in \<lparr>lr_samples = n, lr_avg_us = (total div n) div 1000,
          lr_p50_us = l ! percentile_index n 50 div 1000,
          lr_p99_us = l ! percentile_index n 99 div 1000,
          lr_max_us = l ! unat (n - 1) div 1000\<rparr>)"

definition latency_report_text :: "latency_report \<Rightarrow> string" where
  "latency_report_text r =
     ''{\"type\":\"latency\",\"samples\":'' @ dec_u (lr_samples r) @
     '',\"avg_us\":'' @ dec_u (lr_avg_us r) @ '',\"p50_us\":'' @ dec_u (lr_p50_us r) @
     '',\"p99_us\":'' @ dec_u (lr_p99_us r) @ '',\"max_us\":'' @ dec_u (lr_max_us r) @ ''}''"

definition flush_latency :: "stats_collector \<Rightarrow> stats_result" where
  "flush_latency s =
     (if latency s = [] then (s, [])
      else (s\<lparr>latency := []\<rparr>,
            [Log_stats (snprintf_text 256 (latency_report_text (latency_summary (latency s))))]))"

definition elapsed_dbl :: "u64 \<Rightarrow> u64 \<Rightarrow> nat" where
  "elapsed_dbl prev now =
     (if prev \<noteq> 0 then dbl_div (dbl_of_int (unat (now - prev))) 1000000000 else 0)"

definition flush_report :: "file_group list \<Rightarrow> u64 \<Rightarrow> stats_collector \<Rightarrow> stats_result" where
  "flush_report groups now s =
     (let elapse = elapsed_dbl (last_report_ns s) now;
          s = s\<lparr>last_report_ns := now\<rparr>
      in if \<not> has_log_writer s then (s, [])
         else
           let (s1, c1) = flush_modules groups elapse [1..<Suc MAX_MODULE_ID] s;
               (s2, c2) = flush_latency s1
           in (s2\<lparr>hook_stats := map_option (\<lambda>_. hook_counts_zero) \<circ> hook_stats s2\<rparr>, c1 @ c2))"

definition timeout_text :: "u64 \<Rightarrow> u64 \<Rightarrow> string" where
  "timeout_text k elapsed =
     ''{\"type\":\"timeout\",\"key\":\"0x'' @ hex_u k @ ''\",\"elapsed_ms\":'' @
     dec_u (elapsed div 1000000) @ ''}''"

fun evict_loop ::
    "u64 \<Rightarrow> bool \<Rightarrow> u64 list \<Rightarrow> (u64 \<rightharpoonup> u64) \<Rightarrow> (u64 \<rightharpoonup> u64) \<times> log_call list" where
  "evict_loop now logging [] p = (p, [])"
| "evict_loop now logging (k # ks) p =
     (case p k of
        None \<Rightarrow> evict_loop now logging ks p
      | Some send_ts \<Rightarrow>
          let elapsed = now - send_ts
          in if TIMEOUT_NS < elapsed then
               let (p', cs) = evict_loop now logging ks (p(k := None))
               in (p', (if logging then [Log_stats (snprintf_text 128 (timeout_text k elapsed))]
                        else []) @ cs)
             else evict_loop now logging ks p)"

definition evict_expired :: "u64 \<Rightarrow> u64 list \<Rightarrow> stats_collector \<Rightarrow> stats_result" where
  "evict_expired now order s =
     (let (p, cs) = evict_loop now (has_log_writer s) order (pending s)
      in (s\<lparr>pending := p\<rparr>, cs))"

end
