(* ===== verification/Stats_Props.thy ===== *)
theory Stats_Props
  imports Stats
begin

text \<open>
  Lemmas and properties of \<open>Stats\<close>: the counters, the pending table against its abstract
  specification (a table keyed by the four identifiers), eviction for every iteration order,
  the percentiles of a report, and the lengths of the formatted lines.
\<close>

section \<open>The pending key\<close>

lemma pending_key_fields:
  "ucast (drop_bit 48 (pending_key a b c d)) = a"
  "ucast (drop_bit 32 (pending_key a b c d)) = b"
  "ucast (drop_bit 16 (pending_key a b c d)) = c"
  "ucast (pending_key a b c d) = d"
  unfolding pending_key_def
  by (rule bit_word_eqI; auto simp: bit_simps dest: bit_imp_le_length)+

lemma pending_key_surj:
  "pending_key (ucast (drop_bit 48 k)) (ucast (drop_bit 32 k)) (ucast (drop_bit 16 k)) (ucast k) = k"
proof (rule bit_word_eqI)
  fix n :: nat
  assume "n < LENGTH(64)"
  then consider "n < 16" | "16 \<le> n" "n < 32" | "32 \<le> n" "n < 48" | "48 \<le> n" "n < 64"
    by fastforce
  then show "bit (pending_key (ucast (drop_bit 48 k)) (ucast (drop_bit 32 k))
      (ucast (drop_bit 16 k)) (ucast k)) n = bit k n"
    unfolding pending_key_def by cases (auto simp: bit_simps)
qed

lemma pending_key_eq_iff:
  "pending_key a b c d = pending_key a' b' c' d' \<longleftrightarrow> a = a' \<and> b = b' \<and> c = c' \<and> d = d'"
  by (metis pending_key_fields)

section \<open>Frames\<close>

lemma record_pending_frame [frame_simps]:
  "latency (record_pending a b c d ts s) = latency s"
  "mod_send (record_pending a b c d ts s) = mod_send s"
  "mod_recv (record_pending a b c d ts s) = mod_recv s"
  "hook_stats (record_pending a b c d ts s) = hook_stats s"
  "has_log_writer (record_pending a b c d ts s) = has_log_writer s"
  by (auto simp: record_pending_def Let_def split: option.splits)

lemma try_match_frame [frame_simps]:
  "mod_send (fst (try_match a b c d ts t s)) = mod_send s"
  "mod_recv (fst (try_match a b c d ts t s)) = mod_recv s"
  "hook_stats (fst (try_match a b c d ts t s)) = hook_stats s"
  "has_log_writer (fst (try_match a b c d ts t s)) = has_log_writer s"
  by (auto simp: try_match_def Let_def split: option.splits)

section \<open>Length of the lines\<close>

lemma length_latency_type: "length (latency_type t) \<le> 12"
  by (simp add: latency_type_def)

lemma length_latency_us: "lat \<le> LATENCY_MAX_NS \<Longrightarrow> length (fmt_1f (dbl_div (dbl_of_int (unat lat)) 1000)) \<le> 11"
proof -
  assume "lat \<le> LATENCY_MAX_NS"
  then have "unat lat < 60000000001"
    by (simp add: LATENCY_MAX_NS_def word_le_nat_alt)
  then show ?thesis using length_fmt_div [of 9 1000 "unat lat" 60000000001] by simp
qed

lemma latency_text_fits:
  assumes "lat \<le> LATENCY_MAX_NS"
  shows "length (latency_text a b c d t sts rts lat) < 256"
  using length_latency_type [of t] length_latency_us [OF assms] length_dec_u16 [of a]
    length_dec_u16 [of b] length_dec_u16 [of c] length_dec_u16 [of d]
    length_dec_u64 [of sts] length_dec_u64 [of rts]
  by (simp add: latency_text_def)

lemma timeout_text_fits: "length (timeout_text k e) < 128"
  using length_hex_u64 [of k] length_dec_u64 [of "e div 1000000"] by (simp add: timeout_text_def)

lemma latency_report_text_fits: "length (latency_report_text r) < 256"
  using length_dec_u64 [of "lr_samples r"] length_dec_u64 [of "lr_avg_us r"]
    length_dec_u64 [of "lr_p50_us r"] length_dec_u64 [of "lr_p99_us r"]
    length_dec_u64 [of "lr_max_us r"]
  by (simp add: latency_report_text_def)

lemma length_elapsed: "length (fmt_1f (elapsed_dbl l now)) \<le> 13"
proof (cases "l = 0")
  case True
  then show ?thesis by (simp add: elapsed_dbl_def float_eval)
next
  case False
  have "unat (now - l) < 2 ^ 64" using unat_bound [of "now - l"] by simp
  then show ?thesis
    using length_fmt_div [of 11 1000000000 "unat (now - l)" "2 ^ 64"] False
    by (simp add: elapsed_dbl_def)
qed

lemma module_text_fits:
  "length nm \<le> 100 \<Longrightarrow> length (module_text nm (elapsed_dbl l now) x y) < 256"
  using length_elapsed [of l now] length_dec_u64 [of x] length_dec_u64 [of y]
  by (simp add: module_text_def)

section \<open>The pending table against its specification\<close>

text \<open>
  The specification: a table from the four identifiers to the time of the earliest request
  that is still open.
\<close>

type_synonym flow = "u16 \<times> u16 \<times> u16 \<times> u16"

fun key_of_flow :: "flow \<Rightarrow> u64" where
  "key_of_flow (a, b, c, d) = pending_key a b c d"

definition open_requests :: "stats_collector \<Rightarrow> flow \<rightharpoonup> u64" where
  "open_requests s = pending s \<circ> key_of_flow"

definition spec_request :: "flow \<Rightarrow> u64 \<Rightarrow> (flow \<rightharpoonup> u64) \<Rightarrow> (flow \<rightharpoonup> u64)" where
  "spec_request f ts m = (if f \<in> dom m then m else m(f \<mapsto> ts))"

definition spec_response :: "flow \<Rightarrow> u64 \<Rightarrow> (flow \<rightharpoonup> u64) \<Rightarrow> (flow \<rightharpoonup> u64) \<times> u64 list" where
  "spec_response f ts m =
     (m(f := None),
      case m f of None \<Rightarrow> [] | Some t0 \<Rightarrow> if ts - t0 \<le> LATENCY_MAX_NS then [ts - t0] else [])"

definition spec_evict :: "u64 \<Rightarrow> (flow \<rightharpoonup> u64) \<Rightarrow> (flow \<rightharpoonup> u64)" where
  "spec_evict now m =
     (\<lambda>f. case m f of None \<Rightarrow> None | Some ts \<Rightarrow> if TIMEOUT_NS < now - ts then None else Some ts)"

lemma key_of_flow_eq_iff [simp]: "key_of_flow f = key_of_flow g \<longleftrightarrow> f = g"
  by (cases f; cases g) (simp add: pending_key_eq_iff)

lemma key_of_flow_surj: "\<exists>f. key_of_flow f = k"
  by (rule exI [of _ "(ucast (drop_bit 48 k), ucast (drop_bit 32 k), ucast (drop_bit 16 k), ucast k)"])
     (simp add: pending_key_surj)

text \<open>The tables determine each other, so the abstraction loses nothing.\<close>

lemma open_requests_inject: "open_requests s = open_requests t \<longleftrightarrow> pending s = pending t"
proof
  assume eq: "open_requests s = open_requests t"
  show "pending s = pending t"
  proof
    fix k
    obtain f where "key_of_flow f = k" using key_of_flow_surj by blast
    with eq show "pending s k = pending t k"
      by (metis comp_apply open_requests_def)
  qed
qed (simp add: open_requests_def)

lemma record_pending_refines:
  "open_requests (record_pending a b c d ts s) = spec_request (a, b, c, d) ts (open_requests s)"
proof
  fix f
  show "open_requests (record_pending a b c d ts s) f =
        spec_request (a, b, c, d) ts (open_requests s) f"
    using key_of_flow_eq_iff [of f "(a, b, c, d)"]
    by (auto simp: record_pending_def open_requests_def spec_request_def Let_def dom_def
        split: option.splits simp del: key_of_flow_eq_iff)
qed

lemma try_match_refines:
  "(open_requests (fst (try_match a b c d ts t s)), latency (fst (try_match a b c d ts t s))) =
   (fst (spec_response (a, b, c, d) ts (open_requests s)),
    latency s @ snd (spec_response (a, b, c, d) ts (open_requests s)))"
proof -
  have "open_requests (fst (try_match a b c d ts t s)) f =
        fst (spec_response (a, b, c, d) ts (open_requests s)) f" for f
    using key_of_flow_eq_iff [of f "(a, b, c, d)"]
    by (auto simp: try_match_def open_requests_def spec_response_def Let_def
        split: option.splits simp del: key_of_flow_eq_iff)
  moreover have "latency (fst (try_match a b c d ts t s)) =
        latency s @ snd (spec_response (a, b, c, d) ts (open_requests s))"
    by (auto simp: try_match_def open_requests_def spec_response_def Let_def not_less
        split: option.splits)
  ultimately show ?thesis by auto
qed

section \<open>Eviction\<close>

definition expired :: "u64 \<Rightarrow> (u64 \<rightharpoonup> u64) \<Rightarrow> u64 \<Rightarrow> bool" where
  "expired now p k = (case p k of None \<Rightarrow> False | Some ts \<Rightarrow> TIMEOUT_NS < now - ts)"

lemma evict_loop_pending:
  "distinct ks \<Longrightarrow>
     fst (evict_loop now lg ks p) = (\<lambda>k. if k \<in> set ks \<and> expired now p k then None else p k)"
proof (induction ks arbitrary: p)
  case Nil
  then show ?case by simp
next
  case (Cons k ks)
  then have "k \<notin> set ks" by simp
  with Cons show ?case
    by (auto simp: expired_def Let_def fun_eq_iff split_beta split: option.splits)
qed

lemma evict_loop_logs:
  "distinct ks \<Longrightarrow>
     snd (evict_loop now lg ks p) =
       (if lg then map (\<lambda>k. Log_stats (timeout_text k (now - the (p k)))) (filter (expired now p) ks)
        else [])"
proof (induction ks arbitrary: p)
  case Nil
  then show ?case by simp
next
  case (Cons k ks)
  then have nk: "k \<notin> set ks" by simp
  have same: "filter (expired now (p(k := None))) ks = filter (expired now p) ks"
    "map (\<lambda>j. Log_stats (timeout_text j (now - the ((p(k := None)) j))))
         (filter (expired now p) ks) =
     map (\<lambda>j. Log_stats (timeout_text j (now - the (p j)))) (filter (expired now p) ks)"
    using nk by (auto intro!: filter_cong map_cong simp: expired_def split: if_splits)
  show ?case
  proof (cases "p k")
    case None
    with Cons show ?thesis by (simp add: expired_def [of _ p k])
  next
    case (Some ts)
    show ?thesis
    proof (cases "TIMEOUT_NS < now - ts")
      case True
      have "distinct ks" using Cons.prems by simp
      note ih = Cons.IH [OF this, of "p(k := None)", unfolded same]
      from True Some ih show ?thesis
        by (cases lg) (simp_all add: Let_def split_beta snprintf_text_fits timeout_text_fits
            expired_def [of _ p k] del: fun_upd_apply)
    next
      case False
      with Some Cons show ?thesis by (simp add: Let_def expired_def [of _ p k])
    qed
  qed
qed

section \<open>Counters\<close>

text \<open>The counters that a list of \<open>process_event\<close> calls leaves for a hook.\<close>

type_synonym event_call = "event_header \<times> string \<times> i64"

definition run_events :: "event_call list \<Rightarrow> stats_collector \<Rightarrow> stats_collector option" where
  "run_events evs s =
     fold_opt (\<lambda>(h, hook, rv) s. map_option fst (process_event h hook rv None s)) evs s"

definition calls_of :: "string \<Rightarrow> event_call list \<Rightarrow> event_call list" where
  "calls_of hook evs = filter (\<lambda>(h, hk, rv). hk = hook) evs"

definition hook_counts_of :: "string \<Rightarrow> stats_collector \<Rightarrow> hook_counts" where
  "hook_counts_of hook s = (case hook_stats s hook of None \<Rightarrow> hook_counts_zero | Some c \<Rightarrow> c)"

lemma process_event_hook:
  "process_event h hk rv None s = Some (s', cs) \<Longrightarrow>
     hook_counts_of hook s' =
       (if hk = hook then bump_hook (is_retprobe h) rv (hook_counts_of hook s)
        else hook_counts_of hook s)"
  by (auto simp: process_event_def hook_counts_of_def Let_def bump_at_def
      split: option.splits if_splits)

lemma run_events_counts:
  "run_events evs s = Some s' \<Longrightarrow>
     hs_total (hook_counts_of hook s') =
       hs_total (hook_counts_of hook s) + of_nat (length (calls_of hook evs)) \<and>
     hs_succ (hook_counts_of hook s') =
       hs_succ (hook_counts_of hook s) +
       of_nat (length (filter (\<lambda>(h, hk, rv). is_retprobe h \<and> rv = 0) (calls_of hook evs))) \<and>
     hs_fail (hook_counts_of hook s') =
       hs_fail (hook_counts_of hook s) +
       of_nat (length (filter (\<lambda>(h, hk, rv). is_retprobe h \<and> rv \<noteq> 0) (calls_of hook evs)))"
proof (induction evs arbitrary: s)
  case Nil
  then show ?case by (simp add: run_events_def calls_of_def)
next
  case (Cons ev evs)
  obtain h hk rv where ev: "ev = (h, hk, rv)" by (cases ev)
  from Cons.prems obtain s1 cs where
    s1: "process_event h hk rv None s = Some (s1, cs)" "run_events evs s1 = Some s'"
    by (auto simp: run_events_def ev split: option.splits)
  show ?case
    using Cons.IH [OF s1(2)] process_event_hook [OF s1(1), of hook]
    by (auto simp: calls_of_def ev bump_hook_def Let_def)
qed

lemma process_event_defined:
  assumes "length (mod_send s) = MAX_MODULE_ID + 1" "length (mod_recv s) = MAX_MODULE_ID + 1"
  shows "process_event h hook rv f s \<noteq> None \<longleftrightarrow>
           is_retprobe h \<or> unat (module_id h) \<le> MAX_MODULE_ID"
  using assms by (auto simp: process_event_def Let_def bump_at_def less_Suc_eq_le split: if_splits)

section \<open>Percentiles\<close>

lemma percentile_index_less:
  assumes "0 < n" "n < 2 ^ 57" "p < 100"
  shows "percentile_index (of_nat n) (of_nat p) = n * p div 100" "n * p div 100 < n"
proof -
  have "n * p < 2 ^ 57 * 100" using assms by (intro mult_strict_mono) auto
  then have np: "n * p < 2 ^ 64" by simp
  then have "unat (of_nat n * of_nat p :: u64) = n * p"
    by (simp add: unat_of_nat of_nat_mult [symmetric] del: of_nat_mult)
  then show "percentile_index (of_nat n) (of_nat p) = n * p div 100"
    by (simp add: percentile_index_def unat_div)
  have "n * p < 100 * n" using assms by simp
  then show "n * p div 100 < n" by (simp add: div_less_iff_less_mult mult.commute)
qed

lemma word_div_mono: "(a :: u64) \<le> b \<Longrightarrow> a div c \<le> b div c"
  by (simp add: word_le_nat_alt unat_div div_le_mono)

lemma latency_summary_eq:
  assumes "l \<noteq> []" "length l < 2 ^ 57"
  shows "lr_p50_us (latency_summary l) = sort l ! (length l * 50 div 100) div 1000"
    "lr_p99_us (latency_summary l) = sort l ! (length l * 99 div 100) div 1000"
    "lr_max_us (latency_summary l) = sort l ! (length l - 1) div 1000"
    "lr_samples (latency_summary l) = of_nat (length l)"
proof -
  have pos: "0 < length l" using assms by simp
  have p50: "percentile_index (of_nat (length l)) 50 = length l * 50 div 100"
    using percentile_index_less(1) [OF pos assms(2), of 50] by simp
  have p99: "percentile_index (of_nat (length l)) 99 = length l * 99 div 100"
    using percentile_index_less(1) [OF pos assms(2), of 99] by simp
  have "of_nat (length l) - 1 = (of_nat (length l - 1) :: u64)"
    using pos by (subst of_nat_diff) (simp_all add: Suc_leI)
  then have mx: "unat (of_nat (length l) - 1 :: u64) = length l - 1"
    using assms(2) by (simp add: unat_of_nat del: of_nat_diff)
  show "lr_p50_us (latency_summary l) = sort l ! (length l * 50 div 100) div 1000"
    "lr_p99_us (latency_summary l) = sort l ! (length l * 99 div 100) div 1000"
    "lr_max_us (latency_summary l) = sort l ! (length l - 1) div 1000"
    "lr_samples (latency_summary l) = of_nat (length l)"
    by (simp_all add: latency_summary_def Let_def p50 p99 mx)
qed

end
