(* ===== verification/Handlers.thy ===== *)
theory Handlers
  imports Stats_Props
begin

text \<open>
  The per-module handlers of \<open>src/user/handler\<close>: each casts the record it is given to its
  event structure, updates the statistics and writes the event. The event context is the
  statistics and the writer; the statistics log to the same writer. \<open>None\<close> is undefined
  behaviour: a record shorter than the structure it is cast to, or a module number outside
  the per-module counters.
\<close>

type_synonym ectx = "stats_collector \<times> log_writer"
type_synonym handler = "byte list \<Rightarrow> string \<Rightarrow> ectx \<Rightarrow> ectx option"

section \<open>Payload texts\<close>

definition message_type_name :: "u8 \<Rightarrow> string" where
  "message_type_name t =
     (if t = SOMEIP_MT_REQUEST then ''REQUEST''
      else if t = SOMEIP_MT_REQUEST_NO_RETURN then ''REQ_NORET''
      else if t = SOMEIP_MT_NOTIFICATION then ''NOTIFICATION''
      else if t = SOMEIP_MT_REQUEST_ACK then ''REQ_ACK''
      else if t = SOMEIP_MT_RESPONSE then ''RESPONSE''
      else if t = SOMEIP_MT_ERROR then ''ERROR'' else ''UNKNOWN'')"

definition routing_payload :: "routing_event \<Rightarrow> string" where
  "routing_payload e =
     ''\"svc\":'' @ dec_u (re_service_id e) @ '',\"method\":'' @ dec_u (re_method_id e) @
     '',\"client\":'' @ dec_u (re_client_id e) @ '',\"session\":'' @ dec_u (re_session_id e) @
     '',\"msg_type\":\"'' @ message_type_name (re_message_type e) @
     ''\",\"ret_code\":'' @ dec_u (re_return_code e) @ '',\"len\":'' @ dec_u (re_payload_length e) @
     '',\"retval\":'' @ dec_s (re_retval e)"

definition app_payload :: "app_event \<Rightarrow> string" where
  "app_payload e =
     ''\"this\":\"0x'' @ hex_u (ae_this_ptr e) @ ''\",\"msg\":\"0x'' @ hex_u (ae_message_ptr e) @
     ''\",\"retval\":'' @ dec_s (ae_retval e)"

definition sd_payload :: "sd_event \<Rightarrow> string" where
  "sd_payload e =
     ''\"svc\":'' @ dec_u (se_service_id e) @ '',\"inst\":'' @ dec_u (se_instance_id e) @
     '',\"evg\":'' @ dec_u (se_eventgroup_id e) @ '',\"ttl\":'' @ dec_u (se_ttl e)"

section \<open>Latency callback\<close>

definition on_latency :: "routing_event \<Rightarrow> stats_collector \<Rightarrow> stats_result" where
  "on_latency e s =
     (if is_retprobe (re_hdr e) then (s, [])
      else
        let s = (if direction (re_hdr e) = DIR_SEND \<and>
                    (re_message_type e = SOMEIP_MT_REQUEST \<or>
                     re_message_type e = SOMEIP_MT_REQUEST_NO_RETURN)
                 then record_pending (re_service_id e) (re_method_id e) (re_client_id e)
                        (re_session_id e) (timestamp_ns (re_hdr e)) s
                 else s)
        in if direction (re_hdr e) = DIR_RECV \<and>
              (re_message_type e = SOMEIP_MT_RESPONSE \<or> re_message_type e = SOMEIP_MT_ERROR \<or>
               re_message_type e = SOMEIP_MT_NOTIFICATION)
           then try_match (re_service_id e) (re_method_id e) (re_client_id e) (re_session_id e)
                  (timestamp_ns (re_hdr e)) (re_message_type e) s
           else (s, []))"

section \<open>Handlers\<close>

definition handle_with ::
    "event_header \<Rightarrow> string \<Rightarrow> i64 \<Rightarrow> (stats_collector \<Rightarrow> stats_result) option \<Rightarrow> string \<Rightarrow>
     ectx \<Rightarrow> ectx option" where
  "handle_with h hook retval lat payload c =
     (case process_event h hook retval lat (fst c) of
        None \<Rightarrow> None
      | Some (s, logs) \<Rightarrow>
          Some (s, write_event (do_logs logs (snd c)) h hook (Some (\<lambda>n. snprintf_text n payload))))"

definition routing_event_handler :: handler where
  "routing_event_handler bs hook c =
     (case dec_routing_event bs of
        None \<Rightarrow> None
      | Some e \<Rightarrow> handle_with (re_hdr e) hook (re_retval e) (Some (on_latency e)) (routing_payload e) c)"

definition app_event_handler :: handler where
  "app_event_handler bs hook c =
     (case dec_app_event bs of
        None \<Rightarrow> None
      | Some e \<Rightarrow> handle_with (ae_hdr e) hook (ae_retval e) None (app_payload e) c)"

definition sd_event_handler :: handler where
  "sd_event_handler bs hook c =
     (case dec_sd_event bs of
        None \<Rightarrow> None
      | Some e \<Rightarrow> handle_with (se_hdr e) hook 0 None (sd_payload e) c)"

text \<open>The function that a handler symbol of \<open>hook_config.h\<close> links to.\<close>

definition linked_handler :: "string \<Rightarrow> handler option" where
  "linked_handler symb =
     (if symb = ''routing_event_handler'' then Some routing_event_handler
      else if symb = ''app_event_handler'' then Some app_event_handler
      else if symb = ''sd_event_handler'' then Some sd_event_handler else None)"

section \<open>Lemmas\<close>

lemma length_message_type_name: "length (message_type_name t) \<le> 12"
  by (simp add: message_type_name_def)

lemma payload_fits:
  "length (routing_payload e) < 256" "length (app_payload a) < 256" "length (sd_payload d) < 256"
  using length_message_type_name [of "re_message_type e"]
    length_dec_u16 [of "re_service_id e"] length_dec_u16 [of "re_method_id e"]
    length_dec_u16 [of "re_client_id e"] length_dec_u16 [of "re_session_id e"]
    length_dec_u8 [of "re_return_code e"] length_dec_u32 [of "re_payload_length e"]
    length_dec_s64 [of "re_retval e"] length_dec_s64 [of "ae_retval a"]
    length_hex_u64 [of "ae_this_ptr a"] length_hex_u64 [of "ae_message_ptr a"]
    length_dec_u16 [of "se_service_id d"] length_dec_u16 [of "se_instance_id d"]
    length_dec_u16 [of "se_eventgroup_id d"] length_dec_u32 [of "se_ttl d"]
  by (simp_all add: routing_payload_def app_payload_def sd_payload_def)

definition counters_ok :: "stats_collector \<Rightarrow> bool" where
  "counters_ok s \<longleftrightarrow> length (mod_send s) = MAX_MODULE_ID + 1 \<and> length (mod_recv s) = MAX_MODULE_ID + 1"

lemma counters_ok_new: "counters_ok stats_new"
  by (simp add: counters_ok_def stats_new_def)

lemma on_latency_counters [frame_simps]:
  "mod_send (fst (on_latency e s)) = mod_send s"
  "mod_recv (fst (on_latency e s)) = mod_recv s"
  "hook_stats (fst (on_latency e s)) = hook_stats s"
  "has_log_writer (fst (on_latency e s)) = has_log_writer s"
  by (simp_all add: on_latency_def frame_simps Let_def)

definition lat_keeps :: "(stats_collector \<Rightarrow> stats_result) option \<Rightarrow> bool" where
  "lat_keeps lat \<longleftrightarrow> (case lat of None \<Rightarrow> True | Some f \<Rightarrow> \<forall>t. counters_ok t \<longrightarrow> counters_ok (fst (f t)))"

lemma process_event_callback:
  "process_event h hook rv lat s =
     map_option (\<lambda>r. case lat of None \<Rightarrow> (fst r, []) | Some f \<Rightarrow> f (fst r))
       (process_event h hook rv None s)"
  by (simp add: process_event_def Let_def option.case_eq_if option.map_comp comp_def map_option_case)

lemma process_event_none_counters:
  "process_event h hook rv None s = Some r \<Longrightarrow> counters_ok s \<Longrightarrow> counters_ok (fst r)"
  by (auto simp: process_event_def Let_def bump_at_def counters_ok_def split: if_splits)

lemma process_event_split:
  assumes "process_event h hook rv lat s = Some r" "counters_ok s"
  obtains t where "counters_ok t" "r = (case lat of None \<Rightarrow> (t, []) | Some f \<Rightarrow> f t)"
proof -
  obtain q where q: "process_event h hook rv None s = Some q"
      "r = (case lat of None \<Rightarrow> (fst q, []) | Some f \<Rightarrow> f (fst q))"
    using assms(1) by (subst (asm) process_event_callback) auto
  show thesis by (rule that [OF process_event_none_counters [OF q(1) assms(2)] q(2)])
qed

lemma handle_with_counters:
  assumes "handle_with h hook rv lat p c = Some c'" "counters_ok (fst c)" "lat_keeps lat"
  shows "counters_ok (fst c')"
proof -
  obtain r where r: "process_event h hook rv lat (fst c) = Some r" "fst c' = fst r"
    using assms(1) by (auto simp: handle_with_def split: option.splits prod.splits)
  obtain t where "counters_ok t" "r = (case lat of None \<Rightarrow> (t, []) | Some f \<Rightarrow> f t)"
    using process_event_split [OF r(1) assms(2)] .
  then show ?thesis using assms(3) r(2) by (cases lat) (simp_all add: lat_keeps_def)
qed

lemma lat_keeps_simps [simp]: "lat_keeps None" "lat_keeps (Some (on_latency e))"
  by (simp_all add: lat_keeps_def counters_ok_def frame_simps)

lemma handle_with_defined:
  "counters_ok (fst c) \<Longrightarrow>
     handle_with h hook rv lat p c \<noteq> None \<longleftrightarrow> is_retprobe h \<or> unat (module_id h) \<le> MAX_MODULE_ID"
  using process_event_defined [of "fst c" h hook rv lat]
  by (auto simp: handle_with_def counters_ok_def split: option.splits prod.splits)

lemma linked_counters:
  assumes "linked_handler symb = Some f" "f bs hook c = Some c'" "counters_ok (fst c)"
  shows "counters_ok (fst c')"
  using assms
  by (auto simp: linked_handler_def routing_event_handler_def app_event_handler_def
      sd_event_handler_def elim: handle_with_counters split: if_splits option.splits)

end
