(* ===== verification/Latency_Props.thy ===== *)
theory Latency_Props
  imports Handlers
begin

text \<open>
  What the routing handler's latency callback does over a sequence of routing events
  (\<open>on_latency\<close> of \<open>src/user/handler/routing_handler.cpp\<close> with \<open>record_pending\<close>, \<open>try_match\<close> and
  \<open>evict_expired\<close> of \<open>src/user/stats/stats_collector.cpp\<close>): the pending table is a finite map
  from the four SOME/IP identifiers to the earliest open request, and a response closes it.
\<close>

section \<open>The abstract machine\<close>

definition flow_of :: "routing_event \<Rightarrow> flow" where
  "flow_of e = (re_service_id e, re_method_id e, re_client_id e, re_session_id e)"

definition event_time :: "routing_event \<Rightarrow> u64" where
  "event_time e = timestamp_ns (re_hdr e)"

definition opens :: "routing_event \<Rightarrow> bool" where
  "opens e \<longleftrightarrow> \<not> is_retprobe (re_hdr e) \<and> direction (re_hdr e) = DIR_SEND \<and>
     re_message_type e \<in> {SOMEIP_MT_REQUEST, SOMEIP_MT_REQUEST_NO_RETURN}"

definition closes :: "routing_event \<Rightarrow> bool" where
  "closes e \<longleftrightarrow> \<not> is_retprobe (re_hdr e) \<and> direction (re_hdr e) = DIR_RECV \<and>
     re_message_type e \<in> {SOMEIP_MT_RESPONSE, SOMEIP_MT_ERROR, SOMEIP_MT_NOTIFICATION}"

type_synonym latency_view = "(flow \<rightharpoonup> u64) \<times> u64 list"

definition spec_event :: "routing_event \<Rightarrow> latency_view \<Rightarrow> latency_view" where
  "spec_event e v =
     (if opens e then (spec_request (flow_of e) (event_time e) (fst v), snd v)
      else if closes e then
        (fst (spec_response (flow_of e) (event_time e) (fst v)),
         snd v @ snd (spec_response (flow_of e) (event_time e) (fst v)))
      else v)"

definition latency_view :: "stats_collector \<Rightarrow> latency_view" where
  "latency_view s = (open_requests s, latency s)"

definition run_latency :: "routing_event list \<Rightarrow> stats_collector \<Rightarrow> stats_collector" where
  "run_latency es s = fold (\<lambda>e s. fst (on_latency e s)) es s"

lemma run_latency_simps [simp]:
  "run_latency [] s = s"
  "run_latency (e # es) s = run_latency es (fst (on_latency e s))"
  "run_latency (es @ fs) s = run_latency fs (run_latency es s)"
  by (simp_all add: run_latency_def)

lemma opens_closes: "opens e \<Longrightarrow> \<not> closes e"
  by (auto simp: opens_def closes_def DIR_SEND_def DIR_RECV_def)

lemma on_latency_view:
  "latency_view (fst (on_latency e s)) = spec_event e (latency_view s)"
proof (cases "opens e")
  case True
  then have "on_latency e s =
      (record_pending (re_service_id e) (re_method_id e) (re_client_id e) (re_session_id e)
         (event_time e) s, [])"
    by (auto simp: on_latency_def opens_def event_time_def DIR_SEND_def DIR_RECV_def)
  with True show ?thesis
    by (simp add: latency_view_def spec_event_def record_pending_refines frame_simps flow_of_def)
next
  case nop: False
  show ?thesis
  proof (cases "closes e")
    case True
    with nop have "on_latency e s =
        try_match (re_service_id e) (re_method_id e) (re_client_id e) (re_session_id e)
         (event_time e) (re_message_type e) s"
      by (auto simp: on_latency_def closes_def event_time_def DIR_SEND_def DIR_RECV_def)
    with True nop show ?thesis
      using try_match_refines [of "re_service_id e" "re_method_id e" "re_client_id e"
          "re_session_id e" "event_time e" "re_message_type e" s]
      by (simp add: latency_view_def spec_event_def flow_of_def)
  next
    case False
    with nop have "on_latency e s = (s, [])"
      by (auto simp: on_latency_def closes_def opens_def Let_def)
    with False nop show ?thesis by (simp add: spec_event_def)
  qed
qed

lemma run_latency_view:
  "latency_view (run_latency es s) = fold spec_event es (latency_view s)"
  by (induction es arbitrary: s) (simp_all add: on_latency_view)

lemma spec_event_other:
  "flow_of e \<noteq> f \<Longrightarrow> fst (spec_event e v) f = fst v f"
  by (simp add: spec_event_def spec_request_def spec_response_def)

lemma spec_events_keep_open:
  assumes "\<forall>e\<in>set es. flow_of e = f \<longrightarrow> \<not> closes e" "fst v f = Some t"
  shows "fst (fold spec_event es v) f = Some t"
  using assms
proof (induction es arbitrary: v)
  case Nil
  then show ?case by simp
next
  case (Cons e es)
  have "fst (spec_event e v) f = Some t"
    using Cons.prems by (auto simp: spec_event_def spec_request_def spec_response_def)
  with Cons show ?case by simp
qed

lemma spec_event_bound:
  "\<forall>l\<in>set (snd v). l \<le> LATENCY_MAX_NS \<Longrightarrow> \<forall>l\<in>set (snd (spec_event e v)). l \<le> LATENCY_MAX_NS"
  by (auto simp: spec_event_def spec_response_def split: option.splits if_splits)

lemma spec_events_bound:
  "\<forall>l\<in>set (snd v). l \<le> LATENCY_MAX_NS \<Longrightarrow>
     \<forall>l\<in>set (snd (fold spec_event es v)). l \<le> LATENCY_MAX_NS"
proof (induction es arbitrary: v)
  case Nil
  then show ?case by simp
next
  case (Cons e es)
  show ?case using Cons.IH [OF spec_event_bound [OF Cons.prems]] by simp
qed

section \<open>Properties\<close>

text \<open>C4. Over any sequence of routing events the pending table and the list of latency samples
  are the ones of the abstract machine: a request opens its flow unless the flow is open, a
  response, error or notification closes it and adds a sample, nothing else has an effect.\<close>

theorem latency_refines_spec:
  "latency_view (run_latency es s) = fold spec_event es (latency_view s)"
  by (rule run_latency_view)

text \<open>C5. A request and its response give exactly one sample, the time between the first send
  of the request and the response, whatever other traffic and however many resends of the same
  request come between them.\<close>

theorem request_response_latency:
  assumes "opens req" "closes resp" "flow_of resp = flow_of req"
    and "open_requests s (flow_of req) = None"
    and "\<forall>e\<in>set es. flow_of e = flow_of req \<longrightarrow> \<not> closes e"
    and "event_time resp - event_time req \<le> LATENCY_MAX_NS"
  shows "latency (run_latency (req # es @ [resp]) s) =
           latency (run_latency (req # es) s) @ [event_time resp - event_time req] \<and>
         open_requests (run_latency (req # es @ [resp]) s) (flow_of req) = None"
proof -
  let ?v = "fold spec_event es (spec_event req (latency_view s))"
  have "fst (spec_event req (latency_view s)) (flow_of req) = Some (event_time req)"
    using assms(1,4) by (simp add: spec_event_def spec_request_def latency_view_def domIff)
  then have open_req: "fst ?v (flow_of req) = Some (event_time req)"
    by (rule spec_events_keep_open [OF assms(5)])
  have pre: "latency_view (run_latency (req # es) s) = ?v"
    using run_latency_view [of "req # es" s] by simp
  have "latency_view (run_latency (req # es @ [resp]) s) = spec_event resp ?v"
    using run_latency_view [of "req # es @ [resp]" s] by simp
  also have "\<dots> = ((fst ?v)(flow_of req := None), snd ?v @ [event_time resp - event_time req])"
    using open_req assms(2,3,6) opens_closes [of resp]
    by (auto simp: spec_event_def spec_response_def)
  finally show ?thesis
    using pre by (auto simp: latency_view_def prod_eq_iff)
qed

definition sample_event :: "u8 \<Rightarrow> u8 \<Rightarrow> u64 \<Rightarrow> u16 \<Rightarrow> routing_event" where
  "sample_event dir mt ts session =
     \<lparr>re_hdr = \<lparr>timestamp_ns = ts, pid = 7, tid = 7, comm = replicate 16 0, module_id = 1,
        hook_id = (if dir = DIR_SEND then 0 else 4), direction = dir, is_retprobe = False\<rparr>,
      re_service_id = 0x1111, re_method_id = 0x8001, re_client_id = 0x13, re_session_id = session,
      re_protocol_version = 1, re_interface_version = 0, re_message_type = mt, re_return_code = 0,
      re_payload_length = 16, re_retval = 0\<rparr>"

theorem request_response_latency_witness:
  "latency (run_latency
      [sample_event DIR_SEND SOMEIP_MT_REQUEST 1000 5, sample_event DIR_SEND SOMEIP_MT_REQUEST 4000 5,
       sample_event DIR_RECV SOMEIP_MT_RESPONSE 5000 6,
       sample_event DIR_RECV SOMEIP_MT_RESPONSE 91000 5] stats_new) = [90000]"
proof -
  let ?es = "[sample_event DIR_SEND SOMEIP_MT_REQUEST 4000 5, sample_event DIR_RECV SOMEIP_MT_RESPONSE 5000 6]"
  have "latency (run_latency (sample_event DIR_SEND SOMEIP_MT_REQUEST 1000 5 # ?es) stats_new) = []"
    by (simp add: sample_event_def on_latency_def record_pending_def try_match_def stats_new_def
        pending_key_eq_iff DIR_SEND_def DIR_RECV_def SOMEIP_MT_REQUEST_def SOMEIP_MT_RESPONSE_def
        SOMEIP_MT_ERROR_def SOMEIP_MT_NOTIFICATION_def SOMEIP_MT_REQUEST_NO_RETURN_def)
  then show ?thesis
    using request_response_latency [of "sample_event DIR_SEND SOMEIP_MT_REQUEST 1000 5"
        "sample_event DIR_RECV SOMEIP_MT_RESPONSE 91000 5" stats_new ?es]
    by (simp add: sample_event_def opens_def closes_def flow_of_def event_time_def stats_new_def
        open_requests_def LATENCY_MAX_NS_def DIR_SEND_def DIR_RECV_def SOMEIP_MT_REQUEST_def
        SOMEIP_MT_RESPONSE_def SOMEIP_MT_ERROR_def SOMEIP_MT_NOTIFICATION_def)
qed

text \<open>Every latency sample ever kept is at most sixty seconds, so a clock jump or a reused
  session never reaches the report.\<close>

lemma latency_samples_bounded:
  "list_all (\<lambda>l. unat l \<le> 60 * 10 ^ 9) (latency (run_latency es stats_new))"
proof -
  have "\<forall>l\<in>set (snd (fold spec_event es (latency_view stats_new))). l \<le> LATENCY_MAX_NS"
    by (rule spec_events_bound) (simp add: latency_view_def stats_new_def)
  then have "\<forall>l\<in>set (latency (run_latency es stats_new)). l \<le> LATENCY_MAX_NS"
    using run_latency_view [of es stats_new] by (simp add: latency_view_def prod_eq_iff)
  then show ?thesis by (simp add: LATENCY_MAX_NS_def word_le_nat_alt list_all_iff)
qed

end
