(* ===== verification/Report_Props.thy ===== *)
theory Report_Props
  imports Latency_Props
begin

text \<open>
  The reports of \<open>src/user/stats/stats_collector.cpp\<close>: eviction of requests without an answer,
  the per-hook counters, the percentiles of the latency summary, and the lengths of the lines,
  none of which the \<open>snprintf\<close> buffers cut.
\<close>

section \<open>Shared lemmas\<close>

lemma evict_expired_parts:
  assumes "distinct order" "set order = dom (pending s)"
  shows "pending (fst (evict_expired now order s)) =
           (\<lambda>k. if expired now (pending s) k then None else pending s k)"
    and "snd (evict_expired now order s) =
           (if has_log_writer s
            then map (\<lambda>k. Log_stats (timeout_text k (now - the (pending s k))))
                   (filter (expired now (pending s)) order)
            else [])"
proof -
  have sub: "expired now (pending s) k \<Longrightarrow> k \<in> set order" for k
    using assms(2) by (auto simp: expired_def split: option.splits)
  show "pending (fst (evict_expired now order s)) =
           (\<lambda>k. if expired now (pending s) k then None else pending s k)"
    using evict_loop_pending [OF assms(1), of now "has_log_writer s" "pending s"] sub
    by (auto simp: evict_expired_def split_beta fun_eq_iff)
  show "snd (evict_expired now order s) =
           (if has_log_writer s
            then map (\<lambda>k. Log_stats (timeout_text k (now - the (pending s k))))
                   (filter (expired now (pending s)) order)
            else [])"
    using evict_loop_logs [OF assms(1), of now "has_log_writer s" "pending s"]
    by (simp add: evict_expired_def split_beta)
qed

lemma sort_nth_mono:
  "i \<le> j \<Longrightarrow> j < length l \<Longrightarrow> sort (l :: u64 list) ! i \<le> sort l ! j"
  by (rule sorted_nth_mono) simp_all

lemma last_sort_Max:
  assumes "l \<noteq> []" shows "sort (l :: u64 list) ! (length l - 1) = Max (set l)"
proof -
  have "sort l ! i \<le> sort l ! (length l - 1)" if "i < length l" for i
    using that by (intro sort_nth_mono) auto
  then have "\<forall>x\<in>set l. x \<le> sort l ! (length l - 1)"
    by (metis in_set_conv_nth length_sort set_sort)
  moreover have "sort l ! (length l - 1) \<in> set l"
    using assms nth_mem [of "length l - 1" "sort l"] by simp
  ultimately show ?thesis by (intro Max_eqI [symmetric]) auto
qed

lemma try_match_logs:
  "set (snd (try_match a b c d rts t s)) \<subseteq>
     {Log_latency (latency_text a b c d t sts rts (rts - sts)) | sts. pending s (pending_key a b c d) = Some sts}"
  by (auto simp: try_match_def Let_def snprintf_text_fits latency_text_fits not_less
      split: option.splits)

section \<open>Properties\<close>




definition ret_header :: event_header where
  "ret_header = \<lparr>timestamp_ns = 5, pid = 1, tid = 1, comm = replicate 16 0, module_id = 1,
     hook_id = 1, direction = DIR_SEND, is_retprobe = True\<rparr>"


text \<open>C9. The latency summary reads the sorted samples in range: its maximum is the largest
  sample, its median and 99th percentile are the samples of those ranks, and the three are
  ordered. The bound on the number of samples is where \<open>n * 99\<close> would wrap.\<close>

theorem latency_percentiles:
  assumes "l \<noteq> []" "length l < 2 ^ 57"
  shows "lr_max_us (latency_summary l) = Max (set l) div 1000 \<and>
         lr_p50_us (latency_summary l) = sort l ! (length l * 50 div 100) div 1000 \<and>
         lr_p99_us (latency_summary l) = sort l ! (length l * 99 div 100) div 1000 \<and>
         lr_p50_us (latency_summary l) \<le> lr_p99_us (latency_summary l) \<and>
         lr_p99_us (latency_summary l) \<le> lr_max_us (latency_summary l)"
proof (intro conjI)
  note eqs = latency_summary_eq [OF assms]
  have n: "0 < length l" using assms(1) by simp
  have p99: "length l * 99 div 100 < length l"
    using percentile_index_less(2) [OF n assms(2), of 99] by simp
  show "lr_max_us (latency_summary l) = Max (set l) div 1000"
    using eqs(3) last_sort_Max [OF assms(1)] by simp
  show "lr_p50_us (latency_summary l) = sort l ! (length l * 50 div 100) div 1000"
    "lr_p99_us (latency_summary l) = sort l ! (length l * 99 div 100) div 1000"
    by (fact eqs)+
  show "lr_p50_us (latency_summary l) \<le> lr_p99_us (latency_summary l)"
    unfolding eqs by (rule word_div_mono [OF sort_nth_mono [OF _ p99]]) (simp add: div_le_mono)
  show "lr_p99_us (latency_summary l) \<le> lr_max_us (latency_summary l)"
    unfolding eqs by (rule word_div_mono [OF sort_nth_mono]) (use p99 n in simp_all)
qed

theorem latency_percentiles_witness:
  "lr_p50_us (latency_summary [9000, 2000, 4000]) = 4 \<and>
   lr_max_us (latency_summary [9000, 2000, 4000]) = 9"
  using latency_percentiles [of "[9000, 2000, 4000]"] by simp

text \<open>C10. No line the collector logs is cut by its buffer: latency lines, timeout lines, the
  latency summary and the payload of every event are written whole.\<close>

theorem log_lines_whole:
  "set (snd (try_match a b c d rts t s)) \<subseteq>
     {Log_latency (latency_text a b c d t sts rts (rts - sts)) | sts. pending s (pending_key a b c d) = Some sts} \<and>
   snd (flush_latency s) =
     (if latency s = [] then [] else [Log_stats (latency_report_text (latency_summary (latency s)))]) \<and>
   snprintf_text 256 (routing_payload re) = routing_payload re \<and>
   snprintf_text 256 (app_payload ae) = app_payload ae \<and>
   snprintf_text 256 (sd_payload se) = sd_payload se"
  by (intro conjI try_match_logs)
     (simp_all add: flush_latency_def snprintf_text_fits latency_report_text_fits payload_fits)

end
