(* ===== verification/Ringbuf.thy ===== *)
theory Ringbuf
  imports Prelude
begin

text \<open>
  \<open>lib/libbpf/src/ringbuf.c\<close>: the consumer of BPF ring buffers that every collector polls,
  and the producer of user ring buffers. The kernel writes the producer position and the data
  pages while user space reads them: the \<open>t\<close>-th load of a call sees \<open>mem t\<close>, so a run is
  described for every interleaving. The data pages are mapped twice in a row, so an offset
  past the end continues at the start. A consuming loop need not end (the producer may never
  stop): it takes fuel, and running out is \<open>None\<close>.
\<close>

definition BPF_RINGBUF_BUSY_BIT :: u32 where "BPF_RINGBUF_BUSY_BIT = 0x80000000"
definition BPF_RINGBUF_DISCARD_BIT :: u32 where "BPF_RINGBUF_DISCARD_BIT = 0x40000000"
definition BPF_RINGBUF_HDR_SZ :: nat where "BPF_RINGBUF_HDR_SZ = 8"

section \<open>Shared memory\<close>

record ring_mem =
  rm_producer :: u64
  rm_data :: "nat \<Rightarrow> byte"

definition mem_bytes :: "u64 \<Rightarrow> (nat \<Rightarrow> byte) \<Rightarrow> nat \<Rightarrow> nat \<Rightarrow> byte list" where
  "mem_bytes msk data off k = map (\<lambda>i. data ((off + i) mod (unat msk + 1))) [0..<k]"

section \<open>The consumer\<close>

type_synonym 's sample_fn = "byte list \<Rightarrow> 's \<Rightarrow> int \<times> 's"

record 's ring =
  r_cb :: "'s sample_fn"
  r_mask :: u64
  r_consumer :: u64
  r_map_fd :: int

definition roundup_len :: "u32 \<Rightarrow> i32" where
  "roundup_len len =
     (let len = drop_bit 2 (push_bit 2 len);
          len = len + of_nat BPF_RINGBUF_HDR_SZ
      in (len + 7) div 8 * 8)"

text \<open>
  \<open>ringbuf_process_ring\<close> after its first load. \<open>t\<close> counts loads; \<open>got\<close> is
  \<open>got_new_data\<close>. The result holds the returned count or error, the ring with its new
  consumer position and the callback's state.
\<close>

fun process_loop ::
    "nat \<Rightarrow> (nat \<Rightarrow> ring_mem) \<Rightarrow> u64 \<Rightarrow> nat \<Rightarrow> u64 \<Rightarrow> u64 \<Rightarrow> bool \<Rightarrow> u64 \<Rightarrow> 's ring \<Rightarrow> 's \<Rightarrow>
     (int \<times> 's ring \<times> 's) option" where
  "process_loop 0 mem n t cons_pos prod_pos got cnt r s = None"
| "process_loop (Suc fuel) mem n t cons_pos prod_pos got cnt r s =
     (if cons_pos < prod_pos then
        let off = unat (cons_pos AND r_mask r);
            len = le_u32 (mem_bytes (r_mask r) (rm_data (mem t)) off 4)
        in if len AND BPF_RINGBUF_BUSY_BIT \<noteq> 0 then Some (sint cnt, r, s)
           else
             let cons_pos = cons_pos + scast (roundup_len len)
             in if len AND BPF_RINGBUF_DISCARD_BIT = 0 then
                  let sample = mem_bytes (r_mask r) (rm_data (mem t)) (off + BPF_RINGBUF_HDR_SZ)
                                 (unat len);
                      (err, s) = r_cb r sample s;
                      r = r\<lparr>r_consumer := cons_pos\<rparr>
                  in if err < 0 then Some (err, r, s)
                     else
                       let cnt = cnt + 1
                       in if n \<le> cnt then Some (sint cnt, r, s)
                          else process_loop fuel mem n (Suc t) cons_pos prod_pos True cnt r s
                else
                  let r = r\<lparr>r_consumer := cons_pos\<rparr>
                  in if n \<le> cnt then Some (sint cnt, r, s)
                     else process_loop fuel mem n (Suc t) cons_pos prod_pos True cnt r s
      else if got then
        process_loop fuel mem n (Suc t) cons_pos (rm_producer (mem t)) False cnt r s
      else Some (sint cnt, r, s))"

definition ringbuf_process_ring ::
    "nat \<Rightarrow> (nat \<Rightarrow> ring_mem) \<Rightarrow> u64 \<Rightarrow> 's ring \<Rightarrow> 's \<Rightarrow> (int \<times> 's ring \<times> 's) option" where
  "ringbuf_process_ring fuel mem n r s =
     process_loop fuel mem n 1 (r_consumer r) (rm_producer (mem 0)) False 0 r s"

section \<open>The ring buffer manager\<close>

record 's ring_buffer =
  rb_rings :: "'s ring list"
  rb_page_size :: u64
  rb_epoll_fd :: int

text \<open>The rings are visited in order from index \<open>i\<close>; \<open>mems i\<close> is what ring \<open>i\<close>'s loads see.\<close>

fun consume_n_loop ::
    "nat \<Rightarrow> (nat \<Rightarrow> nat \<Rightarrow> ring_mem) \<Rightarrow> nat \<Rightarrow> u64 \<Rightarrow> int \<Rightarrow> 's ring list \<Rightarrow> 's \<Rightarrow>
     (int \<times> 's ring list \<times> 's) option" where
  "consume_n_loop fuel mems i n res [] s = Some (if INT_MAX < res then INT_MAX else res, [], s)"
| "consume_n_loop fuel mems i n res (r # rs) s =
     (case ringbuf_process_ring fuel (mems i) n r s of
        None \<Rightarrow> None
      | Some (err, r, s) \<Rightarrow>
          if err < 0 then Some (err, r # rs, s)
          else
            let res = res + err; n = n - of_int err
            in if n = 0 then Some (if INT_MAX < res then INT_MAX else res, r # rs, s)
               else map_option (\<lambda>(e, rs, s). (e, r # rs, s))
                      (consume_n_loop fuel mems (Suc i) n res rs s))"

definition ring_buffer__consume_n ::
    "nat \<Rightarrow> (nat \<Rightarrow> nat \<Rightarrow> ring_mem) \<Rightarrow> u64 \<Rightarrow> 's ring_buffer \<Rightarrow> 's \<Rightarrow>
     (int \<times> 's ring_buffer \<times> 's) option" where
  "ring_buffer__consume_n fuel mems n rb s =
     map_option (\<lambda>(e, rs, s). (e, rb\<lparr>rb_rings := rs\<rparr>, s))
       (consume_n_loop fuel mems 0 n 0 (rb_rings rb) s)"

fun consume_loop ::
    "nat \<Rightarrow> (nat \<Rightarrow> nat \<Rightarrow> ring_mem) \<Rightarrow> nat \<Rightarrow> int \<Rightarrow> 's ring list \<Rightarrow> 's \<Rightarrow>
     (int \<times> 's ring list \<times> 's) option" where
  "consume_loop fuel mems i res [] s = Some (res, [], s)"
| "consume_loop fuel mems i res (r # rs) s =
     (case ringbuf_process_ring fuel (mems i) (of_int INT_MAX) r s of
        None \<Rightarrow> None
      | Some (err, r, s) \<Rightarrow>
          if err < 0 then Some (err, r # rs, s)
          else
            let res = res + err
            in if INT_MAX < res then Some (INT_MAX, r # rs, s)
               else map_option (\<lambda>(e, rs, s). (e, r # rs, s))
                      (consume_loop fuel mems (Suc i) res rs s))"

definition ring_buffer__consume ::
    "nat \<Rightarrow> (nat \<Rightarrow> nat \<Rightarrow> ring_mem) \<Rightarrow> 's ring_buffer \<Rightarrow> 's \<Rightarrow>
     (int \<times> 's ring_buffer \<times> 's) option" where
  "ring_buffer__consume fuel mems rb s =
     map_option (\<lambda>(e, rs, s). (e, rb\<lparr>rb_rings := rs\<rparr>, s))
       (consume_loop fuel mems 0 0 (rb_rings rb) s)"

text \<open>
  \<open>ring_buffer__poll\<close>: \<open>epoll\<close> is the answer of \<open>epoll_wait\<close>, an errno or the ids of
  the ready rings. An id comes from the event's data, which \<open>ring_buffer__add\<close> set.
\<close>

fun poll_loop ::
    "nat \<Rightarrow> (nat \<Rightarrow> nat \<Rightarrow> ring_mem) \<Rightarrow> nat \<Rightarrow> nat list \<Rightarrow> int \<Rightarrow> 's ring list \<Rightarrow> 's \<Rightarrow>
     (int \<times> 's ring list \<times> 's) option" where
  "poll_loop fuel mems i [] res rs s = Some (if INT_MAX < res then INT_MAX else res, rs, s)"
| "poll_loop fuel mems i (k # ks) res rs s =
     (if length rs \<le> k then None
      else case ringbuf_process_ring fuel (mems i) (of_int INT_MAX) (rs ! k) s of
        None \<Rightarrow> None
      | Some (err, r, s) \<Rightarrow>
          if err < 0 then Some (err, rs[k := r], s)
          else poll_loop fuel mems (Suc i) ks (res + err) (rs[k := r]) s)"

definition ring_buffer__poll ::
    "nat \<Rightarrow> (nat \<Rightarrow> nat \<Rightarrow> ring_mem) \<Rightarrow> (int + nat list) \<Rightarrow> 's ring_buffer \<Rightarrow> 's \<Rightarrow>
     (int \<times> 's ring_buffer \<times> 's) option" where
  "ring_buffer__poll fuel mems epoll rb s =
     (case epoll of
        Inl errno \<Rightarrow> Some (- errno, rb, s)
      | Inr ready \<Rightarrow>
          map_option (\<lambda>(e, rs, s). (e, rb\<lparr>rb_rings := rs\<rparr>, s))
            (poll_loop fuel mems 0 ready 0 (rb_rings rb) s))"

definition ring_buffer__epoll_fd :: "'s ring_buffer \<Rightarrow> int" where
  "ring_buffer__epoll_fd rb = rb_epoll_fd rb"

definition ring_buffer__ring :: "'s ring_buffer \<Rightarrow> u32 \<Rightarrow> int + 's ring" where
  "ring_buffer__ring rb idx =
     (if length (rb_rings rb) \<le> unat idx then Inl ERANGE else Inr (rb_rings rb ! unat idx))"

definition ring__avail_data_size :: "ring_mem \<Rightarrow> 's ring \<Rightarrow> u64" where
  "ring__avail_data_size m r = rm_producer m - r_consumer r"

definition ring__size :: "'s ring \<Rightarrow> u64" where
  "ring__size r = r_mask r + 1"

definition ring__consume_n ::
    "nat \<Rightarrow> (nat \<Rightarrow> ring_mem) \<Rightarrow> u64 \<Rightarrow> 's ring \<Rightarrow> 's \<Rightarrow> (int \<times> 's ring \<times> 's) option" where
  "ring__consume_n fuel mem n r s =
     map_option (\<lambda>(res, r, s). (if res < 0 then res else if INT_MAX < res then INT_MAX else res, r, s))
       (ringbuf_process_ring fuel mem n r s)"

definition ring__consume ::
    "nat \<Rightarrow> (nat \<Rightarrow> ring_mem) \<Rightarrow> 's ring \<Rightarrow> 's \<Rightarrow> (int \<times> 's ring \<times> 's) option" where
  "ring__consume fuel mem r s = ring__consume_n fuel mem (of_int INT_MAX) r s"

section \<open>Setting up and releasing\<close>

text \<open>
  The process's mappings (address and length) and its open epoll descriptors. The answers of
  the system calls and of the allocator during one \<open>ring_buffer__add\<close> or \<open>ring_buffer__new\<close>
  are an environment record: an errno, or the result.
\<close>

record sys_state =
  sys_maps :: "(u64 \<times> u64) list"
  sys_fds :: "int list"

definition munmap :: "u64 \<Rightarrow> u64 \<Rightarrow> sys_state \<Rightarrow> sys_state" where
  "munmap addr len sy = sy\<lparr>sys_maps := remove1 (addr, len) (sys_maps sy)\<rparr>"

definition mmap_at :: "u64 \<Rightarrow> u64 \<Rightarrow> sys_state \<Rightarrow> sys_state" where
  "mmap_at addr len sy = sy\<lparr>sys_maps := (addr, len) # sys_maps sy\<rparr>"

record add_env =
  ae_info :: "int + (u32 \<times> u32)"
  ae_realloc_rings :: bool
  ae_realloc_events :: bool
  ae_calloc :: bool
  ae_mmap_consumer :: "int + u64"
  ae_mmap_producer :: "int + u64"
  ae_epoll_add :: "int + unit"

definition BPF_MAP_TYPE_RINGBUF :: u32 where "BPF_MAP_TYPE_RINGBUF = 27"
definition BPF_MAP_TYPE_USER_RINGBUF :: u32 where "BPF_MAP_TYPE_USER_RINGBUF = 31"

text \<open>A ring's pages: its mappings, \<open>None\<close> for a null pointer.\<close>

record ring_pages =
  rp_consumer :: "u64 option"
  rp_producer :: "u64 option"
  rp_mask :: u64

definition ringbuf_free_ring :: "u64 \<Rightarrow> ring_pages \<Rightarrow> sys_state \<Rightarrow> sys_state" where
  "ringbuf_free_ring page_size r sy =
     (let sy = (case rp_consumer r of None \<Rightarrow> sy | Some a \<Rightarrow> munmap a page_size sy)
      in case rp_producer r of
           None \<Rightarrow> sy
         | Some a \<Rightarrow> munmap a (page_size + 2 * (rp_mask r + 1)) sy)"

text \<open>
  \<open>ring_buffer__add\<close> on the manager's list of pages. \<open>mmap_sz\<close> is 64 bits wide and so is
  \<open>size_t\<close>, so the \<open>-E2BIG\<close> branch compares a value with itself; it is kept.
\<close>

definition ring_buffer__add ::
    "add_env \<Rightarrow> u64 \<Rightarrow> ring_pages list \<Rightarrow> sys_state \<Rightarrow> int \<times> ring_pages list \<times> sys_state" where
  "ring_buffer__add env page_size rings sy =
     (case ae_info env of
        Inl errno \<Rightarrow> (- errno, rings, sy)
      | Inr (ty, max_entries) \<Rightarrow>
          if ty \<noteq> BPF_MAP_TYPE_RINGBUF then (- EINVAL, rings, sy)
          else if \<not> ae_realloc_rings env then (- ENOMEM, rings, sy)
          else if \<not> ae_realloc_events env then (- ENOMEM, rings, sy)
          else if \<not> ae_calloc env then (- ENOMEM, rings, sy)
          else
            let r = \<lparr>rp_consumer = None, rp_producer = None, rp_mask = ucast (max_entries - 1)\<rparr>
            in case ae_mmap_consumer env of
                 Inl errno \<Rightarrow> (- errno, rings, ringbuf_free_ring page_size r sy)
               | Inr ca \<Rightarrow>
                   let sy = mmap_at ca page_size sy;
                       r = r\<lparr>rp_consumer := Some ca\<rparr>;
                       mmap_sz = page_size + 2 * ucast max_entries
                   in if mmap_sz \<noteq> ucast (ucast mmap_sz :: u64)
                      then (- E2BIG, rings, ringbuf_free_ring page_size r sy)
                      else case ae_mmap_producer env of
                        Inl errno \<Rightarrow> (- errno, rings, ringbuf_free_ring page_size r sy)
                      | Inr pa \<Rightarrow>
                          let sy = mmap_at pa mmap_sz sy;
                              r = r\<lparr>rp_producer := Some pa\<rparr>
                          in case ae_epoll_add env of
                               Inl errno \<Rightarrow> (- errno, rings, ringbuf_free_ring page_size r sy)
                             | Inr _ \<Rightarrow> (0, rings @ [r], sy))"

definition ring_buffer__free :: "u64 \<Rightarrow> int \<Rightarrow> ring_pages list \<Rightarrow> sys_state \<Rightarrow> sys_state" where
  "ring_buffer__free page_size epoll_fd rings sy =
     (let sy = fold (ringbuf_free_ring page_size) rings sy
      in if 0 \<le> epoll_fd then sy\<lparr>sys_fds := remove1 epoll_fd (sys_fds sy)\<rparr> else sy)"

record new_env =
  ne_opts_valid :: bool
  ne_calloc :: bool
  ne_page_size :: u64
  ne_epoll :: "int + int"
  ne_add :: add_env

text \<open>\<open>ring_buffer__new\<close>: errno and null, or the manager (its page size, epoll fd and rings).\<close>

definition ring_buffer__new ::
    "new_env \<Rightarrow> sys_state \<Rightarrow> (int + (u64 \<times> int \<times> ring_pages list)) \<times> sys_state" where
  "ring_buffer__new env sy =
     (if \<not> ne_opts_valid env then (Inl EINVAL, sy)
      else if \<not> ne_calloc env then (Inl ENOMEM, sy)
      else
        let ps = ne_page_size env
        in case ne_epoll env of
             Inl errno \<Rightarrow> (Inl errno, ring_buffer__free ps (-1) [] sy)
           | Inr fd \<Rightarrow>
               let sy = sy\<lparr>sys_fds := fd # sys_fds sy\<rparr>
               in case ring_buffer__add (ne_add env) ps [] sy of
                    (err, rings, sy) \<Rightarrow>
                      if err \<noteq> 0 then (Inl (- err), ring_buffer__free ps fd rings sy)
                      else (Inr (ps, fd, rings), sy))"

end
