(* ===== verification/User_Ringbuf.thy ===== *)
theory User_Ringbuf
  imports Ringbuf
begin

text \<open>
  The producer side of a user ring buffer (\<open>user_ring_buffer__*\<close> of
  \<open>lib/libbpf/src/ringbuf.c\<close>): reserving a sample, committing or discarding it, waiting for
  space, and mapping and releasing the pages. A sample pointer is its offset in the data area.
\<close>

record user_ring_buffer =
  ur_mask :: u64
  ur_consumer :: u64
  ur_producer :: u64
  ur_data :: "nat \<Rightarrow> byte"
  ur_map_fd :: int
  ur_epoll_fd :: int

definition ur_size :: "user_ring_buffer \<Rightarrow> nat" where
  "ur_size rb = unat (ur_mask rb) + 1"

text \<open>Storing bytes in the doubly mapped data area.\<close>

fun store_bytes :: "nat \<Rightarrow> nat \<Rightarrow> byte list \<Rightarrow> (nat \<Rightarrow> byte) \<Rightarrow> (nat \<Rightarrow> byte)" where
  "store_bytes sz off [] d = d"
| "store_bytes sz off (b # bs) d = store_bytes sz (Suc off) bs (d(off mod sz := b))"

definition hdr_len_at :: "user_ring_buffer \<Rightarrow> nat \<Rightarrow> u32" where
  "hdr_len_at rb off = le_u32 (mem_bytes (ur_mask rb) (ur_data rb) off 4)"

section \<open>Reserve, submit, discard\<close>

definition user_ring_buffer__reserve ::
    "user_ring_buffer \<Rightarrow> u32 \<Rightarrow> (int + nat) \<times> user_ring_buffer" where
  "user_ring_buffer__reserve rb sz =
     (if sz AND (BPF_RINGBUF_BUSY_BIT OR BPF_RINGBUF_DISCARD_BIT) \<noteq> 0 then (Inl E2BIG, rb)
      else
        let cons_pos = ur_consumer rb;
            prod_pos = ur_producer rb;
            max_size = ucast (ur_mask rb + 1) :: u32;
            avail_size = ucast (ucast max_size - (prod_pos - cons_pos)) :: u32;
            total_size = (sz + of_nat BPF_RINGBUF_HDR_SZ + 7) div 8 * 8
        in if max_size < total_size then (Inl E2BIG, rb)
           else if avail_size < total_size then (Inl ENOSPC, rb)
           else
             let off = unat (prod_pos AND ur_mask rb);
                 data = store_bytes (ur_size rb) off
                   (u32_le (sz OR BPF_RINGBUF_BUSY_BIT) @ u32_le 0) (ur_data rb)
             in (Inr (unat ((prod_pos + of_nat BPF_RINGBUF_HDR_SZ) AND ur_mask rb)),
                 rb\<lparr>ur_data := data, ur_producer := prod_pos + ucast total_size\<rparr>))"

definition user_ringbuf_commit :: "user_ring_buffer \<Rightarrow> nat \<Rightarrow> bool \<Rightarrow> user_ring_buffer" where
  "user_ringbuf_commit rb sample discard =
     (let hdr_offset = ur_mask rb + 1 + of_nat sample - of_nat BPF_RINGBUF_HDR_SZ;
          hdr = unat (hdr_offset AND ur_mask rb);
          new_len = hdr_len_at rb hdr AND NOT BPF_RINGBUF_BUSY_BIT;
          new_len = (if discard then new_len OR BPF_RINGBUF_DISCARD_BIT else new_len)
      in rb\<lparr>ur_data := store_bytes (ur_size rb) hdr (u32_le new_len) (ur_data rb)\<rparr>)"

definition user_ring_buffer__discard :: "user_ring_buffer \<Rightarrow> nat \<Rightarrow> user_ring_buffer" where
  "user_ring_buffer__discard rb sample = user_ringbuf_commit rb sample True"

definition user_ring_buffer__submit :: "user_ring_buffer \<Rightarrow> nat \<Rightarrow> user_ring_buffer" where
  "user_ring_buffer__submit rb sample = user_ringbuf_commit rb sample False"

section \<open>Waiting for space\<close>

record timespec =
  tv_sec :: i64
  tv_nsec :: i64

definition ns_elapsed_timespec :: "timespec \<Rightarrow> timespec \<Rightarrow> u64" where
  "ns_elapsed_timespec start stop =
     (let ns_per_s = 1000000000
      in (tv_sec stop * ns_per_s + tv_nsec stop) - (tv_sec start * ns_per_s + tv_nsec start))"

text \<open>
  One wait: where the kernel has moved the consumer position by the time \<open>epoll_wait\<close>
  returns, its answer (an errno or a count), and the clock after it.
\<close>

record wait_env =
  we_consumer :: u64
  we_epoll :: "int + nat"
  we_clock :: "int + timespec"

text \<open>
  The loop of \<open>reserve_blocking\<close>. \<open>continue\<close> inside \<open>do ... while (ms_remaining > 0)\<close>
  goes to the loop condition. An errno that \<open>epoll_wait\<close> or \<open>clock_gettime\<close> set is returned
  with the null pointer. \<open>waits\<close> are the waits of the run; running out of them is \<open>None\<close>
  (the call is still blocked).
\<close>

fun reserve_wait_loop ::
    "i32 \<Rightarrow> timespec \<Rightarrow> u32 \<Rightarrow> wait_env list \<Rightarrow> user_ring_buffer \<Rightarrow>
     ((int + nat) \<times> user_ring_buffer) option" where
  "reserve_wait_loop timeout_ms start sz waits rb =
     (case user_ring_buffer__reserve rb sz of
        (Inr p, rb') \<Rightarrow> Some (Inr p, rb')
      | (Inl errno, rb') \<Rightarrow>
          if errno \<noteq> ENOSPC then Some (Inl errno, rb')
          else case waits of
            [] \<Rightarrow> None
          | w # ws \<Rightarrow>
              let rb'' = rb'\<lparr>ur_consumer := we_consumer w\<rparr>
              in case we_epoll w of
                   Inl errno \<Rightarrow> Some (Inl errno, rb'')
                 | Inr _ \<Rightarrow>
                     if timeout_ms = -1 then Some (user_ring_buffer__reserve rb'' sz)
                     else case we_clock w of
                       Inl errno \<Rightarrow> Some (Inl errno, rb'')
                     | Inr cur \<Rightarrow>
                         let ms_elapsed = ucast (ns_elapsed_timespec start cur div 1000000) :: i32;
                             ms_remaining = timeout_ms - ms_elapsed
                         in if 0 < sint ms_remaining
                            then reserve_wait_loop timeout_ms start sz ws rb''
                            else Some (user_ring_buffer__reserve rb'' sz))"

declare reserve_wait_loop.simps [simp del]

definition user_ring_buffer__reserve_blocking ::
    "user_ring_buffer \<Rightarrow> u32 \<Rightarrow> i32 \<Rightarrow> (int + timespec) \<Rightarrow> wait_env list \<Rightarrow>
     ((int + nat) \<times> user_ring_buffer) option" where
  "user_ring_buffer__reserve_blocking rb sz timeout_ms clock waits =
     (if sint timeout_ms < 0 \<and> timeout_ms \<noteq> -1 then Some (Inl EINVAL, rb)
      else if timeout_ms \<noteq> -1 then
        case clock of
          Inl errno \<Rightarrow> Some (Inl errno, rb)
        | Inr start \<Rightarrow> reserve_wait_loop timeout_ms start sz waits rb
      else reserve_wait_loop timeout_ms \<lparr>tv_sec = 0, tv_nsec = 0\<rparr> sz waits rb)"

section \<open>Mapping and releasing\<close>

definition user_ringbuf_unmap_ring :: "u64 \<Rightarrow> ring_pages \<Rightarrow> sys_state \<Rightarrow> sys_state" where
  "user_ringbuf_unmap_ring page_size r sy =
     (let sy = (case rp_consumer r of None \<Rightarrow> sy | Some a \<Rightarrow> munmap a page_size sy)
      in case rp_producer r of
           None \<Rightarrow> sy
         | Some a \<Rightarrow> munmap a (page_size + 2 * (rp_mask r + 1)) sy)"

definition user_ring_buffer__free :: "u64 \<Rightarrow> int \<Rightarrow> ring_pages \<Rightarrow> sys_state \<Rightarrow> sys_state" where
  "user_ring_buffer__free page_size epoll_fd r sy =
     (let sy = user_ringbuf_unmap_ring page_size r sy
      in if 0 \<le> epoll_fd then sy\<lparr>sys_fds := remove1 epoll_fd (sys_fds sy)\<rparr> else sy)"

text \<open>\<open>user_ringbuf_map\<close> returns the pages it has mapped even when it fails.\<close>

definition user_ringbuf_map ::
    "add_env \<Rightarrow> u64 \<Rightarrow> sys_state \<Rightarrow> int \<times> ring_pages \<times> sys_state" where
  "user_ringbuf_map env page_size sy =
     (let r = \<lparr>rp_consumer = None, rp_producer = None, rp_mask = 0\<rparr>
      in case ae_info env of
           Inl errno \<Rightarrow> (- errno, r, sy)
         | Inr (ty, max_entries) \<Rightarrow>
             if ty \<noteq> BPF_MAP_TYPE_USER_RINGBUF then (- EINVAL, r, sy)
             else
               let r = r\<lparr>rp_mask := ucast (max_entries - 1)\<rparr>
               in case ae_mmap_consumer env of
                    Inl errno \<Rightarrow> (- errno, r, sy)
                  | Inr ca \<Rightarrow>
                      let sy = mmap_at ca page_size sy;
                          r = r\<lparr>rp_consumer := Some ca\<rparr>;
                          mmap_sz = page_size + 2 * ucast max_entries
                      in if mmap_sz \<noteq> ucast (ucast mmap_sz :: u64) then (- E2BIG, r, sy)
                         else case ae_mmap_producer env of
                           Inl errno \<Rightarrow> (- errno, r, sy)
                         | Inr pa \<Rightarrow>
                             let sy = mmap_at pa mmap_sz sy;
                                 r = r\<lparr>rp_producer := Some pa\<rparr>
                             in case ae_epoll_add env of
                                  Inl errno \<Rightarrow> (- errno, r, sy)
                                | Inr _ \<Rightarrow> (0, r, sy))"

definition user_ring_buffer__new ::
    "new_env \<Rightarrow> sys_state \<Rightarrow> (int + (u64 \<times> int \<times> ring_pages)) \<times> sys_state" where
  "user_ring_buffer__new env sy =
     (let null = \<lparr>rp_consumer = None, rp_producer = None, rp_mask = 0\<rparr>
      in if \<not> ne_opts_valid env then (Inl EINVAL, sy)
         else if \<not> ne_calloc env then (Inl ENOMEM, sy)
         else
           let ps = ne_page_size env
           in case ne_epoll env of
                Inl errno \<Rightarrow> (Inl errno, user_ring_buffer__free ps (-1) null sy)
              | Inr fd \<Rightarrow>
                  let sy = sy\<lparr>sys_fds := fd # sys_fds sy\<rparr>
                  in case user_ringbuf_map (ne_add env) ps sy of
                       (err, r, sy) \<Rightarrow>
                         if err \<noteq> 0 then (Inl (- err), user_ring_buffer__free ps fd r sy)
                         else (Inr (ps, fd, r), sy))"

end
