(* ===== verification/Ringbuf_Props.thy ===== *)
theory Ringbuf_Props
  imports Ringbuf User_Ringbuf
begin

text \<open>
  Lemmas on the ring buffers: the rounded length, what a consuming call does to a ring whose
  contents stand still (every committed record delivered once and in order, discarded ones
  skipped, stopping at a record still being written), bounds that hold under every
  interleaving with the producer, the reserve/commit pair of user rings, and the release of
  resources on error paths.
\<close>

section \<open>Record lengths\<close>

lemma drop_push_len: "drop_bit 2 (push_bit 2 (len :: u32)) = take_bit 30 len"
  by (rule bit_word_eqI) (auto simp: bit_simps)

lemma unat_take_bit_30: "unat (take_bit 30 (len :: u32)) = unat len mod 2 ^ 30"
  by (simp only: unsigned_take_bit_eq) (simp add: take_bit_eq_mod)

lemma unat_roundup_len: "unat (roundup_len len) = (unat len mod 2 ^ 30 + 15) div 8 * 8"
proof -
  define m where "m = unat len mod 2 ^ 30"
  have m: "m < 2 ^ 30" by (simp add: m_def)
  have a: "unat (take_bit 30 len + 8) = m + 8"
    using m by (simp add: unat_word_ariths unat_take_bit_30 m_def)
  then have b: "unat (take_bit 30 len + 8 + 7) = m + 15"
    using m by (subst unat_word_ariths(1)) simp
  then have c: "unat ((take_bit 30 len + 8 + 7) div 8) = (m + 15) div 8"
    by (simp add: unat_div)
  have "(m + 15) div 8 * 8 < 2 ^ 32" using m by simp
  then show ?thesis
    using c by (simp add: roundup_len_def drop_push_len BPF_RINGBUF_HDR_SZ_def m_def
        unat_word_ariths(2))
qed

lemma scast_nonneg: "\<not> bit (w :: u32) 31 \<Longrightarrow> (scast w :: u64) = ucast w"
proof (rule bit_word_eqI)
  fix n
  assume "\<not> bit w 31" "n < LENGTH(64)"
  then show "bit (scast w :: u64) n = bit (ucast w :: u64) n"
    using bit_imp_le_length [of w n] by (cases "n = 31") (auto simp: bit_simps min_def)
qed

lemma not_bit_31: "unat (w :: u32) < 2 ^ 31 \<Longrightarrow> \<not> bit w 31"
  by (simp add: bit_iff_odd_drop_bit drop_bit_eq_div word_arith_nat_div)

lemma roundup_len_scast:
  "(scast (roundup_len len) :: u64) = of_nat ((unat len mod 2 ^ 30 + 15) div 8 * 8)"
proof -
  have "unat len mod 2 ^ 30 < 2 ^ 30" by simp
  then have "unat (roundup_len len) < 2 ^ 31" by (simp add: unat_roundup_len)
  then have "(scast (roundup_len len) :: u64) = ucast (roundup_len len)"
    by (intro scast_nonneg not_bit_31)
  also have "\<dots> = of_nat (unat (roundup_len len))" by simp
  finally show ?thesis by (simp only: unat_roundup_len)
qed

section \<open>Ring contents\<close>

text \<open>A finished record: discarded or not, and its bytes.\<close>

datatype ring_rec = Ring_rec bool "byte list"

fun rec_hdr :: "ring_rec \<Rightarrow> u32" where
  "rec_hdr (Ring_rec d bs) = of_nat (length bs) OR (if d then BPF_RINGBUF_DISCARD_BIT else 0)"

fun rec_bytes :: "ring_rec \<Rightarrow> byte list" where
  "rec_bytes (Ring_rec d bs) = bs"

fun rec_kept :: "ring_rec \<Rightarrow> bool" where
  "rec_kept (Ring_rec d bs) = (\<not> d)"

definition rec_span :: "ring_rec \<Rightarrow> nat" where
  "rec_span x = (length (rec_bytes x) + 15) div 8 * 8"

definition samples :: "ring_rec list \<Rightarrow> byte list list" where
  "samples rs = map rec_bytes (filter rec_kept rs)"

definition hdr_at :: "ring_mem \<Rightarrow> u64 \<Rightarrow> nat \<Rightarrow> u32" where
  "hdr_at m msk pos = le_u32 (mem_bytes msk (rm_data m) (unat (of_nat pos AND msk)) 4)"

definition rec_at :: "ring_mem \<Rightarrow> u64 \<Rightarrow> nat \<Rightarrow> ring_rec \<Rightarrow> bool" where
  "rec_at m msk pos x \<longleftrightarrow>
     length (rec_bytes x) < 2 ^ 30 \<and> hdr_at m msk pos = rec_hdr x \<and>
     mem_bytes msk (rm_data m) (unat (of_nat pos AND msk) + BPF_RINGBUF_HDR_SZ)
       (length (rec_bytes x)) = rec_bytes x"

text \<open>The finished records from position \<open>p\<close> up to position \<open>q\<close>.\<close>

fun recs_from :: "ring_mem \<Rightarrow> u64 \<Rightarrow> nat \<Rightarrow> ring_rec list \<Rightarrow> nat \<Rightarrow> bool" where
  "recs_from m msk p [] q = (p = q)"
| "recs_from m msk p (x # xs) q = (rec_at m msk p x \<and> recs_from m msk (p + rec_span x) xs q)"

definition busy_at :: "ring_mem \<Rightarrow> u64 \<Rightarrow> nat \<Rightarrow> bool" where
  "busy_at m msk pos \<longleftrightarrow> hdr_at m msk pos AND BPF_RINGBUF_BUSY_BIT \<noteq> 0"

lemma recs_from_le: "recs_from m msk p xs q \<Longrightarrow> p \<le> q"
  by (induction xs arbitrary: p) fastforce+

lemma rec_span_pos: "8 \<le> rec_span x"
  by (simp add: rec_span_def)

lemma bit_busy: "bit BPF_RINGBUF_BUSY_BIT n \<longleftrightarrow> n = 31"
proof -
  have eq: "BPF_RINGBUF_BUSY_BIT = push_bit 31 1" by (simp add: BPF_RINGBUF_BUSY_BIT_def)
  show ?thesis by (simp only: eq bit_push_bit_iff bit_1_iff) auto
qed

lemma bit_discard: "bit BPF_RINGBUF_DISCARD_BIT n \<longleftrightarrow> n = 30"
proof -
  have eq: "BPF_RINGBUF_DISCARD_BIT = push_bit 30 1" by (simp add: BPF_RINGBUF_DISCARD_BIT_def)
  show ?thesis by (simp only: eq bit_push_bit_iff bit_1_iff) auto
qed

lemma len_bit_high:
  assumes "length bs < 2 ^ 30" "30 \<le> n"
  shows "\<not> bit (of_nat (length bs) :: u32) n"
proof -
  have "length bs < 2 ^ n"
    using assms by (meson less_le_trans one_le_numeral power_increasing)
  then have "\<not> bit (length bs) n" by (simp add: bit_iff_odd)
  then show ?thesis by (simp add: bit_of_nat_iff)
qed

lemma hdr_bits:
  assumes "length bs < 2 ^ 30"
  shows "rec_hdr (Ring_rec d bs) AND BPF_RINGBUF_BUSY_BIT = 0"
    "rec_hdr (Ring_rec d bs) AND BPF_RINGBUF_DISCARD_BIT = 0 \<longleftrightarrow> \<not> d"
    "unat (rec_hdr (Ring_rec d bs)) mod 2 ^ 30 = length bs"
    "\<not> d \<Longrightarrow> unat (rec_hdr (Ring_rec d bs)) = length bs"
proof -
  define w where "w = (of_nat (length bs) :: u32)"
  have u: "unat w = length bs" using assms by (simp add: w_def unat_of_nat)
  have hi: "\<not> bit w n" if "30 \<le> n" for n
    using len_bit_high [OF assms that] by (simp add: w_def)
  have lo: "bit w n \<Longrightarrow> n < 30" for n using hi [of n] by (meson not_less)
  have h: "bit (rec_hdr (Ring_rec d bs)) n \<longleftrightarrow> bit w n \<or> (d \<and> n = 30)" for n
    by (simp add: bit_or_iff bit_discard w_def)
  show "rec_hdr (Ring_rec d bs) AND BPF_RINGBUF_BUSY_BIT = 0"
    by (rule bit_word_eqI) (use hi in \<open>auto simp: h bit_and_iff bit_busy simp del: rec_hdr.simps\<close>)
  show "rec_hdr (Ring_rec d bs) AND BPF_RINGBUF_DISCARD_BIT = 0 \<longleftrightarrow> \<not> d"
  proof
    assume "rec_hdr (Ring_rec d bs) AND BPF_RINGBUF_DISCARD_BIT = 0"
    then have "\<not> bit (rec_hdr (Ring_rec d bs) AND BPF_RINGBUF_DISCARD_BIT) 30" by simp
    then show "\<not> d" by (simp add: h bit_and_iff bit_discard del: rec_hdr.simps)
  next
    assume "\<not> d"
    then show "rec_hdr (Ring_rec d bs) AND BPF_RINGBUF_DISCARD_BIT = 0"
      by (intro bit_word_eqI) (use hi h in \<open>auto simp: bit_and_iff bit_discard simp del: rec_hdr.simps\<close>)
  qed
  have tb: "take_bit 30 (rec_hdr (Ring_rec d bs)) = w"
    by (rule bit_word_eqI)
       (use lo in \<open>auto simp: h bit_take_bit_iff simp del: rec_hdr.simps\<close>)
  then show "unat (rec_hdr (Ring_rec d bs)) mod 2 ^ 30 = length bs"
    by (metis u unat_take_bit_30)
  show "\<not> d \<Longrightarrow> unat (rec_hdr (Ring_rec d bs)) = length bs"
    using u by (simp add: w_def)
qed

declare process_loop.simps [simp del]

text \<open>What one iteration of the consumer's loop can do, whatever memory it sees.\<close>

lemma process_loop_elim [consumes 1, case_names stop reload abort kept_last kept skip_last skip]:
  assumes "process_loop (Suc fuel) mem n t c pp got cnt r s = Some (res, r', s')"
  obtains "res = sint cnt" "r' = r" "s' = s"
  | "process_loop fuel mem n (Suc t) c (rm_producer (mem t)) False cnt r s = Some (res, r', s')"
  | l b where "res = fst (r_cb r b s)" "res < 0" "s' = snd (r_cb r b s)"
      "r' = r\<lparr>r_consumer := c + scast (roundup_len l)\<rparr>"
  | l b where "0 \<le> fst (r_cb r b s)" "n \<le> cnt + 1" "res = sint (cnt + 1)"
      "s' = snd (r_cb r b s)" "r' = r\<lparr>r_consumer := c + scast (roundup_len l)\<rparr>"
  | l b where "0 \<le> fst (r_cb r b s)" "\<not> n \<le> cnt + 1"
      "process_loop fuel mem n (Suc t) (c + scast (roundup_len l)) pp True (cnt + 1)
        (r\<lparr>r_consumer := c + scast (roundup_len l)\<rparr>) (snd (r_cb r b s)) = Some (res, r', s')"
  | l where "n \<le> cnt" "res = sint cnt" "s' = s"
      "r' = r\<lparr>r_consumer := c + scast (roundup_len l)\<rparr>"
  | l where "\<not> n \<le> cnt"
      "process_loop fuel mem n (Suc t) (c + scast (roundup_len l)) pp True cnt
        (r\<lparr>r_consumer := c + scast (roundup_len l)\<rparr>) s = Some (res, r', s')"
proof -
  define l where "l = le_u32 (mem_bytes (r_mask r) (rm_data (mem t)) (unat (c AND r_mask r)) 4)"
  define b where "b = mem_bytes (r_mask r) (rm_data (mem t))
    (unat (c AND r_mask r) + BPF_RINGBUF_HDR_SZ) (unat l)"
  note run = assms [unfolded process_loop.simps(2) Let_def, folded l_def, folded b_def]
  show thesis
  proof (cases "c < pp")
    case False
    with run that(1,2) show thesis by (cases got) simp_all
  next
    case lt: True
    show thesis
    proof (cases "l AND BPF_RINGBUF_BUSY_BIT = 0")
      case False
      with run lt that(1) show thesis by simp
    next
      case ready: True
      show thesis
      proof (cases "l AND BPF_RINGBUF_DISCARD_BIT = 0")
        case True
        with run lt ready that(3) [of b l] that(4) [of b l] that(5) [of b l] show thesis
          by (cases "fst (r_cb r b s) < 0"; cases "n \<le> cnt + 1") (simp_all add: split_beta)
      next
        case False
        with run lt ready that(6,7) [of l] show thesis
          by (cases "n \<le> cnt") simp_all
      qed
    qed
  qed
qed

section \<open>Draining a ring that stands still\<close>

text \<open>
  The contract of a sample callback: it never asks the consumer to stop, and keeps its state's
  invariant.
\<close>

locale sample_consumer =
  fixes cb :: "byte list \<Rightarrow> 's \<Rightarrow> int \<times> 's"
    and inv :: "'s \<Rightarrow> bool"
  assumes accepts: "inv s \<Longrightarrow> 0 \<le> fst (cb b s)"
    and keeps: "inv s \<Longrightarrow> inv (snd (cb b s))"
begin

definition deliver :: "byte list list \<Rightarrow> 's \<Rightarrow> 's" where
  "deliver bs s = fold (\<lambda>b s. snd (cb b s)) bs s"

lemma deliver_simps:
  "deliver [] s = s" "deliver (b # bs) s = deliver bs (snd (cb b s))"
  by (simp_all add: deliver_def)

lemma inv_deliver: "inv s \<Longrightarrow> inv (deliver bs s)"
  by (induction bs arbitrary: s) (auto simp: deliver_def keeps)

lemma drain_stop:
  assumes "unat pp = q \<or> busy_at m (r_mask r) q" "q \<le> unat pp" "unat cons = q"
    and fuel: "2 < fuel"
    and pp: "rm_producer m = pp"
  shows "process_loop fuel (\<lambda>_. m) n t cons pp got cnt r s = Some (sint cnt, r, s)"
proof -
  obtain f where f: "fuel = Suc (Suc (Suc f))"
    using fuel by (metis Suc_diff_Suc less_imp_Suc_add numeral_2_eq_2 add_Suc)
  show ?thesis
  proof (cases "q = unat pp")
    case True
    then have "\<not> cons < pp" using assms(3) by (simp add: word_less_nat_alt)
    then show ?thesis by (simp add: process_loop.simps f pp)
  next
    case False
    then have lt: "cons < pp" and busy: "busy_at m (r_mask r) q"
      using assms(1-3) by (auto simp: word_less_nat_alt)
    have "of_nat q = cons" using assms(3) by auto
    with busy have "le_u32 (mem_bytes (r_mask r) (rm_data m) (unat (cons AND r_mask r)) 4)
        AND BPF_RINGBUF_BUSY_BIT \<noteq> 0"
      by (simp add: busy_at_def hdr_at_def)
    with lt show ?thesis by (simp add: process_loop.simps f)
  qed
qed

lemma drain:
  assumes "recs_from m (r_mask r) p rs q" "q \<le> unat pp"
    and "unat pp = q \<or> busy_at m (r_mask r) q"
    and "unat cons = p" "r_consumer r = cons" "r_cb r = cb" "inv s"
    and "unat cnt + length (samples rs) < unat n"
    and "length rs + 2 < fuel"
    and pp: "rm_producer m = pp"
  shows "process_loop fuel (\<lambda>_. m) n t cons pp got cnt r s =
           Some (sint (cnt + of_nat (length (samples rs))), r\<lparr>r_consumer := of_nat q\<rparr>,
                 deliver (samples rs) s)"
  using assms(1-9)
proof (induction rs arbitrary: p cons t got cnt r s fuel)
  case Nil
  then have pq: "p = q" by simp
  have "process_loop fuel (\<lambda>_. m) n t cons pp got cnt r s = Some (sint cnt, r, s)"
    using Nil pq by (intro drain_stop [OF _ _ _ _ pp, of q]) auto
  moreover have "r\<lparr>r_consumer := of_nat q\<rparr> = r" using Nil.prems(4,5) pq by auto
  ultimately show ?case by (simp add: samples_def deliver_def)
next
  case (Cons x rs)
  obtain d bs where x: "x = Ring_rec d bs" by (cases x)
  obtain f where f: "fuel = Suc f" using Cons.prems(9) by (cases fuel) auto
  have at: "rec_at m (r_mask r) p x" and more: "recs_from m (r_mask r) (p + rec_span x) rs q"
    using Cons.prems(1) by auto
  have len: "length bs < 2 ^ 30" using at by (simp add: rec_at_def x)
  have le: "p + rec_span x \<le> q" by (rule recs_from_le [OF more])
  have lt: "cons < pp"
    using le rec_span_pos [of x] Cons.prems(2,4) by (simp add: word_less_nat_alt)
  have pc: "of_nat p = cons" using Cons.prems(4) by auto
  have hdr: "le_u32 (mem_bytes (r_mask r) (rm_data m) (unat (cons AND r_mask r)) 4) = rec_hdr x"
    using at by (simp add: rec_at_def hdr_at_def pc)
  have bytes: "mem_bytes (r_mask r) (rm_data m) (unat (cons AND r_mask r) + BPF_RINGBUF_HDR_SZ)
      (length bs) = bs"
    using at by (simp add: rec_at_def pc x)
  have adv: "cons + scast (roundup_len (rec_hdr x)) = of_nat (p + rec_span x)"
    using hdr_bits(3) [OF len, of d]
    by (simp add: roundup_len_scast x rec_span_def pc [symmetric] del: rec_hdr.simps)
  define c' where "c' = (of_nat (p + rec_span x) :: u64)"
  have c': "unat c' = p + rec_span x"
    using le Cons.prems(2) unat_bound [of pp] by (simp add: c'_def unat_of_nat del: of_nat_add)
  have q64: "q < 2 ^ 64" using Cons.prems(2) unat_bound [of pp] by simp
  have bits: "rec_hdr x AND BPF_RINGBUF_BUSY_BIT = 0"
    "rec_hdr x AND BPF_RINGBUF_DISCARD_BIT = 0 \<longleftrightarrow> \<not> d"
    using hdr_bits(1,2) [OF len, of d] by (simp_all only: x)
  show ?case
  proof (cases d)
    case True
    have s: "samples (x # rs) = samples rs" using True by (simp add: samples_def x)
    have "\<not> n \<le> cnt" using Cons.prems(8) by (simp add: word_le_nat_alt)
    moreover have "process_loop f (\<lambda>_. m) n (Suc t) c' pp True cnt (r\<lparr>r_consumer := c'\<rparr>) s =
        Some (sint (cnt + of_nat (length (samples rs))),
              r\<lparr>r_consumer := c'\<rparr>\<lparr>r_consumer := of_nat q\<rparr>, deliver (samples rs) s)"
      using Cons.prems c' more f s by (intro Cons.IH) auto
    ultimately show ?thesis
      using lt bits True
      by (simp add: process_loop.simps f hdr adv c'_def [symmetric] Let_def x [symmetric] s
          del: of_nat_add rec_hdr.simps)
  next
    case False
    have s: "samples (x # rs) = bs # samples rs" using False by (simp add: samples_def x)
    have cnt1: "unat (cnt + 1) = unat cnt + 1"
    proof -
      have "unat cnt + 1 < 2 ^ 64"
        using Cons.prems(8) unat_bound [of n] s by simp
      then show ?thesis by (simp add: unat_word_ariths)
    qed
    have nle: "\<not> n \<le> cnt + 1" using Cons.prems(8) s cnt1 by (simp add: word_le_nat_alt)
    have acc: "\<not> fst (cb bs s) < 0" using accepts [OF Cons.prems(7), of bs] by simp
    have "process_loop f (\<lambda>_. m) n (Suc t) c' pp True (cnt + 1) (r\<lparr>r_consumer := c'\<rparr>)
        (snd (cb bs s)) =
        Some (sint (cnt + 1 + of_nat (length (samples rs))),
              r\<lparr>r_consumer := c'\<rparr>\<lparr>r_consumer := of_nat q\<rparr>, deliver (samples rs) (snd (cb bs s)))"
      using Cons.prems c' more f s cnt1 keeps [OF Cons.prems(7), of bs]
    by (intro Cons.IH) auto
    moreover have "unat (rec_hdr x) = length bs" using hdr_bits(4) [OF len False] by (simp add: x False)
    ultimately show ?thesis
      using lt bits False nle acc Cons.prems(6)
      by (simp add: process_loop.simps f hdr adv c'_def [symmetric] Let_def x [symmetric] s bytes split_beta
          deliver_def add.assoc del: of_nat_add rec_hdr.simps)
  qed
qed

lemma process_loop_inv:
  "process_loop fuel mem n t c pp got cnt r s = Some (res, r', s') \<Longrightarrow>
     r_cb r = cb \<Longrightarrow> inv s \<Longrightarrow> r_cb r' = cb \<and> inv s'"
proof (induction fuel arbitrary: t c pp got cnt r s)
  case (Suc fuel)
  from Suc.prems(1) show ?case
    by (cases rule: process_loop_elim) (use Suc.prems(2,3) keeps Suc.IH in fastforce)+
qed (simp add: process_loop.simps)

lemma drain_ring:
  assumes "recs_from m (r_mask r) (unat (r_consumer r)) rs q" "q \<le> unat (rm_producer m)"
    and "unat (rm_producer m) = q \<or> busy_at m (r_mask r) q"
    and "r_cb r = cb" "inv s" "length (samples rs) < unat n" "length rs + 2 < fuel"
  shows "ringbuf_process_ring fuel (\<lambda>_. m) n r s =
           Some (sint (of_nat (length (samples rs)) :: u64), r\<lparr>r_consumer := of_nat q\<rparr>,
                 deliver (samples rs) s)"
  using drain [OF assms(1-3) refl refl assms(4,5) _ assms(7) refl, of 0 n 1 False] assms(6)
  by (simp add: ringbuf_process_ring_def)

end

section \<open>Every interleaving\<close>

text \<open>
  Whatever the producer does meanwhile: a non-negative result is the number of samples the
  callback accepted, it is at most the limit, and any property the callback builds up per
  accepted sample holds at that number.
\<close>

lemma sint_small:
  assumes "unat (c :: u64) < 2 ^ 63"
  shows "sint c = int (unat c)"
proof -
  have "\<not> bit c 63"
    using assms by (simp add: bit_iff_odd_drop_bit drop_bit_eq_div word_arith_nat_div)
  then have "\<not> bit (uint c) 63" by (simp add: bit_uint_iff)
  then have "sint c = take_bit 63 (uint c)"
    by (simp add: sint_uint signed_take_bit_eq_if_positive)
  moreover have "uint c < 2 ^ 63"
    using assms by transfer (simp add: nat_less_iff)
  ultimately show ?thesis by (simp add: take_bit_int_eq_self)
qed

lemma process_loop_count:
  assumes step: "\<And>k b s. P k s \<Longrightarrow> 0 \<le> fst (cb b s) \<Longrightarrow> P (Suc k) (snd (cb b s))"
    and n: "unat n < 2 ^ 63"
  shows "process_loop fuel mem n t c pp got cnt r s = Some (res, r', s') \<Longrightarrow> r_cb r = cb \<Longrightarrow>
     P (unat cnt) s \<Longrightarrow> unat cnt < unat n \<Longrightarrow> 0 \<le> res \<Longrightarrow> P (nat res) s' \<and> res \<le> int (unat n)"
proof (induction fuel arbitrary: t c pp got cnt r s)
  case (Suc fuel)
  have nle: "\<not> n \<le> cnt" using Suc.prems(4) by (simp add: word_le_nat_alt)
  have up: "unat (cnt + 1) = Suc (unat cnt)"
    using Suc.prems(4) n by (simp add: unat_word_ariths)
  have s0: "sint cnt = int (unat cnt)" using Suc.prems(4) n by (intro sint_small) simp
  have s1: "sint (cnt + 1) = int (Suc (unat cnt))"
    using Suc.prems(4) n by (subst sint_small) (simp_all add: up)
  from Suc.prems(1) show ?case
  proof (cases rule: process_loop_elim)
    case (kept_last l b)
    have "P (Suc (unat cnt)) s'"
      using step [OF Suc.prems(3)] kept_last(1,4) Suc.prems(2) by simp
    moreover have "res = int (Suc (unat cnt))" using kept_last(3) s1 by simp
    then have "nat res = Suc (unat cnt) \<and> res \<le> int (unat n)" using Suc.prems(4) by linarith
    ultimately show ?thesis by simp
  next
    case (kept l b)
    have "unat (cnt + 1) < unat n" using kept(2) by (simp add: word_le_nat_alt)
    then show ?thesis
      using Suc.IH [OF kept(3)] kept(1) step [OF Suc.prems(3)] Suc.prems(2,5) up by simp
  next
    case reload
    then show ?thesis using Suc.IH Suc.prems(2-5) by blast
  next
    case (skip l)
    then show ?thesis using Suc.IH [OF skip(2)] Suc.prems(2-5) by simp
  next
    case stop
    have "nat res = unat cnt \<and> res \<le> int (unat n)" using stop(1) s0 Suc.prems(4) by linarith
    then show ?thesis using Suc.prems(3) stop(3) by simp
  qed (use Suc.prems(5) nle in simp_all)
qed (simp add: process_loop.simps)

lemma aligned_step:
  assumes "8 dvd unat (c :: u64)"
  shows "8 dvd unat (c + scast (roundup_len l))"
proof -
  have "8 dvd (unat c + (unat l mod 2 ^ 30 + 15) div 8 * 8) mod 2 ^ 64"
    using assms by (intro dvd_mod) (auto intro: dvd_add)
  then show ?thesis
    by (simp add: roundup_len_scast unat_word_ariths unat_of_nat mod_add_right_eq
        del: of_nat_mult of_nat_add)
qed

lemma process_loop_aligned:
  "process_loop fuel mem n t c pp got cnt r s = Some (res, r', s') \<Longrightarrow>
     c = r_consumer r \<Longrightarrow> 8 dvd unat c \<Longrightarrow> 8 dvd unat (r_consumer r')"
proof (induction fuel arbitrary: t c pp got cnt r s)
  case (Suc fuel)
  note ok = aligned_step [OF Suc.prems(3)]
  from Suc.prems(1) show ?case
  proof (cases rule: process_loop_elim)
    case reload
    then show ?thesis using Suc.IH Suc.prems(2,3) by blast
  next
    case (kept l b)
    then show ?thesis using Suc.IH [OF kept(3)] ok by simp
  next
    case (skip l)
    then show ?thesis using Suc.IH [OF skip(2)] ok by simp
  qed (use ok Suc.prems(2,3) in simp_all)
qed (simp add: process_loop.simps)

end
