(* ===== verification/User_Ringbuf_Props.thy ===== *)
theory User_Ringbuf_Props
  imports Ringbuf_Props
begin

text \<open>
  Lemmas on setting up and releasing ring buffers (nothing stays mapped or open on an error
  path, and freeing undoes creating), and on the producer of user rings: what is reserved,
  written and submitted is what a consumer of the same memory reads, and a reservation never
  touches bytes the consumer has not released.
\<close>

section \<open>Resources\<close>

lemma mask_plus_one: "n \<noteq> 0 \<Longrightarrow> (ucast (n - 1 :: u32) :: u64) + 1 = ucast n"
proof (rule word_unat_eq_iff [THEN iffD2])
  assume nz: "n \<noteq> 0"
  then have n: "0 < unat n" by (simp add: unat_gt_0)
  then have "unat (n - 1) = unat n - 1" by (subst unat_sub) (simp_all add: word_le_nat_alt)
  then show "unat ((ucast (n - 1 :: u32) :: u64) + 1) = unat (ucast n :: u64)"
    using n unat_bound [of n] by (simp add: unat_word_ariths unsigned_ucast_eq take_bit_eq_mod)
qed

lemma remove1_two: "remove1 y (remove1 x (y # x # l)) = l"
  by simp

definition entries_ok :: "add_env \<Rightarrow> bool" where
  "entries_ok env = (case ae_info env of Inl e \<Rightarrow> True | Inr (ty, n) \<Rightarrow> n \<noteq> 0)"

lemma add_cases:
  assumes "ring_buffer__add env ps rings sy = (err, rings', sy')" "entries_ok env"
  shows "(rings' = rings \<and> sy' = sy) \<or>
    (err = 0 \<and> (\<exists>r. rings' = rings @ [r] \<and> ringbuf_free_ring ps r sy' = sy))"
  using assms
  by (auto simp: ring_buffer__add_def entries_ok_def ringbuf_free_ring_def munmap_def mmap_at_def
      Let_def mask_plus_one split: sum.splits prod.splits if_splits)

lemma free_ring_fds [simp]: "sys_fds (ringbuf_free_ring ps r s) = sys_fds s"
  by (simp add: ringbuf_free_ring_def munmap_def Let_def split: option.splits)

lemma new_then_free:
  assumes "ring_buffer__new env sy = (res, sy')" "entries_ok (ne_add env)" "\<forall>fd. ne_epoll env = Inr fd \<longrightarrow> 0 \<le> fd"
  shows "case res of Inl errno \<Rightarrow> sy' = sy
    | Inr (ps, fd, rings) \<Rightarrow> ring_buffer__free ps fd rings sy' = sy \<and> fd \<in> set (sys_fds sy')"
proof (cases "ne_epoll env")
  case (Inl e)
  then show ?thesis
    using assms(1) by (auto simp: ring_buffer__new_def ring_buffer__free_def Let_def split: if_splits)
next
  case (Inr fd)
  obtain err rings' sy1 where add: "ring_buffer__add (ne_add env) (ne_page_size env) []
      (sy\<lparr>sys_fds := fd # sys_fds sy\<rparr>) = (err, rings', sy1)"
    by (metis prod_cases3)
  have "sys_fds sy1 = fd # sys_fds sy"
    using add_cases [OF add assms(2)]
  proof (elim disjE conjE exE)
    fix r
    assume "ringbuf_free_ring (ne_page_size env) r sy1 = sy\<lparr>sys_fds := fd # sys_fds sy\<rparr>"
    then have "sys_fds (ringbuf_free_ring (ne_page_size env) r sy1) = fd # sys_fds sy" by simp
    then show ?thesis by (simp only: free_ring_fds)
  qed simp
  then have fdin: "fd \<in> set (sys_fds sy1)" by simp
  show ?thesis
    using add_cases [OF add assms(2)] assms(1,3) Inr fdin
    by (auto simp: ring_buffer__new_def ring_buffer__free_def add Let_def split: if_splits)
qed

section \<open>Bytes of a doubly mapped area\<close>

lemma add_mod_inj:
  assumes "(c + i) mod sz = (c + j) mod sz" "i < sz" "j < (sz :: nat)"
  shows "i = j"
  using assms
proof (induction i j rule: linorder_wlog)
  case (le i j)
  then have "sz dvd (c + j) - (c + i)" by (subst mod_eq_dvd_iff_nat [symmetric]) auto
  then have "sz dvd j - i" by simp
  then show ?case using le by (metis diff_is_0_eq dvd_imp_le le_antisym less_imp_diff_less not_le zero_less_diff)
next
  case (sym i j)
  then show ?case by simp
qed

lemma store_bytes_other:
  "(\<And>i. i < length bs \<Longrightarrow> j \<noteq> (off + i) mod sz) \<Longrightarrow> store_bytes sz off bs d j = d j"
proof (induction bs arbitrary: off d)
  case (Cons b bs)
  have "j \<noteq> (Suc off + i) mod sz" if "i < length bs" for i
    using Cons.prems [of "Suc i"] that by simp
  then have "store_bytes sz (Suc off) bs (d(off mod sz := b)) j = (d(off mod sz := b)) j"
    by (rule Cons.IH)
  then show ?case using Cons.prems [of 0] by simp
qed simp

lemma store_bytes_at:
  "i < length bs \<Longrightarrow> length bs \<le> sz \<Longrightarrow> store_bytes sz off bs d ((off + i) mod sz) = bs ! i"
proof (induction bs arbitrary: off d i)
  case (Cons b bs)
  show ?case
  proof (cases i)
    case 0
    have "off mod sz \<noteq> (Suc off + j) mod sz" if "j < length bs" for j
      using add_mod_inj [of off 0 sz "Suc j"] that Cons.prems(2) by auto
    then have "store_bytes sz (Suc off) bs (d(off mod sz := b)) (off mod sz) = b"
      by (subst store_bytes_other) auto
    then show ?thesis using 0 by simp
  next
    case (Suc j)
    then show ?thesis using Cons.IH [of j "Suc off" "d(off mod sz := b)"] Cons.prems by (simp del: fun_upd_apply)
  qed
qed simp

lemma mem_store_same:
  assumes "length bs \<le> unat msk + 1" "sz = unat msk + 1"
  shows "mem_bytes msk (store_bytes sz off bs d) off (length bs) = bs"
  using assms by (intro nth_equalityI) (auto simp: mem_bytes_def store_bytes_at)

lemma mem_store_other:
  assumes "sz = unat msk + 1" "a + length bs \<le> sz" "b + k \<le> sz" "a + length bs \<le> b \<or> b + k \<le> a"
  shows "mem_bytes msk (store_bytes sz (off + a) bs d) (off + b) k = mem_bytes msk d (off + b) k"
proof -
  have "(off + (b + i)) mod sz \<noteq> (off + (a + j)) mod sz" if "i < k" "j < length bs" for i j
    using add_mod_inj [of off "b + i" sz "a + j"] assms that by auto
  then have "store_bytes sz (off + a) bs d ((off + b + i) mod sz) = d ((off + b + i) mod sz)"
    if "i < k" for i
    using that by (intro store_bytes_other) (auto simp: add.assoc)
  then show ?thesis using assms(1) by (auto simp: mem_bytes_def)
qed

lemma length_mem_bytes [simp]: "length (mem_bytes msk d off k) = k"
  by (simp add: mem_bytes_def)

lemma mem_bytes_mod: "mem_bytes msk d (off mod (unat msk + 1)) k = mem_bytes msk d off k"
  by (simp add: mem_bytes_def mod_add_left_eq)

lemma store_bytes_mod: "store_bytes sz (off mod sz) bs d = store_bytes sz off bs d"
proof (induction bs arbitrary: off d)
  case (Cons b bs)
  have "store_bytes sz (Suc (off mod sz)) bs d' = store_bytes sz (Suc off) bs d'" for d'
    using Cons.IH [of "Suc (off mod sz)" d'] Cons.IH [of "Suc off" d']
    by (metis mod_Suc_eq)
  then show ?case by simp
qed simp

lemma mem_bytes_append:
  "mem_bytes msk d off (m + n) = mem_bytes msk d off m @ mem_bytes msk d (off + m) n"
  by (intro nth_equalityI) (auto simp: mem_bytes_def nth_append add.assoc)

lemma and_mask_mod: "k \<le> 64 \<Longrightarrow> unat ((w :: u64) AND mask k) = unat w mod 2 ^ k"
  by (simp only: take_bit_eq_mask [symmetric] unsigned_take_bit_eq) (simp add: take_bit_eq_mod)

lemma unat_mask_64: "k < 64 \<Longrightarrow> unat (mask k :: u64) + 1 = 2 ^ k"
proof -
  assume k: "k < 64"
  have "2 ^ k < (2 :: nat) ^ 64" using k by (rule power_strict_increasing) simp
  then have "mask k < (2 :: nat) ^ 64" by (simp add: mask_eq_exp_minus_1)
  moreover have "(mask k :: u64) = of_nat (mask k)" by (simp only: of_nat_mask_eq)
  ultimately have "unat (mask k :: u64) = mask k" by (simp add: unat_of_nat del: of_nat_mask_eq)
  then show ?thesis by (simp add: mask_eq_exp_minus_1)
qed

lemma mod_64_cancel:
  "k \<le> 64 \<Longrightarrow> x mod 18446744073709551616 mod 2 ^ k = x mod (2 :: nat) ^ k"
  using mod_mod_cancel [OF le_imp_power_dvd [of k 64 "2 :: nat"], of x] by simp

section \<open>Reserving, writing and submitting\<close>

lemma top_bits: "sz AND (BPF_RINGBUF_BUSY_BIT OR BPF_RINGBUF_DISCARD_BIT) = 0 \<Longrightarrow> unat sz < 2 ^ 30"
proof -
  assume a: "sz AND (BPF_RINGBUF_BUSY_BIT OR BPF_RINGBUF_DISCARD_BIT) = 0"
  have no: "\<not> bit sz n" if "n = 30 \<or> n = 31" for n
  proof -
    have "\<not> bit (sz AND (BPF_RINGBUF_BUSY_BIT OR BPF_RINGBUF_DISCARD_BIT)) n" by (simp add: a)
    then show ?thesis using that by (auto simp: bit_and_iff bit_or_iff bit_busy bit_discard)
  qed
  have "take_bit 30 sz = sz"
  proof (rule bit_word_eqI)
    fix n
    assume "n < LENGTH(32)"
    then show "bit (take_bit 30 sz) n = bit sz n"
      using no [of n] by (cases "n < 30") (auto simp: bit_take_bit_iff less_Suc_eq numeral_eq_Suc)
  qed
  then show ?thesis by (metis unat_take_bit_30 mod_less_divisor zero_less_power zero_less_numeral)
qed

text \<open>What a successful reservation did, over the natural numbers.\<close>

lemma reserve_ok:
  assumes res: "user_ring_buffer__reserve rb sz = (Inr p, rb1)"
    and m: "ur_mask rb = mask k" "k \<le> 31"
    and used: "unat (ur_producer rb - ur_consumer rb) \<le> 2 ^ k"
  defines "tot \<equiv> (unat sz + 15) div 8 * 8"
  shows "unat sz < 2 ^ 30"
    and "unat (ur_producer rb - ur_consumer rb) + tot \<le> 2 ^ k"
    and "p = (unat (ur_producer rb) + 8) mod 2 ^ k"
    and "rb1 = rb\<lparr>ur_data := store_bytes (2 ^ k) (unat (ur_producer rb) mod 2 ^ k)
                   (u32_le (sz OR BPF_RINGBUF_BUSY_BIT) @ u32_le 0) (ur_data rb),
                 ur_producer := ur_producer rb + of_nat tot\<rparr>"
proof -
  define P U where "P = ur_producer rb" and "U = unat (ur_producer rb - ur_consumer rb)"
  note run = res [unfolded user_ring_buffer__reserve_def Let_def]
  have bits: "sz AND (BPF_RINGBUF_BUSY_BIT OR BPF_RINGBUF_DISCARD_BIT) = 0"
    using run by (auto split: if_splits)
  then show small: "unat sz < 2 ^ 30" by (rule top_bits)
  have k64: "k < 64" "k \<le> 64" using m by auto
  have S: "unat (mask k :: u64) + 1 = 2 ^ k" using k64(1) by (rule unat_mask_64)
  have S31: "2 ^ k \<le> (2 :: nat) ^ 31" using m(2) by (rule power_increasing) simp
  have lt64: "(2 :: nat) ^ k < 2 ^ 64" using k64(1) by (rule power_strict_increasing) simp
  define N where "N = (2 :: nat) ^ k"
  have N: "N \<le> 2 ^ 31" "N < 2 ^ 64" "U \<le> N" "unat (mask k :: u64) + 1 = N"
    using S31 lt64 used S by (simp_all add: N_def U_def)
  have mx: "(mask k :: u64) + 1 = of_nat N"
    by (simp only: N(4) [symmetric] of_nat_add of_nat_1 of_nat_unat ucast_id)
  have max: "unat (ucast ((mask k :: u64) + 1) :: u32) = N"
    using N by (simp only: mx) (simp add: unsigned_ucast_eq unat_of_nat take_bit_eq_mod)
  have tot: "unat ((sz + of_nat BPF_RINGBUF_HDR_SZ + 7) div 8 * 8) = tot"
    using small by (simp add: BPF_RINGBUF_HDR_SZ_def tot_def unat_word_ariths unat_div)
  have "ucast (ucast ((mask k :: u64) + 1) :: u32) = (of_nat N :: u64)"
    by (simp only: max [symmetric]) simp
  moreover have "unat (of_nat N - (ur_producer rb - ur_consumer rb) :: u64) = N - U"
    using N by (subst unat_sub) (simp_all add: word_le_nat_alt unat_of_nat U_def)
  ultimately have avail: "unat (ucast (ucast (ucast ((mask k :: u64) + 1) :: u32) -
      (ur_producer rb - ur_consumer rb)) :: u32) = N - U"
    using N by (simp add: unsigned_ucast_eq take_bit_eq_mod)
  show "unat (ur_producer rb - ur_consumer rb) + tot \<le> 2 ^ k"
    using run bits N avail tot
    by (auto simp: m(1) word_less_nat_alt U_def [symmetric] N_def [symmetric] split: if_splits)
  show "p = (unat (ur_producer rb) + 8) mod 2 ^ k"
    using run bits lt64
    by (auto simp: m(1) and_mask_mod [OF k64(2)] unat_word_ariths BPF_RINGBUF_HDR_SZ_def
        mod_64_cancel [OF k64(2)] split: if_splits)
  have "ucast ((sz + of_nat BPF_RINGBUF_HDR_SZ + 7) div 8 * 8) = (of_nat tot :: u64)"
    by (simp only: tot [symmetric]) simp
  then show "rb1 = rb\<lparr>ur_data := store_bytes (2 ^ k) (unat (ur_producer rb) mod 2 ^ k)
                   (u32_le (sz OR BPF_RINGBUF_BUSY_BIT) @ u32_le 0) (ur_data rb),
                 ur_producer := ur_producer rb + of_nat tot\<rparr>"
    using run bits S
    by (simp add: m(1) ur_size_def and_mask_mod [OF k64(2)] split: if_splits)
qed

lemma length_u32_le [simp]: "length (u32_le w) = 4"
  by (simp add: u32_le_def)

lemma commit_hdr:
  assumes "k \<le> 63" "p = (P + 8) mod 2 ^ k"
  shows "unat (((mask k :: u64) + 1 + of_nat p - of_nat BPF_RINGBUF_HDR_SZ) AND mask k) = P mod 2 ^ k"
proof -
  have k: "k \<le> 64" "k < 64" using assms(1) by auto
  have w: "(mask k :: u64) + 1 + of_nat p - of_nat BPF_RINGBUF_HDR_SZ =
      of_nat (2 ^ k + p + (2 ^ 64 - 8))"
  proof -
    have "(of_nat (2 ^ 64 - 8) :: u64) = - of_nat BPF_RINGBUF_HDR_SZ"
      by (simp add: BPF_RINGBUF_HDR_SZ_def)
    moreover have "(mask k :: u64) + 1 = of_nat (2 ^ k)"
      by (simp only: unat_mask_64 [OF k(2), symmetric] of_nat_add of_nat_1 of_nat_unat ucast_id)
    ultimately show ?thesis by (simp only: of_nat_add) simp
  qed
  have "(2 ^ k + p + (2 ^ 64 - 8)) mod 2 ^ k = (P + 8 + (2 ^ 64 - 8)) mod 2 ^ k"
    by (simp only: assms(2) mod_add_left_eq mod_add_self1 add.assoc)
  also have "\<dots> = P mod 2 ^ k"
  proof -
    have "(2 ^ 64 :: nat) mod 2 ^ k = 0"
      using le_imp_power_dvd [OF k(1), of "2 :: nat"] by simp
    moreover have "P + 8 + (2 ^ 64 - 8) = P + 2 ^ 64" by simp
    ultimately show ?thesis by (metis add.right_neutral mod_add_right_eq)
  qed
  finally show ?thesis
    by (simp only: w and_mask_mod [OF k(1)] unat_of_nat)
       (simp add: mod_64_cancel [OF k(1)])
qed

lemma clear_busy:
  assumes "unat sz < 2 ^ 30"
  shows "(sz OR BPF_RINGBUF_BUSY_BIT) AND NOT BPF_RINGBUF_BUSY_BIT = sz"
proof (rule bit_word_eqI)
  fix n
  assume "n < LENGTH(32)"
  have "\<not> bit sz 31" using assms by (intro not_bit_31) simp
  then show "bit ((sz OR BPF_RINGBUF_BUSY_BIT) AND NOT BPF_RINGBUF_BUSY_BIT) n = bit sz n"
    using \<open>n < LENGTH(32)\<close> by (auto simp: bit_and_iff bit_or_iff bit_not_iff bit_busy)
qed

text \<open>The data area after reserving, filling in and submitting a sample.\<close>

definition sent_data :: "nat \<Rightarrow> nat \<Rightarrow> u32 \<Rightarrow> byte list \<Rightarrow> (nat \<Rightarrow> byte) \<Rightarrow> nat \<Rightarrow> byte" where
  "sent_data k off sz payload d =
     store_bytes (2 ^ k) (off + 0) (u32_le sz)
       (store_bytes (2 ^ k) (off + 8) payload
         (store_bytes (2 ^ k) (off + 0) (u32_le (sz OR BPF_RINGBUF_BUSY_BIT) @ u32_le 0) d))"

lemma submit_data:
  assumes res: "user_ring_buffer__reserve rb sz = (Inr p, rb1)"
    and m: "ur_mask rb = mask k" "k \<le> 31"
    and used: "unat (ur_producer rb - ur_consumer rb) \<le> 2 ^ k"
    and len: "length payload = unat sz"
    and fill: "rb2 = rb1\<lparr>ur_data := store_bytes (2 ^ k) p payload (ur_data rb1)\<rparr>"
    and rb3: "rb3 = user_ring_buffer__submit rb2 p"
  shows "ur_data rb3 = sent_data k (unat (ur_producer rb) mod 2 ^ k) sz payload (ur_data rb)"
    and "ur_mask rb3 = mask k"
proof -
  define P off where "P = unat (ur_producer rb)" and "off = P mod 2 ^ k"
  note ok = reserve_ok [OF res m used]
  have k: "k < 64" "k \<le> 64" "k \<le> 63" using m(2) by auto
  have S: "unat (mask k :: u64) + 1 = 2 ^ k" using k(1) by (rule unat_mask_64)
  have fits: "8 + unat sz \<le> 2 ^ k" using ok(2) by linarith
  have pmod: "p = (off + 8) mod 2 ^ k" using ok(3) by (simp add: off_def P_def mod_add_left_eq)
  define d1 where "d1 = store_bytes (2 ^ k) (off + 0) (u32_le (sz OR BPF_RINGBUF_BUSY_BIT) @ u32_le 0)
    (ur_data rb)"
  define d2 where "d2 = store_bytes (2 ^ k) (off + 8) payload d1"
  have rb1: "ur_data rb1 = d1" "ur_mask rb1 = mask k"
    using ok(4) by (simp_all add: d1_def off_def P_def m(1))
  have rb2: "ur_data rb2 = d2" "ur_mask rb2 = mask k" "ur_size rb2 = 2 ^ k"
    using fill rb1 S by (simp_all add: d2_def pmod store_bytes_mod ur_size_def)
  have "mem_bytes (mask k) d1 (off + 0) 8 = u32_le (sz OR BPF_RINGBUF_BUSY_BIT) @ u32_le 0"
    using mem_store_same [of "u32_le (sz OR BPF_RINGBUF_BUSY_BIT) @ u32_le 0" "mask k" "2 ^ k" "off + 0"]
      fits S by (simp add: d1_def)
  then have "mem_bytes (mask k) d1 off 4 = u32_le (sz OR BPF_RINGBUF_BUSY_BIT)"
    using mem_bytes_append [of "mask k" d1 off 4 4] by (simp add: append_eq_append_conv)
  moreover have "mem_bytes (mask k) d2 (off + 0) 4 = mem_bytes (mask k) d1 (off + 0) 4"
    unfolding d2_def using fits S len by (intro mem_store_other) auto
  ultimately have h: "hdr_len_at rb2 off = sz OR BPF_RINGBUF_BUSY_BIT"
    by (simp add: hdr_len_at_def rb2)
  have "unat ((ur_mask rb2 + 1 + of_nat p - of_nat BPF_RINGBUF_HDR_SZ) AND ur_mask rb2) = off"
    using commit_hdr [OF k(3), of p P] ok(3) by (simp add: rb2 off_def P_def)
  then show "ur_data rb3 = sent_data k (unat (ur_producer rb) mod 2 ^ k) sz payload (ur_data rb)"
    and "ur_mask rb3 = mask k"
    using h clear_busy [OF ok(1)]
    by (simp_all add: rb3 user_ring_buffer__submit_def user_ringbuf_commit_def Let_def rb2
        sent_data_def d2_def d1_def off_def P_def)
qed

text \<open>
  A submitted sample is, at the old producer position, a finished record with exactly the
  payload: what the consuming side of the same memory reads.
\<close>

lemma reserve_submit_rec:
  assumes res: "user_ring_buffer__reserve rb sz = (Inr p, rb1)"
    and m: "ur_mask rb = mask k" "k \<le> 31"
    and used: "unat (ur_producer rb - ur_consumer rb) \<le> 2 ^ k"
    and len: "length payload = unat sz"
    and fill: "rb2 = rb1\<lparr>ur_data := store_bytes (2 ^ k) p payload (ur_data rb1)\<rparr>"
    and rb3: "rb3 = user_ring_buffer__submit rb2 p"
  shows "rec_at \<lparr>rm_producer = ur_producer rb3, rm_data = ur_data rb3\<rparr> (ur_mask rb3)
           (unat (ur_producer rb)) (Ring_rec False payload)"
proof -
  define off where "off = unat (ur_producer rb) mod 2 ^ k"
  note ok = reserve_ok [OF res m used] and d3 = submit_data [OF assms]
  have k: "k < 64" "k \<le> 64" using m(2) by auto
  have S: "unat (mask k :: u64) + 1 = 2 ^ k" using k(1) by (rule unat_mask_64)
  have fits: "8 + unat sz \<le> 2 ^ k" using ok(2) by linarith
  have "mem_bytes (mask k) (ur_data rb3) (off + 0) 4 = u32_le sz"
    using mem_store_same [of "u32_le sz" "mask k" "2 ^ k" "off + 0"] fits S
    by (simp add: d3 sent_data_def off_def)
  moreover have "mem_bytes (mask k) (ur_data rb3) (off + 8) (unat sz) = payload"
  proof -
    have "mem_bytes (mask k) (ur_data rb3) (off + 8) (unat sz) =
        mem_bytes (mask k) (store_bytes (2 ^ k) (off + 8) payload
          (store_bytes (2 ^ k) (off + 0) (u32_le (sz OR BPF_RINGBUF_BUSY_BIT) @ u32_le 0) (ur_data rb)))
          (off + 8) (unat sz)"
      unfolding d3 sent_data_def off_def using fits S by (intro mem_store_other) auto
    then show ?thesis
      using mem_store_same [of payload "mask k" "2 ^ k" "off + 8"] fits S len by simp
  qed
  ultimately show ?thesis
    using ok(1) len
    by (simp add: rec_at_def hdr_at_def d3(2) and_mask_mod [OF k(2)] BPF_RINGBUF_HDR_SZ_def
        off_def [symmetric])
qed

text \<open>No byte between the consumer's and the producer's position is touched.\<close>

lemma reserve_submit_frame:
  assumes res: "user_ring_buffer__reserve rb sz = (Inr p, rb1)"
    and m: "ur_mask rb = mask k" "k \<le> 31"
    and used: "unat (ur_producer rb - ur_consumer rb) \<le> 2 ^ k"
    and len: "length payload = unat sz"
    and fill: "rb2 = rb1\<lparr>ur_data := store_bytes (2 ^ k) p payload (ur_data rb1)\<rparr>"
    and rb3: "rb3 = user_ring_buffer__submit rb2 p"
    and i: "i < unat (ur_producer rb - ur_consumer rb)"
  shows "ur_data rb3 ((unat (ur_consumer rb) + i) mod 2 ^ k) =
         ur_data rb ((unat (ur_consumer rb) + i) mod 2 ^ k)"
proof -
  define C U where "C = unat (ur_consumer rb)" and "U = unat (ur_producer rb - ur_consumer rb)"
  note ok = reserve_ok [OF res m used] and d3 = submit_data [OF assms(1-7)]
  have k: "k \<le> 64" using m(2) by simp
  have fits: "U + (8 + unat sz) \<le> 2 ^ k" using ok(2) unfolding U_def by linarith
  have "unat (ur_producer rb) = (U + C) mod 2 ^ 64"
    using unat_word_ariths(1) [of "ur_producer rb - ur_consumer rb" "ur_consumer rb"]
    by (simp add: C_def U_def)
  then have off: "unat (ur_producer rb) mod 2 ^ k = (C + U) mod 2 ^ k"
    by (simp add: mod_64_cancel [OF k] add.commute)
  have ne: "(C + i) mod 2 ^ k \<noteq> (unat (ur_producer rb) mod 2 ^ k + a + j) mod 2 ^ k"
    if "a + j < 8 + unat sz" for a j
  proof -
    have "(unat (ur_producer rb) mod 2 ^ k + a + j) mod 2 ^ k = (C + (U + a + j)) mod 2 ^ k"
      by (simp only: off add.assoc mod_add_left_eq)
    then show ?thesis
      using add_mod_inj [of C i "2 ^ k" "U + a + j"] fits that i by (auto simp: U_def)
  qed
  have keep: "store_bytes (2 ^ k) (unat (ur_producer rb) mod 2 ^ k + a) bs d ((C + i) mod 2 ^ k) =
      d ((C + i) mod 2 ^ k)" if "a + length bs \<le> 8 + unat sz" for a bs d
    using ne that by (intro store_bytes_other) auto
  show ?thesis
    unfolding d3(1) sent_data_def C_def [symmetric]
    by (simp add: keep [of 0, simplified] keep [of 8] len)
qed

text \<open>A failed reservation changes nothing, and a sample is never larger than the ring.\<close>

lemma reserve_error: "user_ring_buffer__reserve rb sz = (Inl e, rb1) \<Longrightarrow> rb1 = rb \<and> e \<in> {E2BIG, ENOSPC}"
  by (auto simp: user_ring_buffer__reserve_def Let_def split: if_splits)

lemma blocking_forever_is_two_attempts:
  assumes full: "user_ring_buffer__reserve rb sz = (Inl ENOSPC, rb)"
    and woken: "we_epoll w = Inr n"
  shows "user_ring_buffer__reserve_blocking rb sz (- 1) clock (w # ws) =
           Some (user_ring_buffer__reserve (rb\<lparr>ur_consumer := we_consumer w\<rparr>) sz)"
  using assms by (simp add: user_ring_buffer__reserve_blocking_def reserve_wait_loop.simps)

end
