(* ===== verification/Ring_Image.thy ===== *)
theory Ring_Image
  imports User_Ringbuf_Props
begin

text \<open>
  The ring the kernel leaves in memory after it committed a list of records: each with its
  header, its bytes and its padding to eight bytes. The properties of the consumer and of the
  user ring buffer of \<open>src/lib/libbpf/src/ringbuf.c\<close> stand here, with such rings as their
  concrete inputs.
\<close>

section \<open>Record images\<close>

definition rec_image :: "ring_rec \<Rightarrow> byte list" where
  "rec_image x = u32_le (rec_hdr x) @ replicate 4 0 @ rec_bytes x @
     replicate (rec_span x - 8 - length (rec_bytes x)) 0"

definition ring_image :: "ring_rec list \<Rightarrow> byte list" where
  "ring_image rs = concat (map rec_image rs)"

definition image_mem :: "byte list \<Rightarrow> ring_mem" where
  "image_mem xs = \<lparr>rm_producer = of_nat (length xs),
     rm_data = (\<lambda>i. if i < length xs then xs ! i else 0)\<rparr>"

lemma ring_image_simps [simp]:
  "ring_image [] = []" "ring_image (x # xs) = rec_image x @ ring_image xs"
  by (simp_all add: ring_image_def)

lemma length_rec_image [simp]: "length (rec_image x) = rec_span x"
  by (simp add: rec_image_def rec_span_def)

lemma mem_image:
  assumes "length xs \<le> unat msk + 1" "off + k \<le> length xs"
  shows "mem_bytes msk (rm_data (image_mem xs)) off k = take k (drop off xs)"
  using assms by (intro nth_equalityI) (auto simp: mem_bytes_def image_mem_def)

lemma rec_at_image:
  assumes "k \<le> 31" "length (pre @ rec_image x @ post) \<le> 2 ^ k" "length (rec_bytes x) < 2 ^ 30"
  shows "rec_at (image_mem (pre @ rec_image x @ post)) (mask k) (length pre) x"
proof -
  let ?xs = "pre @ rec_image x @ post"
  have span: "8 + length (rec_bytes x) \<le> rec_span x" by (simp add: rec_span_def)
  have lt: "length pre < 2 ^ k" using assms(2) rec_span_pos [of x] by simp
  also have "(2 :: nat) ^ k \<le> 2 ^ 31" using assms(1) by (intro power_increasing) auto
  finally have "unat (of_nat (length pre) :: u64) = length pre" by (simp add: unat_of_nat)
  then have off: "unat (of_nat (length pre) AND mask k :: u64) = length pre"
    using assms(1) lt by (subst and_mask_mod) simp_all
  have sz: "length ?xs \<le> unat (mask k :: u64) + 1"
    using assms(1,2) by (subst unat_mask_64) simp_all
  have "mem_bytes (mask k) (rm_data (image_mem ?xs)) (length pre) 4 = u32_le (rec_hdr x)"
    using sz span by (subst mem_image) (simp_all add: rec_image_def)
  moreover have "mem_bytes (mask k) (rm_data (image_mem ?xs)) (length pre + 8)
      (length (rec_bytes x)) = rec_bytes x"
    using sz span by (subst mem_image) (simp_all add: rec_image_def)
  ultimately show ?thesis
    using assms(3) by (simp add: rec_at_def hdr_at_def off BPF_RINGBUF_HDR_SZ_def)
qed

lemma recs_from_image:
  assumes "k \<le> 31" "length (pre @ ring_image rs @ post) \<le> 2 ^ k"
    "\<forall>x\<in>set rs. length (rec_bytes x) < 2 ^ 30"
  shows "recs_from (image_mem (pre @ ring_image rs @ post)) (mask k) (length pre) rs
           (length pre + length (ring_image rs))"
  using assms
proof (induction rs arbitrary: pre)
  case Nil
  then show ?case by simp
next
  case (Cons x rs)
  have "rec_at (image_mem (pre @ rec_image x @ (ring_image rs @ post))) (mask k) (length pre) x"
    using Cons.prems by (intro rec_at_image) simp_all
  moreover have "recs_from (image_mem ((pre @ rec_image x) @ ring_image rs @ post)) (mask k)
      (length (pre @ rec_image x)) rs (length (pre @ rec_image x) + length (ring_image rs))"
    using Cons.prems by (intro Cons.IH) simp_all
  ultimately show ?case by (simp add: add.assoc)
qed

section \<open>The consumer's properties\<close>

text \<open>C18. A consumer whose callback never fails, on a ring that stands still, hands the callback
  every committed record that was not discarded, in order, stops at the producer position or
  at the first record still being written, and returns how many it delivered.\<close>

theorem consumer_drains_ring:
  assumes cb: "\<And>b s. 0 \<le> fst (r_cb r b s)"
    and recs: "recs_from m (r_mask r) (unat (r_consumer r)) rs q" "q \<le> unat (rm_producer m)"
    and stop: "unat (rm_producer m) = q \<or> busy_at m (r_mask r) q"
    and bounds: "length (samples rs) < unat n" "length rs + 2 < fuel"
  shows "ringbuf_process_ring fuel (\<lambda>_. m) n r s =
    Some (sint (of_nat (length (samples rs)) :: u64), r\<lparr>r_consumer := of_nat q\<rparr>,
          fold (\<lambda>b s. snd (r_cb r b s)) (samples rs) s)"
proof -
  have sc: "sample_consumer (r_cb r) (\<lambda>_. True)"
    using cb by unfold_locales auto
  show ?thesis
    using sample_consumer.drain_ring [OF sc recs stop refl TrueI bounds]
    by (simp add: sample_consumer.deliver_def [OF sc])
qed

definition collect_ring :: "u64 \<Rightarrow> u64 \<Rightarrow> byte list list ring" where
  "collect_ring msk start =
     \<lparr>r_cb = (\<lambda>b s. (0, s @ [b])), r_mask = msk, r_consumer = start, r_map_fd = 3\<rparr>"

definition demo_records :: "ring_rec list" where
  "demo_records = [Ring_rec False [1, 2, 3], Ring_rec True [9, 9], Ring_rec False [4, 5, 6, 7, 8, 9, 10, 11, 12]]"

lemma demo_recs_from:
  "recs_from (image_mem (ring_image demo_records)) (mask 12) 0 demo_records 56"
proof -
  have "length (ring_image demo_records) = 56" by (simp add: demo_records_def rec_span_def)
  then show ?thesis
    using recs_from_image [of 12 "[]" demo_records "[]"] by (simp add: demo_records_def)
qed

lemma demo_producer: "unat (rm_producer (image_mem (ring_image demo_records))) = 56"
  by (simp add: image_mem_def demo_records_def rec_span_def)

theorem consumer_drains_ring_witness:
  "map_option (\<lambda>(n, r, s). (n, r_consumer r, s))
     (ringbuf_process_ring 10 (\<lambda>_. image_mem (ring_image demo_records)) 5 (collect_ring (mask 12) 0) []) =
   Some (2, 56, [[1, 2, 3], [4, 5, 6, 7, 8, 9, 10, 11, 12]])"
proof -
  have "samples demo_records = [[1, 2, 3], [4, 5, 6, 7, 8, 9, 10, 11, 12]]"
    "length demo_records = 3"
    by (simp_all add: demo_records_def samples_def)
  then show ?thesis
    using consumer_drains_ring [of "collect_ring (mask 12) 0" "image_mem (ring_image demo_records)"
        demo_records 56 5 10 "[]"] demo_recs_from demo_producer
    by (simp add: collect_ring_def)
qed

text \<open>C19. Whatever the producer does while the ring is read, a run that does not fail returns
  the number of samples it passed to the callback, and never more than it was asked for.\<close>

theorem consumer_counts_samples:
  assumes "r_cb r = (\<lambda>b l. (f b, l @ [b]))" "0 < unat n" "unat n < 2 ^ 63"
    and "ringbuf_process_ring fuel mem n r [] = Some (res, r', l)" "0 \<le> res"
  shows "int (length l) = res \<and> res \<le> int (unat n)"
proof -
  have zero: "0 = length ([] :: byte list list)" "unat (0 :: u64) < unat n"
    using assms(2) by simp_all
  have run: "process_loop fuel mem n 1 (r_consumer r) (rm_producer (mem 0)) False 0 r [] =
      Some (res, r', l)"
    using assms(4) by (simp only: ringbuf_process_ring_def)
  have "nat res = length l \<and> res \<le> int (unat n)"
    by (rule process_loop_count [OF _ assms(3) run assms(1) _ zero(2) assms(5),
          where P = "\<lambda>k l. k = length l"]) simp_all
  with assms(5) show ?thesis by linarith
qed

theorem consumer_counts_samples_witness:
  "\<exists>r l. ringbuf_process_ring 10 (\<lambda>_. image_mem (ring_image demo_records)) 5
           (collect_ring (mask 12) 0) [] = Some (2, r, l) \<and> int (length l) = 2"
proof -
  have "ringbuf_process_ring 10 (\<lambda>_. image_mem (ring_image demo_records)) 5
      (collect_ring (mask 12) 0) [] =
    Some (2, (collect_ring (mask 12) 0)\<lparr>r_consumer := 56\<rparr>, [[1, 2, 3], [4, 5, 6, 7, 8, 9, 10, 11, 12]])"
  proof -
    have "samples demo_records = [[1, 2, 3], [4, 5, 6, 7, 8, 9, 10, 11, 12]]"
      "length demo_records = 3"
      by (simp_all add: demo_records_def samples_def)
    moreover have "sample_consumer (\<lambda>b s. (0 :: int, s @ [b])) (\<lambda>_. True)" by unfold_locales auto
    ultimately show ?thesis
      using sample_consumer.drain_ring [of "\<lambda>b s. (0, s @ [b])" "\<lambda>_. True"
          "image_mem (ring_image demo_records)" "collect_ring (mask 12) 0" demo_records 56 "[]" 5 10]
        demo_recs_from demo_producer
      by (simp add: collect_ring_def sample_consumer.deliver_def)
  qed
  then show ?thesis
    using consumer_counts_samples [of "collect_ring (mask 12) 0" "\<lambda>_. 0" 5 10
        "\<lambda>_. image_mem (ring_image demo_records)" 2]
    by (auto simp: collect_ring_def)
qed

text \<open>The consumer position stays a multiple of eight whatever the producer and the
  callback do, so a record header is never split over the end of the ring.\<close>

theorem consumer_position_aligned:
  assumes "ringbuf_process_ring fuel mem n r s = Some (res, r', s')" "8 dvd unat (r_consumer r)"
  shows "8 dvd unat (r_consumer r')"
  using process_loop_aligned [OF _ refl assms(2)] assms(1) unfolding ringbuf_process_ring_def by blast

theorem consumer_position_aligned_witness:
  "\<exists>r'. ringbuf_process_ring 2 (\<lambda>_. image_mem []) 5 (collect_ring (mask 12) 16) [] = Some (0, r', []) \<and>
     8 dvd unat (r_consumer r')"
proof -
  have "ringbuf_process_ring 2 (\<lambda>_. image_mem []) 5 (collect_ring (mask 12) 16) [] =
      Some (0, collect_ring (mask 12) 16, [])"
    by (simp add: ringbuf_process_ring_def collect_ring_def image_mem_def numeral_2_eq_2 process_loop.simps)
  moreover from consumer_position_aligned [OF this]
  have "8 dvd unat (r_consumer (collect_ring (mask 12) 16))"
    by (simp add: collect_ring_def)
  ultimately show ?thesis by blast
qed


definition demo_new_env :: new_env where
  "demo_new_env = \<lparr>ne_opts_valid = True, ne_calloc = True, ne_page_size = 4096, ne_epoll = Inr 9,
     ne_add = \<lparr>ae_info = Inr (BPF_MAP_TYPE_RINGBUF, 4096), ae_realloc_rings = True,
       ae_realloc_events = True, ae_calloc = True, ae_mmap_consumer = Inr 0x7000,
       ae_mmap_producer = Inr 0x9000, ae_epoll_add = Inr ()\<rparr>\<rparr>"


section \<open>The user ring buffer's properties\<close>

text \<open>C21. A sample that user space reserves, fills and submits is, at the position it was
  reserved at, a committed record with exactly the bytes written, in the format the consumer
  reads; the records already waiting in the ring keep their bytes.\<close>

theorem user_sample_roundtrip:
  assumes "user_ring_buffer__reserve rb sz = (Inr p, rb1)"
    and "ur_mask rb = mask k" "k \<le> 31" "unat (ur_producer rb - ur_consumer rb) \<le> 2 ^ k"
    and "length payload = unat sz"
    and "rb2 = rb1\<lparr>ur_data := store_bytes (2 ^ k) p payload (ur_data rb1)\<rparr>"
    and "rb3 = user_ring_buffer__submit rb2 p"
  shows "rec_at \<lparr>rm_producer = ur_producer rb3, rm_data = ur_data rb3\<rparr> (ur_mask rb3)
           (unat (ur_producer rb)) (Ring_rec False payload) \<and>
         (\<forall>i. i < unat (ur_producer rb - ur_consumer rb) \<longrightarrow>
           ur_data rb3 ((unat (ur_consumer rb) + i) mod 2 ^ k) =
           ur_data rb ((unat (ur_consumer rb) + i) mod 2 ^ k))"
  using reserve_submit_rec [OF assms] reserve_submit_frame [OF assms] by blast

definition demo_user_ring :: user_ring_buffer where
  "demo_user_ring = \<lparr>ur_mask = mask 12, ur_consumer = 8, ur_producer = 24, ur_data = (\<lambda>_. 0),
     ur_map_fd = 3, ur_epoll_fd = 4\<rparr>"

theorem user_sample_roundtrip_witness:
  "\<exists>p rb1. user_ring_buffer__reserve demo_user_ring 3 = (Inr p, rb1) \<and>
     (let rb3 = user_ring_buffer__submit
                  (rb1\<lparr>ur_data := store_bytes (2 ^ 12) p [7, 8, 9] (ur_data rb1)\<rparr>) p
      in rec_at \<lparr>rm_producer = ur_producer rb3, rm_data = ur_data rb3\<rparr> (ur_mask rb3) 24
           (Ring_rec False [7, 8, 9]))"
proof -
  have bits: "(3 :: u32) AND (BPF_RINGBUF_BUSY_BIT OR BPF_RINGBUF_DISCARD_BIT) = 0"
    by (simp add: BPF_RINGBUF_BUSY_BIT_def BPF_RINGBUF_DISCARD_BIT_def)
  have m: "mask 12 + 1 = (4096 :: u64)" by (simp add: mask_eq_exp_minus_1)
  obtain p rb1 where res: "user_ring_buffer__reserve demo_user_ring 3 = (Inr p, rb1)"
    using bits by (simp add: user_ring_buffer__reserve_def demo_user_ring_def m Let_def
        BPF_RINGBUF_HDR_SZ_def)
  show ?thesis
    using user_sample_roundtrip [OF res _ _ _ _ refl refl, of 12 "[7, 8, 9]"] res
    by (auto simp: demo_user_ring_def Let_def)
qed

text \<open>A failed reservation changes nothing and its error is \<open>E2BIG\<close> or \<open>ENOSPC\<close>.\<close>

lemma user_reserve_error:
  assumes "user_ring_buffer__reserve rb sz = (Inl e, rb1)"
  shows "rb1 = rb \<and> e \<in> {E2BIG, ENOSPC}"
  by (rule reserve_error [OF assms])

lemma user_reserve_error_witness:
  "\<exists>e rb1. user_ring_buffer__reserve demo_user_ring 5000 = (Inl e, rb1) \<and> rb1 = demo_user_ring"
proof -
  have bits: "(5000 :: u32) AND (BPF_RINGBUF_BUSY_BIT OR BPF_RINGBUF_DISCARD_BIT) = 0"
    by (simp add: BPF_RINGBUF_BUSY_BIT_def BPF_RINGBUF_DISCARD_BIT_def)
  have m: "mask 12 + 1 = (4096 :: u64)" by (simp add: mask_eq_exp_minus_1)
  obtain e rb1 where res: "user_ring_buffer__reserve demo_user_ring 5000 = (Inl e, rb1)"
    using bits by (simp add: user_ring_buffer__reserve_def demo_user_ring_def m Let_def
        BPF_RINGBUF_HDR_SZ_def)
  with user_reserve_error [OF res] show ?thesis by blast
qed

text \<open>Reserving with no time limit (\<open>timeout_ms\<close> -1) does not wait until there is space: one
  wakeup that freed too little is followed by one last attempt, and its failure is returned.\<close>

theorem blocking_forever_gives_up:
  assumes "user_ring_buffer__reserve rb sz = (Inl ENOSPC, rb)" "we_epoll w = Inr n"
  shows "user_ring_buffer__reserve_blocking rb sz (- 1) clock (w # ws) =
           Some (user_ring_buffer__reserve (rb\<lparr>ur_consumer := we_consumer w\<rparr>) sz)"
  by (rule blocking_forever_is_two_attempts [OF assms])

theorem blocking_forever_gives_up_witness:
  "user_ring_buffer__reserve_blocking (demo_user_ring\<lparr>ur_producer := 4104\<rparr>) 3 (- 1) (Inl 0)
     [\<lparr>we_consumer = 8, we_epoll = Inr 1, we_clock = Inl 0\<rparr>] =
   Some (Inl ENOSPC, demo_user_ring\<lparr>ur_producer := 4104\<rparr>)"
proof -
  have bits: "(3 :: u32) AND (BPF_RINGBUF_BUSY_BIT OR BPF_RINGBUF_DISCARD_BIT) = 0"
    by (simp add: BPF_RINGBUF_BUSY_BIT_def BPF_RINGBUF_DISCARD_BIT_def)
  have m: "mask 12 + 1 = (4096 :: u64)" by (simp add: mask_eq_exp_minus_1)
  have full: "user_ring_buffer__reserve (demo_user_ring\<lparr>ur_producer := 4104\<rparr>) 3 =
      (Inl ENOSPC, demo_user_ring\<lparr>ur_producer := 4104\<rparr>)"
    using bits by (simp add: user_ring_buffer__reserve_def demo_user_ring_def m Let_def
        BPF_RINGBUF_HDR_SZ_def)
  show ?thesis
    using blocking_forever_gives_up [OF full, of "\<lparr>we_consumer = 8, we_epoll = Inr 1, we_clock = Inl 0\<rparr>"]
      full by (simp add: demo_user_ring_def)
qed

end
