(* ===== verification/Collector.thy ===== *)
theory Collector
  imports Handlers User_Ringbuf_Props
begin

text \<open>
  \<open>Collector\<close> (\<open>src/user/collector/collector.cpp\<close>): one object file, its hooks and its
  ring buffer. What libbpf and the kernel answer is the record \<open>kernel_env\<close>; what the process
  holds of them (open objects, links, mappings and descriptors) is the record \<open>world\<close>.
  Progress messages on the terminal are not modelled.
\<close>

section \<open>State\<close>

record kernel_env =
  be_open :: "string \<Rightarrow> nat option"
  be_load :: "nat \<Rightarrow> int"
  be_find_program :: "nat \<Rightarrow> string \<Rightarrow> nat option"
  be_attach :: "nat \<Rightarrow> int \<Rightarrow> hook_cfg \<Rightarrow> nat option"
  be_find_map :: "nat \<Rightarrow> string \<Rightarrow> int option"
  be_ring :: "int \<Rightarrow> new_env"
  be_consumer_pos :: "int \<Rightarrow> u64"

record world =
  w_objs :: "nat list"
  w_links :: "nat list"
  w_sys :: sys_state

text \<open>A created ring buffer: its page size, its descriptor, its pages and its ring's state.\<close>

record ring_handle =
  rh_page_size :: u64
  rh_epoll_fd :: int
  rh_pages :: "ring_pages list"
  rh_map_fd :: int
  rh_consumer :: u64

record collector =
  c_group :: file_group
  c_has_ctx :: bool
  c_obj :: "nat option"
  c_ringbuf :: "ring_handle option"
  c_ringbuf_fd :: int
  c_attached :: bool
  c_links :: "nat list"

definition collector_new :: "file_group \<Rightarrow> collector" where
  "collector_new g =
     \<lparr>c_group = g, c_has_ctx = False, c_obj = None, c_ringbuf = None, c_ringbuf_fd = -1,
      c_attached = False, c_links = []\<rparr>"

definition collector_name :: "collector \<Rightarrow> string" where
  "collector_name c = fg_name (c_group c)"

definition set_collector_ctx :: "collector \<Rightarrow> collector" where
  "set_collector_ctx c = c\<lparr>c_has_ctx := True\<rparr>"

section \<open>The ring buffer callback\<close>

text \<open>The callback's state is the event context, \<open>None\<close> once a handler was undefined.\<close>

definition hook_name_of :: "file_group \<Rightarrow> u8 \<Rightarrow> string" where
  "hook_name_of g i =
     (if unat i < fg_hook_count g then fg_hook_names g ! unat i else ''unknown'')"

definition ringbuf_callback ::
    "file_group \<Rightarrow> bool \<Rightarrow> byte list \<Rightarrow> ectx option \<Rightarrow> int \<times> ectx option" where
  "ringbuf_callback g has_ctx bs s =
     (0, if length bs < sizeof_event_header then s
         else if \<not> has_ctx then s
         else
           let hook = (case dec_event_header bs of
                         None \<Rightarrow> ''unknown'' | Some h \<Rightarrow> hook_name_of g (hook_id h))
           in case linked_handler (fg_handler g) of
                None \<Rightarrow> s
              | Some f \<Rightarrow> Option.bind s (f bs hook))"

section \<open>Lifecycle\<close>

definition collector_init :: "kernel_env \<Rightarrow> collector \<Rightarrow> world \<Rightarrow> int \<times> collector \<times> world" where
  "collector_init env c w =
     (case be_open env (fg_embed_data (c_group c)) of
        None \<Rightarrow> (-1, c\<lparr>c_obj := None\<rparr>, w)
      | Some obj \<Rightarrow>
          let w = w\<lparr>w_objs := obj # w_objs w\<rparr>
          in if be_load env obj \<noteq> 0
             then (-1, c\<lparr>c_obj := None\<rparr>, w\<lparr>w_objs := remove1 obj (w_objs w)\<rparr>)
             else (0, c\<lparr>c_obj := Some obj\<rparr>, w))"

definition collector_detach :: "collector \<Rightarrow> world \<Rightarrow> int \<times> collector \<times> world" where
  "collector_detach c w =
     (let w = w\<lparr>w_links := fold remove1 (c_links c) (w_links w)\<rparr>;
          c = c\<lparr>c_links := []\<rparr>;
          (c, w) =
            (case c_ringbuf c of
               None \<Rightarrow> (c, w)
             | Some rb \<Rightarrow>
                 (c\<lparr>c_ringbuf := None, c_ringbuf_fd := -1\<rparr>,
                  w\<lparr>w_sys := ring_buffer__free (rh_page_size rb) (rh_epoll_fd rb) (rh_pages rb)
                              (w_sys w)\<rparr>))
      in (0, c\<lparr>c_attached := False\<rparr>, w))"

definition collector_destroy :: "collector \<Rightarrow> world \<Rightarrow> collector \<times> world" where
  "collector_destroy c w =
     (case collector_detach c w of
        (_, c, w) \<Rightarrow>
          (case c_obj c of
             None \<Rightarrow> (c, w)
           | Some obj \<Rightarrow> (c\<lparr>c_obj := None\<rparr>, w\<lparr>w_objs := remove1 obj (w_objs w)\<rparr>)))"

text \<open>One iteration of the hook loop; \<open>None\<close> is a read past the generated array.\<close>

definition attach_hook ::
    "kernel_env \<Rightarrow> int \<Rightarrow> nat \<Rightarrow> nat \<Rightarrow> int \<times> collector \<times> world \<Rightarrow> (int \<times> collector \<times> world) option"
  where
  "attach_hook env target_pid obj i st =
     (case st of (ok, c, w) \<Rightarrow>
        if length (fg_hooks (c_group c)) \<le> i then None
        else
          let cfg = fg_hooks (c_group c) ! i
          in case be_find_program env obj (hc_name cfg) of
               None \<Rightarrow> Some (ok, c, w)
             | Some prog \<Rightarrow>
                 (case be_attach env prog target_pid cfg of
                    None \<Rightarrow> Some (ok, c, w)
                  | Some link \<Rightarrow>
                      Some (ok + 1, c\<lparr>c_links := c_links c @ [link]\<rparr>,
                            w\<lparr>w_links := link # w_links w\<rparr>)))"

definition attach_ring :: "kernel_env \<Rightarrow> nat \<Rightarrow> int \<times> collector \<times> world \<Rightarrow> int \<times> collector \<times> world" where
  "attach_ring env obj st =
     (case st of (ok, c, w) \<Rightarrow>
        (case be_find_map env obj (fg_ringbuf_map (c_group c)) of
           None \<Rightarrow> (-1, c, w)
         | Some fd \<Rightarrow>
             (case ring_buffer__new (be_ring env fd) (w_sys w) of
                (Inl _, sy) \<Rightarrow> (-1, c\<lparr>c_ringbuf := None\<rparr>, w\<lparr>w_sys := sy\<rparr>)
              | (Inr (ps, epfd, pages), sy) \<Rightarrow>
                  (ok,
                   c\<lparr>c_ringbuf := Some \<lparr>rh_page_size = ps, rh_epoll_fd = epfd, rh_pages = pages,
                                         rh_map_fd = fd, rh_consumer = be_consumer_pos env fd\<rparr>,
                     c_ringbuf_fd := epfd, c_attached := True\<rparr>,
                   w\<lparr>w_sys := sy\<rparr>))))"

definition collector_attach ::
    "kernel_env \<Rightarrow> int \<Rightarrow> collector \<Rightarrow> world \<Rightarrow> (int \<times> collector \<times> world) option" where
  "collector_attach env target_pid c w =
     (case c_obj c of
        None \<Rightarrow> Some (-1, c, w)
      | Some obj \<Rightarrow>
          let (c, w) = (if c_attached c then snd (collector_detach c w) else (c, w))
          in map_option (attach_ring env obj)
               (fold_opt (attach_hook env target_pid obj) [0..<fg_hook_count (c_group c)] (0, c, w)))"

section \<open>Polling\<close>

text \<open>
  The libbpf manager behind a handle, with the callback bound to this collector. A manager
  of one collector has the one ring that \<open>ring_buffer__new\<close> added.
\<close>

definition bound_ring_buffer :: "collector \<Rightarrow> ring_handle \<Rightarrow> ectx option ring_buffer" where
  "bound_ring_buffer c rh =
     \<lparr>rb_rings = map (\<lambda>p. \<lparr>r_cb = ringbuf_callback (c_group c) (c_has_ctx c), r_mask = rp_mask p,
                           r_consumer = rh_consumer rh, r_map_fd = rh_map_fd rh\<rparr>) (rh_pages rh),
      rb_page_size = rh_page_size rh, rb_epoll_fd = rh_epoll_fd rh\<rparr>"

definition collector_poll ::
    "nat \<Rightarrow> (nat \<Rightarrow> nat \<Rightarrow> ring_mem) \<Rightarrow> collector \<Rightarrow> ectx option \<Rightarrow>
     (int \<times> collector \<times> ectx option) option" where
  "collector_poll fuel mems c s =
     (case c_ringbuf c of
        None \<Rightarrow> Some (0, c, s)
      | Some rh \<Rightarrow>
          map_option (\<lambda>(n, rb, s).
              (n, c\<lparr>c_ringbuf := Some (case rb_rings rb of
                                        [] \<Rightarrow> rh
                                      | r # _ \<Rightarrow> rh\<lparr>rh_consumer := r_consumer r\<rparr>)\<rparr>, s))
            (ring_buffer__consume fuel mems (bound_ring_buffer c rh) s))"

end
