(* ===== verification/Manager.thy ===== *)
theory Manager
  imports Collector
begin

text \<open>
  \<open>CollectorManager\<close> (\<open>src/user/collector/collector_manager.cpp\<close>). The collectors are a
  list, and an epoll event names its collector by its index there. The answers of
  \<open>epoll_create1\<close>, \<open>epoll_ctl\<close> and each \<open>epoll_wait\<close> are arguments; a run of the event
  loop is driven by the list of its iterations, and a list that ends first leaves the loop
  running.
\<close>

section \<open>State\<close>

record manager =
  mg_collectors :: "collector list"
  mg_epoll_fd :: int
  mg_registered :: "nat list"
  mg_ctx :: "ectx option"
  mg_stats_interval_sec :: int
  mg_running :: bool
  mg_world :: world

definition manager_new :: "world \<Rightarrow> manager" where
  "manager_new w =
     \<lparr>mg_collectors = [], mg_epoll_fd = -1, mg_registered = [], mg_ctx = None,
      mg_stats_interval_sec = 10, mg_running = False, mg_world = w\<rparr>"

definition add_collector :: "collector \<Rightarrow> manager \<Rightarrow> manager" where
  "add_collector c m = m\<lparr>mg_collectors := mg_collectors m @ [c]\<rparr>"

definition manager_find :: "string \<Rightarrow> manager \<Rightarrow> collector option" where
  "manager_find nm m = find (\<lambda>c. collector_name c = nm) (mg_collectors m)"

definition set_event_context :: "ectx \<Rightarrow> manager \<Rightarrow> manager" where
  "set_event_context ctx m = m\<lparr>mg_ctx := Some ctx\<rparr>"

definition set_stats_interval :: "int \<Rightarrow> manager \<Rightarrow> manager" where
  "set_stats_interval sec m = m\<lparr>mg_stats_interval_sec := sec\<rparr>"

section \<open>Loading and attaching\<close>

fun init_loop :: "kernel_env \<Rightarrow> collector list \<Rightarrow> world \<Rightarrow> int \<times> collector list \<times> world" where
  "init_loop env [] w = (0, [], w)"
| "init_loop env (c # cs) w =
     (let (r, c, w) = collector_init env c w;
          (n, cs, w) = init_loop env cs w
      in (if r = 0 then n + 1 else n, c # cs, w))"

definition init_all :: "kernel_env \<Rightarrow> manager \<Rightarrow> int \<times> manager" where
  "init_all env m =
     (case init_loop env (mg_collectors m) (mg_world m) of
        (n, cs, w) \<Rightarrow> (n, m\<lparr>mg_collectors := cs, mg_world := w\<rparr>))"

fun attach_loop ::
    "kernel_env \<Rightarrow> int \<Rightarrow> collector list \<Rightarrow> world \<Rightarrow> (collector list \<times> world) option" where
  "attach_loop env target [] w = Some ([], w)"
| "attach_loop env target (c # cs) w =
     (case collector_attach env target (set_collector_ctx c) w of
        None \<Rightarrow> None
      | Some (n, c, w) \<Rightarrow>
          map_option (\<lambda>(cs, w). (c # cs, w)) (attach_loop env target cs w))"

definition attach_all :: "kernel_env \<Rightarrow> int \<Rightarrow> manager \<Rightarrow> manager option" where
  "attach_all env target m =
     map_option (\<lambda>(cs, w). m\<lparr>mg_collectors := cs, mg_world := w\<rparr>)
       (attach_loop env target (mg_collectors m) (mg_world m))"

section \<open>The event loop\<close>

text \<open>
  One iteration: the test of \<open>g_running\<close> sees the signal, or \<open>epoll_wait\<close> fails with an
  errno, or it returns ready collectors, each with what its ring's loads see.
\<close>

datatype tick =
    Tick_signal
  | Tick_error int
  | Tick_ready "(nat \<times> (nat \<Rightarrow> nat \<Rightarrow> ring_mem)) list"

definition EINTR :: int where "EINTR = 4"

definition register_collectors :: "(nat \<Rightarrow> bool) \<Rightarrow> collector list \<Rightarrow> nat list" where
  "register_collectors ctl_ok cs =
     filter (\<lambda>i. c_attached (cs ! i) \<and> 0 \<le> c_ringbuf_fd (cs ! i) \<and> ctl_ok i) [0..<length cs]"

text \<open>\<open>handle_collector_event\<close>; an event can only name a registered collector.\<close>

definition handle_collector_event ::
    "nat \<Rightarrow> nat \<times> (nat \<Rightarrow> nat \<Rightarrow> ring_mem) \<Rightarrow> manager \<Rightarrow> manager option" where
  "handle_collector_event fuel ev m =
     (case ev of (i, mems) \<Rightarrow>
        if i \<notin> set (mg_registered m) \<or> length (mg_collectors m) \<le> i then None
        else map_option (\<lambda>(n, c, s). m\<lparr>mg_collectors := (mg_collectors m)[i := c], mg_ctx := s\<rparr>)
               (collector_poll fuel mems (mg_collectors m ! i) (mg_ctx m)))"

fun event_loop :: "nat \<Rightarrow> tick list \<Rightarrow> manager \<Rightarrow> manager option" where
  "event_loop fuel [] m = Some m"
| "event_loop fuel (t # ts) m =
     (case t of
        Tick_signal \<Rightarrow> Some (m\<lparr>mg_running := False\<rparr>)
      | Tick_error e \<Rightarrow>
          if e = EINTR then event_loop fuel ts m else Some (m\<lparr>mg_running := False\<rparr>)
      | Tick_ready evs \<Rightarrow>
          (case fold_opt (handle_collector_event fuel) evs m of
             None \<Rightarrow> None
           | Some m \<Rightarrow> event_loop fuel ts m))"

definition run_loop ::
    "nat \<Rightarrow> int option \<Rightarrow> (nat \<Rightarrow> bool) \<Rightarrow> tick list \<Rightarrow> manager \<Rightarrow> manager option" where
  "run_loop fuel epfd ctl_ok ticks m =
     (case epfd of
        None \<Rightarrow> Some (m\<lparr>mg_epoll_fd := -1\<rparr>)
      | Some fd \<Rightarrow>
          let w = mg_world m;
              sy = w_sys w;
              m = m\<lparr>mg_epoll_fd := fd,
                    mg_world := w\<lparr>w_sys := sy\<lparr>sys_fds := fd # sys_fds sy\<rparr>\<rparr>,
                    mg_registered := register_collectors ctl_ok (mg_collectors m),
                    mg_running := True\<rparr>
          in event_loop fuel ticks m)"

section \<open>Shutting down\<close>

definition close_epoll :: "manager \<Rightarrow> manager" where
  "close_epoll m =
     (if 0 \<le> mg_epoll_fd m then
        let w = mg_world m; sy = w_sys w
        in m\<lparr>mg_epoll_fd := -1, mg_registered := [],
             mg_world := w\<lparr>w_sys := sy\<lparr>sys_fds := remove1 (mg_epoll_fd m) (sys_fds sy)\<rparr>\<rparr>\<rparr>
      else m)"

definition shutdown :: "manager \<Rightarrow> manager" where
  "shutdown m =
     (let m = close_epoll m
      in m\<lparr>mg_world := fold (\<lambda>c w. snd (collector_destroy c w)) (mg_collectors m) (mg_world m),
           mg_collectors := [], mg_running := False\<rparr>)"

end
