(* ===== verification/Main_Program.thy ===== *)
theory Main_Program
  imports Manager "HOL-Library.Sublist"
begin

text \<open>
  \<open>src/user/main.cpp\<close>: the command line, the choice of writer and modules, and the order in
  which the parts are wired, run and released. The argument is the sequence of results that
  \<open>getopt_long\<close> returned (its option character and \<open>optarg\<close>); the banner and the
  progress messages are not modelled. Reports read the clock: its values are arguments, and so
  is the order in which \<open>evict_expired\<close> meets the pending table.
\<close>

section \<open>Command line\<close>

record options =
  o_output :: string
  o_log_file :: string
  o_enable :: string
  o_disable :: string
  o_target_pid :: int
  o_stats_interval :: int
  o_json :: bool
  o_verbose :: bool

definition default_options :: options where
  "default_options =
     \<lparr>o_output = ''stdout'', o_log_file = [], o_enable = [], o_disable = [], o_target_pid = -1,
      o_stats_interval = 10, o_json = False, o_verbose = False\<rparr>"

text \<open>\<open>atoi\<close>: white space, a sign, digits; clamped to \<open>long\<close> and cut to \<open>int\<close>.\<close>

definition is_space :: "char \<Rightarrow> bool" where
  "is_space c \<longleftrightarrow> of_char c = (32 :: nat) \<or> (9 \<le> (of_char c :: nat) \<and> (of_char c :: nat) \<le> 13)"

definition is_digit :: "char \<Rightarrow> bool" where
  "is_digit c \<longleftrightarrow> 48 \<le> (of_char c :: nat) \<and> (of_char c :: nat) \<le> 57"

definition digits_value :: "string \<Rightarrow> int" where
  "digits_value s = fold (\<lambda>c v. 10 * v + (of_char c - 48)) (takeWhile is_digit s) 0"

definition atoi :: "string \<Rightarrow> int" where
  "atoi s =
     (let s = dropWhile is_space s;
          v = (case s of
                 [] \<Rightarrow> 0
               | c # cs \<Rightarrow> if c = CHR ''-'' then - digits_value cs
                           else if c = CHR ''+'' then digits_value cs else digits_value s)
      in sint (of_int (max (- (2 ^ 63)) (min (2 ^ 63 - 1) v)) :: i32))"

text \<open>The option loop: the options, or the exit code of the early return.\<close>

definition apply_option :: "char \<times> string \<Rightarrow> options \<Rightarrow> int + options" where
  "apply_option oa opts =
     (let (opt, optarg) = oa
      in if opt = CHR ''p'' then Inr (opts\<lparr>o_target_pid := atoi optarg\<rparr>)
         else if opt = CHR ''o'' then Inr (opts\<lparr>o_output := optarg\<rparr>)
         else if opt = CHR ''f'' then Inr (opts\<lparr>o_log_file := optarg\<rparr>)
         else if opt = CHR ''j'' then Inr (opts\<lparr>o_json := True\<rparr>)
         else if opt = CHR ''s'' then Inr (opts\<lparr>o_stats_interval := atoi optarg\<rparr>)
         else if opt = CHR ''e'' then Inr (opts\<lparr>o_enable := optarg\<rparr>)
         else if opt = CHR ''x'' then Inr (opts\<lparr>o_disable := optarg\<rparr>)
         else if opt = CHR ''v'' then Inr (opts\<lparr>o_verbose := True\<rparr>)
         else if opt = CHR ''h'' then Inl 0
         else Inl 1)"

fun parse_options :: "(char \<times> string) list \<Rightarrow> options \<Rightarrow> int + options" where
  "parse_options [] opts = Inr opts"
| "parse_options (oa # oas) opts =
     (case apply_option oa opts of Inl code \<Rightarrow> Inl code | Inr opts \<Rightarrow> parse_options oas opts)"

section \<open>Writer and modules\<close>

definition choose_writer :: "options \<Rightarrow> int \<Rightarrow> bool \<Rightarrow> log_writer" where
  "choose_writer opts utc_offset can_open =
     (if o_output opts = ''file'' then File_writer (file_writer_new (o_log_file opts) True can_open)
      else Stdout_writer \<lparr>so_json = o_json opts, so_utc_offset = utc_offset, so_text = []\<rparr>)"

definition module_enabled :: "options \<Rightarrow> string \<Rightarrow> bool" where
  "module_enabled opts nm =
     (let enabled = (if o_enable opts \<noteq> [] then sublist nm (o_enable opts) else True)
      in if o_disable opts \<noteq> [] \<and> sublist nm (o_disable opts) then False else enabled)"

definition select_groups :: "options \<Rightarrow> file_group list \<Rightarrow> file_group list" where
  "select_groups opts groups = filter (\<lambda>g. module_enabled opts (fg_name g)) groups"

section \<open>The program\<close>

record main_env =
  me_bpf :: kernel_env
  me_utc_offset :: int
  me_can_open :: bool
  me_epoll :: "int option"
  me_epoll_ctl :: "nat \<Rightarrow> bool"
  me_fuel :: nat
  me_ticks :: "tick list"
  me_report_clock :: u64
  me_evict_clock :: u64
  me_evict_order :: "u64 list"

definition wire :: "options \<Rightarrow> main_env \<Rightarrow> file_group list \<Rightarrow> world \<Rightarrow> manager" where
  "wire opts env groups w =
     (let writer = choose_writer opts (me_utc_offset env) (me_can_open env);
          stats = set_report_interval (o_stats_interval opts) (set_log_writer stats_new)
      in fold (\<lambda>g. add_collector (collector_new g)) (select_groups opts groups)
           (set_event_context (stats, writer) (set_stats_interval (o_stats_interval opts)
              (manager_new w))))"

definition final_reports :: "main_env \<Rightarrow> file_group list \<Rightarrow> ectx \<Rightarrow> ectx" where
  "final_reports env groups c =
     (case flush_report groups (me_report_clock env) (fst c) of
        (s, logs1) \<Rightarrow>
          (case evict_expired (me_evict_clock env) (me_evict_order env) s of
             (s, logs2) \<Rightarrow> (s, do_logs logs2 (do_logs logs1 (snd c)))))"

definition run_main ::
    "(char \<times> string) list \<Rightarrow> main_env \<Rightarrow> file_group list \<Rightarrow> world \<Rightarrow> (int \<times> manager) option" where
  "run_main args env groups w =
     (case parse_options args default_options of
        Inl code \<Rightarrow> Some (code, manager_new w)
      | Inr opts \<Rightarrow>
          (case init_all (me_bpf env) (wire opts env groups w) of
             (ok, m) \<Rightarrow>
               if ok = 0 then Some (1, shutdown m)
               else
                 case attach_all (me_bpf env) (o_target_pid opts) m of
                   None \<Rightarrow> None
                 | Some m \<Rightarrow>
                     (case run_loop (me_fuel env) (me_epoll env) (me_epoll_ctl env) (me_ticks env) m of
                        None \<Rightarrow> None
                      | Some m \<Rightarrow>
                          Some (0, shutdown (m\<lparr>mg_ctx :=
                            map_option (final_reports env groups) (mg_ctx m)\<rparr>)))))"

end
