(* ===== verification/Collector_Props.thy ===== *)
theory Collector_Props
  imports Collector "HOL-Library.Multiset"
begin

text \<open>
  Lemmas on collectors: every operation conserves resources (what the process holds changes
  by exactly what the collector owns), and the ring buffer callback meets the consumer's
  contract, so that draining a ring runs the module's handler on every committed record.
\<close>

section \<open>Resources held and owned\<close>

datatype resource = Robj nat | Rlink nat | Rmap "u64 \<times> u64" | Rfd int

definition held :: "world \<Rightarrow> resource multiset" where
  "held w = mset (map Robj (w_objs w)) + mset (map Rlink (w_links w)) +
     mset (map Rmap (sys_maps (w_sys w))) + mset (map Rfd (sys_fds (w_sys w)))"

definition page_maps :: "u64 \<Rightarrow> ring_pages \<Rightarrow> (u64 \<times> u64) list" where
  "page_maps ps r =
     (case rp_consumer r of None \<Rightarrow> [] | Some a \<Rightarrow> [(a, ps)]) @
     (case rp_producer r of None \<Rightarrow> [] | Some a \<Rightarrow> [(a, ps + 2 * (rp_mask r + 1))])"

definition handle_resources :: "ring_handle \<Rightarrow> resource multiset" where
  "handle_resources rh =
     mset (map Rmap (concat (map (page_maps (rh_page_size rh)) (rh_pages rh)))) +
     (if 0 \<le> rh_epoll_fd rh then {#Rfd (rh_epoll_fd rh)#} else {#})"

definition owned :: "collector \<Rightarrow> resource multiset" where
  "owned c = (case c_obj c of None \<Rightarrow> {#} | Some b \<Rightarrow> {#Robj b#}) + mset (map Rlink (c_links c)) +
     (case c_ringbuf c of None \<Rightarrow> {#} | Some rh \<Rightarrow> handle_resources rh)"

lemma mset_map_remove1: "inj f \<Longrightarrow> mset (map f (remove1 x l)) = mset (map f l) - {#f x#}"
proof (induction l)
  case (Cons y l)
  then show ?case by (cases "x = y") (auto simp: inj_eq add_mset_diff_bothsides diff_add_mset_swap)
qed simp

lemma inj_resources: "inj Robj" "inj Rlink" "inj Rmap" "inj Rfd"
  by (simp_all add: inj_def)

lemma diff_single_right: "r \<notin># B \<Longrightarrow> (A + B) - {#r#} = (A - {#r#}) + B"
  by (rule multiset_eqI) (auto simp: not_in_iff)

lemma diff_single_left: "r \<notin># A \<Longrightarrow> (A + B) - {#r#} = A + (B - {#r#})"
  by (rule multiset_eqI) (auto simp: not_in_iff)

lemma kinds_differ:
  "Robj b \<notin># mset (map Rlink ls)" "Robj b \<notin># mset (map Rmap ms)" "Robj b \<notin># mset (map Rfd fs)"
  "Rlink l \<notin># mset (map Robj bs)" "Rlink l \<notin># mset (map Rmap ms)" "Rlink l \<notin># mset (map Rfd fs)"
  "Rmap m \<notin># mset (map Robj bs)" "Rmap m \<notin># mset (map Rlink ls)" "Rmap m \<notin># mset (map Rfd fs)"
  "Rfd f \<notin># mset (map Robj bs)" "Rfd f \<notin># mset (map Rlink ls)" "Rfd f \<notin># mset (map Rmap ms)"
  by auto

lemma held_remove1:
  "held (w\<lparr>w_objs := remove1 b (w_objs w)\<rparr>) = held w - {#Robj b#}"
  "held (w\<lparr>w_links := remove1 l (w_links w)\<rparr>) = held w - {#Rlink l#}"
  "held (w\<lparr>w_sys := munmap a n (w_sys w)\<rparr>) = held w - {#Rmap (a, n)#}"
  "held (w\<lparr>w_sys := (w_sys w)\<lparr>sys_fds := remove1 fd (sys_fds (w_sys w))\<rparr>\<rparr>) = held w - {#Rfd fd#}"
  unfolding held_def
  by (simp_all add: mset_map_remove1 inj_resources munmap_def diff_single_right diff_single_left
      kinds_differ del: mset_map set_mset_mset)

lemma held_add:
  "held (w\<lparr>w_objs := b # w_objs w\<rparr>) = add_mset (Robj b) (held w)"
  "held (w\<lparr>w_links := l # w_links w\<rparr>) = add_mset (Rlink l) (held w)"
  "held (w\<lparr>w_sys := mmap_at a n (w_sys w)\<rparr>) = add_mset (Rmap (a, n)) (held w)"
  "held (w\<lparr>w_sys := (w_sys w)\<lparr>sys_fds := fd # sys_fds (w_sys w)\<rparr>\<rparr>) = add_mset (Rfd fd) (held w)"
  by (simp_all add: held_def mmap_at_def)

section \<open>Ring buffers\<close>

lemma held_free_ring:
  "held (w\<lparr>w_sys := ringbuf_free_ring ps r (w_sys w)\<rparr>) = held w - mset (map Rmap (page_maps ps r))"
  using held_remove1(3) [where w = w] held_remove1(3) [where w = "w\<lparr>w_sys := munmap _ _ (w_sys w)\<rparr>"]
  by (auto simp: ringbuf_free_ring_def page_maps_def Let_def split: option.splits)

lemma held_free_rings:
  "held (w\<lparr>w_sys := fold (ringbuf_free_ring ps) rings (w_sys w)\<rparr>) =
     held w - mset (map Rmap (concat (map (page_maps ps) rings)))"
proof (induction rings arbitrary: w)
  case (Cons r rings)
  show ?case
    using Cons.IH [of "w\<lparr>w_sys := ringbuf_free_ring ps r (w_sys w)\<rparr>"]
    by (simp add: held_free_ring del: mset_map)
qed simp

lemma held_ring_free:
  "held (w\<lparr>w_sys := ring_buffer__free (rh_page_size rh) (rh_epoll_fd rh) (rh_pages rh) (w_sys w)\<rparr>) =
     held w - handle_resources rh"
  using held_remove1(4) [where w = "w\<lparr>w_sys := fold (ringbuf_free_ring (rh_page_size rh)) (rh_pages rh) (w_sys w)\<rparr>"]
    held_free_rings [where w = w and ps = "rh_page_size rh" and rings = "rh_pages rh"]
  by (simp add: ring_buffer__free_def handle_resources_def Let_def del: mset_map)

lemma held_ring_add:
  assumes "ring_buffer__add env ps rings (w_sys w) = (err, rings', sy')" "entries_ok env"
  shows "\<exists>new. rings' = rings @ new \<and>
    held (w\<lparr>w_sys := sy'\<rparr>) = held w + mset (map Rmap (concat (map (page_maps ps) new)))"
  using add_cases [OF assms]
proof (elim disjE conjE exE)
  assume "rings' = rings" "sy' = w_sys w"
  then show ?thesis by (intro exI [of _ "[]"]) simp
next
  fix r
  assume r: "rings' = rings @ [r]" "ringbuf_free_ring ps r sy' = w_sys w"
  have "sys_maps sy' = rev (page_maps ps r) @ sys_maps (w_sys w) \<and> sys_fds sy' = sys_fds (w_sys w)"
    using assms r
    by (auto simp: ring_buffer__add_def entries_ok_def mmap_at_def page_maps_def Let_def
        mask_plus_one split: sum.splits prod.splits if_splits)
  then show ?thesis
    using r(1) by (intro exI [of _ "[r]"]) (simp add: held_def)
qed

lemma held_ring_new:
  assumes new: "ring_buffer__new env (w_sys w) = (res, sy')" and ok: "entries_ok (ne_add env)"
    and fd: "\<forall>fd. ne_epoll env = Inr fd \<longrightarrow> 0 \<le> fd"
  shows "case res of
      Inl e \<Rightarrow> sy' = w_sys w
    | Inr (ps, fd, rings) \<Rightarrow>
        held (w\<lparr>w_sys := sy'\<rparr>) =
          held w + handle_resources \<lparr>rh_page_size = ps, rh_epoll_fd = fd, rh_pages = rings,
                                     rh_map_fd = mfd, rh_consumer = cp\<rparr>"
proof (cases res)
  case (Inl e)
  then show ?thesis using new_then_free [OF new ok fd] by simp
next
  case (Inr h)
  obtain ps fd rings where h: "h = (ps, fd, rings)" by (cases h)
  from new Inr h have e: "ne_epoll env = Inr fd" and
    add: "\<exists>err. ring_buffer__add (ne_add env) ps []
             (w_sys (w\<lparr>w_sys := (w_sys w)\<lparr>sys_fds := fd # sys_fds (w_sys w)\<rparr>\<rparr>)) = (err, rings, sy')"
    by (auto simp: ring_buffer__new_def Let_def split: if_splits sum.splits prod.splits)
  obtain err where add': "ring_buffer__add (ne_add env) ps []
      (w_sys (w\<lparr>w_sys := (w_sys w)\<lparr>sys_fds := fd # sys_fds (w_sys w)\<rparr>\<rparr>)) = (err, rings, sy')"
    using add by blast
  have "0 \<le> fd" using e assms(3) by simp
  then show ?thesis
    using held_ring_add [OF add' ok] held_add(4) [where w = w and fd = fd]
    by (auto simp: Inr h handle_resources_def simp del: mset_map)
qed

section \<open>Operations conserve resources\<close>

text \<open>
  What the kernel is relied on for: maps are not empty (a ring buffer map never is) and
  descriptors are not negative.
\<close>

definition env_ok :: "kernel_env \<Rightarrow> bool" where
  "env_ok env \<longleftrightarrow>
     (\<forall>fd. entries_ok (ne_add (be_ring env fd)) \<and>
           (\<forall>e. ne_epoll (be_ring env fd) = Inr e \<longrightarrow> 0 \<le> e))"

definition collector_wf :: "collector \<Rightarrow> bool" where
  "collector_wf c \<longleftrightarrow> (c_attached c \<longleftrightarrow> c_ringbuf c \<noteq> None)"

text \<open>\<open>B\<close> is whatever else the process holds.\<close>

definition accounts :: "resource multiset \<Rightarrow> collector \<Rightarrow> world \<Rightarrow> bool" where
  "accounts B c w \<longleftrightarrow> held w = B + owned c \<and> collector_wf c"

lemma accounts_new: "accounts (held w) (collector_new g) w"
  by (simp add: accounts_def collector_new_def owned_def collector_wf_def)

lemma accounts_set_ctx: "accounts B c w \<Longrightarrow> accounts B (set_collector_ctx c) w"
  by (simp add: accounts_def set_collector_ctx_def owned_def collector_wf_def)

lemma accounts_init:
  assumes "collector_init env c w = (r, c', w')" "accounts B c w" "c_obj c = None"
  shows "accounts B c' w' \<and> (r = 0 \<longleftrightarrow> c_obj c' \<noteq> None)"
  using assms held_add(1) [where w = w]
  by (auto simp: collector_init_def accounts_def owned_def collector_wf_def Let_def
      split: option.splits if_splits)

lemma held_remove_links:
  "held (w\<lparr>w_links := fold remove1 ls (w_links w)\<rparr>) = held w - mset (map Rlink ls)"
proof (induction ls arbitrary: w)
  case (Cons l ls)
  show ?case
    using Cons.IH [of "w\<lparr>w_links := remove1 l (w_links w)\<rparr>"] held_remove1(2) [where w = w]
    by (simp del: mset_map)
qed simp

lemma accounts_detach:
  assumes "collector_detach c w = (r, c', w')" "accounts B c w"
  shows "accounts B c' w'" "c_ringbuf c' = None" "c_links c' = []" "c_obj c' = c_obj c"
    "c_group c' = c_group c" "\<not> c_attached c'"
proof -
  define w1 where "w1 = w\<lparr>w_links := fold remove1 (c_links c) (w_links w)\<rparr>"
  have h1: "held w1 = held w - mset (map Rlink (c_links c))"
    unfolding w1_def by (rule held_remove_links)
  have h2: "held (w1\<lparr>w_sys := ring_buffer__free (rh_page_size rh) (rh_epoll_fd rh) (rh_pages rh) (w_sys w1)\<rparr>) =
      held w1 - handle_resources rh" for rh by (rule held_ring_free)
  show "accounts B c' w'"
    using assms h1 h2 unfolding w1_def
    by (auto simp: collector_detach_def accounts_def owned_def collector_wf_def Let_def
        simp del: mset_map split: option.splits)
  show "c_ringbuf c' = None" "c_links c' = []" "c_obj c' = c_obj c"
    "c_group c' = c_group c" "\<not> c_attached c'"
    using assms by (auto simp: collector_detach_def Let_def split: option.splits)
qed

lemma destroy_releases:
  assumes "collector_destroy c w = (c', w')" "accounts B c w"
  shows "held w' = B"
proof -
  obtain r c1 w1 where d: "collector_detach c w = (r, c1, w1)" by (cases "collector_detach c w")
  note a = accounts_detach [OF d assms(2)]
  have "held w1 = B + (case c_obj c1 of None \<Rightarrow> {#} | Some b \<Rightarrow> {#Robj b#})"
    using a(1-3) by (simp add: accounts_def owned_def)
  then show ?thesis
    using assms(1) d held_remove1(1) [where w = w1]
    by (auto simp: collector_destroy_def split: option.splits)
qed

lemma accounts_attach_hook:
  assumes "attach_hook env tp obj i (ok, c, w) = Some (ok', c', w')" "accounts B c w"
  shows "accounts B c' w'" "c_obj c' = c_obj c" "c_attached c' = c_attached c" "c_group c' = c_group c"
  using assms held_add(2) [where w = w]
  by (auto simp: attach_hook_def accounts_def owned_def collector_wf_def Let_def
      split: option.splits if_splits)

lemma accounts_attach_hooks:
  assumes "fold_opt (attach_hook env tp obj) is (ok, c, w) = Some (ok', c', w')" "accounts B c w"
  shows "accounts B c' w' \<and> c_obj c' = c_obj c \<and> c_attached c' = c_attached c \<and> c_group c' = c_group c"
  using fold_opt_inv [OF assms(1), of "\<lambda>(ok, c2, w2). accounts B c2 w2 \<and> c_obj c2 = c_obj c \<and>
      c_attached c2 = c_attached c \<and> c_group c2 = c_group c"] assms(2) accounts_attach_hook
  by (fastforce split: prod.splits)

lemma accounts_attach_ring:
  assumes "attach_ring env obj (ok, c, w) = (r, c', w')" "accounts B c w" "\<not> c_attached c" "env_ok env"
  shows "accounts B c' w'"
proof (cases "be_find_map env obj (fg_ringbuf_map (c_group c))")
  case None
  then show ?thesis using assms by (simp add: attach_ring_def)
next
  case (Some fd)
  obtain res sy where new: "ring_buffer__new (be_ring env fd) (w_sys w) = (res, sy)"
    by (cases "ring_buffer__new (be_ring env fd) (w_sys w)")
  have none: "c_ringbuf c = None" using assms(2,3) by (simp add: accounts_def collector_wf_def)
  have "entries_ok (ne_add (be_ring env fd))" "\<forall>e. ne_epoll (be_ring env fd) = Inr e \<longrightarrow> 0 \<le> e"
    using assms(4) by (auto simp: env_ok_def)
  note h = held_ring_new [OF new this, of fd "be_consumer_pos env fd"]
  show ?thesis
  proof (cases res)
    case (Inl e)
    then show ?thesis
      using assms(1-3) h none
      by (auto simp: attach_ring_def Some new accounts_def owned_def collector_wf_def)
  next
    case (Inr p)
    obtain ps epfd pages where p: "p = (ps, epfd, pages)" by (cases p)
    show ?thesis
      using assms(1,2) h none
      by (auto simp: attach_ring_def Some new Inr p accounts_def owned_def collector_wf_def)
  qed
qed

lemma accounts_attach:
  assumes "collector_attach env tp c w = Some (r, c', w')" "accounts B c w" "env_ok env"
  shows "accounts B c' w'"
proof (cases "c_obj c")
  case None
  then show ?thesis using assms by (simp add: collector_attach_def)
next
  case (Some obj)
  define cw where "cw = (if c_attached c then snd (collector_detach c w) else (c, w))"
  obtain c1 w1 where cw: "cw = (c1, w1)" by (cases cw)
  have a1: "accounts B c1 w1 \<and> \<not> c_attached c1"
  proof (cases "c_attached c")
    case True
    obtain r0 c0 w0 where d: "collector_detach c w = (r0, c0, w0)" by (cases "collector_detach c w")
    then show ?thesis using accounts_detach [OF d assms(2)] True cw by (auto simp: cw_def)
  next
    case False
    then show ?thesis using cw assms(2) by (auto simp: cw_def)
  qed
  obtain ok c2 w2 where hooks: "fold_opt (attach_hook env tp obj) [0..<fg_hook_count (c_group c1)]
      (0, c1, w1) = Some (ok, c2, w2)"
    and ring: "attach_ring env obj (ok, c2, w2) = (r, c', w')"
    using assms(1) Some cw
    by (auto simp: collector_attach_def cw_def [symmetric] split: prod.splits)
  show ?thesis
    using accounts_attach_hooks [OF hooks] a1 accounts_attach_ring [OF ring _ _ assms(3)] by blast
qed

lemma poll_frame:
  assumes "collector_poll fuel mems c s = Some (n, c', s')"
  shows "c' = c \<or> (\<exists>rh x. c_ringbuf c = Some rh \<and> c' = c\<lparr>c_ringbuf := Some (rh\<lparr>rh_consumer := x\<rparr>)\<rparr>)"
proof (cases "c_ringbuf c")
  case None
  then show ?thesis using assms by (simp add: collector_poll_def)
next
  case (Some rh)
  then obtain rb :: "ectx option ring_buffer" where c': "c' = c\<lparr>c_ringbuf := Some (case rb_rings rb of
      [] \<Rightarrow> rh | r # _ \<Rightarrow> rh\<lparr>rh_consumer := r_consumer r\<rparr>)\<rparr>"
    using assms by (auto simp: collector_poll_def)
  have "rh = rh\<lparr>rh_consumer := rh_consumer rh\<rparr>" by simp
  then show ?thesis using Some c' by (cases "rb_rings rb") auto
qed

lemma owned_poll:
  assumes "collector_poll fuel mems c s = Some (n, c', s')"
  shows "owned c' = owned c" "collector_wf c' = collector_wf c"
  using poll_frame [OF assms]
  by (auto simp: owned_def collector_wf_def handle_resources_def)

section \<open>The callback and the consumer\<close>

definition ctx_ok :: "ectx option \<Rightarrow> bool" where
  "ctx_ok s \<longleftrightarrow> (case s of None \<Rightarrow> True | Some c \<Rightarrow> counters_ok (fst c))"

interpretation ring_cb: sample_consumer "ringbuf_callback g has_ctx" ctx_ok for g has_ctx
proof unfold_locales
  fix s :: "ectx option" and b :: "byte list"
  assume ok: "ctx_ok s"
  show "0 \<le> fst (ringbuf_callback g has_ctx b s)"
    by (simp add: ringbuf_callback_def)
  show "ctx_ok (snd (ringbuf_callback g has_ctx b s))"
    using ok linked_counters
    by (fastforce simp: ringbuf_callback_def ctx_ok_def Let_def split: option.splits bind_splits)
qed

text \<open>What the records of a ring do to the context when the group's handler is \<open>f\<close>.\<close>

definition record_name :: "file_group \<Rightarrow> byte list \<Rightarrow> string" where
  "record_name g bs =
     (case dec_event_header bs of None \<Rightarrow> ''unknown'' | Some h \<Rightarrow> hook_name_of g (hook_id h))"

definition handle_records :: "file_group \<Rightarrow> handler \<Rightarrow> byte list list \<Rightarrow> ectx \<Rightarrow> ectx option" where
  "handle_records g f bss c =
     fold_opt (\<lambda>bs c. f bs (record_name g bs) c)
       (filter (\<lambda>bs. sizeof_event_header \<le> length bs) bss) c"

lemma callback_state:
  assumes "linked_handler (fg_handler g) = Some f"
  shows "snd (ringbuf_callback g True bs s) =
    (if length bs < sizeof_event_header then s else Option.bind s (f bs (record_name g bs)))"
  using assms by (simp add: ringbuf_callback_def record_name_def)

lemma deliver_none:
  "linked_handler (fg_handler g) = Some f \<Longrightarrow> ring_cb.deliver g True bss None = None"
  by (induction bss) (simp_all add: ring_cb.deliver_simps callback_state)

lemma deliver_records:
  assumes "linked_handler (fg_handler g) = Some f"
  shows "ring_cb.deliver g True bss (Some c) = handle_records g f bss c"
proof (induction bss arbitrary: c)
  case Nil
  then show ?case by (simp add: ring_cb.deliver_simps handle_records_def)
next
  case (Cons bs bss)
  then show ?case
    using deliver_none [OF assms, of bss]
    by (cases "f bs (record_name g bs) c")
       (auto simp: ring_cb.deliver_simps callback_state [OF assms] handle_records_def)
qed

text \<open>Polling a collector whose ring stands still.\<close>

lemma poll_drains:
  assumes rh: "c_ringbuf c = Some rh" "rh_pages rh = [pg]"
    and recs: "recs_from m (rp_mask pg) (unat (rh_consumer rh)) rs q" "q \<le> unat (rm_producer m)"
      "unat (rm_producer m) = q \<or> busy_at m (rp_mask pg) q"
    and small: "length (samples rs) < 2 ^ 31 - 1" "length rs + 2 < fuel"
    and h: "linked_handler (fg_handler (c_group c)) = Some f" "c_has_ctx c"
    and ok: "counters_ok (fst s)"
  shows "collector_poll fuel (\<lambda>_ _. m) c (Some s) =
    Some (int (length (samples rs)),
          c\<lparr>c_ringbuf := Some (rh\<lparr>rh_consumer := of_nat q\<rparr>)\<rparr>,
          handle_records (c_group c) f (samples rs) s)"
proof -
  define r where "r = \<lparr>r_cb = ringbuf_callback (c_group c) True, r_mask = rp_mask pg,
    r_consumer = rh_consumer rh, r_map_fd = rh_map_fd rh\<rparr>"
  have u: "unat (of_int INT_MAX :: u64) = 2 ^ 31 - 1" by simp
  have n: "unat (of_nat (length (samples rs)) :: u64) = length (samples rs)"
    using small(1) by (simp add: unat_of_nat)
  have "ringbuf_process_ring fuel (\<lambda>_. m) (of_int INT_MAX) r (Some s) =
      Some (sint (of_nat (length (samples rs)) :: u64), r\<lparr>r_consumer := of_nat q\<rparr>,
            ring_cb.deliver (c_group c) True (samples rs) (Some s))"
    using recs small u ok by (intro ring_cb.drain_ring) (simp_all add: r_def ctx_ok_def)
  also have "sint (of_nat (length (samples rs)) :: u64) = int (length (samples rs))"
    using small(1) n by (subst sint_small) simp_all
  finally have run: "ringbuf_process_ring fuel (\<lambda>_. m) (of_int INT_MAX) r (Some s) =
      Some (int (length (samples rs)), r\<lparr>r_consumer := of_nat q\<rparr>,
            handle_records (c_group c) f (samples rs) s)"
    by (simp only: deliver_records [OF h(1)])
  have "\<not> INT_MAX < int (length (samples rs))" using small(1) by simp
  then show ?thesis
    using run h(2)
    by (simp add: collector_poll_def rh bound_ring_buffer_def ring_buffer__consume_def r_def [symmetric])
qed

end
