(* ===== verification/Main_Props.thy ===== *)
theory Main_Props
  imports Main_Program Collector_Props
begin

text \<open>
  Lemmas on the manager and the program: the resources of all collectors through loading,
  attaching, the event loop and shutting down, and what the event loop does to the context.
\<close>

section \<open>Resources of the manager\<close>

definition epoll_resource :: "int \<Rightarrow> resource multiset" where
  "epoll_resource fd = (if 0 \<le> fd then {#Rfd fd#} else {#})"

definition owned_all :: "collector list \<Rightarrow> resource multiset" where
  "owned_all cs = sum_list (map owned cs)"

definition mgr_accounts :: "resource multiset \<Rightarrow> manager \<Rightarrow> bool" where
  "mgr_accounts B m \<longleftrightarrow>
     held (mg_world m) = B + owned_all (mg_collectors m) + epoll_resource (mg_epoll_fd m) \<and>
     (\<forall>c\<in>set (mg_collectors m). collector_wf c)"

lemma init_loop_accounts:
  assumes "init_loop env cs w = (n, cs', w')" "held w = B + owned_all cs"
    "\<forall>c\<in>set cs. collector_wf c \<and> c_obj c = None"
  shows "held w' = B + owned_all cs' \<and> (\<forall>c\<in>set cs'. collector_wf c)"
  using assms
proof (induction cs arbitrary: n cs' w w' B)
  case Nil
  then show ?case by simp
next
  case (Cons c cs)
  obtain r c1 w1 where i: "collector_init env c w = (r, c1, w1)" by (cases "collector_init env c w")
  obtain n2 cs2 w2 where l: "init_loop env cs w1 = (n2, cs2, w2)" by (cases "init_loop env cs w1")
  have "accounts (B + owned_all cs) c w"
    using Cons.prems by (simp add: accounts_def owned_all_def ac_simps)
  then have a: "accounts (B + owned_all cs) c1 w1"
    using accounts_init [OF i] Cons.prems(3) by simp
  then have "held w1 = (B + owned c1) + owned_all cs" by (simp add: accounts_def ac_simps)
  then have "held w2 = (B + owned c1) + owned_all cs2 \<and> (\<forall>c\<in>set cs2. collector_wf c)"
    using Cons.prems(3) by (intro Cons.IH [OF l]) auto
  moreover have "cs' = c1 # cs2" "w' = w2"
    using Cons.prems(1) by (simp_all add: i l split: if_splits)
  ultimately show ?case using a by (simp add: accounts_def owned_all_def ac_simps)
qed

lemma attach_loop_accounts:
  assumes "attach_loop env tp cs w = Some (cs', w')" "held w = B + owned_all cs"
    "\<forall>c\<in>set cs. collector_wf c" "env_ok env"
  shows "held w' = B + owned_all cs' \<and> (\<forall>c\<in>set cs'. collector_wf c)"
  using assms
proof (induction cs arbitrary: cs' w w' B)
  case Nil
  then show ?case by simp
next
  case (Cons c cs)
  obtain n c1 w1 where i: "collector_attach env tp (set_collector_ctx c) w = Some (n, c1, w1)"
    using Cons.prems(1) by (auto split: option.splits)
  obtain cs2 where l: "attach_loop env tp cs w1 = Some (cs2, w')" and cs': "cs' = c1 # cs2"
    using Cons.prems(1) i by auto
  have "accounts (B + owned_all cs) c w"
    using Cons.prems by (simp add: accounts_def owned_all_def ac_simps)
  then have a: "accounts (B + owned_all cs) c1 w1"
    using accounts_attach [OF i] accounts_set_ctx Cons.prems(4) by blast
  then have "held w1 = (B + owned c1) + owned_all cs" by (simp add: accounts_def ac_simps)
  then have "held w' = (B + owned c1) + owned_all cs2 \<and> (\<forall>c\<in>set cs2. collector_wf c)"
    using Cons.prems(3,4) by (intro Cons.IH [OF l]) auto
  then show ?case using a cs' by (simp add: accounts_def owned_all_def ac_simps)
qed

lemma owned_all_update:
  assumes "i < length cs" "owned c = owned (cs ! i)"
  shows "owned_all (cs[i := c]) = owned_all cs"
proof -
  have "map owned (cs[i := c]) = map owned cs"
    using assms by (simp add: map_update list_update_same_conv)
  then show ?thesis by (simp add: owned_all_def)
qed

lemma handle_event_accounts:
  assumes "handle_collector_event fuel ev m = Some m'" "mgr_accounts B m"
  shows "mgr_accounts B m'"
proof -
  obtain i mems where ev: "ev = (i, mems)" by (cases ev)
  obtain n c s where i: "i < length (mg_collectors m)"
    and poll: "collector_poll fuel mems (mg_collectors m ! i) (mg_ctx m) = Some (n, c, s)"
    and m': "m' = m\<lparr>mg_collectors := (mg_collectors m)[i := c], mg_ctx := s\<rparr>"
    using assms(1) ev by (auto simp: handle_collector_event_def split: if_splits)
  have "collector_wf c"
    using owned_poll(2) [OF poll] assms(2) i by (simp add: mgr_accounts_def)
  then show ?thesis
    using assms(2) owned_all_update [OF i owned_poll(1) [OF poll]]
      set_update_subset_insert [of "mg_collectors m" i c]
    by (auto simp: mgr_accounts_def m')
qed

lemma event_loop_accounts:
  "event_loop fuel ts m = Some m' \<Longrightarrow> mgr_accounts B m \<Longrightarrow> mgr_accounts B m'"
proof (induction ts arbitrary: m)
  case Nil
  then show ?case by simp
next
  case (Cons t ts)
  show ?case
  proof (cases t)
    case Tick_signal
    then show ?thesis using Cons.prems by (auto simp: mgr_accounts_def)
  next
    case (Tick_error e)
    then show ?thesis using Cons by (auto simp: mgr_accounts_def split: if_splits)
  next
    case (Tick_ready evs)
    then obtain m1 where f: "fold_opt (handle_collector_event fuel) evs m = Some m1"
      and l: "event_loop fuel ts m1 = Some m'"
      using Cons.prems(1) by (auto split: option.splits)
    have "mgr_accounts B m1"
      using fold_opt_inv [OF f, of "mgr_accounts B"] Cons.prems(2) handle_event_accounts by blast
    then show ?thesis by (rule Cons.IH [OF l])
  qed
qed

lemma run_loop_accounts:
  assumes "run_loop fuel epfd ctl_ok ticks m = Some m'" "mgr_accounts B m" "mg_epoll_fd m = -1"
    "epfd \<noteq> None \<longrightarrow> 0 \<le> the epfd"
  shows "mgr_accounts B m'"
proof (cases epfd)
  case None
  then show ?thesis using assms by (auto simp: run_loop_def mgr_accounts_def)
next
  case (Some fd)
  define m1 where "m1 = m\<lparr>mg_epoll_fd := fd,
    mg_world := (mg_world m)\<lparr>w_sys := (w_sys (mg_world m))\<lparr>sys_fds := fd # sys_fds (w_sys (mg_world m))\<rparr>\<rparr>,
    mg_registered := register_collectors ctl_ok (mg_collectors m), mg_running := True\<rparr>"
  have "held (mg_world m1) = add_mset (Rfd fd) (held (mg_world m))"
    unfolding m1_def by (simp add: held_add(4))
  then have "mgr_accounts B m1"
    using assms(2-4) Some by (simp add: mgr_accounts_def epoll_resource_def m1_def)
  moreover have "event_loop fuel ticks m1 = Some m'"
    using assms(1) Some by (simp add: run_loop_def Let_def m1_def)
  ultimately show ?thesis using event_loop_accounts by blast
qed

lemma destroy_all:
  "held w = B + owned_all cs \<Longrightarrow> \<forall>c\<in>set cs. collector_wf c \<Longrightarrow>
     held (fold (\<lambda>c w. snd (collector_destroy c w)) cs w) = B"
proof (induction cs arbitrary: w B)
  case Nil
  then show ?case by (simp add: owned_all_def)
next
  case (Cons c cs)
  obtain c' w' where d: "collector_destroy c w = (c', w')" by (cases "collector_destroy c w")
  have "accounts (B + owned_all cs) c w"
    using Cons.prems by (simp add: accounts_def owned_all_def ac_simps)
  then have "held w' = B + owned_all cs" by (rule destroy_releases [OF d])
  then show ?case using Cons by (simp add: d)
qed

lemma shutdown_releases:
  assumes "mgr_accounts B m"
  shows "held (mg_world (shutdown m)) = B"
proof -
  have "held (mg_world (close_epoll m)) = B + owned_all (mg_collectors m)"
    using assms by (auto simp: mgr_accounts_def close_epoll_def epoll_resource_def Let_def held_remove1(4))
  moreover have "mg_collectors (close_epoll m) = mg_collectors m"
    by (simp add: close_epoll_def Let_def)
  ultimately show ?thesis
    using assms destroy_all by (simp add: shutdown_def Let_def mgr_accounts_def)
qed

section \<open>The whole run\<close>

lemma add_collectors:
  "fold (\<lambda>g. add_collector (collector_new g)) gs m =
     m\<lparr>mg_collectors := mg_collectors m @ map collector_new gs\<rparr>"
  by (induction gs arbitrary: m) (simp_all add: add_collector_def)

lemma wire_parts:
  "mg_collectors (wire opts env groups w) = map collector_new (select_groups opts groups)"
  "mg_world (wire opts env groups w) = w" "mg_epoll_fd (wire opts env groups w) = -1"
  "mg_ctx (wire opts env groups w) =
     Some (set_report_interval (o_stats_interval opts) (set_log_writer stats_new),
           choose_writer opts (me_utc_offset env) (me_can_open env))"
  by (simp_all add: wire_def add_collectors set_event_context_def set_stats_interval_def
      manager_new_def Let_def)

lemma owned_all_new: "owned_all (map collector_new gs) = {#}"
  by (induction gs) (simp_all add: owned_all_def owned_def collector_new_def)

lemma init_all_accounts:
  assumes "init_all (me_bpf env) (wire opts env groups w) = (n, m)"
  shows "mgr_accounts (held w) m \<and> mg_epoll_fd m = -1"
proof -
  obtain cs w' where l: "init_loop (me_bpf env) (map collector_new (select_groups opts groups)) w = (n, cs, w')"
    and m: "m = (wire opts env groups w)\<lparr>mg_collectors := cs, mg_world := w'\<rparr>"
    using assms by (auto simp: init_all_def wire_parts split: prod.splits)
  have "held w' = held w + owned_all cs \<and> (\<forall>c\<in>set cs. collector_wf c)"
    by (rule init_loop_accounts [OF l])
       (auto simp: owned_all_new collector_wf_def collector_new_def)
  then show ?thesis by (simp add: m mgr_accounts_def wire_parts epoll_resource_def)
qed

lemma attach_all_accounts:
  assumes "attach_all env tp m = Some m'" "mgr_accounts B m" "mg_epoll_fd m = -1" "env_ok env"
  shows "mgr_accounts B m' \<and> mg_epoll_fd m' = -1"
proof -
  obtain cs w where l: "attach_loop env tp (mg_collectors m) (mg_world m) = Some (cs, w)"
    and m': "m' = m\<lparr>mg_collectors := cs, mg_world := w\<rparr>"
    using assms(1) by (auto simp: attach_all_def)
  have "held w = B + owned_all cs \<and> (\<forall>c\<in>set cs. collector_wf c)"
    using assms(2,3) by (intro attach_loop_accounts [OF l _ _ assms(4)])
       (auto simp: mgr_accounts_def epoll_resource_def)
  then show ?thesis using assms(3) by (simp add: m' mgr_accounts_def epoll_resource_def)
qed

lemma mgr_accounts_ctx: "mgr_accounts B m \<Longrightarrow> mgr_accounts B (m\<lparr>mg_ctx := x\<rparr>)"
  by (simp add: mgr_accounts_def)

lemma run_main_accounts:
  assumes "run_main args env groups w = Some (code, m)" "env_ok (me_bpf env)"
    "me_epoll env \<noteq> None \<longrightarrow> 0 \<le> the (me_epoll env)"
  shows "held (mg_world m) = held w"
proof (cases "parse_options args default_options")
  case (Inl code')
  then show ?thesis using assms(1) by (auto simp: run_main_def manager_new_def)
next
  case (Inr opts)
  obtain n m1 where i: "init_all (me_bpf env) (wire opts env groups w) = (n, m1)"
    by (cases "init_all (me_bpf env) (wire opts env groups w)")
  note a1 = init_all_accounts [OF i]
  show ?thesis
  proof (cases "n = 0")
    case True
    then show ?thesis
      using assms(1) Inr i a1 shutdown_releases [of "held w" m1] by (simp add: run_main_def)
  next
    case False
    obtain m2 where at: "attach_all (me_bpf env) (o_target_pid opts) m1 = Some m2"
      using assms(1) Inr i False by (auto simp: run_main_def split: option.splits)
    have a2: "mgr_accounts (held w) m2 \<and> mg_epoll_fd m2 = -1"
      using attach_all_accounts [OF at _ _ assms(2)] a1 by blast
    obtain m3 where l: "run_loop (me_fuel env) (me_epoll env) (me_epoll_ctl env) (me_ticks env) m2 = Some m3"
      using assms(1) Inr i False at by (auto simp: run_main_def split: option.splits)
    have a3: "mgr_accounts (held w) m3"
      using run_loop_accounts [OF l _ _ assms(3)] a2 by blast
    have "m = shutdown (m3\<lparr>mg_ctx := map_option (final_reports env groups) (mg_ctx m3)\<rparr>)"
      using assms(1) Inr i False at l by (simp add: run_main_def)
    then show ?thesis using shutdown_releases [OF mgr_accounts_ctx [OF a3]] by simp
  qed
qed

lemma select_groups_default: "o_enable opts = [] \<Longrightarrow> o_disable opts = [] \<Longrightarrow> select_groups opts gs = gs"
  by (simp add: select_groups_def module_enabled_def)

text \<open>The context's counter arrays keep their size through the event loop.\<close>

lemma process_ring_ctx:
  assumes "ringbuf_process_ring fuel mem n r s = Some (res, r', s')"
    "r_cb r = ringbuf_callback g hc" "ctx_ok s"
  shows "ctx_ok s'"
  using ring_cb.process_loop_inv assms by (fastforce simp: ringbuf_process_ring_def)

lemma consume_loop_ctx:
  assumes "consume_loop fuel mems i res rs s = Some (res', rs', s')"
    "\<forall>r\<in>set rs. r_cb r = ringbuf_callback g hc" "ctx_ok s"
  shows "ctx_ok s'"
  using assms
proof (induction rs arbitrary: i res s res' rs')
  case Nil
  then show ?case by simp
next
  case (Cons r rs)
  obtain e r1 s1 where p: "ringbuf_process_ring fuel (mems i) (of_int INT_MAX) r s = Some (e, r1, s1)"
    using Cons.prems(1) by (auto split: option.splits)
  have "ctx_ok s1" using process_ring_ctx [OF p] Cons.prems(2,3) by simp
  then show ?case using Cons p by (auto simp: Let_def split: if_splits)
qed

lemma poll_ctx:
  assumes "collector_poll fuel mems c s = Some (n, c', s')" "ctx_ok s"
  shows "ctx_ok s'"
proof (cases "c_ringbuf c")
  case None
  then show ?thesis using assms by (simp add: collector_poll_def)
next
  case (Some rh)
  then obtain e rs where "consume_loop fuel mems 0 0 (rb_rings (bound_ring_buffer c rh)) s = Some (e, rs, s')"
    using assms(1) by (auto simp: collector_poll_def ring_buffer__consume_def)
  then show ?thesis
    by (rule consume_loop_ctx [OF _ _ assms(2), of _ _ _ _ _ _ _ _ "c_group c" "c_has_ctx c"])
       (auto simp: bound_ring_buffer_def)
qed

end
