(* ===== verification/Attach_Props.thy ===== *)
theory Attach_Props
  imports Main_Props
begin

text \<open>
  When attaching is defined: \<open>Collector::attach\<close> (\<open>src/user/collector/collector.cpp\<close>) walks the
  generated hook array up to the group's hook count, and \<open>scripts/gen_hook_config.sh\<close> leaves out
  of the array, but not of the count, every hook whose symbol has no offset.
\<close>

lemma attach_hook_group:
  assumes "attach_hook env tp obj i (ok, c, w) = Some (ok', c', w')"
  shows "c_group c' = c_group c"
  using assms by (auto simp: attach_hook_def Let_def split: if_splits option.splits)

lemma attach_hook_defined:
  "attach_hook env tp obj i (ok, c, w) = None \<longleftrightarrow> length (fg_hooks (c_group c)) \<le> i"
  by (auto simp: attach_hook_def Let_def split: option.splits)

lemma attach_hooks_defined:
  "fold_opt (attach_hook env tp obj) is (ok, c, w) = None \<longleftrightarrow>
     (\<exists>i\<in>set is. length (fg_hooks (c_group c)) \<le> i)"
proof (induction "is" arbitrary: ok c w)
  case Nil
  then show ?case by simp
next
  case (Cons i "is")
  show ?case
  proof (cases "attach_hook env tp obj i (ok, c, w)")
    case None
    then show ?thesis using attach_hook_defined [of env tp obj i ok c w] by simp
  next
    case (Some st)
    obtain ok' c' w' where st: "st = (ok', c', w')" by (cases st)
    have "\<not> length (fg_hooks (c_group c)) \<le> i"
      using Some attach_hook_defined [of env tp obj i ok c w] by simp
    then show ?thesis
      using Cons.IH [of ok' c' w'] attach_hook_group [OF Some [unfolded st]]
      by (simp add: Some st)
  qed
qed

lemma detach_group: "c_group (fst (snd (collector_detach c w))) = c_group c"
  by (simp add: collector_detach_def Let_def split: option.splits)

lemma collector_attach_undefined:
  "collector_attach env tp c w = None \<longleftrightarrow>
     c_obj c \<noteq> None \<and> length (fg_hooks (c_group c)) < fg_hook_count (c_group c)"
proof (cases "c_obj c")
  case None
  then show ?thesis by (simp add: collector_attach_def)
next
  case (Some obj)
  obtain c1 w1 where c1: "(if c_attached c then snd (collector_detach c w) else (c, w)) = (c1, w1)"
    by fastforce
  then have g: "c_group c1 = c_group c"
    using detach_group [of c w] by (auto split: if_splits)
  have "collector_attach env tp c w = None \<longleftrightarrow>
      fold_opt (attach_hook env tp obj) [0..<fg_hook_count (c_group c1)] (0, c1, w1) = None"
    by (simp add: collector_attach_def Some c1)
  also have "\<dots> \<longleftrightarrow> (\<exists>i\<in>set [0..<fg_hook_count (c_group c)]. length (fg_hooks (c_group c)) \<le> i)"
    by (simp only: attach_hooks_defined g)
  also have "\<dots> \<longleftrightarrow> length (fg_hooks (c_group c)) < fg_hook_count (c_group c)"
    by (auto intro: bexI [of _ "length (fg_hooks (c_group c))"])
  finally show ?thesis using Some by simp
qed

lemma attach_loop_defined:
  "\<forall>c\<in>set cs. group_ok (c_group c) \<Longrightarrow> attach_loop env tp cs w \<noteq> None"
proof (induction cs arbitrary: w)
  case Nil
  then show ?case by simp
next
  case (Cons c cs)
  have "group_ok (c_group c)" using Cons.prems by simp
  then have "collector_attach env tp (set_collector_ctx c) w \<noteq> None"
    by (simp add: collector_attach_undefined group_ok_def set_collector_ctx_def)
  then obtain n c' w' where "collector_attach env tp (set_collector_ctx c) w = Some (n, c', w')"
    by (metis not_None_eq prod_cases3)
  then show ?case using Cons by simp
qed

lemma init_loop_groups:
  "init_loop env cs w = (n, cs', w') \<Longrightarrow> map c_group cs' = map c_group cs"
proof (induction cs arbitrary: w n cs' w')
  case Nil
  then show ?case by simp
next
  case (Cons c cs)
  obtain r c1 w1 where c1: "collector_init env c w = (r, c1, w1)" by (metis prod_cases3)
  obtain n2 cs2 w2 where cs2: "init_loop env cs w1 = (n2, cs2, w2)" by (metis prod_cases3)
  have "c_group c1 = c_group c"
    using c1 by (auto simp: collector_init_def Let_def split: option.splits if_splits)
  with Cons.IH [OF cs2] Cons.prems show ?case by (auto simp: c1 cs2 split: if_splits)
qed

lemma attach_after_init:
  assumes "init_all env m = (n, m')" "\<forall>c\<in>set (mg_collectors m). group_ok (c_group c)"
  shows "attach_all env2 tp m' \<noteq> None"
proof -
  obtain cs' w' where i: "init_loop env (mg_collectors m) (mg_world m) = (n, cs', w')"
    "mg_collectors m' = cs'"
    using assms(1) by (auto simp: init_all_def split: prod.splits)
  have "set (map c_group cs') = set (map c_group (mg_collectors m))"
    by (simp only: init_loop_groups [OF i(1)])
  then have "c_group ` set cs' = c_group ` set (mg_collectors m)" by simp
  then have "\<forall>c\<in>set cs'. group_ok (c_group c)" using assms(2) by (metis imageE imageI)
  then show ?thesis using attach_loop_defined [of cs' env2 tp] i(2) by (simp add: attach_all_def)
qed

end
