(* ===== verification/Main_Live.thy ===== *)
theory Main_Live
  imports Attach_Props
begin

text \<open>
  The program ends: every step of a run returns, whatever the rings hold, as long as the producers
  have written finitely much.
\<close>

section \<open>Returning\<close>

definition returns :: "'a option \<Rightarrow> bool" where
  "returns x \<longleftrightarrow> x \<noteq> None"

lemma returns_simps [simp]:
  "returns (Some x)" "\<not> returns None" "returns (map_option f y) = returns y"
  "returns (if b then y else z) = (if b then returns y else returns z)"
  by (auto simp: returns_def)

lemma returns_case:
  "returns y \<Longrightarrow> (\<And>x. y = Some x \<Longrightarrow> returns (f x)) \<Longrightarrow> returns (case y of None \<Rightarrow> None | Some x \<Rightarrow> f x)"
  by (cases y) auto

section \<open>Draining a ring ends\<close>

text \<open>Every round moves the consumer by at least eight bytes, whatever the length word says.\<close>

lemma roundup_step:
  assumes "unat c < P" "P + 2 ^ 31 \<le> 2 ^ 64"
  shows "\<exists>k\<ge>1. unat (c + scast (roundup_len len) :: u64) = unat c + 8 * k"
proof -
  define k where "k = (unat len mod 2 ^ 30 + 15) div 8"
  have "unat len mod 2 ^ 30 < 2 ^ 30" by simp
  moreover have "8 * k \<le> unat len mod 2 ^ 30 + 15" by (simp add: k_def)
  ultimately have k: "1 \<le> k" "8 * k < 2 ^ 31" by (simp_all add: k_def less_eq_div_iff_mult_less_eq)
  have s: "(scast (roundup_len len) :: u64) = of_nat (8 * k)"
    by (simp add: roundup_len_scast k_def mult.commute)
  have "unat (of_nat (8 * k) :: u64) = 8 * k" using k(2) by (simp only: unat_of_nat) simp
  moreover have "unat c + 8 * k < 2 ^ 64" using assms k(2) by linarith
  ultimately have "unat (c + of_nat (8 * k) :: u64) = unat c + 8 * k"
    by (simp only: unat_word_ariths) simp
  then show ?thesis using k(1) s by metis
qed

text \<open>Rounds still needed: two for eight bytes before the producer, one to look again, one to stop.\<close>

definition rounds :: "nat \<Rightarrow> nat \<Rightarrow> bool \<Rightarrow> nat" where
  "rounds P c got = 2 * ((P - c + 7) div 8) + (if got then 1 else 0) + 1"

lemma rounds_step: "c < P \<Longrightarrow> 1 \<le> k \<Longrightarrow> rounds P (c + 8 * k) got' < rounds P c got"
proof -
  assume a: "c < P" "1 \<le> k"
  have "(P - (c + 8 * k) + 7) div 8 + 1 \<le> (P - c + 7) div 8"
  proof (cases "c + 8 * k \<le> P")
    case True
    then have "P - c + 7 = (P - (c + 8 * k) + 7) + 8 * k" by simp
    then have "(P - c + 7) div 8 = (P - (c + 8 * k) + 7) div 8 + k" by (simp only: div_mult_self2)
    then show ?thesis using a(2) by simp
  next
    case False
    then have "(P - (c + 8 * k) + 7) div 8 = 0" by simp
    moreover have "8 \<le> P - c + 7" using a(1) by simp
    then have "1 \<le> (P - c + 7) div 8" by (simp add: less_eq_div_iff_mult_less_eq)
    ultimately show ?thesis by simp
  qed
  then show ?thesis unfolding rounds_def by (simp only: if_split [of "\<lambda>n. _ + n + 1 < _"]) linarith
qed

lemma process_loop_ends:
  assumes "\<And>t. unat (rm_producer (mem t)) \<le> P" "P + 2 ^ 31 \<le> 2 ^ 64"
    and "unat pp \<le> P" "rounds P (unat c) got \<le> fuel"
  shows "returns (process_loop fuel mem n t c pp got cnt r s)"
  using assms(3,4)
proof (induction fuel arbitrary: t c pp got cnt r s)
  case 0
  then show ?case by (simp add: rounds_def)
next
  case (Suc fuel)
  show ?case
  proof (cases "c < pp")
    case True
    then have c: "unat c < P" using Suc.prems(1) by (simp add: word_less_nat_alt)
    have next': "returns (process_loop fuel mem n (Suc t) (c + scast (roundup_len len)) pp True cnt' r' s')"
      for len cnt' and r' :: "'a ring" and s'
    proof -
      obtain k where k: "1 \<le> k" "unat (c + scast (roundup_len len)) = unat c + 8 * k"
        using roundup_step [OF c assms(2)] by blast
      show ?thesis
        using rounds_step [OF c k(1), of True got] Suc.prems k(2) by (intro Suc.IH) simp_all
    qed
    show ?thesis
      using True next' by (simp add: process_loop.simps(2) Let_def split: prod.split)
  next
    case False
    then show ?thesis
      using Suc.prems(2) Suc.IH [of "rm_producer (mem t)" c False] assms(1)
      by (cases got) (simp_all add: process_loop.simps(2) rounds_def)
  qed
qed

lemma fuel_enough: "P div 4 + 4 \<le> fuel \<Longrightarrow> rounds P c False \<le> fuel"
proof -
  assume "P div 4 + 4 \<le> fuel"
  moreover have "(P - c + 7) div 8 \<le> (P + 7) div 8" by (rule div_le_mono) simp
  moreover have "2 * ((P + 7) div 8) \<le> P div 4 + 2" by linarith
  ultimately show ?thesis by (simp add: rounds_def)
qed

text \<open>What the loads of a drained ring may see.\<close>

definition finite_producer :: "nat \<Rightarrow> (nat \<Rightarrow> nat \<Rightarrow> ring_mem) \<Rightarrow> bool" where
  "finite_producer P mems \<longleftrightarrow> (\<forall>i t. unat (rm_producer (mems i t)) \<le> P)"

lemma consume_loop_ends:
  assumes "finite_producer P mems" "P + 2 ^ 31 \<le> 2 ^ 64" "P div 4 + 4 \<le> fuel"
  shows "returns (consume_loop fuel mems i res rs s)"
proof (induction rs arbitrary: i res s)
  case (Cons r rs)
  have "returns (ringbuf_process_ring fuel (mems i) (of_int INT_MAX) r s)"
    unfolding ringbuf_process_ring_def using assms fuel_enough
    by (intro process_loop_ends [of _ P]) (simp_all add: finite_producer_def)
  then show ?case
    using Cons.IH unfolding consume_loop.simps by (intro returns_case) (auto simp: Let_def split: prod.split)
qed simp

lemma poll_ends:
  assumes "finite_producer P mems" "P + 2 ^ 31 \<le> 2 ^ 64" "P div 4 + 4 \<le> fuel"
  shows "returns (collector_poll fuel mems c s)"
  using consume_loop_ends [OF assms]
  by (auto simp: collector_poll_def ring_buffer__consume_def split: option.split)

section \<open>The event loop ends\<close>

definition tick_ok :: "nat \<Rightarrow> nat list \<Rightarrow> tick \<Rightarrow> bool" where
  "tick_ok P reg t \<longleftrightarrow>
     (case t of
        Tick_ready evs \<Rightarrow> list_all (\<lambda>(i, mems). i \<in> set reg \<and> finite_producer P mems) evs
      | _ \<Rightarrow> True)"

lemma handle_event_ends:
  assumes "i \<in> set (mg_registered m)" "\<forall>i\<in>set (mg_registered m). i < length (mg_collectors m)"
    "finite_producer P mems" "P + 2 ^ 31 \<le> 2 ^ 64" "P div 4 + 4 \<le> fuel"
  shows "\<exists>m'. handle_collector_event fuel (i, mems) m = Some m' \<and> mg_registered m' = mg_registered m \<and>
    length (mg_collectors m') = length (mg_collectors m)"
proof -
  obtain n c s where "collector_poll fuel mems (mg_collectors m ! i) (mg_ctx m) = Some (n, c, s)"
    using poll_ends [OF assms(3-5)] by (metis returns_def not_None_eq prod_cases3)
  then show ?thesis using assms(1,2) by (auto simp: handle_collector_event_def)
qed

lemma handle_events_end:
  assumes "list_all (\<lambda>(i, mems). i \<in> set (mg_registered m) \<and> finite_producer P mems) evs"
    "\<forall>i\<in>set (mg_registered m). i < length (mg_collectors m)" "P + 2 ^ 31 \<le> 2 ^ 64" "P div 4 + 4 \<le> fuel"
  shows "\<exists>m'. fold_opt (handle_collector_event fuel) evs m = Some m' \<and> mg_registered m' = mg_registered m \<and>
    length (mg_collectors m') = length (mg_collectors m)"
  using assms(1,2)
proof (induction evs arbitrary: m)
  case (Cons ev evs)
  obtain i mems where ev: "ev = (i, mems)" by (cases ev)
  obtain m' where m': "handle_collector_event fuel ev m = Some m'" "mg_registered m' = mg_registered m"
      "length (mg_collectors m') = length (mg_collectors m)"
    using handle_event_ends [of i m P mems fuel] Cons.prems assms(3,4) ev by auto
  then show ?case using Cons.IH [of m'] Cons.prems by auto
qed simp

lemma event_loop_ends:
  assumes "list_all (tick_ok P (mg_registered m)) ts"
    "\<forall>i\<in>set (mg_registered m). i < length (mg_collectors m)" "P + 2 ^ 31 \<le> 2 ^ 64" "P div 4 + 4 \<le> fuel"
  shows "event_loop fuel ts m \<noteq> None"
  using assms(1,2)
proof (induction ts arbitrary: m)
  case (Cons t ts)
  show ?case
  proof (cases t)
    case (Tick_ready evs)
    obtain m' where "fold_opt (handle_collector_event fuel) evs m = Some m'" "mg_registered m' = mg_registered m"
        "length (mg_collectors m') = length (mg_collectors m)"
      using handle_events_end [of m P evs fuel] Cons.prems assms(3,4) Tick_ready by (auto simp: tick_ok_def)
    then show ?thesis using Cons.IH [of m'] Cons.prems Tick_ready by simp
  qed (use Cons in \<open>simp_all\<close>)
qed simp

lemma run_loop_ends:
  assumes "list_all (tick_ok P (register_collectors ctl (mg_collectors m))) ts"
    "P + 2 ^ 31 \<le> 2 ^ 64" "P div 4 + 4 \<le> fuel"
  shows "run_loop fuel epfd ctl ts m \<noteq> None"
proof (cases epfd)
  case (Some fd)
  have "\<forall>i\<in>set (register_collectors ctl (mg_collectors m)). i < length (mg_collectors m)"
    by (simp add: register_collectors_def)
  then show ?thesis
    using event_loop_ends [OF _ _ assms(2,3)] assms(1) Some by (simp add: run_loop_def Let_def)
qed (simp add: run_loop_def)

section \<open>The whole run\<close>

text \<open>What is asked of the ticks once the collectors are attached.\<close>

definition ticks_ok :: "nat \<Rightarrow> (char \<times> string) list \<Rightarrow> main_env \<Rightarrow> file_group list \<Rightarrow> world \<Rightarrow> bool" where
  "ticks_ok P args env groups w \<longleftrightarrow>
     (\<forall>opts n m1 m2. parse_options args default_options = Inr opts \<longrightarrow>
        init_all (me_bpf env) (wire opts env groups w) = (n, m1) \<longrightarrow>
        attach_all (me_bpf env) (o_target_pid opts) m1 = Some m2 \<longrightarrow>
        list_all (tick_ok P (register_collectors (me_epoll_ctl env) (mg_collectors m2))) (me_ticks env))"

lemma run_main_returns:
  assumes "\<forall>g\<in>set groups. group_ok g" "ticks_ok P args env groups w"
    "P + 2 ^ 31 \<le> 2 ^ 64" "P div 4 + 4 \<le> me_fuel env"
  shows "\<exists>code m. run_main args env groups w = Some (code, m) \<and> \<not> mg_running m"
proof (cases "parse_options args default_options")
  case (Inl code)
  then show ?thesis by (simp add: run_main_def manager_new_def)
next
  case (Inr opts)
  obtain n m1 where i: "init_all (me_bpf env) (wire opts env groups w) = (n, m1)"
    by (cases "init_all (me_bpf env) (wire opts env groups w)")
  have "\<forall>c\<in>set (mg_collectors (wire opts env groups w)). group_ok (c_group c)"
    using assms(1) by (auto simp: wire_parts select_groups_def collector_new_def)
  then obtain m2 where a: "attach_all (me_bpf env) (o_target_pid opts) m1 = Some m2"
    using attach_after_init [OF i] by blast
  have "list_all (tick_ok P (register_collectors (me_epoll_ctl env) (mg_collectors m2))) (me_ticks env)"
    using assms(2) Inr i a by (simp add: ticks_ok_def)
  then obtain m3 where l: "run_loop (me_fuel env) (me_epoll env) (me_epoll_ctl env) (me_ticks env) m2 = Some m3"
    using run_loop_ends [OF _ assms(3,4)] by blast
  have "\<not> mg_running (shutdown m)" for m by (simp add: shutdown_def Let_def)
  then show ?thesis using Inr i a l by (simp add: run_main_def)
qed

end
