(* ===== verification/Hashmap.thy ===== *)
theory Hashmap
  imports Prelude "HOL-Library.Multiset"
begin

text \<open>
  \<open>lib/libbpf/src/hashmap.c\<close> and \<open>hashmap.h\<close>: a chained hash table with a power-of-two
  number of buckets, polymorphic in key, value, hash and equality function. A chain is the list
  of its entries from the bucket pointer on; the null bucket array is the empty list. Counts
  are natural numbers (they count objects in memory). The allocator's answers are arguments.
\<close>

section \<open>Model\<close>

definition HASHMAP_MIN_CAP_BITS :: nat where "HASHMAP_MIN_CAP_BITS = 2"

definition hash_bits :: "u64 \<Rightarrow> nat \<Rightarrow> u64" where
  "hash_bits h bits = (if bits = 0 then 0 else drop_bit (64 - bits) (h * 11400714819323198485))"

definition str_hash :: "byte list \<Rightarrow> u64" where
  "str_hash s = fold (\<lambda>c h. h * 31 + scast c) s 0"

record ('k, 'v) hashmap =
  hm_buckets :: "('k \<times> 'v) list list"
  hm_cap :: nat
  hm_cap_bits :: nat
  hm_sz :: nat

datatype insert_strategy = HASHMAP_ADD | HASHMAP_SET | HASHMAP_UPDATE | HASHMAP_APPEND

definition hashmap__init :: "('k, 'v) hashmap" where
  "hashmap__init = \<lparr>hm_buckets = [], hm_cap = 0, hm_cap_bits = 0, hm_sz = 0\<rparr>"

definition hashmap__new :: "bool \<Rightarrow> int + ('k, 'v) hashmap" where
  "hashmap__new alloc_ok = (if alloc_ok then Inr hashmap__init else Inl ENOMEM)"

definition hashmap__clear :: "('k, 'v) hashmap \<Rightarrow> ('k, 'v) hashmap" where
  "hashmap__clear m = m\<lparr>hm_buckets := [], hm_cap := 0, hm_cap_bits := 0, hm_sz := 0\<rparr>"

definition hashmap__size :: "('k, 'v) hashmap \<Rightarrow> nat" where
  "hashmap__size m = hm_sz m"

definition hashmap__capacity :: "('k, 'v) hashmap \<Rightarrow> nat" where
  "hashmap__capacity m = hm_cap m"

definition hashmap_add_entry :: "nat \<Rightarrow> 'k \<times> 'v \<Rightarrow> ('k \<times> 'v) list list \<Rightarrow> ('k \<times> 'v) list list" where
  "hashmap_add_entry b e bs = bs[b := e # bs ! b]"

definition hashmap_needs_to_grow :: "('k, 'v) hashmap \<Rightarrow> bool" where
  "hashmap_needs_to_grow m \<longleftrightarrow> hm_cap m = 0 \<or> (hm_sz m + 1) * 4 div 3 > hm_cap m"

text \<open>Entries move in bucket order, each chain from its head, each to the head of its new chain.\<close>

definition hashmap_grow :: "('k \<Rightarrow> u64) \<Rightarrow> bool \<Rightarrow> ('k, 'v) hashmap \<Rightarrow> int \<times> ('k, 'v) hashmap" where
  "hashmap_grow hash alloc_ok m =
     (let new_cap_bits = hm_cap_bits m + 1;
          new_cap_bits = (if new_cap_bits < HASHMAP_MIN_CAP_BITS then HASHMAP_MIN_CAP_BITS
                          else new_cap_bits);
          new_cap = 2 ^ new_cap_bits
      in if \<not> alloc_ok then (- ENOMEM, m)
         else
           let bs = fold (\<lambda>e. hashmap_add_entry (unat (hash_bits (hash (fst e)) new_cap_bits)) e)
                      (concat (hm_buckets m)) (replicate new_cap [])
           in (0, m\<lparr>hm_cap := new_cap, hm_cap_bits := new_cap_bits, hm_buckets := bs\<rparr>))"

fun chain_find :: "('k \<Rightarrow> 'k \<Rightarrow> bool) \<Rightarrow> 'k \<Rightarrow> ('k \<times> 'v) list \<Rightarrow> (nat \<times> 'k \<times> 'v) option" where
  "chain_find eq k [] = None"
| "chain_find eq k (e # es) =
     (if eq (fst e) k then Some (0, e)
      else map_option (\<lambda>(i, e). (Suc i, e)) (chain_find eq k es))"

definition hashmap_find_entry ::
    "('k \<Rightarrow> 'k \<Rightarrow> bool) \<Rightarrow> ('k, 'v) hashmap \<Rightarrow> 'k \<Rightarrow> nat \<Rightarrow> (nat \<times> 'k \<times> 'v) option" where
  "hashmap_find_entry eq m k h =
     (if hm_buckets m = [] then None else chain_find eq k (hm_buckets m ! h))"

definition bucket_of :: "('k \<Rightarrow> u64) \<Rightarrow> ('k, 'v) hashmap \<Rightarrow> 'k \<Rightarrow> nat" where
  "bucket_of hash m k = unat (hash_bits (hash k) (hm_cap_bits m))"

text \<open>
  \<open>hashmap_insert\<close>: the result code, the old entry reported through \<open>old_key\<close> and
  \<open>old_value\<close>, and the map. \<open>grow_ok\<close> and \<open>entry_ok\<close> are the allocator's answers.
\<close>

definition hashmap_insert ::
    "('k \<Rightarrow> u64) \<Rightarrow> ('k \<Rightarrow> 'k \<Rightarrow> bool) \<Rightarrow> bool \<Rightarrow> bool \<Rightarrow> ('k, 'v) hashmap \<Rightarrow> 'k \<Rightarrow> 'v \<Rightarrow>
     insert_strategy \<Rightarrow> int \<times> ('k \<times> 'v) option \<times> ('k, 'v) hashmap" where
  "hashmap_insert hash eq grow_ok entry_ok m k v strat =
     (let h = bucket_of hash m k;
          found = (if strat = HASHMAP_APPEND then None else hashmap_find_entry eq m k h);
          old = map_option snd found;
          fresh =
            (if strat = HASHMAP_UPDATE then (- ENOENT, old, m)
             else
               let (err, m) = (if hashmap_needs_to_grow m then hashmap_grow hash grow_ok m else (0, m))
               in if err \<noteq> 0 then (err, old, m)
                  else if \<not> entry_ok then (- ENOMEM, old, m)
                  else (0, old, m\<lparr>hm_buckets := hashmap_add_entry (bucket_of hash m k) (k, v)
                                                  (hm_buckets m),
                                  hm_sz := hm_sz m + 1\<rparr>))
      in case found of
           None \<Rightarrow> fresh
         | Some (i, _) \<Rightarrow>
             if strat = HASHMAP_SET \<or> strat = HASHMAP_UPDATE
             then (0, old, m\<lparr>hm_buckets := (hm_buckets m)[h := (hm_buckets m ! h)[i := (k, v)]]\<rparr>)
             else if strat = HASHMAP_ADD then (- EEXIST, old, m)
             else fresh)"

definition hashmap_find ::
    "('k \<Rightarrow> u64) \<Rightarrow> ('k \<Rightarrow> 'k \<Rightarrow> bool) \<Rightarrow> ('k, 'v) hashmap \<Rightarrow> 'k \<Rightarrow> 'v option" where
  "hashmap_find hash eq m k =
     map_option (\<lambda>(_, _, v). v) (hashmap_find_entry eq m k (bucket_of hash m k))"

definition remove_nth :: "nat \<Rightarrow> 'a list \<Rightarrow> 'a list" where
  "remove_nth i xs = take i xs @ drop (Suc i) xs"

definition hashmap_delete ::
    "('k \<Rightarrow> u64) \<Rightarrow> ('k \<Rightarrow> 'k \<Rightarrow> bool) \<Rightarrow> ('k, 'v) hashmap \<Rightarrow> 'k \<Rightarrow>
     (('k \<times> 'v) option) \<times> ('k, 'v) hashmap" where
  "hashmap_delete hash eq m k =
     (let h = bucket_of hash m k
      in case hashmap_find_entry eq m k h of
           None \<Rightarrow> (None, m)
         | Some (i, e) \<Rightarrow>
             (Some e, m\<lparr>hm_buckets := (hm_buckets m)[h := remove_nth i (hm_buckets m ! h)],
                        hm_sz := hm_sz m - 1\<rparr>))"

section \<open>Shape\<close>

definition entries :: "('k, 'v) hashmap \<Rightarrow> ('k \<times> 'v) multiset" where
  "entries m = mset (concat (hm_buckets m))"

definition placed :: "('k \<Rightarrow> u64) \<Rightarrow> nat \<Rightarrow> ('k \<times> 'v) list list \<Rightarrow> bool" where
  "placed hash b bs \<longleftrightarrow> (\<forall>i<2 ^ b. \<forall>e\<in>set (bs ! i). unat (hash_bits (hash (fst e)) b) = i)"

text \<open>The shape invariant holds for every hash and equality function.\<close>

definition hm_shape :: "('k \<Rightarrow> u64) \<Rightarrow> ('k, 'v) hashmap \<Rightarrow> bool" where
  "hm_shape hash m \<longleftrightarrow>
     length (hm_buckets m) = hm_cap m \<and>
     (hm_cap m = 0 \<and> hm_cap_bits m = 0 \<or> hm_cap m = 2 ^ hm_cap_bits m \<and> 2 \<le> hm_cap_bits m) \<and>
     hm_cap_bits m \<le> 64 \<and> hm_sz m = size (entries m) \<and>
     (hm_cap m \<noteq> 0 \<longrightarrow> placed hash (hm_cap_bits m) (hm_buckets m))"

lemma hash_bits_less: "b \<le> 64 \<Longrightarrow> unat (hash_bits h b) < 2 ^ b"
proof (cases "b = 0")
  case False
  assume b: "b \<le> 64"
  define x where "x = h * 11400714819323198485"
  have "unat (drop_bit (64 - b) x) = unat x div 2 ^ (64 - b)"
    using unat_bound [of x]
    by (simp only: unsigned_drop_bit_eq) (simp add: drop_bit_eq_div take_bit_eq_mod)
  moreover have "unat x < 2 ^ b * 2 ^ (64 - b)"
    using unat_bound [of x] b by (simp flip: power_add)
  ultimately show ?thesis using False by (simp add: hash_bits_def x_def less_mult_imp_div_less)
qed (simp add: hash_bits_def)

lemma bucket_less: "hm_shape hash m \<Longrightarrow> hm_cap m \<noteq> 0 \<Longrightarrow> bucket_of hash m k < hm_cap m"
  by (auto simp: hm_shape_def bucket_of_def hash_bits_less)

lemma mset_concat_update:
  "i < length bs \<Longrightarrow> mset (concat (bs[i := b])) + mset (bs ! i) = mset (concat bs) + mset b"
proof (induction bs arbitrary: i)
  case (Cons a bs)
  then show ?case by (cases i) (auto simp: ac_simps)
qed simp

lemma mset_add_entry: "b < length bs \<Longrightarrow> mset (concat (hashmap_add_entry b e bs)) = add_mset e (mset (concat bs))"
  using mset_concat_update [of b bs "e # bs ! b"] by (simp add: hashmap_add_entry_def)

lemma placed_add_entry:
  assumes "b \<le> 64" "length bs = 2 ^ b" "placed hash b bs"
  shows "placed hash b (hashmap_add_entry (unat (hash_bits (hash (fst e)) b)) e bs)"
  unfolding placed_def
proof (intro allI impI ballI)
  fix i e'
  assume i: "i < 2 ^ b"
    and e': "e' \<in> set (hashmap_add_entry (unat (hash_bits (hash (fst e)) b)) e bs ! i)"
  show "unat (hash_bits (hash (fst e')) b) = i"
  proof (cases "i = unat (hash_bits (hash (fst e)) b)")
    case True
    with e' i assms(2) have "e' = e \<or> e' \<in> set (bs ! i)" by (auto simp: hashmap_add_entry_def)
    with True i assms(3) show ?thesis unfolding placed_def by blast
  next
    case False
    with e' have "e' \<in> set (bs ! i)" by (simp add: hashmap_add_entry_def)
    with i assms(3) show ?thesis unfolding placed_def by blast
  qed
qed

lemma grow_fold:
  assumes "b \<le> 64" "length bs = 2 ^ b" "placed hash b bs"
  defines "put \<equiv> \<lambda>e. hashmap_add_entry (unat (hash_bits (hash (fst e)) b)) e"
  shows "length (fold put es bs) = 2 ^ b \<and>
    mset (concat (fold put es bs)) = mset es + mset (concat bs) \<and> placed hash b (fold put es bs)"
  using assms(2,3)
proof (induction es arbitrary: bs)
  case (Cons e es)
  have l: "length (put e bs) = 2 ^ b" using Cons.prems(1) by (simp add: put_def hashmap_add_entry_def)
  have "unat (hash_bits (hash (fst e)) b) < length bs"
    using Cons.prems(1) hash_bits_less [OF assms(1)] by simp
  then have m: "mset (concat (put e bs)) = add_mset e (mset (concat bs))"
    by (simp only: put_def mset_add_entry)
  have p: "placed hash b (put e bs)"
    unfolding put_def using assms(1) Cons.prems by (rule placed_add_entry)
  show ?case
    using Cons.IH [OF l p] unfolding m by simp
qed simp

lemma grow_shape:
  assumes "hashmap_grow hash ok m = (err, m')" "hm_shape hash m" "hm_cap_bits m < 64"
  shows "if ok then err = 0 \<and> hm_shape hash m' \<and> entries m' = entries m \<and> hm_sz m' = hm_sz m \<and>
           hm_cap m' = (if hm_cap m = 0 then 4 else 2 * hm_cap m)
         else err = - ENOMEM \<and> m' = m"
proof (cases ok)
  case True
  define b where "b = (if hm_cap_bits m + 1 < HASHMAP_MIN_CAP_BITS then HASHMAP_MIN_CAP_BITS
    else hm_cap_bits m + 1)"
  have b: "b \<le> 64" "2 \<le> b" using assms(3) by (auto simp: b_def HASHMAP_MIN_CAP_BITS_def)
  define bs where "bs = fold (\<lambda>e. hashmap_add_entry (unat (hash_bits (hash (fst e)) b)) e)
    (concat (hm_buckets m)) (replicate (2 ^ b) [])"
  have f: "length bs = 2 ^ b" "mset (concat bs) = entries m"
    "placed hash b bs"
    using grow_fold [OF b(1), of "replicate (2 ^ b) []" hash "concat (hm_buckets m)"]
    by (simp_all add: bs_def entries_def placed_def)
  have r: "err = 0" "m' = m\<lparr>hm_cap := 2 ^ b, hm_cap_bits := b, hm_buckets := bs\<rparr>"
    using assms(1) True by (auto simp: hashmap_grow_def Let_def b_def bs_def)
  have e: "entries m' = entries m" using f(2) by (simp add: entries_def r(2))
  have "hm_shape hash m'"
    unfolding hm_shape_def e using f(1,3) b assms(2) by (simp add: r(2) bucket_of_def hm_shape_def)
  moreover have "(2 :: nat) ^ b = (if hm_cap m = 0 then 4 else 2 * hm_cap m)"
    using assms(2) by (auto simp: b_def hm_shape_def HASHMAP_MIN_CAP_BITS_def)
  ultimately show ?thesis using True r e by simp
next
  case False
  then show ?thesis using assms(1) by (auto simp: hashmap_grow_def Let_def)
qed

end
