(* ===== verification/Hashmap_Props.thy ===== *)
theory Hashmap_Props
  imports Hashmap
begin

text \<open>
  The hash table against its specification, a partial map up to the table's equality
  function. The contract between a hash function and an equality function is a locale; within
  it every operation is shown to keep the table's invariant and to implement its
  specification, whatever the allocator answers.
\<close>

lemma chain_find_some:
  "chain_find eq k es = Some (i, e) \<Longrightarrow> i < length es \<and> es ! i = e \<and> eq (fst e) k"
  by (induction es arbitrary: i) (auto split: if_splits)

lemma chain_find_none: "chain_find eq k es = None \<longleftrightarrow> (\<forall>e\<in>set es. \<not> eq (fst e) k)"
  by (induction es) auto

lemma mset_update_nth: "i < length xs \<Longrightarrow> add_mset (xs ! i) (mset (xs[i := x])) = add_mset x (mset xs)"
  by (simp add: mset_update)

lemma mset_remove_nth: "i < length xs \<Longrightarrow> add_mset (xs ! i) (mset (remove_nth i xs)) = mset xs"
  by (subst (3) id_take_nth_drop [of i xs]) (simp_all add: remove_nth_def)

lemma set_remove_nth: "set (remove_nth i xs) \<subseteq> set xs"
  using set_take_subset [of i xs] set_drop_subset [of "Suc i" xs] by (auto simp: remove_nth_def)

text \<open>Replacing a chain in place keeps the shape.\<close>

lemma shape_replace_chain:
  assumes "hm_shape hash m" "hm_cap m \<noteq> 0" "h < hm_cap m"
    and "\<forall>e\<in>set es. bucket_of hash m (fst e) = h" "n = size (mset (concat ((hm_buckets m)[h := es])))"
  shows "hm_shape hash (m\<lparr>hm_buckets := (hm_buckets m)[h := es], hm_sz := n\<rparr>)"
proof -
  have "placed hash (hm_cap_bits m) ((hm_buckets m)[h := es])"
    using assms by (auto simp: hm_shape_def placed_def bucket_of_def nth_list_update)
  then show ?thesis using assms by (auto simp: hm_shape_def entries_def)
qed

lemma entries_replace_chain:
  "h < length (hm_buckets m) \<Longrightarrow>
     entries (m\<lparr>hm_buckets := (hm_buckets m)[h := es], hm_sz := n\<rparr>) + mset (hm_buckets m ! h) =
     entries m + mset es"
  unfolding entries_def using mset_concat_update [of h "hm_buckets m" es] by simp

lemma chain_in_entries: "h < length (hm_buckets m) \<Longrightarrow> e \<in> set (hm_buckets m ! h) \<Longrightarrow> e \<in># entries m"
  by (auto simp: entries_def)

locale hash_laws =
  fixes hash :: "'k \<Rightarrow> u64"
    and eq :: "'k \<Rightarrow> 'k \<Rightarrow> bool"
  assumes eq_refl: "eq k k"
    and eq_sym: "eq k l \<Longrightarrow> eq l k"
    and eq_trans: "eq k l \<Longrightarrow> eq l n \<Longrightarrow> eq k n"
    and eq_hash: "eq k l \<Longrightarrow> hash k = hash l"
begin

abbreviation lookup :: "('k, 'v) hashmap \<Rightarrow> 'k \<Rightarrow> 'v option" where
  "lookup \<equiv> hashmap_find hash eq"

definition uniq :: "('k \<times> 'v) multiset \<Rightarrow> bool" where
  "uniq E \<longleftrightarrow> (\<forall>k. size (filter_mset (\<lambda>e. eq (fst e) k) E) \<le> 1)"

definition hm_inv :: "('k, 'v) hashmap \<Rightarrow> bool" where
  "hm_inv m \<longleftrightarrow> hm_shape hash m \<and> uniq (entries m)"

lemma inv_init: "hm_inv hashmap__init"
  by (simp add: hm_inv_def hm_shape_def uniq_def hashmap__init_def entries_def)

lemma uniq_same:
  assumes "uniq E" "(k1, v1) \<in># E" "(k2, v2) \<in># E" "eq k1 k" "eq k2 k"
  shows "(k1, v1) = (k2, v2)"
proof (rule ccontr)
  assume ne: "(k1, v1) \<noteq> (k2, v2)"
  define F where "F = filter_mset (\<lambda>e. eq (fst e) k) E"
  have m: "(k1, v1) \<in># F" "(k2, v2) \<in># F - {#(k1, v1)#}"
    using assms ne by (auto simp: F_def in_diff_count)
  then have "size F = Suc (Suc (size (F - {#(k1, v1)#} - {#(k2, v2)#})))"
    by (metis size_Suc_Diff1)
  then show False using assms(1) unfolding uniq_def F_def by (metis not_less_eq_eq le0 One_nat_def)
qed

lemma entry_chain:
  assumes "hm_shape hash m" "(k', v) \<in># entries m" "eq k' k"
  shows "hm_cap m \<noteq> 0 \<and> (k', v) \<in> set (hm_buckets m ! bucket_of hash m k)"
proof -
  obtain i where i: "i < length (hm_buckets m)" "(k', v) \<in> set (hm_buckets m ! i)"
    using assms(2) by (auto simp: entries_def in_set_conv_nth [of _ "hm_buckets m"])
  then have c: "hm_cap m \<noteq> 0" using assms(1) by (auto simp: hm_shape_def)
  then have "placed hash (hm_cap_bits m) (hm_buckets m)" "i < 2 ^ hm_cap_bits m"
    using assms(1) i(1) by (auto simp: hm_shape_def)
  then have "bucket_of hash m k' = i" using i(2) by (fastforce simp: placed_def bucket_of_def)
  then show ?thesis using i(2) c eq_hash [OF assms(3)] by (simp add: bucket_of_def)
qed

lemma find_entry_some:
  assumes "hm_shape hash m" "hashmap_find_entry eq m k (bucket_of hash m k) = Some (i, e)"
  shows "hm_cap m \<noteq> 0" "bucket_of hash m k < length (hm_buckets m)"
    "i < length (hm_buckets m ! bucket_of hash m k)" "hm_buckets m ! bucket_of hash m k ! i = e"
    "eq (fst e) k" "e \<in># entries m"
proof -
  from assms(2) have ne: "hm_buckets m \<noteq> []"
    and f: "chain_find eq k (hm_buckets m ! bucket_of hash m k) = Some (i, e)"
    by (auto simp: hashmap_find_entry_def split: if_splits)
  show c: "hm_cap m \<noteq> 0" using ne assms(1) by (auto simp: hm_shape_def)
  show b: "bucket_of hash m k < length (hm_buckets m)"
    using bucket_less [OF assms(1) c] assms(1) by (simp add: hm_shape_def)
  show l: "i < length (hm_buckets m ! bucket_of hash m k)"
    "hm_buckets m ! bucket_of hash m k ! i = e" "eq (fst e) k"
    using chain_find_some [OF f] by auto
  show "e \<in># entries m" using chain_in_entries [OF b] l by (metis nth_mem)
qed

lemma find_entry_none:
  assumes "hm_shape hash m" "hashmap_find_entry eq m k (bucket_of hash m k) = None"
    and "(k', v) \<in># entries m"
  shows "\<not> eq k' k"
proof
  assume "eq k' k"
  note c = entry_chain [OF assms(1,3) this]
  have "hm_buckets m \<noteq> []" using c assms(1) by (auto simp: hm_shape_def)
  then have "chain_find eq k (hm_buckets m ! bucket_of hash m k) = None"
    using assms(2) by (simp add: hashmap_find_entry_def)
  then show False using c \<open>eq k' k\<close> by (auto simp: chain_find_none)
qed

lemma lookup_iff:
  assumes "hm_inv m"
  shows "lookup m k = Some v \<longleftrightarrow> (\<exists>k'. (k', v) \<in># entries m \<and> eq k' k)"
proof -
  have sh: "hm_shape hash m" and u: "uniq (entries m)" using assms by (auto simp: hm_inv_def)
  show ?thesis
  proof (cases "hashmap_find_entry eq m k (bucket_of hash m k)")
    case None
    then show ?thesis using find_entry_none [OF sh None] by (auto simp: hashmap_find_def)
  next
    case (Some p)
    obtain i k0 v0 where p: "p = (i, k0, v0)" by (cases p)
    note f = find_entry_some [OF sh Some [unfolded p]]
    have "lookup m k = Some v0" using Some p by (simp add: hashmap_find_def)
    moreover have "v = v0" if "(k', v) \<in># entries m" "eq k' k" for k'
      using uniq_same [OF u that(1) f(6) that(2)] f(5) by simp
    ultimately show ?thesis using f(5,6) by auto
  qed
qed

lemma lookup_eqI:
  assumes "hm_inv m" "\<And>k v. (\<exists>k'. (k', v) \<in># entries m \<and> eq k' k) \<longleftrightarrow> f k = Some v"
  shows "lookup m = f"
proof
  fix k
  show "lookup m k = f k"
    using lookup_iff [OF assms(1)] assms(2) by (metis not_None_eq option.collapse)
qed

lemma lookup_none_iff: "hm_inv m \<Longrightarrow> lookup m k = None \<longleftrightarrow> (\<forall>k' v. (k', v) \<in># entries m \<longrightarrow> \<not> eq k' k)"
  using lookup_iff [of m k] by (metis not_None_eq)

lemma uniq_add:
  assumes "uniq E" "\<And>k' v'. (k', v') \<in># E \<Longrightarrow> \<not> eq k' k"
  shows "uniq (add_mset (k, v) E)"
  unfolding uniq_def
proof
  fix l
  show "size (filter_mset (\<lambda>e. eq (fst e) l) (add_mset (k, v) E)) \<le> 1"
  proof (cases "eq k l")
    case True
    then have f: "filter_mset (\<lambda>e. eq (fst e) l) E = {#}"
      using assms(2) by auto (meson eq_sym eq_trans)
    show ?thesis by (simp add: f)
  next
    case False
    then show ?thesis using assms(1) by (simp add: uniq_def)
  qed
qed

lemma uniq_remove: "uniq (add_mset e E) \<Longrightarrow> uniq E"
  unfolding uniq_def
  by (metis (no_types) filter_mset_add_mset le_Suc_eq le_trans size_add_mset nat_le_linear not_less_eq_eq)

text \<open>What the table becomes in each of the three ways an operation changes it.\<close>

lemma inv_add:
  assumes "hm_inv m" "hm_cap m \<noteq> 0" "\<And>k' v'. (k', v') \<in># entries m \<Longrightarrow> \<not> eq k' k"
    and "m' = m\<lparr>hm_buckets := hashmap_add_entry (bucket_of hash m k) (k, v) (hm_buckets m),
                 hm_sz := hm_sz m + 1\<rparr>"
  shows "hm_inv m' \<and> entries m' = add_mset (k, v) (entries m)"
proof -
  have sh: "hm_shape hash m" using assms(1) by (simp add: hm_inv_def)
  have b: "bucket_of hash m k < hm_cap m" using bucket_less [OF sh assms(2)] .
  then have bl: "bucket_of hash m k < length (hm_buckets m)" using sh by (simp add: hm_shape_def)
  have e: "entries m' = add_mset (k, v) (entries m)"
    using mset_add_entry [OF bl] by (simp add: assms(4) entries_def)
  have "placed hash (hm_cap_bits m) (hm_buckets m')"
    using placed_add_entry [of "hm_cap_bits m" "hm_buckets m" hash "(k, v)"] sh assms(2)
    by (auto simp: assms(4) hm_shape_def bucket_of_def)
  then have "hm_shape hash m'"
    using sh e by (auto simp: hm_shape_def assms(4) hashmap_add_entry_def)
  then show ?thesis using e assms(1,3) by (auto simp: hm_inv_def intro: uniq_add)
qed

lemma inv_set:
  assumes "hm_inv m" "hashmap_find_entry eq m k (bucket_of hash m k) = Some (i, e)"
    and "m' = m\<lparr>hm_buckets := (hm_buckets m)[bucket_of hash m k :=
                                (hm_buckets m ! bucket_of hash m k)[i := (k, v)]]\<rparr>"
  shows "hm_inv m' \<and> add_mset e (entries m') = add_mset (k, v) (entries m)"
proof -
  define h es where "h = bucket_of hash m k" and "es = (hm_buckets m ! h)[i := (k, v)]"
  have sh: "hm_shape hash m" using assms(1) by (simp add: hm_inv_def)
  note f = find_entry_some [OF sh assms(2), folded h_def]
  have m': "m' = m\<lparr>hm_buckets := (hm_buckets m)[h := es], hm_sz := hm_sz m\<rparr>"
    by (simp add: assms(3) h_def es_def)
  have es: "add_mset e (mset es) = add_mset (k, v) (mset (hm_buckets m ! h))"
    using mset_update_nth [OF f(3)] f(4) by (simp add: es_def)
  have "entries m' + mset (hm_buckets m ! h) = entries m + mset es"
    unfolding m' by (rule entries_replace_chain [OF f(2)])
  then have E: "add_mset e (entries m') = add_mset (k, v) (entries m)"
    using es by (metis add_right_cancel union_mset_add_mset_left union_mset_add_mset_right)
  have sz: "size (entries m') = size (entries m)"
    using arg_cong [OF E, of size] by simp
  have "h < hm_cap m" using f(2) sh by (simp add: hm_shape_def)
  moreover have "\<forall>x\<in>set es. bucket_of hash m (fst x) = h"
  proof
    fix x
    assume "x \<in> set es"
    then have "x = (k, v) \<or> x \<in> set (hm_buckets m ! h)"
      using set_update_subset_insert [of "hm_buckets m ! h" i "(k, v)"] by (auto simp: es_def)
    then show "bucket_of hash m (fst x) = h"
      using sh f(1) \<open>h < hm_cap m\<close> by (auto simp: h_def hm_shape_def placed_def bucket_of_def)
  qed
  ultimately have "hm_shape hash m'"
    unfolding m' using sh sz f(1)
    by (intro shape_replace_chain) (auto simp: hm_shape_def m' entries_def)
  moreover have "uniq (entries m')"
  proof -
    obtain E0 where E0: "entries m = add_mset e E0" using f(6) by (metis multi_member_split)
    then have Em': "entries m' = add_mset (k, v) E0" using E by (simp add: add_mset_commute)
    have "\<not> eq k' k" if "(k', v') \<in># E0" for k' v'
    proof
      assume "eq k' k"
      have u: "uniq (entries m)" using assms(1) by (simp add: hm_inv_def)
      have "size (filter_mset (\<lambda>x. eq (fst x) k) (entries m)) \<le> 1" using u by (simp add: uniq_def)
      moreover have "filter_mset (\<lambda>x. eq (fst x) k) E0 \<noteq> {#}"
        using that \<open>eq k' k\<close> by auto
      ultimately show False using f(5) by (simp add: E0)
    qed
    moreover have "uniq E0" using assms(1) uniq_remove [of e E0] E0 by (simp add: hm_inv_def)
    ultimately show ?thesis unfolding Em' by (intro uniq_add)
  qed
  ultimately show ?thesis using E by (simp add: hm_inv_def)
qed

lemma inv_remove:
  assumes "hm_inv m" "hashmap_find_entry eq m k (bucket_of hash m k) = Some (i, e)"
    and "m' = m\<lparr>hm_buckets := (hm_buckets m)[bucket_of hash m k :=
                                remove_nth i (hm_buckets m ! bucket_of hash m k)],
                 hm_sz := hm_sz m - 1\<rparr>"
  shows "hm_inv m' \<and> add_mset e (entries m') = entries m"
proof -
  define h es where "h = bucket_of hash m k" and "es = remove_nth i (hm_buckets m ! h)"
  have sh: "hm_shape hash m" using assms(1) by (simp add: hm_inv_def)
  note f = find_entry_some [OF sh assms(2), folded h_def]
  have m': "m' = m\<lparr>hm_buckets := (hm_buckets m)[h := es], hm_sz := hm_sz m - 1\<rparr>"
    by (simp add: assms(3) h_def es_def)
  have es: "add_mset e (mset es) = mset (hm_buckets m ! h)"
    using mset_remove_nth [OF f(3)] f(4) by (simp add: es_def)
  have "entries m' + mset (hm_buckets m ! h) = entries m + mset es"
    unfolding m' by (rule entries_replace_chain [OF f(2)])
  then have E: "add_mset e (entries m') = entries m"
    using es by (metis add_right_cancel union_mset_add_mset_left union_mset_add_mset_right)
  have sz: "hm_sz m - 1 = size (entries m')"
    using arg_cong [OF E, of size] sh by (simp add: hm_shape_def)
  have hc: "h < hm_cap m" using f(2) sh by (simp add: hm_shape_def)
  then have "\<forall>x\<in>set es. bucket_of hash m (fst x) = h"
    using sh f(1) set_remove_nth [of i "hm_buckets m ! h"]
    by (auto simp: es_def hm_shape_def placed_def bucket_of_def)
  then have "hm_shape hash m'"
    unfolding m' using sh sz f(1) hc
    by (intro shape_replace_chain) (auto simp: m' entries_def)
  then show ?thesis using E uniq_remove assms(1) by (metis hm_inv_def)
qed

text \<open>Growing keeps the contents; it only fails for want of memory.\<close>

lemma inv_grow:
  assumes "hashmap_grow hash ok m = (err, m')" "hm_inv m" "hm_cap_bits m < 64"
  shows "if ok then err = 0 \<and> hm_inv m' \<and> entries m' = entries m \<and> hm_cap m' \<noteq> 0
    else err = - ENOMEM \<and> m' = m"
  using grow_shape [OF assms(1) _ assms(3)] assms(2) by (auto simp: hm_inv_def)

lemma lookup_entries: "hm_inv m \<Longrightarrow> hm_inv m' \<Longrightarrow> entries m' = entries m \<Longrightarrow> lookup m' = lookup m"
  by (rule lookup_eqI) (simp_all add: lookup_iff)

text \<open>An insertion of a key that is not there.\<close>

definition fresh_insert ::
    "bool \<Rightarrow> bool \<Rightarrow> ('k, 'v) hashmap \<Rightarrow> 'k \<Rightarrow> 'v \<Rightarrow> int \<times> ('k, 'v) hashmap" where
  "fresh_insert grow_ok entry_ok m k v =
     (case (if hashmap_needs_to_grow m then hashmap_grow hash grow_ok m else (0, m)) of
        (err, m) \<Rightarrow>
          if err \<noteq> 0 then (err, m)
          else if \<not> entry_ok then (- ENOMEM, m)
          else (0, m\<lparr>hm_buckets := hashmap_add_entry (bucket_of hash m k) (k, v) (hm_buckets m),
                     hm_sz := hm_sz m + 1\<rparr>))"

lemma fresh_insert_spec:
  assumes "fresh_insert grow_ok entry_ok m k v = (err, m')" "hm_inv m" "hm_cap_bits m < 64"
    and none: "lookup m k = None"
  shows "hm_inv m' \<and>
    (err = 0 \<and> lookup m' = (\<lambda>l. if eq k l then Some v else lookup m l) \<or>
     err = - ENOMEM \<and> lookup m' = lookup m)"
proof -
  obtain e1 m1 where g: "(if hashmap_needs_to_grow m then hashmap_grow hash grow_ok m else (0, m)) = (e1, m1)"
    by (cases "if hashmap_needs_to_grow m then hashmap_grow hash grow_ok m else (0, m)")
  have m1: "hm_inv m1 \<and> entries m1 = entries m \<and> (e1 = 0 \<longrightarrow> hm_cap m1 \<noteq> 0) \<and> (e1 = 0 \<or> e1 = - ENOMEM)"
    using g inv_grow [OF _ assms(2,3), of grow_ok e1 m1] assms(2)
    by (auto simp: hashmap_needs_to_grow_def split: if_splits)
  then have l1: "lookup m1 = lookup m" using lookup_entries assms(2) by blast
  show ?thesis
  proof (cases "e1 = 0 \<and> entry_ok")
    case False
    then show ?thesis using assms(1) g m1 l1 by (auto simp: fresh_insert_def)
  next
    case True
    have "\<forall>k' v'. (k', v') \<in># entries m1 \<longrightarrow> \<not> eq k' k"
      using lookup_none_iff [of m1 k] m1 l1 none by simp
    then have free: "\<And>k' v'. (k', v') \<in># entries m1 \<Longrightarrow> \<not> eq k' k" by blast
    define m2 where "m2 = m1\<lparr>hm_buckets := hashmap_add_entry (bucket_of hash m1 k) (k, v) (hm_buckets m1),
      hm_sz := hm_sz m1 + 1\<rparr>"
    have r: "err = 0" "m' = m2" using assms(1) g True by (simp_all add: fresh_insert_def m2_def)
    have i: "hm_inv m2 \<and> entries m2 = add_mset (k, v) (entries m1)"
      using m1 True free by (intro inv_add [OF _ _ _ m2_def]) auto
    have "lookup m2 = (\<lambda>l. if eq k l then Some v else lookup m1 l)"
    proof (rule lookup_eqI)
      show "hm_inv m2" using i by simp
      fix l v'
      have "\<not> eq k' l" if "(k', v'') \<in># entries m1" "eq k l" for k' v''
        using free [OF that(1)] eq_trans [OF _ eq_sym [OF that(2)]] by blast
      then show "(\<exists>k'. (k', v') \<in># entries m2 \<and> eq k' l) \<longleftrightarrow>
          (if eq k l then Some v else lookup m1 l) = Some v'"
        using i m1 lookup_iff [of m1 l v'] by auto
    qed
    then show ?thesis using i r by (simp add: l1 cong: if_cong)
  qed
qed

lemma insert_cases:
  "hashmap_insert hash eq grow_ok entry_ok m k v strat =
     (case (if strat = HASHMAP_APPEND then None else hashmap_find_entry eq m k (bucket_of hash m k)) of
        None \<Rightarrow> if strat = HASHMAP_UPDATE then (- ENOENT, None, m)
                else (case fresh_insert grow_ok entry_ok m k v of (err, m') \<Rightarrow> (err, None, m'))
      | Some (i, e) \<Rightarrow>
          if strat = HASHMAP_SET \<or> strat = HASHMAP_UPDATE
          then (0, Some e, m\<lparr>hm_buckets := (hm_buckets m)[bucket_of hash m k :=
                              (hm_buckets m ! bucket_of hash m k)[i := (k, v)]]\<rparr>)
          else (- EEXIST, Some e, m))"
  by (cases strat)
     (auto simp: hashmap_insert_def fresh_insert_def Let_def split: option.splits prod.splits)

lemma lookup_find_entry: "lookup m k = map_option (\<lambda>(i, k', v). v) (hashmap_find_entry eq m k (bucket_of hash m k))"
  by (simp add: hashmap_find_def)

lemma insert_spec:
  assumes "hashmap_insert hash eq grow_ok entry_ok m k v strat = (err, old, m')"
    "hm_inv m" "hm_cap_bits m < 64" "strat \<noteq> HASHMAP_APPEND"
  shows "hm_inv m'" "map_option snd old = lookup m k"
    "err = 0 \<Longrightarrow> lookup m' = (\<lambda>l. if eq k l then Some v else lookup m l)"
    "err \<noteq> 0 \<Longrightarrow> lookup m' = lookup m"
    "err \<in> {0, - ENOMEM} \<or> err = - EEXIST \<and> strat = HASHMAP_ADD \<and> lookup m k \<noteq> None \<or>
     err = - ENOENT \<and> strat = HASHMAP_UPDATE \<and> lookup m k = None"
proof -
  have "hm_inv m' \<and> map_option snd old = lookup m k \<and>
    (err = 0 \<longrightarrow> lookup m' = (\<lambda>l. if eq k l then Some v else lookup m l)) \<and>
    (err \<noteq> 0 \<longrightarrow> lookup m' = lookup m) \<and>
    (err \<in> {0, - ENOMEM} \<or> err = - EEXIST \<and> strat = HASHMAP_ADD \<and> lookup m k \<noteq> None \<or>
     err = - ENOENT \<and> strat = HASHMAP_UPDATE \<and> lookup m k = None)"
  proof (cases "hashmap_find_entry eq m k (bucket_of hash m k)")
    case None
    then have n: "lookup m k = None" by (simp add: lookup_find_entry)
    show ?thesis
    proof (cases "strat = HASHMAP_UPDATE")
      case True
      then show ?thesis using assms None n by (simp add: insert_cases)
    next
      case False
      then have o: "old = None" and r: "fresh_insert grow_ok entry_ok m k v = (err, m')"
        using assms(1,4) None by (auto simp: insert_cases split: prod.splits)
      show ?thesis using fresh_insert_spec [OF r assms(2,3) n] n o by auto
    qed
  next
    case (Some p)
    obtain i k0 v0 where p: "p = (i, k0, v0)" by (cases p)
    have sh: "hm_shape hash m" using assms(2) by (simp add: hm_inv_def)
    note f = find_entry_some [OF sh Some [unfolded p]]
    have lk: "lookup m k = Some v0" using Some p by (simp add: lookup_find_entry)
    show ?thesis
    proof (cases "strat = HASHMAP_ADD")
      case True
      then show ?thesis using assms(1,2) Some p lk by (auto simp: insert_cases)
    next
      case False
      then have set: "strat = HASHMAP_SET \<or> strat = HASHMAP_UPDATE" using assms(4) by (cases strat) auto
      define m2 where "m2 = m\<lparr>hm_buckets := (hm_buckets m)[bucket_of hash m k :=
                                (hm_buckets m ! bucket_of hash m k)[i := (k, v)]]\<rparr>"
      have r: "err = 0" "old = Some (k0, v0)" "m' = m2"
        using assms(1,4) set Some p by (auto simp: insert_cases m2_def)
      have i2: "hm_inv m2 \<and> add_mset (k0, v0) (entries m2) = add_mset (k, v) (entries m)"
        using assms(2) Some [unfolded p] m2_def by (rule inv_set)
      obtain E0 where E0: "entries m = add_mset (k0, v0) E0" using f(6) by (metis multi_member_split)
      have E2: "entries m2 = add_mset (k, v) E0" using i2 E0 by (simp add: add_mset_commute)
      have no: "\<not> eq k' k" if "(k', v') \<in># E0" for k' v'
      proof
        assume "eq k' k"
        then have "size (filter_mset (\<lambda>e. eq (fst e) k) (entries m)) > 1"
          using that f(5) by (auto simp: E0 nonempty_has_size [symmetric])
        moreover have "size (filter_mset (\<lambda>e. eq (fst e) k) (entries m)) \<le> 1"
          using assms(2) by (simp add: hm_inv_def uniq_def)
        ultimately show False by simp
      qed
      have "lookup m2 = (\<lambda>l. if eq k l then Some v else lookup m l)"
      proof (rule lookup_eqI)
        show "hm_inv m2" using i2 by simp
        fix l v'
        have "\<not> eq k' l" if "(k', v'') \<in># E0" "eq k l" for k' v''
          using no [OF that(1)] eq_trans [OF _ eq_sym [OF that(2)]] by blast
        moreover have "eq k0 l \<longleftrightarrow> eq k l" using f(5) by simp (meson eq_sym eq_trans)
        ultimately show "(\<exists>k'. (k', v') \<in># entries m2 \<and> eq k' l) \<longleftrightarrow>
            (if eq k l then Some v else lookup m l) = Some v'"
          using lookup_iff [OF assms(2), of l v'] E0 E2 by auto
      qed
      then show ?thesis using r i2 lk by simp
    qed
  qed
  then show "hm_inv m'" "map_option snd old = lookup m k"
    "err = 0 \<Longrightarrow> lookup m' = (\<lambda>l. if eq k l then Some v else lookup m l)"
    "err \<noteq> 0 \<Longrightarrow> lookup m' = lookup m"
    "err \<in> {0, - ENOMEM} \<or> err = - EEXIST \<and> strat = HASHMAP_ADD \<and> lookup m k \<noteq> None \<or>
     err = - ENOENT \<and> strat = HASHMAP_UPDATE \<and> lookup m k = None"
    by blast+
qed

lemma fresh_insert_entries:
  assumes "fresh_insert grow_ok entry_ok m k v = (err, m')" "hm_inv m" "hm_cap_bits m < 64"
    "lookup m k = None"
  shows "entries m' = (if err = 0 then add_mset (k, v) (entries m) else entries m)"
    "hm_cap_bits m' \<le> max 2 (hm_cap_bits m + 1)"
proof -
  obtain e1 m1 where g: "(if hashmap_needs_to_grow m then hashmap_grow hash grow_ok m else (0, m)) = (e1, m1)"
    by (cases "if hashmap_needs_to_grow m then hashmap_grow hash grow_ok m else (0, m)")
  have m1: "hm_inv m1 \<and> entries m1 = entries m \<and> (e1 = 0 \<longrightarrow> hm_cap m1 \<noteq> 0)"
    using g inv_grow [OF _ assms(2,3), of grow_ok e1 m1] assms(2)
    by (auto simp: hashmap_needs_to_grow_def split: if_splits)
  then have b: "e1 = 0 \<Longrightarrow> bucket_of hash m1 k < length (hm_buckets m1)"
    using bucket_less [of hash m1 k] by (auto simp: hm_inv_def hm_shape_def)
  show "entries m' = (if err = 0 then add_mset (k, v) (entries m) else entries m)"
  proof (cases "e1 = 0 \<and> entry_ok")
    case True
    then have "err = 0" and m': "m' = m1\<lparr>hm_buckets := hashmap_add_entry (bucket_of hash m1 k) (k, v)
        (hm_buckets m1), hm_sz := hm_sz m1 + 1\<rparr>"
      using assms(1) g by (simp_all add: fresh_insert_def)
    moreover have "entries m' = add_mset (k, v) (entries m1)"
      using mset_add_entry [OF b, of "(k, v)"] True by (simp add: m' entries_def)
    ultimately show ?thesis using m1 by simp
  next
    case False
    then have "err \<noteq> 0" "m' = m1"
      using assms(1) g by (auto simp: fresh_insert_def split: if_splits)
    then show ?thesis using m1 by simp
  qed
  have "hm_cap_bits m1 \<le> max 2 (hm_cap_bits m + 1)"
    using g by (auto simp: hashmap_grow_def Let_def HASHMAP_MIN_CAP_BITS_def split: if_splits)
  then show "hm_cap_bits m' \<le> max 2 (hm_cap_bits m + 1)"
    using assms(1) g by (auto simp: fresh_insert_def split: if_splits)
qed

lemma insert_add_entries:
  assumes "hashmap_insert hash eq grow_ok entry_ok m k v HASHMAP_ADD = (err, old, m')"
    "hm_inv m" "hm_cap_bits m < 64"
  shows "\<And>e. old = Some e \<Longrightarrow> e \<in># entries m"
    "entries m' = (if err = 0 then add_mset (k, v) (entries m) else entries m)"
    "hm_cap_bits m' \<le> max 2 (hm_cap_bits m + 1)"
    "err = 0 \<Longrightarrow> lookup m k = None"
proof -
  have "(\<forall>e. old = Some e \<longrightarrow> e \<in># entries m) \<and>
    entries m' = (if err = 0 then add_mset (k, v) (entries m) else entries m) \<and>
    hm_cap_bits m' \<le> max 2 (hm_cap_bits m + 1) \<and> (err = 0 \<longrightarrow> lookup m k = None)"
  proof (cases "hashmap_find_entry eq m k (bucket_of hash m k)")
    case None
    then have n: "lookup m k = None" by (simp add: lookup_find_entry)
    have r: "fresh_insert grow_ok entry_ok m k v = (err, m')" "old = None"
      using assms(1) None by (auto simp: insert_cases split: prod.splits)
    show ?thesis using fresh_insert_entries [OF r(1) assms(2,3) n] r(2) n by simp
  next
    case (Some p)
    obtain i e where p: "p = (i, e)" by (cases p)
    have sh: "hm_shape hash m" using assms(2) by (simp add: hm_inv_def)
    have "err = - EEXIST" "old = Some e" "m' = m"
      using assms(1) Some p by (auto simp: insert_cases)
    then show ?thesis using find_entry_some(6) [OF sh Some [unfolded p]] by simp
  qed
  then show "\<And>e. old = Some e \<Longrightarrow> e \<in># entries m"
    "entries m' = (if err = 0 then add_mset (k, v) (entries m) else entries m)"
    "hm_cap_bits m' \<le> max 2 (hm_cap_bits m + 1)"
    "err = 0 \<Longrightarrow> lookup m k = None"
    by blast+
qed

lemma delete_spec:
  assumes "hashmap_delete hash eq m k = (old, m')" "hm_inv m"
  shows "hm_inv m'" "map_option snd old = lookup m k"
    "lookup m' = (\<lambda>l. if eq k l then None else lookup m l)"
proof -
  have "hm_inv m' \<and> map_option snd old = lookup m k \<and>
    lookup m' = (\<lambda>l. if eq k l then None else lookup m l)"
  proof (cases "hashmap_find_entry eq m k (bucket_of hash m k)")
    case None
    then have n: "lookup m k = None" by (simp add: lookup_find_entry)
    have "lookup m l = None" if "eq k l" for l
      using n that lookup_none_iff [OF assms(2)] eq_sym eq_trans by metis
    then show ?thesis using assms None n by (auto simp: hashmap_delete_def)
  next
    case (Some p)
    obtain i k0 v0 where p: "p = (i, k0, v0)" by (cases p)
    have sh: "hm_shape hash m" using assms(2) by (simp add: hm_inv_def)
    note f = find_entry_some [OF sh Some [unfolded p]]
    define m2 where "m2 = m\<lparr>hm_buckets := (hm_buckets m)[bucket_of hash m k :=
        remove_nth i (hm_buckets m ! bucket_of hash m k)], hm_sz := hm_sz m - 1\<rparr>"
    have r: "old = Some (k0, v0)" "m' = m2"
      using assms(1) Some p by (auto simp: hashmap_delete_def Let_def m2_def)
    have i2: "hm_inv m2 \<and> add_mset (k0, v0) (entries m2) = entries m"
      using assms(2) Some [unfolded p] m2_def by (rule inv_remove)
    have "lookup m2 = (\<lambda>l. if eq k l then None else lookup m l)"
    proof (rule lookup_eqI)
      show "hm_inv m2" using i2 by simp
      fix l v'
      have "\<not> eq k' l" if "(k', v'') \<in># entries m2" "eq k l" for k' v''
      proof
        assume "eq k' l"
        then have "eq k' k" using that(2) eq_sym eq_trans by blast
        then have "size (filter_mset (\<lambda>e. eq (fst e) k) (entries m)) > 1"
          using that(1) f(5) i2 by (auto simp: nonempty_has_size [symmetric] simp flip: conjunct2 [OF i2])
        moreover have "size (filter_mset (\<lambda>e. eq (fst e) k) (entries m)) \<le> 1"
          using assms(2) by (simp add: hm_inv_def uniq_def)
        ultimately show False by simp
      qed
      moreover have "eq k0 l \<longleftrightarrow> eq k l" using f(5) by simp (meson eq_sym eq_trans)
      ultimately show "(\<exists>k'. (k', v') \<in># entries m2 \<and> eq k' l) \<longleftrightarrow>
          (if eq k l then None else lookup m l) = Some v'"
        using lookup_iff [OF assms(2), of l v'] conjunct2 [OF i2, symmetric] by auto
    qed
    then show ?thesis using r i2 Some p by (simp add: lookup_find_entry)
  qed
  then show "hm_inv m'" "map_option snd old = lookup m k"
    "lookup m' = (\<lambda>l. if eq k l then None else lookup m l)" by blast+
qed

end

end
