(* ===== verification/Strset.thy ===== *)
theory Strset
  imports Hashmap_Props
begin

text \<open>
  \<open>lib/libbpf/src/strset.c\<close>: a set of C strings packed into one buffer, with a hash table
  from the offset of each string to itself. The buffer is the byte list of its whole capacity;
  the first \<open>ss_len\<close> bytes are the set. \<open>libbpf_add_mem\<close> is from \<open>btf.c\<close>. A string argument
  is its bytes without the terminating NUL. The allocator's answers are arguments.
\<close>

section \<open>Growing a buffer\<close>

definition add_mem_cnt :: "nat \<Rightarrow> nat \<Rightarrow> nat \<Rightarrow> nat \<Rightarrow> nat" where
  "add_mem_cnt cap_cnt cur_cnt max_cnt add_cnt =
     (let new_cnt = cap_cnt + cap_cnt div 4;
          new_cnt = (if new_cnt < 16 then 16 else new_cnt);
          new_cnt = (if max_cnt < new_cnt then max_cnt else new_cnt)
      in if new_cnt < cur_cnt + add_cnt then cur_cnt + add_cnt else new_cnt)"

text \<open>The buffer and the offset of the new elements in it; \<open>None\<close> is the null pointer.\<close>

definition libbpf_add_mem ::
    "bool \<Rightarrow> byte list \<Rightarrow> nat \<Rightarrow> nat \<Rightarrow> nat \<Rightarrow> nat \<Rightarrow> nat \<Rightarrow> (nat \<times> byte list \<times> nat) option" where
  "libbpf_add_mem alloc_ok data cap_cnt elem_sz cur_cnt max_cnt add_cnt =
     (if cur_cnt + add_cnt \<le> cap_cnt then Some (cur_cnt * elem_sz, data, cap_cnt)
      else if max_cnt < cur_cnt + add_cnt then None
      else
        let new_cnt = add_mem_cnt cap_cnt cur_cnt max_cnt add_cnt
        in if \<not> alloc_ok then None
           else Some (cur_cnt * elem_sz, data @ replicate ((new_cnt - cap_cnt) * elem_sz) 0, new_cnt))"

section \<open>The set\<close>

record strset =
  ss_data :: "byte list"
  ss_len :: nat
  ss_cap :: nat
  ss_max_len :: nat
  ss_hash :: "(nat, nat) hashmap"

definition cstr_at :: "byte list \<Rightarrow> nat \<Rightarrow> byte list" where
  "cstr_at data off = takeWhile (\<lambda>b. b \<noteq> 0) (drop off data)"

definition strset_hash_fn :: "byte list \<Rightarrow> nat \<Rightarrow> u64" where
  "strset_hash_fn data k = str_hash (cstr_at data k)"

definition strset_equal_fn :: "byte list \<Rightarrow> nat \<Rightarrow> nat \<Rightarrow> bool" where
  "strset_equal_fn data k l \<longleftrightarrow> cstr_at data k = cstr_at data l"

text \<open>The answers of the allocator to one operation.\<close>

record str_env =
  se_mem :: bool
  se_grow :: bool
  se_entry :: bool

text \<open>The indexing loop of \<open>strset__new\<close> over the initial data.\<close>

function strset_index_loop :: "(nat \<Rightarrow> str_env) \<Rightarrow> strset \<Rightarrow> nat \<Rightarrow> int + strset" where
  "strset_index_loop env st off =
     (if ss_len st \<le> off then Inr st
      else
        case hashmap_insert (strset_hash_fn (ss_data st)) (strset_equal_fn (ss_data st))
               (se_grow (env off)) (se_entry (env off)) (ss_hash st) off off HASHMAP_ADD of
          (err, old, hm) \<Rightarrow>
            if err = - EEXIST then
              strset_index_loop env st (off + length (cstr_at (ss_data st) off) + 1)
            else if err \<noteq> 0 then Inl (- err)
            else strset_index_loop env (st\<lparr>ss_hash := hm\<rparr>)
                   (off + length (cstr_at (ss_data st) off) + 1))"
  by pat_completeness auto
termination
  by (relation "measure (\<lambda>(env, st, off). ss_len st - off)") auto

declare strset_index_loop.simps [simp del]

definition strset__new ::
    "bool \<Rightarrow> (nat \<Rightarrow> str_env) \<Rightarrow> nat \<Rightarrow> byte list option \<Rightarrow> int + strset" where
  "strset__new alloc_ok env max_data_sz init_data =
     (if \<not> alloc_ok then Inl ENOMEM
      else
        let st = \<lparr>ss_data = [], ss_len = 0, ss_cap = 0, ss_max_len = max_data_sz,
                   ss_hash = hashmap__init\<rparr>
        in case init_data of
             None \<Rightarrow> Inr st
           | Some d \<Rightarrow>
               strset_index_loop env
                 (st\<lparr>ss_data := d, ss_len := length d, ss_cap := length d\<rparr>) 0)"

definition strset__data_size :: "strset \<Rightarrow> nat" where
  "strset__data_size st = ss_len st"

definition strset__data :: "strset \<Rightarrow> byte list" where
  "strset__data st = ss_data st"

definition strset_add_str_mem :: "str_env \<Rightarrow> strset \<Rightarrow> nat \<Rightarrow> (nat \<times> strset) option" where
  "strset_add_str_mem env st add_sz =
     map_option (\<lambda>(p, data, cap). (p, st\<lparr>ss_data := data, ss_cap := cap\<rparr>))
       (libbpf_add_mem (se_mem env) (ss_data st) (ss_cap st) 1 (ss_len st) (ss_max_len st) add_sz)"

text \<open>\<open>memcpy(p, s, len)\<close> with the NUL.\<close>

definition put_str :: "nat \<Rightarrow> byte list \<Rightarrow> byte list \<Rightarrow> byte list" where
  "put_str p s data = take p data @ s @ [0] @ drop (p + length s + 1) data"

definition strset__find_str :: "str_env \<Rightarrow> strset \<Rightarrow> byte list \<Rightarrow> (int + nat) \<times> strset" where
  "strset__find_str env st s =
     (case strset_add_str_mem env st (length s + 1) of
        None \<Rightarrow> (Inl ENOMEM, st)
      | Some (p, st) \<Rightarrow>
          let st = st\<lparr>ss_data := put_str p s (ss_data st)\<rparr>
          in case hashmap_find (strset_hash_fn (ss_data st)) (strset_equal_fn (ss_data st))
                    (ss_hash st) (ss_len st) of
               Some old_off \<Rightarrow> (Inr old_off, st)
             | None \<Rightarrow> (Inl ENOENT, st))"

definition strset__add_str :: "str_env \<Rightarrow> strset \<Rightarrow> byte list \<Rightarrow> (int + nat) \<times> strset" where
  "strset__add_str env st s =
     (case strset_add_str_mem env st (length s + 1) of
        None \<Rightarrow> (Inl ENOMEM, st)
      | Some (p, st) \<Rightarrow>
          let st = st\<lparr>ss_data := put_str p s (ss_data st)\<rparr>;
              new_off = ss_len st
          in case hashmap_insert (strset_hash_fn (ss_data st)) (strset_equal_fn (ss_data st))
                    (se_grow env) (se_entry env) (ss_hash st) new_off new_off HASHMAP_ADD of
               (err, old, hm) \<Rightarrow>
                 let st = st\<lparr>ss_hash := hm\<rparr>
                 in if err = - EEXIST then (Inr (case old of None \<Rightarrow> 0 | Some (k, _) \<Rightarrow> k), st)
                    else if err \<noteq> 0 then (Inl (- err), st)
                    else (Inr new_off, st\<lparr>ss_len := ss_len st + (length s + 1)\<rparr>))"

section \<open>The string table implements the hash table's contract\<close>

interpretation str_tab: hash_laws "strset_hash_fn data" "strset_equal_fn data" for data
  by unfold_locales (auto simp: strset_hash_fn_def strset_equal_fn_def)

text \<open>
  The invariant: every entry maps an offset inside the set to itself, its string ends inside
  the set, and the table is well formed for the strings of the buffer.
\<close>

definition ss_inv :: "strset \<Rightarrow> bool" where
  "ss_inv st \<longleftrightarrow>
     length (ss_data st) = ss_cap st \<and> ss_len st \<le> ss_cap st \<and>
     str_tab.hm_inv (ss_data st) (ss_hash st) \<and> hm_cap_bits (ss_hash st) < 64 \<and>
     (\<forall>(k, v)\<in>#entries (ss_hash st). v = k \<and> k + length (cstr_at (ss_data st) k) < ss_len st)"

text \<open>String \<open>s\<close> is in the st, at offset \<open>k\<close>.\<close>

definition has_str :: "strset \<Rightarrow> byte list \<Rightarrow> nat \<Rightarrow> bool" where
  "has_str st s k \<longleftrightarrow> (k, k) \<in># entries (ss_hash st) \<and> cstr_at (ss_data st) k = s"

section \<open>Lemmas\<close>

lemma cstr_at_put: "p + length s < length data \<Longrightarrow> 0 \<notin> set s \<Longrightarrow> p \<le> length data \<Longrightarrow>
    cstr_at (put_str p s data) p = s"
proof -
  assume a: "p + length s < length data" "0 \<notin> set s" "p \<le> length data"
  then have "\<forall>b\<in>set s. b \<noteq> 0" by metis
  then have "takeWhile (\<lambda>b. b \<noteq> 0) (s @ 0 # zs) = s" for zs by (simp add: takeWhile_append2)
  then show ?thesis using a by (simp add: cstr_at_def put_str_def)
qed

lemma cstr_at_prefix:
  assumes "k + length (cstr_at data k) < n" "n \<le> length data" "take n data' = take n data"
  shows "cstr_at data' k = cstr_at data k"
proof -
  define c where "c = length (cstr_at data k)"
  have k: "k + c < n" using assms(1) by (simp add: c_def)
  have nth: "data' ! i = data ! i" if "i < n" for i
    using arg_cong [OF assms(3), of "\<lambda>xs. xs ! i"] that by simp
  have n': "n \<le> length data'"
    using arg_cong [OF assms(3), of length] assms(2) by simp
  have in': "\<forall>i<c. data ! (k + i) \<noteq> 0" and at': "data ! (k + c) = 0"
  proof -
    show "\<forall>i<c. data ! (k + i) \<noteq> 0"
    proof (intro allI impI)
      fix i
      assume "i < c"
      then have "cstr_at data k ! i \<noteq> 0"
        using nth_mem [of i "cstr_at data k"] set_takeWhileD [of _ "\<lambda>b. b \<noteq> 0" "drop k data"]
        by (metis c_def cstr_at_def)
      then show "data ! (k + i) \<noteq> 0"
        using \<open>i < c\<close> k assms(2) by (simp add: c_def cstr_at_def takeWhile_nth)
    qed
    have "length (takeWhile (\<lambda>b. b \<noteq> 0) (drop k data)) < length (drop k data)"
      using k assms(2) by (simp add: c_def cstr_at_def)
    then show "data ! (k + c) = 0"
      using nth_length_takeWhile [of "\<lambda>b. b \<noteq> 0" "drop k data"] k assms(2)
      by (simp add: c_def cstr_at_def)
  qed
  have "takeWhile (\<lambda>b. b \<noteq> 0) (drop k d) = take c (drop k data)"
    if "\<And>i. i < n \<Longrightarrow> d ! i = data ! i" "n \<le> length d" for d
  proof -
    have "take c (drop k d) = take c (drop k data)"
      using that k assms(2) by (intro nth_equalityI) auto
    moreover have "takeWhile (\<lambda>b. b \<noteq> 0) (drop k d) = take c (drop k d)"
      using that k assms(2) in' at' by (intro takeWhile_eq_take_P_nth) auto
    ultimately show ?thesis by simp
  qed
  from this [of data'] this [of data] show ?thesis
    using nth n' assms(2) by (simp add: cstr_at_def)
qed

text \<open>The table stays well formed when the buffer changes outside the strings it names.\<close>

lemma tab_cong:
  assumes "str_tab.hm_inv data m" "\<And>k v. (k, v) \<in># entries m \<Longrightarrow> cstr_at data' k = cstr_at data k"
  shows "str_tab.hm_inv data' m"
proof -
  have "placed (strset_hash_fn data') (hm_cap_bits m) (hm_buckets m)"
    if p: "placed (strset_hash_fn data) (hm_cap_bits m) (hm_buckets m)" "length (hm_buckets m) = 2 ^ hm_cap_bits m"
    unfolding placed_def
  proof (intro allI impI ballI)
    fix i e
    assume i: "i < 2 ^ hm_cap_bits m" "e \<in> set (hm_buckets m ! i)"
    then have "e \<in># entries m" using p(2) by (intro chain_in_entries) auto
    then have "cstr_at data' (fst e) = cstr_at data (fst e)" using assms(2) by (cases e) auto
    then show "unat (hash_bits (strset_hash_fn data' (fst e)) (hm_cap_bits m)) = i"
      using p(1) i by (simp add: placed_def strset_hash_fn_def)
  qed
  moreover have "str_tab.uniq data' (entries m)"
    unfolding str_tab.uniq_def
  proof
    fix k
    show "size (filter_mset (\<lambda>e. strset_equal_fn data' (fst e) k) (entries m)) \<le> 1"
    proof (cases "\<exists>k0 v0. (k0, v0) \<in># entries m \<and> strset_equal_fn data' k0 k")
      case True
      then obtain k0 v0 where k0: "(k0, v0) \<in># entries m" "strset_equal_fn data' k0 k" by blast
      have "filter_mset (\<lambda>e. strset_equal_fn data' (fst e) k) (entries m) =
          filter_mset (\<lambda>e. strset_equal_fn data (fst e) k0) (entries m)"
        using assms(2) k0 by (intro filter_mset_cong) (auto simp: strset_equal_fn_def)
      then show ?thesis using assms(1) by (simp add: str_tab.hm_inv_def str_tab.uniq_def)
    next
      case False
      then have "filter_mset (\<lambda>e. strset_equal_fn data' (fst e) k) (entries m) = {#}" by auto
      then show ?thesis by (simp only: size_empty)
    qed
  qed
  ultimately show ?thesis
    using assms(1) by (auto simp: str_tab.hm_inv_def hm_shape_def)
qed

text \<open>What reserving room for a string and copying it there does.\<close>

lemma add_str_mem_put:
  assumes mem: "strset_add_str_mem env st (length s + 1) = Some (p, st1)" and inv: "ss_inv st"
    and s0: "0 \<notin> set s"
  defines "st2 \<equiv> st1\<lparr>ss_data := put_str p s (ss_data st1)\<rparr>"
  shows "ss_inv st2" "ss_hash st2 = ss_hash st" "ss_len st2 = ss_len st"
    "ss_len st + length s < length (ss_data st2)"
    "cstr_at (ss_data st2) (ss_len st) = s"
    "\<And>k v. (k, v) \<in># entries (ss_hash st) \<Longrightarrow> cstr_at (ss_data st2) k = cstr_at (ss_data st) k"
    "take (ss_len st) (ss_data st2) = take (ss_len st) (ss_data st)"
proof -
  obtain data cap where m: "libbpf_add_mem (se_mem env) (ss_data st) (ss_cap st) 1 (ss_len st)
      (ss_max_len st) (length s + 1) = Some (p, data, cap)" and st1: "st1 = st\<lparr>ss_data := data, ss_cap := cap\<rparr>"
    using mem by (auto simp: strset_add_str_mem_def)
  have l: "length (ss_data st) = ss_cap st" "ss_len st \<le> ss_cap st"
    using inv by (auto simp: ss_inv_def)
  have d: "length data = cap" "ss_len st + length s < cap" "p = ss_len st"
      "take (ss_len st) data = take (ss_len st) (ss_data st)"
    using m l by (auto simp: libbpf_add_mem_def add_mem_cnt_def Let_def split: if_splits)
  have st2: "ss_data st2 = put_str (ss_len st) s data" "ss_hash st2 = ss_hash st" "ss_len st2 = ss_len st"
    "ss_cap st2 = cap"
    by (simp_all add: st2_def st1 d(3))
  have len2: "length (ss_data st2) = cap" using d(1,2) by (simp add: st2 put_str_def)
  show t: "take (ss_len st) (ss_data st2) = take (ss_len st) (ss_data st)"
    using d l by (simp add: st2 put_str_def)
  show keep: "cstr_at (ss_data st2) k = cstr_at (ss_data st) k" if "(k, v) \<in># entries (ss_hash st)" for k v
  proof (rule cstr_at_prefix [OF _ _ t])
    show "k + length (cstr_at (ss_data st) k) < ss_len st"
      using inv that unfolding ss_inv_def by blast
    show "ss_len st \<le> length (ss_data st)" using l by simp
  qed
  have tab: "str_tab.hm_inv (ss_data st2) (ss_hash st)"
  proof (rule tab_cong)
    show "str_tab.hm_inv (ss_data st) (ss_hash st)" using inv by (simp add: ss_inv_def)
  qed (rule keep)
  have "v = k \<and> k + length (cstr_at (ss_data st2) k) < ss_len st" if "(k, v) \<in># entries (ss_hash st)" for k v
  proof -
    have "\<forall>(k, v)\<in>#entries (ss_hash st). v = k \<and> k + length (cstr_at (ss_data st) k) < ss_len st"
      using inv by (simp add: ss_inv_def)
    from bspec [OF this that] show ?thesis by (simp only: keep [OF that] prod.case)
  qed
  then have "\<forall>(k, v)\<in>#entries (ss_hash st). v = k \<and> k + length (cstr_at (ss_data st2) k) < ss_len st"
    by blast
  then show "ss_inv st2"
    using inv tab len2 d(2) by (simp add: ss_inv_def st2(2,3,4))
  show "ss_hash st2 = ss_hash st" "ss_len st2 = ss_len st" by (simp_all add: st2)
  show "ss_len st + length s < length (ss_data st2)" using len2 d(2) by simp
  show "cstr_at (ss_data st2) (ss_len st) = s"
    using d s0 by (simp add: st2 cstr_at_put)
qed

lemma lookup_offset:
  assumes "ss_inv st"
  shows "hashmap_find (strset_hash_fn (ss_data st)) (strset_equal_fn (ss_data st)) (ss_hash st) k = Some v \<longleftrightarrow>
    has_str st (cstr_at (ss_data st) k) v"
  using assms str_tab.lookup_iff [of "ss_data st" "ss_hash st" k v]
  by (fastforce simp: ss_inv_def has_str_def strset_equal_fn_def)

lemma has_str_unique:
  assumes "ss_inv st" "has_str st s k" "has_str st s l"
  shows "k = l"
  using assms lookup_offset [OF assms(1), of k k] lookup_offset [OF assms(1), of k l]
  by (auto simp: has_str_def)

lemma has_str_iff_lookup:
  assumes "ss_inv st"
  shows "has_str st s k \<longleftrightarrow> cstr_at (ss_data st) k = s \<and>
    hashmap_find (strset_hash_fn (ss_data st)) (strset_equal_fn (ss_data st)) (ss_hash st) k = Some k"
  using lookup_offset [OF assms, of k k] by (auto simp: has_str_def)

text \<open>
  Adding a string: afterwards the set has exactly the strings it had and the new one, at the
  returned offset, which is the old offset when the string was there; on an error it has
  exactly the strings it had.
\<close>

lemma add_str_spec:
  assumes add: "strset__add_str env st s = (r, st')" and inv: "ss_inv st"
    and s0: "0 \<notin> set s" and room: "hm_cap_bits (ss_hash st) < 63"
  shows "ss_inv st'"
    and "case r of Inl e \<Rightarrow> has_str st' = has_str st
         | Inr k \<Rightarrow> has_str st' = (\<lambda>t l. has_str st t l \<or> t = s \<and> l = k)"
    and "has_str st s k0 \<Longrightarrow> r \<in> {Inr k0, Inl ENOMEM}"
proof -
  have "ss_inv st' \<and>
    (case r of Inl e \<Rightarrow> has_str st' = has_str st
         | Inr k \<Rightarrow> has_str st' = (\<lambda>t l. has_str st t l \<or> t = s \<and> l = k)) \<and>
    (has_str st s k0 \<longrightarrow> r \<in> {Inr k0, Inl ENOMEM})"
  proof (cases "strset_add_str_mem env st (length s + 1)")
    case None
    then show ?thesis using add inv by (auto simp: strset__add_str_def)
  next
    case (Some pst)
    obtain p st1 where mem: "strset_add_str_mem env st (length s + 1) = Some (p, st1)"
      using Some by (cases pst) auto
    define st2 where "st2 = st1\<lparr>ss_data := put_str p s (ss_data st1)\<rparr>"
    note a = add_str_mem_put [OF mem inv s0, folded st2_def]
    define n where "n = ss_len st"
    have has2: "has_str st2 = has_str st"
      using a(2,6) by (intro ext) (auto simp: has_str_def)
    obtain err old hm where ins: "hashmap_insert (strset_hash_fn (ss_data st2)) (strset_equal_fn (ss_data st2))
        (se_grow env) (se_entry env) (ss_hash st2) n n HASHMAP_ADD = (err, old, hm)"
      by (metis prod_cases3)
    have i2: "str_tab.hm_inv (ss_data st2) (ss_hash st2)" "hm_cap_bits (ss_hash st2) < 64"
      using a(1) by (auto simp: ss_inv_def)
    note sp = str_tab.insert_spec [OF ins i2] and en = str_tab.insert_add_entries [OF ins i2]
    have res: "(r, st') =
      (if err = - EEXIST then (Inr (case old of None \<Rightarrow> 0 | Some (k, _) \<Rightarrow> k), st2\<lparr>ss_hash := hm\<rparr>)
       else if err \<noteq> 0 then (Inl (- err), st2\<lparr>ss_hash := hm\<rparr>)
       else (Inr n, st2\<lparr>ss_hash := hm, ss_len := n + (length s + 1)\<rparr>))"
      using add ins a(3) by (auto simp: strset__add_str_def mem [simplified] st2_def n_def Let_def split: if_splits)
    have hmi: "str_tab.hm_inv (ss_data st2) hm" using sp(1) by simp
    have room': "hm_cap_bits hm < 64" using en(3) a(2) room by simp
    have look: "hashmap_find (strset_hash_fn (ss_data st2)) (strset_equal_fn (ss_data st2)) (ss_hash st2) n =
        Some k \<longleftrightarrow> has_str st s k" for k
      using lookup_offset [OF a(1), of n k] a(5) has2 by (simp add: n_def)
    show ?thesis
    proof (cases "err = 0")
      case False
      then have E: "entries hm = entries (ss_hash st2)" using en(2) by simp
      have st': "st' = st2\<lparr>ss_hash := hm\<rparr>" using res False by (auto split: if_splits)
      have inv': "ss_inv st'" using a(1) hmi room' E by (simp add: ss_inv_def st')
      have same: "has_str st' = has_str st"
        using E has2 by (intro ext) (simp add: has_str_def st' fun_eq_iff)
      show ?thesis
      proof (cases "err = - EEXIST")
        case True
        obtain k v where old: "old = Some (k, v)" and kv: "(k, v) \<in># entries (ss_hash st2)"
          using en(1) True sp(2,5) by (cases old) auto
        have "v = k" using a(1) kv by (auto simp: ss_inv_def)
        then have "has_str st s k" using sp(2) old look [of k] by simp
        moreover have "r = Inr k" using res True old by simp
        ultimately show ?thesis
          using inv' same has_str_unique [OF inv] by (auto simp: fun_eq_iff)
      next
        case F2: False
        have "err = - ENOMEM" using sp(5) False F2 by auto
        then have "r = Inl ENOMEM" using res F2 by simp
        then show ?thesis using inv' same by simp
      qed
    next
      case True
      then have E: "entries hm = add_mset (n, n) (entries (ss_hash st2))" using en(2) by simp
      have st': "st' = st2\<lparr>ss_hash := hm, ss_len := n + (length s + 1)\<rparr>" and r: "r = Inr n"
        using res True by auto
      have "ss_inv st'"
        using a(1,3,4,5) hmi room' by (auto simp: ss_inv_def st' E n_def)
      moreover have "has_str st' = (\<lambda>t l. has_str st t l \<or> t = s \<and> l = n)"
        using has2 a(5) by (auto simp: has_str_def st' E n_def fun_eq_iff)
      moreover have "\<not> has_str st s k0"
        using sp(5) en(4) True look [of k0] by auto
      ultimately show ?thesis using r by simp
    qed
  qed
  then show "ss_inv st'"
    and "case r of Inl e \<Rightarrow> has_str st' = has_str st
         | Inr k \<Rightarrow> has_str st' = (\<lambda>t l. has_str st t l \<or> t = s \<and> l = k)"
    and "has_str st s k0 \<Longrightarrow> r \<in> {Inr k0, Inl ENOMEM}" by blast+
qed

lemma find_str_spec:
  assumes find: "strset__find_str env st s = (r, st')" and inv: "ss_inv st" and s0: "0 \<notin> set s"
  shows "ss_inv st' \<and> has_str st' = has_str st \<and>
    (case r of Inr k \<Rightarrow> has_str st s k | Inl e \<Rightarrow> e = ENOMEM \<or> e = ENOENT \<and> (\<forall>k. \<not> has_str st s k))"
proof (cases "strset_add_str_mem env st (length s + 1)")
  case None
  then show ?thesis using find inv by (auto simp: strset__find_str_def)
next
  case (Some pst)
  obtain p st1 where mem: "strset_add_str_mem env st (length s + 1) = Some (p, st1)"
    using Some by (cases pst) auto
  define st2 where "st2 = st1\<lparr>ss_data := put_str p s (ss_data st1)\<rparr>"
  note a = add_str_mem_put [OF mem inv s0, folded st2_def]
  have has2: "has_str st2 = has_str st"
    using a(2,6) by (intro ext) (auto simp: has_str_def)
  have look: "hashmap_find (strset_hash_fn (ss_data st2)) (strset_equal_fn (ss_data st2)) (ss_hash st2)
      (ss_len st2) = Some k \<longleftrightarrow> has_str st s k" for k
    using lookup_offset [OF a(1), of "ss_len st2" k] a(3,5) has2 by simp
  have look1: "hashmap_find (strset_hash_fn (ss_data st2)) (strset_equal_fn (ss_data st2)) (ss_hash st2)
      (ss_len st2) = Some k \<Longrightarrow> has_str st s k" for k
    using look by blast
  have look2: "hashmap_find (strset_hash_fn (ss_data st2)) (strset_equal_fn (ss_data st2)) (ss_hash st2)
      (ss_len st2) = None \<Longrightarrow> \<not> has_str st s k" for k
    using look [of k] by auto
  show ?thesis
    using find a(1) has2 look1 [unfolded st2_def, simplified] look2 [unfolded st2_def, simplified]
    by (auto simp: strset__find_str_def mem [simplified] st2_def [symmetric] Let_def split: option.splits)
qed

section \<open>Property\<close>

text \<open>The strings of a set and their offsets.\<close>

definition str_table :: "strset \<Rightarrow> (byte list \<times> nat) set" where
  "str_table st = {(s, k). has_str st s k}"


definition empty_strs :: strset where
  "empty_strs = \<lparr>ss_data = [], ss_len = 0, ss_cap = 0, ss_max_len = 1000, ss_hash = hashmap__init\<rparr>"


end
