(* ===== verification/Nlattr.thy ===== *)
theory Nlattr
  imports Prelude "HOL-Library.Monad_Syntax"
begin

text \<open>
  \<open>lib/libbpf/src/nlattr.c\<close> and \<open>nlattr.h\<close>: building and parsing streams of netlink
  attributes. A message is a byte list and a pointer into it is an offset; \<open>None\<close> is an
  access outside it. The header is little endian (the machine's order), lengths are C \<open>int\<close>s.
\<close>

section \<open>Attributes\<close>

definition NLA_HDRLEN :: nat where "NLA_HDRLEN = 4"
definition NLA_F_NESTED :: u16 where "NLA_F_NESTED = 0x8000"
definition NLA_TYPE_MASK :: u16 where "NLA_TYPE_MASK = 0x3FFF"
definition NLMSG_HDRLEN :: nat where "NLMSG_HDRLEN = 16"
definition EMSGSIZE :: int where "EMSGSIZE = 90"

definition NLA_ALIGN :: "nat \<Rightarrow> nat" where
  "NLA_ALIGN n = (n + 3) div 4 * 4"

definition LIBBPF_NLA_UNSPEC :: nat where "LIBBPF_NLA_UNSPEC = 0"
definition LIBBPF_NLA_U32 :: nat where "LIBBPF_NLA_U32 = 3"
definition LIBBPF_NLA_STRING :: nat where "LIBBPF_NLA_STRING = 5"
definition LIBBPF_NLA_TYPE_MAX :: nat where "LIBBPF_NLA_TYPE_MAX = 8"

text \<open>\<open>nla_attr_minlen\<close>; the entries without an initialiser are 0.\<close>

definition nla_attr_minlen :: "nat list" where
  "nla_attr_minlen = [0, 1, 2, 4, 8, 1, 0, 0, 0]"

record nla_policy =
  np_type :: nat
  np_minlen :: nat
  np_maxlen :: nat

definition nla_len_at :: "byte list \<Rightarrow> nat \<Rightarrow> nat option" where
  "nla_len_at bs off = (if off + 2 \<le> length bs then Some (unat (le_u16 (drop off bs))) else None)"

definition nla_type_at :: "byte list \<Rightarrow> nat \<Rightarrow> nat option" where
  "nla_type_at bs off =
     (if off + 4 \<le> length bs then Some (unat (le_u16 (drop (off + 2) bs) AND NLA_TYPE_MASK)) else None)"

definition nla_ok :: "byte list \<Rightarrow> nat \<Rightarrow> int \<Rightarrow> bool option" where
  "nla_ok bs off remaining =
     (if remaining < 4 then Some False
      else map_option (\<lambda>l. NLA_HDRLEN \<le> l \<and> int l \<le> remaining) (nla_len_at bs off))"

definition libbpf_nla_data :: "nat \<Rightarrow> nat" where
  "libbpf_nla_data off = off + NLA_HDRLEN"

definition libbpf_nla_len :: "nat \<Rightarrow> int" where
  "libbpf_nla_len nla_len = int nla_len - int NLA_HDRLEN"

section \<open>Parsing\<close>

definition validate_nla :: "byte list \<Rightarrow> nat \<Rightarrow> nat \<Rightarrow> (nat \<Rightarrow> nla_policy) \<Rightarrow> int option" where
  "validate_nla bs off maxtype policy =
     (case (nla_type_at bs off, nla_len_at bs off) of
        (Some ty, Some l) \<Rightarrow>
          if maxtype < ty then Some 0
          else
            let pt = policy ty
            in if LIBBPF_NLA_TYPE_MAX < np_type pt then Some 0
               else
                 let minlen = (if np_minlen pt \<noteq> 0 then np_minlen pt
                               else if np_type pt \<noteq> LIBBPF_NLA_UNSPEC then nla_attr_minlen ! np_type pt
                               else 0);
                     len = libbpf_nla_len l
                 in if len < int minlen then Some (- EINVAL)
                    else if np_maxlen pt \<noteq> 0 \<and> int (np_maxlen pt) < len then Some (- EINVAL)
                    else if np_type pt = LIBBPF_NLA_STRING then
                      let last = int (libbpf_nla_data off) + len - 1
                      in if last < 0 \<or> int (length bs) \<le> last then None
                         else Some (if bs ! nat last \<noteq> 0 then - EINVAL else 0)
                    else Some 0
      | _ \<Rightarrow> None)"

text \<open>The loop of \<open>libbpf_nla_parse\<close>; \<open>tb\<close> maps a type to the offset of its attribute.\<close>

function nla_parse_loop ::
    "byte list \<Rightarrow> nat \<Rightarrow> (nat \<Rightarrow> nla_policy) option \<Rightarrow> nat \<Rightarrow> int \<Rightarrow> (nat \<rightharpoonup> nat) \<Rightarrow>
     (int \<times> (nat \<rightharpoonup> nat)) option" where
  "nla_parse_loop bs maxtype policy off remaining tb =
     (case nla_ok bs off remaining of
        None \<Rightarrow> None
      | Some False \<Rightarrow> Some (0, tb)
      | Some True \<Rightarrow>
          (case (nla_type_at bs off, nla_len_at bs off) of
             (Some ty, Some l) \<Rightarrow>
               if maxtype < ty then
                 nla_parse_loop bs maxtype policy (off + NLA_ALIGN l) (remaining - int (NLA_ALIGN l)) tb
               else
                 (case (case policy of None \<Rightarrow> Some 0 | Some p \<Rightarrow> validate_nla bs off maxtype p) of
                    None \<Rightarrow> None
                  | Some err \<Rightarrow>
                      if err < 0 then Some (err, tb)
                      else nla_parse_loop bs maxtype policy (off + NLA_ALIGN l)
                             (remaining - int (NLA_ALIGN l)) (tb(ty \<mapsto> off)))
           | _ \<Rightarrow> None))"
  by pat_completeness auto
termination
proof (relation "measure (\<lambda>(bs, maxtype, policy, off, remaining, tb). nat remaining)")
  show "wf (measure (\<lambda>(bs :: byte list, maxtype :: nat, policy :: (nat \<Rightarrow> nla_policy) option,
      off :: nat, remaining, tb :: nat \<rightharpoonup> nat). nat remaining))" by simp
qed (auto simp: nla_ok_def NLA_ALIGN_def NLA_HDRLEN_def split: if_splits)

declare nla_parse_loop.simps [simp del]

definition libbpf_nla_parse ::
    "nat \<Rightarrow> byte list \<Rightarrow> nat \<Rightarrow> int \<Rightarrow> (nat \<Rightarrow> nla_policy) option \<Rightarrow>
     (int \<times> (nat \<rightharpoonup> nat)) option" where
  "libbpf_nla_parse maxtype bs head len policy =
     nla_parse_loop bs maxtype policy head len Map.empty"

definition libbpf_nla_parse_nested ::
    "nat \<Rightarrow> byte list \<Rightarrow> nat \<Rightarrow> (nat \<Rightarrow> nla_policy) option \<Rightarrow> (int \<times> (nat \<rightharpoonup> nat)) option" where
  "libbpf_nla_parse_nested maxtype bs off policy =
     Option.bind (nla_len_at bs off)
       (\<lambda>l. libbpf_nla_parse maxtype bs (libbpf_nla_data off) (libbpf_nla_len l) policy)"

section \<open>Payloads\<close>

text \<open>Reading \<open>k\<close> bytes at an offset.\<close>

definition bytes_at :: "nat \<Rightarrow> byte list \<Rightarrow> nat \<Rightarrow> byte list option" where
  "bytes_at k bs off = (if off + k \<le> length bs then Some (take k (drop off bs)) else None)"

definition libbpf_nla_getattr_u8 :: "byte list \<Rightarrow> nat \<Rightarrow> byte option" where
  "libbpf_nla_getattr_u8 bs off = map_option hd (bytes_at 1 bs (libbpf_nla_data off))"

definition libbpf_nla_getattr_u16 :: "byte list \<Rightarrow> nat \<Rightarrow> u16 option" where
  "libbpf_nla_getattr_u16 bs off = map_option le_u16 (bytes_at 2 bs (libbpf_nla_data off))"

definition libbpf_nla_getattr_u32 :: "byte list \<Rightarrow> nat \<Rightarrow> u32 option" where
  "libbpf_nla_getattr_u32 bs off = map_option le_u32 (bytes_at 4 bs (libbpf_nla_data off))"

definition libbpf_nla_getattr_u64 :: "byte list \<Rightarrow> nat \<Rightarrow> u64 option" where
  "libbpf_nla_getattr_u64 bs off = map_option le_u64 (bytes_at 8 bs (libbpf_nla_data off))"

text \<open>A C string: its bytes up to a NUL that has to be inside the buffer.\<close>

definition cstring_at :: "byte list \<Rightarrow> nat \<Rightarrow> byte list option" where
  "cstring_at bs off = (if 0 \<in> set (drop off bs) then Some (takeWhile (\<lambda>b. b \<noteq> 0) (drop off bs)) else None)"

definition libbpf_nla_getattr_str :: "byte list \<Rightarrow> nat \<Rightarrow> byte list option" where
  "libbpf_nla_getattr_str bs off = cstring_at bs (libbpf_nla_data off)"

section \<open>The extended error message\<close>

definition NLM_F_CAPPED :: u16 where "NLM_F_CAPPED = 0x100"
definition NLM_F_ACK_TLVS :: u16 where "NLM_F_ACK_TLVS = 0x200"
definition NLMSGERR_ATTR_MSG :: nat where "NLMSGERR_ATTR_MSG = 1"
definition NLMSGERR_ATTR_OFFS :: nat where "NLMSGERR_ATTR_OFFS = 2"
definition NLMSGERR_ATTR_MAX :: nat where "NLMSGERR_ATTR_MAX = 6"
definition sizeof_nlmsgerr :: int where "sizeof_nlmsgerr = 20"

definition extack_policy :: "nat \<Rightarrow> nla_policy" where
  "extack_policy i =
     \<lparr>np_type = (if i = NLMSGERR_ATTR_MSG then LIBBPF_NLA_STRING
                 else if i = NLMSGERR_ATTR_OFFS then LIBBPF_NLA_U32 else LIBBPF_NLA_UNSPEC),
      np_minlen = 0, np_maxlen = 0\<rparr>"

definition nlmsg_len :: "u32 \<Rightarrow> int" where
  "nlmsg_len len = sint (len - of_nat NLMSG_HDRLEN :: i32)"

text \<open>What is warned of: nothing, attributes that do not parse, or the kernel's message.\<close>

datatype errormsg = No_message | Parse_failed | Kernel_message "byte list option"

definition libbpf_nla_dump_errormsg :: "byte list \<Rightarrow> nat \<Rightarrow> errormsg option" where
  "libbpf_nla_dump_errormsg bs nlh = do {
     len \<leftarrow> map_option le_u32 (bytes_at 4 bs nlh);
     flags \<leftarrow> map_option le_u16 (bytes_at 2 bs (nlh + 6));
     if flags AND NLM_F_ACK_TLVS = 0 then Some No_message
     else do {
       hlen \<leftarrow> (if flags AND NLM_F_CAPPED = 0
                then map_option (\<lambda>l. sizeof_nlmsgerr + nlmsg_len (le_u32 l)) (bytes_at 4 bs (nlh + NLMSG_HDRLEN + 4))
                else Some sizeof_nlmsgerr);
       let attr = int nlh + int NLMSG_HDRLEN + hlen;
           alen = sint (of_int (int nlh + uint len - attr) :: i32)
       in do {
         (err, tb) \<leftarrow> (if attr < 0 then if 4 \<le> alen then None else Some (0, Map.empty)
                      else libbpf_nla_parse NLMSGERR_ATTR_MAX bs (nat attr) alen (Some extack_policy));
         if err \<noteq> 0 then Some Parse_failed
         else case tb NLMSGERR_ATTR_MSG of
             None \<Rightarrow> Some (Kernel_message None)
           | Some off \<Rightarrow> map_option (\<lambda>s. Kernel_message (Some s)) (cstring_at bs (libbpf_nla_data off)) } } }"

section \<open>Building a request\<close>

text \<open>\<open>struct libbpf_nla_req\<close>: the message header, 20 bytes of family header, 128 of buffer.\<close>

definition sizeof_nla_req :: nat where "sizeof_nla_req = 164"

record nla_req =
  nr_bytes :: "byte list"
  nr_len :: nat

definition req_tail :: "nla_req \<Rightarrow> nat" where
  "req_tail req = NLA_ALIGN (nr_len req)"

definition put_bytes :: "nat \<Rightarrow> byte list \<Rightarrow> byte list \<Rightarrow> byte list" where
  "put_bytes off xs bs = take off bs @ xs @ drop (off + length xs) bs"

text \<open>\<open>data\<close> is \<open>None\<close> for the null pointer; its length argument is the payload's.\<close>

definition nlattr_add :: "nla_req \<Rightarrow> u16 \<Rightarrow> byte list option \<Rightarrow> int \<times> nla_req" where
  "nlattr_add req ty data =
     (let len = (case data of None \<Rightarrow> 0 | Some d \<Rightarrow> length d)
      in if sizeof_nla_req < NLA_ALIGN (nr_len req) + NLA_ALIGN (NLA_HDRLEN + len)
         then (- EMSGSIZE, req)
         else if (data \<noteq> None) \<noteq> (len \<noteq> 0) then (- EINVAL, req)
         else
           let nla = req_tail req;
               hdr = u16_le (of_nat (NLA_HDRLEN + len)) @ u16_le ty
           in (0, req\<lparr>nr_bytes := put_bytes nla (hdr @ (case data of None \<Rightarrow> [] | Some d \<Rightarrow> d)) (nr_bytes req),
                      nr_len := NLA_ALIGN (nr_len req) + NLA_ALIGN (NLA_HDRLEN + len)\<rparr>))"

definition nlattr_begin_nested :: "nla_req \<Rightarrow> u16 \<Rightarrow> nat option \<times> nla_req" where
  "nlattr_begin_nested req ty =
     (let tail = req_tail req
      in case nlattr_add req (ty OR NLA_F_NESTED) None of
           (err, req') \<Rightarrow> if err \<noteq> 0 then (None, req) else (Some tail, req'))"

definition nlattr_end_nested :: "nla_req \<Rightarrow> nat \<Rightarrow> nla_req" where
  "nlattr_end_nested req tail =
     req\<lparr>nr_bytes := put_bytes tail (u16_le (of_nat (req_tail req - tail))) (nr_bytes req)\<rparr>"

section \<open>Lemmas\<close>

lemma NLA_ALIGN_facts: "n \<le> NLA_ALIGN n" "NLA_ALIGN n < n + 4" "4 dvd NLA_ALIGN n"
  by (auto simp: NLA_ALIGN_def)

lemma validate_defined:
  assumes "nla_len_at bs off = Some l" "off + l \<le> length bs" "4 \<le> l"
  shows "validate_nla bs off maxtype p \<noteq> None"
proof -
  have ty: "nla_type_at bs off \<noteq> None" using assms by (simp add: nla_type_at_def)
  show ?thesis
    using assms ty
    by (auto simp: validate_nla_def Let_def libbpf_nla_len_def libbpf_nla_data_def NLA_HDRLEN_def
        LIBBPF_NLA_STRING_def LIBBPF_NLA_UNSPEC_def nla_attr_minlen_def)
qed

text \<open>A stream inside the buffer is parsed without leaving it.\<close>

lemma parse_loop_in_bounds:
  assumes "int off + remaining \<le> int (length bs)"
    and "\<And>ty o'. tb ty = Some o' \<Longrightarrow> ty \<le> maxtype \<and> nla_type_at bs o' = Some ty \<and>
      (\<exists>l. nla_len_at bs o' = Some l \<and> NLA_HDRLEN \<le> l \<and> o' + l \<le> length bs)"
  shows "\<exists>err tb'. nla_parse_loop bs maxtype policy off remaining tb = Some (err, tb') \<and> err \<le> 0 \<and>
    (\<forall>ty o'. tb' ty = Some o' \<longrightarrow> ty \<le> maxtype \<and> nla_type_at bs o' = Some ty \<and>
      (\<exists>l. nla_len_at bs o' = Some l \<and> NLA_HDRLEN \<le> l \<and> o' + l \<le> length bs))"
  using assms
proof (induction bs maxtype policy off remaining tb rule: nla_parse_loop.induct)
  case (1 bs maxtype policy off remaining tb)
  show ?case
  proof (cases "remaining < 4")
    case True
    then have "nla_ok bs off remaining = Some False" by (simp add: nla_ok_def)
    then show ?thesis using "1.prems" by (subst nla_parse_loop.simps) auto
  next
    case False
    then have room: "off + 4 \<le> length bs" using "1.prems"(1) by linarith
    then obtain ty l where tl: "nla_type_at bs off = Some ty" "nla_len_at bs off = Some l"
      by (auto simp: nla_type_at_def nla_len_at_def)
    show ?thesis
    proof (cases "NLA_HDRLEN \<le> l \<and> int l \<le> remaining")
      case False
      then have "nla_ok bs off remaining = Some False"
        using \<open>\<not> remaining < 4\<close> tl(2) by (auto simp: nla_ok_def)
      then show ?thesis using "1.prems" by (subst nla_parse_loop.simps) auto
    next
      case True
      then have ok: "nla_ok bs off remaining = Some True"
        using \<open>\<not> remaining < 4\<close> tl(2) by (auto simp: nla_ok_def)
      have fits: "off + l \<le> length bs" using True "1.prems"(1) by linarith
      have next': "int (off + NLA_ALIGN l) + (remaining - int (NLA_ALIGN l)) \<le> int (length bs)"
        using "1.prems"(1) by simp
      show ?thesis
      proof (cases "maxtype < ty")
        case big: True
        then show ?thesis
          using "1.IH"(1) [OF ok refl refl tl big next' "1.prems"(2)] ok tl
          by (subst nla_parse_loop.simps) simp
      next
        case small: False
        define v where "v = (case policy of None \<Rightarrow> Some 0 | Some p \<Rightarrow> validate_nla bs off maxtype p)"
        have "v \<noteq> None"
          using validate_defined [OF tl(2) fits] True
          by (auto simp: v_def NLA_HDRLEN_def split: option.splits)
        then obtain err where err: "v = Some err" by auto
        show ?thesis
        proof (cases "err < 0")
          case True
          then show ?thesis
            using ok tl small err "1.prems"(2)
            by (subst nla_parse_loop.simps) (auto simp: v_def)
        next
          case False
          have tb': "\<And>t o'. (tb(ty \<mapsto> off)) t = Some o' \<Longrightarrow> t \<le> maxtype \<and> nla_type_at bs o' = Some t \<and>
              (\<exists>l. nla_len_at bs o' = Some l \<and> NLA_HDRLEN \<le> l \<and> o' + l \<le> length bs)"
            using "1.prems"(2) tl small True fits by (auto split: if_splits)
          show ?thesis
            using "1.IH"(2) [OF ok refl refl tl small err [unfolded v_def] False next' tb']
              ok tl small err False
            by (subst nla_parse_loop.simps) (simp add: v_def del: fun_upd_apply)
        qed
      qed
    qed
  qed
qed

section \<open>Round trip\<close>

text \<open>The bytes of an attribute, padded to four.\<close>

definition enc_attr :: "u16 \<times> byte list \<Rightarrow> byte list" where
  "enc_attr a =
     (case a of (ty, p) \<Rightarrow>
        u16_le (of_nat (NLA_HDRLEN + length p)) @ u16_le ty @ p @
        replicate (NLA_ALIGN (NLA_HDRLEN + length p) - (NLA_HDRLEN + length p)) 0)"

definition attr_type :: "u16 \<Rightarrow> nat" where
  "attr_type ty = unat (ty AND NLA_TYPE_MASK)"

text \<open>Where the attributes of a stream are: the last of each accepted type.\<close>

fun attr_index :: "nat \<Rightarrow> nat \<Rightarrow> (u16 \<times> byte list) list \<Rightarrow> (nat \<rightharpoonup> nat) \<Rightarrow> (nat \<rightharpoonup> nat)" where
  "attr_index maxtype off [] tb = tb"
| "attr_index maxtype off ((ty, p) # as) tb =
     attr_index maxtype (off + NLA_ALIGN (NLA_HDRLEN + length p)) as
       (if attr_type ty \<le> maxtype then tb(attr_type ty \<mapsto> off) else tb)"

lemma length_enc_attr: "length (enc_attr (ty, p)) = NLA_ALIGN (NLA_HDRLEN + length p)"
  using NLA_ALIGN_facts(1) [of "NLA_HDRLEN + length p"]
  by (simp add: enc_attr_def NLA_HDRLEN_def)

lemma attr_fields:
  assumes "length p < 65532"
  shows "nla_len_at (pre @ enc_attr (ty, p) @ rest) (length pre) = Some (NLA_HDRLEN + length p)"
    "nla_type_at (pre @ enc_attr (ty, p) @ rest) (length pre) = Some (attr_type ty)"
  using assms
  by (simp_all add: nla_len_at_def nla_type_at_def enc_attr_def attr_type_def NLA_HDRLEN_def unat_of_nat
      unat_word_ariths)

lemma parse_loop_enc:
  assumes "\<forall>(ty, p)\<in>set as. length p < 65532"
  shows "nla_parse_loop (pre @ concat (map enc_attr as)) maxtype None (length pre)
           (int (length (concat (map enc_attr as)))) tb =
         Some (0, attr_index maxtype (length pre) as tb)"
  using assms
proof (induction as arbitrary: pre tb)
  case Nil
  show ?case by (subst nla_parse_loop.simps) (simp add: nla_ok_def)
next
  case (Cons a as)
  obtain ty p where a: "a = (ty, p)" by (cases a)
  define rest where "rest = concat (map enc_attr as)"
  have p: "length p < 65532" using Cons.prems by (simp add: a)
  note f = attr_fields [OF p, of pre ty rest]
  define l where "l = NLA_HDRLEN + length p"
  have len: "length (enc_attr (ty, p)) = NLA_ALIGN l" by (simp add: length_enc_attr l_def)
  have l: "4 \<le> l" "l \<le> NLA_ALIGN l" using NLA_ALIGN_facts(1) by (simp_all add: l_def NLA_HDRLEN_def)
  have ok: "nla_ok (pre @ enc_attr (ty, p) @ rest) (length pre) (int (NLA_ALIGN l + length rest)) = Some True"
    using l f(1) [folded l_def] by (simp add: nla_ok_def NLA_HDRLEN_def)
  have ih: "nla_parse_loop (pre @ enc_attr (ty, p) @ rest) maxtype None (length pre + NLA_ALIGN l)
      (int (length rest)) tb = Some (0, attr_index maxtype (length pre + NLA_ALIGN l) as tb)" for tb
    using Cons.IH [of "pre @ enc_attr (ty, p)" tb] Cons.prems by (simp add: len rest_def)
  have r: "int (NLA_ALIGN l + length rest) - int (NLA_ALIGN l) = int (length rest)" by simp
  have "nla_parse_loop (pre @ enc_attr (ty, p) @ rest) maxtype None (length pre)
      (int (NLA_ALIGN l + length rest)) tb =
    Some (0, attr_index maxtype (length pre + NLA_ALIGN l) as
      (if attr_type ty \<le> maxtype then tb(attr_type ty \<mapsto> length pre) else tb))"
    using ok f ih
    by (subst nla_parse_loop.simps)
       (simp add: l_def [symmetric] r not_less del: of_nat_add fun_upd_apply)
  then show ?case by (simp add: a len rest_def l_def)
qed

section \<open>The error message\<close>

text \<open>Every attribute that parsing keeps has passed its policy.\<close>

lemma parse_loop_validated:
  assumes "nla_parse_loop bs maxtype (Some p) off remaining tb = Some (err, tb')"
    and "\<And>ty o'. tb ty = Some o' \<Longrightarrow> ty \<le> maxtype \<and> nla_type_at bs o' = Some ty \<and>
      (\<exists>e. validate_nla bs o' maxtype p = Some e \<and> 0 \<le> e)"
    and "tb' ty = Some o'"
  shows "ty \<le> maxtype \<and> nla_type_at bs o' = Some ty \<and> (\<exists>e. validate_nla bs o' maxtype p = Some e \<and> 0 \<le> e)"
  using assms
proof (induction bs maxtype "Some p" off remaining tb rule: nla_parse_loop.induct)
  case (1 bs maxtype off remaining tb)
  show ?case
  proof (cases "nla_ok bs off remaining = Some True")
    case False
    then have "tb' = tb"
      using "1.prems"(1) by (subst (asm) nla_parse_loop.simps) (auto split: option.splits bool.splits)
    then show ?thesis using "1.prems"(2,3) by blast
  next
    case ok: True
    obtain t l where tl: "nla_type_at bs off = Some t" "nla_len_at bs off = Some l"
      using "1.prems"(1) ok by (subst (asm) nla_parse_loop.simps) (auto split: option.splits)
    show ?thesis
    proof (cases "maxtype < t")
      case True
      then have "nla_parse_loop bs maxtype (Some p) (off + NLA_ALIGN l) (remaining - int (NLA_ALIGN l)) tb = Some (err, tb')"
        using "1.prems"(1) ok tl by (subst (asm) nla_parse_loop.simps) simp
      then show ?thesis using "1.hyps"(1) [OF ok refl refl tl True] "1.prems"(2,3) by blast
    next
      case False
      obtain e where e: "validate_nla bs off maxtype p = Some e"
        using "1.prems"(1) ok tl False by (subst (asm) nla_parse_loop.simps) (auto split: option.splits)
      show ?thesis
      proof (cases "e < 0")
        case True
        then have "tb' = tb"
          using "1.prems"(1) ok tl False e by (subst (asm) nla_parse_loop.simps) simp
        then show ?thesis using "1.prems"(2,3) by blast
      next
        case pos: False
        have l: "nla_parse_loop bs maxtype (Some p) (off + NLA_ALIGN l) (remaining - int (NLA_ALIGN l)) (tb(t \<mapsto> off)) =
            Some (err, tb')"
          using "1.prems"(1) ok tl False e pos by (subst (asm) nla_parse_loop.simps) simp
        have e': "(case Some p of None \<Rightarrow> Some 0 | Some p \<Rightarrow> validate_nla bs off maxtype p) = Some e" using e by simp
        have new: "ty \<le> maxtype \<and> nla_type_at bs o' = Some ty \<and> (\<exists>e. validate_nla bs o' maxtype p = Some e \<and> 0 \<le> e)"
          if "(tb(t \<mapsto> off)) ty = Some o'" for ty o'
          using that "1.prems"(2) tl(1) False e pos by (cases "ty = t") auto
        show ?thesis by (rule "1.hyps"(2) [OF ok refl refl tl False e' pos l new "1.prems"(3)])
      qed
    qed
  qed
qed

text \<open>So the message ends inside the buffer.\<close>

lemma message_terminated:
  assumes "validate_nla bs off NLMSGERR_ATTR_MAX extack_policy = Some e" "0 \<le> e"
    and "nla_type_at bs off = Some NLMSGERR_ATTR_MSG" "nla_len_at bs off = Some l" "off + l \<le> length bs"
  shows "\<exists>s. cstring_at bs (libbpf_nla_data off) = Some s"
proof -
  have v: "4 < l" "bs ! (off + l - 1) = 0"
    using assms
    by (auto simp: validate_nla_def extack_policy_def NLMSGERR_ATTR_MSG_def NLMSGERR_ATTR_MAX_def
        LIBBPF_NLA_STRING_def LIBBPF_NLA_TYPE_MAX_def LIBBPF_NLA_UNSPEC_def nla_attr_minlen_def libbpf_nla_len_def
        libbpf_nla_data_def NLA_HDRLEN_def Let_def nat_diff_distrib nat_add_distrib split: if_splits)
  have "drop (off + 4) bs ! (l - 5) = bs ! (off + l - 1)" "l - 5 < length (drop (off + 4) bs)"
    using v(1) assms(5) by (simp_all add: nth_drop)
  then have "0 \<in> set (drop (off + 4) bs)" using v(2) nth_mem by metis
  then show ?thesis by (simp add: cstring_at_def libbpf_nla_data_def NLA_HDRLEN_def)
qed

lemma sint_of_small: "- (2 ^ 31) \<le> x \<Longrightarrow> x < 2 ^ 31 \<Longrightarrow> sint (of_int x :: i32) = x"
  by (simp add: sint_sbintrunc' signed_take_bit_int_eq_self)

lemma nlmsg_len_small:
  assumes "unat len < 2 ^ 31"
  shows "nlmsg_len len = int (unat len) - 16"
proof -
  have b: "int (unat len) < 2 ^ 31"
    using assms of_nat_less_iff [of "unat len" "2 ^ 31", where 'a = int] by (simp only: of_nat_power of_nat_numeral)
  have "len - of_nat NLMSG_HDRLEN = of_int (int (unat len) - 16)" by (simp add: NLMSG_HDRLEN_def)
  moreover have "sint (of_int (int (unat len) - 16) :: i32) = int (unat len) - 16"
    by (rule sint_of_small) (use b in \<open>simp_all\<close>)
  ultimately show ?thesis by (simp only: nlmsg_len_def)
qed

text \<open>The message of the kernel is found without leaving the buffer.\<close>

lemma dump_errormsg_defined:
  assumes "nlh + 36 \<le> nlh + unat (le_u32 (take 4 (drop nlh bs)))" "nlh + unat (le_u32 (take 4 (drop nlh bs))) \<le> length bs"
    and "length bs < 2 ^ 31" "unat (le_u32 (take 4 (drop (nlh + 20) bs))) < 2 ^ 31"
  shows "libbpf_nla_dump_errormsg bs nlh \<noteq> None"
proof -
  define len where "len = le_u32 (take 4 (drop nlh bs))"
  define flags where "flags = le_u16 (take 2 (drop (nlh + 6) bs))"
  define il where "il = le_u32 (take 4 (drop (nlh + 20) bs))"
  define hlen where "hlen = (if flags AND NLM_F_CAPPED = 0 then sizeof_nlmsgerr + nlmsg_len il else sizeof_nlmsgerr)"
  have b: "36 \<le> unat len" "nlh + unat len \<le> length bs" "unat il < 2 ^ 31"
    using assms by (simp_all add: len_def il_def)
  have b3: "int (unat il) < 2 ^ 31"
    using b(3) of_nat_less_iff [of "unat il" "2 ^ 31", where 'a = int] by (simp only: of_nat_power of_nat_numeral)
  have n: "nlmsg_len il = int (unat il) - 16" by (rule nlmsg_len_small [OF b(3)])
  have h: "4 \<le> hlen" "hlen < 2 ^ 31 + 4" using n b3 by (auto simp: hlen_def sizeof_nlmsgerr_def)
  define attr where "attr = nat (int nlh + 16 + hlen)"
  have at: "int nlh + int NLMSG_HDRLEN + hlen = int attr" using h(1) by (simp add: attr_def NLMSG_HDRLEN_def)
  define alen where "alen = int nlh + int (unat len) - int attr"
  have "int (length bs) < 2 ^ 31"
    using assms(3) of_nat_less_iff [of "length bs" "2 ^ 31", where 'a = int] by (simp only: of_nat_power of_nat_numeral)
  moreover have "36 \<le> int (unat len)" "int nlh + int (unat len) \<le> int (length bs)" using b(1,2) by linarith+
  ultimately have "- (2 ^ 31) \<le> alen" "alen < 2 ^ 31" using at h by (simp_all add: alen_def NLMSG_HDRLEN_def)
  then have al: "sint (of_int (int nlh + uint len - int attr) :: i32) = alen"
    using sint_of_small [of alen] by (simp add: alen_def del: of_int_diff of_int_add)
  have end': "int attr + alen \<le> int (length bs)" using b(2) unfolding alen_def by linarith
  obtain err tb where tb: "libbpf_nla_parse NLMSGERR_ATTR_MAX bs attr alen (Some extack_policy) = Some (err, tb)"
    "\<And>o'. tb NLMSGERR_ATTR_MSG = Some o' \<Longrightarrow> nla_type_at bs o' = Some NLMSGERR_ATTR_MSG \<and>
      (\<exists>l. nla_len_at bs o' = Some l \<and> o' + l \<le> length bs)"
    using parse_loop_in_bounds [OF end', of Map.empty NLMSGERR_ATTR_MAX "Some extack_policy"]
    unfolding libbpf_nla_parse_def by fastforce
  have "\<exists>s. cstring_at bs (libbpf_nla_data o') = Some s" if "tb NLMSGERR_ATTR_MSG = Some o'" for o'
    using tb(2) [OF that] parse_loop_validated [OF tb(1) [unfolded libbpf_nla_parse_def] _ that] message_terminated
    by auto
  then have msg: "(case tb NLMSGERR_ATTR_MSG of None \<Rightarrow> Some (Kernel_message None)
      | Some off \<Rightarrow> map_option (\<lambda>s. Kernel_message (Some s)) (cstring_at bs (libbpf_nla_data off))) \<noteq> None"
    by (auto split: option.splits)
  have rd: "bytes_at 4 bs nlh = Some (take 4 (drop nlh bs))" "bytes_at 2 bs (nlh + 6) = Some (take 2 (drop (nlh + 6) bs))"
    "bytes_at 4 bs (nlh + NLMSG_HDRLEN + 4) = Some (take 4 (drop (nlh + 20) bs))"
    using b(1,2) by (simp_all add: bytes_at_def NLMSG_HDRLEN_def add.commute [of nlh])
  have hl: "(if flags AND NLM_F_CAPPED = 0 then Some (sizeof_nlmsgerr + nlmsg_len il) else Some sizeof_nlmsgerr) = Some hlen"
    by (simp add: hlen_def)
  have "libbpf_nla_dump_errormsg bs nlh = (if flags AND NLM_F_ACK_TLVS = 0 then Some No_message
      else if err \<noteq> 0 then Some Parse_failed
      else case tb NLMSGERR_ATTR_MSG of None \<Rightarrow> Some (Kernel_message None)
        | Some off \<Rightarrow> map_option (\<lambda>s. Kernel_message (Some s)) (cstring_at bs (libbpf_nla_data off)))"
    by (simp only: libbpf_nla_dump_errormsg_def rd option.map bind.bind_lunit len_def [symmetric] flags_def [symmetric]
        il_def [symmetric] hl Let_def at al nat_int tb(1) prod.case of_nat_less_0_iff if_False split: if_splits)
  then show ?thesis using msg by simp
qed

end
