(* ===== verification/Prog_Linfo.thy ===== *)
theory Prog_Linfo
  imports Prelude
begin

text \<open>
  \<open>lib/libbpf/src/bpf_prog_linfo.c\<close>: the line information of a loaded program and of its
  jited image, and the search for the line of an instruction or an address. The tables are the
  bytes the kernel filled in; a record is named by its offset. Counts and sizes are natural
  numbers below \<open>2 ^ 32\<close>; the two products computed in 32 bits are written out with their
  wrap-around. \<open>None\<close> is a read outside a table.
\<close>

section \<open>State\<close>

record prog_info =
  pi_nr_line_info :: nat
  pi_line_info_rec_size :: nat
  pi_line_info :: "byte list"
  pi_nr_jited_ksyms :: nat
  pi_jited_line_info :: "byte list option"
  pi_nr_jited_line_info :: nat
  pi_jited_line_info_rec_size :: nat
  pi_nr_jited_func_lens :: nat
  pi_jited_ksyms :: "u64 list option"
  pi_jited_func_lens :: "u32 list option"

record prog_linfo =
  pl_raw_linfo :: "byte list"
  pl_raw_jited_linfo :: "byte list"
  pl_per_func :: "nat list"
  pl_func_idx :: "nat list"
  pl_nr_linfo :: nat
  pl_nr_jited_func :: nat
  pl_rec_size :: nat
  pl_jited_rec_size :: nat

definition read_u32 :: "byte list \<Rightarrow> nat \<Rightarrow> u32 option" where
  "read_u32 bs off = (if off + 4 \<le> length bs then Some (le_u32 (drop off bs)) else None)"

definition read_u64 :: "byte list \<Rightarrow> nat \<Rightarrow> u64 option" where
  "read_u64 bs off = (if off + 8 \<le> length bs then Some (le_u64 (drop off bs)) else None)"

section \<open>Splitting the jited records by function\<close>

text \<open>
  The loop of \<open>dissect_jited_func\<close>; \<open>m\<close> is \<open>nr_linfo - i\<close>. The result is the code and the
  filled tables; \<open>None\<close> a read outside the jited records or the kernel's symbol tables.
\<close>

fun dissect_loop ::
    "nat \<Rightarrow> prog_linfo \<Rightarrow> u64 list \<Rightarrow> u32 list \<Rightarrow> nat \<Rightarrow> nat \<Rightarrow> nat \<Rightarrow> u64 \<Rightarrow> (int \<times> prog_linfo) option"
  where
  "dissect_loop 0 pl ksym_func ksym_len i prev_i f jited =
     (if f \<noteq> pl_nr_jited_func pl then Some (- EINVAL, pl)
      else Some (0, pl\<lparr>pl_per_func := (pl_per_func pl)[pl_nr_jited_func pl - 1 := pl_nr_linfo pl - prev_i]\<rparr>))"
| "dissect_loop (Suc m) pl ksym_func ksym_len i prev_i f jited =
     (if \<not> f < pl_nr_jited_func pl then
        (if f \<noteq> pl_nr_jited_func pl then Some (- EINVAL, pl)
         else Some (0, pl\<lparr>pl_per_func := (pl_per_func pl)[pl_nr_jited_func pl - 1 := pl_nr_linfo pl - prev_i]\<rparr>))
      else
        case read_u64 (pl_raw_jited_linfo pl) (i * pl_jited_rec_size pl) of
          None \<Rightarrow> None
        | Some cur \<Rightarrow>
            if length ksym_func \<le> f \<or> length ksym_len \<le> f - 1 then None
            else if ksym_func ! f = cur then
              let pl = pl\<lparr>pl_func_idx := (pl_func_idx pl)[f := i]\<rparr>
              in if ucast (ksym_len ! (f - 1)) < jited - ksym_func ! (f - 1) + 1
                 then Some (- EINVAL, pl)
                 else dissect_loop m (pl\<lparr>pl_per_func := (pl_per_func pl)[f - 1 := i - prev_i]\<rparr>)
                        ksym_func ksym_len (i + 1) i (f + 1) cur
            else if cur \<le> jited then Some (- EINVAL, pl)
            else dissect_loop m pl ksym_func ksym_len (i + 1) prev_i f cur)"

definition dissect_jited_func ::
    "prog_linfo \<Rightarrow> u64 list \<Rightarrow> u32 list \<Rightarrow> (int \<times> prog_linfo) option" where
  "dissect_jited_func pl ksym_func ksym_len =
     (case read_u64 (pl_raw_jited_linfo pl) 0 of
        None \<Rightarrow> None
      | Some jited \<Rightarrow>
          if length ksym_func = 0 then None
          else if ksym_func ! 0 \<noteq> jited then Some (- EINVAL, pl)
          else dissect_loop (pl_nr_linfo pl - 1) (pl\<lparr>pl_func_idx := (pl_func_idx pl)[0 := 0]\<rparr>)
                 ksym_func ksym_len 1 0 1 jited)"

section \<open>Creating\<close>

record linfo_env =
  li_calloc :: bool
  li_raw :: bool
  li_jited :: bool
  li_per_func :: bool
  li_func_idx :: bool

text \<open>\<open>offsetof(struct bpf_line_info, file_name_off)\<close>\<close>

definition MIN_LINFO_REC :: nat where "MIN_LINFO_REC = 4"

definition bpf_prog_linfo__new :: "linfo_env \<Rightarrow> prog_info \<Rightarrow> (int + prog_linfo) option" where
  "bpf_prog_linfo__new env info =
     (let nr_linfo = pi_nr_line_info info
      in if nr_linfo = 0 then Some (Inl EINVAL)
         else if pi_line_info_rec_size info < MIN_LINFO_REC then Some (Inl EINVAL)
         else if \<not> li_calloc env then Some (Inl ENOMEM)
         else if \<not> li_raw env then Some (Inl EINVAL)
         else if length (pi_line_info info) < nr_linfo * pi_line_info_rec_size info then None
         else
           let pl = \<lparr>pl_raw_linfo = take (nr_linfo * pi_line_info_rec_size info) (pi_line_info info),
                     pl_raw_jited_linfo = [], pl_per_func = [], pl_func_idx = [],
                     pl_nr_linfo = nr_linfo, pl_nr_jited_func = 0,
                     pl_rec_size = pi_line_info_rec_size info, pl_jited_rec_size = 0\<rparr>;
               nf = pi_nr_jited_ksyms info
           in case (pi_jited_line_info info, pi_jited_ksyms info, pi_jited_func_lens info) of
                (Some jl, Some ks, Some lens) \<Rightarrow>
                  if nf = 0 \<or> pi_nr_jited_line_info info \<noteq> nr_linfo \<or>
                     pi_jited_line_info_rec_size info < 8 \<or> pi_nr_jited_func_lens info \<noteq> nf
                  then Some (Inr pl)
                  else if \<not> li_jited env \<or> \<not> li_per_func env \<or> \<not> li_func_idx env then Some (Inl EINVAL)
                  else if length jl < nr_linfo * pi_jited_line_info_rec_size info then None
                  else
                    map_option (\<lambda>(err, pl). if err \<noteq> 0 then Inl EINVAL else Inr pl)
                      (dissect_jited_func
                        (pl\<lparr>pl_nr_jited_func := nf, pl_jited_rec_size := pi_jited_line_info_rec_size info,
                            pl_raw_jited_linfo := take (nr_linfo * pi_jited_line_info_rec_size info) jl,
                            pl_per_func := replicate nf 0, pl_func_idx := replicate nf 0\<rparr>)
                        ks lens)
              | _ \<Rightarrow> Some (Inr pl))"

section \<open>Searching\<close>

text \<open>
  The search loop: \<open>m\<close> iterations are left, \<open>joff\<close> and \<open>roff\<close> are the offsets in the
  searched and in the returned table. It stops at the first key beyond the target.
\<close>

fun jited_find_loop :: "nat \<Rightarrow> byte list \<Rightarrow> nat \<Rightarrow> nat \<Rightarrow> u64 \<Rightarrow> nat \<Rightarrow> nat \<Rightarrow> nat option" where
  "jited_find_loop 0 js jsz rsz addr joff roff = Some roff"
| "jited_find_loop (Suc m) js jsz rsz addr joff roff =
     (case read_u64 js joff of
        None \<Rightarrow> None
      | Some a \<Rightarrow> if addr < a then Some roff
                  else jited_find_loop m js jsz rsz addr (joff + jsz) (roff + rsz))"

definition bpf_prog_linfo__lfind_addr_func ::
    "prog_linfo \<Rightarrow> u64 \<Rightarrow> nat \<Rightarrow> nat \<Rightarrow> (int + nat) option" where
  "bpf_prog_linfo__lfind_addr_func pl addr func_idx nr_skip =
     (if pl_nr_jited_func pl \<le> func_idx then Some (Inl ENOENT)
      else if length (pl_per_func pl) \<le> func_idx \<or> length (pl_func_idx pl) \<le> func_idx then None
      else
        let nr_linfo = pl_per_func pl ! func_idx
        in if nr_linfo \<le> nr_skip then Some (Inl ENOENT)
           else
             let start = (pl_func_idx pl ! func_idx + nr_skip) mod 2 ^ 32;
                 joff = (start * pl_jited_rec_size pl) mod 2 ^ 32
             in case read_u64 (pl_raw_jited_linfo pl) joff of
                  None \<Rightarrow> None
                | Some a \<Rightarrow>
                    if addr < a then Some (Inl ENOENT)
                    else map_option (\<lambda>roff. Inr (roff - pl_rec_size pl))
                           (jited_find_loop (nr_linfo - nr_skip) (pl_raw_jited_linfo pl)
                             (pl_jited_rec_size pl) (pl_rec_size pl) addr joff
                             ((start * pl_rec_size pl) mod 2 ^ 32)))"

fun linfo_find_loop :: "nat \<Rightarrow> byte list \<Rightarrow> nat \<Rightarrow> u32 \<Rightarrow> nat \<Rightarrow> nat option" where
  "linfo_find_loop 0 ls rsz insn_off roff = Some roff"
| "linfo_find_loop (Suc m) ls rsz insn_off roff =
     (case read_u32 ls roff of
        None \<Rightarrow> None
      | Some o' \<Rightarrow> if insn_off < o' then Some roff
                   else linfo_find_loop m ls rsz insn_off (roff + rsz))"

definition bpf_prog_linfo__lfind :: "prog_linfo \<Rightarrow> u32 \<Rightarrow> nat \<Rightarrow> (int + nat) option" where
  "bpf_prog_linfo__lfind pl insn_off nr_skip =
     (let nr_linfo = pl_nr_linfo pl
      in if nr_linfo \<le> nr_skip then Some (Inl ENOENT)
         else
           let roff = (nr_skip * pl_rec_size pl) mod 2 ^ 32
           in case read_u32 (pl_raw_linfo pl) roff of
                None \<Rightarrow> None
              | Some o' \<Rightarrow>
                  if insn_off < o' then Some (Inl ENOENT)
                  else map_option (\<lambda>r. Inr (r - pl_rec_size pl))
                         (linfo_find_loop (nr_linfo - nr_skip) (pl_raw_linfo pl) (pl_rec_size pl)
                           insn_off roff))"

section \<open>Lemmas\<close>

definition insn_of :: "prog_linfo \<Rightarrow> nat \<Rightarrow> u32" where
  "insn_of pl k = le_u32 (drop (k * pl_rec_size pl) (pl_raw_linfo pl))"

text \<open>A table that \<open>bpf_prog_linfo__new\<close> made, small enough for the 32-bit products.\<close>

definition linfo_wf :: "prog_linfo \<Rightarrow> bool" where
  "linfo_wf pl \<longleftrightarrow> 4 \<le> pl_rec_size pl \<and> length (pl_raw_linfo pl) = pl_nr_linfo pl * pl_rec_size pl \<and>
     pl_nr_linfo pl * pl_rec_size pl < 2 ^ 32"

lemma read_insn:
  assumes "linfo_wf pl" "k < pl_nr_linfo pl"
  shows "read_u32 (pl_raw_linfo pl) (k * pl_rec_size pl) = Some (insn_of pl k)"
proof -
  have "Suc k * pl_rec_size pl \<le> pl_nr_linfo pl * pl_rec_size pl"
    using assms(2) by (intro mult_le_mono1) simp
  then show ?thesis using assms(1) by (simp add: linfo_wf_def read_u32_def insn_of_def)
qed

lemma linfo_find_loop_spec:
  assumes "linfo_wf pl" "k + m = pl_nr_linfo pl"
  shows "\<exists>r. linfo_find_loop m (pl_raw_linfo pl) (pl_rec_size pl) t (k * pl_rec_size pl) =
      Some (r * pl_rec_size pl) \<and> k \<le> r \<and> r \<le> pl_nr_linfo pl \<and>
    (\<forall>j. k \<le> j \<and> j < r \<longrightarrow> insn_of pl j \<le> t) \<and> (r < pl_nr_linfo pl \<longrightarrow> t < insn_of pl r)"
  using assms(2)
proof (induction m arbitrary: k)
  case 0
  then show ?case by (intro exI [of _ k]) auto
next
  case (Suc m)
  have rd: "read_u32 (pl_raw_linfo pl) (k * pl_rec_size pl) = Some (insn_of pl k)"
    using Suc.prems by (intro read_insn [OF assms(1)]) simp
  show ?case
  proof (cases "t < insn_of pl k")
    case True
    then show ?thesis using rd Suc.prems by (intro exI [of _ k]) auto
  next
    case False
    obtain r where r: "linfo_find_loop m (pl_raw_linfo pl) (pl_rec_size pl) t (Suc k * pl_rec_size pl) =
        Some (r * pl_rec_size pl)" "Suc k \<le> r" "r \<le> pl_nr_linfo pl"
      "\<forall>j. Suc k \<le> j \<and> j < r \<longrightarrow> insn_of pl j \<le> t" "r < pl_nr_linfo pl \<longrightarrow> t < insn_of pl r"
      using Suc.IH [of "Suc k"] Suc.prems by auto
    have "\<forall>j. k \<le> j \<and> j < r \<longrightarrow> insn_of pl j \<le> t"
      using r(4) False by (metis le_less not_less Suc_leI le_neq_implies_less)
    then show ?thesis
      using r rd False by (intro exI [of _ r]) (simp add: add.commute)
  qed
qed

lemma lfind_spec:
  assumes wf: "linfo_wf pl" and skip: "nr_skip < pl_nr_linfo pl"
  shows "if t < insn_of pl nr_skip then bpf_prog_linfo__lfind pl t nr_skip = Some (Inl ENOENT)
    else \<exists>r. bpf_prog_linfo__lfind pl t nr_skip = Some (Inr (r * pl_rec_size pl)) \<and>
      nr_skip \<le> r \<and> r < pl_nr_linfo pl \<and>
      (\<forall>j. nr_skip \<le> j \<and> j \<le> r \<longrightarrow> insn_of pl j \<le> t) \<and>
      (Suc r < pl_nr_linfo pl \<longrightarrow> t < insn_of pl (Suc r))"
proof -
  have "nr_skip * pl_rec_size pl \<le> pl_nr_linfo pl * pl_rec_size pl"
    using skip by (intro mult_le_mono1) simp
  then have "nr_skip * pl_rec_size pl < 2 ^ 32" using wf unfolding linfo_wf_def by linarith
  then have off: "(nr_skip * pl_rec_size pl) mod 2 ^ 32 = nr_skip * pl_rec_size pl"
    by (rule mod_less)
  note rd = read_insn [OF wf skip]
  obtain r where r: "linfo_find_loop (pl_nr_linfo pl - nr_skip) (pl_raw_linfo pl) (pl_rec_size pl) t
      (nr_skip * pl_rec_size pl) = Some (r * pl_rec_size pl)" "nr_skip \<le> r" "r \<le> pl_nr_linfo pl"
    "\<forall>j. nr_skip \<le> j \<and> j < r \<longrightarrow> insn_of pl j \<le> t" "r < pl_nr_linfo pl \<longrightarrow> t < insn_of pl r"
    using linfo_find_loop_spec [OF wf, of nr_skip "pl_nr_linfo pl - nr_skip" t] skip by auto
  show ?thesis
  proof (cases "t < insn_of pl nr_skip")
    case True
    then show ?thesis using skip rd off by (simp add: bpf_prog_linfo__lfind_def)
  next
    case False
    then have "r \<noteq> nr_skip" using r(5) skip by auto
    then obtain r' where r': "r = Suc r'" "nr_skip \<le> r'" using r(2) by (cases r) auto
    have "r * pl_rec_size pl - pl_rec_size pl = r' * pl_rec_size pl" by (simp add: r')
    then have "bpf_prog_linfo__lfind pl t nr_skip = Some (Inr (r' * pl_rec_size pl))"
      using skip rd off False r(1) by (simp add: bpf_prog_linfo__lfind_def)
    then show ?thesis using False r r' by (auto simp: less_Suc_eq_le)
  qed
qed

text \<open>
  A successful split is a partition: the counts add up to the number of records, and the
  first record of each function comes right after those of the functions before it.
\<close>

definition split_upto :: "prog_linfo \<Rightarrow> nat \<Rightarrow> nat \<Rightarrow> bool" where
  "split_upto pl f prev_i \<longleftrightarrow>
     f \<le> pl_nr_jited_func pl \<and> 0 < f \<and>
     length (pl_per_func pl) = pl_nr_jited_func pl \<and> length (pl_func_idx pl) = pl_nr_jited_func pl \<and>
     (\<forall>g<f. pl_func_idx pl ! g = sum_list (take g (pl_per_func pl))) \<and>
     (\<forall>g<f - 1. 0 < pl_per_func pl ! g) \<and>
     prev_i = sum_list (take (f - 1) (pl_per_func pl))"

lemma take_update_before: "i \<le> j \<Longrightarrow> take i (xs[j := x]) = take i xs"
  by simp

lemma sum_take_Suc: "i < length xs \<Longrightarrow> sum_list (take (Suc i) xs) = sum_list (take i xs) + (xs ! i :: nat)"
  by (simp add: take_Suc_conv_app_nth)

lemma split_step:
  assumes inv: "split_upto pl f prev_i" and f: "f < pl_nr_jited_func pl" and i: "prev_i < i"
  defines "pl' \<equiv> pl\<lparr>pl_func_idx := (pl_func_idx pl)[f := i]\<rparr>\<lparr>pl_per_func := (pl_per_func pl)[f - 1 := i - prev_i]\<rparr>"
  shows "split_upto pl' (f + 1) i"
proof -
  have f1: "f - 1 < length (pl_per_func pl)" "0 < f" "Suc (f - 1) = f"
    using inv f by (auto simp: split_upto_def)
  have s: "sum_list (take f ((pl_per_func pl)[f - 1 := i - prev_i])) = i"
    using sum_take_Suc [of "f - 1" "(pl_per_func pl)[f - 1 := i - prev_i]"] inv f1 i
    by (simp add: split_upto_def)
  have "(pl_func_idx pl)[f := i] ! g = sum_list (take g ((pl_per_func pl)[f - 1 := i - prev_i]))"
    if "g < f + 1" for g
  proof (cases "g = f")
    case True
    then show ?thesis using s f inv by (simp add: split_upto_def)
  next
    case False
    then have "g \<le> f - 1" "g < f" using that by auto
    then show ?thesis using inv by (simp add: split_upto_def)
  qed
  moreover have "0 < (pl_per_func pl)[f - 1 := i - prev_i] ! g" if "g < f" for g
    using that inv i f1 by (cases "g = f - 1") (auto simp: split_upto_def nth_list_update)
  ultimately show ?thesis
    using inv f s by (auto simp: split_upto_def pl'_def)
qed

definition partitioned :: "prog_linfo \<Rightarrow> bool" where
  "partitioned pl \<longleftrightarrow>
     sum_list (pl_per_func pl) = pl_nr_linfo pl \<and> length (pl_per_func pl) = pl_nr_jited_func pl \<and>
     (\<forall>g<pl_nr_jited_func pl. 0 < pl_per_func pl ! g \<and>
       pl_func_idx pl ! g = sum_list (take g (pl_per_func pl)))"

lemma split_finish:
  assumes inv: "split_upto pl (pl_nr_jited_func pl) prev_i" and i: "prev_i < pl_nr_linfo pl"
  shows "partitioned (pl\<lparr>pl_per_func := (pl_per_func pl)[pl_nr_jited_func pl - 1 := pl_nr_linfo pl - prev_i]\<rparr>)"
proof -
  define n xs where "n = pl_nr_jited_func pl" and "xs = (pl_per_func pl)[n - 1 := pl_nr_linfo pl - prev_i]"
  have n: "length (pl_per_func pl) = n" "0 < n" "Suc (n - 1) = n"
    using inv by (auto simp: split_upto_def n_def)
  have "sum_list (take n xs) = pl_nr_linfo pl"
    using sum_take_Suc [of "n - 1" xs] inv n i by (simp add: split_upto_def xs_def n_def)
  moreover have "take n xs = xs" using n by (simp add: xs_def)
  moreover have "0 < xs ! g" if "g < n" for g
    using that inv n i by (cases "g = n - 1") (auto simp: split_upto_def xs_def n_def nth_list_update)
  moreover have "pl_func_idx pl ! g = sum_list (take g xs)" if "g < n" for g
    using that inv by (simp add: split_upto_def n_def xs_def)
  ultimately show ?thesis
    using n by (auto simp: partitioned_def xs_def n_def)
qed

lemma dissect_loop_partition:
  assumes "dissect_loop m pl ksym len i prev_i f jited = Some (0, pl')" "split_upto pl f prev_i"
    "prev_i < i" "i + m = pl_nr_linfo pl"
  shows "partitioned pl' \<and> pl_nr_linfo pl' = pl_nr_linfo pl \<and> pl_nr_jited_func pl' = pl_nr_jited_func pl"
  using assms
proof (induction m arbitrary: pl i prev_i f jited)
  case 0
  then show ?case using split_finish [of pl prev_i] by (auto split: if_splits)
next
  case (Suc m)
  show ?case
  proof (cases "f < pl_nr_jited_func pl")
    case False
    then show ?thesis using Suc.prems split_finish [of pl prev_i] by (auto split: if_splits)
  next
    case f: True
    obtain cur where cur: "read_u64 (pl_raw_jited_linfo pl) (i * pl_jited_rec_size pl) = Some cur"
      using Suc.prems(1) f by (auto split: option.splits)
    show ?thesis
    proof (cases "ksym ! f = cur")
      case True
      define pl2 where "pl2 = pl\<lparr>pl_func_idx := (pl_func_idx pl)[f := i]\<rparr>
        \<lparr>pl_per_func := (pl_per_func pl)[f - 1 := i - prev_i]\<rparr>"
      have "dissect_loop m pl2 ksym len (i + 1) i (f + 1) cur = Some (0, pl')"
        using Suc.prems(1) f cur True by (auto simp: Let_def pl2_def split: if_splits)
      moreover have "split_upto pl2 (f + 1) i"
        unfolding pl2_def using Suc.prems(2) f Suc.prems(3) by (rule split_step)
      ultimately show ?thesis
        using Suc.IH [of pl2 "i + 1" i "f + 1" cur] Suc.prems(4) by (simp add: pl2_def)
    next
      case False
      then have "dissect_loop m pl ksym len (i + 1) prev_i f cur = Some (0, pl')"
        using Suc.prems(1) f cur by (auto split: if_splits)
      then show ?thesis using Suc.IH [of pl "i + 1" prev_i f cur] Suc.prems(2-4) by simp
    qed
  qed
qed

lemma dissect_partition:
  assumes "dissect_jited_func pl ksym len = Some (0, pl')" "0 < pl_nr_linfo pl" "0 < pl_nr_jited_func pl"
    "length (pl_per_func pl) = pl_nr_jited_func pl" "length (pl_func_idx pl) = pl_nr_jited_func pl"
  shows "partitioned pl' \<and> pl_nr_linfo pl' = pl_nr_linfo pl \<and> pl_nr_jited_func pl' = pl_nr_jited_func pl"
proof -
  obtain jited where "dissect_loop (pl_nr_linfo pl - 1) (pl\<lparr>pl_func_idx := (pl_func_idx pl)[0 := 0]\<rparr>)
      ksym len 1 0 1 jited = Some (0, pl')"
    using assms(1) by (auto simp: dissect_jited_func_def split: option.splits if_splits)
  moreover have "split_upto (pl\<lparr>pl_func_idx := (pl_func_idx pl)[0 := 0]\<rparr>) 1 0"
    using assms(3-5) by (auto simp: split_upto_def)
  ultimately show ?thesis
    using dissect_loop_partition [of _ "pl\<lparr>pl_func_idx := (pl_func_idx pl)[0 := 0]\<rparr>"] assms(2) by fastforce
qed

end
