(* ===== verification/Zip.thy ===== *)
theory Zip
  imports Prelude
begin

text \<open>
  \<open>lib/libbpf/src/zip.c\<close>: finding a file in a ZIP archive mapped into memory. The packed
  structures are read by field from the archive's bytes; every such read goes through
  \<open>rd16\<close> and \<open>rd32\<close>, and \<open>None\<close> is a read outside the mapping. Offsets are 32 bits wide.
\<close>

section \<open>Packed structures\<close>

definition END_OF_CD_RECORD_MAGIC :: u32 where "END_OF_CD_RECORD_MAGIC = 0x06054b50"
definition CD_FILE_HEADER_MAGIC :: u32 where "CD_FILE_HEADER_MAGIC = 0x02014b50"
definition LOCAL_FILE_HEADER_MAGIC :: u32 where "LOCAL_FILE_HEADER_MAGIC = 0x04034b50"
definition FLAG_ENCRYPTED :: u16 where "FLAG_ENCRYPTED = 1"
definition FLAG_HAS_DATA_DESCRIPTOR :: u16 where "FLAG_HAS_DATA_DESCRIPTOR = 8"
definition sizeof_eocd :: nat where "sizeof_eocd = 22"
definition sizeof_cdfh :: nat where "sizeof_cdfh = 46"
definition sizeof_lfh :: nat where "sizeof_lfh = 30"

record zip_archive =
  za_data :: "byte list"
  za_cd_offset :: u32
  za_cd_records :: u32

record zip_entry =
  ze_compression :: u16
  ze_name :: nat
  ze_name_length :: u16
  ze_data :: nat
  ze_data_length :: u32
  ze_data_offset :: u32

definition za_size :: "zip_archive \<Rightarrow> u32" where
  "za_size a = of_nat (length (za_data a))"

definition rd16 :: "zip_archive \<Rightarrow> nat \<Rightarrow> u16 option" where
  "rd16 a off = (if off + 2 \<le> length (za_data a) then Some (le_u16 (drop off (za_data a))) else None)"

definition rd32 :: "zip_archive \<Rightarrow> nat \<Rightarrow> u32 option" where
  "rd32 a off = (if off + 4 \<le> length (za_data a) then Some (le_u32 (drop off (za_data a))) else None)"

text \<open>\<open>check_access\<close> returns a pointer into the mapping (its offset) or null.\<close>

definition check_access :: "zip_archive \<Rightarrow> u32 \<Rightarrow> u32 \<Rightarrow> nat option" where
  "check_access a offset sz =
     (if za_size a < offset + sz \<or> offset + sz < offset then None else Some (unat offset))"

record eocd =
  eo_this_disk :: u16
  eo_cd_disk :: u16
  eo_cd_records :: u16
  eo_cd_records_total :: u16
  eo_cd_size :: u32
  eo_cd_offset :: u32
  eo_comment_length :: u16

definition rd_eocd :: "zip_archive \<Rightarrow> nat \<Rightarrow> eocd option" where
  "rd_eocd a p =
     (case (rd16 a (p + 4), rd16 a (p + 6), rd16 a (p + 8), rd16 a (p + 10), rd32 a (p + 12),
            rd32 a (p + 16), rd16 a (p + 20)) of
        (Some td, Some cd, Some cr, Some ct, Some cs, Some co, Some cl) \<Rightarrow>
          Some \<lparr>eo_this_disk = td, eo_cd_disk = cd, eo_cd_records = cr, eo_cd_records_total = ct,
                eo_cd_size = cs, eo_cd_offset = co, eo_comment_length = cl\<rparr>
      | _ \<Rightarrow> None)"

section \<open>The central directory\<close>

text \<open>The code and, when it is 0, the archive with its central directory set.\<close>

definition try_parse_end_of_cd :: "zip_archive \<Rightarrow> u32 \<Rightarrow> (int \<times> zip_archive) option" where
  "try_parse_end_of_cd a offset =
     (case check_access a offset (of_nat sizeof_eocd) of
        None \<Rightarrow> Some (- EINVAL, a)
      | Some p \<Rightarrow>
          (case rd32 a p of
             None \<Rightarrow> None
           | Some magic \<Rightarrow>
               if magic \<noteq> END_OF_CD_RECORD_MAGIC then Some (- EINVAL, a)
               else case rd_eocd a p of
                 None \<Rightarrow> None
               | Some e \<Rightarrow>
                   if unat offset + sizeof_eocd + unat (eo_comment_length e) \<noteq> unat (za_size a)
                   then Some (- EINVAL, a)
                   else if eo_this_disk e \<noteq> 0 \<or> eo_cd_disk e \<noteq> 0 \<or>
                           eo_cd_records_total e \<noteq> eo_cd_records e
                   then Some (- ENOTSUP, a)
                   else if check_access a (eo_cd_offset e) (eo_cd_size e) = None
                   then Some (- EINVAL, a)
                   else Some (0, a\<lparr>za_cd_offset := eo_cd_offset e,
                                   za_cd_records := ucast (eo_cd_records e)\<rparr>)))"

text \<open>The scan of \<open>find_cd\<close> from \<open>offset\<close> down; \<open>m\<close> is the number of offsets left.\<close>

fun find_cd_loop :: "nat \<Rightarrow> zip_archive \<Rightarrow> nat \<Rightarrow> int \<Rightarrow> (int \<times> zip_archive) option" where
  "find_cd_loop 0 a offset rc = Some (rc, a)"
| "find_cd_loop (Suc m) a offset rc =
     (case try_parse_end_of_cd a (of_nat offset) of
        None \<Rightarrow> None
      | Some (rc, a) \<Rightarrow>
          if rc = - ENOTSUP \<or> rc = 0 then Some (rc, a)
          else find_cd_loop m a (offset - 1) rc)"

definition find_cd :: "zip_archive \<Rightarrow> (int \<times> zip_archive) option" where
  "find_cd a =
     (if unat (za_size a) \<le> sizeof_eocd then Some (- EINVAL, a)
      else
        let offset = unat (za_size a) - sizeof_eocd
        in find_cd_loop (min (offset + 1) (2 ^ 16)) a offset (- EINVAL))"

record zip_env =
  ze_open :: "int + unit"
  ze_seek :: "nat option"
  ze_mmap :: "int + byte list"
  ze_malloc :: bool

text \<open>The result and the number of mappings it leaves behind.\<close>

definition zip_archive_open :: "zip_env \<Rightarrow> ((int + zip_archive) \<times> nat) option" where
  "zip_archive_open env =
     (case ze_open env of
        Inl errno \<Rightarrow> Some (Inl errno, 0)
      | Inr _ \<Rightarrow>
          (case ze_seek env of
             None \<Rightarrow> Some (Inl EINVAL, 0)
           | Some sz \<Rightarrow>
               if 2 ^ 32 \<le> sz then Some (Inl EINVAL, 0)
               else case ze_mmap env of
                 Inl errno \<Rightarrow> Some (Inl errno, 0)
               | Inr data \<Rightarrow>
                   if \<not> ze_malloc env then Some (Inl ENOMEM, 0)
                   else
                     map_option (\<lambda>(err, a). if err \<noteq> 0 then (Inl (- err), 0) else (Inr a, 1))
                       (find_cd \<lparr>za_data = take sz data, za_cd_offset = 0, za_cd_records = 0\<rparr>)))"

section \<open>Entries\<close>

definition local_file_header_at_offset :: "zip_archive \<Rightarrow> u32 \<Rightarrow> nat option option" where
  "local_file_header_at_offset a offset =
     (case check_access a offset (of_nat sizeof_lfh) of
        None \<Rightarrow> Some None
      | Some p \<Rightarrow>
          map_option (\<lambda>magic. if magic \<noteq> LOCAL_FILE_HEADER_MAGIC then None else Some p) (rd32 a p))"

definition get_entry_at_offset :: "zip_archive \<Rightarrow> u32 \<Rightarrow> (int + zip_entry) option" where
  "get_entry_at_offset a offset =
     (case local_file_header_at_offset a offset of
        None \<Rightarrow> None
      | Some None \<Rightarrow> Some (Inl EINVAL)
      | Some (Some p) \<Rightarrow>
          (case (rd16 a (p + 6), rd16 a (p + 8), rd32 a (p + 18), rd16 a (p + 26), rd16 a (p + 28)) of
             (Some flags, Some compression, Some csize, Some nlen, Some xlen) \<Rightarrow>
               let offset = offset + of_nat sizeof_lfh
               in if flags AND FLAG_ENCRYPTED \<noteq> 0 \<or> flags AND FLAG_HAS_DATA_DESCRIPTOR \<noteq> 0
                  then Some (Inl EINVAL)
                  else case check_access a offset (ucast nlen) of
                    None \<Rightarrow> Some (Inl EINVAL)
                  | Some name \<Rightarrow>
                      let offset = offset + ucast nlen
                      in if check_access a offset (ucast xlen) = None then Some (Inl EINVAL)
                         else
                           let offset = offset + ucast xlen
                           in case check_access a offset csize of
                                None \<Rightarrow> Some (Inl EINVAL)
                              | Some data \<Rightarrow>
                                  Some (Inr \<lparr>ze_compression = compression, ze_name = name,
                                             ze_name_length = nlen, ze_data = data,
                                             ze_data_length = csize, ze_data_offset = offset\<rparr>)
           | _ \<Rightarrow> None))"

text \<open>The loop over the central directory; \<open>m\<close> records are left.\<close>

fun find_entry_loop :: "nat \<Rightarrow> zip_archive \<Rightarrow> byte list \<Rightarrow> u32 \<Rightarrow> (int + zip_entry) option" where
  "find_entry_loop 0 a file_name offset = Some (Inl ENOENT)"
| "find_entry_loop (Suc m) a file_name offset =
     (case check_access a offset (of_nat sizeof_cdfh) of
        None \<Rightarrow> Some (Inl EINVAL)
      | Some p \<Rightarrow>
          (case (rd32 a p, rd16 a (p + 8), rd16 a (p + 28), rd16 a (p + 30), rd16 a (p + 32),
                 rd32 a (p + 42)) of
             (Some magic, Some flags, Some nlen, Some xlen, Some clen, Some lho) \<Rightarrow>
               if magic \<noteq> CD_FILE_HEADER_MAGIC then Some (Inl EINVAL)
               else
                 let offset = offset + of_nat sizeof_cdfh
                 in case check_access a offset (ucast nlen) of
                      None \<Rightarrow> Some (Inl EINVAL)
                    | Some name \<Rightarrow>
                        if flags AND FLAG_ENCRYPTED = 0 \<and> flags AND FLAG_HAS_DATA_DESCRIPTOR = 0 \<and>
                           length file_name = unat nlen \<and>
                           slice name (length file_name) (za_data a) = file_name
                        then get_entry_at_offset a lho
                        else find_entry_loop m a file_name
                               (offset + ucast nlen + ucast xlen + ucast clen)
           | _ \<Rightarrow> None))"

definition zip_archive_find_entry :: "zip_archive \<Rightarrow> byte list \<Rightarrow> (int + zip_entry) option" where
  "zip_archive_find_entry a file_name =
     find_entry_loop (unat (za_cd_records a)) a file_name (za_cd_offset a)"

section \<open>Every access is inside the mapping\<close>

definition archive_ok :: "zip_archive \<Rightarrow> bool" where
  "archive_ok a \<longleftrightarrow> length (za_data a) < 2 ^ 32"

lemma check_access_some:
  assumes "archive_ok a" "check_access a off sz = Some p"
  shows "p = unat off" "p + unat sz \<le> length (za_data a)"
proof -
  have sz: "unat (za_size a) = length (za_data a)"
    using assms(1) by (simp add: archive_ok_def za_size_def unat_of_nat)
  have c: "off + sz \<le> za_size a" "off \<le> off + sz" "p = unat off"
    using assms(2) by (auto simp: check_access_def not_less split: if_splits)
  have "unat (off + sz) = unat off + unat sz"
  proof (rule ccontr)
    assume "unat (off + sz) \<noteq> unat off + unat sz"
    then have big: "2 ^ 32 \<le> unat off + unat sz" by (intro leI notI) (simp add: unat_word_ariths)
    then have "unat (off + sz) = unat off + unat sz - 2 ^ 32"
      using unat_bound [of off] unat_bound [of sz] by (simp add: unat_word_ariths le_mod_geq)
    then show False using c(2) big unat_bound [of sz] by (simp add: word_le_nat_alt)
  qed
  then show "p = unat off" "p + unat sz \<le> length (za_data a)"
    using c sz by (simp_all add: word_le_nat_alt)
qed

lemma rd_some: "p + 2 \<le> length (za_data a) \<Longrightarrow> rd16 a p \<noteq> None" "p + 4 \<le> length (za_data a) \<Longrightarrow> rd32 a p \<noteq> None"
  by (simp_all add: rd16_def rd32_def)

lemma try_parse_defined:
  assumes "archive_ok a"
  shows "\<exists>rc a'. try_parse_end_of_cd a off = Some (rc, a') \<and> za_data a' = za_data a \<and>
    (rc = 0 \<longrightarrow> check_access a' (za_cd_offset a') 0 \<noteq> None)"
proof (cases "check_access a off (of_nat sizeof_eocd)")
  case None
  then show ?thesis by (simp add: try_parse_end_of_cd_def)
next
  case (Some p)
  have p: "p + 22 \<le> length (za_data a)"
    using check_access_some [OF assms Some] by (simp add: sizeof_eocd_def)
  then obtain magic e where "rd32 a p = Some magic" "rd_eocd a p = Some e"
    by (auto simp: rd32_def rd_eocd_def rd16_def)
  moreover have "check_access a' co 0 \<noteq> None" if "check_access a co cs = Some q" "za_data a' = za_data a" for co cs q a'
  proof -
    have "za_size a' = za_size a" using that(2) by (simp add: za_size_def)
    moreover have "unat co \<le> unat (za_size a)"
      using check_access_some [OF assms that(1)] assms by (simp add: za_size_def archive_ok_def unat_of_nat)
    ultimately show ?thesis by (simp add: check_access_def word_less_nat_alt not_less)
  qed
  ultimately show ?thesis
    using Some by (auto simp: try_parse_end_of_cd_def)
qed

lemma find_cd_loop_defined:
  "archive_ok a \<Longrightarrow> \<exists>rc' a'. find_cd_loop m a off rc = Some (rc', a') \<and> za_data a' = za_data a \<and>
     (rc' = 0 \<longrightarrow> rc = 0 \<or> check_access a' (za_cd_offset a') 0 \<noteq> None)"
proof (induction m arbitrary: a off rc)
  case 0
  then show ?case by simp
next
  case (Suc m)
  obtain rc1 a1 where t: "try_parse_end_of_cd a (of_nat off) = Some (rc1, a1)" "za_data a1 = za_data a"
    "rc1 = 0 \<longrightarrow> check_access a1 (za_cd_offset a1) 0 \<noteq> None"
    using try_parse_defined [OF Suc.prems] by blast
  have "archive_ok a1" using Suc.prems t(2) by (simp add: archive_ok_def)
  then show ?case using t Suc.IH [of a1 "off - 1" rc1] by auto
qed

lemma get_entry_defined:
  assumes "archive_ok a"
  shows "\<exists>r. get_entry_at_offset a off = Some r \<and>
    (\<forall>e. r = Inr e \<longrightarrow> ze_name e + unat (ze_name_length e) \<le> length (za_data a) \<and>
      ze_data e + unat (ze_data_length e) \<le> length (za_data a) \<and>
      ze_data e = unat (ze_data_offset e) \<and> ze_name e + unat (ze_name_length e) \<le> ze_data e)"
proof (cases "check_access a off (of_nat sizeof_lfh)")
  case None
  then show ?thesis by (simp add: get_entry_at_offset_def local_file_header_at_offset_def)
next
  case (Some p)
  have p: "p + 30 \<le> length (za_data a)"
    using check_access_some [OF assms Some] by (simp add: sizeof_lfh_def)
  obtain magic flags comp csize nlen xlen where rd: "rd32 a p = Some magic"
    "rd16 a (p + 6) = Some flags" "rd16 a (p + 8) = Some comp" "rd32 a (p + 18) = Some csize"
    "rd16 a (p + 26) = Some nlen" "rd16 a (p + 28) = Some xlen"
    using p by (simp add: rd16_def rd32_def)
  define o1 o2 o3 where "o1 = off + of_nat sizeof_lfh" and "o2 = o1 + ucast nlen" and "o3 = o2 + ucast xlen"
  have un: "unat (ucast nlen :: u32) = unat nlen" "unat (ucast xlen :: u32) = unat xlen"
    using unat_bound [of nlen] unat_bound [of xlen] by (simp_all add: unsigned_ucast_eq take_bit_eq_mod)
  show ?thesis
  proof (cases "check_access a o1 (ucast nlen)"; cases "check_access a o2 (ucast xlen)"; cases "check_access a o3 csize")
    fix name x data
    assume c: "check_access a o1 (ucast nlen) = Some name" "check_access a o2 (ucast xlen) = Some x"
      "check_access a o3 csize = Some data"
    note n = check_access_some [OF assms c(1), unfolded un]
    note x = check_access_some [OF assms c(2), unfolded un]
    note d = check_access_some [OF assms c(3)]
    have len: "length (za_data a) < 2 ^ 32" using assms by (simp add: archive_ok_def)
    have "unat o2 = name + unat nlen"
      using n len by (simp add: o2_def unat_word_ariths un)
    moreover have "unat o3 = x + unat xlen"
      using x len by (simp add: o3_def unat_word_ariths un)
    ultimately have "name + unat nlen \<le> data" using x(1) d(1) by simp
    then show ?thesis
      using c n(2) d rd Some
      by (auto simp: get_entry_at_offset_def local_file_header_at_offset_def o1_def o2_def o3_def Let_def)
  qed (use rd Some in \<open>auto simp: get_entry_at_offset_def local_file_header_at_offset_def o1_def o2_def o3_def Let_def\<close>)
qed

lemma find_entry_loop_defined:
  assumes "archive_ok a"
  shows "\<exists>r. find_entry_loop m a file_name off = Some r \<and>
    (\<forall>e. r = Inr e \<longrightarrow> ze_name e + unat (ze_name_length e) \<le> length (za_data a) \<and>
      ze_data e + unat (ze_data_length e) \<le> length (za_data a) \<and>
      ze_data e = unat (ze_data_offset e) \<and> ze_name e + unat (ze_name_length e) \<le> ze_data e)"
proof (induction m arbitrary: off)
  case 0
  then show ?case by simp
next
  case (Suc m)
  show ?case
  proof (cases "check_access a off (of_nat sizeof_cdfh)")
    case None
    then show ?thesis by simp
  next
    case (Some p)
    have p: "p + 46 \<le> length (za_data a)"
      using check_access_some [OF assms Some] by (simp add: sizeof_cdfh_def)
    obtain magic flags nlen xlen clen lho where rd: "rd32 a p = Some magic"
      "rd16 a (p + 8) = Some flags" "rd16 a (p + 28) = Some nlen" "rd16 a (p + 30) = Some xlen"
      "rd16 a (p + 32) = Some clen" "rd32 a (p + 42) = Some lho"
      using p by (simp add: rd16_def rd32_def)
    show ?thesis
    proof (cases "check_access a (off + of_nat sizeof_cdfh) (ucast nlen)")
      case None
      then show ?thesis using Some rd by simp
    next
      case (Some name)
      then show ?thesis
        using \<open>check_access a off (of_nat sizeof_cdfh) = Some p\<close> rd get_entry_defined [OF assms, of lho]
          Suc.IH [of "off + of_nat sizeof_cdfh + ucast nlen + ucast xlen + ucast clen"]
        by simp
    qed
  qed
qed

end
