(* ===== verification/Json_Writer.thy ===== *)
theory Json_Writer
  imports Prelude
begin

text \<open>
  \<open>lib/bpftool/src/json_writer.c\<close>: the streaming JSON writer of bpftool. The output file is
  the text written so far; a separator is \<open>None\<close> for the NUL character. \<open>None\<close> as a result
  is a failed assertion. What \<open>vfprintf\<close> makes of a caller's format is its text.
\<close>

section \<open>Model\<close>

record json_writer =
  jw_out :: string
  jw_depth :: nat
  jw_pretty :: bool
  jw_sep :: "char option"

definition jput :: "string \<Rightarrow> json_writer \<Rightarrow> json_writer" where
  "jput s w = w\<lparr>jw_out := jw_out w @ s\<rparr>"

definition ch :: "nat \<Rightarrow> char" where "ch n = char_of n"

definition quote :: string where "quote = [ch 34]"

definition jsonw_indent :: "json_writer \<Rightarrow> json_writer" where
  "jsonw_indent w = jput (concat (replicate (jw_depth w) ''    '')) w"

definition jsonw_eol :: "json_writer \<Rightarrow> json_writer" where
  "jsonw_eol w = (if \<not> jw_pretty w then w else jsonw_indent (jput [ch 10] w))"

definition jsonw_eor :: "json_writer \<Rightarrow> json_writer" where
  "jsonw_eor w = (case jw_sep w of None \<Rightarrow> w | Some c \<Rightarrow> jput [c] w)\<lparr>jw_sep := Some (CHR '','')\<rparr>"

definition escape_char :: "char \<Rightarrow> string" where
  "escape_char c =
     (if c = ch 9 then [ch 92, CHR ''t'']
      else if c = ch 10 then [ch 92, CHR ''n'']
      else if c = ch 13 then [ch 92, CHR ''r'']
      else if c = ch 12 then [ch 92, CHR ''f'']
      else if c = ch 8 then [ch 92, CHR ''b'']
      else if c = ch 92 then [ch 92, ch 92]
      else if c = ch 34 then [ch 92, ch 34]
      else [c])"

definition jsonw_puts :: "string \<Rightarrow> json_writer \<Rightarrow> json_writer" where
  "jsonw_puts s w = jput (quote @ concat (map escape_char s) @ quote) w"

definition jsonw_new :: "bool \<Rightarrow> string \<Rightarrow> json_writer option" where
  "jsonw_new alloc_ok out =
     (if alloc_ok then Some \<lparr>jw_out = out, jw_depth = 0, jw_pretty = False, jw_sep = None\<rparr> else None)"

definition jsonw_destroy :: "json_writer \<Rightarrow> string option" where
  "jsonw_destroy w = (if jw_depth w = 0 then Some (jw_out w @ [ch 10]) else None)"

definition jsonw_pretty :: "bool \<Rightarrow> json_writer \<Rightarrow> json_writer" where
  "jsonw_pretty b w = w\<lparr>jw_pretty := b\<rparr>"

definition jsonw_reset :: "json_writer \<Rightarrow> json_writer option" where
  "jsonw_reset w = (if jw_depth w = 0 then Some (w\<lparr>jw_sep := None\<rparr>) else None)"

definition jsonw_begin :: "char \<Rightarrow> json_writer \<Rightarrow> json_writer" where
  "jsonw_begin c w =
     (let w = jput [c] (jsonw_eor w) in w\<lparr>jw_depth := jw_depth w + 1, jw_sep := None\<rparr>)"

definition jsonw_end :: "char \<Rightarrow> json_writer \<Rightarrow> json_writer option" where
  "jsonw_end c w =
     (if jw_depth w = 0 then None
      else
        let w = w\<lparr>jw_depth := jw_depth w - 1\<rparr>;
            w = (if jw_sep w \<noteq> None then jsonw_eol w else w)
        in Some ((jput [c] w)\<lparr>jw_sep := Some (CHR '','')\<rparr>))"

definition jsonw_name :: "string \<Rightarrow> json_writer \<Rightarrow> json_writer" where
  "jsonw_name nm w =
     (let w = (jsonw_eol (jsonw_eor w))\<lparr>jw_sep := None\<rparr>;
          w = jput [CHR '':''] (jsonw_puts nm w)
      in if jw_pretty w then jput '' '' w else w)"

definition jsonw_vprintf_enquote :: "string \<Rightarrow> json_writer \<Rightarrow> json_writer" where
  "jsonw_vprintf_enquote t w = jput quote (jput t (jput quote (jsonw_eor w)))"

definition jsonw_printf :: "string \<Rightarrow> json_writer \<Rightarrow> json_writer" where
  "jsonw_printf t w = jput t (jsonw_eor w)"

definition jsonw_start_object :: "json_writer \<Rightarrow> json_writer" where
  "jsonw_start_object = jsonw_begin (CHR ''{'')"

definition jsonw_end_object :: "json_writer \<Rightarrow> json_writer option" where
  "jsonw_end_object = jsonw_end (CHR ''}'')"

definition jsonw_start_array :: "json_writer \<Rightarrow> json_writer" where
  "jsonw_start_array = jsonw_begin (CHR ''['')"

definition jsonw_end_array :: "json_writer \<Rightarrow> json_writer option" where
  "jsonw_end_array = jsonw_end (CHR '']'')"

definition jsonw_string :: "string \<Rightarrow> json_writer \<Rightarrow> json_writer" where
  "jsonw_string v w = jsonw_puts v (jsonw_eor w)"

definition jsonw_bool :: "bool \<Rightarrow> json_writer \<Rightarrow> json_writer" where
  "jsonw_bool b w = jsonw_printf (if b then ''true'' else ''false'') w"

definition jsonw_null :: "json_writer \<Rightarrow> json_writer" where
  "jsonw_null w = jsonw_printf ''null'' w"

definition jsonw_float_fmt :: "string \<Rightarrow> json_writer \<Rightarrow> json_writer" where
  "jsonw_float_fmt t w = jsonw_printf t w"

definition jsonw_hu :: "u16 \<Rightarrow> json_writer \<Rightarrow> json_writer" where
  "jsonw_hu n w = jsonw_printf (dec_u n) w"

definition jsonw_uint :: "u64 \<Rightarrow> json_writer \<Rightarrow> json_writer" where
  "jsonw_uint n w = jsonw_printf (dec_u n) w"

definition jsonw_lluint :: "u64 \<Rightarrow> json_writer \<Rightarrow> json_writer" where
  "jsonw_lluint n w = jsonw_printf (dec_u n) w"

definition jsonw_int :: "i64 \<Rightarrow> json_writer \<Rightarrow> json_writer" where
  "jsonw_int n w = jsonw_printf (dec_s n) w"

definition jsonw_string_field :: "string \<Rightarrow> string \<Rightarrow> json_writer \<Rightarrow> json_writer" where
  "jsonw_string_field p v w = jsonw_string v (jsonw_name p w)"

definition jsonw_bool_field :: "string \<Rightarrow> bool \<Rightarrow> json_writer \<Rightarrow> json_writer" where
  "jsonw_bool_field p v w = jsonw_bool v (jsonw_name p w)"

definition jsonw_float_field_fmt :: "string \<Rightarrow> string \<Rightarrow> json_writer \<Rightarrow> json_writer" where
  "jsonw_float_field_fmt p t w = jsonw_float_fmt t (jsonw_name p w)"

definition jsonw_uint_field :: "string \<Rightarrow> u64 \<Rightarrow> json_writer \<Rightarrow> json_writer" where
  "jsonw_uint_field p v w = jsonw_uint v (jsonw_name p w)"

definition jsonw_hu_field :: "string \<Rightarrow> u16 \<Rightarrow> json_writer \<Rightarrow> json_writer" where
  "jsonw_hu_field p v w = jsonw_hu v (jsonw_name p w)"

definition jsonw_lluint_field :: "string \<Rightarrow> u64 \<Rightarrow> json_writer \<Rightarrow> json_writer" where
  "jsonw_lluint_field p v w = jsonw_lluint v (jsonw_name p w)"

definition jsonw_int_field :: "string \<Rightarrow> i64 \<Rightarrow> json_writer \<Rightarrow> json_writer" where
  "jsonw_int_field p v w = jsonw_int v (jsonw_name p w)"

definition jsonw_null_field :: "string \<Rightarrow> json_writer \<Rightarrow> json_writer" where
  "jsonw_null_field p w = jsonw_null (jsonw_name p w)"

section \<open>Specification: JSON values and their compact text\<close>

datatype json =
    Jnull
  | Jbool bool
  | Juint u64
  | Jint i64
  | Jstr string
  | Jarr "json list"
  | Jobj "(string \<times> json) list"

fun json_quote :: "string \<Rightarrow> string" where
  "json_quote s = quote @ concat (map escape_char s) @ quote"

definition comma_tail :: "string list \<Rightarrow> string" where
  "comma_tail xs = concat (map (\<lambda>y. '','' @ y) xs)"

definition commas :: "string list \<Rightarrow> string" where
  "commas xs = (case xs of [] \<Rightarrow> [] | x # xs \<Rightarrow> x @ comma_tail xs)"

fun render :: "json \<Rightarrow> string" where
  "render Jnull = ''null''"
| "render (Jbool b) = (if b then ''true'' else ''false'')"
| "render (Juint n) = dec_u n"
| "render (Jint n) = dec_s n"
| "render (Jstr s) = json_quote s"
| "render (Jarr vs) = ''['' @ commas (map render vs) @ '']''"
| "render (Jobj fs) = ''{'' @ commas (map (\<lambda>(p, v). json_quote p @ '':'' @ render v) fs) @ ''}''"

text \<open>The calls that write a value: a scalar, or the elements between start and end.\<close>

fun emit :: "json \<Rightarrow> json_writer \<Rightarrow> json_writer option" where
  "emit Jnull w = Some (jsonw_null w)"
| "emit (Jbool b) w = Some (jsonw_bool b w)"
| "emit (Juint n) w = Some (jsonw_uint n w)"
| "emit (Jint n) w = Some (jsonw_int n w)"
| "emit (Jstr s) w = Some (jsonw_string s w)"
| "emit (Jarr vs) w = Option.bind (fold_opt emit vs (jsonw_start_array w)) jsonw_end_array"
| "emit (Jobj fs) w =
     Option.bind (fold_opt (\<lambda>(p, v) w. emit v (jsonw_name p w)) fs (jsonw_start_object w)) jsonw_end_object"

section \<open>The writer prints the compact text\<close>

text \<open>What a writer is after an element: the element's text follows the separator.\<close>

definition after :: "json_writer \<Rightarrow> string \<Rightarrow> json_writer" where
  "after w t =
     w\<lparr>jw_out := jw_out w @ (case jw_sep w of None \<Rightarrow> [] | Some c \<Rightarrow> [c]) @ t, jw_sep := Some (CHR '','')\<rparr>"

lemma printf_after: "jsonw_printf t w = after w t"
  by (simp add: jsonw_printf_def jsonw_eor_def after_def jput_def split: option.splits)

lemma string_after: "jsonw_string s w = after w (json_quote s)"
  by (simp add: jsonw_string_def jsonw_puts_def jsonw_eor_def after_def jput_def split: option.splits)

lemma begin_eq: "jsonw_begin c w = (after w [c])\<lparr>jw_depth := jw_depth w + 1, jw_sep := None\<rparr>"
  by (simp add: jsonw_begin_def jsonw_eor_def after_def jput_def Let_def split: option.splits)

lemma name_eq:
  "\<not> jw_pretty w \<Longrightarrow> jsonw_name p w = (after w (json_quote p @ '':''))\<lparr>jw_sep := None\<rparr>"
  by (simp add: jsonw_name_def jsonw_eol_def jsonw_eor_def jsonw_puts_def after_def jput_def Let_def
      split: option.splits)

lemma end_eq:
  "jw_depth w = Suc d \<Longrightarrow> \<not> jw_pretty w \<Longrightarrow>
     jsonw_end c w = Some (w\<lparr>jw_out := jw_out w @ [c], jw_depth := d, jw_sep := Some (CHR '','')\<rparr>)"
  by (simp add: jsonw_end_def jsonw_eol_def jput_def Let_def)

lemma fold_after:
  assumes "\<And>x w. x \<in> set xs \<Longrightarrow> \<not> jw_pretty w \<Longrightarrow> f x w = Some (after w (g x))"
  shows "\<not> jw_pretty w \<Longrightarrow> jw_sep w = Some (CHR '','') \<Longrightarrow>
     fold_opt f xs w = Some (w\<lparr>jw_out := jw_out w @ comma_tail (map g xs)\<rparr>)"
  using assms
proof (induction xs arbitrary: w)
  case Nil
  then show ?case by (simp add: comma_tail_def)
next
  case (Cons x xs)
  have "fold_opt f xs (after w (g x)) = Some ((after w (g x))\<lparr>jw_out := jw_out (after w (g x)) @ comma_tail (map g xs)\<rparr>)"
    using Cons.prems by (intro Cons.IH) (auto simp: after_def)
  then show ?case using Cons.prems by (simp add: after_def comma_tail_def)
qed

lemma fold_after_start:
  assumes "\<And>x w. x \<in> set xs \<Longrightarrow> \<not> jw_pretty w \<Longrightarrow> f x w = Some (after w (g x))"
    and "\<not> jw_pretty w" "jw_sep w = None"
  shows "\<exists>s. fold_opt f xs w = Some (w\<lparr>jw_out := jw_out w @ commas (map g xs), jw_sep := s\<rparr>)"
proof (cases xs)
  case Nil
  then show ?thesis using assms(3) by (intro exI [of _ None]) (simp add: commas_def)
next
  case (Cons x ys)
  have "fold_opt f ys (after w (g x)) = Some ((after w (g x))\<lparr>jw_out := jw_out (after w (g x)) @ comma_tail (map g ys)\<rparr>)"
    using assms Cons by (intro fold_after) (auto simp: after_def)
  then show ?thesis
    using assms Cons by (intro exI [of _ "Some (CHR '','')"]) (simp add: after_def commas_def)
qed

lemma emit_after: "\<not> jw_pretty w \<Longrightarrow> emit v w = Some (after w (render v))"
proof (induction v arbitrary: w)
  case (Jarr vs)
  obtain s where f: "fold_opt emit vs (jsonw_start_array w) =
      Some ((jsonw_start_array w)\<lparr>jw_out := jw_out (jsonw_start_array w) @ commas (map render vs), jw_sep := s\<rparr>)"
    using fold_after_start [of vs emit render "jsonw_start_array w"] Jarr
    by (auto simp: jsonw_start_array_def begin_eq after_def)
  then show ?case
    using Jarr.prems by (simp add: jsonw_end_array_def end_eq jsonw_start_array_def begin_eq after_def)
next
  case (Jobj fs)
  define em where "em = (\<lambda>(p, v) w. emit v (jsonw_name p w))"
  define rd where "rd = (\<lambda>(p, v). json_quote p @ '':'' @ render v)"
  have one: "em x w = Some (after w (rd x))" if "x \<in> set fs" "\<not> jw_pretty w" for x w
  proof -
    obtain p v where x: "x = (p, v)" by (cases x)
    have "emit v (jsonw_name p w) = Some (after (jsonw_name p w) (render v))"
      using Jobj.IH [of x v] that by (auto simp: x name_eq after_def)
    then show ?thesis using that(2) by (simp add: x em_def rd_def name_eq after_def)
  qed
  obtain s where f: "fold_opt em fs (jsonw_start_object w) =
      Some ((jsonw_start_object w)\<lparr>jw_out := jw_out (jsonw_start_object w) @ commas (map rd fs), jw_sep := s\<rparr>)"
    using fold_after_start [of fs em rd "jsonw_start_object w"] one Jobj.prems
    by (auto simp: jsonw_start_object_def begin_eq after_def)
  have e: "emit (Jobj fs) w = Option.bind (fold_opt em fs (jsonw_start_object w)) jsonw_end_object"
    by (simp add: em_def)
  have r: "render (Jobj fs) = ''{'' @ commas (map rd fs) @ ''}''" by (simp add: rd_def)
  show ?case
    unfolding e r f using Jobj.prems
    by (simp add: jsonw_end_object_def end_eq jsonw_start_object_def begin_eq after_def)
qed (simp_all add: jsonw_null_def jsonw_bool_def jsonw_uint_def jsonw_int_def printf_after string_after)

section \<open>Escaping can be undone\<close>

fun unescape :: "string \<Rightarrow> string" where
  "unescape [] = []"
| "unescape [c] = [c]"
| "unescape (c # d # cs) =
     (if c = ch 92 then
        (if d = CHR ''t'' then ch 9 else if d = CHR ''n'' then ch 10 else if d = CHR ''r'' then ch 13
         else if d = CHR ''f'' then ch 12 else if d = CHR ''b'' then ch 8 else d) # unescape cs
      else c # unescape (d # cs))"

lemma ch_eq: "m < 256 \<Longrightarrow> n < 256 \<Longrightarrow> ch m = ch n \<longleftrightarrow> m = n"
  by (metis ch_def of_char_of mod_less)

lemma escape_head: "escape_char c = [c] \<and> c \<noteq> ch 92 \<or> (\<exists>d. escape_char c = [ch 92, d] \<and>
    unescape (ch 92 # d # cs) = c # unescape cs)"
  by (simp add: escape_char_def ch_def char_of_def bit_0)

lemma unescape_cons: "c \<noteq> ch 92 \<Longrightarrow> unescape (c # cs) = c # unescape cs"
  by (cases cs) simp_all

lemma unescape_escape: "unescape (concat (map escape_char s)) = s"
proof (induction s)
  case (Cons c s)
  then show ?case
    using escape_head [of c "concat (map escape_char s)"] unescape_cons by auto
qed simp

end
