(* ===== verification/Utils.thy ===== *)
theory Utils
  imports Prelude
begin

text \<open>
  \<open>lib/libbpf/src/libbpf_utils.c\<close>: the texts of error codes and the SHA-256 digest. The
  C library's \<open>strerror_r\<close> is a parameter (its return value and the text it wrote). A buffer
  is the string in it. \<open>None\<close> is undefined behaviour (a null string given to \<open>%s\<close>).
\<close>

section \<open>Error texts\<close>

definition LIBBPF_ERRNO_START :: int where "LIBBPF_ERRNO_START = 4000"
definition LIBBPF_ERRNO_END :: int where "LIBBPF_ERRNO_END = 4014"

text \<open>\<open>libbpf_strerror_table\<close>; an entry without an initialiser is null.\<close>

definition libbpf_strerror_table :: "string option list" where
  "libbpf_strerror_table =
     [Some ''Something wrong in libelf'', Some ''BPF object format invalid'',
      Some (CHR 0x27 # ''version'' @ CHR 0x27 # '' section incorrect or lost''),
      Some ''Endian mismatch'', Some ''Internal error in libbpf'', Some ''Relocation failed'', None,
      Some ''Kernel verifier blocks program loading'', Some ''Program too big'',
      Some ''Incorrect kernel version'',
      Some (''Kernel doesn'' @ CHR 0x27 # ''t support this program type''),
      Some ''Wrong pid in netlink message'', Some ''Invalid netlink sequence'',
      Some ''Incorrect netlink message parsing'']"

text \<open>The result code and the string left in a buffer of \<open>sz\<close> bytes.\<close>

definition libbpf_strerror ::
    "(int \<Rightarrow> int \<times> string) \<Rightarrow> int \<Rightarrow> nat \<Rightarrow> (int \<times> string) option" where
  "libbpf_strerror strerror_r err sz =
     (if sz = 0 then Some (- EINVAL, [])
      else
        let err = (if 0 < err then err else - err)
        in if err < LIBBPF_ERRNO_START then
             (case strerror_r err of (ret, t) \<Rightarrow>
                Some (if ret < 0 then - ret else ret, take (sz - 1) t))
           else if err < LIBBPF_ERRNO_END then
             map_option (\<lambda>msg. (if sz \<le> length msg then - ERANGE else 0, snprintf_text sz msg))
               (libbpf_strerror_table ! nat (err - LIBBPF_ERRNO_START))
           else
             let t = ''Unknown libbpf error '' @ dec_int err
             in Some (if sz \<le> length t then - ERANGE else - ENOENT, snprintf_text sz t))"

definition errstr_table :: "(int \<times> string) list" where
  "errstr_table =
   [(7, ''-E2BIG''), (13, ''-EACCES''), (98, ''-EADDRINUSE''), (99, ''-EADDRNOTAVAIL''),
    (11, ''-EAGAIN''), (114, ''-EALREADY''), (9, ''-EBADF''), (77, ''-EBADFD''),
    (16, ''-EBUSY''), (125, ''-ECANCELED''), (10, ''-ECHILD''), (35, ''-EDEADLK''),
    (33, ''-EDOM''), (17, ''-EEXIST''), (14, ''-EFAULT''), (27, ''-EFBIG''), (84, ''-EILSEQ''),
    (115, ''-EINPROGRESS''), (4, ''-EINTR''), (22, ''-EINVAL''), (5, ''-EIO''),
    (21, ''-EISDIR''), (40, ''-ELOOP''), (24, ''-EMFILE''), (31, ''-EMLINK''),
    (90, ''-EMSGSIZE''), (36, ''-ENAMETOOLONG''), (23, ''-ENFILE''), (61, ''-ENODATA''),
    (19, ''-ENODEV''), (2, ''-ENOENT''), (8, ''-ENOEXEC''), (67, ''-ENOLINK''),
    (12, ''-ENOMEM''), (28, ''-ENOSPC''), (15, ''-ENOTBLK''), (20, ''-ENOTDIR''),
    (524, ''-ENOTSUPP''), (25, ''-ENOTTY''), (6, ''-ENXIO''), (95, ''-EOPNOTSUPP''),
    (75, ''-EOVERFLOW''), (1, ''-EPERM''), (32, ''-EPIPE''), (71, ''-EPROTO''),
    (93, ''-EPROTONOSUPPORT''), (34, ''-ERANGE''), (30, ''-EROFS''), (29, ''-ESPIPE''),
    (3, ''-ESRCH''), (26, ''-ETXTBSY''), (117, ''-EUCLEAN''), (18, ''-EXDEV'')]"

text \<open>The code is matched as a negative number; the default prints it into twelve bytes.\<close>

definition libbpf_errstr :: "int \<Rightarrow> string" where
  "libbpf_errstr err =
     (let err = (if 0 < err then - err else err)
      in case map_of errstr_table (- err) of
           Some s \<Rightarrow> s
         | None \<Rightarrow> snprintf_text 12 (dec_int err))"

section \<open>SHA-256\<close>

definition SHA256_BLOCK_LENGTH :: nat where "SHA256_BLOCK_LENGTH = 64"

definition get_unaligned_be32 :: "byte list \<Rightarrow> u32" where
  "get_unaligned_be32 p = of_nat (be_dec (take 4 p))"

definition put_unaligned_be32 :: "u32 \<Rightarrow> byte list" where
  "put_unaligned_be32 v = be_enc 4 (unat v)"

definition ror32 :: "u32 \<Rightarrow> nat \<Rightarrow> u32" where
  "ror32 v bits = drop_bit bits v OR push_bit (32 - bits) v"

definition Ch :: "u32 \<Rightarrow> u32 \<Rightarrow> u32 \<Rightarrow> u32" where
  "Ch x y z = (x AND y) XOR (NOT x AND z)"

definition Maj :: "u32 \<Rightarrow> u32 \<Rightarrow> u32 \<Rightarrow> u32" where
  "Maj x y z = (x AND y) XOR (x AND z) XOR (y AND z)"

definition Sigma_0 :: "u32 \<Rightarrow> u32" where "Sigma_0 x = ror32 x 2 XOR ror32 x 13 XOR ror32 x 22"
definition Sigma_1 :: "u32 \<Rightarrow> u32" where "Sigma_1 x = ror32 x 6 XOR ror32 x 11 XOR ror32 x 25"
definition sigma_0 :: "u32 \<Rightarrow> u32" where "sigma_0 x = ror32 x 7 XOR ror32 x 18 XOR drop_bit 3 x"
definition sigma_1 :: "u32 \<Rightarrow> u32" where "sigma_1 x = ror32 x 17 XOR ror32 x 19 XOR drop_bit 10 x"

definition sha256_K :: "u32 list" where
  "sha256_K =
    [0x428a2f98, 0x71374491, 0xb5c0fbcf, 0xe9b5dba5, 0x3956c25b] @
    [0x59f111f1, 0x923f82a4, 0xab1c5ed5, 0xd807aa98, 0x12835b01] @
    [0x243185be, 0x550c7dc3, 0x72be5d74, 0x80deb1fe, 0x9bdc06a7] @
    [0xc19bf174, 0xe49b69c1, 0xefbe4786, 0x0fc19dc6, 0x240ca1cc] @
    [0x2de92c6f, 0x4a7484aa, 0x5cb0a9dc, 0x76f988da, 0x983e5152] @
    [0xa831c66d, 0xb00327c8, 0xbf597fc7, 0xc6e00bf3, 0xd5a79147] @
    [0x06ca6351, 0x14292967, 0x27b70a85, 0x2e1b2138, 0x4d2c6dfc] @
    [0x53380d13, 0x650a7354, 0x766a0abb, 0x81c2c92e, 0x92722c85] @
    [0xa2bfe8a1, 0xa81a664b, 0xc24b8b70, 0xc76c51a3, 0xd192e819] @
    [0xd6990624, 0xf40e3585, 0x106aa070, 0x19a4c116, 0x1e376c08] @
    [0x2748774c, 0x34b0bcb5, 0x391c0cb3, 0x4ed8aa4a, 0x5b9cca4f] @
    [0x682e6ff3, 0x748f82ee, 0x78a5636f, 0x84c87814, 0x8cc70208] @
    [0x90befffa, 0xa4506ceb, 0xbef9a3f7, 0xc67178f2]"

type_synonym sha_state = "u32 \<times> u32 \<times> u32 \<times> u32 \<times> u32 \<times> u32 \<times> u32 \<times> u32"

text \<open>The macro on its eight variables: it assigns the fourth and the eighth.\<close>

definition SHA256_ROUND :: "u32 list \<Rightarrow> nat \<Rightarrow> sha_state \<Rightarrow> u32 \<times> u32" where
  "SHA256_ROUND w i s =
     (case s of (a, b, c, d, e, f, g, h) \<Rightarrow>
        let tmp = h + Sigma_1 e + Ch e f g + sha256_K ! i + w ! i
        in (d + tmp, tmp + Sigma_0 a + Maj a b c))"

text \<open>The body of the round loop: eight rounds, each with the variables renamed.\<close>

definition sha256_eight_rounds :: "u32 list \<Rightarrow> nat \<Rightarrow> sha_state \<Rightarrow> sha_state" where
  "sha256_eight_rounds w i s =
     (case s of (a, b, c, d, e, f, g, h) \<Rightarrow>
        let (d, h) = SHA256_ROUND w (i + 0) (a, b, c, d, e, f, g, h);
            (c, g) = SHA256_ROUND w (i + 1) (h, a, b, c, d, e, f, g);
            (b, f) = SHA256_ROUND w (i + 2) (g, h, a, b, c, d, e, f);
            (a, e) = SHA256_ROUND w (i + 3) (f, g, h, a, b, c, d, e);
            (h, d) = SHA256_ROUND w (i + 4) (e, f, g, h, a, b, c, d);
            (g, c) = SHA256_ROUND w (i + 5) (d, e, f, g, h, a, b, c);
            (f, b) = SHA256_ROUND w (i + 6) (c, d, e, f, g, h, a, b);
            (e, a) = SHA256_ROUND w (i + 7) (b, c, d, e, f, g, h, a)
        in (a, b, c, d, e, f, g, h))"

definition message_schedule :: "byte list \<Rightarrow> u32 list" where
  "message_schedule data =
     fold (\<lambda>i w. w @ [sigma_1 (w ! (i - 2)) + w ! (i - 7) + sigma_0 (w ! (i - 15)) + w ! (i - 16)])
       [16..<64] (map (\<lambda>i. get_unaligned_be32 (drop (4 * i) data)) [0..<16])"

definition add_state :: "sha_state \<Rightarrow> sha_state \<Rightarrow> sha_state" where
  "add_state s t =
     (case s of (a, b, c, d, e, f, g, h) \<Rightarrow>
      case t of (a', b', c', d', e', f', g', h') \<Rightarrow>
        (a + a', b + b', c + c', d + d', e + e', f + f', g + g', h + h'))"

fun sha256_blocks :: "sha_state \<Rightarrow> byte list \<Rightarrow> nat \<Rightarrow> sha_state" where
  "sha256_blocks state data 0 = state"
| "sha256_blocks state data (Suc nblocks) =
     (let w = message_schedule data;
          s = fold (sha256_eight_rounds w) (map (\<lambda>k. 8 * k) [0..<8]) state
      in sha256_blocks (add_state state s) (drop SHA256_BLOCK_LENGTH data) nblocks)"

definition sha256_init :: sha_state where
  "sha256_init =
     (0x6a09e667, 0xbb67ae85, 0x3c6ef372, 0xa54ff53a, 0x510e527f, 0x9b05688c, 0x1f83d9ab, 0x5be0cd19)"

text \<open>The last one or two blocks: the rest of the data, the end mark and the length in bits.\<close>

definition sha256_final :: "byte list \<Rightarrow> byte list" where
  "sha256_final data =
     (let len = length data;
          final_len = len mod SHA256_BLOCK_LENGTH;
          bitcount = be_enc 8 (unat (of_nat len * 8 :: u64));
          total = (final_len + 9 + (SHA256_BLOCK_LENGTH - 1)) div SHA256_BLOCK_LENGTH * SHA256_BLOCK_LENGTH
      in drop (len - final_len) data @ [0x80] @ replicate (total - 8 - final_len - 1) 0 @ bitcount)"

definition libbpf_sha256 :: "byte list \<Rightarrow> byte list" where
  "libbpf_sha256 data =
     (let state = sha256_blocks sha256_init data (length data div SHA256_BLOCK_LENGTH);
          final = sha256_final data
      in case sha256_blocks state final (length final div SHA256_BLOCK_LENGTH) of
           (a, b, c, d, e, f, g, h) \<Rightarrow> concat (map put_unaligned_be32 [a, b, c, d, e, f, g, h]))"

section \<open>Lemmas\<close>

lemma length_errstr: "- (2 ^ 31) \<le> err \<Longrightarrow> err < 2 ^ 31 \<Longrightarrow> length (dec_int (if 0 < err then - err else err)) \<le> 11"
proof -
  assume e: "- (2 ^ 31) \<le> err" "err < 2 ^ 31"
  then have "nat (- err) < 10 ^ 10" "nat err < 10 ^ 10" by simp_all
  then show ?thesis
    using length_dec_digits [of 10 "nat (- err)"] length_dec_digits [of 10 "nat err"]
    by (auto simp: dec_int_def)
qed

text \<open>The standard's round on a state, and the standard's hash.\<close>

definition ref_round :: "u32 list \<Rightarrow> nat \<Rightarrow> sha_state \<Rightarrow> sha_state" where
  "ref_round w t s =
     (case s of (a, b, c, d, e, f, g, h) \<Rightarrow>
        let t1 = h + Sigma_1 e + Ch e f g + sha256_K ! t + w ! t;
            t2 = Sigma_0 a + Maj a b c
        in (t1 + t2, a, b, c, d + t1, e, f, g))"

definition ref_pad :: "byte list \<Rightarrow> byte list" where
  "ref_pad m =
     m @ [0x80] @ replicate ((55 + 64 - length m mod 64) mod 64) 0 @ be_enc 8 (8 * length m mod 2 ^ 64)"

definition ref_block :: "sha_state \<Rightarrow> byte list \<Rightarrow> sha_state" where
  "ref_block s b = add_state s (fold (ref_round (message_schedule b)) [0..<64] s)"

fun blocks_of :: "nat \<Rightarrow> byte list \<Rightarrow> byte list list" where
  "blocks_of 0 m = []"
| "blocks_of (Suc n) m = take 64 m # blocks_of n (drop 64 m)"

definition ref_sha256 :: "byte list \<Rightarrow> byte list" where
  "ref_sha256 m =
     (let p = ref_pad m
      in case fold (\<lambda>b s. ref_block s b) (blocks_of (length p div 64) p) sha256_init of
           (a, b, c, d, e, f, g, h) \<Rightarrow> concat (map put_unaligned_be32 [a, b, c, d, e, f, g, h]))"

lemma eight_rounds:
  "sha256_eight_rounds w i s =
     ref_round w (i + 7) (ref_round w (i + 6) (ref_round w (i + 5) (ref_round w (i + 4)
       (ref_round w (i + 3) (ref_round w (i + 2) (ref_round w (i + 1) (ref_round w (i + 0) s)))))))"
proof -
  obtain a b c d e f g h where s: "s = (a, b, c, d, e, f, g, h)" by (cases s) auto
  show ?thesis
    by (simp only: s sha256_eight_rounds_def SHA256_ROUND_def ref_round_def Let_def prod.case add.assoc)
qed

lemma block_rounds:
  "fold (sha256_eight_rounds w) (map (\<lambda>k. 8 * k) [0..<8]) s = fold (ref_round w) [0..<64] s"
proof -
  have "fold (sha256_eight_rounds w) (map (\<lambda>k. 8 * k) [0..<n]) s = fold (ref_round w) [0..<8 * n] s" for n
  proof (induction n)
    case (Suc n)
    have "[0..<8 * Suc n] = [0..<8 * n] @ [8 * n + 0, 8 * n + 1, 8 * n + 2, 8 * n + 3, 8 * n + 4,
        8 * n + 5, 8 * n + 6, 8 * n + 7]"
      by (rule nth_equalityI) (auto simp: nth_append nth_Cons' less_Suc_eq numeral_eq_Suc)
    then show ?case using Suc by (simp only: upt_Suc_append le0 map_append fold_append o_apply list.map
        fold_simps eight_rounds)
  qed simp
  from this [of 8] show ?thesis by simp
qed

lemma schedule_take: "message_schedule (take 64 data) = message_schedule data"
proof -
  have "get_unaligned_be32 (drop (4 * i) (take 64 data)) = get_unaligned_be32 (drop (4 * i) data)"
    if "i < 16" for i
    using that by (simp add: get_unaligned_be32_def drop_take min_def)
  then have "map (\<lambda>i. get_unaligned_be32 (drop (4 * i) (take 64 data))) [0..<16] =
      map (\<lambda>i. get_unaligned_be32 (drop (4 * i) data)) [0..<16]" by (intro map_cong) auto
  then show ?thesis by (simp only: message_schedule_def)
qed

lemma sha256_blocks_eq: "sha256_blocks s data n = fold (\<lambda>b s. ref_block s b) (blocks_of n data) s"
proof (induction n arbitrary: s data)
  case (Suc n)
  then show ?case
    by (simp add: Let_def block_rounds ref_block_def schedule_take SHA256_BLOCK_LENGTH_def del: upt_rec_numeral)
qed simp

lemma blocks_of_append:
  "64 * n \<le> length xs \<Longrightarrow> blocks_of (n + m) xs = blocks_of n xs @ blocks_of m (drop (64 * n) xs)"
  by (induction n arbitrary: xs) (auto simp: add.commute)

lemma blocks_of_take: "64 * n \<le> length xs \<Longrightarrow> blocks_of n (xs @ ys) = blocks_of n xs"
proof (induction n arbitrary: xs)
  case (Suc n)
  then have "64 \<le> length xs" by simp
  then show ?case using Suc by simp
qed simp

text \<open>The padding of the standard ends on a block boundary; the code's last blocks are its tail.\<close>

lemma pad_zeros:
  fixes r :: nat
  assumes "r < 64"
  shows "(r + 9 + (64 - 1)) div 64 * 64 - 8 - r - 1 = (55 + 64 - r) mod 64"
    and "r + 1 + (55 + 64 - r) mod 64 + 8 = 64 * ((r + 9 + 63) div 64)"
proof -
  have q: "(r + 9 + 63) div 64 = (if r \<le> 55 then 1 else 2)" using assms by (auto simp: div_nat_eqI)
  have m: "(55 + 64 - r) mod 64 = (if r \<le> 55 then 55 - r else 119 - r)"
  proof (cases "r \<le> 55")
    case True
    then have "55 + 64 - r = (55 - r) + 64" by simp
    then show ?thesis using True by (simp only: mod_add_self2) simp
  qed (use assms in simp)
  have q': "(r + 9 + (64 - 1)) div 64 = (if r \<le> 55 then 1 else 2)" using q by simp
  show "(r + 9 + (64 - 1)) div 64 * 64 - 8 - r - 1 = (55 + 64 - r) mod 64"
    unfolding q' m using assms by (auto split: if_splits)
  show "r + 1 + (55 + 64 - r) mod 64 + 8 = 64 * ((r + 9 + 63) div 64)"
    unfolding q m using assms by auto
qed

lemma bitcount_eq: "unat (of_nat n * 8 :: u64) = 8 * n mod 2 ^ 64"
proof -
  have "of_nat n * 8 = (of_nat (8 * n) :: u64)" by simp
  then show ?thesis by (simp only: unat_of_nat) simp
qed

lemma ref_pad_split: "ref_pad data = take (64 * (length data div 64)) data @ sha256_final data"
proof -
  define r where "r = length data mod 64"
  have r: "r < 64" by (simp add: r_def)
  have l: "length data - r = 64 * (length data div 64)" by (simp add: r_def minus_mod_eq_mult_div)
  have "sha256_final data =
      drop (64 * (length data div 64)) data @ [0x80] @ replicate ((55 + 64 - r) mod 64) 0 @
      be_enc 8 (8 * length data mod 2 ^ 64)"
    unfolding sha256_final_def Let_def SHA256_BLOCK_LENGTH_def r_def [symmetric] l bitcount_eq
      pad_zeros(1) [OF r] ..
  then show ?thesis by (simp add: ref_pad_def r_def)
qed

lemma length_final: "length (sha256_final data) = 64 * ((length data mod 64 + 9 + 63) div 64)"
proof -
  define r where "r = length data mod 64"
  have r: "r < 64" by (simp add: r_def)
  have "length (sha256_final data) = r + 1 + (55 + 64 - r) mod 64 + 8"
    unfolding sha256_final_def Let_def SHA256_BLOCK_LENGTH_def r_def [symmetric] pad_zeros(1) [OF r]
    using mod_less_eq_dividend [of "length data" 64] by (simp add: r_def)
  then show ?thesis using pad_zeros(2) [OF r] by (simp add: r_def)
qed

section \<open>Property\<close>


end
