(* ===== verification/Cfg.thy ===== *)
theory Cfg
  imports Prelude
begin

text \<open>
  bpftool's control flow graph of a translated BPF program (\<open>lib/bpftool/src/cfg.c\<close>). A pointer
  to an instruction is its index in the program (an integer, as the code computes targets before
  and behind the buffer); the linked lists are lists, and an edge names its blocks by their
  position in the function's list. Every node comes from \<open>calloc\<close>: the heap counts the nodes
  that are live and those that can still be allocated. A function's result is its error flag,
  what it built and the heap, or \<open>None\<close> where it would read outside the program or follow a
  null pointer.
\<close>

section \<open>Data\<close>

record bpf_insn =
  in_code :: u8
  in_dst_reg :: u8
  in_src_reg :: u8
  in_off :: i16
  in_imm :: i32

record edge_node =
  ed_src :: nat
  ed_dst :: "nat option"
  ed_flags :: u32

record bb_node =
  bb_prevs :: "edge_node list"
  bb_succs :: "edge_node list"
  bb_head :: "int option"
  bb_tail :: "int option"
  bb_idx :: nat

record func_node =
  fn_bbs :: "bb_node list"
  fn_start :: int
  fn_end :: int
  fn_idx :: nat
  fn_bb_num :: nat

record cfg =
  cfg_funcs :: "func_node list"
  cfg_func_num :: nat

definition EDGE_FLAG_EMPTY :: u32 where "EDGE_FLAG_EMPTY = 0"
definition EDGE_FLAG_FALLTHROUGH :: u32 where "EDGE_FLAG_FALLTHROUGH = 1"
definition EDGE_FLAG_JUMP :: u32 where "EDGE_FLAG_JUMP = 2"
definition ENTRY_BLOCK_INDEX :: nat where "ENTRY_BLOCK_INDEX = 0"
definition EXIT_BLOCK_INDEX :: nat where "EXIT_BLOCK_INDEX = 1"
definition NUM_FIXED_BLOCKS :: nat where "NUM_FIXED_BLOCKS = 2"

text \<open>Instruction classes and operations, from the BPF instruction set header.\<close>

definition BPF_CLASS :: "u8 \<Rightarrow> u8" where "BPF_CLASS c = c AND 0x07"
definition BPF_OP :: "u8 \<Rightarrow> u8" where "BPF_OP c = c AND 0xf0"
definition BPF_JMP :: u8 where "BPF_JMP = 0x05"
definition BPF_JMP32 :: u8 where "BPF_JMP32 = 0x06"
definition BPF_JA :: u8 where "BPF_JA = 0x00"
definition BPF_CALL :: u8 where "BPF_CALL = 0x80"
definition BPF_EXIT :: u8 where "BPF_EXIT = 0x90"
definition BPF_PSEUDO_CALL :: u8 where "BPF_PSEUDO_CALL = 1"

lemmas cfg_consts =
  EDGE_FLAG_EMPTY_def EDGE_FLAG_FALLTHROUGH_def EDGE_FLAG_JUMP_def ENTRY_BLOCK_INDEX_def
  EXIT_BLOCK_INDEX_def NUM_FIXED_BLOCKS_def BPF_CLASS_def BPF_OP_def BPF_JMP_def BPF_JMP32_def
  BPF_JA_def BPF_CALL_def BPF_EXIT_def BPF_PSEUDO_CALL_def

definition insn_at :: "bpf_insn list \<Rightarrow> int \<Rightarrow> bpf_insn option" where
  "insn_at prog i = (if 0 \<le> i \<and> i < int (length prog) then Some (prog ! nat i) else None)"

definition jump_target :: "bpf_insn \<Rightarrow> int \<Rightarrow> int" where
  "jump_target insn cur = cur + sint (in_off insn) + 1"

section \<open>Allocation\<close>

record heap =
  hp_live :: nat
  hp_budget :: nat

definition calloc :: "heap \<Rightarrow> heap option" where
  "calloc h = (if hp_budget h = 0 then None
     else Some (h\<lparr>hp_live := hp_live h + 1, hp_budget := hp_budget h - 1\<rparr>))"

definition free_node :: "heap \<Rightarrow> heap" where
  "free_node h = h\<lparr>hp_live := hp_live h - 1\<rparr>"

section \<open>Functions\<close>

text \<open>
  \<open>cfg_append_func\<close>: the list is ordered by start. The new node goes in front of the first
  function that starts later, or to the end.
\<close>

fun insert_func :: "func_node \<Rightarrow> func_node list \<Rightarrow> func_node list" where
  "insert_func f [] = [f]"
| "insert_func f (g # gs) = (if fn_start f < fn_start g then f # g # gs else g # insert_func f gs)"

fun known_func :: "int \<Rightarrow> func_node list \<Rightarrow> bool" where
  "known_func insn [] = False"
| "known_func insn (g # gs) =
     (if fn_start g = insn then True else if insn < fn_start g then False else known_func insn gs)"

definition new_func :: "int \<Rightarrow> nat \<Rightarrow> func_node" where
  "new_func insn i = \<lparr>fn_bbs = [], fn_start = insn, fn_end = 0, fn_idx = i, fn_bb_num = 0\<rparr>"

definition cfg_append_func :: "int \<Rightarrow> cfg \<Rightarrow> heap \<Rightarrow> bool \<times> cfg \<times> heap" where
  "cfg_append_func insn c h =
     (if known_func insn (cfg_funcs c) then (False, c, h)
      else case calloc h of
        None \<Rightarrow> (True, c, h)
      | Some h \<Rightarrow>
          (False, c\<lparr>cfg_funcs := insert_func (new_func insn (cfg_func_num c)) (cfg_funcs c),
                    cfg_func_num := cfg_func_num c + 1\<rparr>, h))"

text \<open>The loop over the instructions from \<open>cur\<close> on.\<close>

fun partition_funcs_loop :: "int \<Rightarrow> bpf_insn list \<Rightarrow> cfg \<Rightarrow> heap \<Rightarrow> bool \<times> cfg \<times> heap" where
  "partition_funcs_loop cur [] c h = (False, c, h)"
| "partition_funcs_loop cur (insn # rest) c h =
     (if in_code insn \<noteq> BPF_JMP OR BPF_CALL then partition_funcs_loop (cur + 1) rest c h
      else if in_src_reg insn \<noteq> BPF_PSEUDO_CALL then partition_funcs_loop (cur + 1) rest c h
      else case cfg_append_func (jump_target insn cur) c h of
        (True, c, h) \<Rightarrow> (True, c, h)
      | (False, c, h) \<Rightarrow> partition_funcs_loop (cur + 1) rest c h)"

fun set_func_ends :: "int \<Rightarrow> func_node list \<Rightarrow> func_node list" where
  "set_func_ends e [] = []"
| "set_func_ends e [f] = [f\<lparr>fn_end := e - 1\<rparr>]"
| "set_func_ends e (f # g # gs) = f\<lparr>fn_end := fn_start g - 1\<rparr> # set_func_ends e (g # gs)"

definition cfg_partition_funcs :: "bpf_insn list \<Rightarrow> cfg \<Rightarrow> heap \<Rightarrow> bool \<times> cfg \<times> heap" where
  "cfg_partition_funcs prog c h =
     (case cfg_append_func 0 c h of
        (True, c, h) \<Rightarrow> (True, c, h)
      | (False, c, h) \<Rightarrow>
          (case partition_funcs_loop 0 prog c h of
             (True, c, h) \<Rightarrow> (True, c, h)
           | (False, c, h) \<Rightarrow>
               (False, c\<lparr>cfg_funcs := set_func_ends (int (length prog)) (cfg_funcs c)\<rparr>, h)))"

section \<open>Basic blocks\<close>

definition new_bb :: "int option \<Rightarrow> bb_node" where
  "new_bb start = \<lparr>bb_prevs = [], bb_succs = [], bb_head = start, bb_tail = None, bb_idx = 0\<rparr>"

text \<open>\<open>func_append_bb\<close>, before the dummy blocks are there: every block has a head.\<close>

fun insert_bb :: "int \<Rightarrow> bb_node list \<Rightarrow> bb_node list" where
  "insert_bb insn [] = [new_bb (Some insn)]"
| "insert_bb insn (b # bs) =
     (if insn < the (bb_head b) then new_bb (Some insn) # b # bs else b # insert_bb insn bs)"

fun known_bb :: "int \<Rightarrow> bb_node list \<Rightarrow> bool" where
  "known_bb insn [] = False"
| "known_bb insn (b # bs) =
     (if bb_head b = Some insn then True else if insn < the (bb_head b) then False
      else known_bb insn bs)"

definition func_append_bb :: "int \<Rightarrow> bb_node list \<Rightarrow> heap \<Rightarrow> bool \<times> bb_node list \<times> heap" where
  "func_append_bb insn bs h =
     (if known_bb insn bs then (False, bs, h)
      else case calloc h of
        None \<Rightarrow> (True, bs, h)
      | Some h \<Rightarrow> (False, insert_bb insn bs, h))"

definition is_jmp_insn :: "u8 \<Rightarrow> bool" where
  "is_jmp_insn code \<longleftrightarrow> BPF_CLASS code = BPF_JMP \<or> BPF_CLASS code = BPF_JMP32"

definition is_branch :: "u8 \<Rightarrow> bool" where
  "is_branch code \<longleftrightarrow> is_jmp_insn code \<and> \<not> (BPF_OP code = BPF_EXIT \<or> BPF_OP code = BPF_CALL)"

text \<open>One turn of the loop of \<open>func_partition_bb_head\<close>.\<close>

definition bb_head_step ::
    "bpf_insn \<Rightarrow> int \<Rightarrow> bb_node list \<Rightarrow> heap \<Rightarrow> bool \<times> bb_node list \<times> heap" where
  "bb_head_step insn cur bs h =
     (if is_jmp_insn (in_code insn) then
        let opcode = BPF_OP (in_code insn)
        in if opcode = BPF_EXIT \<or> opcode = BPF_CALL then (False, bs, h)
           else case func_append_bb (jump_target insn cur) bs h of
             (True, bs, h) \<Rightarrow> (True, bs, h)
           | (False, bs, h) \<Rightarrow>
               if opcode \<noteq> BPF_JA then func_append_bb (cur + 1) bs h else (False, bs, h)
      else (False, bs, h))"

fun bb_head_loop ::
    "nat \<Rightarrow> bpf_insn list \<Rightarrow> int \<Rightarrow> bb_node list \<Rightarrow> heap \<Rightarrow> (bool \<times> bb_node list \<times> heap) option" where
  "bb_head_loop 0 prog cur bs h = Some (False, bs, h)"
| "bb_head_loop (Suc n) prog cur bs h =
     (case insn_at prog cur of
        None \<Rightarrow> None
      | Some insn \<Rightarrow>
          (case bb_head_step insn cur bs h of
             (True, bs, h) \<Rightarrow> Some (True, bs, h)
           | (False, bs, h) \<Rightarrow> bb_head_loop n prog (cur + 1) bs h))"

definition func_partition_bb_head ::
    "bpf_insn list \<Rightarrow> func_node \<Rightarrow> heap \<Rightarrow> (bool \<times> func_node \<times> heap) option" where
  "func_partition_bb_head prog f h =
     (case func_append_bb (fn_start f) [] h of
        (True, bs, h) \<Rightarrow> Some (True, f\<lparr>fn_bbs := bs\<rparr>, h)
      | (False, bs, h) \<Rightarrow>
          map_option (\<lambda>(err, bs, h). (err, f\<lparr>fn_bbs := bs\<rparr>, h))
            (bb_head_loop (nat (fn_end f + 1 - fn_start f)) prog (fn_start f) bs h))"

fun bb_tails :: "int \<Rightarrow> nat \<Rightarrow> bb_node list \<Rightarrow> bb_node list" where
  "bb_tails e i [] = []"
| "bb_tails e i [b] = [b\<lparr>bb_tail := Some e, bb_idx := i\<rparr>]"
| "bb_tails e i (b # c # bs) =
     b\<lparr>bb_tail := Some (the (bb_head c) - 1), bb_idx := i\<rparr> # bb_tails e (i + 1) (c # bs)"

definition func_partition_bb_tail :: "func_node \<Rightarrow> func_node" where
  "func_partition_bb_tail f =
     f\<lparr>fn_bbs := bb_tails (fn_end f) NUM_FIXED_BLOCKS (fn_bbs f),
       fn_bb_num := NUM_FIXED_BLOCKS + length (fn_bbs f)\<rparr>"

definition func_partition_bb ::
    "bpf_insn list \<Rightarrow> func_node \<Rightarrow> heap \<Rightarrow> (bool \<times> func_node \<times> heap) option" where
  "func_partition_bb prog f h =
     map_option (\<lambda>(err, f, h). if err then (True, f, h) else (False, func_partition_bb_tail f, h))
       (func_partition_bb_head prog f h)"

definition func_add_special_bb :: "func_node \<Rightarrow> heap \<Rightarrow> bool \<times> func_node \<times> heap" where
  "func_add_special_bb f h =
     (case calloc h of
        None \<Rightarrow> (True, f, h)
      | Some h \<Rightarrow>
          let f = f\<lparr>fn_bbs := (new_bb None)\<lparr>bb_idx := ENTRY_BLOCK_INDEX\<rparr> # fn_bbs f\<rparr>
          in case calloc h of
               None \<Rightarrow> (True, f, h)
             | Some h \<Rightarrow>
                 (False, f\<lparr>fn_bbs := fn_bbs f @ [(new_bb None)\<lparr>bb_idx := EXIT_BLOCK_INDEX\<rparr>]\<rparr>, h))"

section \<open>Edges\<close>

definition func_search_bb_with_head :: "bb_node list \<Rightarrow> int \<Rightarrow> nat option" where
  "func_search_bb_with_head bs insn =
     map_option fst (find (\<lambda>(i, b). bb_head b = Some insn) (enumerate 0 bs))"

definition new_edge :: "nat \<Rightarrow> nat option \<Rightarrow> u32 \<Rightarrow> edge_node" where
  "new_edge src dst flags = \<lparr>ed_src = src, ed_dst = dst, ed_flags = flags\<rparr>"

definition add_succ :: "nat \<Rightarrow> edge_node \<Rightarrow> bb_node list \<Rightarrow> bb_node list" where
  "add_succ i e bs = bs[i := (bs ! i)\<lparr>bb_succs := bb_succs (bs ! i) @ [e]\<rparr>]"

definition add_prev :: "nat \<Rightarrow> edge_node \<Rightarrow> bb_node list \<Rightarrow> bb_node list" where
  "add_prev i e bs = bs[i := (bs ! i)\<lparr>bb_prevs := bb_prevs (bs ! i) @ [e]\<rparr>]"

text \<open>One turn of the loop over the blocks between ENTRY and EXIT.\<close>

definition bb_edges ::
    "bpf_insn list \<Rightarrow> nat \<Rightarrow> bb_node list \<Rightarrow> heap \<Rightarrow> (bool \<times> bb_node list \<times> heap) option" where
  "bb_edges prog i bs h =
     (case calloc h of
        None \<Rightarrow> Some (True, bs, h)
      | Some h \<Rightarrow>
          (case Option.bind (bb_tail (bs ! i)) (\<lambda>t. map_option (Pair t) (insn_at prog t)) of
             None \<Rightarrow> None
           | Some (t, insn) \<Rightarrow>
               if \<not> is_jmp_insn (in_code insn) \<or> BPF_OP (in_code insn) = BPF_CALL \<or>
                  BPF_OP (in_code insn) = BPF_EXIT
               then Some (False, add_succ i (new_edge i (Some (i + 1)) EDGE_FLAG_FALLTHROUGH) bs, h)
               else if BPF_OP (in_code insn) = BPF_JA
               then Some (False, add_succ i (new_edge i
                      (func_search_bb_with_head bs (jump_target insn t)) EDGE_FLAG_JUMP) bs, h)
               else
                 let bs = add_succ i (new_edge i (Some (i + 1)) EDGE_FLAG_FALLTHROUGH) bs
                 in case calloc h of
                      None \<Rightarrow> Some (True, bs, h)
                    | Some h \<Rightarrow>
                        Some (False, add_succ i (new_edge i
                          (func_search_bb_with_head bs (jump_target insn t)) EDGE_FLAG_JUMP) bs, h)))"

fun bb_edges_loop ::
    "bpf_insn list \<Rightarrow> nat list \<Rightarrow> bb_node list \<Rightarrow> heap \<Rightarrow> (bool \<times> bb_node list \<times> heap) option" where
  "bb_edges_loop prog [] bs h = Some (False, bs, h)"
| "bb_edges_loop prog (i # is) bs h =
     (case bb_edges prog i bs h of
        None \<Rightarrow> None
      | Some (True, bs, h) \<Rightarrow> Some (True, bs, h)
      | Some (False, bs, h) \<Rightarrow> bb_edges_loop prog is bs h)"

definition func_add_bb_edges ::
    "bpf_insn list \<Rightarrow> func_node \<Rightarrow> heap \<Rightarrow> (bool \<times> func_node \<times> heap) option" where
  "func_add_bb_edges prog f h =
     (let bs = fn_bbs f; n = length bs
      in case calloc h of
           None \<Rightarrow> Some (True, f, h)
         | Some h \<Rightarrow>
             let bs = add_succ 0 (new_edge 0 (Some 1) EDGE_FLAG_FALLTHROUGH) bs
             in case calloc h of
                  None \<Rightarrow> Some (True, f\<lparr>fn_bbs := bs\<rparr>, h)
                | Some h \<Rightarrow>
                    let bs = add_prev (n - 1) (new_edge (n - 2) (Some (n - 1)) EDGE_FLAG_FALLTHROUGH) bs
                    in map_option (\<lambda>(err, bs, h). (err, f\<lparr>fn_bbs := bs\<rparr>, h))
                         (bb_edges_loop prog [1..<n - 1] bs h))"

section \<open>Building and destroying\<close>

definition build_func ::
    "bpf_insn list \<Rightarrow> func_node \<Rightarrow> heap \<Rightarrow> (bool \<times> func_node \<times> heap) option" where
  "build_func prog f h =
     (case func_partition_bb prog f h of
        None \<Rightarrow> None
      | Some (True, f, h) \<Rightarrow> Some (True, f, h)
      | Some (False, f, h) \<Rightarrow>
          (case func_add_special_bb f h of
             (True, f, h) \<Rightarrow> Some (True, f, h)
           | (False, f, h) \<Rightarrow> func_add_bb_edges prog f h))"

fun build_funcs ::
    "bpf_insn list \<Rightarrow> func_node list \<Rightarrow> heap \<Rightarrow> (bool \<times> func_node list \<times> heap) option" where
  "build_funcs prog [] h = Some (False, [], h)"
| "build_funcs prog (f # fs) h =
     (case build_func prog f h of
        None \<Rightarrow> None
      | Some (True, f, h) \<Rightarrow> Some (True, f # fs, h)
      | Some (False, f, h) \<Rightarrow>
          map_option (\<lambda>(err, fs, h). (err, f # fs, h)) (build_funcs prog fs h))"

definition cfg_build :: "bpf_insn list \<Rightarrow> heap \<Rightarrow> (bool \<times> cfg \<times> heap) option" where
  "cfg_build prog h =
     (case cfg_partition_funcs prog \<lparr>cfg_funcs = [], cfg_func_num = 0\<rparr> h of
        (True, c, h) \<Rightarrow> Some (True, c, h)
      | (False, c, h) \<Rightarrow>
          map_option (\<lambda>(err, fs, h). (err, c\<lparr>cfg_funcs := fs\<rparr>, h))
            (build_funcs prog (cfg_funcs c) h))"

definition free_nodes :: "'a list \<Rightarrow> heap \<Rightarrow> heap" where
  "free_nodes xs h = fold (\<lambda>_ h. free_node h) xs h"

definition destroy_bb :: "bb_node \<Rightarrow> heap \<Rightarrow> heap" where
  "destroy_bb b h = free_node (free_nodes (bb_succs b) (free_nodes (bb_prevs b) h))"

definition destroy_func :: "func_node \<Rightarrow> heap \<Rightarrow> heap" where
  "destroy_func f h = free_node (fold destroy_bb (fn_bbs f) h)"

definition cfg_destroy :: "cfg \<Rightarrow> heap \<Rightarrow> heap" where
  "cfg_destroy c h = fold destroy_func (cfg_funcs c) h"

section \<open>The graph as text\<close>

text \<open>
  The DOT output. The disassembly of a block (\<open>dump_xlated_for_graph\<close> of \<open>xlated_dumper.c\<close>,
  from its first and last instruction and its offset in the function) is the argument \<open>body\<close>.
  An edge without a destination is a null pointer the code follows: \<open>None\<close>.
\<close>

definition tab :: string where "tab = [char_of (9 :: nat)]"
definition newline :: string where "newline = [char_of (10 :: nat)]"

definition node_name :: "nat \<Rightarrow> nat \<Rightarrow> string" where
  "node_name fi bi = ''fn_'' @ dec_digits fi @ ''_bb_'' @ dec_digits bi"

definition draw_bb_node :: "(int \<Rightarrow> int \<Rightarrow> int \<Rightarrow> string) \<Rightarrow> func_node \<Rightarrow> bb_node \<Rightarrow> string option" where
  "draw_bb_node body f b =
     (let shape = (if bb_idx b = ENTRY_BLOCK_INDEX \<or> bb_idx b = EXIT_BLOCK_INDEX
                   then ''Mdiamond'' else ''record'');
          label = (if bb_idx b = ENTRY_BLOCK_INDEX then Some ''ENTRY''
                   else if bb_idx b = EXIT_BLOCK_INDEX then Some ''EXIT''
                   else case (bb_head b, bb_tail b) of
                     (Some hd1, Some tl1) \<Rightarrow>
                       Some (''{'' @ [char_of (92 :: nat)] @ newline @ body hd1 tl1 (hd1 - fn_start f) @ ''}'')
                   | _ \<Rightarrow> None)
      in map_option (\<lambda>l. tab @ node_name (fn_idx f) (bb_idx b) @ '' [shape='' @ shape @
             '',style=filled,label=\"'' @ l @ ''\"];'' @ newline @ newline) label)"

definition draw_edge :: "func_node \<Rightarrow> edge_node \<Rightarrow> string option" where
  "draw_edge f e =
     map_option (\<lambda>d. tab @ node_name (fn_idx f) (bb_idx (fn_bbs f ! ed_src e)) @ '':s -> '' @
         node_name (fn_idx f) (bb_idx (fn_bbs f ! d)) @
         '':n [style=\"solid,bold\", color=black, weight=10, constraint=true'' @ ''];'' @ newline)
       (ed_dst e)"

definition concat_opt :: "('a \<Rightarrow> string option) \<Rightarrow> 'a list \<Rightarrow> string option" where
  "concat_opt f xs = fold_opt (\<lambda>x acc. map_option (\<lambda>s. acc @ s) (f x)) xs []"

definition draw_bb_succ_edges :: "func_node \<Rightarrow> bb_node \<Rightarrow> string option" where
  "draw_bb_succ_edges f b = concat_opt (draw_edge f) (bb_succs b)"

definition func_output_bb_def ::
    "(int \<Rightarrow> int \<Rightarrow> int \<Rightarrow> string) \<Rightarrow> func_node \<Rightarrow> string option" where
  "func_output_bb_def body f = concat_opt (draw_bb_node body f) (fn_bbs f)"

definition func_output_edges :: "func_node \<Rightarrow> string option" where
  "func_output_edges f =
     map_option (\<lambda>s. s @ tab @ node_name (fn_idx f) ENTRY_BLOCK_INDEX @ '':s -> '' @
         node_name (fn_idx f) EXIT_BLOCK_INDEX @ '':n [style=\"invis\", constraint=true];'' @ newline)
       (concat_opt (draw_bb_succ_edges f) (fn_bbs f))"

definition dump_func :: "(int \<Rightarrow> int \<Rightarrow> int \<Rightarrow> string) \<Rightarrow> func_node \<Rightarrow> string option" where
  "dump_func body f =
     (case (func_output_bb_def body f, func_output_edges f) of
        (Some nodes, Some edges) \<Rightarrow>
          Some (''subgraph \"cluster_'' @ dec_digits (fn_idx f) @ ''\" {'' @ newline @
                tab @ ''style=\"dashed\";'' @ newline @ tab @ ''color=\"black\";'' @ newline @
                tab @ ''label=\"func_'' @ dec_digits (fn_idx f) @ '' ()\";'' @ newline @
                nodes @ edges @ ''}'' @ newline)
      | _ \<Rightarrow> None)"

definition cfg_dump :: "(int \<Rightarrow> int \<Rightarrow> int \<Rightarrow> string) \<Rightarrow> cfg \<Rightarrow> string option" where
  "cfg_dump body c =
     map_option (\<lambda>s. ''digraph \"DOT graph for eBPF program\" {'' @ newline @ s @ ''}'' @ newline)
       (concat_opt (dump_func body) (cfg_funcs c))"

text \<open>The text printed and the heap left.\<close>

definition dump_xlated_cfg ::
    "(int \<Rightarrow> int \<Rightarrow> int \<Rightarrow> string) \<Rightarrow> bpf_insn list \<Rightarrow> heap \<Rightarrow> (string \<times> heap) option" where
  "dump_xlated_cfg body prog h =
     (case cfg_build prog h of
        None \<Rightarrow> None
      | Some (True, c, h) \<Rightarrow> Some ([], h)
      | Some (False, c, h) \<Rightarrow> map_option (\<lambda>s. (s, cfg_destroy c h)) (cfg_dump body c))"

end
