(* ===== verification/Cfg_Props.thy ===== *)
theory Cfg_Props
  imports Cfg
begin

text \<open>
  The control flow graph is a graph: the functions and their blocks split the program into
  consecutive ranges, every edge leads to a block, and every node that is allocated is freed
  by \<open>cfg_destroy\<close>.
\<close>

section \<open>Leaders\<close>

definition heads :: "bb_node list \<Rightarrow> int list" where
  "heads bs = map (\<lambda>b. the (bb_head b)) bs"

definition heads_ok :: "bb_node list \<Rightarrow> bool" where
  "heads_ok bs \<longleftrightarrow> (\<forall>b\<in>set bs. bb_head b \<noteq> None \<and> bb_prevs b = [] \<and> bb_succs b = []) \<and>
     sorted_wrt (<) (heads bs)"

definition leaders :: "bpf_insn \<Rightarrow> int \<Rightarrow> int set" where
  "leaders insn cur =
     (if is_branch (in_code insn)
      then insert (jump_target insn cur) (if BPF_OP (in_code insn) = BPF_JA then {} else {cur + 1})
      else {})"

lemma heads_simps [simp]:
  "heads [] = []" "heads (b # bs) = the (bb_head b) # heads bs"
  "heads (bs @ cs) = heads bs @ heads cs" "length (heads bs) = length bs"
  by (simp_all add: heads_def)

lemma new_bb_sel [simp]:
  "bb_head (new_bb x) = x" "bb_tail (new_bb x) = None" "bb_prevs (new_bb x) = []"
  "bb_succs (new_bb x) = []"
  by (simp_all add: new_bb_def)

lemma heads_ok_Cons:
  "heads_ok (b # bs) \<longleftrightarrow> (\<exists>x. bb_head b = Some x \<and> (\<forall>y\<in>set (heads bs). x < y)) \<and>
     bb_prevs b = [] \<and> bb_succs b = [] \<and> heads_ok bs"
  by (auto simp: heads_ok_def)

lemma heads_ok_Nil [simp]: "heads_ok []"
  by (simp add: heads_ok_def)

lemma known_bb_iff: "heads_ok bs \<Longrightarrow> known_bb x bs \<longleftrightarrow> x \<in> set (heads bs)"
  by (induction bs) (force simp: heads_ok_Cons)+

lemma insert_bb_ok:
  "heads_ok bs \<Longrightarrow> x \<notin> set (heads bs) \<Longrightarrow>
     heads_ok (insert_bb x bs) \<and> set (heads (insert_bb x bs)) = insert x (set (heads bs)) \<and>
     length (insert_bb x bs) = Suc (length bs)"
proof (induction bs)
  case Nil
  then show ?case by (simp add: heads_ok_Cons)
next
  case (Cons b bs)
  obtain y where y: "bb_head b = Some y" "\<forall>z\<in>set (heads bs). y < z" "heads_ok bs"
    using Cons.prems(1) by (auto simp: heads_ok_Cons)
  show ?case
  proof (cases "x < y")
    case True
    then show ?thesis using Cons.prems y by (auto simp: heads_ok_Cons)
  next
    case False
    then have "y < x" using Cons.prems(2) y(1) by auto
    with False Cons y show ?thesis by (auto simp: heads_ok_Cons)
  qed
qed

lemma hd_sorted_min:
  "sorted_wrt (<) (xs :: int list) \<Longrightarrow> m \<in> set xs \<Longrightarrow> \<forall>x\<in>set xs. m \<le> x \<Longrightarrow> hd xs = m"
  by (cases xs) fastforce+

definition bbs_grow :: "int set \<Rightarrow> bb_node list \<times> heap \<Rightarrow> bb_node list \<times> heap \<Rightarrow> bool" where
  "bbs_grow L s t \<longleftrightarrow> heads_ok (fst t) \<and> set (heads (fst t)) = L \<union> set (heads (fst s)) \<and>
     hp_live (snd t) + length (fst s) = hp_live (snd s) + length (fst t)"

lemma bbs_grow_trans:
  "bbs_grow L s t \<Longrightarrow> bbs_grow K t u \<Longrightarrow> bbs_grow (L \<union> K) s u"
  by (auto simp: bbs_grow_def)

lemma bbs_grow_refl: "heads_ok bs \<Longrightarrow> bbs_grow {} (bs, h) (bs, h)"
  by (simp add: bbs_grow_def)

lemma bbs_grow_partial:
  "bbs_grow L s t \<Longrightarrow> heads_ok (fst t) \<and>
     hp_live (snd t) + length (fst s) = hp_live (snd s) + length (fst t)"
  by (simp add: bbs_grow_def)

lemma calloc_live: "calloc h = Some h' \<Longrightarrow> hp_live h' = hp_live h + 1"
  by (auto simp: calloc_def split: if_splits)

lemma append_bb_grow:
  assumes "func_append_bb x bs h = (err, bs', h')" "heads_ok bs"
  shows "bbs_grow (if err then {} else {x}) (bs, h) (bs', h')"
proof (cases "known_bb x bs")
  case True
  then show ?thesis
    using assms known_bb_iff [OF assms(2)] by (auto simp: func_append_bb_def bbs_grow_def)
next
  case False
  then have "x \<notin> set (heads bs)" using known_bb_iff [OF assms(2)] by blast
  from insert_bb_ok [OF assms(2) this] False assms show ?thesis
    by (auto simp: func_append_bb_def bbs_grow_def calloc_live split: option.splits)
qed

lemma bb_head_step_grow:
  assumes "bb_head_step insn cur bs h = (err, bs', h')" "heads_ok bs"
  shows "if err then heads_ok bs' \<and> hp_live h' + length bs = hp_live h + length bs'
         else bbs_grow (leaders insn cur) (bs, h) (bs', h')"
proof (cases "is_branch (in_code insn)")
  case False
  then have "(err, bs', h') = (False, bs, h)"
    using assms(1) by (auto simp: bb_head_step_def is_branch_def Let_def split: if_splits)
  then show ?thesis using assms(2) False by (simp add: bbs_grow_refl leaders_def)
next
  case True
  obtain e1 bs1 h1 where app: "func_append_bb (jump_target insn cur) bs h = (e1, bs1, h1)"
    by (metis prod_cases3)
  note g1 = append_bb_grow [OF app assms(2)]
  have ok1: "heads_ok bs1" using bbs_grow_partial [OF g1] by simp
  show ?thesis
  proof (cases "e1 \<or> BPF_OP (in_code insn) = BPF_JA")
    case t: True
    then show ?thesis
      using assms(1) True app g1 bbs_grow_partial [OF g1]
      by (auto simp: bb_head_step_def is_branch_def leaders_def Let_def split: bool.splits)
  next
    case f: False
    then have "func_append_bb (cur + 1) bs1 h1 = (err, bs', h')"
      using assms(1) True app by (auto simp: bb_head_step_def is_branch_def Let_def)
    note g2 = append_bb_grow [OF this ok1]
    show ?thesis
      using f True bbs_grow_trans [OF g1 g2] bbs_grow_partial [OF bbs_grow_trans [OF g1 g2]]
      by (auto simp: leaders_def insert_commute)
  qed
qed

lemma bb_head_loop_grow:
  "bb_head_loop n prog cur bs h = Some (err, bs', h') \<Longrightarrow> heads_ok bs \<Longrightarrow>
     if err then heads_ok bs' \<and> hp_live h' + length bs = hp_live h + length bs'
     else bbs_grow (\<Union>i<n. leaders (prog ! nat (cur + int i)) (cur + int i)) (bs, h) (bs', h')"
proof (induction n arbitrary: cur bs h)
  case 0
  then show ?case by (simp add: bbs_grow_refl)
next
  case (Suc n)
  obtain insn where insn: "insn_at prog cur = Some insn"
    using Suc.prems(1) by (auto split: option.splits)
  then have nth: "insn = prog ! nat cur" by (auto simp: insn_at_def split: if_splits)
  obtain e1 bs1 h1 where step: "bb_head_step insn cur bs h = (e1, bs1, h1)"
    by (metis prod_cases3)
  note g1 = bb_head_step_grow [OF step Suc.prems(2)]
  show ?case
  proof (cases e1)
    case True
    then show ?thesis using Suc.prems(1) g1 insn step by (auto split: bool.splits)
  next
    case False
    then have g1': "bbs_grow (leaders insn cur) (bs, h) (bs1, h1)" using g1 by simp
    have rest: "bb_head_loop n prog (cur + 1) bs1 h1 = Some (err, bs', h')"
      using Suc.prems(1) insn step False by simp
    have ok1: "heads_ok bs1" using g1' by (simp add: bbs_grow_def)
    have un: "(\<Union>i<Suc n. leaders (prog ! nat (cur + int i)) (cur + int i)) =
        leaders insn cur \<union> (\<Union>i<n. leaders (prog ! nat (cur + 1 + int i)) (cur + 1 + int i))"
      by (simp add: nth lessThan_Suc_eq_insert_0 image_image add.assoc del: UN_simps)
    show ?thesis
      using Suc.IH [OF rest ok1] g1' bbs_grow_trans [OF g1'] unfolding un
      by (auto simp: bbs_grow_def split: if_splits)
  qed
qed

section \<open>Blocks\<close>

text \<open>The leaders of a function: its first instruction, the targets of its branches and the
  instructions after its conditional branches.\<close>

definition func_leaders :: "bpf_insn list \<Rightarrow> int \<Rightarrow> int \<Rightarrow> int set" where
  "func_leaders prog s e = insert s (\<Union>p\<in>{s..e}. leaders (prog ! nat p) p)"

lemma leaders_range:
  "s \<le> e + 1 \<Longrightarrow> (\<Union>i<nat (e + 1 - s). leaders (prog ! nat (s + int i)) (s + int i)) =
     (\<Union>p\<in>{s..e}. leaders (prog ! nat p) p)"
proof -
  assume "s \<le> e + 1"
  have "{s..e} = (\<lambda>i. s + int i) ` {..<nat (e + 1 - s)}"
  proof (intro equalityI subsetI)
    fix p assume "p \<in> {s..e}"
    then have "p = s + int (nat (p - s))" "nat (p - s) \<in> {..<nat (e + 1 - s)}" by auto
    then show "p \<in> (\<lambda>i. s + int i) ` {..<nat (e + 1 - s)}" by (rule image_eqI)
  qed auto
  then show ?thesis by (simp only: image_image)
qed

lemma partition_head_facts:
  assumes "func_partition_bb_head prog f h = Some (err, f', h')"
  shows "\<exists>bs. f' = f\<lparr>fn_bbs := bs\<rparr> \<and> heads_ok bs \<and> hp_live h' = hp_live h + length bs \<and>
           (fn_start f \<le> fn_end f \<longrightarrow> \<not> err \<longrightarrow>
             set (heads bs) = func_leaders prog (fn_start f) (fn_end f))"
proof -
  obtain e1 bs1 h1 where app: "func_append_bb (fn_start f) [] h = (e1, bs1, h1)"
    by (metis prod_cases3)
  note g1 = append_bb_grow [OF app heads_ok_Nil]
  show ?thesis
  proof (cases e1)
    case True
    then show ?thesis
      using assms(1) app g1 by (auto simp: func_partition_bb_head_def bbs_grow_def)
  next
    case False
    then obtain bs where loop: "bb_head_loop (nat (fn_end f + 1 - fn_start f)) prog (fn_start f) bs1 h1 =
        Some (err, bs, h')" and f': "f' = f\<lparr>fn_bbs := bs\<rparr>"
      using assms(1) app by (auto simp: func_partition_bb_head_def)
    have "heads_ok bs1" using bbs_grow_partial [OF g1] by simp
    from bb_head_loop_grow [OF loop this] show ?thesis
      using g1 False leaders_range [of "fn_start f" "fn_end f" prog] f'
      by (intro exI [of _ bs]) (auto simp: bbs_grow_def func_leaders_def split: if_splits)
  qed
qed

text \<open>What a block list with tails describes: consecutive ranges up to \<open>e\<close>.\<close>

fun ranges_upto :: "int \<Rightarrow> bb_node list \<Rightarrow> bool" where
  "ranges_upto e [] = True"
| "ranges_upto e [b] = (bb_tail b = Some e)"
| "ranges_upto e (b # c # bs) =
     (bb_tail b = Some (the (bb_head c) - 1) \<and> ranges_upto e (c # bs))"

definition bb_range :: "bb_node \<Rightarrow> int list" where
  "bb_range b = [the (bb_head b)..the (bb_tail b)]"

lemma bb_tails_facts:
  "heads (bb_tails e i bs) = heads bs" "length (bb_tails e i bs) = length bs"
  "map bb_head (bb_tails e i bs) = map bb_head bs"
  "map bb_succs (bb_tails e i bs) = map bb_succs bs" "map bb_prevs (bb_tails e i bs) = map bb_prevs bs"
  by (induction e i bs rule: bb_tails.induct) simp_all

lemma bb_tails_ranges: "ranges_upto e (bb_tails e i bs)"
proof (induction e i bs rule: bb_tails.induct)
  case (3 e i b c bs)
  then show ?case by (cases bs) simp_all
qed simp_all

lemma ranges_concat:
  assumes "ranges_upto e bs" "sorted_wrt (<) (heads bs)" "bs \<noteq> []" "\<forall>x\<in>set (heads bs). x \<le> e + 1"
  shows "concat (map bb_range bs) = [hd (heads bs)..e]"
  using assms
proof (induction e bs rule: ranges_upto.induct)
  case (3 e b c bs)
  then have ih: "concat (map bb_range (c # bs)) = [the (bb_head c)..e]" by simp
  have lt: "the (bb_head b) < the (bb_head c)" "the (bb_head c) \<le> e + 1" using "3.prems" by auto
  have "[the (bb_head b)..e] = [the (bb_head b)..the (bb_head c) - 1] @ [the (bb_head c)..e]"
    using lt upto_split1 [of "the (bb_head b)" "the (bb_head c)" e]
    by (cases "the (bb_head c) = e + 1") (simp_all add: upto_split1)
  moreover have "bb_range b = [the (bb_head b)..the (bb_head c) - 1]"
    using "3.prems" by (simp add: bb_range_def)
  ultimately show ?case using ih by simp
qed (simp_all add: bb_range_def)

lemma ranges_tail_bounds:
  assumes "ranges_upto e bs" "sorted_wrt (<) (heads bs)" "\<forall>x\<in>set (heads bs). s \<le> x \<and> x \<le> e + 1"
    "s \<le> e" "b \<in> set bs"
  shows "\<exists>t. bb_tail b = Some t \<and> s \<le> t \<and> t \<le> e"
  using assms
proof (induction e bs rule: ranges_upto.induct)
  case (3 e b' c bs)
  show ?case
  proof (cases "b = b'")
    case True
    then show ?thesis using "3.prems" by force
  next
    case False
    then show ?thesis using 3 by simp
  qed
qed auto

section \<open>Edges\<close>

definition bb_shape :: "bb_node \<Rightarrow> int option \<times> int option \<times> nat" where
  "bb_shape b = (bb_head b, bb_tail b, bb_idx b)"

definition nodes_bb :: "bb_node \<Rightarrow> nat" where
  "nodes_bb b = 1 + length (bb_prevs b) + length (bb_succs b)"

definition nodes_bbs :: "bb_node list \<Rightarrow> nat" where
  "nodes_bbs bs = sum_list (map nodes_bb bs)"

definition edges_ok :: "bb_node list \<Rightarrow> bool" where
  "edges_ok bs \<longleftrightarrow>
     (\<forall>b\<in>set bs. \<forall>e\<in>set (bb_succs b). \<exists>d. ed_dst e = Some d \<and> d < length bs)"

lemma nodes_update:
  assumes "i < length bs" "nodes_bb b = nodes_bb (bs ! i) + 1"
  shows "nodes_bbs (bs[i := b]) = nodes_bbs bs + 1"
proof -
  have "nodes_bb (bs ! i) \<le> nodes_bbs bs"
    using assms(1) by (auto simp: nodes_bbs_def intro!: member_le_sum_list)
  then show ?thesis
    using assms by (simp add: nodes_bbs_def map_update sum_list_update)
qed

lemma add_edge_facts:
  assumes "i < length bs"
  shows "length (add_succ i e bs) = length bs" "length (add_prev i e bs) = length bs"
    "map bb_shape (add_succ i e bs) = map bb_shape bs" "map bb_shape (add_prev i e bs) = map bb_shape bs"
    "nodes_bbs (add_succ i e bs) = nodes_bbs bs + 1" "nodes_bbs (add_prev i e bs) = nodes_bbs bs + 1"
    "edges_ok bs \<Longrightarrow> ed_dst e = Some d \<Longrightarrow> d < length bs \<Longrightarrow> edges_ok (add_succ i e bs)"
    "edges_ok bs \<Longrightarrow> edges_ok (add_prev i e bs)"
proof -
  have same: "map bb_shape bs = (map bb_shape bs)[i := bb_shape (bs ! i)]"
    using assms by (simp flip: map_update)
  show "map bb_shape (add_succ i e bs) = map bb_shape bs"
    using same by (simp add: add_succ_def map_update bb_shape_def)
  show "map bb_shape (add_prev i e bs) = map bb_shape bs"
    using same by (simp add: add_prev_def map_update bb_shape_def)
  show "nodes_bbs (add_succ i e bs) = nodes_bbs bs + 1"
    unfolding add_succ_def by (rule nodes_update [OF assms]) (simp add: nodes_bb_def)
  show "nodes_bbs (add_prev i e bs) = nodes_bbs bs + 1"
    unfolding add_prev_def by (rule nodes_update [OF assms]) (simp add: nodes_bb_def)
  have old: "\<exists>d. ed_dst e' = Some d \<and> d < length bs"
    if "edges_ok bs" "e' \<in> set (bb_succs (bs ! i))" for e'
    using that nth_mem [OF assms] by (auto simp: edges_ok_def)
  show "edges_ok bs \<Longrightarrow> ed_dst e = Some d \<Longrightarrow> d < length bs \<Longrightarrow> edges_ok (add_succ i e bs)"
    "edges_ok bs \<Longrightarrow> edges_ok (add_prev i e bs)"
    using old
    by (auto simp: edges_ok_def add_succ_def add_prev_def dest!: set_update_subset_insert [THEN subsetD])
qed (simp_all add: add_succ_def add_prev_def)

lemma search_head:
  "func_search_bb_with_head bs x = Some d \<Longrightarrow> d < length bs \<and> bb_head (bs ! d) = Some x"
  by (auto simp: func_search_bb_with_head_def find_Some_iff nth_enumerate_eq)

lemma search_head_exists:
  "b \<in> set bs \<Longrightarrow> bb_head b = Some x \<Longrightarrow> \<exists>d. func_search_bb_with_head bs x = Some d"
proof -
  assume "b \<in> set bs" "bb_head b = Some x"
  then obtain i where "i < length bs" "bb_head (bs ! i) = Some x" by (auto simp: in_set_conv_nth)
  then have "(i, bs ! i) \<in> set (enumerate 0 bs)" "(\<lambda>(i, b). bb_head b = Some x) (i, bs ! i)"
    by (auto simp: in_set_enumerate_eq)
  then have "find (\<lambda>(i, b). bb_head b = Some x) (enumerate 0 bs) \<noteq> None"
    unfolding find_None_iff by blast
  then show ?thesis by (auto simp: func_search_bb_with_head_def)
qed

text \<open>The targets that the tail of a block needs.\<close>

definition tail_resolved :: "bpf_insn list \<Rightarrow> bb_node list \<Rightarrow> nat \<Rightarrow> bool" where
  "tail_resolved prog bs i \<longleftrightarrow>
     (\<forall>t insn. bb_tail (bs ! i) = Some t \<longrightarrow> insn_at prog t = Some insn \<longrightarrow>
        is_branch (in_code insn) \<longrightarrow> (\<exists>b\<in>set bs. bb_head b = Some (jump_target insn t)))"

lemma shape_nth:
  assumes "map bb_shape bs' = map bb_shape bs" "j < length bs"
  shows "bb_head (bs' ! j) = bb_head (bs ! j)" "bb_tail (bs' ! j) = bb_tail (bs ! j)"
    "bb_idx (bs' ! j) = bb_idx (bs ! j)"
proof -
  have "map bb_shape bs' ! j = map bb_shape bs ! j" "length bs' = length bs"
    using assms(1) by (simp, metis length_map)
  then show "bb_head (bs' ! j) = bb_head (bs ! j)" "bb_tail (bs' ! j) = bb_tail (bs ! j)"
    "bb_idx (bs' ! j) = bb_idx (bs ! j)"
    using assms(2) by (simp_all add: bb_shape_def)
qed

lemma tail_resolved_shape:
  assumes "map bb_shape bs' = map bb_shape bs" "i < length bs"
  shows "tail_resolved prog bs' i \<longleftrightarrow> tail_resolved prog bs i"
proof -
  have len: "length bs' = length bs" using assms(1) by (metis length_map)
  note nth = shape_nth [OF assms(1)]
  have "(\<exists>b\<in>set bs'. bb_head b = x) \<longleftrightarrow> (\<exists>b\<in>set bs. bb_head b = x)" for x
    using nth len by (metis in_set_conv_nth)
  then show ?thesis using nth [OF assms(2)] by (simp add: tail_resolved_def)
qed

definition bbs_linked :: "bb_node list \<times> heap \<Rightarrow> bb_node list \<times> heap \<Rightarrow> bool" where
  "bbs_linked s t \<longleftrightarrow> length (fst t) = length (fst s) \<and>
     map bb_shape (fst t) = map bb_shape (fst s) \<and>
     hp_live (snd t) + nodes_bbs (fst s) = hp_live (snd s) + nodes_bbs (fst t)"

lemma bbs_linked_refl: "bbs_linked s s"
  by (simp add: bbs_linked_def)

lemma bbs_linked_trans: "bbs_linked s t \<Longrightarrow> bbs_linked t u \<Longrightarrow> bbs_linked s u"
  by (simp add: bbs_linked_def)

lemma linked_add:
  assumes "i < length bs" "calloc h = Some h'"
  shows "bbs_linked (bs, h) (add_succ i e bs, h')" "bbs_linked (bs, h) (add_prev i e bs, h')"
  using calloc_live [OF assms(2)] add_edge_facts [OF assms(1)] by (simp_all add: bbs_linked_def)

lemma bb_edges_facts:
  assumes "bb_edges prog i bs h = Some (err, bs', h')" "Suc i < length bs"
  shows "bbs_linked (bs, h) (bs', h')"
    and "edges_ok bs \<Longrightarrow> tail_resolved prog bs i \<Longrightarrow> edges_ok bs'"
proof -
  have "bbs_linked (bs, h) (bs', h') \<and> (edges_ok bs \<longrightarrow> tail_resolved prog bs i \<longrightarrow> edges_ok bs')"
  proof (cases "calloc h")
    case None
    then show ?thesis using assms(1) by (simp add: bb_edges_def bbs_linked_refl)
  next
    case h1: (Some h1)
    obtain t insn where t: "bb_tail (bs ! i) = Some t" "insn_at prog t = Some insn"
      using assms(1) h1 by (auto simp: bb_edges_def bind_eq_Some_conv split: option.splits)
    have dst: "\<exists>d. func_search_bb_with_head cs (jump_target insn t) = Some d \<and> d < length cs"
      if pre: "tail_resolved prog cs i" "is_branch (in_code insn)" "bb_tail (cs ! i) = Some t" for cs
    proof -
      obtain b where "b \<in> set cs" "bb_head b = Some (jump_target insn t)"
        using pre t(2) by (auto simp: tail_resolved_def)
      from search_head_exists [OF this] search_head show ?thesis by blast
    qed
    let ?fall = "add_succ i (new_edge i (Some (Suc i)) EDGE_FLAG_FALLTHROUGH) bs"
    let ?jump = "new_edge i (func_search_bb_with_head ?fall (jump_target insn t)) EDGE_FLAG_JUMP"
    have i: "i < length bs" "i < length ?fall" using assms(2) by (simp_all add: add_succ_def)
    note fall = add_edge_facts(7) [OF i(1), of "new_edge i (Some (Suc i)) EDGE_FLAG_FALLTHROUGH"]
    show ?thesis
    proof (cases "is_branch (in_code insn) \<and> BPF_OP (in_code insn) \<noteq> BPF_JA")
      case False
      show ?thesis
      proof (cases "is_branch (in_code insn)")
        case True
        then have "bs' = add_succ i (new_edge i (func_search_bb_with_head bs (jump_target insn t))
            EDGE_FLAG_JUMP) bs" "h' = h1"
          using False assms(1) h1 t by (simp_all add: bb_edges_def is_branch_def)
        then show ?thesis
          using linked_add(1) [OF i(1) h1] add_edge_facts(7) [OF i(1)] dst [of bs] t(1) True
          by (auto simp: new_edge_def)
      next
        case nobr: False
        then have "bs' = ?fall" "h' = h1"
          using assms(1) h1 t by (auto simp: bb_edges_def is_branch_def)
        then show ?thesis
          using linked_add(1) [OF i(1) h1] fall assms(2) by (auto simp: new_edge_def)
      qed
    next
      case True
      have shape: "map bb_shape ?fall = map bb_shape bs" "length ?fall = length bs"
        using add_edge_facts [OF i(1)] by simp_all
      have dst2: "\<exists>d. func_search_bb_with_head ?fall (jump_target insn t) = Some d \<and> d < length bs"
        if "tail_resolved prog bs i"
        using dst [of ?fall] that tail_resolved_shape [OF shape(1) i(1), of prog] True t(1)
          shape_nth(2) [OF shape(1) i(1)] shape(2) by simp
      show ?thesis
      proof (cases "calloc h1")
        case None
        then show ?thesis
          using assms h1 t True linked_add [OF i(1) h1] fall
          by (auto simp: bb_edges_def is_branch_def new_edge_def Let_def)
      next
        case h2: (Some h2)
        then have res: "bs' = add_succ i ?jump ?fall" "h' = h2"
          using assms h1 t True by (auto simp: bb_edges_def is_branch_def Let_def)
        show ?thesis
          using res bbs_linked_trans [OF linked_add(1) [OF i(1) h1] linked_add(1) [OF i(2) h2]]
            add_edge_facts(7) [OF i(2)] dst2 fall shape(2) assms(2)
          by (auto simp: new_edge_def)
      qed
    qed
  qed
  then show "bbs_linked (bs, h) (bs', h')" "edges_ok bs \<Longrightarrow> tail_resolved prog bs i \<Longrightarrow> edges_ok bs'"
    by blast+
qed

lemma bb_edges_loop_facts:
  "bb_edges_loop prog is bs h = Some (err, bs', h') \<Longrightarrow> \<forall>i\<in>set is. Suc i < length bs \<Longrightarrow>
     bbs_linked (bs, h) (bs', h') \<and>
     (edges_ok bs \<longrightarrow> (\<forall>i\<in>set is. tail_resolved prog bs i) \<longrightarrow> edges_ok bs')"
proof (induction "is" arbitrary: bs h)
  case Nil
  then show ?case by (simp add: bbs_linked_refl)
next
  case (Cons i "is")
  obtain e1 bs1 h1 where step: "bb_edges prog i bs h = Some (e1, bs1, h1)"
    using Cons.prems(1) by (auto split: option.splits)
  have i: "Suc i < length bs" using Cons.prems(2) by simp
  note s1 = bb_edges_facts [OF step i]
  show ?case
  proof (cases e1)
    case True
    then show ?thesis using Cons.prems(1) step s1 by auto
  next
    case False
    have len: "length bs1 = length bs" "map bb_shape bs1 = map bb_shape bs"
      using s1(1) by (simp_all add: bbs_linked_def)
    have "bb_edges_loop prog is bs1 h1 = Some (err, bs', h')"
      using Cons.prems(1) step False by simp
    from Cons.IH [OF this] Cons.prems(2) len
    have ih: "bbs_linked (bs1, h1) (bs', h')"
      "edges_ok bs1 \<Longrightarrow> \<forall>i\<in>set is. tail_resolved prog bs1 i \<Longrightarrow> edges_ok bs'" by simp_all
    have "tail_resolved prog bs1 j \<longleftrightarrow> tail_resolved prog bs j" if "j \<in> set is" for j
      using that Cons.prems(2) by (intro tail_resolved_shape [OF len(2)]) (simp add: Suc_lessD)
    then show ?thesis using bbs_linked_trans [OF s1(1) ih(1)] ih(2) s1(2) by auto
  qed
qed

lemma heads_shape: "map bb_shape bs = map bb_shape cs \<Longrightarrow> heads bs = heads cs"
proof -
  assume "map bb_shape bs = map bb_shape cs"
  then have "map (the \<circ> fst) (map bb_shape bs) = map (the \<circ> fst) (map bb_shape cs)"
    by (simp only:)
  then show ?thesis by (simp add: heads_def bb_shape_def comp_def)
qed

section \<open>Functions\<close>

text \<open>Every branch of the range stays in it.\<close>

definition jumps_local :: "bpf_insn list \<Rightarrow> int \<Rightarrow> int \<Rightarrow> bool" where
  "jumps_local prog s e \<longleftrightarrow>
     (\<forall>p\<in>{s..e}. 0 \<le> p \<and> p < int (length prog) \<and>
        (is_branch (in_code (prog ! nat p)) \<longrightarrow> jump_target (prog ! nat p) p \<in> {s..e}))"

definition nodes_func :: "func_node \<Rightarrow> nat" where
  "nodes_func f = 1 + nodes_bbs (fn_bbs f)"

text \<open>The blocks between ENTRY and EXIT.\<close>

definition code_bbs :: "func_node \<Rightarrow> bb_node list" where
  "code_bbs f = butlast (tl (fn_bbs f))"

lemma nodes_bbs_simps [simp]:
  "nodes_bbs [] = 0" "nodes_bbs (b # bs) = nodes_bb b + nodes_bbs bs"
  "nodes_bbs (bs @ cs) = nodes_bbs bs + nodes_bbs cs"
  by (simp_all add: nodes_bbs_def)

lemma nodes_bb_fresh [simp]: "nodes_bb (new_bb x) = 1" "nodes_bb (b\<lparr>bb_idx := i\<rparr>) = nodes_bb b"
  by (simp_all add: nodes_bb_def)

lemma nodes_heads_ok: "heads_ok bs \<Longrightarrow> nodes_bbs bs = length bs"
  by (induction bs) (simp_all add: heads_ok_Cons nodes_bb_def)

lemma nodes_tails: "nodes_bbs (bb_tails e i bs) = nodes_bbs bs"
  by (induction e i bs rule: bb_tails.induct) (simp_all add: nodes_bb_def)

lemma map_range_shape:
  "map bb_shape bs = map bb_shape cs \<Longrightarrow> map bb_range bs = map bb_range cs"
proof -
  assume "map bb_shape bs = map bb_shape cs"
  moreover have "bb_range = (\<lambda>(h, tl, i). [the h..the tl]) \<circ> bb_shape"
    by (auto simp: bb_range_def bb_shape_def)
  ultimately show ?thesis by (metis map_map)
qed

lemma func_partition_facts:
  assumes "func_partition_bb prog f h = Some (err, f', h')"
  shows "\<exists>bs. fn_start f' = fn_start f \<and> fn_end f' = fn_end f \<and> fn_idx f' = fn_idx f \<and>
     heads_ok bs \<and> hp_live h' = hp_live h + length bs \<and> nodes_bbs (fn_bbs f') = length bs \<and>
     (\<not> err \<longrightarrow> fn_bbs f' = bb_tails (fn_end f) NUM_FIXED_BLOCKS bs \<and>
        (fn_start f \<le> fn_end f \<longrightarrow> set (heads bs) = func_leaders prog (fn_start f) (fn_end f)))"
proof -
  obtain e1 f1 where hd: "func_partition_bb_head prog f h = Some (e1, f1, h')"
    and res: "(err, f') = (if e1 then (True, f1) else (False, func_partition_bb_tail f1))"
    using assms(1) by (auto simp: func_partition_bb_def split: if_splits)
  obtain bs where bs: "f1 = f\<lparr>fn_bbs := bs\<rparr>" "heads_ok bs" "hp_live h' = hp_live h + length bs"
    "\<not> e1 \<Longrightarrow> fn_start f \<le> fn_end f \<Longrightarrow> set (heads bs) = func_leaders prog (fn_start f) (fn_end f)"
    using partition_head_facts [OF hd] by blast
  show ?thesis
    using res bs nodes_heads_ok [OF bs(2)]
    by (intro exI [of _ bs]) (auto simp: func_partition_bb_tail_def nodes_tails split: if_splits)
qed

lemma special_bb_facts:
  assumes "func_add_special_bb f h = (err, f', h')"
  shows "hp_live h' + nodes_bbs (fn_bbs f) = hp_live h + nodes_bbs (fn_bbs f')"
    and "fn_start f' = fn_start f \<and> fn_end f' = fn_end f \<and> fn_idx f' = fn_idx f"
    and "\<not> err \<Longrightarrow> fn_bbs f' = (new_bb None)\<lparr>bb_idx := ENTRY_BLOCK_INDEX\<rparr> # fn_bbs f @
           [(new_bb None)\<lparr>bb_idx := EXIT_BLOCK_INDEX\<rparr>]"
  using assms calloc_live by (auto simp: func_add_special_bb_def Let_def split: option.splits)

lemma add_bb_edges_facts:
  assumes "func_add_bb_edges prog f h = Some (err, f', h')" "2 \<le> length (fn_bbs f)"
  shows "bbs_linked (fn_bbs f, h) (fn_bbs f', h')"
    and "fn_start f' = fn_start f \<and> fn_end f' = fn_end f \<and> fn_idx f' = fn_idx f"
    and "edges_ok (fn_bbs f) \<Longrightarrow> \<forall>i\<in>{1..<length (fn_bbs f) - 1}. tail_resolved prog (fn_bbs f) i \<Longrightarrow>
         edges_ok (fn_bbs f')"
proof -
  let ?bs = "fn_bbs f" let ?n = "length ?bs"
  let ?b1 = "add_succ 0 (new_edge 0 (Some 1) EDGE_FLAG_FALLTHROUGH) ?bs"
  let ?b2 = "add_prev (?n - 1) (new_edge (?n - 2) (Some (?n - 1)) EDGE_FLAG_FALLTHROUGH) ?b1"
  have ix: "0 < ?n" "?n - 1 < length ?b1" using assms(2) by (auto simp: add_succ_def)
  have len: "length ?b1 = ?n" "length ?b2 = ?n" by (simp_all add: add_succ_def add_prev_def)
  have ok2: "edges_ok ?bs \<Longrightarrow> edges_ok ?b2"
    using assms(2) add_edge_facts(7) [OF ix(1), of "new_edge 0 (Some 1) EDGE_FLAG_FALLTHROUGH" 1]
      add_edge_facts(8) [OF ix(2)] by (simp add: new_edge_def)
  have ok1: "edges_ok ?bs \<Longrightarrow> edges_ok ?b1"
    using assms(2) add_edge_facts(7) [OF ix(1), of "new_edge 0 (Some 1) EDGE_FLAG_FALLTHROUGH" 1]
    by (simp add: new_edge_def)
  have shape: "map bb_shape ?b2 = map bb_shape ?bs"
    using add_edge_facts(3) [OF ix(1)] add_edge_facts(4) [OF ix(2)] by simp
  have "bbs_linked (?bs, h) (fn_bbs f', h') \<and>
      (fn_start f' = fn_start f \<and> fn_end f' = fn_end f \<and> fn_idx f' = fn_idx f) \<and>
      (edges_ok ?bs \<longrightarrow> (\<forall>i\<in>{1..<?n - 1}. tail_resolved prog ?bs i) \<longrightarrow> edges_ok (fn_bbs f'))"
  proof (cases "calloc h")
    case None
    then show ?thesis using assms(1) by (auto simp: func_add_bb_edges_def bbs_linked_refl)
  next
    case h1: (Some h1)
    show ?thesis
    proof (cases "calloc h1")
      case None
      then show ?thesis
        using assms(1) h1 linked_add(1) [OF ix(1) h1] ok1 by (auto simp: func_add_bb_edges_def Let_def)
    next
      case h2: (Some h2)
      then obtain bs' where loop: "bb_edges_loop prog [1..<?n - 1] ?b2 h2 = Some (err, bs', h')"
        and f': "f' = f\<lparr>fn_bbs := bs'\<rparr>"
        using assms(1) h1 by (auto simp: func_add_bb_edges_def Let_def)
      have bnd: "\<forall>i\<in>set [1..<?n - 1]. Suc i < length ?b2" using len by auto
      note facts = bb_edges_loop_facts [OF loop bnd]
      have "tail_resolved prog ?b2 i \<longleftrightarrow> tail_resolved prog ?bs i" if "i \<in> {1..<?n - 1}" for i
        using that by (intro tail_resolved_shape [OF shape]) auto
      then show ?thesis
        using facts f' ok2
          bbs_linked_trans [OF bbs_linked_trans [OF linked_add(1) [OF ix(1) h1] linked_add(2) [OF ix(2) h2]]]
        by auto
    qed
  qed
  then show "bbs_linked (fn_bbs f, h) (fn_bbs f', h')"
    "fn_start f' = fn_start f \<and> fn_end f' = fn_end f \<and> fn_idx f' = fn_idx f"
    "edges_ok (fn_bbs f) \<Longrightarrow> \<forall>i\<in>{1..<length (fn_bbs f) - 1}. tail_resolved prog (fn_bbs f) i \<Longrightarrow>
         edges_ok (fn_bbs f')"
    by blast+
qed

lemma build_func_nodes:
  assumes "build_func prog f h = Some (err, f', h')" "fn_bbs f = []"
  shows "hp_live h' + nodes_func f = hp_live h + nodes_func f'"
    and "fn_start f' = fn_start f \<and> fn_end f' = fn_end f \<and> fn_idx f' = fn_idx f"
proof -
  obtain e1 f1 h1 where part: "func_partition_bb prog f h = Some (e1, f1, h1)"
    using assms(1) by (auto simp: build_func_def split: option.splits)
  obtain bs :: "bb_node list" where p: "fn_start f1 = fn_start f" "fn_end f1 = fn_end f" "fn_idx f1 = fn_idx f"
    "hp_live h1 = hp_live h + length bs" "nodes_bbs (fn_bbs f1) = length bs"
    using func_partition_facts [OF part] by blast
  obtain e2 f2 h2 where spec: "func_add_special_bb f1 h1 = (e2, f2, h2)" by (metis prod_cases3)
  note s = special_bb_facts [OF spec]
  have "hp_live h' + nodes_func f = hp_live h + nodes_func f' \<and>
      fn_start f' = fn_start f \<and> fn_end f' = fn_end f \<and> fn_idx f' = fn_idx f"
  proof (cases "e1 \<or> e2")
    case True
    then show ?thesis
      using assms part spec p s by (auto simp: build_func_def nodes_func_def split: bool.splits)
  next
    case False
    then have edges: "func_add_bb_edges prog f2 h2 = Some (err, f', h')"
      using assms(1) part spec by (simp add: build_func_def)
    have "2 \<le> length (fn_bbs f2)" using s(3) False by simp
    note e = add_bb_edges_facts [OF edges this]
    show ?thesis using e(1,2) p s(1,2) assms(2) by (auto simp: bbs_linked_def nodes_func_def)
  qed
  then show "hp_live h' + nodes_func f = hp_live h + nodes_func f'"
    "fn_start f' = fn_start f \<and> fn_end f' = fn_end f \<and> fn_idx f' = fn_idx f" by blast+
qed

text \<open>In a function whose branches stay inside it, the leaders are in range.\<close>

lemma func_leaders_bounds:
  assumes "jumps_local prog s e" "x \<in> func_leaders prog s e" "s \<le> e"
  shows "s \<le> x \<and> x \<le> e + 1"
proof (cases "x = s")
  case True
  then show ?thesis using assms(3) by simp
next
  case False
  then obtain p where p: "p \<in> {s..e}" "x \<in> leaders (prog ! nat p) p"
    using assms(2) by (auto simp: func_leaders_def)
  then have "x = jump_target (prog ! nat p) p \<or> x = p + 1" "is_branch (in_code (prog ! nat p))"
    by (auto simp: leaders_def split: if_splits)
  then show ?thesis using p(1) assms(1) unfolding jumps_local_def by force
qed

lemma branch_is_leader:
  assumes "p \<in> {s..e}" "is_branch (in_code (prog ! nat p))"
  shows "jump_target (prog ! nat p) p \<in> func_leaders prog s e"
  using assms by (auto simp: func_leaders_def leaders_def)

lemma bb_tails_members:
  assumes "heads_ok bs" "b \<in> set (bb_tails e i bs)"
  shows "bb_succs b = []" "bb_head b \<noteq> None"
proof -
  have "bb_succs b \<in> set (map bb_succs (bb_tails e i bs))" "bb_head b \<in> set (map bb_head (bb_tails e i bs))"
    using assms(2) by simp_all
  then show "bb_succs b = []" "bb_head b \<noteq> None"
    unfolding bb_tails_facts using assms(1) by (auto simp: heads_ok_def)
qed

lemma resolved_tails:
  assumes "heads_ok bs" "set (heads bs) = func_leaders prog s e" "jumps_local prog s e" "s \<le> e"
    and "bbs = en # bb_tails e k bs @ [ex]" "1 \<le> i" "i < length bbs - 1"
  shows "tail_resolved prog bbs i"
proof -
  let ?ts = "bb_tails e k bs"
  have "i - 1 < length ?ts" using assms(5-7) by simp
  then have nth: "bbs ! i = ?ts ! (i - 1)" "?ts ! (i - 1) \<in> set ?ts"
    using assms(5,6) by (simp_all add: nth_Cons' nth_append)
  have bounds: "\<forall>x\<in>set (heads ?ts). s \<le> x \<and> x \<le> e + 1"
    using func_leaders_bounds [OF assms(3) _ assms(4)] assms(2) by (simp add: bb_tails_facts)
  have "sorted_wrt (<) (heads ?ts)" using assms(1) by (simp add: bb_tails_facts heads_ok_def)
  from ranges_tail_bounds [OF bb_tails_ranges this bounds assms(4) nth(2)]
  obtain t where t: "bb_tail (bbs ! i) = Some t" "t \<in> {s..e}" using nth(1) by auto
  have "\<exists>b\<in>set bbs. bb_head b = Some (jump_target (prog ! nat t) t)"
    if "is_branch (in_code (prog ! nat t))"
  proof -
    have "jump_target (prog ! nat t) t \<in> set (heads ?ts)"
      using branch_is_leader [OF t(2) that] assms(2) by (simp add: bb_tails_facts)
    then obtain b where "b \<in> set ?ts" "the (bb_head b) = jump_target (prog ! nat t) t"
      by (auto simp: heads_def)
    then show ?thesis using bb_tails_members(2) [OF assms(1)] assms(5) by force
  qed
  then show ?thesis using t(1) by (auto simp: tail_resolved_def insn_at_def split: if_splits)
qed

lemma build_func_ok:
  assumes "build_func prog f h = Some (False, f', h')" "fn_start f \<le> fn_end f"
    "jumps_local prog (fn_start f) (fn_end f)"
  shows "edges_ok (fn_bbs f')"
    and "concat (map bb_range (code_bbs f')) = [fn_start f..fn_end f]"
    and "set (heads (code_bbs f')) = func_leaders prog (fn_start f) (fn_end f)"
    and "b \<in> set (fn_bbs f') \<Longrightarrow> bb_idx b = ENTRY_BLOCK_INDEX \<or> bb_idx b = EXIT_BLOCK_INDEX \<or>
           bb_head b \<noteq> None \<and> bb_tail b \<noteq> None"
proof -
  let ?s = "fn_start f" let ?e = "fn_end f"
  obtain f1 h1 f2 h2 where steps: "func_partition_bb prog f h = Some (False, f1, h1)"
    "func_add_special_bb f1 h1 = (False, f2, h2)" "func_add_bb_edges prog f2 h2 = Some (False, f', h')"
    using assms(1) by (auto simp: build_func_def split: option.splits bool.splits prod.splits)
  obtain bs where bs: "heads_ok bs" "fn_bbs f1 = bb_tails ?e NUM_FIXED_BLOCKS bs"
    "set (heads bs) = func_leaders prog ?s ?e"
    using func_partition_facts [OF steps(1)] assms(2) by blast
  let ?ts = "bb_tails ?e NUM_FIXED_BLOCKS bs"
  obtain en ex where f2: "fn_bbs f2 = en # ?ts @ [ex]" "bb_succs en = []" "bb_succs ex = []"
    "bb_idx en = ENTRY_BLOCK_INDEX" "bb_idx ex = EXIT_BLOCK_INDEX"
    using special_bb_facts(3) [OF steps(2)] bs(2) by auto
  then have two: "2 \<le> length (fn_bbs f2)" by simp
  note e = add_bb_edges_facts [OF steps(3) two]
  have "edges_ok (fn_bbs f2)" using f2 bb_tails_members(1) [OF bs(1)] by (auto simp: edges_ok_def)
  moreover have "\<forall>i\<in>{1..<length (fn_bbs f2) - 1}. tail_resolved prog (fn_bbs f2) i"
    using resolved_tails [OF bs(1,3) assms(3,2) f2(1)] by simp
  ultimately show "edges_ok (fn_bbs f')" by (rule e(3))
  have shape: "map bb_shape (fn_bbs f') = map bb_shape (fn_bbs f2)"
    using e(1) by (simp add: bbs_linked_def)
  have "map bb_shape (code_bbs f') = map bb_shape ?ts"
    using shape by (simp add: code_bbs_def f2(1) map_butlast map_tl)
  then have same: "map bb_range (code_bbs f') = map bb_range ?ts"
    and hd: "heads (code_bbs f') = heads ?ts"
    by (rule map_range_shape, rule heads_shape)
  then show "set (heads (code_bbs f')) = func_leaders prog ?s ?e"
    using bs(3) by (simp add: bb_tails_facts)
  have bounds: "\<forall>x\<in>set (heads ?ts). ?s \<le> x \<and> x \<le> ?e + 1"
    using func_leaders_bounds [OF assms(3) _ assms(2)] bs(3) by (simp add: bb_tails_facts)
  have sorted: "sorted_wrt (<) (heads ?ts)" using bs(1) by (simp add: bb_tails_facts heads_ok_def)
  have mem: "?s \<in> set (heads ?ts)" using bs(3) by (simp add: bb_tails_facts func_leaders_def)
  then have ne: "?ts \<noteq> []" by auto
  have "hd (heads ?ts) = ?s"
    using sorted mem bounds by (intro hd_sorted_min) auto
  then show "concat (map bb_range (code_bbs f')) = [?s..?e]"
    using ranges_concat [OF bb_tails_ranges sorted ne] bounds same(1) by simp
  assume "b \<in> set (fn_bbs f')"
  then have "bb_shape b \<in> set (map bb_shape (fn_bbs f'))" by simp
  then have "bb_shape b \<in> set (map bb_shape (fn_bbs f2))" by (simp only: shape)
  then obtain b2 where b2: "b2 \<in> set (en # ?ts @ [ex])" "bb_shape b = bb_shape b2"
    using f2(1) by auto
  have "b2 = en \<or> b2 = ex \<or> bb_head b2 \<noteq> None \<and> bb_tail b2 \<noteq> None"
    using b2(1) bb_tails_members(2) [OF bs(1), of b2] ranges_tail_bounds [OF bb_tails_ranges sorted bounds assms(2)]
    by fastforce
  then show "bb_idx b = ENTRY_BLOCK_INDEX \<or> bb_idx b = EXIT_BLOCK_INDEX \<or>
           bb_head b \<noteq> None \<and> bb_tail b \<noteq> None"
    using b2(2) f2(4,5) by (auto simp: bb_shape_def)
qed

section \<open>The program's functions\<close>

definition starts :: "func_node list \<Rightarrow> int list" where
  "starts fs = map fn_start fs"

definition funcs_ok :: "func_node list \<Rightarrow> bool" where
  "funcs_ok fs \<longleftrightarrow> sorted_wrt (<) (starts fs) \<and> (\<forall>f\<in>set fs. fn_bbs f = [])"

definition nodes_cfg :: "cfg \<Rightarrow> nat" where
  "nodes_cfg c = sum_list (map nodes_func (cfg_funcs c))"

text \<open>Where the pseudo calls of the program lead.\<close>

fun call_targets :: "int \<Rightarrow> bpf_insn list \<Rightarrow> int set" where
  "call_targets cur [] = {}"
| "call_targets cur (insn # rest) =
     (if in_code insn = BPF_JMP OR BPF_CALL \<and> in_src_reg insn = BPF_PSEUDO_CALL
      then insert (jump_target insn cur) (call_targets (cur + 1) rest)
      else call_targets (cur + 1) rest)"

lemma starts_simps [simp]:
  "starts [] = []" "starts (f # fs) = fn_start f # starts fs"
  by (simp_all add: starts_def)

lemma funcs_ok_Cons:
  "funcs_ok (f # fs) \<longleftrightarrow> (\<forall>s\<in>set (starts fs). fn_start f < s) \<and> fn_bbs f = [] \<and> funcs_ok fs"
  by (auto simp: funcs_ok_def)

lemma known_func_iff: "funcs_ok fs \<Longrightarrow> known_func x fs \<longleftrightarrow> x \<in> set (starts fs)"
  by (induction fs) (force simp: funcs_ok_Cons)+

lemma insert_func_ok:
  "funcs_ok fs \<Longrightarrow> fn_start f \<notin> set (starts fs) \<Longrightarrow> fn_bbs f = [] \<Longrightarrow>
     funcs_ok (insert_func f fs) \<and> set (starts (insert_func f fs)) = insert (fn_start f) (set (starts fs)) \<and>
     length (insert_func f fs) = Suc (length fs)"
proof (induction fs)
  case Nil
  then show ?case by (simp add: funcs_ok_def)
next
  case (Cons g gs)
  show ?case
  proof (cases "fn_start f < fn_start g")
    case True
    then show ?thesis using Cons.prems by (auto simp: funcs_ok_Cons)
  next
    case False
    then have "fn_start g < fn_start f" using Cons.prems(2) by auto
    with False Cons show ?thesis by (auto simp: funcs_ok_Cons)
  qed
qed

lemma append_func_facts:
  assumes "cfg_append_func x c h = (err, c', h')" "funcs_ok (cfg_funcs c)"
  shows "funcs_ok (cfg_funcs c') \<and>
     hp_live h' + length (cfg_funcs c) = hp_live h + length (cfg_funcs c') \<and>
     (\<not> err \<longrightarrow> set (starts (cfg_funcs c')) = insert x (set (starts (cfg_funcs c))))"
proof (cases "known_func x (cfg_funcs c)")
  case True
  then show ?thesis
    using assms known_func_iff [OF assms(2)] by (auto simp: cfg_append_func_def)
next
  case False
  then have nx: "fn_start (new_func x (cfg_func_num c)) \<notin> set (starts (cfg_funcs c))"
    using known_func_iff [OF assms(2)] by (simp add: new_func_def)
  have bbs: "fn_bbs (new_func x (cfg_func_num c)) = []" by (simp add: new_func_def)
  note ins = insert_func_ok [OF assms(2) nx bbs]
  show ?thesis
  proof (cases "calloc h")
    case None
    then show ?thesis using False assms by (auto simp: cfg_append_func_def)
  next
    case (Some h1)
    then show ?thesis
      using False assms(1) ins calloc_live [OF Some]
      by (auto simp: cfg_append_func_def) (auto simp: new_func_def)
  qed
qed

lemma partition_funcs_loop_facts:
  "partition_funcs_loop cur prog c h = (err, c', h') \<Longrightarrow> funcs_ok (cfg_funcs c) \<Longrightarrow>
     funcs_ok (cfg_funcs c') \<and>
     hp_live h' + length (cfg_funcs c) = hp_live h + length (cfg_funcs c') \<and>
     (\<not> err \<longrightarrow> set (starts (cfg_funcs c')) = call_targets cur prog \<union> set (starts (cfg_funcs c)))"
proof (induction prog arbitrary: cur c h)
  case Nil
  then show ?case by simp
next
  case (Cons insn rest)
  show ?case
  proof (cases "in_code insn = BPF_JMP OR BPF_CALL \<and> in_src_reg insn = BPF_PSEUDO_CALL")
    case False
    then have "partition_funcs_loop (cur + 1) rest c h = (err, c', h')"
      using Cons.prems(1) by (auto split: if_splits)
    from Cons.IH [OF this Cons.prems(2)] False show ?thesis by auto
  next
    case True
    obtain e1 c1 h1 where app: "cfg_append_func (jump_target insn cur) c h = (e1, c1, h1)"
      by (metis prod_cases3)
    note a = append_func_facts [OF app Cons.prems(2)]
    show ?thesis
    proof (cases e1)
      case e: True
      then show ?thesis using Cons.prems(1) True app a by auto
    next
      case False
      then have "partition_funcs_loop (cur + 1) rest c1 h1 = (err, c', h')"
        using Cons.prems(1) True app by simp
      from Cons.IH [OF this] a False True show ?thesis by auto
    qed
  qed
qed

lemma set_func_ends_facts:
  "starts (set_func_ends n fs) = starts fs" "map fn_bbs (set_func_ends n fs) = map fn_bbs fs"
  "length (set_func_ends n fs) = length fs"
  by (induction n fs rule: set_func_ends.induct) simp_all

lemma set_func_ends_ranges:
  assumes "sorted_wrt (<) (starts fs)" "\<forall>s\<in>set (starts fs). s < n" "fs \<noteq> []"
  shows "concat (map (\<lambda>f. [fn_start f..fn_end f]) (set_func_ends n fs)) = [hd (starts fs)..n - 1] \<and>
     (\<forall>f\<in>set (set_func_ends n fs). fn_start f \<le> fn_end f)"
  using assms
proof (induction n fs rule: set_func_ends.induct)
  case (3 n f g gs)
  then have ih: "concat (map (\<lambda>f. [fn_start f..fn_end f]) (set_func_ends n (g # gs))) = [fn_start g..n - 1]"
    "\<forall>f\<in>set (set_func_ends n (g # gs)). fn_start f \<le> fn_end f" by simp_all
  have lt: "fn_start f < fn_start g" "fn_start g < n" using "3.prems" by auto
  then have "[fn_start f..n - 1] = [fn_start f..fn_start g - 1] @ [fn_start g..n - 1]"
    by (intro upto_split1) simp_all
  then show ?case using ih lt by simp
qed simp_all

lemma build_funcs_facts:
  "build_funcs prog fs h = Some (err, fs', h') \<Longrightarrow> \<forall>f\<in>set fs. fn_bbs f = [] \<Longrightarrow>
     hp_live h' + sum_list (map nodes_func fs) = hp_live h + sum_list (map nodes_func fs') \<and>
     (\<not> err \<longrightarrow> list_all2 (\<lambda>f f'. fn_start f' = fn_start f \<and> fn_end f' = fn_end f \<and>
        (\<exists>h h'. build_func prog f h = Some (False, f', h'))) fs fs')"
proof (induction fs arbitrary: h fs')
  case Nil
  then show ?case by simp
next
  case (Cons f fs)
  obtain e1 f1 h1 where f1: "build_func prog f h = Some (e1, f1, h1)"
    using Cons.prems(1) by (auto split: option.splits)
  have "fn_bbs f = []" using Cons.prems(2) by simp
  note n = build_func_nodes [OF f1 this]
  show ?case
  proof (cases e1)
    case True
    then show ?thesis using Cons.prems(1) f1 n(1) by auto
  next
    case False
    then obtain fs1 where rest: "build_funcs prog fs h1 = Some (err, fs1, h')" and fs': "fs' = f1 # fs1"
      using Cons.prems(1) f1 by auto
    show ?thesis
      using Cons.IH [OF rest] Cons.prems(2) n f1 False fs' by auto
  qed
qed

lemma partition_facts:
  assumes "cfg_partition_funcs prog \<lparr>cfg_funcs = [], cfg_func_num = 0\<rparr> h = (err, c, h')"
  shows "funcs_ok (cfg_funcs c) \<and> hp_live h' = hp_live h + length (cfg_funcs c) \<and>
     (\<not> err \<longrightarrow> (\<exists>fs. cfg_funcs c = set_func_ends (int (length prog)) fs \<and> fs \<noteq> [] \<and>
        funcs_ok fs \<and> set (starts fs) = insert 0 (call_targets 0 prog)))"
proof -
  obtain e1 c1 h1 where app: "cfg_append_func 0 \<lparr>cfg_funcs = [], cfg_func_num = 0\<rparr> h = (e1, c1, h1)"
    by (metis prod_cases3)
  have a: "funcs_ok (cfg_funcs c1)" "hp_live h1 = hp_live h + length (cfg_funcs c1)"
    "\<not> e1 \<Longrightarrow> set (starts (cfg_funcs c1)) = {0}"
    using append_func_facts [OF app] by (simp_all add: funcs_ok_def)
  obtain e2 c2 h2 where loop: "partition_funcs_loop 0 prog c1 h1 = (e2, c2, h2)"
    by (metis prod_cases3)
  note l = partition_funcs_loop_facts [OF loop a(1)]
  have ends: "funcs_ok fs \<Longrightarrow> funcs_ok (set_func_ends n fs)" for n fs
  proof -
    assume ok: "funcs_ok fs"
    have "fn_bbs f = []" if "f \<in> set (set_func_ends n fs)" for f
    proof -
      have "fn_bbs f \<in> set (map fn_bbs (set_func_ends n fs))" using that by simp
      then have "fn_bbs f \<in> set (map fn_bbs fs)" by (simp only: set_func_ends_facts(2))
      then show ?thesis using ok by (auto simp: funcs_ok_def)
    qed
    with ok show ?thesis by (simp add: funcs_ok_def set_func_ends_facts)
  qed
  show ?thesis
  proof (cases "e1 \<or> e2")
    case True
    then show ?thesis
      using assms app loop a l by (auto simp: cfg_partition_funcs_def split: bool.splits)
  next
    case False
    then have c: "cfg_funcs c = set_func_ends (int (length prog)) (cfg_funcs c2)" "h' = h2" "\<not> err"
      using assms app loop by (auto simp: cfg_partition_funcs_def)
    have ne: "cfg_funcs c2 \<noteq> []" using l a(3) False by auto
    show ?thesis
      using c ne l a False ends
      by (intro conjI impI exI [of _ "cfg_funcs c2"]) (auto simp: set_func_ends_facts)
  qed
qed

lemma nodes_no_blocks: "\<forall>f\<in>set fs. fn_bbs f = [] \<Longrightarrow> sum_list (map nodes_func fs) = length fs"
  by (induction fs) (simp_all add: nodes_func_def)

lemma cfg_build_nodes:
  assumes "cfg_build prog h = Some (err, c, h')"
  shows "hp_live h' = hp_live h + nodes_cfg c"
proof -
  obtain e1 c1 h1 where part: "cfg_partition_funcs prog \<lparr>cfg_funcs = [], cfg_func_num = 0\<rparr> h = (e1, c1, h1)"
    by (metis prod_cases3)
  note p = partition_facts [OF part]
  have none: "\<forall>f\<in>set (cfg_funcs c1). fn_bbs f = []" using p by (simp add: funcs_ok_def)
  show ?thesis
  proof (cases e1)
    case True
    then show ?thesis
      using assms part p nodes_no_blocks [OF none] by (simp add: cfg_build_def nodes_cfg_def)
  next
    case False
    then obtain fs where b: "build_funcs prog (cfg_funcs c1) h1 = Some (err, fs, h')"
      and c: "c = c1\<lparr>cfg_funcs := fs\<rparr>"
      using assms part by (auto simp: cfg_build_def)
    show ?thesis
      using build_funcs_facts [OF b none] p nodes_no_blocks [OF none] c by (simp add: nodes_cfg_def)
  qed
qed

lemma cfg_build_functions:
  assumes "cfg_build prog h = Some (False, c, h')" "call_targets 0 prog \<subseteq> {0..<int (length prog)}"
    "prog \<noteq> []"
  shows "concat (map (\<lambda>f. [fn_start f..fn_end f]) (cfg_funcs c)) = [0..int (length prog) - 1]"
    and "f' \<in> set (cfg_funcs c) \<Longrightarrow> fn_start f' \<le> fn_end f' \<and>
       (\<exists>f h h'. build_func prog f h = Some (False, f', h') \<and> fn_start f = fn_start f' \<and> fn_end f = fn_end f')"
proof -
  obtain c1 h1 where part: "cfg_partition_funcs prog \<lparr>cfg_funcs = [], cfg_func_num = 0\<rparr> h = (False, c1, h1)"
    using assms(1) by (auto simp: cfg_build_def split: bool.splits prod.splits)
  then obtain fs' where b: "build_funcs prog (cfg_funcs c1) h1 = Some (False, fs', h')"
    and c: "c = c1\<lparr>cfg_funcs := fs'\<rparr>"
    using assms(1) by (auto simp: cfg_build_def)
  obtain fs where fs: "cfg_funcs c1 = set_func_ends (int (length prog)) fs" "fs \<noteq> []" "funcs_ok fs"
    "set (starts fs) = insert 0 (call_targets 0 prog)"
    using partition_facts [OF part] by blast
  have sorted: "sorted_wrt (<) (starts fs)" using fs(3) by (simp add: funcs_ok_def)
  have bounds: "\<forall>s\<in>set (starts fs). 0 \<le> s \<and> s < int (length prog)"
    using assms(2,3) fs(4) by auto
  have hd: "hd (starts fs) = 0"
    using sorted bounds fs(4) by (intro hd_sorted_min) auto
  note r = set_func_ends_ranges [OF sorted _ fs(2), of "int (length prog)"]
  have none: "\<forall>f\<in>set (cfg_funcs c1). fn_bbs f = []"
    using partition_facts [OF part] by (simp add: funcs_ok_def)
  have rel: "list_all2 (\<lambda>f f'. fn_start f' = fn_start f \<and> fn_end f' = fn_end f \<and>
        (\<exists>h h'. build_func prog f h = Some (False, f', h'))) (cfg_funcs c1) fs'"
    using build_funcs_facts [OF b none] by simp
  then have "list_all2 (\<lambda>f f'. [fn_start f..fn_end f] = [fn_start f'..fn_end f']) (cfg_funcs c1) fs'"
    by (rule list_all2_mono) auto
  then have "map (\<lambda>f. [fn_start f..fn_end f]) (cfg_funcs c1) = map (\<lambda>f. [fn_start f..fn_end f]) fs'"
    by (induction rule: list_all2_induct) simp_all
  then show "concat (map (\<lambda>f. [fn_start f..fn_end f]) (cfg_funcs c)) = [0..int (length prog) - 1]"
    using r bounds hd fs(1) c by simp
  assume "f' \<in> set (cfg_funcs c)"
  then obtain i where i: "i < length fs'" "f' = fs' ! i" using c by (auto simp: in_set_conv_nth)
  then have "i < length (cfg_funcs c1)" using list_all2_lengthD [OF rel] by simp
  then show "fn_start f' \<le> fn_end f' \<and>
       (\<exists>f h h'. build_func prog f h = Some (False, f', h') \<and> fn_start f = fn_start f' \<and> fn_end f = fn_end f')"
    using list_all2_nthD [OF rel] i r bounds fs(1) nth_mem [of i "cfg_funcs c1"] by metis
qed

section \<open>Drawing and freeing\<close>

lemma concat_opt_defined: "concat_opt f xs \<noteq> None \<longleftrightarrow> (\<forall>x\<in>set xs. f x \<noteq> None)"
proof -
  have "fold_opt (\<lambda>x acc. map_option (\<lambda>s. acc @ s) (f x)) xs acc \<noteq> None \<longleftrightarrow> (\<forall>x\<in>set xs. f x \<noteq> None)"
    for acc by (induction xs arbitrary: acc) (auto split: option.splits)
  then show ?thesis by (simp only: concat_opt_def)
qed

lemma dump_func_defined:
  assumes "edges_ok (fn_bbs f)"
    "\<And>b. b \<in> set (fn_bbs f) \<Longrightarrow> bb_idx b = ENTRY_BLOCK_INDEX \<or> bb_idx b = EXIT_BLOCK_INDEX \<or>
       bb_head b \<noteq> None \<and> bb_tail b \<noteq> None"
  shows "dump_func body f \<noteq> None"
proof -
  have "draw_bb_node body f b \<noteq> None" if "b \<in> set (fn_bbs f)" for b
    using assms(2) [OF that] by (auto simp: draw_bb_node_def Let_def)
  then have nodes: "func_output_bb_def body f \<noteq> None"
    unfolding func_output_bb_def_def concat_opt_defined by blast
  have "draw_bb_succ_edges f b \<noteq> None" if "b \<in> set (fn_bbs f)" for b
    unfolding draw_bb_succ_edges_def concat_opt_defined
    using assms(1) that by (auto simp: edges_ok_def draw_edge_def)
  then have "func_output_edges f \<noteq> None"
    using concat_opt_defined [of "draw_bb_succ_edges f" "fn_bbs f"] by (simp add: func_output_edges_def)
  with nodes show ?thesis by (auto simp: dump_func_def)
qed

lemma free_live:
  "hp_live (free_nodes xs h) = hp_live h - length xs"
  "hp_live (destroy_bb b h) = hp_live h - nodes_bb b"
  "hp_live (destroy_func f h) = hp_live h - nodes_func f"
proof -
  show nodes: "hp_live (free_nodes xs h) = hp_live h - length xs" for xs :: "'b list" and h
    by (induction xs arbitrary: h) (simp_all add: free_nodes_def free_node_def)
  show bb: "hp_live (destroy_bb b h) = hp_live h - nodes_bb b" for b h
    by (simp add: destroy_bb_def free_node_def nodes nodes_bb_def)
  have "hp_live (fold destroy_bb bs h) = hp_live h - nodes_bbs bs" for bs
    by (induction bs arbitrary: h) (simp_all add: bb)
  then show "hp_live (destroy_func f h) = hp_live h - nodes_func f"
    by (simp add: destroy_func_def free_node_def nodes_func_def)
qed

lemma cfg_destroy_live: "hp_live (cfg_destroy c h) = hp_live h - nodes_cfg c"
proof -
  have "hp_live (fold destroy_func fs h) = hp_live h - sum_list (map nodes_func fs)" for fs
    by (induction fs arbitrary: h) (simp_all add: free_live)
  then show ?thesis by (simp add: cfg_destroy_def nodes_cfg_def)
qed

section \<open>Properties\<close>

text \<open>C22. For a program whose calls and branches stay inside it, the blocks of the control flow
  graph, in the order of the graph, are consecutive ranges that cover the program: every
  instruction is in exactly one basic block of exactly one function.\<close>

theorem cfg_partitions_program:
  assumes "cfg_build prog h = Some (False, c, h')" "prog \<noteq> []"
    "call_targets 0 prog \<subseteq> {0..<int (length prog)}"
    "\<forall>f\<in>set (cfg_funcs c). jumps_local prog (fn_start f) (fn_end f)"
  shows "concat (map bb_range (concat (map code_bbs (cfg_funcs c)))) = [0..int (length prog) - 1]"
proof -
  have "concat (map bb_range (code_bbs f)) = [fn_start f..fn_end f]" if "f \<in> set (cfg_funcs c)" for f
    using cfg_build_functions(2) [OF assms(1,3,2) that] assms(4) that build_func_ok(2) by metis
  then have "map (concat \<circ> map bb_range \<circ> code_bbs) (cfg_funcs c) =
      map (\<lambda>f. [fn_start f..fn_end f]) (cfg_funcs c)" by simp
  then have "concat (map (concat \<circ> map bb_range \<circ> code_bbs) (cfg_funcs c)) = [0..int (length prog) - 1]"
    using cfg_build_functions(1) [OF assms(1,3,2)] by (simp only:)
  moreover have "concat (map bb_range (concat (map code_bbs fs))) =
      concat (map (concat \<circ> map bb_range \<circ> code_bbs) fs)" for fs
    by (induction fs) simp_all
  ultimately show ?thesis by (simp only:)
qed

text \<open>A conditional branch around one instruction, and a call of a second function.\<close>

definition demo_prog :: "bpf_insn list" where
  "demo_prog =
    [\<lparr>in_code = 0x15, in_dst_reg = 1, in_src_reg = 0, in_off = 1, in_imm = 0\<rparr>,
     \<lparr>in_code = 0x85, in_dst_reg = 0, in_src_reg = 1, in_off = 1, in_imm = 1\<rparr>,
     \<lparr>in_code = 0x95, in_dst_reg = 0, in_src_reg = 0, in_off = 0, in_imm = 0\<rparr>,
     \<lparr>in_code = 0x95, in_dst_reg = 0, in_src_reg = 0, in_off = 0, in_imm = 0\<rparr>]"

lemma demo_build:
  "\<exists>c h. cfg_build demo_prog \<lparr>hp_live = 7, hp_budget = 100\<rparr> = Some (False, c, h) \<and>
     map (\<lambda>f. (fn_start f, fn_end f)) (cfg_funcs c) = [(0, 2), (3, 3)]"
proof -
  have "map_option (\<lambda>(err, c, h). (err, map (\<lambda>f. (fn_start f, fn_end f)) (cfg_funcs c)))
      (cfg_build demo_prog \<lparr>hp_live = 7, hp_budget = 100\<rparr>) = Some (False, [(0, 2), (3, 3)])"
    by code_simp
  then show ?thesis by auto
qed

lemma demo_local: "jumps_local demo_prog 0 2" "jumps_local demo_prog 3 3"
  "call_targets 0 demo_prog \<subseteq> {0..<int (length demo_prog)}" "length demo_prog = 4" "demo_prog \<noteq> []"
proof -
  have "{0..2} = {0, 1, 2 :: int}" by auto
  then show "jumps_local demo_prog 0 2"
    by (simp add: jumps_local_def demo_prog_def jump_target_def is_branch_def is_jmp_insn_def cfg_consts)
qed (simp_all add: jumps_local_def demo_prog_def jump_target_def is_branch_def is_jmp_insn_def cfg_consts)

theorem cfg_partitions_program_witness:
  "\<exists>c h. cfg_build demo_prog \<lparr>hp_live = 7, hp_budget = 100\<rparr> = Some (False, c, h) \<and>
     concat (map bb_range (concat (map code_bbs (cfg_funcs c)))) = [0..3]"
proof -
  obtain c h where b: "cfg_build demo_prog \<lparr>hp_live = 7, hp_budget = 100\<rparr> = Some (False, c, h)"
    "map (\<lambda>f. (fn_start f, fn_end f)) (cfg_funcs c) = [(0, 2), (3, 3)]" using demo_build by metis
  have "\<forall>f\<in>set (cfg_funcs c). jumps_local demo_prog (fn_start f) (fn_end f)"
    using b(2) demo_local by auto
  from cfg_partitions_program [OF b(1) demo_local(5,3) this] b(1) demo_local(4) show ?thesis by auto
qed

text \<open>C23. In the same programs the drawing never follows a null pointer: every edge leads to a
  block of its function and every drawn block has its range.\<close>

theorem cfg_drawing_defined:
  assumes "cfg_build prog h = Some (False, c, h')" "prog \<noteq> []"
    "call_targets 0 prog \<subseteq> {0..<int (length prog)}"
    "\<forall>f\<in>set (cfg_funcs c). jumps_local prog (fn_start f) (fn_end f)"
  shows "dump_xlated_cfg body prog h \<noteq> None"
proof -
  have "dump_func body f' \<noteq> None" if mem: "f' \<in> set (cfg_funcs c)" for f'
  proof -
    obtain f h1 h2 where b: "build_func prog f h1 = Some (False, f', h2)" "fn_start f \<le> fn_end f"
      "jumps_local prog (fn_start f) (fn_end f)"
      using cfg_build_functions(2) [OF assms(1,3,2) mem] assms(4) mem by metis
    show ?thesis by (rule dump_func_defined [OF build_func_ok(1) [OF b] build_func_ok(4) [OF b]])
  qed
  then have "cfg_dump body c \<noteq> None"
    using concat_opt_defined [of "dump_func body" "cfg_funcs c"] by (simp add: cfg_dump_def)
  then show ?thesis using assms(1) by (auto simp: dump_xlated_cfg_def)
qed

theorem cfg_drawing_defined_witness:
  "dump_xlated_cfg (\<lambda>_ _ _. []) demo_prog \<lparr>hp_live = 7, hp_budget = 100\<rparr> \<noteq> None"
proof -
  obtain c h where b: "cfg_build demo_prog \<lparr>hp_live = 7, hp_budget = 100\<rparr> = Some (False, c, h)"
    "map (\<lambda>f. (fn_start f, fn_end f)) (cfg_funcs c) = [(0, 2), (3, 3)]" using demo_build by metis
  have "\<forall>f\<in>set (cfg_funcs c). jumps_local demo_prog (fn_start f) (fn_end f)"
    using b(2) demo_local by auto
  from cfg_drawing_defined [OF b(1) demo_local(5,3) this] demo_local(4) show ?thesis by auto
qed

text \<open>C24. Every node of the graph is counted: on success \<open>dump_xlated_cfg\<close> frees all it
  allocated, and when an allocation fails it returns without freeing the functions, blocks and
  edges built so far.\<close>

theorem cfg_memory_accounted:
  assumes "cfg_build prog h = Some (err, c, h')" "dump_xlated_cfg body prog h = Some (s, h'')"
  shows "hp_live h'' = hp_live h + (if err then nodes_cfg c else 0)"
proof (cases err)
  case True
  then show ?thesis using assms cfg_build_nodes [OF assms(1)] by (simp add: dump_xlated_cfg_def)
next
  case False
  then have "h'' = cfg_destroy c h'" using assms by (auto simp: dump_xlated_cfg_def)
  then show ?thesis using False cfg_build_nodes [OF assms(1)] by (simp add: cfg_destroy_live)
qed

theorem cfg_memory_accounted_witness:
  "\<exists>s h. dump_xlated_cfg (\<lambda>_ _ _. []) demo_prog \<lparr>hp_live = 7, hp_budget = 4\<rparr> = Some (s, h) \<and>
     hp_live h = 11"
proof -
  have "map_option (\<lambda>(err, c, h). (err, nodes_cfg c)) (cfg_build demo_prog \<lparr>hp_live = 7, hp_budget = 4\<rparr>) =
      Some (True, 4)" by code_simp
  then obtain c h where b: "cfg_build demo_prog \<lparr>hp_live = 7, hp_budget = 4\<rparr> = Some (True, c, h)"
    "nodes_cfg c = 4" by auto
  then have d: "dump_xlated_cfg (\<lambda>_ _ _. []) demo_prog \<lparr>hp_live = 7, hp_budget = 4\<rparr> = Some ([], h)"
    by (simp add: dump_xlated_cfg_def)
  show ?thesis using d cfg_memory_accounted [OF b(1) d] b(2) by auto
qed

end
