(* ===== verification/Btf.thy ===== *)
theory Btf
  imports Prelude "HOL-Library.Monad_Syntax"
begin

text \<open>
  BPF type information as libbpf reads it (\<open>lib/libbpf/src/btf.h\<close>, \<open>btf.c\<close>, and
  \<open>skip_mods_and_typedefs\<close>, \<open>bpf_core_essential_name_len\<close>, \<open>bpf_core_add_cands\<close> of \<open>libbpf.c\<close>).
  A type is its header and the words that follow it in the type section; a BTF object is its
  types, its strings and the base it is split from. \<open>None\<close> is a null pointer where the code
  tests for one, and otherwise a read outside the object or a loop that does not end.
\<close>

section \<open>Types\<close>

record btf_type =
  bt_name_off :: u32
  bt_info :: u32
  bt_union :: u32
  bt_words :: "u32 list"

abbreviation bt_size :: "btf_type \<Rightarrow> u32" where "bt_size \<equiv> bt_union"
abbreviation bt_type :: "btf_type \<Rightarrow> u32" where "bt_type \<equiv> bt_union"

text \<open>
  \<open>struct btf_layout\<close>, the sizes of an unknown kind, and the fields of \<open>struct btf\<close> that the
  reading functions use; an absent layout is the empty list. \<open>ptr_sz\<close> is 0 before the pointer
  size is asked for, and \<open>named_start_id\<close> is 0 when the types are not sorted by name.
\<close>

record btf_layout =
  ly_info_sz :: u8
  ly_elem_sz :: u8
  ly_flags :: u16

datatype btf =
  Btf (base_btf: "btf option") (start_id: nat) (btf_types: "btf_type list")
    (start_str_off: nat) (str_data: string) (ptr_sz: int) (named_start_id: nat)
    (layout: "btf_layout list")

definition BTF_KIND_UNKN :: u16 where "BTF_KIND_UNKN = 0"
definition BTF_KIND_INT :: u16 where "BTF_KIND_INT = 1"
definition BTF_KIND_PTR :: u16 where "BTF_KIND_PTR = 2"
definition BTF_KIND_ARRAY :: u16 where "BTF_KIND_ARRAY = 3"
definition BTF_KIND_STRUCT :: u16 where "BTF_KIND_STRUCT = 4"
definition BTF_KIND_UNION :: u16 where "BTF_KIND_UNION = 5"
definition BTF_KIND_ENUM :: u16 where "BTF_KIND_ENUM = 6"
definition BTF_KIND_FWD :: u16 where "BTF_KIND_FWD = 7"
definition BTF_KIND_TYPEDEF :: u16 where "BTF_KIND_TYPEDEF = 8"
definition BTF_KIND_VOLATILE :: u16 where "BTF_KIND_VOLATILE = 9"
definition BTF_KIND_CONST :: u16 where "BTF_KIND_CONST = 10"
definition BTF_KIND_RESTRICT :: u16 where "BTF_KIND_RESTRICT = 11"
definition BTF_KIND_FUNC :: u16 where "BTF_KIND_FUNC = 12"
definition BTF_KIND_FUNC_PROTO :: u16 where "BTF_KIND_FUNC_PROTO = 13"
definition BTF_KIND_VAR :: u16 where "BTF_KIND_VAR = 14"
definition BTF_KIND_DATASEC :: u16 where "BTF_KIND_DATASEC = 15"
definition BTF_KIND_FLOAT :: u16 where "BTF_KIND_FLOAT = 16"
definition BTF_KIND_DECL_TAG :: u16 where "BTF_KIND_DECL_TAG = 17"
definition BTF_KIND_TYPE_TAG :: u16 where "BTF_KIND_TYPE_TAG = 18"
definition BTF_KIND_ENUM64 :: u16 where "BTF_KIND_ENUM64 = 19"
definition BTF_INT_SIGNED :: u8 where "BTF_INT_SIGNED = 1"

lemmas btf_kinds =
  BTF_KIND_UNKN_def BTF_KIND_INT_def BTF_KIND_PTR_def BTF_KIND_ARRAY_def BTF_KIND_STRUCT_def
  BTF_KIND_UNION_def BTF_KIND_ENUM_def BTF_KIND_FWD_def BTF_KIND_TYPEDEF_def
  BTF_KIND_VOLATILE_def BTF_KIND_CONST_def BTF_KIND_RESTRICT_def BTF_KIND_FUNC_def
  BTF_KIND_FUNC_PROTO_def BTF_KIND_VAR_def BTF_KIND_DATASEC_def BTF_KIND_FLOAT_def
  BTF_KIND_DECL_TAG_def BTF_KIND_TYPE_TAG_def BTF_KIND_ENUM64_def

definition btf_kind :: "btf_type \<Rightarrow> u16" where
  "btf_kind t = ucast (drop_bit 24 (bt_info t) AND 0x1f)"

definition btf_vlen :: "btf_type \<Rightarrow> nat" where
  "btf_vlen t = unat (bt_info t AND 0xffff)"

definition btf_kflag :: "btf_type \<Rightarrow> bool" where
  "btf_kflag t \<longleftrightarrow> drop_bit 31 (bt_info t) \<noteq> 0"

definition btf_is_int :: "btf_type \<Rightarrow> bool" where
  "btf_is_int t \<longleftrightarrow> btf_kind t = BTF_KIND_INT"

definition btf_is_ptr :: "btf_type \<Rightarrow> bool" where
  "btf_is_ptr t \<longleftrightarrow> btf_kind t = BTF_KIND_PTR"

definition btf_is_array :: "btf_type \<Rightarrow> bool" where
  "btf_is_array t \<longleftrightarrow> btf_kind t = BTF_KIND_ARRAY"

definition btf_is_composite :: "btf_type \<Rightarrow> bool" where
  "btf_is_composite t \<longleftrightarrow> btf_kind t = BTF_KIND_STRUCT \<or> btf_kind t = BTF_KIND_UNION"

definition btf_is_enum :: "btf_type \<Rightarrow> bool" where
  "btf_is_enum t \<longleftrightarrow> btf_kind t = BTF_KIND_ENUM"

definition btf_is_enum64 :: "btf_type \<Rightarrow> bool" where
  "btf_is_enum64 t \<longleftrightarrow> btf_kind t = BTF_KIND_ENUM64"

definition btf_is_fwd :: "btf_type \<Rightarrow> bool" where
  "btf_is_fwd t \<longleftrightarrow> btf_kind t = BTF_KIND_FWD"

definition btf_is_typedef :: "btf_type \<Rightarrow> bool" where
  "btf_is_typedef t \<longleftrightarrow> btf_kind t = BTF_KIND_TYPEDEF"

definition btf_is_mod :: "btf_type \<Rightarrow> bool" where
  "btf_is_mod t \<longleftrightarrow>
     btf_kind t = BTF_KIND_VOLATILE \<or> btf_kind t = BTF_KIND_CONST \<or>
     btf_kind t = BTF_KIND_RESTRICT \<or> btf_kind t = BTF_KIND_TYPE_TAG"

definition btf_is_any_enum :: "btf_type \<Rightarrow> bool" where
  "btf_is_any_enum t \<longleftrightarrow> btf_is_enum t \<or> btf_is_enum64 t"

definition btf_kind_core_compat :: "btf_type \<Rightarrow> btf_type \<Rightarrow> bool" where
  "btf_kind_core_compat t1 t2 \<longleftrightarrow>
     btf_kind t1 = btf_kind t2 \<or> btf_is_any_enum t1 \<and> btf_is_any_enum t2"

section \<open>The words after a type\<close>

definition btf_word :: "btf_type \<Rightarrow> nat \<Rightarrow> u32 option" where
  "btf_word t i = (if i < length (bt_words t) then Some (bt_words t ! i) else None)"

definition btf_int_encoding :: "btf_type \<Rightarrow> u8 option" where
  "btf_int_encoding t = map_option (\<lambda>w. ucast (drop_bit 24 (w AND 0x0f000000))) (btf_word t 0)"

definition btf_int_offset :: "btf_type \<Rightarrow> u8 option" where
  "btf_int_offset t = map_option (\<lambda>w. ucast (drop_bit 16 (w AND 0x00ff0000))) (btf_word t 0)"

record btf_array =
  ar_type :: u32
  ar_index_type :: u32
  ar_nelems :: u32

definition btf_array :: "btf_type \<Rightarrow> btf_array option" where
  "btf_array t = do {
     a \<leftarrow> btf_word t 0; i \<leftarrow> btf_word t 1; n \<leftarrow> btf_word t 2;
     Some \<lparr>ar_type = a, ar_index_type = i, ar_nelems = n\<rparr> }"

record btf_member =
  mb_name_off :: u32
  mb_type :: u32
  mb_offset :: u32

definition btf_members :: "btf_type \<Rightarrow> nat \<Rightarrow> btf_member option" where
  "btf_members t i = do {
     n \<leftarrow> btf_word t (3 * i); m \<leftarrow> btf_word t (3 * i + 1); off \<leftarrow> btf_word t (3 * i + 2);
     Some \<lparr>mb_name_off = n, mb_type = m, mb_offset = off\<rparr> }"

definition btf_member_bit_offset :: "btf_type \<Rightarrow> nat \<Rightarrow> u32 option" where
  "btf_member_bit_offset t i = do {
     m \<leftarrow> btf_members t i;
     Some (if btf_kflag t then mb_offset m AND 0xffffff else mb_offset m) }"

definition btf_member_bitfield_size :: "btf_type \<Rightarrow> nat \<Rightarrow> u32 option" where
  "btf_member_bitfield_size t i = do {
     m \<leftarrow> btf_members t i;
     Some (if btf_kflag t then drop_bit 24 (mb_offset m) else 0) }"

text \<open>An enumerator's name and its value: two words in an enum, three in an enum64.\<close>

definition btf_enum_name_off :: "btf_type \<Rightarrow> nat \<Rightarrow> u32 option" where
  "btf_enum_name_off t i = (if btf_is_enum t then btf_word t (2 * i) else btf_word t (3 * i))"

definition btf_enum_val :: "btf_type \<Rightarrow> nat \<Rightarrow> i32 option" where
  "btf_enum_val t i = btf_word t (2 * i + 1)"

definition btf_enum64_value :: "btf_type \<Rightarrow> nat \<Rightarrow> u64 option" where
  "btf_enum64_value t i = do {
     low \<leftarrow> btf_word t (3 * i + 1); high \<leftarrow> btf_word t (3 * i + 2);
     Some (push_bit 32 (ucast high) OR ucast low) }"

definition btf_params_type :: "btf_type \<Rightarrow> nat \<Rightarrow> u32 option" where
  "btf_params_type t i = btf_word t (2 * i + 1)"

section \<open>Lookup\<close>

definition btf_void :: btf_type where
  "btf_void = \<lparr>bt_name_off = 0, bt_info = 0, bt_union = 0, bt_words = []\<rparr>"

definition btf__type_cnt :: "btf \<Rightarrow> nat" where
  "btf__type_cnt b = start_id b + length (btf_types b)"

fun btf_type_by_id :: "btf \<Rightarrow> nat \<Rightarrow> btf_type option" where
  "btf_type_by_id (Btf base sid ts so ss p nm ly) ti =
     (if ti = 0 then Some btf_void
      else if ti < sid then (case base of None \<Rightarrow> None | Some b \<Rightarrow> btf_type_by_id b ti)
      else if ti - sid < length ts then Some (ts ! (ti - sid)) else None)"

definition btf__type_by_id :: "btf \<Rightarrow> u32 \<Rightarrow> btf_type option" where
  "btf__type_by_id b ti =
     (if btf__type_cnt b \<le> unat ti then None else btf_type_by_id b (unat ti))"

fun str_by_offset :: "btf \<Rightarrow> nat \<Rightarrow> string option" where
  "str_by_offset (Btf base sid ts so ss p nm ly) off =
     (if off < so then (case base of None \<Rightarrow> None | Some b \<Rightarrow> str_by_offset b off)
      else if off - so < length ss then Some (takeWhile (\<lambda>c. c \<noteq> CHR 0x00) (drop (off - so) ss))
      else None)"

definition btf__name_by_offset :: "btf \<Rightarrow> u32 \<Rightarrow> string option" where
  "btf__name_by_offset b off = str_by_offset b (unat off)"

definition str_is_empty :: "string option \<Rightarrow> bool" where
  "str_is_empty s = (case s of None \<Rightarrow> True | Some s \<Rightarrow> s = [])"

partial_function (option) skip_mods_and_typedefs :: "btf \<Rightarrow> u32 \<Rightarrow> (btf_type \<times> u32) option" where
  "skip_mods_and_typedefs b ti = do {
     t \<leftarrow> btf__type_by_id b ti;
     if btf_is_mod t \<or> btf_is_typedef t then skip_mods_and_typedefs b (bt_type t)
     else Some (t, ti) }"

section \<open>Sizes\<close>

definition long_aliases :: "string list" where
  "long_aliases =
     [''long'', ''long int'', ''int long'', ''unsigned long'', ''long unsigned'',
      ''unsigned long int'', ''unsigned int long'', ''long unsigned int'', ''long int unsigned'',
      ''int unsigned long'', ''int long unsigned'']"

fun ptr_size_loop :: "btf \<Rightarrow> nat list \<Rightarrow> int option" where
  "ptr_size_loop b [] = Some (- 1)"
| "ptr_size_loop b (i # is) = do {
     t \<leftarrow> btf__type_by_id b (of_nat i);
     if \<not> btf_is_int t then ptr_size_loop b is
     else if bt_size t \<noteq> 4 \<and> bt_size t \<noteq> 8 then ptr_size_loop b is
     else
       case btf__name_by_offset b (bt_name_off t) of
         None \<Rightarrow> ptr_size_loop b is
       | Some nm \<Rightarrow> if nm \<in> set long_aliases then Some (uint (bt_size t)) else ptr_size_loop b is }"

definition determine_ptr_size :: "btf \<Rightarrow> int option" where
  "determine_ptr_size b =
     (case base_btf b of
        Some bb \<Rightarrow> if 0 < ptr_sz bb then Some (ptr_sz bb) else ptr_size_loop b [1..<btf__type_cnt b]
      | None \<Rightarrow> ptr_size_loop b [1..<btf__type_cnt b])"

text \<open>The result, which the code also stores in the object; \<open>sizeof(void *)\<close> is 8.\<close>

definition btf_ptr_sz :: "btf \<Rightarrow> nat option" where
  "btf_ptr_sz b = do {
     p \<leftarrow> (if ptr_sz b = 0 then determine_ptr_size b else Some (ptr_sz b));
     Some (if p < 0 then 8 else nat p) }"

definition btf_type_is_void :: "u32 \<Rightarrow> btf_type \<Rightarrow> bool" where
  "btf_type_is_void ti t \<longleftrightarrow> ti = 0 \<or> btf_is_fwd t"

definition has_size :: "btf_type \<Rightarrow> bool" where
  "has_size t \<longleftrightarrow> btf_kind t \<in>
     {BTF_KIND_INT, BTF_KIND_STRUCT, BTF_KIND_UNION, BTF_KIND_ENUM, BTF_KIND_ENUM64,
      BTF_KIND_DATASEC, BTF_KIND_FLOAT}"

definition refers_on :: "btf_type \<Rightarrow> bool" where
  "refers_on t \<longleftrightarrow> btf_kind t \<in>
     {BTF_KIND_TYPEDEF, BTF_KIND_VOLATILE, BTF_KIND_CONST, BTF_KIND_RESTRICT, BTF_KIND_VAR,
      BTF_KIND_DECL_TAG, BTF_KIND_TYPE_TAG}"

definition UINT32_MAX :: u32 where "UINT32_MAX = 0xffffffff"

definition MAX_RESOLVE_DEPTH :: nat where "MAX_RESOLVE_DEPTH = 32"

definition resolve_size_done :: "u32 \<Rightarrow> int \<Rightarrow> int" where
  "resolve_size_done nelems sz =
     (if sz < 0 then - EINVAL
      else if nelems \<noteq> 0 \<and> uint (UINT32_MAX div nelems) < sz then - E2BIG
      else uint nelems * sz)"

fun resolve_size_loop :: "nat \<Rightarrow> btf \<Rightarrow> u32 \<Rightarrow> u32 \<Rightarrow> int option" where
  "resolve_size_loop 0 b ti nelems = Some (resolve_size_done nelems (- 1))"
| "resolve_size_loop (Suc i) b ti nelems =
     (case btf__type_by_id b ti of
        None \<Rightarrow> Some (resolve_size_done nelems (- 1))
      | Some t \<Rightarrow>
          if btf_type_is_void ti t then Some (resolve_size_done nelems (- 1))
          else if has_size t then Some (resolve_size_done nelems (uint (bt_size t)))
          else if btf_is_ptr t then do { p \<leftarrow> btf_ptr_sz b; Some (resolve_size_done nelems (int p)) }
          else if refers_on t then resolve_size_loop i b (bt_type t) nelems
          else if btf_is_array t then do {
            a \<leftarrow> btf_array t;
            if nelems \<noteq> 0 \<and> UINT32_MAX div nelems < ar_nelems a then Some (- E2BIG)
            else resolve_size_loop i b (ar_type a) (nelems * ar_nelems a) }
          else Some (- EINVAL))"

definition btf__resolve_size :: "btf \<Rightarrow> u32 \<Rightarrow> int option" where
  "btf__resolve_size b ti = resolve_size_loop MAX_RESOLVE_DEPTH b ti 1"

section \<open>Names and candidates\<close>

definition bpf_core_is_flavor_sep :: "string \<Rightarrow> nat \<Rightarrow> bool" where
  "bpf_core_is_flavor_sep s i \<longleftrightarrow>
     s ! i \<noteq> CHR ''_'' \<and>
     s ! (i + 1) = CHR ''_'' \<and> s ! (i + 2) = CHR ''_'' \<and> s ! (i + 3) = CHR ''_'' \<and>
     s ! (i + 4) \<noteq> CHR ''_''"

definition bpf_core_essential_name_len :: "string \<Rightarrow> nat" where
  "bpf_core_essential_name_len s =
     (case find (bpf_core_is_flavor_sep s) (rev [0..<length s - 4]) of
        None \<Rightarrow> length s
      | Some i \<Rightarrow> i + 1)"

definition strncmp_eq :: "nat \<Rightarrow> string \<Rightarrow> string \<Rightarrow> bool" where
  "strncmp_eq n s s' \<longleftrightarrow> take n s = take n s'"

record core_cand =
  cd_btf :: btf
  cd_id :: u32

fun add_cands_loop ::
    "btf_type \<Rightarrow> string option \<Rightarrow> nat \<Rightarrow> btf \<Rightarrow> (nat \<Rightarrow> bool) \<Rightarrow> nat list \<Rightarrow> core_cand list \<Rightarrow>
     (int \<times> core_cand list) option" where
  "add_cands_loop local_t local_name len targ alloc [] cands = Some (0, cands)"
| "add_cands_loop local_t local_name len targ alloc (i # ids) cands = do {
     t \<leftarrow> btf__type_by_id targ (of_nat i);
     if \<not> btf_kind_core_compat t local_t
     then add_cands_loop local_t local_name len targ alloc ids cands
     else
       case btf__name_by_offset targ (bt_name_off t) of
         None \<Rightarrow> add_cands_loop local_t local_name len targ alloc ids cands
       | Some targ_name \<Rightarrow>
           if targ_name = [] then add_cands_loop local_t local_name len targ alloc ids cands
           else if bpf_core_essential_name_len targ_name \<noteq> len
           then add_cands_loop local_t local_name len targ alloc ids cands
           else do {
             nm \<leftarrow> local_name;
             if \<not> strncmp_eq len nm targ_name
             then add_cands_loop local_t local_name len targ alloc ids cands
             else if \<not> alloc (length cands + 1) then Some (- ENOMEM, cands)
             else add_cands_loop local_t local_name len targ alloc ids
                    (cands @ [\<lparr>cd_btf = targ, cd_id = of_nat i\<rparr>]) } }"

definition bpf_core_add_cands ::
    "core_cand \<Rightarrow> nat \<Rightarrow> btf \<Rightarrow> nat \<Rightarrow> (nat \<Rightarrow> bool) \<Rightarrow> core_cand list \<Rightarrow>
     (int \<times> core_cand list) option" where
  "bpf_core_add_cands local_cand local_essent_len targ targ_start_id alloc cands = do {
     local_t \<leftarrow> btf__type_by_id (cd_btf local_cand) (cd_id local_cand);
     add_cands_loop local_t (btf__name_by_offset (cd_btf local_cand) (bt_name_off local_t))
       local_essent_len targ alloc [targ_start_id..<btf__type_cnt targ] cands }"

end
