(* ===== verification/Relo_Core.thy ===== *)
theory Relo_Core
  imports Btf Cfg
begin

text \<open>
  CO-RE relocation (\<open>lib/libbpf/src/relo_core.c\<close> with its two wrappers in \<open>libbpf.c\<close>): parsing an
  access string into a specification, matching it against the types of the running kernel,
  computing the value to patch, and patching the instruction. A specification's arrays are lists
  whose lengths are the code's \<open>len\<close> and \<open>raw_len\<close>. Error codes are negative integers; \<open>None\<close>
  is an undefined read, a division by zero or a loop that does not end. Messages are left out.
\<close>

section \<open>Relocation records\<close>

datatype bpf_core_relo_kind =
    BPF_CORE_FIELD_BYTE_OFFSET | BPF_CORE_FIELD_BYTE_SIZE | BPF_CORE_FIELD_EXISTS
  | BPF_CORE_FIELD_SIGNED | BPF_CORE_FIELD_LSHIFT_U64 | BPF_CORE_FIELD_RSHIFT_U64
  | BPF_CORE_TYPE_ID_LOCAL | BPF_CORE_TYPE_ID_TARGET | BPF_CORE_TYPE_EXISTS
  | BPF_CORE_TYPE_SIZE | BPF_CORE_ENUMVAL_EXISTS | BPF_CORE_ENUMVAL_VALUE
  | BPF_CORE_TYPE_MATCHES | BPF_CORE_OTHER u32

record bpf_core_relo =
  rl_insn_off :: u32
  rl_type_id :: u32
  rl_access_str_off :: u32
  rl_kind :: bpf_core_relo_kind

record bpf_core_accessor =
  ac_type_id :: u32
  ac_idx :: nat
  ac_name :: "string option"

record bpf_core_spec =
  sp_btf :: btf
  sp_spec :: "bpf_core_accessor list"
  sp_root_type_id :: u32
  sp_relo_kind :: bpf_core_relo_kind
  sp_raw :: "nat list"
  sp_bit_offset :: u32

definition BPF_CORE_SPEC_MAX_LEN :: nat where "BPF_CORE_SPEC_MAX_LEN = 64"

definition empty_spec :: "btf \<Rightarrow> u32 \<Rightarrow> bpf_core_relo_kind \<Rightarrow> bpf_core_spec" where
  "empty_spec b root k =
     \<lparr>sp_btf = b, sp_spec = [], sp_root_type_id = root, sp_relo_kind = k, sp_raw = [],
      sp_bit_offset = 0\<rparr>"

text \<open>A \<open>__s64\<close> or \<open>__u32\<close> value assigned to an \<open>int\<close>.\<close>

definition as_int :: "int \<Rightarrow> int" where
  "as_int i = sint (of_int i :: i32)"

section \<open>Kinds of relocation\<close>

fun core_relo_kind_str :: "bpf_core_relo_kind \<Rightarrow> string" where
  "core_relo_kind_str BPF_CORE_FIELD_BYTE_OFFSET = ''byte_off''"
| "core_relo_kind_str BPF_CORE_FIELD_BYTE_SIZE = ''byte_sz''"
| "core_relo_kind_str BPF_CORE_FIELD_EXISTS = ''field_exists''"
| "core_relo_kind_str BPF_CORE_FIELD_SIGNED = ''signed''"
| "core_relo_kind_str BPF_CORE_FIELD_LSHIFT_U64 = ''lshift_u64''"
| "core_relo_kind_str BPF_CORE_FIELD_RSHIFT_U64 = ''rshift_u64''"
| "core_relo_kind_str BPF_CORE_TYPE_ID_LOCAL = ''local_type_id''"
| "core_relo_kind_str BPF_CORE_TYPE_ID_TARGET = ''target_type_id''"
| "core_relo_kind_str BPF_CORE_TYPE_EXISTS = ''type_exists''"
| "core_relo_kind_str BPF_CORE_TYPE_MATCHES = ''type_matches''"
| "core_relo_kind_str BPF_CORE_TYPE_SIZE = ''type_size''"
| "core_relo_kind_str BPF_CORE_ENUMVAL_EXISTS = ''enumval_exists''"
| "core_relo_kind_str BPF_CORE_ENUMVAL_VALUE = ''enumval_value''"
| "core_relo_kind_str (BPF_CORE_OTHER _) = ''unknown''"

definition core_relo_is_field_based :: "bpf_core_relo_kind \<Rightarrow> bool" where
  "core_relo_is_field_based k \<longleftrightarrow> k \<in>
     {BPF_CORE_FIELD_BYTE_OFFSET, BPF_CORE_FIELD_BYTE_SIZE, BPF_CORE_FIELD_EXISTS,
      BPF_CORE_FIELD_SIGNED, BPF_CORE_FIELD_LSHIFT_U64, BPF_CORE_FIELD_RSHIFT_U64}"

definition core_relo_is_type_based :: "bpf_core_relo_kind \<Rightarrow> bool" where
  "core_relo_is_type_based k \<longleftrightarrow> k \<in>
     {BPF_CORE_TYPE_ID_LOCAL, BPF_CORE_TYPE_ID_TARGET, BPF_CORE_TYPE_EXISTS,
      BPF_CORE_TYPE_MATCHES, BPF_CORE_TYPE_SIZE}"

definition core_relo_is_enumval_based :: "bpf_core_relo_kind \<Rightarrow> bool" where
  "core_relo_is_enumval_based k \<longleftrightarrow> k \<in> {BPF_CORE_ENUMVAL_EXISTS, BPF_CORE_ENUMVAL_VALUE}"

definition is_flex_arr :: "btf \<Rightarrow> bpf_core_accessor \<Rightarrow> btf_array \<Rightarrow> bool option" where
  "is_flex_arr b acc arr =
     (if ac_name acc = None \<or> ar_nelems arr \<noteq> 0 then Some False
      else do {
        t \<leftarrow> btf_type_by_id b (unat (ac_type_id acc));
        Some ((of_nat (ac_idx acc) :: u32) = of_nat (btf_vlen t) - 1) })"

section \<open>Compatible types\<close>

definition ints_compat :: "btf_type \<Rightarrow> btf_type \<Rightarrow> int option" where
  "ints_compat lt tt = do {
     i \<leftarrow> btf_int_offset lt;
     if i \<noteq> 0 then Some 0
     else do { j \<leftarrow> btf_int_offset tt; Some (if j = 0 then 1 else 0) } }"

text \<open>
  \<open>compat_recur\<close> is the body from the label \<open>recur\<close>; its first argument is \<open>level\<close>, its second
  the number of jumps to the label that are left of the 32.
\<close>

function (sequential)
  types_are_compat :: "nat \<Rightarrow> btf \<Rightarrow> u32 \<Rightarrow> btf \<Rightarrow> u32 \<Rightarrow> int option" and
  compat_recur :: "nat \<Rightarrow> nat \<Rightarrow> btf \<Rightarrow> u32 \<Rightarrow> btf \<Rightarrow> u32 \<Rightarrow> int option" and
  compat_params :: "nat \<Rightarrow> btf \<Rightarrow> btf_type \<Rightarrow> btf \<Rightarrow> btf_type \<Rightarrow> nat list \<Rightarrow> int option"
where
  "types_are_compat level lb li tb ti = do {
     lt \<leftarrow> btf_type_by_id lb (unat li);
     tt \<leftarrow> btf_type_by_id tb (unat ti);
     if \<not> btf_kind_core_compat lt tt then Some 0 else compat_recur level 32 lb li tb ti }"
| "compat_recur level 0 lb li tb ti = Some (- EINVAL)"
| "compat_recur level (Suc depth) lb li tb ti = do {
     (lt, li) \<leftarrow> skip_mods_and_typedefs lb li;
     (tt, ti) \<leftarrow> skip_mods_and_typedefs tb ti;
     if \<not> btf_kind_core_compat lt tt then Some 0
     else if btf_kind lt \<in> {BTF_KIND_UNKN, BTF_KIND_STRUCT, BTF_KIND_UNION, BTF_KIND_ENUM,
                            BTF_KIND_FWD, BTF_KIND_ENUM64} then Some 1
     else if btf_kind lt = BTF_KIND_INT then ints_compat lt tt
     else if btf_kind lt = BTF_KIND_PTR
     then compat_recur level depth lb (bt_type lt) tb (bt_type tt)
     else if btf_kind lt = BTF_KIND_ARRAY then do {
       la \<leftarrow> btf_array lt; ta \<leftarrow> btf_array tt;
       compat_recur level depth lb (ar_type la) tb (ar_type ta) }
     else if btf_kind lt = BTF_KIND_FUNC_PROTO then
       if btf_vlen lt \<noteq> btf_vlen tt then Some 0
       else do {
         err \<leftarrow> compat_params level lb lt tb tt [0..<btf_vlen lt];
         if err \<le> 0 then Some err
         else do {
           (_, li) \<leftarrow> skip_mods_and_typedefs lb (bt_type lt);
           (_, ti) \<leftarrow> skip_mods_and_typedefs tb (bt_type tt);
           compat_recur level depth lb li tb ti } }
     else Some 0 }"
| "compat_params level lb lt tb tt [] = Some 1"
| "compat_params 0 lb lt tb tt (i # is) = Some (- EINVAL)"
| "compat_params (Suc level) lb lt tb tt (i # is) = do {
     lp \<leftarrow> btf_params_type lt i;
     (_, li) \<leftarrow> skip_mods_and_typedefs lb lp;
     tp \<leftarrow> btf_params_type tt i;
     (_, ti) \<leftarrow> skip_mods_and_typedefs tb tp;
     err \<leftarrow> types_are_compat level lb li tb ti;
     if err \<le> 0 then Some err else compat_params (Suc level) lb lt tb tt is }"
  by pat_completeness auto

termination
  by (relation "measures
       [\<lambda>x. case x of Inl (lev, _) \<Rightarrow> lev | Inr (Inl (lev, _)) \<Rightarrow> lev | Inr (Inr (lev, _)) \<Rightarrow> lev,
        \<lambda>x. case x of Inl _ \<Rightarrow> 34 | Inr (Inl (_, d, _)) \<Rightarrow> d + 1 | Inr (Inr _) \<Rightarrow> 0,
        \<lambda>x. case x of Inr (Inr (_, _, _, _, _, is)) \<Rightarrow> length is | _ \<Rightarrow> 0]") auto

definition bpf_core_types_are_compat :: "btf \<Rightarrow> u32 \<Rightarrow> btf \<Rightarrow> u32 \<Rightarrow> int option" where
  "bpf_core_types_are_compat lb li tb ti = types_are_compat 32 lb li tb ti"

text \<open>Field access: names of enums and forward declarations count, sizes of integers do not.\<close>

definition flavorless_match :: "string option \<Rightarrow> string option \<Rightarrow> int option" where
  "flavorless_match l_opt t_opt = do {
     l \<leftarrow> l_opt; t \<leftarrow> t_opt;
     let n = bpf_core_essential_name_len l; m = bpf_core_essential_name_len t
     in Some (if n = 0 \<or> m = 0 \<or> n = m \<and> strncmp_eq n l t then 1 else 0) }"

partial_function (option) bpf_core_fields_are_compat ::
    "btf \<Rightarrow> u32 \<Rightarrow> btf \<Rightarrow> u32 \<Rightarrow> int option" where
  "bpf_core_fields_are_compat lb li tb ti = do {
     (lt, li) \<leftarrow> skip_mods_and_typedefs lb li;
     (tt, ti) \<leftarrow> skip_mods_and_typedefs tb ti;
     if btf_is_composite lt \<and> btf_is_composite tt then Some 1
     else if \<not> btf_kind_core_compat lt tt then Some 0
     else if btf_kind lt \<in> {BTF_KIND_PTR, BTF_KIND_FLOAT} then Some 1
     else if btf_kind lt \<in> {BTF_KIND_FWD, BTF_KIND_ENUM64, BTF_KIND_ENUM}
     then flavorless_match (btf__name_by_offset lb (bt_name_off lt))
            (btf__name_by_offset tb (bt_name_off tt))
     else if btf_kind lt = BTF_KIND_INT then ints_compat lt tt
     else if btf_kind lt = BTF_KIND_ARRAY then do {
       la \<leftarrow> btf_array lt; ta \<leftarrow> btf_array tt;
       bpf_core_fields_are_compat lb (ar_type la) tb (ar_type ta) }
     else Some 0 }"

section \<open>Parsing an access string\<close>

definition is_space :: "char \<Rightarrow> bool" where
  "is_space c \<longleftrightarrow> c = CHR '' '' \<or> c \<in> {CHR 0x09, CHR 0x0A, CHR 0x0B, CHR 0x0C, CHR 0x0D}"

definition is_digit :: "char \<Rightarrow> bool" where
  "is_digit c \<longleftrightarrow> 48 \<le> (of_char c :: nat) \<and> (of_char c :: nat) \<le> 57"

definition digits_value :: "string \<Rightarrow> nat" where
  "digits_value ds = foldl (\<lambda>n c. 10 * n + (of_char c - 48)) 0 ds"

text \<open>\<open>sscanf(s, "%d%n")\<close>: the number and what follows it, if there is a number.\<close>

definition scan_int :: "string \<Rightarrow> (int \<times> string) option" where
  "scan_int s =
     (let s = dropWhile is_space s;
          neg = (s \<noteq> [] \<and> s ! 0 = CHR ''-'');
          s = (if s \<noteq> [] \<and> (s ! 0 = CHR ''-'' \<or> s ! 0 = CHR ''+'') then drop 1 s else s);
          ds = takeWhile is_digit s
      in if ds = [] then None
         else Some (if neg then - int (digits_value ds) else int (digits_value ds),
                    dropWhile is_digit s))"

lemma scan_int_shorter:
  assumes "scan_int s = Some (v, s')"
  shows "length s' < length s"
proof -
  define s1 where "s1 = dropWhile is_space s"
  define s2 where "s2 = (if s1 \<noteq> [] \<and> (s1 ! 0 = CHR ''-'' \<or> s1 ! 0 = CHR ''+'') then drop 1 s1 else s1)"
  have "length s1 \<le> length s" by (simp add: s1_def length_dropWhile_le)
  moreover have "length s2 \<le> length s1" by (simp add: s2_def)
  moreover from assms have "takeWhile is_digit s2 \<noteq> []" "s' = dropWhile is_digit s2"
    by (auto simp: scan_int_def Let_def s1_def [symmetric] s2_def [symmetric] split: if_splits)
  then have "length s' < length s2"
    by (metis length_append length_greater_0_conv less_add_same_cancel2 takeWhile_dropWhile_id)
  ultimately show ?thesis by simp
qed

function (sequential) parse_raw :: "string \<Rightarrow> nat list \<Rightarrow> (int + nat list) option" where
  "parse_raw [] raw = Some (Inr raw)"
| "parse_raw (c # s) raw =
     (case scan_int (if c = CHR '':'' then s else c # s) of
        None \<Rightarrow> Some (Inl (- EINVAL))
      | Some (v, s') \<Rightarrow>
          if v < - INT_MAX - 1 \<or> INT_MAX < v then None
          else if v < 0 then Some (Inl (- EINVAL))
          else if length raw = BPF_CORE_SPEC_MAX_LEN then Some (Inl (- E2BIG))
          else parse_raw s' (raw @ [nat v]))"
  by pat_completeness auto

termination
  by (relation "measure (length \<circ> fst)") (auto dest!: scan_int_shorter split: if_splits)

definition push_accessor :: "bpf_core_accessor \<Rightarrow> bpf_core_spec \<Rightarrow> bpf_core_spec" where
  "push_accessor acc sp = sp\<lparr>sp_spec := sp_spec sp @ [acc]\<rparr>"

definition add_bits :: "u32 \<Rightarrow> bpf_core_spec \<Rightarrow> bpf_core_spec" where
  "add_bits n sp = sp\<lparr>sp_bit_offset := sp_bit_offset sp + n\<rparr>"

fun parse_fields ::
    "btf \<Rightarrow> nat list \<Rightarrow> u32 \<Rightarrow> bpf_core_spec \<Rightarrow> (int + bpf_core_spec) option" where
  "parse_fields b [] ti sp = Some (Inr sp)"
| "parse_fields b (ix # ixs) ti sp = do {
     (t, ti) \<leftarrow> skip_mods_and_typedefs b ti;
     if btf_is_composite t then
       if btf_vlen t \<le> ix then Some (Inl (- EINVAL))
       else do {
         bits \<leftarrow> btf_member_bit_offset t ix;
         m \<leftarrow> btf_members t ix;
         let sp = add_bits bits sp
         in if mb_name_off m = 0 then parse_fields b ixs (mb_type m) sp
            else
              let name = btf__name_by_offset b (mb_name_off m)
              in if str_is_empty name then Some (Inl (- EINVAL))
                 else parse_fields b ixs (mb_type m)
                        (push_accessor \<lparr>ac_type_id = ti, ac_idx = ix, ac_name = name\<rparr> sp) }
     else if btf_is_array t then do {
       a \<leftarrow> btf_array t;
       (_, ti) \<leftarrow> skip_mods_and_typedefs b (ar_type a);
       flex \<leftarrow> is_flex_arr b (last (sp_spec sp)) a;
       if \<not> flex \<and> unat (ar_nelems a) \<le> ix then Some (Inl (- EINVAL))
       else do {
         sz \<leftarrow> btf__resolve_size b ti;
         if sz < 0 then Some (Inl sz)
         else parse_fields b ixs ti
                (add_bits (of_nat ix * of_int sz * 8)
                  (push_accessor \<lparr>ac_type_id = ti, ac_idx = ix, ac_name = None\<rparr> sp)) } }
     else Some (Inl (- EINVAL)) }"

definition parse_accessors ::
    "btf \<Rightarrow> bpf_core_relo \<Rightarrow> nat list \<Rightarrow> (int + bpf_core_spec) option" where
  "parse_accessors b relo raw = do {
     (t, ti) \<leftarrow> skip_mods_and_typedefs b (rl_type_id relo);
     let ix = hd raw;
         sp = (empty_spec b (rl_type_id relo) (rl_kind relo))\<lparr>sp_raw := raw\<rparr>
     in if core_relo_is_enumval_based (rl_kind relo) then
          if \<not> btf_is_any_enum t \<or> 1 < length raw \<or> btf_vlen t \<le> ix then Some (Inl (- EINVAL))
          else do {
            name_off \<leftarrow> btf_enum_name_off t ix;
            Some (Inr (push_accessor
              \<lparr>ac_type_id = ti, ac_idx = ix, ac_name = btf__name_by_offset b name_off\<rparr> sp)) }
        else if \<not> core_relo_is_field_based (rl_kind relo) then Some (Inl (- EINVAL))
        else do {
          sz \<leftarrow> btf__resolve_size b ti;
          if sz < 0 then Some (Inl sz)
          else parse_fields b (tl raw) ti
                 (add_bits (of_nat ix * of_int sz * 8)
                   (push_accessor \<lparr>ac_type_id = ti, ac_idx = ix, ac_name = None\<rparr> sp)) } }"

definition bpf_core_parse_spec :: "btf \<Rightarrow> bpf_core_relo \<Rightarrow> (int + bpf_core_spec) option" where
  "bpf_core_parse_spec b relo =
     (case btf__name_by_offset b (rl_access_str_off relo) of
        None \<Rightarrow> Some (Inl (- EINVAL))
      | Some s \<Rightarrow>
          if s = [] \<or> s ! 0 = CHR '':'' then Some (Inl (- EINVAL))
          else if core_relo_is_type_based (rl_kind relo) then
            Some (if s \<noteq> ''0'' then Inl (- EINVAL)
                  else Inr (empty_spec b (rl_type_id relo) (rl_kind relo)))
          else do {
            r \<leftarrow> parse_raw s [];
            case r of
              Inl err \<Rightarrow> Some (Inl err)
            | Inr raw \<Rightarrow>
                if raw = [] then Some (Inl (- EINVAL)) else parse_accessors b relo raw })"

section \<open>Matching a local specification\<close>

definition push_member :: "u32 \<Rightarrow> nat \<Rightarrow> bpf_core_spec \<Rightarrow> bpf_core_spec" where
  "push_member bits i sp = sp\<lparr>sp_bit_offset := sp_bit_offset sp + bits, sp_raw := sp_raw sp @ [i]\<rparr>"

definition pop_member :: "u32 \<Rightarrow> bpf_core_spec \<Rightarrow> bpf_core_spec" where
  "pop_member bits sp = sp\<lparr>sp_bit_offset := sp_bit_offset sp - bits, sp_raw := butlast (sp_raw sp)\<rparr>"

text \<open>
  \<open>match_fields\<close> is the loop over the members of the target type; a call that returns 1 also
  gives the next type, \<open>*next_targ_id\<close>. The fuel counts levels of anonymous nesting.
\<close>

function (sequential)
  match_member :: "nat \<Rightarrow> btf \<Rightarrow> bpf_core_accessor \<Rightarrow> btf \<Rightarrow> u32 \<Rightarrow> bpf_core_spec \<Rightarrow> u32 \<Rightarrow>
     (int \<times> bpf_core_spec \<times> u32) option" and
  match_fields :: "nat \<Rightarrow> btf \<Rightarrow> bpf_core_accessor \<Rightarrow> btf_member \<Rightarrow> btf \<Rightarrow> btf_type \<Rightarrow> u32 \<Rightarrow>
     nat list \<Rightarrow> bpf_core_spec \<Rightarrow> u32 \<Rightarrow> (int \<times> bpf_core_spec \<times> u32) option"
where
  "match_member 0 lb la tb ti sp next_id = None"
| "match_member (Suc fuel) lb la tb ti sp next_id = do {
     (tt, ti) \<leftarrow> skip_mods_and_typedefs tb ti;
     if \<not> btf_is_composite tt then Some (0, sp, next_id)
     else do {
       lt \<leftarrow> btf_type_by_id lb (unat (ac_type_id la));
       lm \<leftarrow> btf_members lt (ac_idx la);
       match_fields fuel lb la lm tb tt ti [0..<btf_vlen tt] sp next_id } }"
| "match_fields fuel lb la lm tb tt ti [] sp next_id = Some (0, sp, next_id)"
| "match_fields fuel lb la lm tb tt ti (i # is) sp next_id = do {
     bits \<leftarrow> btf_member_bit_offset tt i;
     m \<leftarrow> btf_members tt i;
     if length (sp_raw sp) = BPF_CORE_SPEC_MAX_LEN then Some (- E2BIG, sp, next_id)
     else
       let sp = push_member bits i sp;
           targ_name = btf__name_by_offset tb (mb_name_off m)
       in if str_is_empty targ_name then do {
            (found, sp, next_id) \<leftarrow> match_member fuel lb la tb (mb_type m) sp next_id;
            if found \<noteq> 0 then Some (found, sp, next_id)
            else match_fields fuel lb la lm tb tt ti is (pop_member bits sp) next_id }
          else do {
            local_name \<leftarrow> btf__name_by_offset lb (mb_name_off lm);
            if Some local_name = targ_name then do {
              found \<leftarrow> bpf_core_fields_are_compat lb (mb_type lm) tb (mb_type m);
              Some (found,
                    if found = 0 then sp
                    else push_accessor \<lparr>ac_type_id = ti, ac_idx = i, ac_name = targ_name\<rparr> sp,
                    mb_type m) }
            else match_fields fuel lb la lm tb tt ti is (pop_member bits sp) next_id } }"
  by pat_completeness auto

termination
  by (relation "measures
       [\<lambda>x. case x of Inl (n, _) \<Rightarrow> n | Inr (n, _) \<Rightarrow> n,
        \<lambda>x. case x of Inl _ \<Rightarrow> 0 | Inr (_, _, _, _, _, _, _, is, _) \<Rightarrow> length is]") auto

definition bpf_core_match_member ::
    "btf \<Rightarrow> bpf_core_accessor \<Rightarrow> btf \<Rightarrow> u32 \<Rightarrow> bpf_core_spec \<Rightarrow> u32 \<Rightarrow>
     (int \<times> bpf_core_spec \<times> u32) option" where
  "bpf_core_match_member lb la tb ti sp next_id =
     match_member (BPF_CORE_SPEC_MAX_LEN + 1) lb la tb ti sp next_id"

section \<open>Matching types\<close>

definition bpf_core_names_match :: "btf \<Rightarrow> u32 \<Rightarrow> btf \<Rightarrow> u32 \<Rightarrow> bool option" where
  "bpf_core_names_match lb local_off tb targ_off =
     (let l = btf__name_by_offset lb local_off; t = btf__name_by_offset tb targ_off
      in if str_is_empty t then Some (str_is_empty l)
         else do {
           tn \<leftarrow> t; ln \<leftarrow> l;
           let n = bpf_core_essential_name_len ln
           in Some (bpf_core_essential_name_len tn = n \<and> strncmp_eq n ln tn) })"

fun enum_name_found :: "btf \<Rightarrow> u32 \<Rightarrow> btf \<Rightarrow> btf_type \<Rightarrow> nat list \<Rightarrow> bool option" where
  "enum_name_found lb local_off tb tt [] = Some False"
| "enum_name_found lb local_off tb tt (j # js) = do {
     targ_off \<leftarrow> btf_enum_name_off tt j;
     ok \<leftarrow> bpf_core_names_match lb local_off tb targ_off;
     if ok then Some True else enum_name_found lb local_off tb tt js }"

fun enum_names_found :: "btf \<Rightarrow> btf_type \<Rightarrow> btf \<Rightarrow> btf_type \<Rightarrow> nat list \<Rightarrow> int option" where
  "enum_names_found lb lt tb tt [] = Some 1"
| "enum_names_found lb lt tb tt (i # is) = do {
     local_off \<leftarrow> btf_enum_name_off lt i;
     matched \<leftarrow> enum_name_found lb local_off tb tt [0..<btf_vlen tt];
     if matched then enum_names_found lb lt tb tt is else Some 0 }"

definition bpf_core_enums_match :: "btf \<Rightarrow> btf_type \<Rightarrow> btf \<Rightarrow> btf_type \<Rightarrow> int option" where
  "bpf_core_enums_match lb lt tb tt =
     (if bt_size lt \<noteq> bt_size tt then Some 0
      else if btf_vlen tt < btf_vlen lt then Some 0
      else enum_names_found lb lt tb tt [0..<btf_vlen lt])"

definition fwd_match :: "bool \<Rightarrow> btf_type \<Rightarrow> btf_type \<Rightarrow> int" where
  "fwd_match behind_ptr lt tt =
     (let lk = btf_kind lt; tk = btf_kind tt; lf = btf_kflag lt
      in if behind_ptr then
           if lk = tk then of_bool (lf = btf_kflag tt)
           else of_bool (tk = BTF_KIND_STRUCT \<and> \<not> lf \<or> tk = BTF_KIND_UNION \<and> lf)
         else if lk \<noteq> tk then 0
         else of_bool (lf = btf_kflag tt))"

definition composite_behind_ptr :: "btf_type \<Rightarrow> btf_type \<Rightarrow> int" where
  "composite_behind_ptr lt tt =
     (if btf_kind lt = btf_kind tt then 1
      else if btf_kind tt \<noteq> BTF_KIND_FWD then 0
      else of_bool ((btf_kind lt = BTF_KIND_UNION) = btf_kflag tt))"

definition ints_match :: "btf_type \<Rightarrow> btf_type \<Rightarrow> int option" where
  "ints_match lt tt = do {
     l \<leftarrow> btf_int_encoding lt; t \<leftarrow> btf_int_encoding tt;
     Some (of_bool (bt_size lt = bt_size tt \<and> l AND BTF_INT_SIGNED = t AND BTF_INT_SIGNED)) }"

text \<open>The first argument is \<open>level\<close>; \<open>match_recur\<close> has it already decremented.\<close>

function (sequential)
  types_match :: "nat \<Rightarrow> btf \<Rightarrow> u32 \<Rightarrow> btf \<Rightarrow> u32 \<Rightarrow> bool \<Rightarrow> int option" and
  match_recur :: "nat \<Rightarrow> nat \<Rightarrow> btf \<Rightarrow> u32 \<Rightarrow> btf \<Rightarrow> u32 \<Rightarrow> bool \<Rightarrow> int option" and
  composites_match :: "nat \<Rightarrow> btf \<Rightarrow> btf_type \<Rightarrow> btf \<Rightarrow> btf_type \<Rightarrow> bool \<Rightarrow> nat list \<Rightarrow> int option" and
  member_matched :: "nat \<Rightarrow> btf \<Rightarrow> btf_member \<Rightarrow> btf \<Rightarrow> btf_type \<Rightarrow> bool \<Rightarrow> nat list \<Rightarrow> int option" and
  params_match :: "nat \<Rightarrow> btf \<Rightarrow> btf_type \<Rightarrow> btf \<Rightarrow> btf_type \<Rightarrow> bool \<Rightarrow> nat list \<Rightarrow> int option"
where
  "types_match 0 lb li tb ti behind = Some (- EINVAL)"
| "types_match (Suc level) lb li tb ti behind = match_recur level 32 lb li tb ti behind"
| "match_recur level 0 lb li tb ti behind = Some (- EINVAL)"
| "match_recur level (Suc depth) lb li tb ti behind = do {
     (lt, li) \<leftarrow> skip_mods_and_typedefs lb li;
     (tt, ti) \<leftarrow> skip_mods_and_typedefs tb ti;
     names \<leftarrow> bpf_core_names_match lb (bt_name_off lt) tb (bt_name_off tt);
     if \<not> names then Some 0
     else let lk = btf_kind lt; tk = btf_kind tt in
       if lk = BTF_KIND_UNKN then Some (of_bool (lk = tk))
       else if lk = BTF_KIND_FWD then Some (fwd_match behind lt tt)
       else if lk = BTF_KIND_ENUM \<or> lk = BTF_KIND_ENUM64 then
         if \<not> btf_is_any_enum tt then Some 0 else bpf_core_enums_match lb lt tb tt
       else if lk = BTF_KIND_STRUCT \<or> lk = BTF_KIND_UNION then
         if behind then Some (composite_behind_ptr lt tt)
         else if lk \<noteq> tk then Some 0
         else if btf_vlen tt < btf_vlen lt then Some 0
         else composites_match level lb lt tb tt behind [0..<btf_vlen lt]
       else if lk = BTF_KIND_INT then if lk \<noteq> tk then Some 0 else ints_match lt tt
       else if lk = BTF_KIND_PTR then
         if lk \<noteq> tk then Some 0
         else match_recur level depth lb (bt_type lt) tb (bt_type tt) True
       else if lk = BTF_KIND_ARRAY then
         if lk \<noteq> tk then Some 0
         else do {
           la \<leftarrow> btf_array lt; ta \<leftarrow> btf_array tt;
           if ar_nelems la \<noteq> ar_nelems ta then Some 0
           else match_recur level depth lb (ar_type la) tb (ar_type ta) behind }
       else if lk = BTF_KIND_FUNC_PROTO then
         if lk \<noteq> tk then Some 0
         else if btf_vlen lt \<noteq> btf_vlen tt then Some 0
         else do {
           err \<leftarrow> params_match level lb lt tb tt behind [0..<btf_vlen lt];
           if err \<le> 0 then Some err
           else match_recur level depth lb (bt_type lt) tb (bt_type tt) behind }
       else Some 0 }"
| "composites_match level lb lt tb tt behind [] = Some 1"
| "composites_match level lb lt tb tt behind (i # is) = do {
     lm \<leftarrow> btf_members lt i;
     r \<leftarrow> member_matched level lb lm tb tt behind [0..<btf_vlen tt];
     if r \<le> 0 then Some r else composites_match level lb lt tb tt behind is }"
| "member_matched level lb lm tb tt behind [] = Some 0"
| "member_matched level lb lm tb tt behind (j # js) = do {
     tm \<leftarrow> btf_members tt j;
     names \<leftarrow> bpf_core_names_match lb (mb_name_off lm) tb (mb_name_off tm);
     if \<not> names then member_matched level lb lm tb tt behind js
     else do {
       err \<leftarrow> types_match level lb (mb_type lm) tb (mb_type tm) behind;
       if err < 0 then Some err
       else if 0 < err then Some 1
       else member_matched level lb lm tb tt behind js } }"
| "params_match level lb lt tb tt behind [] = Some 1"
| "params_match level lb lt tb tt behind (i # is) = do {
     lp \<leftarrow> btf_params_type lt i; tp \<leftarrow> btf_params_type tt i;
     err \<leftarrow> types_match level lb lp tb tp behind;
     if err \<le> 0 then Some err else params_match level lb lt tb tt behind is }"
  by pat_completeness auto

termination
  by (relation "measures
       [\<lambda>x. case x of Inl (Inl (lev, _)) \<Rightarrow> lev | Inl (Inr (lev, _)) \<Rightarrow> lev + 1
          | Inr (Inl (lev, _)) \<Rightarrow> lev + 1 | Inr (Inr (Inl (lev, _))) \<Rightarrow> lev + 1
          | Inr (Inr (Inr (lev, _))) \<Rightarrow> lev + 1,
        \<lambda>x. case x of Inl (Inl _) \<Rightarrow> 40 | Inl (Inr (_, d, _)) \<Rightarrow> d + 3
          | Inr (Inl _) \<Rightarrow> 2 | _ \<Rightarrow> 1,
        \<lambda>x. case x of Inl _ \<Rightarrow> 0 | Inr (Inl (_, _, _, _, _, _, is)) \<Rightarrow> length is
          | Inr (Inr (Inl (_, _, _, _, _, _, js))) \<Rightarrow> length js
          | Inr (Inr (Inr (_, _, _, _, _, _, is))) \<Rightarrow> length is]") auto

definition bpf_core_types_match :: "btf \<Rightarrow> u32 \<Rightarrow> btf \<Rightarrow> u32 \<Rightarrow> int option" where
  "bpf_core_types_match lb li tb ti = types_match 32 lb li tb ti False"

end
