(* ===== verification/Relo_Calc.thy ===== *)
theory Relo_Calc
  imports Relo_Core
begin

text \<open>
  CO-RE relocation continued (\<open>lib/libbpf/src/relo_core.c\<close>): matching a whole specification,
  the values of a relocation, patching an instruction, choosing among the candidate types, and
  the text of a specification. The target byte order is little endian.
\<close>

section \<open>Matching a specification\<close>

fun enumval_match ::
    "string \<Rightarrow> btf \<Rightarrow> btf_type \<Rightarrow> u32 \<Rightarrow> nat list \<Rightarrow> bpf_core_spec \<Rightarrow> (int \<times> bpf_core_spec) option" where
  "enumval_match nm tb tt ti [] sp = Some (0, sp)"
| "enumval_match nm tb tt ti (i # is) sp = do {
     name_off \<leftarrow> btf_enum_name_off tt i;
     targ_name \<leftarrow> btf__name_by_offset tb name_off;
     let n = bpf_core_essential_name_len nm
     in if bpf_core_essential_name_len targ_name = n \<and> strncmp_eq n nm targ_name
        then Some (1, (push_accessor
               \<lparr>ac_type_id = ti, ac_idx = i, ac_name = Some targ_name\<rparr> sp)\<lparr>sp_raw := [i]\<rparr>)
        else enumval_match nm tb tt ti is sp }"

fun match_accessors ::
    "btf \<Rightarrow> btf \<Rightarrow> bpf_core_accessor list \<Rightarrow> nat \<Rightarrow> u32 \<Rightarrow> bpf_core_spec \<Rightarrow>
     (int \<times> bpf_core_spec) option" where
  "match_accessors lb tb [] i ti sp = Some (1, sp)"
| "match_accessors lb tb (la # las) i ti sp = do {
     (tt, ti) \<leftarrow> skip_mods_and_typedefs tb ti;
     if ac_name la \<noteq> None then do {
       (matched, sp, ti) \<leftarrow> bpf_core_match_member lb la tb ti sp ti;
       if matched \<le> 0 then Some (matched, sp)
       else match_accessors lb tb las (Suc i) ti sp }
     else do {
       elem \<leftarrow>
         (if i = 0 then Some (Some ti)
          else if \<not> btf_is_array tt then Some None
          else do {
            a \<leftarrow> btf_array tt;
            flex \<leftarrow> is_flex_arr tb (last (sp_spec sp)) a;
            if \<not> flex \<and> unat (ar_nelems a) \<le> ac_idx la then Some None
            else do { (_, ti) \<leftarrow> skip_mods_and_typedefs tb (ar_type a); Some (Some ti) } });
       case elem of
         None \<Rightarrow> Some (0, sp)
       | Some ti \<Rightarrow>
           if length (sp_raw sp) = BPF_CORE_SPEC_MAX_LEN then Some (- E2BIG, sp)
           else
             let sp = (push_accessor
                   \<lparr>ac_type_id = ti, ac_idx = ac_idx la, ac_name = None\<rparr> sp)
                     \<lparr>sp_raw := sp_raw sp @ [ac_idx la]\<rparr>
             in do {
               sz \<leftarrow> btf__resolve_size tb ti;
               if as_int sz < 0 then Some (as_int sz, sp)
               else match_accessors lb tb las (Suc i) ti
                      (add_bits (of_nat (ac_idx la) * of_int (as_int sz) * 8) sp) } } }"

definition bpf_core_spec_match ::
    "bpf_core_spec \<Rightarrow> btf \<Rightarrow> u32 \<Rightarrow> (int \<times> bpf_core_spec) option" where
  "bpf_core_spec_match local_spec tb ti =
     (let kind = sp_relo_kind local_spec; lb = sp_btf local_spec; sp = empty_spec tb ti kind
      in if core_relo_is_type_based kind then do {
           r \<leftarrow> (if kind = BPF_CORE_TYPE_MATCHES
                then bpf_core_types_match lb (sp_root_type_id local_spec) tb ti
                else bpf_core_types_are_compat lb (sp_root_type_id local_spec) tb ti);
           Some (r, sp) }
         else if core_relo_is_enumval_based kind then do {
           (tt, ti) \<leftarrow> skip_mods_and_typedefs tb ti;
           if \<not> btf_is_any_enum tt then Some (0, sp)
           else
             case sp_spec local_spec of
               [] \<Rightarrow> None
             | la # _ \<Rightarrow> do {
                 nm \<leftarrow> ac_name la;
                 enumval_match nm tb tt ti [0..<btf_vlen tt] sp } }
         else if \<not> core_relo_is_field_based kind then Some (- EINVAL, sp)
         else match_accessors lb tb (sp_spec local_spec) 0 ti sp)"

section \<open>Field relocations\<close>

text \<open>The innermost element of an array: the two loops over \<open>btf_is_array\<close>.\<close>

partial_function (option) array_elem_id :: "btf \<Rightarrow> u32 \<Rightarrow> u32 option" where
  "array_elem_id b ti = do {
     (t, ti) \<leftarrow> skip_mods_and_typedefs b ti;
     if btf_is_array t then do { a \<leftarrow> btf_array t; array_elem_id b (ar_type a) }
     else Some ti }"

record relo_val =
  rv_val :: u64
  rv_sz :: u32
  rv_type_id :: u32

text \<open>
  The smallest load that holds a bitfield: its byte offset and size, \<open>Inl (- E2BIG)\<close> when
  eight bytes do not suffice.
\<close>

function bitfield_window :: "u32 \<Rightarrow> u32 \<Rightarrow> u32 \<Rightarrow> int + u32 \<times> u32" where
  "bitfield_window bit_off bit_sz byte_sz =
     (let byte_off = bit_off div 8 div byte_sz * byte_sz
      in if byte_sz * 8 < bit_off + bit_sz - byte_off * 8 then
           if byte_sz = 0 \<or> 8 \<le> byte_sz then Inl (- E2BIG)
           else bitfield_window bit_off bit_sz (byte_sz * 2)
         else Inr (byte_off, byte_sz))"
  by pat_completeness auto

termination
proof (relation "measure (\<lambda>(_, _, byte_sz). 8 - unat byte_sz)")
  fix bit_off bit_sz byte_sz byte_off :: u32
  assume "\<not> (byte_sz = 0 \<or> 8 \<le> byte_sz)"
  then have "0 < unat byte_sz" "unat byte_sz < 8"
    by (simp_all add: word_le_nat_alt unat_gt_0)
  moreover from this have "unat (byte_sz * 2) = unat byte_sz * 2"
    by (simp add: unat_word_ariths)
  ultimately show "((bit_off, bit_sz, byte_sz * 2), bit_off, bit_sz, byte_sz)
      \<in> measure (\<lambda>(_, _, byte_sz). 8 - unat byte_sz)"
    by simp
qed simp

declare bitfield_window.simps [simp del]

text \<open>Byte offset, byte size and bit size of a member, and whether it is a bitfield.\<close>

definition member_extent ::
    "bpf_core_spec \<Rightarrow> btf_type \<Rightarrow> nat \<Rightarrow> btf_type \<Rightarrow> u32 \<Rightarrow>
     (int + u32 \<times> u32 \<times> u32 \<times> bool) option" where
  "member_extent sp t ix mt field_type_id = do {
     bit_sz \<leftarrow> btf_member_bitfield_size t ix;
     if 0 < bit_sz then
       if bt_size mt = 0 then None
       else Some (case bitfield_window (sp_bit_offset sp) bit_sz (bt_size mt) of
              Inl err \<Rightarrow> Inl err
            | Inr (byte_off, byte_sz) \<Rightarrow> Inr (byte_off, byte_sz, bit_sz, True))
     else do {
       sz \<leftarrow> btf__resolve_size (sp_btf sp) field_type_id;
       Some (if sz < 0 then Inl (- EINVAL)
             else Inr (sp_bit_offset sp div 8, of_int sz, of_int sz * 8, False)) } }"

definition member_signed :: "btf_type \<Rightarrow> bool option" where
  "member_signed mt =
     (if btf_is_any_enum mt \<and> btf_kflag mt then Some True
      else if btf_is_int mt then map_option (\<lambda>e. e AND BTF_INT_SIGNED \<noteq> 0) (btf_int_encoding mt)
      else Some False)"

definition element_size ::
    "btf \<Rightarrow> u32 \<Rightarrow> u32 \<Rightarrow> relo_val \<Rightarrow> (int \<times> relo_val) option" where
  "element_size b ti type_id rv = do {
     elem_id \<leftarrow> array_elem_id b ti;
     sz \<leftarrow> btf__resolve_size b elem_id;
     Some (if sz < 0 then (- EINVAL, rv)
           else (0, rv\<lparr>rv_sz := of_int sz, rv_type_id := type_id\<rparr>)) }"

definition array_relo ::
    "bpf_core_relo_kind \<Rightarrow> bpf_core_spec \<Rightarrow> bpf_core_accessor \<Rightarrow> relo_val \<Rightarrow> bool \<Rightarrow>
     (int \<times> relo_val \<times> bool) option" where
  "array_relo kind sp acc rv validate =
     (if kind = BPF_CORE_FIELD_BYTE_OFFSET then do {
        (err, rv) \<leftarrow> element_size (sp_btf sp) (ac_type_id acc) (ac_type_id acc)
                       (rv\<lparr>rv_val := ucast (sp_bit_offset sp div 8)\<rparr>);
        Some (err, rv, if err = 0 then True else validate) }
      else if kind = BPF_CORE_FIELD_BYTE_SIZE then do {
        sz \<leftarrow> btf__resolve_size (sp_btf sp) (ac_type_id acc);
        Some (if sz < 0 then (- EINVAL, rv, validate)
              else (0, rv\<lparr>rv_val := of_int sz\<rparr>, True)) }
      else Some (- EINVAL, rv, validate))"

definition member_relo ::
    "bpf_core_relo_kind \<Rightarrow> bpf_core_spec \<Rightarrow> btf_type \<Rightarrow> bpf_core_accessor \<Rightarrow> relo_val \<Rightarrow> bool \<Rightarrow>
     (int \<times> relo_val \<times> bool) option" where
  "member_relo kind sp t acc rv validate = do {
     m \<leftarrow> btf_members t (ac_idx acc);
     (mt, field_type_id) \<leftarrow> skip_mods_and_typedefs (sp_btf sp) (mb_type m);
     ext \<leftarrow> member_extent sp t (ac_idx acc) mt field_type_id;
     case ext of
       Inl err \<Rightarrow> Some (err, rv, validate)
     | Inr (byte_off, byte_sz, bit_sz, bitfield) \<Rightarrow>
         let bit_off = sp_bit_offset sp; validate = (\<not> bitfield)
         in if kind = BPF_CORE_FIELD_BYTE_OFFSET then
              let rv = rv\<lparr>rv_val := ucast byte_off\<rparr>
              in if bitfield then Some (0, rv, validate)
                 else do {
                   (err, rv) \<leftarrow> element_size (sp_btf sp) field_type_id field_type_id rv;
                   Some (err, rv, validate) }
            else if kind = BPF_CORE_FIELD_BYTE_SIZE
            then Some (0, rv\<lparr>rv_val := ucast byte_sz\<rparr>, validate)
            else if kind = BPF_CORE_FIELD_SIGNED then do {
              s \<leftarrow> member_signed mt;
              Some (0, rv\<lparr>rv_val := of_bool s\<rparr>, True) }
            else if kind = BPF_CORE_FIELD_LSHIFT_U64
            then Some (0, rv\<lparr>rv_val := ucast (64 - (bit_off + bit_sz - byte_off * 8))\<rparr>, validate)
            else if kind = BPF_CORE_FIELD_RSHIFT_U64
            then Some (0, rv\<lparr>rv_val := ucast (64 - bit_sz)\<rparr>, True)
            else Some (- EOPNOTSUPP, rv, validate) }"

text \<open>The second call passes no \<open>validate\<close> pointer; its caller ignores the flag returned.\<close>

definition bpf_core_calc_field_relo ::
    "bpf_core_relo_kind \<Rightarrow> bpf_core_spec option \<Rightarrow> relo_val \<Rightarrow> bool \<Rightarrow>
     (int \<times> relo_val \<times> bool) option" where
  "bpf_core_calc_field_relo kind spec rv validate =
     (let rv = rv\<lparr>rv_sz := 0\<rparr>
      in if kind = BPF_CORE_FIELD_EXISTS
         then Some (0, rv\<lparr>rv_val := of_bool (spec \<noteq> None)\<rparr>, validate)
         else case spec of
           None \<Rightarrow> Some (- EUCLEAN, rv, validate)
         | Some sp \<Rightarrow>
             if sp_spec sp = [] then None
             else do {
               let acc = last (sp_spec sp);
               t \<leftarrow> btf_type_by_id (sp_btf sp) (unat (ac_type_id acc));
               if ac_name acc = None then array_relo kind sp acc rv validate
               else member_relo kind sp t acc rv validate })"

section \<open>Type and enumerator relocations\<close>

definition bpf_core_calc_type_relo ::
    "bpf_core_relo_kind \<Rightarrow> bpf_core_spec option \<Rightarrow> (int \<times> u64 \<times> bool) option" where
  "bpf_core_calc_type_relo kind spec =
     (case spec of
        None \<Rightarrow> Some (0, 0, True)
      | Some sp \<Rightarrow>
          if kind = BPF_CORE_TYPE_ID_TARGET then Some (0, ucast (sp_root_type_id sp), False)
          else if kind = BPF_CORE_TYPE_EXISTS \<or> kind = BPF_CORE_TYPE_MATCHES then Some (0, 1, True)
          else if kind = BPF_CORE_TYPE_SIZE then do {
            sz \<leftarrow> btf__resolve_size (sp_btf sp) (sp_root_type_id sp);
            Some (if sz < 0 then (- EINVAL, 0, True) else (0, of_int sz, True)) }
          else Some (- EOPNOTSUPP, 0, True))"

definition bpf_core_calc_enumval_relo ::
    "bpf_core_relo_kind \<Rightarrow> bpf_core_spec option \<Rightarrow> (int \<times> u64) option" where
  "bpf_core_calc_enumval_relo kind spec =
     (if kind = BPF_CORE_ENUMVAL_EXISTS then Some (0, of_bool (spec \<noteq> None))
      else if kind = BPF_CORE_ENUMVAL_VALUE then
        case spec of
          None \<Rightarrow> Some (- EUCLEAN, 0)
        | Some sp \<Rightarrow>
            (case sp_spec sp of
               [] \<Rightarrow> None
             | acc # _ \<Rightarrow> do {
                 t \<leftarrow> btf_type_by_id (sp_btf sp) (unat (ac_type_id acc));
                 v \<leftarrow> (if btf_is_enum t then map_option scast (btf_enum_val t (ac_idx acc))
                      else btf_enum64_value t (ac_idx acc));
                 Some (0, v) })
      else Some (- EOPNOTSUPP, 0))"

end
