(* ===== verification/Relo_Patch.thy ===== *)
theory Relo_Patch
  imports Relo_Calc
begin

text \<open>
  The last part of CO-RE relocation (\<open>lib/libbpf/src/relo_core.c\<close>): the result of a relocation,
  the choice among candidate types, the patched instruction, and the text of a specification.
\<close>

section \<open>The result of a relocation\<close>

record bpf_core_relo_res =
  rr_orig_val :: u64
  rr_new_val :: u64
  rr_poison :: bool
  rr_validate :: bool
  rr_fail_memsz_adjust :: bool
  rr_orig_sz :: u32
  rr_orig_type_id :: u32
  rr_new_sz :: u32
  rr_new_type_id :: u32

definition zero_res :: "bool \<Rightarrow> bpf_core_relo_res" where
  "zero_res validate =
     \<lparr>rr_orig_val = 0, rr_new_val = 0, rr_poison = False, rr_validate = validate,
      rr_fail_memsz_adjust = False, rr_orig_sz = 0, rr_orig_type_id = 0, rr_new_sz = 0,
      rr_new_type_id = 0\<rparr>"

definition orig_part :: "bpf_core_relo_res \<Rightarrow> relo_val" where
  "orig_part r = \<lparr>rv_val = rr_orig_val r, rv_sz = rr_orig_sz r, rv_type_id = rr_orig_type_id r\<rparr>"

definition new_part :: "bpf_core_relo_res \<Rightarrow> relo_val" where
  "new_part r = \<lparr>rv_val = rr_new_val r, rv_sz = rr_new_sz r, rv_type_id = rr_new_type_id r\<rparr>"

definition set_orig :: "relo_val \<Rightarrow> bool \<Rightarrow> bpf_core_relo_res \<Rightarrow> bpf_core_relo_res" where
  "set_orig v validate r =
     r\<lparr>rr_orig_val := rv_val v, rr_orig_sz := rv_sz v, rr_orig_type_id := rv_type_id v,
       rr_validate := validate\<rparr>"

definition set_new :: "relo_val \<Rightarrow> bpf_core_relo_res \<Rightarrow> bpf_core_relo_res" where
  "set_new v r =
     r\<lparr>rr_new_val := rv_val v, rr_new_sz := rv_sz v, rr_new_type_id := rv_type_id v\<rparr>"

text \<open>Whether a load or store may change its size: pointers, or unsigned integers.\<close>

definition resizable :: "btf_type \<Rightarrow> btf_type \<Rightarrow> bool option" where
  "resizable orig_t new_t =
     (if btf_is_ptr orig_t \<and> btf_is_ptr new_t then Some True
      else if btf_is_int orig_t \<and> btf_is_int new_t then do {
        o_enc \<leftarrow> btf_int_encoding orig_t;
        if o_enc = BTF_INT_SIGNED then Some False
        else do { n_enc \<leftarrow> btf_int_encoding new_t; Some (n_enc \<noteq> BTF_INT_SIGNED) } }
      else Some False)"

definition check_resize ::
    "bpf_core_spec \<Rightarrow> bpf_core_spec option \<Rightarrow> bpf_core_relo_res \<Rightarrow> bpf_core_relo_res option" where
  "check_resize local_spec targ_spec res =
     (if rr_orig_sz res = rr_new_sz res then Some res
      else do {
        orig_t \<leftarrow> btf_type_by_id (sp_btf local_spec) (unat (rr_orig_type_id res));
        targ \<leftarrow> targ_spec;
        new_t \<leftarrow> btf_type_by_id (sp_btf targ) (unat (rr_new_type_id res));
        ok \<leftarrow> resizable orig_t new_t;
        Some (res\<lparr>rr_fail_memsz_adjust := \<not> ok\<rparr>) })"

definition calc_field_res ::
    "bpf_core_relo_kind \<Rightarrow> bpf_core_spec \<Rightarrow> bpf_core_spec option \<Rightarrow> bpf_core_relo_res \<Rightarrow>
     (int \<times> bpf_core_relo_res) option" where
  "calc_field_res kind local_spec targ_spec res = do {
     (err, v, validate) \<leftarrow>
       bpf_core_calc_field_relo kind (Some local_spec) (orig_part res) (rr_validate res);
     let res = set_orig v validate res
     in if err \<noteq> 0 then Some (err, res)
        else do {
          (err, v, _) \<leftarrow> bpf_core_calc_field_relo kind targ_spec (new_part res) False;
          let res = set_new v res
          in if err \<noteq> 0 then Some (err, res)
             else do { res \<leftarrow> check_resize local_spec targ_spec res; Some (0, res) } } }"

definition bpf_core_calc_relo ::
    "bpf_core_relo_kind \<Rightarrow> bpf_core_spec \<Rightarrow> bpf_core_spec option \<Rightarrow>
     (int \<times> bpf_core_relo_res) option" where
  "bpf_core_calc_relo kind local_spec targ_spec = do {
     let res = zero_res True;
     (err, res) \<leftarrow>
       (if core_relo_is_field_based kind then calc_field_res kind local_spec targ_spec res
        else if core_relo_is_type_based kind then do {
          (err, v, validate) \<leftarrow> bpf_core_calc_type_relo kind (Some local_spec);
          let res = res\<lparr>rr_orig_val := v, rr_validate := validate\<rparr>
          in if err \<noteq> 0 then Some (err, res)
             else do {
               (err, v, _) \<leftarrow> bpf_core_calc_type_relo kind targ_spec;
               Some (err, res\<lparr>rr_new_val := v\<rparr>) } }
        else if core_relo_is_enumval_based kind then do {
          (err, v) \<leftarrow> bpf_core_calc_enumval_relo kind (Some local_spec);
          let res = res\<lparr>rr_orig_val := v\<rparr>
          in if err \<noteq> 0 then Some (err, res)
             else do {
               (err, v) \<leftarrow> bpf_core_calc_enumval_relo kind targ_spec;
               Some (err, res\<lparr>rr_new_val := v\<rparr>) } }
        else Some (- EOPNOTSUPP, res));
     Some (if err = - EUCLEAN then (0, res\<lparr>rr_poison := True\<rparr>) else (err, res)) }"

section \<open>Patching an instruction\<close>

definition BPF_LD :: u8 where "BPF_LD = 0x00"
definition BPF_LDX :: u8 where "BPF_LDX = 0x01"
definition BPF_ST :: u8 where "BPF_ST = 0x02"
definition BPF_STX :: u8 where "BPF_STX = 0x03"
definition BPF_ALU :: u8 where "BPF_ALU = 0x04"
definition BPF_ALU64 :: u8 where "BPF_ALU64 = 0x07"
definition BPF_SIZE :: "u8 \<Rightarrow> u8" where "BPF_SIZE c = c AND 0x18"
definition BPF_MODE :: "u8 \<Rightarrow> u8" where "BPF_MODE c = c AND 0xe0"
definition BPF_SRC :: "u8 \<Rightarrow> u8" where "BPF_SRC c = c AND 0x08"
definition BPF_W :: u8 where "BPF_W = 0x00"
definition BPF_H :: u8 where "BPF_H = 0x08"
definition BPF_B :: u8 where "BPF_B = 0x10"
definition BPF_DW :: u8 where "BPF_DW = 0x18"
definition BPF_IMM :: u8 where "BPF_IMM = 0x00"
definition BPF_K :: u8 where "BPF_K = 0x00"
definition SHRT_MAX :: u64 where "SHRT_MAX = 32767"

lemmas insn_consts =
  BPF_LD_def BPF_LDX_def BPF_ST_def BPF_STX_def BPF_ALU_def BPF_ALU64_def BPF_SIZE_def
  BPF_MODE_def BPF_SRC_def BPF_W_def BPF_H_def BPF_B_def BPF_DW_def BPF_IMM_def BPF_K_def
  BPF_CLASS_def SHRT_MAX_def

definition is_ldimm64_insn :: "bpf_insn \<Rightarrow> bool" where
  "is_ldimm64_insn insn \<longleftrightarrow> in_code insn = (BPF_LD OR BPF_IMM OR BPF_DW)"

definition poisoned :: bpf_insn where
  "poisoned = \<lparr>in_code = BPF_JMP OR BPF_CALL, in_dst_reg = 0, in_src_reg = 0, in_off = 0,
               in_imm = 195896080\<rparr>"

definition bpf_core_poison_insn :: "nat \<Rightarrow> bpf_insn list \<Rightarrow> bpf_insn list option" where
  "bpf_core_poison_insn i prog = (if i < length prog then Some (prog[i := poisoned]) else None)"

definition insn_bpf_size_to_bytes :: "bpf_insn \<Rightarrow> i32" where
  "insn_bpf_size_to_bytes insn =
     (let s = BPF_SIZE (in_code insn)
      in if s = BPF_DW then 8 else if s = BPF_W then 4 else if s = BPF_H then 2
         else if s = BPF_B then 1 else - 1)"

definition insn_bytes_to_bpf_size :: "u32 \<Rightarrow> u8 option" where
  "insn_bytes_to_bpf_size sz =
     (if sz = 8 then Some BPF_DW else if sz = 4 then Some BPF_W else if sz = 2 then Some BPF_H
      else if sz = 1 then Some BPF_B else None)"

text \<open>The label \<open>poison\<close>.\<close>

definition poison_at :: "nat \<Rightarrow> bpf_insn list \<Rightarrow> (int \<times> bpf_insn list) option" where
  "poison_at i prog = do {
     prog \<leftarrow> (if is_ldimm64_insn (prog ! i) then bpf_core_poison_insn (i + 1) prog else Some prog);
     prog \<leftarrow> bpf_core_poison_insn i prog;
     Some (0, prog) }"

definition patch_alu :: "bpf_core_relo_res \<Rightarrow> bpf_insn \<Rightarrow> int \<times> bpf_insn" where
  "patch_alu res insn =
     (if BPF_SRC (in_code insn) \<noteq> BPF_K then (- EINVAL, insn)
      else if rr_validate res \<and> (scast (in_imm insn) :: u64) \<noteq> rr_orig_val res
      then (- EINVAL, insn)
      else (0, insn\<lparr>in_imm := ucast (rr_new_val res)\<rparr>))"

definition patch_mem_size :: "bpf_core_relo_res \<Rightarrow> bpf_insn \<Rightarrow> int \<times> bpf_insn" where
  "patch_mem_size res insn =
     (if rr_new_sz res = rr_orig_sz res then (0, insn)
      else if insn_bpf_size_to_bytes insn \<noteq> rr_orig_sz res then (- EINVAL, insn)
      else case insn_bytes_to_bpf_size (rr_new_sz res) of
        None \<Rightarrow> (- EINVAL, insn)
      | Some s \<Rightarrow>
          (0, insn\<lparr>in_code := BPF_MODE (in_code insn) OR s OR BPF_CLASS (in_code insn)\<rparr>))"

definition patch_ldimm64 ::
    "bpf_core_relo_res \<Rightarrow> nat \<Rightarrow> bpf_insn list \<Rightarrow> (int \<times> bpf_insn list) option" where
  "patch_ldimm64 res i prog =
     (let insn = prog ! i
      in if \<not> is_ldimm64_insn insn \<or> in_src_reg insn \<noteq> 0 \<or> in_off insn \<noteq> 0
         then Some (- EINVAL, prog)
         else if length prog \<le> i + 1 then None
         else
           let next = prog ! (i + 1);
               imm = ucast (in_imm insn) OR push_bit 32 (scast (in_imm next)) :: u64
           in if in_code next \<noteq> 0 \<or> in_dst_reg next \<noteq> 0 \<or> in_src_reg next \<noteq> 0 \<or> in_off next \<noteq> 0
              then Some (- EINVAL, prog)
              else if rr_validate res \<and> imm \<noteq> rr_orig_val res then Some (- EINVAL, prog)
              else Some (0, prog
                [i := insn\<lparr>in_imm := ucast (rr_new_val res)\<rparr>,
                 i + 1 := next\<lparr>in_imm := ucast (drop_bit 32 (rr_new_val res))\<rparr>]))"

definition bpf_core_patch_insn ::
    "bpf_core_relo_res \<Rightarrow> nat \<Rightarrow> bpf_insn list \<Rightarrow> (int \<times> bpf_insn list) option" where
  "bpf_core_patch_insn res i prog =
     (if length prog \<le> i then None
      else if rr_poison res then poison_at i prog
      else
        let insn = prog ! i; cls = BPF_CLASS (in_code insn)
        in if cls = BPF_ALU \<or> cls = BPF_ALU64 then
             (case patch_alu res insn of (err, insn) \<Rightarrow> Some (err, prog[i := insn]))
           else if cls = BPF_LDX \<or> cls = BPF_ST \<or> cls = BPF_STX then
             if rr_validate res \<and> (scast (in_off insn) :: u64) \<noteq> rr_orig_val res
             then Some (- EINVAL, prog)
             else if SHRT_MAX < rr_new_val res then Some (- ERANGE, prog)
             else if rr_fail_memsz_adjust res then poison_at i prog
             else
               (case patch_mem_size res (insn\<lparr>in_off := ucast (rr_new_val res)\<rparr>) of
                  (err, insn) \<Rightarrow> Some (err, prog[i := insn]))
           else if cls = BPF_LD then patch_ldimm64 res i prog
           else Some (- EINVAL, prog))"

section \<open>Choosing among the candidates\<close>

text \<open>
  The loop over the candidates: \<open>i\<close> counts those seen, \<open>j\<close> those that matched and are kept at the
  front of the array; \<open>best\<close> is the first match with its specification.
\<close>

fun cands_loop ::
    "bpf_core_relo_kind \<Rightarrow> bpf_core_spec \<Rightarrow> nat list \<Rightarrow> core_cand list \<Rightarrow> nat \<Rightarrow>
     (bpf_core_relo_res \<times> bpf_core_spec) option \<Rightarrow>
     (int \<times> core_cand list \<times> nat \<times> bpf_core_relo_res option) option" where
  "cands_loop kind local_spec [] cands j best = Some (0, cands, j, map_option fst best)"
| "cands_loop kind local_spec (i # is) cands j best = do {
     (err, cand_spec) \<leftarrow> bpf_core_spec_match local_spec (cd_btf (cands ! i)) (cd_id (cands ! i));
     if err < 0 then Some (err, cands, j, map_option fst best)
     else if err = 0 then cands_loop kind local_spec is cands j best
     else do {
       (err, cand_res) \<leftarrow> bpf_core_calc_relo kind local_spec (Some cand_spec);
       if err \<noteq> 0 then Some (err, cands, j, map_option fst best)
       else
         case best of
           None \<Rightarrow> cands_loop kind local_spec is (cands[j := cands ! i]) (Suc j)
                     (Some (cand_res, cand_spec))
         | Some (targ_res, targ_spec) \<Rightarrow>
             if sp_bit_offset cand_spec \<noteq> sp_bit_offset targ_spec
             then Some (- EINVAL, cands, j, Some targ_res)
             else if rr_poison cand_res \<noteq> rr_poison targ_res \<or>
                     rr_new_val cand_res \<noteq> rr_new_val targ_res
             then Some (- EINVAL, cands, j, Some targ_res)
             else cands_loop kind local_spec is (cands[j := cands ! i]) (Suc j) best } }"

definition bpf_core_calc_relo_insn ::
    "btf \<Rightarrow> bpf_core_relo \<Rightarrow> core_cand list \<Rightarrow>
     (int \<times> core_cand list \<times> bpf_core_relo_res option) option" where
  "bpf_core_calc_relo_insn lb relo cands = do {
     local_type \<leftarrow> btf_type_by_id lb (unat (rl_type_id relo));
     case btf__name_by_offset lb (bt_name_off local_type) of
       None \<Rightarrow> Some (- EINVAL, cands, None)
     | Some local_name \<Rightarrow> do {
         r \<leftarrow> bpf_core_parse_spec lb relo;
         case r of
           Inl _ \<Rightarrow> Some (- EINVAL, cands, None)
         | Inr local_spec \<Rightarrow>
             if rl_kind relo = BPF_CORE_TYPE_ID_LOCAL then
               let root = ucast (sp_root_type_id local_spec)
               in Some (0, cands, Some ((zero_res False)\<lparr>rr_orig_val := root, rr_new_val := root\<rparr>))
             else if local_name = [] then Some (- EOPNOTSUPP, cands, None)
             else do {
               (err, cands, j, best) \<leftarrow>
                 cands_loop (rl_kind relo) local_spec [0..<length cands] cands 0 None;
               if err \<noteq> 0 then Some (err, cands, best)
               else if 0 < j then Some (0, take j cands, best)
               else do {
                 (err, res) \<leftarrow> bpf_core_calc_relo (rl_kind relo) local_spec None;
                 Some (err, cands, Some res) } } } }"

section \<open>The text of a specification\<close>

text \<open>
  \<open>append_buf\<close> writes one \<open>snprintf\<close> into what is left of the buffer and counts the length
  the text would have had.
\<close>

record text_buf =
  tb_text :: string
  tb_room :: nat
  tb_len :: nat

definition append_buf :: "string \<Rightarrow> text_buf \<Rightarrow> text_buf" where
  "append_buf s buf =
     buf\<lparr>tb_text := tb_text buf @ take (tb_room buf - 1) s,
         tb_room := tb_room buf - min (length s) (tb_room buf),
         tb_len := tb_len buf + length s\<rparr>"

definition btf_kind_str :: "btf_type \<Rightarrow> string" where
  "btf_kind_str t =
     (let names = [''void'', ''int'', ''ptr'', ''array'', ''struct'', ''union'', ''enum'', ''fwd'',
        ''typedef'', ''volatile'', ''const'', ''restrict'', ''func'', ''func_proto'', ''var'',
        ''datasec'', ''float'', ''decl_tag'', ''type_tag'', ''enum64''];
          k = unat (btf_kind t)
      in if k < length names then names ! k else ''unknown'')"

definition format_enumval :: "bpf_core_spec \<Rightarrow> string option" where
  "format_enumval sp = do {
     (t, _) \<leftarrow> skip_mods_and_typedefs (sp_btf sp) (sp_root_type_id sp);
     let ix = (if sp_raw sp = [] then 0 else hd (sp_raw sp));
     name_off \<leftarrow> btf_enum_name_off t ix;
     s \<leftarrow> btf__name_by_offset (sp_btf sp) name_off;
     v \<leftarrow> (if btf_is_enum t
          then map_option (\<lambda>v. if btf_kflag t then dec_s v else dec_u v) (btf_enum_val t ix)
          else map_option (\<lambda>v. if btf_kflag t then dec_s v else dec_u v) (btf_enum64_value t ix));
     Some (''::'' @ s @ '' = '' @ v) }"

definition format_accessor :: "nat \<Rightarrow> bpf_core_accessor \<Rightarrow> string list" where
  "format_accessor i acc =
     (case ac_name acc of
        Some nm \<Rightarrow> [''.'' @ nm]
      | None \<Rightarrow> if 0 < i \<or> 0 < ac_idx acc then [''['' @ dec_digits (ac_idx acc) @ '']''] else [])"

definition format_field :: "bpf_core_spec \<Rightarrow> string list" where
  "format_field sp =
     concat (map (\<lambda>(i, acc). format_accessor i acc) (enumerate 0 (sp_spec sp))) @ ['' (''] @
     map (\<lambda>(i, r). (if i = 0 then [] else '':'') @ dec_digits r) (enumerate 0 (sp_raw sp)) @
     [if sp_bit_offset sp mod 8 \<noteq> 0
      then '' @ offset '' @ dec_u (sp_bit_offset sp div 8) @ ''.'' @
             dec_u (sp_bit_offset sp mod 8) @ '')''
      else '' @ offset '' @ dec_u (sp_bit_offset sp div 8) @ '')'']"

definition format_parts :: "bpf_core_spec \<Rightarrow> string list option" where
  "format_parts sp = do {
     t \<leftarrow> btf_type_by_id (sp_btf sp) (unat (sp_root_type_id sp));
     let s = btf__name_by_offset (sp_btf sp) (bt_name_off t);
         head = ''<'' @ core_relo_kind_str (sp_relo_kind sp) @ ''> ['' @
           dec_u (sp_root_type_id sp) @ ''] '' @ btf_kind_str t @ '' '' @
           (if str_is_empty s then ''<anon>'' else the s)
     in if core_relo_is_type_based (sp_relo_kind sp) then Some [head]
        else if core_relo_is_enumval_based (sp_relo_kind sp)
        then map_option (\<lambda>v. [head, v]) (format_enumval sp)
        else if core_relo_is_field_based (sp_relo_kind sp) then Some (head # format_field sp)
        else Some [head] }"

definition bpf_core_format_spec :: "nat \<Rightarrow> bpf_core_spec \<Rightarrow> (nat \<times> string) option" where
  "bpf_core_format_spec buf_sz sp = do {
     parts \<leftarrow> format_parts sp;
     let buf = fold append_buf parts \<lparr>tb_text = [], tb_room = buf_sz, tb_len = 0\<rparr>;
     Some (tb_len buf, tb_text buf) }"

end
