(* ===== verification/Btf_Props.thy ===== *)
theory Btf_Props
  imports Btf
begin

text \<open>
  What libbpf's reading of BTF guarantees: the size of a type is the exact product of its
  dimensions or an error, flavour suffixes are ignored in names, and the candidates for a
  relocation are exactly the types of the same kind and essential name.
\<close>

section \<open>Skipping modifiers\<close>

lemma skip_result:
  assumes ret: "skip_mods_and_typedefs b ti = Some r"
  shows "btf__type_by_id b (snd r) = Some (fst r) \<and> \<not> btf_is_mod (fst r) \<and> \<not> btf_is_typedef (fst r)"
proof (rule skip_mods_and_typedefs.raw_induct
    [where P = "\<lambda>b ti r. btf__type_by_id b (snd r) = Some (fst r) \<and> \<not> btf_is_mod (fst r) \<and>
       \<not> btf_is_typedef (fst r)", OF _ ret])
  fix f b ti and r :: "btf_type \<times> u32"
  assume IH: "\<And>b ti r. f b ti = Some r \<Longrightarrow>
      btf__type_by_id b (snd r) = Some (fst r) \<and> \<not> btf_is_mod (fst r) \<and> \<not> btf_is_typedef (fst r)"
    and eq: "btf__type_by_id b ti \<bind>
      (\<lambda>t. if btf_is_mod t \<or> btf_is_typedef t then f b (bt_type t) else Some (t, ti)) = Some r"
  from eq obtain t where "btf__type_by_id b ti = Some t"
    "(if btf_is_mod t \<or> btf_is_typedef t then f b (bt_type t) else Some (t, ti)) = Some r"
    by (auto simp: bind_eq_Some_conv)
  then show "btf__type_by_id b (snd r) = Some (fst r) \<and> \<not> btf_is_mod (fst r) \<and>
      \<not> btf_is_typedef (fst r)"
    using IH by (auto split: if_splits)
qed

section \<open>Sizes\<close>

text \<open>The dimensions of an array type, outermost first, and the size of its elements.\<close>

fun array_dims :: "nat \<Rightarrow> btf \<Rightarrow> u32 \<Rightarrow> (nat list \<times> nat) option" where
  "array_dims 0 b ti = None"
| "array_dims (Suc i) b ti =
     (case btf__type_by_id b ti of
        None \<Rightarrow> None
      | Some t \<Rightarrow>
          if btf_type_is_void ti t then None
          else if has_size t then Some ([], unat (bt_size t))
          else if btf_is_ptr t then do { p \<leftarrow> btf_ptr_sz b; Some ([], p) }
          else if refers_on t then array_dims i b (bt_type t)
          else if btf_is_array t then do {
            a \<leftarrow> btf_array t;
            (ns, sz) \<leftarrow> array_dims i b (ar_type a);
            Some (unat (ar_nelems a) # ns, sz) }
          else None)"

definition size_or_error :: "nat \<Rightarrow> nat list \<Rightarrow> nat \<Rightarrow> int" where
  "size_or_error n ns sz =
     (if \<exists>k\<in>{..length ns}. 2 ^ 32 \<le> n * prod_list (take k ns) then - E2BIG
      else if 2 ^ 32 \<le> n * prod_list ns * sz then - E2BIG
      else int (n * prod_list ns * sz))"

lemma size_or_error_Cons:
  assumes "n < 2 ^ 32"
  shows "size_or_error n (d # ns) sz =
           (if 2 ^ 32 \<le> n * d then - E2BIG else size_or_error (n * d) ns sz)"
proof -
  have "(\<exists>k\<in>{..length (d # ns)}. 2 ^ 32 \<le> n * prod_list (take k (d # ns))) \<longleftrightarrow>
      (\<exists>k\<in>{..length ns}. 2 ^ 32 \<le> n * d * prod_list (take k ns))" (is "?L \<longleftrightarrow> ?R")
  proof
    assume ?L
    then obtain k where k: "k \<le> Suc (length ns)" "2 ^ 32 \<le> n * prod_list (take k (d # ns))"
      by auto
    with assms show ?R by (cases k) (auto simp: mult.assoc)
  next
    assume ?R
    then obtain k where "k \<le> length ns" "2 ^ 32 \<le> n * d * prod_list (take k ns)" by auto
    then show ?L by (intro bexI [of _ "Suc k"]) (auto simp: mult.assoc)
  qed
  moreover have "(\<exists>k\<in>{..length ns}. 2 ^ 32 \<le> n * d * prod_list (take k ns))"
    if "2 ^ 32 \<le> n * d"
    using that by (intro bexI [of _ 0]) auto
  ultimately show ?thesis by (simp add: size_or_error_def mult.assoc)
qed

lemma uint_max_div:
  fixes n a :: u32
  assumes "n \<noteq> 0"
  shows "UINT32_MAX div n < a \<longleftrightarrow> 2 ^ 32 \<le> unat n * unat a"
    and "uint (UINT32_MAX div n) < int s \<longleftrightarrow> 2 ^ 32 \<le> unat n * s"
proof -
  have n: "0 < unat n" using assms by (simp add: unat_gt_0)
  have m: "unat (UINT32_MAX div n) = (2 ^ 32 - 1) div unat n"
    by (simp add: unat_div UINT32_MAX_def)
  have less: "(2 ^ 32 - 1) div unat n < k \<longleftrightarrow> 2 ^ 32 \<le> unat n * k" for k
    using n by (simp add: div_less_iff_less_mult mult.commute) linarith
  show "UINT32_MAX div n < a \<longleftrightarrow> 2 ^ 32 \<le> unat n * unat a"
    by (simp only: word_less_nat_alt m less)
  show "uint (UINT32_MAX div n) < int s \<longleftrightarrow> 2 ^ 32 \<le> unat n * s"
    by (simp only: uint_nat of_nat_less_iff m less)
qed

lemma resolve_size_done_eq:
  "resolve_size_done n (int s) = size_or_error (unat n) [] s"
proof -
  have "uint n * int s = int (unat n * s)" by (simp only: uint_nat of_nat_mult)
  moreover have "\<not> 2 ^ 32 \<le> unat n" using unat_bound [of n] by simp
  moreover have "n \<noteq> 0 \<and> uint (UINT32_MAX div n) < int s \<longleftrightarrow> 2 ^ 32 \<le> unat n * s"
    by (cases "n = 0") (simp_all add: uint_max_div(2))
  ultimately show ?thesis
    by (simp add: resolve_size_done_def size_or_error_def del: of_nat_mult)
qed

lemma size_or_error_range:
  "size_or_error n ns s \<in> {- EINVAL, - E2BIG} \<or> 0 \<le> size_or_error n ns s \<and> size_or_error n ns s < 2 ^ 32"
proof -
  have "int k < 2 ^ 32" if "\<not> 2 ^ 32 \<le> k" for k :: nat using that by simp
  then show ?thesis by (simp add: size_or_error_def del: of_nat_mult)
qed

lemma resolve_size_loop_dims:
  "array_dims i b ti = Some (ns, sz) \<Longrightarrow>
     resolve_size_loop i b ti n = Some (size_or_error (unat n) ns sz)"
proof (induction i arbitrary: ti n ns)
  case 0
  then show ?case by simp
next
  case (Suc i)
  then obtain t where t: "btf__type_by_id b ti = Some t" "\<not> btf_type_is_void ti t"
    by (auto split: option.splits if_splits)
  consider (sized) "has_size t" | (ptr) "\<not> has_size t" "btf_is_ptr t"
    | (refers) "\<not> has_size t" "\<not> btf_is_ptr t" "refers_on t"
    | (array) "\<not> has_size t" "\<not> btf_is_ptr t" "\<not> refers_on t" "btf_is_array t"
    using Suc.prems t by (auto split: if_splits)
  then show ?case
  proof cases
    case sized
    with Suc.prems t show ?thesis
      using resolve_size_done_eq [of n "unat (bt_size t)"] by (auto simp: uint_nat)
  next
    case ptr
    with Suc.prems t show ?thesis
      using resolve_size_done_eq [of n] by (auto simp: bind_eq_Some_conv)
  next
    case refers
    with Suc t show ?thesis by simp
  next
    case array
    with Suc.prems t obtain a ns' where a: "btf_array t = Some a" "ns = unat (ar_nelems a) # ns'"
        "array_dims i b (ar_type a) = Some (ns', sz)"
      by (auto simp: bind_eq_Some_conv)
    have *: "(n \<noteq> 0 \<and> UINT32_MAX div n < ar_nelems a) \<longleftrightarrow> 2 ^ 32 \<le> unat n * unat (ar_nelems a)"
      by (cases "n = 0") (simp_all add: uint_max_div(1))
    have **: "unat (n * ar_nelems a) = unat n * unat (ar_nelems a)"
      if "\<not> 2 ^ 32 \<le> unat n * unat (ar_nelems a)"
      using that by (simp add: unat_word_ariths)
    from array t a show ?thesis
      using Suc.IH [OF a(3), of "n * ar_nelems a"] unat_bound [of n] * **
      by (auto simp: size_or_error_Cons)
  qed
qed

lemma resolve_size_range:
  "resolve_size_loop i b ti n = Some r \<Longrightarrow> r \<in> {- EINVAL, - E2BIG} \<or> 0 \<le> r \<and> r < 2 ^ 32"
proof (induction i arbitrary: ti n)
  case 0
  then show ?case by (simp add: resolve_size_done_def)
next
  case (Suc i)
  have done_range: "resolve_size_done n (int s) \<in> {- EINVAL, - E2BIG} \<or>
      0 \<le> resolve_size_done n (int s) \<and> resolve_size_done n (int s) < 2 ^ 32" for s
    unfolding resolve_size_done_eq by (rule size_or_error_range)
  have void: "resolve_size_done n (- 1) = - EINVAL" by (simp add: resolve_size_done_def)
  have sized: "resolve_size_done n (uint w) \<in> {- EINVAL, - E2BIG} \<or>
      0 \<le> resolve_size_done n (uint w) \<and> resolve_size_done n (uint w) < 2 ^ 32" for w :: u32
    using done_range [of "unat w"] by simp
  show ?case
  proof (cases "btf__type_by_id b ti")
    case None
    with Suc.prems void show ?thesis by simp
  next
    case (Some t)
    consider (none) "r = resolve_size_done n (- 1) \<or> r = - EINVAL"
      | (sized) "r = resolve_size_done n (uint (bt_size t))"
      | (ptr) p where "r = resolve_size_done n (int p)"
      | (refers) "resolve_size_loop i b (bt_type t) n = Some r"
      | (big) "r = - E2BIG"
      | (array) ti' n' where "resolve_size_loop i b ti' n' = Some r"
      using Suc.prems Some by (fastforce simp: bind_eq_Some_conv split: if_split_asm)
    then show ?thesis
      by cases (use void sized done_range Suc.IH in simp_all)
  qed
qed

section \<open>Names\<close>

lemma find_rev_upt:
  "find P (rev [0..<n]) = Some i \<longleftrightarrow> i < n \<and> P i \<and> (\<forall>j. i < j \<longrightarrow> j < n \<longrightarrow> \<not> P j)"
  by (induction n) (auto simp: less_Suc_eq)

lemma find_rev_upt_None: "find P (rev [0..<n]) = None \<longleftrightarrow> (\<forall>j<n. \<not> P j)"
  by (simp add: find_None_iff)

lemma essential_name_len_le: "bpf_core_essential_name_len s \<le> length s"
  by (auto simp: bpf_core_essential_name_len_def find_rev_upt split: option.splits)

text \<open>The name without its flavour.\<close>

definition essential_name :: "string \<Rightarrow> string" where
  "essential_name s = take (bpf_core_essential_name_len s) s"

lemma length_essential_name [simp]: "length (essential_name s) = bpf_core_essential_name_len s"
  using essential_name_len_le [of s] by (simp add: essential_name_def)

lemma same_essential_name:
  "bpf_core_essential_name_len t = bpf_core_essential_name_len s \<and>
   strncmp_eq (bpf_core_essential_name_len s) s t \<longleftrightarrow> essential_name s = essential_name t"
  by (metis essential_name_def length_essential_name strncmp_eq_def)

definition plain_name :: "string \<Rightarrow> bool" where
  "plain_name s \<longleftrightarrow> (\<forall>i. i + 4 < length s \<longrightarrow> \<not> bpf_core_is_flavor_sep s i)"

lemma essential_plain: "plain_name s \<Longrightarrow> essential_name s = s"
  by (auto simp: essential_name_def bpf_core_essential_name_len_def plain_name_def find_rev_upt
      split: option.splits)

lemma essential_flavored:
  assumes s: "stem \<noteq> []" "last stem \<noteq> CHR ''_''" and f: "f \<noteq> []" "f ! 0 \<noteq> CHR ''_''"
    and plain: "plain_name f"
  shows "essential_name (stem @ ''___'' @ f) = stem"
proof -
  let ?s = "stem @ ''___'' @ f" and ?i = "length stem - 1"
  have i: "?i + 1 = length stem" using s by simp
  have f_nth: "?s ! (length stem + 3 + k) = f ! k" for k
    by (simp add: nth_append)
  have us: "?s ! (length stem) = CHR ''_''" "?s ! (length stem + 1) = CHR ''_''"
    "?s ! (length stem + 2) = CHR ''_''"
    by (simp_all add: nth_append)
  have "?s ! ?i = last stem" using s by (simp add: nth_append last_conv_nth)
  moreover have "?i + 2 = length stem + 1" "?i + 3 = length stem + 2" "?i + 4 = length stem + 3 + 0"
    using i by linarith+
  ultimately have sep: "bpf_core_is_flavor_sep ?s ?i"
    unfolding bpf_core_is_flavor_sep_def using s f us f_nth [of 0] i by (simp only: not_False_eq_True simp_thms)
  have later: "\<not> bpf_core_is_flavor_sep ?s j" if "?i < j" "j < length ?s - 4" for j
  proof (cases "j < length stem + 3")
    case True
    then have "j = length stem \<or> j = length stem + 1 \<or> j = length stem + 2" using that i by linarith
    with us show ?thesis by (auto simp: bpf_core_is_flavor_sep_def)
  next
    case False
    then obtain k where j: "j = length stem + 3 + k" by (metis le_Suc_ex not_less)
    with that have "k + 4 < length f" by simp
    with plain have "\<not> bpf_core_is_flavor_sep f k" by (simp add: plain_name_def)
    then show ?thesis
      using f_nth [of k] f_nth [of "k + 1"] f_nth [of "k + 2"] f_nth [of "k + 3"] f_nth [of "k + 4"]
      by (simp add: bpf_core_is_flavor_sep_def j add.assoc)
  qed
  have "find (bpf_core_is_flavor_sep ?s) (rev [0..<length ?s - 4]) = Some ?i"
    using sep later f s by (auto simp: find_rev_upt neq_Nil_conv)
  then have "bpf_core_essential_name_len ?s = length stem"
    using i by (simp add: bpf_core_essential_name_len_def del: length_append)
  then show ?thesis by (simp add: essential_name_def)
qed

section \<open>Candidates\<close>

definition is_candidate :: "btf_type \<Rightarrow> string \<Rightarrow> btf \<Rightarrow> nat \<Rightarrow> bool" where
  "is_candidate local_t nm targ i =
     (case btf__type_by_id targ (of_nat i) of
        None \<Rightarrow> False
      | Some t \<Rightarrow>
          btf_kind_core_compat t local_t \<and>
          (case btf__name_by_offset targ (bt_name_off t) of
             None \<Rightarrow> False
           | Some s \<Rightarrow> s \<noteq> [] \<and> essential_name s = essential_name nm))"

lemma add_cands_loop_eq:
  assumes "\<And>i. i \<in> set ids \<Longrightarrow> btf__type_by_id targ (of_nat i) \<noteq> None"
  shows "add_cands_loop local_t (Some nm) (bpf_core_essential_name_len nm) targ (\<lambda>_. True) ids cands =
           Some (0, cands @ map (\<lambda>i. \<lparr>cd_btf = targ, cd_id = of_nat i\<rparr>)
                              (filter (is_candidate local_t nm targ) ids))"
  using assms
proof (induction ids arbitrary: cands)
  case Nil
  then show ?case by simp
next
  case (Cons i ids)
  obtain t where t: "btf__type_by_id targ (of_nat i) = Some t" using Cons.prems by fastforce
  have IH: "add_cands_loop local_t (Some nm) (bpf_core_essential_name_len nm) targ (\<lambda>_. True) ids cs =
      Some (0, cs @ map (\<lambda>i. \<lparr>cd_btf = targ, cd_id = of_nat i\<rparr>)
                    (filter (is_candidate local_t nm targ) ids))" for cs
    using Cons by simp
  show ?case
  proof (cases "btf__name_by_offset targ (bt_name_off t)")
    case None
    then show ?thesis by (simp add: t IH is_candidate_def [of _ _ _ i])
  next
    case (Some s)
    have "bpf_core_essential_name_len s = bpf_core_essential_name_len nm \<and>
        strncmp_eq (bpf_core_essential_name_len nm) nm s \<longleftrightarrow> essential_name s = essential_name nm"
      using same_essential_name [of s nm] by auto
    then show ?thesis
      by (cases "s = []"; cases "btf_kind_core_compat t local_t")
        (simp add: t Some IH is_candidate_def [of _ _ _ i], blast?)+
  qed
qed

section \<open>A small BTF object\<close>

text \<open>
  \<open>int\<close>, \<open>int[5]\<close>, \<open>int[3][5]\<close>, and \<open>struct pair___v2 { int a; struct { int b : 3; int c : 5; }; }\<close>
  with its anonymous member struct, the strings at offsets 1, 5, 15, 17 and 19.
\<close>

definition demo_strings :: string where
  "demo_strings =
     [CHR 0x00] @ ''int'' @ [CHR 0x00] @ ''pair___v2'' @ [CHR 0x00] @ ''a'' @ [CHR 0x00] @
     ''b'' @ [CHR 0x00] @ ''c'' @ [CHR 0x00] @ ''0:1:1'' @ [CHR 0x00] @ ''0:0'' @ [CHR 0x00]"

definition demo_btf :: btf where
  "demo_btf = Btf None 1
     [\<lparr>bt_name_off = 1, bt_info = 0x01000000, bt_union = 4, bt_words = [0x20]\<rparr>,
      \<lparr>bt_name_off = 0, bt_info = 0x03000000, bt_union = 0, bt_words = [1, 1, 5]\<rparr>,
      \<lparr>bt_name_off = 0, bt_info = 0x03000000, bt_union = 0, bt_words = [2, 1, 3]\<rparr>,
      \<lparr>bt_name_off = 0, bt_info = 0x84000002, bt_union = 4,
       bt_words = [17, 1, 0x03000000, 19, 1, 0x05000003]\<rparr>,
      \<lparr>bt_name_off = 5, bt_info = 0x84000002, bt_union = 8,
       bt_words = [15, 1, 0, 0, 4, 32]\<rparr>]
     0 demo_strings 8 0 []"

section \<open>Sizes and names\<close>

text \<open>libbpf computes the size of a possibly multi-dimensional array exactly: the result is the
  mathematical product of the dimensions and the element size, unless a partial product or the
  result leaves 32 bits, which is \<open>-E2BIG\<close>; the multiplication never wraps around.\<close>

lemma resolve_size_exact:
  assumes "array_dims MAX_RESOLVE_DEPTH b ti = Some (ns, sz)"
  shows "btf__resolve_size b ti = Some
           (if (\<exists>k\<in>{..length ns}. 2 ^ 32 \<le> prod_list (take k ns)) \<or> 2 ^ 32 \<le> prod_list ns * sz
            then - E2BIG else int (prod_list ns * sz))"
  using resolve_size_loop_dims [OF assms, of 1]
  by (simp add: btf__resolve_size_def size_or_error_def del: of_nat_mult)

lemmas btf_eval =
  btf_kind_def btf_vlen_def btf_kflag_def btf_kinds
  btf_is_int_def btf_is_ptr_def btf_is_array_def btf_is_composite_def btf_is_enum_def
  btf_is_enum64_def btf_is_fwd_def btf_is_typedef_def btf_is_mod_def btf_is_any_enum_def
  btf_kind_core_compat_def btf_word_def btf_array_def btf_members_def
  btf_member_bit_offset_def btf_member_bitfield_size_def btf_int_offset_def
  btf_int_encoding_def has_size_def refers_on_def btf_type_is_void_def str_is_empty_def

lemma demo_type:
  "btf__type_by_id demo_btf 0 = Some btf_void"
  "btf__type_by_id demo_btf 1 =
     Some \<lparr>bt_name_off = 1, bt_info = 0x01000000, bt_union = 4, bt_words = [0x20]\<rparr>"
  "btf__type_by_id demo_btf 2 =
     Some \<lparr>bt_name_off = 0, bt_info = 0x03000000, bt_union = 0, bt_words = [1, 1, 5]\<rparr>"
  "btf__type_by_id demo_btf 3 =
     Some \<lparr>bt_name_off = 0, bt_info = 0x03000000, bt_union = 0, bt_words = [2, 1, 3]\<rparr>"
  "btf__type_by_id demo_btf 4 =
     Some \<lparr>bt_name_off = 0, bt_info = 0x84000002, bt_union = 4,
           bt_words = [17, 1, 0x03000000, 19, 1, 0x05000003]\<rparr>"
  "btf__type_by_id demo_btf 5 =
     Some \<lparr>bt_name_off = 5, bt_info = 0x84000002, bt_union = 8, bt_words = [15, 1, 0, 0, 4, 32]\<rparr>"
  by (simp_all add: demo_btf_def btf__type_by_id_def btf__type_cnt_def)

lemma demo_dims: "array_dims MAX_RESOLVE_DEPTH demo_btf 3 = Some ([3, 5], 4)"
proof -
  have "array_dims (Suc (Suc (Suc n))) demo_btf 3 = Some ([3, 5], 4)" for n
    by (simp add: demo_type btf_eval)
  from this [of 29] show ?thesis by (simp add: MAX_RESOLVE_DEPTH_def)
qed

lemma resolve_size_demo: "btf__resolve_size demo_btf 3 = Some 60"
proof -
  have "{..length [3::nat, 5]} = {0, 1, 2}" by (auto simp: numeral_2_eq_2)
  then show ?thesis
    using resolve_size_exact [OF demo_dims] by (simp add: prod_list.Cons)
qed

text \<open>A flavour suffix is ignored: the essential name of \<open>stem___flavour\<close> is \<open>stem\<close>, and a
  name without a separator is its own essential name.\<close>

lemma flavors_ignored:
  assumes "stem \<noteq> []" "last stem \<noteq> CHR ''_''" "f \<noteq> []" "f ! 0 \<noteq> CHR ''_''"
    and "plain_name f" "plain_name s"
  shows "take (bpf_core_essential_name_len (stem @ ''___'' @ f)) (stem @ ''___'' @ f) = stem \<and>
         bpf_core_essential_name_len s = length s"
  using essential_flavored [OF assms(1-5)] essential_plain [OF assms(6)]
  by (metis essential_name_def length_essential_name)

lemma flavors_ignored_example:
  "take (bpf_core_essential_name_len ''pair___v2'') ''pair___v2'' = ''pair''"
  using flavors_ignored [of "''pair''" "''v2''" "''pair''"]
  by (simp add: plain_name_def bpf_core_is_flavor_sep_def)

text \<open>The candidates for a local type are appended in type order and are exactly the types
  of the target whose kind is compatible and whose name is not empty and has the same essential
  name; enums and 64-bit enums stand for each other.\<close>

lemma candidates_exact:
  assumes "btf__type_by_id (cd_btf c) (cd_id c) = Some local_t"
    and "btf__name_by_offset (cd_btf c) (bt_name_off local_t) = Some nm"
    and "\<And>i. start \<le> i \<Longrightarrow> i < btf__type_cnt targ \<Longrightarrow> btf__type_by_id targ (of_nat i) \<noteq> None"
  shows "bpf_core_add_cands c (bpf_core_essential_name_len nm) targ start (\<lambda>_. True) cands =
           Some (0, cands @ map (\<lambda>i. \<lparr>cd_btf = targ, cd_id = of_nat i\<rparr>)
                              (filter (is_candidate local_t nm targ) [start..<btf__type_cnt targ]))"
proof -
  have "add_cands_loop local_t (Some nm) (bpf_core_essential_name_len nm) targ (\<lambda>_. True)
      [start..<btf__type_cnt targ] cands =
    Some (0, cands @ map (\<lambda>i. \<lparr>cd_btf = targ, cd_id = of_nat i\<rparr>)
                       (filter (is_candidate local_t nm targ) [start..<btf__type_cnt targ]))"
    by (rule add_cands_loop_eq) (use assms(3) in simp)
  then show ?thesis by (simp add: bpf_core_add_cands_def assms)
qed

lemma demo_names:
  "btf__name_by_offset demo_btf 0 = Some []"
  "btf__name_by_offset demo_btf 1 = Some ''int''"
  "btf__name_by_offset demo_btf 5 = Some ''pair___v2''"
  "btf__name_by_offset demo_btf 15 = Some ''a''"
  "btf__name_by_offset demo_btf 17 = Some ''b''"
  "btf__name_by_offset demo_btf 19 = Some ''c''"
  "btf__name_by_offset demo_btf 21 = Some ''0:1:1''"
  "btf__name_by_offset demo_btf 27 = Some ''0:0''"
  by (simp_all add: demo_btf_def btf__name_by_offset_def demo_strings_def)

lemma candidates_on_demo:
  "bpf_core_add_cands \<lparr>cd_btf = demo_btf, cd_id = 1\<rparr> 3 demo_btf 1 (\<lambda>_. True) [] =
     Some (0, [\<lparr>cd_btf = demo_btf, cd_id = 1\<rparr>])"
proof -
  have cnt: "btf__type_cnt demo_btf = 6" by (simp add: demo_btf_def btf__type_cnt_def)
  have "btf__type_by_id demo_btf (of_nat i) \<noteq> None" if "1 \<le> i" "i < 6" for i
  proof -
    from that have "i \<in> {1, 2, 3, 4, 5}" by auto
    then show ?thesis by (auto simp: demo_type)
  qed
  moreover have "bpf_core_essential_name_len ''int'' = 3"
    by (simp add: bpf_core_essential_name_len_def)
  moreover have "[1..<6] = [1, 2, 3, 4, 5 :: nat]" by (simp add: upt_rec)
  ultimately show ?thesis
    using candidates_exact [of "\<lparr>cd_btf = demo_btf, cd_id = 1\<rparr>" _ "''int''" 1 demo_btf "[]"]
    by (simp add: demo_type demo_names cnt is_candidate_def btf_eval)
qed

end
