(* ===== verification/Relo_Props.thy ===== *)
theory Relo_Props
  imports Relo_Patch Btf_Props
begin

text \<open>
  What the values of a CO-RE relocation and the patched instruction guarantee: bitfield reads,
  the immediate and offset written, poisoning, the choice among candidates and the text of a
  specification.
\<close>

section \<open>Bitfields\<close>

lemma load_size_cases:
  "unat (sz :: u32) \<in> {1, 2, 4, 8} \<longleftrightarrow> sz \<in> {1, 2, 4, 8}"
  using word_unat_eq_iff [of sz 1] word_unat_eq_iff [of sz 2] word_unat_eq_iff [of sz 4]
    word_unat_eq_iff [of sz 8] by auto

lemma window_offset:
  fixes bit_off sz :: u32
  shows "unat (bit_off div 8 div sz * sz) = unat bit_off div 8 div unat sz * unat sz"
    and "8 * unat (bit_off div 8 div sz * sz) \<le> unat bit_off"
proof -
  have le: "unat bit_off div 8 div unat sz * unat sz \<le> unat bit_off div 8" by simp
  moreover have "unat bit_off < 2 ^ 32" using unat_bound [of bit_off] by simp
  ultimately have "unat bit_off div 8 div unat sz * unat sz < 2 ^ 32"
    using div_le_dividend [of "unat bit_off" 8] by linarith
  then show eq: "unat (bit_off div 8 div sz * sz) = unat bit_off div 8 div unat sz * unat sz"
    by (simp add: unat_word_ariths(2) unat_div)
  show "8 * unat (bit_off div 8 div sz * sz) \<le> unat bit_off"
    unfolding eq using le by linarith
qed

lemma bitfield_window_fits:
  assumes "bitfield_window bit_off bit_sz sz = Inr (off, n)" and "sz \<in> {1, 2, 4, 8}"
    and "unat bit_off + unat bit_sz < 2 ^ 32"
  shows "n \<in> {1, 2, 4, 8} \<and> unat n dvd unat off \<and> 8 * unat off \<le> unat bit_off \<and>
         unat bit_off + unat bit_sz \<le> 8 * unat off + 8 * unat n"
  using assms
proof (induction bit_off bit_sz sz rule: bitfield_window.induct)
  case (1 bit_off bit_sz sz)
  let ?off = "bit_off div 8 div sz * sz"
  have bytes: "unat (sz * 8) = 8 * unat sz" using "1.prems"(2) by auto
  have off8: "unat (?off * 8) = 8 * unat ?off"
    using window_offset(2) [of bit_off sz] "1.prems"(3) by (simp add: unat_word_ariths)
  have span: "unat (bit_off + bit_sz - ?off * 8) = unat bit_off + unat bit_sz - 8 * unat ?off"
    using window_offset(2) [of bit_off sz] "1.prems"(3) off8
    by (simp add: unat_sub_if' unat_word_ariths(1) word_le_nat_alt)
  show ?case
  proof (cases "sz * 8 < bit_off + bit_sz - ?off * 8")
    case True
    have sz: "\<not> (sz = 0 \<or> 8 \<le> sz)"
    proof
      assume "sz = 0 \<or> 8 \<le> sz"
      with True "1.prems"(1) show False by (subst (asm) bitfield_window.simps) (simp add: Let_def)
    qed
    moreover from this True "1.prems"(1) have "bitfield_window bit_off bit_sz (sz * 2) = Inr (off, n)"
      by (subst (asm) bitfield_window.simps) (simp add: Let_def)
    moreover from sz "1.prems"(2) have "sz * 2 \<in> {1, 2, 4, 8}" by auto
    ultimately show ?thesis using "1.IH" [OF refl True sz] "1.prems"(3) by blast
  next
    case False
    with "1.prems"(1) have r: "off = ?off" "n = sz"
      by (subst (asm) bitfield_window.simps, simp add: Let_def)+
    have "unat bit_off + unat bit_sz - 8 * unat ?off \<le> 8 * unat sz"
      using False by (simp add: word_less_nat_alt span bytes not_less)
    then show ?thesis
      using r "1.prems"(2) window_offset [of bit_off sz] by auto
  qed
qed

lemma bitfield_window_error: "bitfield_window bit_off bit_sz sz = Inl err \<Longrightarrow> err = - E2BIG"
proof (induction bit_off bit_sz sz rule: bitfield_window.induct)
  case (1 bit_off bit_sz sz)
  from "1.prems" show ?case
    by (subst (asm) bitfield_window.simps) (auto simp: Let_def split: if_split_asm dest: "1.IH" [OF refl])
qed

lemma shifted_window:
  fixes M :: nat
  assumes fits: "8 * off \<le> bo" "bo + bs \<le> 8 * off + 8 * n" "n \<le> 8"
    and l: "l = 64 - (bo + bs - 8 * off)" and r: "r = 64 - bs"
  shows "drop_bit r (push_bit l (of_nat (take_bit (8 * n) (drop_bit (8 * off) M)) :: u64)) =
         of_nat (take_bit bs (drop_bit bo M))"
proof (rule bit_word_eqI)
  fix k assume "k < LENGTH(64)"
  have lr: "r + (8 * off) = l + bo" "l \<le> r" "r \<le> 64" "bs \<le> 64" using assms by auto
  have idx: "8 * off + (r + k - l) = bo + k" "r + k - l < 8 * n \<longleftrightarrow> r + k - l < 8 * n"
    using lr fits(1) by auto
  have b: "bit (push_bit l (of_nat (take_bit (8 * n) (drop_bit (8 * off) M)) :: u64)) (r + k) \<longleftrightarrow>
      r + k < 64 \<and> r + k - l < 8 * n \<and> bit M (bo + k)"
    using lr idx by (auto simp: bit_push_bit_iff bit_of_nat_iff bit_take_bit_iff bit_drop_bit_eq)
  have "r + k < 64 \<longleftrightarrow> k < bs" using lr r by auto
  moreover have "r + k - l < 8 * n" if "k < bs" using that lr fits by linarith
  ultimately show "bit (drop_bit r (push_bit l
      (of_nat (take_bit (8 * n) (drop_bit (8 * off) M)) :: u64))) k =
    bit (of_nat (take_bit bs (drop_bit bo M)) :: u64) k"
    using b lr by (auto simp: bit_drop_bit_eq bit_of_nat_iff bit_take_bit_iff)
qed

definition empty_val :: relo_val where
  "empty_val = \<lparr>rv_val = 0, rv_sz = 0, rv_type_id = 0\<rparr>"

lemma empty_val_sz: "empty_val\<lparr>rv_sz := 0\<rparr> = empty_val"
  by (simp add: empty_val_def)

definition field_value :: "bpf_core_relo_kind \<Rightarrow> bpf_core_spec \<Rightarrow> u64 option" where
  "field_value kind sp =
     (case bpf_core_calc_field_relo kind (Some sp) empty_val True of
        Some (err, rv, _) \<Rightarrow> if err = 0 then Some (rv_val rv) else None
      | None \<Rightarrow> None)"

text \<open>C31. The four values relocated for a bitfield read it exactly: loading \<open>size\<close> bytes at
  \<open>offset\<close> and shifting left and then right by the two shifts gives the bits of the field, for any
  contents of the memory (\<open>M\<close>, little endian), and the load is of one of the sizes of the
  machine at an aligned offset.\<close>

theorem bitfield_read_exact:
  assumes "sp_spec sp \<noteq> []" "ac_name (last (sp_spec sp)) \<noteq> None"
    and "btf_type_by_id (sp_btf sp) (unat (ac_type_id (last (sp_spec sp)))) = Some t"
    and "btf_members t (ac_idx (last (sp_spec sp))) = Some m"
    and "skip_mods_and_typedefs (sp_btf sp) (mb_type m) = Some (mt, fti)"
    and "btf_member_bitfield_size t (ac_idx (last (sp_spec sp))) = Some bits" "0 < bits"
    and "bt_size mt \<in> {1, 2, 4, 8}" "unat (sp_bit_offset sp) + unat bits < 2 ^ 32"
    and "field_value BPF_CORE_FIELD_BYTE_OFFSET sp = Some off"
  shows "\<exists>n l r. field_value BPF_CORE_FIELD_BYTE_SIZE sp = Some n \<and>
           field_value BPF_CORE_FIELD_LSHIFT_U64 sp = Some l \<and>
           field_value BPF_CORE_FIELD_RSHIFT_U64 sp = Some r \<and>
           n \<in> {1, 2, 4, 8} \<and> unat n dvd unat off \<and>
           drop_bit (unat r) (push_bit (unat l)
             (of_nat (take_bit (8 * unat n) (drop_bit (8 * unat off) M)) :: u64)) =
           of_nat (take_bit (unat bits) (drop_bit (unat (sp_bit_offset sp)) M))"
proof -
  let ?bo = "sp_bit_offset sp"
  have no_zero: "bt_size mt \<noteq> 0" using assms(8) by auto
  have window: "member_extent sp t (ac_idx (last (sp_spec sp))) mt fti =
      Some (case bitfield_window ?bo bits (bt_size mt) of
              Inl err \<Rightarrow> Inl err | Inr (byte_off, byte_sz) \<Rightarrow> Inr (byte_off, byte_sz, bits, True))"
    using assms no_zero by (simp add: member_extent_def)
  have calc: "bpf_core_calc_field_relo k (Some sp) empty_val True =
      member_relo k sp t (last (sp_spec sp)) empty_val True"
    if "k \<noteq> BPF_CORE_FIELD_EXISTS" for k
    using that assms(1-3) by (auto simp: bpf_core_calc_field_relo_def Let_def empty_val_sz)
  obtain o32 n32 where w: "bitfield_window ?bo bits (bt_size mt) = Inr (o32, n32)"
    and off: "off = ucast o32"
    using assms(10)
    by (auto simp: field_value_def calc member_relo_def assms(4,5) window
        split: sum.splits if_split_asm dest: bitfield_window_error)
  from bitfield_window_fits [OF w assms(8,9)]
  have n: "n32 \<in> {1, 2, 4, 8}" and dvd: "unat n32 dvd unat o32"
    and low: "8 * unat o32 \<le> unat ?bo" and high: "unat ?bo + unat bits \<le> 8 * unat o32 + 8 * unat n32"
    by simp_all
  have n8: "unat n32 \<le> 8" using n by auto
  have off8: "unat (o32 * 8) = 8 * unat o32"
    using low assms(9) by (simp add: unat_word_ariths)
  have e: "unat (?bo + bits - o32 * 8) = unat ?bo + unat bits - 8 * unat o32"
    using low assms(9) off8 by (simp add: unat_sub_if' unat_word_ariths(1))
  have l: "unat (64 - (?bo + bits - o32 * 8)) = 64 - (unat ?bo + unat bits - 8 * unat o32)"
    using e high n8 by (simp add: unat_sub_if')
  have r: "unat (64 - bits) = 64 - unat bits"
    using low high n8 by (simp add: unat_sub_if')
  have v: "field_value BPF_CORE_FIELD_BYTE_SIZE sp = Some (ucast n32)"
    "field_value BPF_CORE_FIELD_LSHIFT_U64 sp = Some (ucast (64 - (?bo + bits - o32 * 8)))"
    "field_value BPF_CORE_FIELD_RSHIFT_U64 sp = Some (ucast (64 - bits))"
    by (simp_all add: field_value_def calc member_relo_def assms(4,5) window w)
  have up: "unat (ucast w :: u64) = unat w" for w :: u32
    using unat_bound [of w] by (simp add: unsigned_ucast_eq take_bit_eq_mod)
  have "ucast n32 \<in> {1, 2, 4, 8 :: u64}" using n by auto
  with v dvd show ?thesis
    using shifted_window [OF low high n8 refl refl, of M]
    by (simp add: off up l r)
qed

lemma demo_skip:
  "skip_mods_and_typedefs demo_btf 1 =
     Some (\<lparr>bt_name_off = 1, bt_info = 0x01000000, bt_union = 4, bt_words = [0x20]\<rparr>, 1)"
  "skip_mods_and_typedefs demo_btf 4 =
     Some (\<lparr>bt_name_off = 0, bt_info = 0x84000002, bt_union = 4,
            bt_words = [17, 1, 0x03000000, 19, 1, 0x05000003]\<rparr>, 4)"
  "skip_mods_and_typedefs demo_btf 5 =
     Some (\<lparr>bt_name_off = 5, bt_info = 0x84000002, bt_union = 8,
            bt_words = [15, 1, 0, 0, 4, 32]\<rparr>, 5)"
  by (subst skip_mods_and_typedefs.simps, simp add: demo_type btf_eval)+

lemma demo_by_id:
  "btf_type_by_id demo_btf 1 = btf__type_by_id demo_btf 1"
  "btf_type_by_id demo_btf 4 = btf__type_by_id demo_btf 4"
  "btf_type_by_id demo_btf 5 = btf__type_by_id demo_btf 5"
  by (simp_all add: demo_btf_def btf__type_by_id_def btf__type_cnt_def)

definition demo_field :: bpf_core_spec where
  "demo_field =
     \<lparr>sp_btf = demo_btf,
      sp_spec = [\<lparr>ac_type_id = 5, ac_idx = 0, ac_name = None\<rparr>,
                 \<lparr>ac_type_id = 4, ac_idx = 1, ac_name = Some ''c''\<rparr>],
      sp_root_type_id = 5, sp_relo_kind = BPF_CORE_FIELD_BYTE_OFFSET, sp_raw = [0, 1, 1],
      sp_bit_offset = 35\<rparr>"

theorem bitfield_read_exact_witness:
  "\<exists>n l r. field_value BPF_CORE_FIELD_BYTE_SIZE demo_field = Some n \<and>
     field_value BPF_CORE_FIELD_LSHIFT_U64 demo_field = Some l \<and>
     field_value BPF_CORE_FIELD_RSHIFT_U64 demo_field = Some r \<and>
     drop_bit (unat r) (push_bit (unat l)
       (of_nat (take_bit (8 * unat n) (drop_bit 32 0xA800000000)) :: u64)) = 21"
proof -
  have off: "field_value BPF_CORE_FIELD_BYTE_OFFSET demo_field = Some 4"
    by (simp add: field_value_def bpf_core_calc_field_relo_def demo_field_def demo_by_id demo_type
        member_relo_def member_extent_def demo_skip btf_eval bitfield_window.simps empty_val_def
        Let_def)
  have "sp_btf demo_field = demo_btf" "sp_bit_offset demo_field = 35"
    "sp_spec demo_field = [\<lparr>ac_type_id = 5, ac_idx = 0, ac_name = None\<rparr>,
                           \<lparr>ac_type_id = 4, ac_idx = 1, ac_name = Some ''c''\<rparr>]"
    by (simp_all add: demo_field_def)
  with off show ?thesis
    using bitfield_read_exact [where sp = demo_field and off = 4 and M = "0xA800000000" and bits = 5
        and fti = 1 and m = "\<lparr>mb_name_off = 19, mb_type = 1, mb_offset = 0x05000003\<rparr>"
        and t = "\<lparr>bt_name_off = 0, bt_info = 0x84000002, bt_union = 4,
                   bt_words = [17, 1, 0x03000000, 19, 1, 0x05000003]\<rparr>"
        and mt = "\<lparr>bt_name_off = 1, bt_info = 0x01000000, bt_union = 4, bt_words = [0x20]\<rparr>"]
    by (auto simp: demo_by_id demo_type demo_skip btf_eval)
qed

end
