(* ===== verification/Patch_Props.thy ===== *)
theory Patch_Props
  imports Relo_Patch
begin

text \<open>
  What patching an instruction, choosing among the candidate types and printing a specification
  guarantee.
\<close>

section \<open>The patched operand\<close>

text \<open>The number an instruction's relocatable operand stands for.\<close>

definition operand :: "bpf_insn list \<Rightarrow> nat \<Rightarrow> u64 option" where
  "operand prog i =
     (let insn = prog ! i; cls = BPF_CLASS (in_code insn)
      in if length prog \<le> i then None
         else if cls = BPF_ALU \<or> cls = BPF_ALU64 then Some (scast (in_imm insn))
         else if cls = BPF_LDX \<or> cls = BPF_ST \<or> cls = BPF_STX then Some (scast (in_off insn))
         else if is_ldimm64_insn insn \<and> i + 1 < length prog
         then Some (ucast (in_imm insn) OR push_bit 32 (scast (in_imm (prog ! (i + 1)))))
         else None)"

lemma small_word_bits:
  assumes "unat (n :: u64) < 2 ^ m" and "m \<le> j"
  shows "\<not> bit n j"
proof -
  have "unat (take_bit m n) = unat n"
    using assms(1) by (simp add: unsigned_take_bit_eq take_bit_nat_eq_self)
  then have "take_bit m n = n" by (simp only: word_unat_eq_iff)
  with assms(2) show ?thesis by (metis bit_take_bit_iff not_less)
qed

lemma scast_ucast_small:
  assumes "unat (n :: u64) < 2 ^ 31"
  shows "scast (ucast n :: i32) = n"
proof (rule bit_word_eqI)
  fix k assume "k < LENGTH(64)"
  then show "bit (scast (ucast n :: i32) :: u64) k \<longleftrightarrow> bit n k"
    using small_word_bits [OF assms] by (cases "k < 31") (auto simp: bit_simps)
qed

lemma scast_ucast_small16:
  assumes "unat (n :: u64) < 2 ^ 15"
  shows "scast (ucast n :: i16) = n"
proof (rule bit_word_eqI)
  fix k assume "k < LENGTH(64)"
  then show "bit (scast (ucast n :: i16) :: u64) k \<longleftrightarrow> bit n k"
    using small_word_bits [OF assms] by (cases "k < 15") (auto simp: bit_simps)
qed

lemma halves_join:
  fixes n :: u64
  shows "ucast (ucast n :: i32) OR push_bit 32 (scast (ucast (drop_bit 32 n) :: i32)) = n"
proof (rule bit_word_eqI)
  fix k assume "k < LENGTH(64)"
  then show "bit (ucast (ucast n :: i32) OR push_bit 32 (scast (ucast (drop_bit 32 n) :: i32)) :: u64) k
      \<longleftrightarrow> bit n k"
    by (cases "k < 32"; cases "k = 63") (auto simp: bit_simps not_less)
qed

lemma class_kept:
  "s \<in> {BPF_DW, BPF_W, BPF_H, BPF_B} \<Longrightarrow> BPF_CLASS (BPF_MODE c OR s OR BPF_CLASS c) = BPF_CLASS c"
  "s \<in> {BPF_DW, BPF_W, BPF_H, BPF_B} \<Longrightarrow> BPF_SIZE (BPF_MODE c OR s OR BPF_CLASS c) = s"
  "s \<in> {BPF_DW, BPF_W, BPF_H, BPF_B} \<Longrightarrow> BPF_MODE (BPF_MODE c OR s OR BPF_CLASS c) = BPF_MODE c"
  by (auto simp: insn_consts bit.conj_disj_distrib2 and.assoc)

definition is_mem_class :: "u8 \<Rightarrow> bool" where
  "is_mem_class cls \<longleftrightarrow> cls = BPF_LDX \<or> cls = BPF_ST \<or> cls = BPF_STX"

definition is_alu_class :: "u8 \<Rightarrow> bool" where
  "is_alu_class cls \<longleftrightarrow> cls = BPF_ALU \<or> cls = BPF_ALU64"

lemma class_distinct:
  "is_mem_class c \<Longrightarrow> \<not> is_alu_class c" "is_mem_class c \<Longrightarrow> c \<noteq> BPF_LD"
  "is_alu_class c \<Longrightarrow> c \<noteq> BPF_LD"
  by (auto simp: is_mem_class_def is_alu_class_def insn_consts)

lemma operand_eq:
  "operand prog i =
     (if length prog \<le> i then None
      else if is_alu_class (BPF_CLASS (in_code (prog ! i))) then Some (scast (in_imm (prog ! i)))
      else if is_mem_class (BPF_CLASS (in_code (prog ! i))) then Some (scast (in_off (prog ! i)))
      else if is_ldimm64_insn (prog ! i) \<and> i + 1 < length prog
      then Some (ucast (in_imm (prog ! i)) OR push_bit 32 (scast (in_imm (prog ! (i + 1)))))
      else None)"
  by (simp add: operand_def is_alu_class_def is_mem_class_def Let_def)

lemma ldimm64_class: "is_ldimm64_insn insn \<Longrightarrow> BPF_CLASS (in_code insn) = BPF_LD"
  by (simp add: is_ldimm64_insn_def insn_consts)

lemma bytes_roundtrip:
  "insn_bytes_to_bpf_size n = Some s \<Longrightarrow> s \<in> {BPF_DW, BPF_W, BPF_H, BPF_B}"
  "insn_bytes_to_bpf_size n = Some s \<Longrightarrow> BPF_SIZE (in_code insn) = s \<Longrightarrow>
     insn_bpf_size_to_bytes insn = n"
  by (auto simp: insn_bytes_to_bpf_size_def insn_bpf_size_to_bytes_def insn_consts split: if_splits)

lemma patch_mem_size_ok:
  assumes "patch_mem_size res insn = (0, insn')"
  shows "in_off insn' = in_off insn" "in_imm insn' = in_imm insn" "in_dst_reg insn' = in_dst_reg insn"
    "in_src_reg insn' = in_src_reg insn" "BPF_CLASS (in_code insn') = BPF_CLASS (in_code insn)"
    "BPF_MODE (in_code insn') = BPF_MODE (in_code insn)"
    "rr_new_sz res \<noteq> rr_orig_sz res \<Longrightarrow> insn_bpf_size_to_bytes insn' = rr_new_sz res"
proof -
  from assms consider (same) "rr_new_sz res = rr_orig_sz res" "insn' = insn"
    | (new) s where "insn_bytes_to_bpf_size (rr_new_sz res) = Some s"
        "insn' = insn\<lparr>in_code := BPF_MODE (in_code insn) OR s OR BPF_CLASS (in_code insn)\<rparr>"
    by (auto simp: patch_mem_size_def split: if_splits option.splits)
  then have "in_off insn' = in_off insn \<and> in_imm insn' = in_imm insn \<and>
    in_dst_reg insn' = in_dst_reg insn \<and> in_src_reg insn' = in_src_reg insn \<and>
    BPF_CLASS (in_code insn') = BPF_CLASS (in_code insn) \<and>
    BPF_MODE (in_code insn') = BPF_MODE (in_code insn) \<and>
    (rr_new_sz res \<noteq> rr_orig_sz res \<longrightarrow> insn_bpf_size_to_bytes insn' = rr_new_sz res)"
  proof cases
    case same
    then show ?thesis by simp
  next
    case (new s)
    then show ?thesis
      using bytes_roundtrip [OF new(1)] by (simp add: class_kept)
  qed
  then show "in_off insn' = in_off insn" "in_imm insn' = in_imm insn"
    "in_dst_reg insn' = in_dst_reg insn" "in_src_reg insn' = in_src_reg insn"
    "BPF_CLASS (in_code insn') = BPF_CLASS (in_code insn)"
    "BPF_MODE (in_code insn') = BPF_MODE (in_code insn)"
    "rr_new_sz res \<noteq> rr_orig_sz res \<Longrightarrow> insn_bpf_size_to_bytes insn' = rr_new_sz res"
    by simp_all
qed

text \<open>The four ways a relocation that is not poisoned patches an instruction.\<close>

lemma patch_cases:
  assumes "bpf_core_patch_insn res i prog = Some (0, prog')" "\<not> rr_poison res"
    and "\<not> rr_fail_memsz_adjust res"
  obtains
    (alu) "is_alu_class (BPF_CLASS (in_code (prog ! i)))"
      "rr_validate res \<longrightarrow> scast (in_imm (prog ! i)) = rr_orig_val res"
      "prog' = prog[i := (prog ! i)\<lparr>in_imm := ucast (rr_new_val res)\<rparr>]"
  | (mem) insn' where "is_mem_class (BPF_CLASS (in_code (prog ! i)))"
      "rr_validate res \<longrightarrow> scast (in_off (prog ! i)) = rr_orig_val res"
      "rr_new_val res \<le> SHRT_MAX" "prog' = prog[i := insn']"
      "patch_mem_size res ((prog ! i)\<lparr>in_off := ucast (rr_new_val res)\<rparr>) = (0, insn')"
  | (imm64) "is_ldimm64_insn (prog ! i)" "i + 1 < length prog"
      "rr_validate res \<longrightarrow> operand prog i = Some (rr_orig_val res)"
      "prog' = prog[i := (prog ! i)\<lparr>in_imm := ucast (rr_new_val res)\<rparr>,
                    i + 1 := (prog ! (i + 1))\<lparr>in_imm := ucast (drop_bit 32 (rr_new_val res))\<rparr>]"
proof -
  let ?cls = "BPF_CLASS (in_code (prog ! i))"
  have i: "i < length prog" using assms(1) by (auto simp: bpf_core_patch_insn_def split: if_splits)
  consider "is_alu_class ?cls" | "is_mem_class ?cls" | "\<not> is_alu_class ?cls" "\<not> is_mem_class ?cls"
    by blast
  then show thesis
  proof cases
    case 1
    then show thesis using assms i alu
      by (auto simp: bpf_core_patch_insn_def patch_alu_def is_alu_class_def Let_def split: if_splits)
  next
    case 2
    with class_distinct(1) have "\<not> is_alu_class ?cls" by blast
    with 2 show thesis using assms i mem
      by (auto simp: bpf_core_patch_insn_def is_mem_class_def is_alu_class_def Let_def not_less
          split: if_splits prod.splits)
  next
    case 3
    with assms i have p: "patch_ldimm64 res i prog = Some (0, prog')"
      by (auto simp: bpf_core_patch_insn_def is_mem_class_def is_alu_class_def Let_def split: if_splits)
    then have "is_ldimm64_insn (prog ! i)" "i + 1 < length prog"
      by (auto simp: patch_ldimm64_def Let_def split: if_splits)
    with p 3 show thesis using imm64 i
      by (auto simp: patch_ldimm64_def operand_eq Let_def split: if_splits)
  qed
qed


definition demo_res :: bpf_core_relo_res where
  "demo_res = (zero_res True)\<lparr>rr_orig_val := 8, rr_new_val := 24, rr_orig_sz := 8, rr_new_sz := 4\<rparr>"

text \<open>\<open>r1 = *(u64 *)(r2 + 8)\<close>.\<close>

definition demo_load :: bpf_insn where
  "demo_load = \<lparr>in_code = 0x79, in_dst_reg = 1, in_src_reg = 2, in_off = 8, in_imm = 0\<rparr>"

lemma demo_patch:
  "bpf_core_patch_insn demo_res 0 [demo_load] =
     Some (0, [\<lparr>in_code = 0x61, in_dst_reg = 1, in_src_reg = 2, in_off = 24, in_imm = 0\<rparr>])"
  by (simp add: bpf_core_patch_insn_def demo_res_def zero_res_def demo_load_def insn_consts
      patch_mem_size_def insn_bpf_size_to_bytes_def insn_bytes_to_bpf_size_def)


text \<open>C26. A refused patch reports \<open>-EINVAL\<close> or \<open>-ERANGE\<close> and leaves the program as it was, with one
  exception: when only the size of a load or store cannot be adjusted, its offset has already been
  overwritten.\<close>

theorem patch_error:
  assumes "bpf_core_patch_insn res i prog = Some (err, prog')" "err \<noteq> 0"
  shows "err \<in> {- EINVAL, - ERANGE} \<and> \<not> rr_poison res \<and>
         (prog' = prog \<or>
          is_mem_class (BPF_CLASS (in_code (prog ! i))) \<and> rr_new_sz res \<noteq> rr_orig_sz res \<and>
          prog' = prog[i := (prog ! i)\<lparr>in_off := ucast (rr_new_val res)\<rparr>])"
proof -
  let ?cls = "BPF_CLASS (in_code (prog ! i))"
  have i: "i < length prog" using assms(1) by (auto simp: bpf_core_patch_insn_def split: if_splits)
  have poison: "poison_at i prog = Some (e, p) \<Longrightarrow> e = 0" for e p
    by (auto simp: poison_at_def bind_eq_Some_conv)
  consider "is_alu_class ?cls" | "is_mem_class ?cls" | "\<not> is_alu_class ?cls" "\<not> is_mem_class ?cls"
    by blast
  then show ?thesis
  proof cases
    case 1
    with assms i poison show ?thesis
      by (auto simp: bpf_core_patch_insn_def patch_alu_def is_alu_class_def Let_def split: if_splits)
  next
    case 2
    with class_distinct(1) have "\<not> is_alu_class ?cls" by blast
    with 2 assms i poison show ?thesis
      by (auto simp: bpf_core_patch_insn_def is_mem_class_def is_alu_class_def Let_def
          patch_mem_size_def split: if_splits prod.splits option.splits)
  next
    case 3
    with assms i poison show ?thesis
      by (auto simp: bpf_core_patch_insn_def is_mem_class_def is_alu_class_def Let_def
          patch_ldimm64_def split: if_splits)
  qed
qed

theorem patch_error_witness:
  "\<exists>prog'. bpf_core_patch_insn (demo_res\<lparr>rr_orig_sz := 2\<rparr>) 0 [demo_load] = Some (- EINVAL, prog') \<and>
     prog' = [demo_load\<lparr>in_off := 24\<rparr>]"
proof -
  have "bpf_core_patch_insn (demo_res\<lparr>rr_orig_sz := 2\<rparr>) 0 [demo_load] =
      Some (- EINVAL, [demo_load\<lparr>in_off := 24\<rparr>])"
    by (simp add: bpf_core_patch_insn_def demo_res_def zero_res_def demo_load_def insn_consts
        patch_mem_size_def insn_bpf_size_to_bytes_def insn_bytes_to_bpf_size_def)
  with patch_error [OF this] show ?thesis by simp
qed

section \<open>Candidates\<close>

text \<open>Whether a candidate matches, and the relocation and bit offset it asks for.\<close>

definition cand_matches :: "bpf_core_spec \<Rightarrow> core_cand \<Rightarrow> bool" where
  "cand_matches sp c =
     (case bpf_core_spec_match sp (cd_btf c) (cd_id c) of Some (r, _) \<Rightarrow> 0 < r | None \<Rightarrow> False)"

definition cand_relo ::
    "bpf_core_relo_kind \<Rightarrow> bpf_core_spec \<Rightarrow> core_cand \<Rightarrow> (bpf_core_relo_res \<times> u32) option" where
  "cand_relo kind sp c = do {
     (_, targ) \<leftarrow> bpf_core_spec_match sp (cd_btf c) (cd_id c);
     (err, res) \<leftarrow> bpf_core_calc_relo kind sp (Some targ);
     if err = 0 then Some (res, sp_bit_offset targ) else None }"

definition agrees ::
    "bpf_core_relo_kind \<Rightarrow> bpf_core_spec \<Rightarrow> bpf_core_relo_res \<Rightarrow> u32 \<Rightarrow> core_cand \<Rightarrow> bool" where
  "agrees kind sp res off c \<longleftrightarrow>
     (\<exists>r. cand_relo kind sp c = Some (r, off) \<and> rr_poison r = rr_poison res \<and>
          rr_new_val r = rr_new_val res)"

definition choice_ok ::
    "bpf_core_relo_kind \<Rightarrow> bpf_core_spec \<Rightarrow> core_cand list \<Rightarrow>
     (bpf_core_relo_res \<times> bpf_core_spec) option \<Rightarrow> bool" where
  "choice_ok kind sp ms best \<longleftrightarrow>
     (case best of
        None \<Rightarrow> ms = []
      | Some (res, targ) \<Rightarrow>
          ms \<noteq> [] \<and> cand_relo kind sp (hd ms) = Some (res, sp_bit_offset targ) \<and>
          (\<forall>c\<in>set ms. agrees kind sp res (sp_bit_offset targ) c))"

lemma choice_ok_none [simp]: "choice_ok kind sp [] None"
  by (simp add: choice_ok_def)

lemma cands_loop_ok:
  assumes "cands_loop kind sp [i..<n] cs j best = Some (0, cs', j', best')"
    and "i \<le> n" "length cs = n" "length orig = n" "j \<le> i" "drop i cs = drop i orig"
    and "take j cs = filter (cand_matches sp) (take i orig)" "j = 0 \<longrightarrow> cs = orig"
    and "choice_ok kind sp (take j cs) best"
  shows "take j' cs' = filter (cand_matches sp) orig \<and> (j' = 0 \<longrightarrow> cs' = orig) \<and> length cs' = n \<and> j' \<le> n \<and>
         (\<exists>b. best' = map_option fst b \<and> choice_ok kind sp (take j' cs') b)"
  using assms
proof (induction "n - i" arbitrary: i cs j best)
  case 0
  then show ?case by auto
next
  case (Suc k)
  then have i: "i < n" "[i..<n] = i # [Suc i..<n]" by (simp_all add: upt_conv_Cons)
  have nth: "cs ! i = orig ! i" using Suc.prems i by (metis hd_drop_conv_nth)
  have drop: "drop (Suc i) cs = drop (Suc i) orig" using Suc.prems(6) by (metis drop_Suc tl_drop)
  have tk: "take (Suc i) orig = take i orig @ [orig ! i]"
    using i Suc.prems by (simp add: take_Suc_conv_app_nth)
  from Suc.prems(1) i obtain r targ where
    m: "bpf_core_spec_match sp (cd_btf (orig ! i)) (cd_id (orig ! i)) = Some (r, targ)"
    by (auto simp: nth bind_eq_Some_conv)
  have "\<not> r < 0" using Suc.prems(1) i m by (auto simp: nth)
  then consider (no) "r = 0" | (yes) "0 < r" by linarith
  then show ?case
  proof cases
    case no
    then have "\<not> cand_matches sp (orig ! i)" by (simp add: cand_matches_def m)
    moreover have "cands_loop kind sp [Suc i..<n] cs j best = Some (0, cs', j', best')"
      using Suc.prems(1) i m no by (simp add: nth)
    ultimately show ?thesis
      using Suc.prems Suc.hyps(2) i drop tk by (intro Suc.hyps(1) [of "Suc i" cs j best]) auto
  next
    case yes
    then have match: "cand_matches sp (orig ! i)" by (simp add: cand_matches_def m)
    from Suc.prems(1) i m yes obtain res where
      c: "bpf_core_calc_relo kind sp (Some targ) = Some (0, res)"
      by (auto simp: nth bind_eq_Some_conv split: if_splits)
    then have relo: "cand_relo kind sp (orig ! i) = Some (res, sp_bit_offset targ)"
      by (simp add: cand_relo_def m)
    let ?cs = "cs[j := orig ! i]"
    have j: "j < length cs" using Suc.prems i by simp
    have take: "take (Suc j) ?cs = take j cs @ [orig ! i]" using j by (simp add: take_Suc_conv_app_nth)
    then have f: "take (Suc j) ?cs = filter (cand_matches sp) (take (Suc i) orig)"
      using Suc.prems(7) tk match by simp
    have d: "drop (Suc i) ?cs = drop (Suc i) orig" using drop Suc.prems(5) by simp
    show ?thesis
    proof (cases best)
      case None
      with Suc.prems(9) have "take j cs = []" by (simp add: choice_ok_def)
      then have ok: "choice_ok kind sp (take (Suc j) ?cs) (Some (res, targ))"
        using take relo by (auto simp: choice_ok_def agrees_def)
      have "cands_loop kind sp [Suc i..<n] ?cs (Suc j) (Some (res, targ)) = Some (0, cs', j', best')"
        using Suc.prems(1) i m yes c None by (simp add: nth)
      then show ?thesis
        using Suc.prems Suc.hyps(2) i d f ok by (intro Suc.hyps(1) [of "Suc i" ?cs "Suc j"]) auto
    next
      case (Some b)
      obtain res0 targ0 where b: "b = (res0, targ0)" by fastforce
      have same: "sp_bit_offset targ = sp_bit_offset targ0" "rr_poison res = rr_poison res0"
        "rr_new_val res = rr_new_val res0"
        and rest: "cands_loop kind sp [Suc i..<n] ?cs (Suc j) best = Some (0, cs', j', best')"
        using Suc.prems(1) i m yes c Some b by (auto simp: nth split: if_splits)
      have ok: "choice_ok kind sp (take (Suc j) ?cs) best"
        using Suc.prems(9) take relo same Some b by (auto simp: choice_ok_def agrees_def)
      show ?thesis
        using Suc.prems Suc.hyps(2) i d f ok rest by (intro Suc.hyps(1) [of "Suc i" ?cs "Suc j" best]) auto
    qed
  qed
qed

section \<open>The text of a specification\<close>

lemma append_bufs:
  "fold append_buf parts
     \<lparr>tb_text = take (n - 1) s, tb_room = n - min (length s) n, tb_len = length s\<rparr> =
   \<lparr>tb_text = take (n - 1) (s @ concat parts), tb_room = n - min (length (s @ concat parts)) n,
    tb_len = length (s @ concat parts)\<rparr>"
proof (induction parts arbitrary: s)
  case Nil
  then show ?case by simp
next
  case (Cons p parts)
  have "append_buf p \<lparr>tb_text = take (n - 1) s, tb_room = n - min (length s) n, tb_len = length s\<rparr> =
    \<lparr>tb_text = take (n - 1) (s @ p), tb_room = n - min (length (s @ p)) n, tb_len = length (s @ p)\<rparr>"
    by (auto simp: append_buf_def min_def)
  then show ?case using Cons.IH [of "s @ p"] by simp
qed

end
