(* ===== verification/Match_Props.thy ===== *)
theory Match_Props
  imports Relo_Props Patch_Props
begin

text \<open>
  Matching a local field specification against a target type: what the search through anonymous
  members finds, that its fuel is enough, and that a match is the specification that parsing its
  own access path on the target gives.
\<close>

section \<open>Fields of a type\<close>

text \<open>The paths of member indices that lead from a type, through anonymous members, to a member
  of the given name.\<close>

inductive named_path :: "btf \<Rightarrow> u32 \<Rightarrow> string \<Rightarrow> nat list \<Rightarrow> bool" for b where
  direct: "skip_mods_and_typedefs b ti = Some (t, ti') \<Longrightarrow> btf_is_composite t \<Longrightarrow> i < btf_vlen t \<Longrightarrow>
     btf_members t i = Some m \<Longrightarrow> btf__name_by_offset b (mb_name_off m) = Some nm \<Longrightarrow> nm \<noteq> [] \<Longrightarrow>
     named_path b ti nm [i]"
| nested: "skip_mods_and_typedefs b ti = Some (t, ti') \<Longrightarrow> btf_is_composite t \<Longrightarrow> i < btf_vlen t \<Longrightarrow>
     btf_members t i = Some m \<Longrightarrow> str_is_empty (btf__name_by_offset b (mb_name_off m)) \<Longrightarrow>
     named_path b (mb_type m) nm p \<Longrightarrow> named_path b ti nm (i # p)"

text \<open>No type has two fields of one name (a rule of C), and exactly the members with name offset 0
  are anonymous.\<close>

definition unique_fields :: "btf \<Rightarrow> bool" where
  "unique_fields b \<longleftrightarrow>
     (\<forall>ti nm p q. named_path b ti nm p \<longrightarrow> named_path b ti nm q \<longrightarrow> p = q)"

definition anon_ok :: "btf \<Rightarrow> bool" where
  "anon_ok b \<longleftrightarrow>
     (\<forall>ti t ti' i m. skip_mods_and_typedefs b ti = Some (t, ti') \<longrightarrow> btf_is_composite t \<longrightarrow>
        i < btf_vlen t \<longrightarrow> btf_members t i = Some m \<longrightarrow>
        (mb_name_off m = 0 \<longleftrightarrow> str_is_empty (btf__name_by_offset b (mb_name_off m))))"

lemma anon_okD:
  "anon_ok b \<Longrightarrow> skip_mods_and_typedefs b ti = Some (t, ti') \<Longrightarrow> btf_is_composite t \<Longrightarrow>
     i < btf_vlen t \<Longrightarrow> btf_members t i = Some m \<Longrightarrow>
     mb_name_off m = 0 \<longleftrightarrow> str_is_empty (btf__name_by_offset b (mb_name_off m))"
  unfolding anon_ok_def by blast

lemma skip_idem:
  assumes "skip_mods_and_typedefs b ti = Some (t, ti')"
  shows "skip_mods_and_typedefs b ti' = Some (t, ti')"
  using skip_result [OF assms] by (subst skip_mods_and_typedefs.simps) simp

lemma parse_fields_skip:
  "skip_mods_and_typedefs b ti = Some (t, ti') \<Longrightarrow> xs \<noteq> [] \<Longrightarrow>
     parse_fields b xs ti' sp = parse_fields b xs ti sp"
  by (cases xs) (simp_all add: skip_idem)

section \<open>The search for a member\<close>

definition extend ::
    "nat list \<Rightarrow> bpf_core_accessor list \<Rightarrow> u32 \<Rightarrow> bpf_core_spec \<Rightarrow> bpf_core_spec" where
  "extend raws accs bits sp =
     sp\<lparr>sp_raw := sp_raw sp @ raws, sp_spec := sp_spec sp @ accs,
        sp_bit_offset := sp_bit_offset sp + bits\<rparr>"

text \<open>Parsing the path \<open>raws\<close> from type \<open>ti\<close> adds the accessors \<open>accs\<close> and \<open>bits\<close> bits and leads to
  the type \<open>next_id\<close>.\<close>

definition parses_to ::
    "btf \<Rightarrow> u32 \<Rightarrow> nat list \<Rightarrow> bpf_core_accessor list \<Rightarrow> u32 \<Rightarrow> u32 \<Rightarrow> bool" where
  "parses_to b ti raws accs bits next_id \<longleftrightarrow>
     (\<forall>rest sp. parse_fields b (raws @ rest) ti sp =
        parse_fields b rest next_id
          (sp\<lparr>sp_spec := sp_spec sp @ accs, sp_bit_offset := sp_bit_offset sp + bits\<rparr>))"

lemma push_add_bits:
  "push_accessor acc (add_bits bits sp) =
     sp\<lparr>sp_spec := sp_spec sp @ [acc], sp_bit_offset := sp_bit_offset sp + bits\<rparr>"
  by (cases sp) (simp add: push_accessor_def add_bits_def)

definition local_name :: "btf \<Rightarrow> btf_member \<Rightarrow> string" where
  "local_name lb lm = the (btf__name_by_offset lb (mb_name_off lm))"

definition found_at ::
    "btf \<Rightarrow> u32 \<Rightarrow> string \<Rightarrow> (nat list \<Rightarrow> bool) \<Rightarrow> int \<Rightarrow> bpf_core_spec \<Rightarrow> bpf_core_spec \<Rightarrow> u32 \<Rightarrow> bool" where
  "found_at tb ti nm ok r sp sp' next_id \<longleftrightarrow>
     (r = 1 \<longrightarrow> (\<exists>p acc bits. ok p \<and> named_path tb ti nm p \<and> p \<noteq> [] \<and> ac_name acc \<noteq> None \<and>
        sp' = extend p [acc] bits sp \<and> parses_to tb ti p [acc] bits next_id)) \<and>
     (r = 0 \<longrightarrow> sp' = sp \<or> (\<exists>p. ok p \<and> named_path tb ti nm p))"

lemma pop_push [simp]: "pop_member bits (push_member bits i sp) = sp"
  by (simp add: pop_member_def push_member_def)

lemma parse_anonymous:
  assumes "skip_mods_and_typedefs b ti = Some (t, ti')" "btf_is_composite t" "i < btf_vlen t"
    and "btf_members t i = Some m" "btf_member_bit_offset t i = Some bits0" "mb_name_off m = 0"
    and "parses_to b (mb_type m) p accs bits nx"
  shows "parses_to b ti (i # p) accs (bits0 + bits) nx"
  using assms by (simp add: parses_to_def add_bits_def add.assoc)

lemma parse_named:
  assumes "skip_mods_and_typedefs b ti = Some (t, ti')" "btf_is_composite t" "i < btf_vlen t"
    and "btf_members t i = Some m" "btf_member_bit_offset t i = Some bits" "mb_name_off m \<noteq> 0"
    and "btf__name_by_offset b (mb_name_off m) = Some nm" "nm \<noteq> []"
  shows "parses_to b ti [i] [\<lparr>ac_type_id = ti', ac_idx = i, ac_name = Some nm\<rparr>] bits (mb_type m)"
  using assms
  by (simp add: parses_to_def push_add_bits str_is_empty_def)

lemma found_here:
  assumes s: "skip_mods_and_typedefs tb ti = Some (tt, ti')" "btf_is_composite tt" "i < btf_vlen tt"
    and m: "btf_members tt i = Some m" "btf_member_bit_offset tt i = Some bits"
    and n: "btf__name_by_offset tb (mb_name_off m) = Some nm" "nm \<noteq> []" and anon: "anon_ok tb"
  shows "found_at tb ti nm (\<lambda>p. p \<noteq> [] \<and> hd p \<in> set (i # is)) found sp
           (if found = 0 then push_member bits i sp
            else push_accessor \<lparr>ac_type_id = ti', ac_idx = i, ac_name = Some nm\<rparr>
                   (push_member bits i sp)) (mb_type m)"
proof -
  let ?acc = "\<lparr>ac_type_id = ti', ac_idx = i, ac_name = Some nm\<rparr>"
  have path: "named_path tb ti nm [i]" using s m(1) n by (rule named_path.direct)
  have "mb_name_off m \<noteq> 0"
    using anon_okD [OF anon s m(1)] n by (simp add: str_is_empty_def)
  then have "parses_to tb ti [i] [?acc] bits (mb_type m)"
    using s m n by (intro parse_named)
  moreover have "push_accessor ?acc (push_member bits i sp) = extend [i] [?acc] bits sp"
    by (cases sp) (simp add: push_accessor_def push_member_def extend_def)
  ultimately show ?thesis
    using path unfolding found_at_def
    by (auto intro!: exI [of _ "[i]"] exI [of _ "?acc"] exI [of _ bits])
qed

lemma match_fields_found:
  assumes member: "\<And>ti sp nx r sp' nx'. match_member fuel lb la tb ti sp nx = Some (r, sp', nx') \<Longrightarrow>
      found_at tb ti (local_name lb lm) (\<lambda>_. True) r sp sp' nx'"
    and u: "unique_fields tb" and anon: "anon_ok tb"
    and s: "skip_mods_and_typedefs tb ti = Some (tt, ti')" "btf_is_composite tt"
  shows "match_fields fuel lb la lm tb tt ti' is sp nx = Some (r, sp', nx') \<Longrightarrow>
           set is \<subseteq> {..<btf_vlen tt} \<Longrightarrow> distinct is \<Longrightarrow>
           found_at tb ti (local_name lb lm) (\<lambda>p. p \<noteq> [] \<and> hd p \<in> set is) r sp sp' nx'"
proof (induction "is" arbitrary: sp nx)
  case Nil
  then show ?case by (simp add: found_at_def)
next
  case (Cons i "is")
  let ?nm = "local_name lb lm"
  from Cons.prems(1) obtain bits m where
    m: "btf_members tt i = Some m" "btf_member_bit_offset tt i = Some bits"
    by (auto simp: bind_eq_Some_conv)
  have i: "i < btf_vlen tt" "i \<notin> set is" using Cons.prems by auto
  have IH: "found_at tb ti ?nm (\<lambda>p. p \<noteq> [] \<and> hd p \<in> set is) r sp2 sp' nx'"
    if "match_fields fuel lb la lm tb tt ti' is sp2 nx2 = Some (r, sp', nx')" for sp2 nx2
    using that Cons by simp
  let ?sp = "push_member bits i sp" and ?tn = "btf__name_by_offset tb (mb_name_off m)"
  show ?case
  proof (cases "length (sp_raw sp) = BPF_CORE_SPEC_MAX_LEN")
    case True
    with Cons.prems m show ?thesis by (simp add: found_at_def)
  next
    case room: False
    show ?thesis
    proof (cases "str_is_empty ?tn")
      case True
      with Cons.prems m room obtain found sp2 nx2 where
        r: "match_member fuel lb la tb (mb_type m) ?sp nx = Some (found, sp2, nx2)"
        and rest: "(if found \<noteq> 0 then Some (found, sp2, nx2)
             else match_fields fuel lb la lm tb tt ti' is (pop_member bits sp2) nx2) = Some (r, sp', nx')"
        by (auto simp: bind_eq_Some_conv)
      have sub: "found_at tb (mb_type m) ?nm (\<lambda>_. True) found ?sp sp2 nx2" using r by (rule member)
      have path: "named_path tb ti ?nm (i # p)" if "named_path tb (mb_type m) ?nm p" for p
        using s i(1) m(1) True that by (rule named_path.nested)
      show ?thesis
      proof (cases "found = 0")
        case False
        with rest have eq: "r = found" "sp' = sp2" "nx' = nx2" by auto
        show ?thesis
        proof (cases "r = 1")
          case True
          with sub eq obtain p acc bits2 where p: "named_path tb (mb_type m) ?nm p" "ac_name acc \<noteq> None"
            "sp' = extend p [acc] bits2 ?sp" "parses_to tb (mb_type m) p [acc] bits2 nx'"
            by (auto simp: found_at_def)
          have "mb_name_off m = 0"
            using anon_okD [OF anon s i(1) m(1)] \<open>str_is_empty ?tn\<close> by simp
          with p(4) have "parses_to tb ti (i # p) [acc] (bits + bits2) nx'"
            using s i(1) m by (intro parse_anonymous)
          moreover have "extend p [acc] bits2 ?sp = extend (i # p) [acc] (bits + bits2) sp"
            by (cases sp) (simp add: extend_def push_member_def add.assoc)
          ultimately show ?thesis
            using True p path by (auto simp: found_at_def intro!: exI [of _ "i # p"])
        next
          case False
          with \<open>found \<noteq> 0\<close> eq show ?thesis by (simp add: found_at_def)
        qed
      next
        case True
        with rest have go: "match_fields fuel lb la lm tb tt ti' is (pop_member bits sp2) nx2 =
            Some (r, sp', nx')" by simp
        show ?thesis
        proof (cases "sp2 = ?sp")
          case True
          with IH [OF go] show ?thesis
            unfolding found_at_def by (auto; metis)
        next
          case False
          with sub \<open>found = 0\<close> obtain p where p: "named_path tb ti ?nm (i # p)"
            using path by (auto simp: found_at_def)
          have "r \<noteq> 1"
          proof
            assume "r = 1"
            with IH [OF go] obtain q where "named_path tb ti ?nm q" "q \<noteq> []" "hd q \<in> set is"
              by (auto simp: found_at_def)
            moreover from this p u have "i # p = q" unfolding unique_fields_def by blast
            ultimately show False using i(2) by auto
          qed
          with p show ?thesis by (auto simp: found_at_def intro!: exI [of _ "i # p"])
        qed
      qed
    next
      case named: False
      with Cons.prems m room obtain ln where ln: "btf__name_by_offset lb (mb_name_off lm) = Some ln"
        and rest: "(if Some ln = ?tn then do {
              found \<leftarrow> bpf_core_fields_are_compat lb (mb_type lm) tb (mb_type m);
              Some (found, if found = 0 then ?sp
                else push_accessor \<lparr>ac_type_id = ti', ac_idx = i, ac_name = ?tn\<rparr> ?sp, mb_type m) }
            else match_fields fuel lb la lm tb tt ti' is (pop_member bits ?sp) nx) = Some (r, sp', nx')"
        by (auto simp: bind_eq_Some_conv Let_def)
      have nm: "?nm = ln" by (simp add: local_name_def ln)
      show ?thesis
      proof (cases "Some ln = ?tn")
        case True
        then have tn: "?tn = Some ?nm" "?nm \<noteq> []" using nm named by (cases ?tn; simp add: str_is_empty_def)+
        with rest True obtain found where "r = found" "nx' = mb_type m"
          "sp' = (if found = 0 then ?sp
             else push_accessor \<lparr>ac_type_id = ti', ac_idx = i, ac_name = Some ?nm\<rparr> ?sp)"
          by (auto simp: bind_eq_Some_conv)
        with found_here [OF s i(1) m tn anon] show ?thesis by simp
      next
        case False
        with rest have "match_fields fuel lb la lm tb tt ti' is sp nx = Some (r, sp', nx')" by simp
        with IH show ?thesis unfolding found_at_def by (auto; metis)
      qed
    qed
  qed
qed

lemma match_member_found:
  assumes u: "unique_fields tb" and anon: "anon_ok tb"
    and la: "btf_type_by_id lb (unat (ac_type_id la)) = Some lt" "btf_members lt (ac_idx la) = Some lm"
  shows "match_member fuel lb la tb ti sp nx = Some (r, sp', nx') \<Longrightarrow>
           found_at tb ti (local_name lb lm) (\<lambda>_. True) r sp sp' nx'"
proof (induction fuel arbitrary: ti sp nx r sp' nx')
  case 0
  then show ?case by simp
next
  case (Suc fuel)
  then obtain tt ti' where s: "skip_mods_and_typedefs tb ti = Some (tt, ti')"
    by (auto simp: bind_eq_Some_conv)
  show ?case
  proof (cases "btf_is_composite tt")
    case False
    with Suc.prems s show ?thesis by (simp add: found_at_def)
  next
    case True
    with Suc.prems s la have "match_fields fuel lb la lm tb tt ti' [0..<btf_vlen tt] sp nx = Some (r, sp', nx')"
      by simp
    then have "found_at tb ti (local_name lb lm) (\<lambda>p. p \<noteq> [] \<and> hd p \<in> set [0..<btf_vlen tt]) r sp sp' nx'"
      by (rule match_fields_found [OF _ u anon s True, rotated]) (auto intro: Suc.IH)
    then show ?thesis by (auto simp: found_at_def)
  qed
qed

lemma ints_compat_range: "ints_compat lt tt = Some r \<Longrightarrow> r \<in> {0, 1}"
  by (auto simp: ints_compat_def bind_eq_Some_conv split: if_splits)

lemma flavorless_range: "flavorless_match l t = Some r \<Longrightarrow> r \<in> {0, 1}"
  by (auto simp: flavorless_match_def bind_eq_Some_conv Let_def split: if_splits)

lemma fields_compat_range:
  assumes ret: "bpf_core_fields_are_compat lb li tb ti = Some r"
  shows "r \<in> {0, 1}"
proof (rule bpf_core_fields_are_compat.raw_induct
    [where P = "\<lambda>lb li tb ti r. r \<in> {0, 1}", OF _ ret])
  fix f lb li tb ti and r :: int
  assume IH: "\<And>lb li tb ti r. f lb li tb ti = Some r \<Longrightarrow> r \<in> {0, 1}"
    and eq: "skip_mods_and_typedefs lb li \<bind> (\<lambda>(lt, li). skip_mods_and_typedefs tb ti \<bind>
      (\<lambda>(tt, ti). if btf_is_composite lt \<and> btf_is_composite tt then Some 1
        else if \<not> btf_kind_core_compat lt tt then Some 0
        else if btf_kind lt \<in> {BTF_KIND_PTR, BTF_KIND_FLOAT} then Some 1
        else if btf_kind lt \<in> {BTF_KIND_FWD, BTF_KIND_ENUM64, BTF_KIND_ENUM}
        then flavorless_match (btf__name_by_offset lb (bt_name_off lt))
               (btf__name_by_offset tb (bt_name_off tt))
        else if btf_kind lt = BTF_KIND_INT then ints_compat lt tt
        else if btf_kind lt = BTF_KIND_ARRAY then btf_array lt \<bind>
          (\<lambda>la. btf_array tt \<bind> (\<lambda>ta. f lb (ar_type la) tb (ar_type ta)))
        else Some 0)) = Some r"
  then obtain lt li' where l: "skip_mods_and_typedefs lb li = Some (lt, li')"
    by (auto simp: bind_eq_Some_conv)
  with eq obtain tt ti' where t: "skip_mods_and_typedefs tb ti = Some (tt, ti')"
    by (auto simp: bind_eq_Some_conv)
  from eq show "r \<in> {0, 1}"
    unfolding l t
    using IH ints_compat_range flavorless_range
    by (simp add: bind_eq_Some_conv split: if_split_asm) blast+
qed

lemma match_range:
  "match_member fuel lb la tb ti sp nx = Some (r, sp', nx') \<Longrightarrow> r \<in> {0, 1, - E2BIG}"
  "match_fields fuel lb la lm tb tt ti' is sp nx = Some (r, sp', nx') \<Longrightarrow> r \<in> {0, 1, - E2BIG}"
proof (induction fuel lb la tb ti sp nx and fuel lb la lm tb tt ti' "is" sp nx
    arbitrary: r sp' nx' and r sp' nx' rule: match_member_match_fields.induct)
  case (2 fuel lb la tb ti sp nx)
  then show ?case
    by (simp add: bind_eq_Some_conv split: if_split_asm prod.splits) blast
next
  case (4 fuel lb la lm tb tt ti' i "is" sp nx)
  from "4.prems" obtain bits m where m: "btf_member_bit_offset tt i = Some bits"
    "btf_members tt i = Some m" by (auto simp: bind_eq_Some_conv)
  with "4.prems" "4.IH"(1) [OF m] "4.IH"(2) [OF m] "4.IH"(3) [OF m] show ?case
    by (auto simp: bind_eq_Some_conv Let_def dest: fields_compat_range split: if_splits)
qed (auto simp: bind_eq_Some_conv split: if_splits)

lemma as_int_size:
  assumes "btf__resolve_size b ti = Some sz" "\<not> as_int sz < 0"
  shows "\<not> sz < 0" "(of_int (as_int sz) :: u32) = of_int sz"
proof -
  have "sz \<in> {- EINVAL, - E2BIG} \<or> 0 \<le> sz"
    using resolve_size_range assms(1) unfolding btf__resolve_size_def by blast
  moreover have "as_int (- EINVAL) < 0" "as_int (- E2BIG) < 0" by (simp_all add: as_int_def)
  ultimately show "\<not> sz < 0" using assms(2) by auto
  show "(of_int (as_int sz) :: u32) = of_int sz" by (simp add: as_int_def)
qed

section \<open>A whole specification\<close>

lemma composite_not_array: "btf_is_array t \<Longrightarrow> \<not> btf_is_composite t"
  by (auto simp: btf_is_array_def btf_is_composite_def btf_kinds)

definition parses_whole ::
    "btf \<Rightarrow> u32 \<Rightarrow> nat list \<Rightarrow> bpf_core_accessor list \<Rightarrow> u32 \<Rightarrow> bpf_core_accessor list \<Rightarrow> bool" where
  "parses_whole b ti raws accs bits front \<longleftrightarrow>
     (\<forall>s. sp_spec s = front \<longrightarrow> parse_fields b raws ti s =
        Some (Inr (s\<lparr>sp_spec := sp_spec s @ accs, sp_bit_offset := sp_bit_offset s + bits\<rparr>)))"

lemma parses_whole_step:
  assumes "parses_to b ti' p accs bits nx" and "p \<noteq> []"
    and "skip_mods_and_typedefs b ti = Some (t, ti')"
    and "parses_whole b nx raws accs2 bits2 (front @ accs)"
  shows "parses_whole b ti (p @ raws) (accs @ accs2) (bits + bits2) front"
  unfolding parses_whole_def
proof (intro allI impI)
  fix s :: bpf_core_spec assume "sp_spec s = front"
  have "parse_fields b (p @ raws) ti s = parse_fields b (p @ raws) ti' s"
    using assms(2,3) by (simp add: parse_fields_skip)
  also have "\<dots> = parse_fields b raws nx
      (s\<lparr>sp_spec := sp_spec s @ accs, sp_bit_offset := sp_bit_offset s + bits\<rparr>)"
    using assms(1) by (simp add: parses_to_def)
  finally show "parse_fields b (p @ raws) ti s =
      Some (Inr (s\<lparr>sp_spec := sp_spec s @ accs @ accs2, sp_bit_offset := sp_bit_offset s + (bits + bits2)\<rparr>))"
    using assms(4) \<open>sp_spec s = front\<close> by (simp add: parses_whole_def add.assoc)
qed

lemma extend_extend:
  "extend raws2 accs2 bits2 (extend raws accs bits sp) =
     extend (raws @ raws2) (accs @ accs2) (bits + bits2) sp"
  by (simp add: extend_def add.assoc)

lemma match_accessors_parse:
  assumes u: "unique_fields tb" and anon: "anon_ok tb"
  shows "match_accessors lb tb las i ti sp = Some (1, sp') \<Longrightarrow> 0 < i \<Longrightarrow>
     \<exists>raws accs bits. sp' = extend raws accs bits sp \<and> parses_whole tb ti raws accs bits (sp_spec sp)"
proof (induction las arbitrary: i ti sp)
  case Nil
  then have "sp' = extend [] [] 0 sp" "parses_whole tb ti [] [] 0 (sp_spec sp)"
    by (auto simp: extend_def parses_whole_def)
  then show ?case by blast
next
  case (Cons la las)
  from Cons.prems(1) obtain tt ti' where s: "skip_mods_and_typedefs tb ti = Some (tt, ti')"
    by (auto simp: bind_eq_Some_conv)
  show ?case
  proof (cases "ac_name la = None")
    case False
    with Cons.prems s obtain r sp1 nx where
      m0: "bpf_core_match_member lb la tb ti' sp ti' = Some (r, sp1, nx)"
      and rest0: "(if r \<le> 0 then Some (r, sp1) else match_accessors lb tb las (Suc i) nx sp1) = Some (1, sp')"
      by (auto simp: bind_eq_Some_conv)
    from m0 have "r \<in> {0, 1, - E2BIG}" unfolding bpf_core_match_member_def by (rule match_range(1))
    with rest0 have "r = 1" by auto
    with m0 rest0 have m: "bpf_core_match_member lb la tb ti' sp ti' = Some (1, sp1, nx)"
      and rest: "match_accessors lb tb las (Suc i) nx sp1 = Some (1, sp')" by simp_all
    from m s skip_idem [OF s] obtain lt lm where
      la: "btf_type_by_id lb (unat (ac_type_id la)) = Some lt" "btf_members lt (ac_idx la) = Some lm"
      by (auto simp: bpf_core_match_member_def bind_eq_Some_conv split: if_splits)
    from match_member_found [OF u anon la m [unfolded bpf_core_match_member_def]]
    obtain p acc bits where p: "p \<noteq> []" "sp1 = extend p [acc] bits sp" "parses_to tb ti' p [acc] bits nx"
      by (auto simp: found_at_def)
    from Cons.IH [OF rest] obtain raws accs bits2 where
      r: "sp' = extend raws accs bits2 sp1" "parses_whole tb nx raws accs bits2 (sp_spec sp1)" by auto
    have "sp_spec sp1 = sp_spec sp @ [acc]" by (simp add: p(2) extend_def)
    with parses_whole_step [OF p(3,1) s, of raws accs bits2 "sp_spec sp"] r
    have "parses_whole tb ti (p @ raws) ([acc] @ accs) (bits + bits2) (sp_spec sp)" by simp
    moreover have "sp' = extend (p @ raws) ([acc] @ accs) (bits + bits2) sp"
      by (simp only: r p(2) extend_extend)
    ultimately show ?thesis by blast
  next
    case True
    let ?acc = "\<lambda>ti. \<lparr>ac_type_id = ti, ac_idx = ac_idx la, ac_name = None\<rparr>"
    from Cons.prems s True obtain a t2 ti2 flex sz where
      a: "btf_is_array tt" "btf_array tt = Some a" "is_flex_arr tb (last (sp_spec sp)) a = Some flex"
      "\<not> (\<not> flex \<and> unat (ar_nelems a) \<le> ac_idx la)"
      and s2: "skip_mods_and_typedefs tb (ar_type a) = Some (t2, ti2)"
      and sz: "btf__resolve_size tb ti2 = Some sz" "\<not> as_int sz < 0"
      and rest: "match_accessors lb tb las (Suc i) ti2
         (add_bits (of_nat (ac_idx la) * of_int (as_int sz) * 8)
           ((push_accessor (?acc ti2) sp)\<lparr>sp_raw := sp_raw sp @ [ac_idx la]\<rparr>)) = Some (1, sp')"
      by (auto simp: bind_eq_Some_conv Let_def split: if_splits)
    let ?bits = "of_nat (ac_idx la) * of_int sz * 8 :: u32"
    have eq: "add_bits (of_nat (ac_idx la) * of_int (as_int sz) * 8)
        ((push_accessor (?acc ti2) sp)\<lparr>sp_raw := sp_raw sp @ [ac_idx la]\<rparr>) =
      extend [ac_idx la] [?acc ti2] ?bits sp"
      using as_int_size(2) [OF sz] by (cases sp) (simp add: add_bits_def push_accessor_def extend_def)
    have comp: "\<not> btf_is_composite tt" using a(1) by (rule composite_not_array)
    from Cons.IH [OF rest [unfolded eq]] obtain raws accs bits2 where
      r: "sp' = extend raws accs bits2 (extend [ac_idx la] [?acc ti2] ?bits sp)"
      "parses_whole tb ti2 raws accs bits2 (sp_spec sp @ [?acc ti2])"
      by (auto simp: extend_def)
    have "parses_whole tb ti ([ac_idx la] @ raws) ([?acc ti2] @ accs) (?bits + bits2) (sp_spec sp)"
      unfolding parses_whole_def
    proof (intro allI impI)
      fix x :: bpf_core_spec assume x: "sp_spec x = sp_spec sp"
      have g: "add_bits ?bits (push_accessor (?acc ti2) x) =
          x\<lparr>sp_spec := sp_spec x @ [?acc ti2], sp_bit_offset := sp_bit_offset x + ?bits\<rparr>"
        by (cases x) (simp add: add_bits_def push_accessor_def)
      have "parse_fields tb ([ac_idx la] @ raws) ti x =
          parse_fields tb raws ti2 (add_bits ?bits (push_accessor (?acc ti2) x))"
        using s comp a s2 sz(1) as_int_size(1) [OF sz] x by auto
      also have "\<dots> = Some (Inr (x\<lparr>sp_spec := sp_spec x @ [?acc ti2] @ accs,
          sp_bit_offset := sp_bit_offset x + (?bits + bits2)\<rparr>))"
        using r(2) x by (simp add: g parses_whole_def add.assoc)
      finally show "parse_fields tb ([ac_idx la] @ raws) ti x =
          Some (Inr (x\<lparr>sp_spec := sp_spec x @ [?acc ti2] @ accs,
            sp_bit_offset := sp_bit_offset x + (?bits + bits2)\<rparr>))" .
    qed
    moreover have "sp' = extend ([ac_idx la] @ raws) ([?acc ti2] @ accs) (?bits + bits2) sp"
      by (simp only: r extend_extend)
    ultimately show ?thesis by blast
  qed
qed

section \<open>Lengths and fuel\<close>

text \<open>One step of \<open>parse_fields\<close> adds at most one accessor and keeps the rest.\<close>

definition grown :: "nat \<Rightarrow> bpf_core_spec \<Rightarrow> bpf_core_spec \<Rightarrow> bool" where
  "grown n sp sp' \<longleftrightarrow>
     sp_raw sp' = sp_raw sp \<and> sp_relo_kind sp' = sp_relo_kind sp \<and> sp_btf sp' = sp_btf sp \<and>
     (\<exists>accs. sp_spec sp' = sp_spec sp @ accs \<and> length accs \<le> n)"

lemma grown_ops:
  "grown 0 sp sp" "grown 1 sp (add_bits n sp)" "grown 1 sp (push_accessor acc (add_bits n sp))"
  "grown 1 sp (add_bits n (push_accessor acc sp))"
  by (auto simp: grown_def add_bits_def push_accessor_def)

lemma grown_trans: "grown n sp sp1 \<Longrightarrow> grown m sp1 sp2 \<Longrightarrow> grown (n + m) sp sp2"
  by (auto simp: grown_def)

lemma parse_fields_step:
  assumes "parse_fields b (ix # ixs) ti sp = Some (Inr sp')"
  obtains ti1 sp1 where "parse_fields b ixs ti1 sp1 = Some (Inr sp')" "grown 1 sp sp1"
proof -
  from assms obtain t ti' where s: "skip_mods_and_typedefs b ti = Some (t, ti')"
    by (auto simp: bind_eq_Some_conv)
  show thesis
  proof (cases "btf_is_composite t")
    case True
    with assms s have "\<not> btf_vlen t \<le> ix" by auto
    with assms s True obtain bits m where m: "btf_member_bit_offset t ix = Some bits"
      "btf_members t ix = Some m" by (auto simp: bind_eq_Some_conv)
    show thesis
    proof (cases "mb_name_off m = 0")
      case z: True
      from that assms s True m \<open>\<not> btf_vlen t \<le> ix\<close> z grown_ops(2) show thesis by simp
    next
      case False
      with assms s True m \<open>\<not> btf_vlen t \<le> ix\<close>
      have "\<not> str_is_empty (btf__name_by_offset b (mb_name_off m))" by auto
      with that assms s True m \<open>\<not> btf_vlen t \<le> ix\<close> False grown_ops(3) show thesis by simp
    qed
  next
    case False
    with assms s have "btf_is_array t" by (auto split: if_splits)
    with assms s False obtain a t2 ti2 flex sz where
      "btf_array t = Some a" "skip_mods_and_typedefs b (ar_type a) = Some (t2, ti2)"
      "is_flex_arr b (last (sp_spec sp)) a = Some flex" "\<not> (\<not> flex \<and> unat (ar_nelems a) \<le> ix)"
      "btf__resolve_size b ti2 = Some sz" "\<not> sz < 0"
      by (auto simp: bind_eq_Some_conv split: if_splits)
    with that assms s False \<open>btf_is_array t\<close> grown_ops(4) show thesis by simp
  qed
qed

lemma parse_fields_grown: "parse_fields b xs ti sp = Some (Inr sp') \<Longrightarrow> grown (length xs) sp sp'"
proof (induction xs arbitrary: ti sp)
  case Nil
  then show ?case by (simp add: grown_ops)
next
  case (Cons x xs)
  from parse_fields_step [OF Cons.prems] obtain ti1 sp1 where
    "parse_fields b xs ti1 sp1 = Some (Inr sp')" "grown 1 sp sp1" .
  with Cons.IH grown_trans show ?case by fastforce
qed

lemma parse_raw_length:
  "parse_raw s raw = Some (Inr raw') \<Longrightarrow> length raw \<le> BPF_CORE_SPEC_MAX_LEN \<Longrightarrow>
     length raw' \<le> BPF_CORE_SPEC_MAX_LEN"
proof (induction s raw rule: parse_raw.induct)
  case (1 raw)
  then show ?case by simp
next
  case (2 c s raw)
  from "2.prems"(1) obtain v s' where v: "scan_int (if c = CHR '':'' then s else c # s) = Some (v, s')"
    by (auto split: option.splits)
  with "2.prems" have k: "\<not> (v < - INT_MAX - 1 \<or> INT_MAX < v)" "\<not> v < 0"
    "length raw \<noteq> BPF_CORE_SPEC_MAX_LEN" "parse_raw s' (raw @ [nat v]) = Some (Inr raw')"
    by (auto split: if_splits)
  show ?case using "2.IH" [OF v refl k] "2.prems"(2) k(3) by simp
qed

lemma parse_spec_parts:
  assumes "bpf_core_parse_spec b relo = Some (Inr sp)"
  shows "sp_relo_kind sp = rl_kind relo" "sp_btf sp = b"
    "length (sp_spec sp) \<le> length (sp_raw sp)" "length (sp_raw sp) \<le> BPF_CORE_SPEC_MAX_LEN"
    "core_relo_is_field_based (rl_kind relo) \<Longrightarrow> \<exists>la las. sp_spec sp = la # las \<and> ac_name la = None"
proof -
  let ?P = "sp_relo_kind sp = rl_kind relo \<and> sp_btf sp = b \<and>
    length (sp_spec sp) \<le> length (sp_raw sp) \<and> length (sp_raw sp) \<le> BPF_CORE_SPEC_MAX_LEN \<and>
    (core_relo_is_field_based (rl_kind relo) \<longrightarrow> (\<exists>la las. sp_spec sp = la # las \<and> ac_name la = None))"
  have ?P
  proof (cases "core_relo_is_type_based (rl_kind relo)")
    case True
    then have "\<not> core_relo_is_field_based (rl_kind relo)"
      by (auto simp: core_relo_is_type_based_def core_relo_is_field_based_def)
    with True assms show ?thesis
      by (auto simp: bpf_core_parse_spec_def empty_spec_def split: option.splits if_splits)
  next
    case False
    with assms obtain s where s: "btf__name_by_offset b (rl_access_str_off relo) = Some s"
      "s \<noteq> []" "s ! 0 \<noteq> CHR '':''"
      by (auto simp: bpf_core_parse_spec_def split: option.splits if_splits)
    with assms False obtain y where y: "parse_raw s [] = Some y"
      by (auto simp: bpf_core_parse_spec_def bind_eq_Some_conv)
    with assms False s obtain raw where "y = Inr raw"
      by (cases y) (auto simp: bpf_core_parse_spec_def)
    with assms False s y have raw: "parse_raw s [] = Some (Inr raw)" "raw \<noteq> []"
      and acc: "parse_accessors b relo raw = Some (Inr sp)"
      by (auto simp: bpf_core_parse_spec_def split: if_splits)
    have len: "length raw \<le> BPF_CORE_SPEC_MAX_LEN"
      using parse_raw_length [OF raw(1)] by (simp add: BPF_CORE_SPEC_MAX_LEN_def)
    from acc obtain t ti where s: "skip_mods_and_typedefs b (rl_type_id relo) = Some (t, ti)"
      by (auto simp: parse_accessors_def bind_eq_Some_conv)
    show ?thesis
    proof (cases "core_relo_is_enumval_based (rl_kind relo)")
      case True
      then have "\<not> core_relo_is_field_based (rl_kind relo)"
        by (auto simp: core_relo_is_enumval_based_def core_relo_is_field_based_def)
      with True acc s len raw(2) show ?thesis
        by (cases raw) (auto simp: parse_accessors_def bind_eq_Some_conv empty_spec_def push_accessor_def
            split: if_splits)
    next
      case False
      let ?sp = "(empty_spec b (rl_type_id relo) (rl_kind relo))\<lparr>sp_raw := raw\<rparr>"
      from False acc s obtain bits where
        "parse_fields b (tl raw) ti (add_bits bits (push_accessor
           \<lparr>ac_type_id = ti, ac_idx = hd raw, ac_name = None\<rparr> ?sp)) = Some (Inr sp)"
        by (auto simp: parse_accessors_def bind_eq_Some_conv Let_def split: if_splits)
      from parse_fields_grown [OF this] len raw(2) show ?thesis
        by (cases raw) (auto simp: grown_def add_bits_def push_accessor_def empty_spec_def)
    qed
  qed
  then show "sp_relo_kind sp = rl_kind relo" "sp_btf sp = b"
    "length (sp_spec sp) \<le> length (sp_raw sp)" "length (sp_raw sp) \<le> BPF_CORE_SPEC_MAX_LEN"
    "core_relo_is_field_based (rl_kind relo) \<Longrightarrow> \<exists>la las. sp_spec sp = la # las \<and> ac_name la = None"
    by blast+
qed

lemma match_fields_step:
  assumes "match_fields fuel lb la lm tb tt ti' (i # is) sp nx = Some (r, sp', nx')"
  obtains
    (deep) "length (sp_raw sp) = BPF_CORE_SPEC_MAX_LEN" "r = - E2BIG" "sp' = sp"
  | (hit) bits and m :: btf_member where "length (sp_raw sp) \<noteq> BPF_CORE_SPEC_MAX_LEN" "r \<noteq> 0"
      "match_member fuel lb la tb (mb_type m) (push_member bits i sp) nx = Some (r, sp', nx')"
  | (miss) bits and m :: btf_member and sp2 nx2 where "length (sp_raw sp) \<noteq> BPF_CORE_SPEC_MAX_LEN"
      "match_member fuel lb la tb (mb_type m) (push_member bits i sp) nx = Some (0, sp2, nx2)"
      "match_fields fuel lb la lm tb tt ti' is (pop_member bits sp2) nx2 = Some (r, sp', nx')"
  | (named) bits and acc :: bpf_core_accessor where "length (sp_raw sp) \<noteq> BPF_CORE_SPEC_MAX_LEN"
      "sp' = (if r = 0 then push_member bits i sp else push_accessor acc (push_member bits i sp))"
  | (other) "match_fields fuel lb la lm tb tt ti' is sp nx = Some (r, sp', nx')"
proof -
  from assms obtain bits m where m: "btf_members tt i = Some m" "btf_member_bit_offset tt i = Some bits"
    by (auto simp: bind_eq_Some_conv)
  show thesis
  proof (cases "length (sp_raw sp) = BPF_CORE_SPEC_MAX_LEN")
    case True
    with assms m have "r = - E2BIG" "sp' = sp" by auto
    with True show thesis by (rule deep)
  next
    case room: False
    show thesis
    proof (cases "str_is_empty (btf__name_by_offset tb (mb_name_off m))")
      case True
      with assms m room obtain found sp2 nx2 where
        "match_member fuel lb la tb (mb_type m) (push_member bits i sp) nx = Some (found, sp2, nx2)"
        "(if found \<noteq> 0 then Some (found, sp2, nx2)
          else match_fields fuel lb la lm tb tt ti' is (pop_member bits sp2) nx2) = Some (r, sp', nx')"
        by (auto simp: bind_eq_Some_conv)
      with hit [OF room] miss [OF room] show thesis by (cases "found = 0") auto
    next
      case False
      with assms m room obtain ln where
        rest: "(if Some ln = btf__name_by_offset tb (mb_name_off m) then do {
              found \<leftarrow> bpf_core_fields_are_compat lb (mb_type lm) tb (mb_type m);
              Some (found, if found = 0 then push_member bits i sp
                else push_accessor \<lparr>ac_type_id = ti', ac_idx = i,
                       ac_name = btf__name_by_offset tb (mb_name_off m)\<rparr> (push_member bits i sp), mb_type m) }
            else match_fields fuel lb la lm tb tt ti' is (pop_member bits (push_member bits i sp)) nx) =
          Some (r, sp', nx')"
        by (auto simp: bind_eq_Some_conv Let_def)
      show thesis
      proof (cases "Some ln = btf__name_by_offset tb (mb_name_off m)")
        case True
        with rest obtain found where "r = found"
          "sp' = (if found = 0 then push_member bits i sp
             else push_accessor \<lparr>ac_type_id = ti', ac_idx = i,
                    ac_name = btf__name_by_offset tb (mb_name_off m)\<rparr> (push_member bits i sp))"
          by (auto simp: bind_eq_Some_conv)
        with named [OF room] show thesis by blast
      next
        case False
        with rest other show thesis by simp
      qed
    qed
  qed
qed

text \<open>What a search does to the two arrays: a miss leaves the accessors alone and never shortens
  the raw path, which never outgrows its array.\<close>

definition raw_ok :: "int \<Rightarrow> bpf_core_spec \<Rightarrow> bpf_core_spec \<Rightarrow> bool" where
  "raw_ok r sp sp' \<longleftrightarrow> length (sp_raw sp) \<le> BPF_CORE_SPEC_MAX_LEN \<longrightarrow>
     length (sp_raw sp') \<le> BPF_CORE_SPEC_MAX_LEN \<and>
     (r = 0 \<longrightarrow> sp_spec sp' = sp_spec sp \<and> length (sp_raw sp) \<le> length (sp_raw sp')) \<and>
     (length (sp_spec sp) \<le> length (sp_raw sp) \<longrightarrow> length (sp_spec sp') \<le> length (sp_raw sp'))"

lemma raw_ok_refl [simp]: "raw_ok r sp sp"
  by (simp add: raw_ok_def)

lemma push_lengths [simp]:
  "length (sp_raw (push_member bits i sp)) = Suc (length (sp_raw sp))"
  "sp_spec (push_member bits i sp) = sp_spec sp"
  "length (sp_raw (pop_member bits sp)) = length (sp_raw sp) - 1"
  "sp_spec (pop_member bits sp) = sp_spec sp"
  "sp_raw (push_accessor acc sp) = sp_raw sp" "length (sp_spec (push_accessor acc sp)) = Suc (length (sp_spec sp))"
  by (simp_all add: push_member_def pop_member_def push_accessor_def)

lemma match_raw:
  "match_member fuel lb la tb ti sp nx = Some (r, sp', nx') \<Longrightarrow> raw_ok r sp sp'"
proof (induction fuel arbitrary: ti sp nx r sp' nx')
  case 0
  then show ?case by simp
next
  case (Suc fuel)
  have fields: "match_fields fuel lb la lm tb tt ti' is sp nx = Some (r, sp', nx') \<Longrightarrow> raw_ok r sp sp'"
    for lm tt ti' "is" sp nx r sp' nx'
  proof (induction "is" arbitrary: sp nx)
    case Nil
    then show ?case by simp
  next
    case (Cons i "is")
    from Cons.prems show ?case
    proof (cases rule: match_fields_step)
      case deep
      then show ?thesis by simp
    next
      case (hit bits m)
      with Suc.IH [OF hit(3)] show ?thesis by (simp add: raw_ok_def)
    next
      case (miss bits m sp2 nx2)
      with Suc.IH [OF miss(2)] Cons.IH [OF miss(3)] show ?thesis by (auto simp: raw_ok_def)
    next
      case (named bits acc)
      then show ?thesis by (simp add: raw_ok_def)
    next
      case other
      then show ?thesis by (rule Cons.IH)
    qed
  qed
  from Suc.prems obtain tt ti' where "skip_mods_and_typedefs tb ti = Some (tt, ti')"
    by (auto simp: bind_eq_Some_conv)
  with Suc.prems fields show ?case by (auto simp: bind_eq_Some_conv split: if_splits)
qed

text \<open>Enough fuel: every level of anonymous nesting has already pushed an index.\<close>

lemma match_fuel:
  "length (sp_raw sp) \<le> BPF_CORE_SPEC_MAX_LEN \<Longrightarrow> BPF_CORE_SPEC_MAX_LEN < fuel + length (sp_raw sp) \<Longrightarrow>
     match_member (fuel + k) lb la tb ti sp nx = match_member fuel lb la tb ti sp nx"
proof (induction fuel arbitrary: ti sp nx)
  case 0
  then show ?case by simp
next
  case (Suc fuel)
  have fields: "match_fields (fuel + k) lb la lm tb tt ti' is sp nx = match_fields fuel lb la lm tb tt ti' is sp nx"
    if "length (sp_raw sp) \<le> BPF_CORE_SPEC_MAX_LEN" "BPF_CORE_SPEC_MAX_LEN \<le> fuel + length (sp_raw sp)"
    for lm tt ti' "is" sp nx
    using that
  proof (induction "is" arbitrary: sp nx)
    case Nil
    then show ?case by simp
  next
    case (Cons i "is")
    show ?case
    proof (cases "length (sp_raw sp) = BPF_CORE_SPEC_MAX_LEN")
      case True
      then show ?thesis by (simp cong: Option.bind_cong)
    next
      case room: False
      have nested: "match_member (fuel + k) lb la tb x (push_member bits i sp) nx =
          match_member fuel lb la tb x (push_member bits i sp) nx" for x bits
        using Cons.prems room by (intro Suc.IH) auto
      have same: "match_fields (fuel + k) lb la lm tb tt ti' is sp nx =
          match_fields fuel lb la lm tb tt ti' is sp nx"
        using Cons by simp
      have after: "match_fields (fuel + k) lb la lm tb tt ti' is (pop_member bits sp2) nx2 =
          match_fields fuel lb la lm tb tt ti' is (pop_member bits sp2) nx2"
        if "match_member fuel lb la tb x (push_member bits i sp) nx = Some (0, sp2, nx2)" for x bits sp2 nx2
        using match_raw [OF that] Cons.prems room by (intro Cons.IH) (auto simp: raw_ok_def)
      show ?thesis
        using room nested same
        by (auto simp: Let_def after intro!: Option.bind_cong [OF refl])
    qed
  qed
  show ?case
    using Suc.prems by (auto simp: fields intro!: Option.bind_cong [OF refl])
qed

lemma match_accessors_raw:
  "match_accessors lb tb las i ti sp = Some (r, sp') \<Longrightarrow>
     length (sp_spec sp) \<le> length (sp_raw sp) \<Longrightarrow> length (sp_raw sp) \<le> BPF_CORE_SPEC_MAX_LEN \<Longrightarrow>
     length (sp_spec sp') \<le> length (sp_raw sp') \<and> length (sp_raw sp') \<le> BPF_CORE_SPEC_MAX_LEN"
proof (induction las arbitrary: i ti sp)
  case Nil
  then show ?case by simp
next
  case (Cons la las)
  from Cons.prems(1) obtain tt ti' where s: "skip_mods_and_typedefs tb ti = Some (tt, ti')"
    by (auto simp: bind_eq_Some_conv)
  show ?case
  proof (cases "ac_name la = None")
    case False
    with Cons.prems(1) s obtain m sp1 nx where
      m: "bpf_core_match_member lb la tb ti' sp ti' = Some (m, sp1, nx)"
      and rest: "(if m \<le> 0 then Some (m, sp1) else match_accessors lb tb las (Suc i) nx sp1) = Some (r, sp')"
      by (auto simp: bind_eq_Some_conv)
    have "length (sp_spec sp1) \<le> length (sp_raw sp1)" "length (sp_raw sp1) \<le> BPF_CORE_SPEC_MAX_LEN"
      using match_raw [OF m [unfolded bpf_core_match_member_def]] Cons.prems by (auto simp: raw_ok_def)
    with rest Cons.IH show ?thesis by (auto split: if_splits)
  next
    case True
    with Cons.prems(1) s obtain e where rest: "(case e of None \<Rightarrow> Some (0, sp) | Some ti \<Rightarrow>
        if length (sp_raw sp) = BPF_CORE_SPEC_MAX_LEN then Some (- E2BIG, sp)
        else let sp = (push_accessor \<lparr>ac_type_id = ti, ac_idx = ac_idx la, ac_name = None\<rparr> sp)
                     \<lparr>sp_raw := sp_raw sp @ [ac_idx la]\<rparr>
             in do {
               sz \<leftarrow> btf__resolve_size tb ti;
               if as_int sz < 0 then Some (as_int sz, sp)
               else match_accessors lb tb las (Suc i) ti
                      (add_bits (of_nat (ac_idx la) * of_int (as_int sz) * 8) sp) }) = Some (r, sp')"
      by (auto simp: bind_eq_Some_conv)
    show ?thesis
    proof (cases e)
      case None
      with rest Cons.prems show ?thesis by simp
    next
      case (Some ti2)
      let ?sp = "(push_accessor \<lparr>ac_type_id = ti2, ac_idx = ac_idx la, ac_name = None\<rparr> sp)
                   \<lparr>sp_raw := sp_raw sp @ [ac_idx la]\<rparr>"
      show ?thesis
      proof (cases "length (sp_raw sp) = BPF_CORE_SPEC_MAX_LEN")
        case True
        with rest Some Cons.prems show ?thesis by simp
      next
        case False
        have len: "length (sp_spec ?sp) \<le> length (sp_raw ?sp)" "length (sp_raw ?sp) \<le> BPF_CORE_SPEC_MAX_LEN"
          using Cons.prems False by (simp_all add: push_accessor_def)
        from rest Some False obtain sz where
          "(if as_int sz < 0 then Some (as_int sz, ?sp)
            else match_accessors lb tb las (Suc i) ti2
              (add_bits (of_nat (ac_idx la) * of_int (as_int sz) * 8) ?sp)) = Some (r, sp')"
          by (auto simp: bind_eq_Some_conv Let_def)
        with len Cons.IH [of "Suc i" ti2 "add_bits (of_nat (ac_idx la) * of_int (as_int sz) * 8) ?sp"]
        show ?thesis by (auto simp: add_bits_def split: if_splits)
      qed
    qed
  qed
qed

section \<open>Properties\<close>

text \<open>C29. The fixed arrays of a specification are never overrun: neither parsing an access string
  nor matching against a target, whatever its result, puts more than 64 indices into the raw path,
  and there are never more accessors than indices.\<close>

theorem spec_arrays_bounded:
  assumes "bpf_core_parse_spec lb relo = Some (Inr lsp)"
    and "bpf_core_spec_match lsp tb ti = Some (r, tsp)"
  shows "length (sp_spec lsp) \<le> length (sp_raw lsp) \<and> length (sp_raw lsp) \<le> 64 \<and>
         length (sp_spec tsp) \<le> length (sp_raw tsp) \<and> length (sp_raw tsp) \<le> 64"
proof -
  have local: "length (sp_spec lsp) \<le> length (sp_raw lsp)" "length (sp_raw lsp) \<le> 64"
    using parse_spec_parts(3,4) [OF assms(1)] by (simp_all add: BPF_CORE_SPEC_MAX_LEN_def)
  have enum: "enumval_match nm tb tt ti' is sp = Some (r, tsp) \<Longrightarrow> sp_spec sp = [] \<Longrightarrow> sp_raw sp = [] \<Longrightarrow>
      length (sp_spec tsp) \<le> length (sp_raw tsp) \<and> length (sp_raw tsp) \<le> 64" for nm tt ti' "is" sp
    by (induction "is") (auto simp: bind_eq_Some_conv push_accessor_def Let_def split: if_splits)
  let ?e = "empty_spec tb ti (sp_relo_kind lsp)"
  have e: "sp_spec ?e = []" "sp_raw ?e = []" by (simp_all add: empty_spec_def)
  have "length (sp_spec tsp) \<le> length (sp_raw tsp) \<and> length (sp_raw tsp) \<le> 64"
  proof (cases "core_relo_is_type_based (sp_relo_kind lsp)")
    case True
    with assms(2) e show ?thesis by (auto simp: bpf_core_spec_match_def Let_def bind_eq_Some_conv)
  next
    case nt: False
    show ?thesis
    proof (cases "core_relo_is_enumval_based (sp_relo_kind lsp)")
      case True
      with assms(2) nt e enum [OF _ e] show ?thesis
        by (auto simp: bpf_core_spec_match_def Let_def bind_eq_Some_conv split: if_splits list.splits)
    next
      case ne: False
      show ?thesis
      proof (cases "core_relo_is_field_based (sp_relo_kind lsp)")
        case True
        with assms(2) nt ne have "match_accessors (sp_btf lsp) tb (sp_spec lsp) 0 ti ?e = Some (r, tsp)"
          by (simp add: bpf_core_spec_match_def Let_def)
        from match_accessors_raw [OF this] e show ?thesis by (simp add: BPF_CORE_SPEC_MAX_LEN_def)
      next
        case False
        with assms(2) nt ne e show ?thesis by (auto simp: bpf_core_spec_match_def Let_def)
      qed
    qed
  qed
  with local show ?thesis by simp
qed



text \<open>C27. When a relocation succeeds by candidate search, the list of candidates is cut down to
  exactly those that match (or left alone if none does); the result is that of the first match,
  and every match has the same bit offset, poison flag and new value, so that an ambiguous
  relocation never succeeds. Without a match the result is computed with no target.\<close>

theorem candidates_agree:
  assumes "bpf_core_calc_relo_insn lb relo cands = Some (0, cands', Some res)"
    and "rl_kind relo \<noteq> BPF_CORE_TYPE_ID_LOCAL"
  shows "\<exists>sp. bpf_core_parse_spec lb relo = Some (Inr sp) \<and>
           (let ms = filter (cand_matches sp) cands
            in if ms = [] then cands' = cands \<and> bpf_core_calc_relo (rl_kind relo) sp None = Some (0, res)
               else cands' = ms \<and>
                    (\<exists>off. cand_relo (rl_kind relo) sp (hd ms) = Some (res, off) \<and>
                           (\<forall>c\<in>set ms. agrees (rl_kind relo) sp res off c)))"
proof -
  let ?rest = "\<lambda>sp (err, cs, j, best).
     if err \<noteq> 0 then Some (err, cs, best)
     else if 0 < j then Some (0, take j cs, best)
     else do { (err, res) \<leftarrow> bpf_core_calc_relo (rl_kind relo) sp None; Some (err, cs, Some res) }"
  obtain t nm where t: "btf_type_by_id lb (unat (rl_type_id relo)) = Some t"
    "btf__name_by_offset lb (bt_name_off t) = Some nm"
    using assms(1) by (auto simp: bpf_core_calc_relo_insn_def bind_eq_Some_conv split: option.splits)
  obtain r where r: "bpf_core_parse_spec lb relo = Some r"
    using assms(1) t by (auto simp: bpf_core_calc_relo_insn_def bind_eq_Some_conv)
  then obtain sp where sp: "bpf_core_parse_spec lb relo = Some (Inr sp)"
    using assms(1) t by (cases r) (auto simp: bpf_core_calc_relo_insn_def)
  have "cands_loop (rl_kind relo) sp [0..<length cands] cands 0 None \<bind> ?rest sp =
      Some (0, cands', Some res)"
    using assms t sp by (simp add: bpf_core_calc_relo_insn_def split: if_splits)
  then obtain q where "cands_loop (rl_kind relo) sp [0..<length cands] cands 0 None = Some q"
    "?rest sp q = Some (0, cands', Some res)"
    by (cases "cands_loop (rl_kind relo) sp [0..<length cands] cands 0 None") simp_all
  then obtain err cs j best where
    loop: "cands_loop (rl_kind relo) sp [0..<length cands] cands 0 None = Some (err, cs, j, best)"
    and res: "?rest sp (err, cs, j, best) = Some (0, cands', Some res)"
    by (cases q) simp
  from res have "err = 0" by (auto split: if_splits)
  with loop have l: "cands_loop (rl_kind relo) sp [0..<length cands] cands 0 None = Some (0, cs, j, best)"
    by simp
  have all: "take j cs = filter (cand_matches sp) cands \<and> (j = 0 \<longrightarrow> cs = cands) \<and>
      length cs = length cands \<and> j \<le> length cands \<and>
      (\<exists>b. best = map_option fst b \<and> choice_ok (rl_kind relo) sp (take j cs) b)"
    by (rule cands_loop_ok [OF l]) simp_all
  then have f: "take j cs = filter (cand_matches sp) cands" "j = 0 \<longrightarrow> cs = cands"
    "length cs = length cands" "j \<le> length cands"
    and b: "\<exists>b. best = map_option fst b \<and> choice_ok (rl_kind relo) sp (take j cs) b"
    by blast+
  show ?thesis
  proof (cases "j = 0")
    case True
    with f res \<open>err = 0\<close> have "filter (cand_matches sp) cands = []" "cands' = cands"
      "bpf_core_calc_relo (rl_kind relo) sp None = Some (0, res)"
      by (auto simp: bind_eq_Some_conv)
    with sp show ?thesis by (auto simp: Let_def)
  next
    case False
    with f have ne: "filter (cand_matches sp) cands \<noteq> []" by (metis length_greater_0_conv length_take min.absorb2 neq0_conv)
    from b obtain b0 where b0: "best = map_option fst b0"
      "choice_ok (rl_kind relo) sp (take j cs) b0" by blast
    moreover from res False \<open>err = 0\<close> have "best = Some res" "cands' = take j cs" by auto
    ultimately obtain targ where "b0 = Some (res, targ)" by (cases b0) auto
    with b0 f(1) ne sp \<open>cands' = take j cs\<close> show ?thesis
      by (auto simp: choice_ok_def Let_def)
  qed
qed

text \<open>Printing a specification never writes past the buffer: the text is the full text cut to
  what fits with its terminating NUL, and the length returned is that of the full text.\<close>

lemma format_spec_bounded:
  assumes "bpf_core_format_spec n sp = Some (len, out)"
  shows "\<exists>parts. format_parts sp = Some parts \<and> len = length (concat parts) \<and>
           out = take (n - 1) (concat parts) \<and> (0 < n \<longrightarrow> length out < n)"
  using assms append_bufs [of _ n "[]"]
  by (auto simp: bpf_core_format_spec_def bind_eq_Some_conv Let_def)

section \<open>Witnesses\<close>

definition demo_relo :: bpf_core_relo where
  "demo_relo = \<lparr>rl_insn_off = 0, rl_type_id = 5, rl_access_str_off = 21,
                rl_kind = BPF_CORE_FIELD_BYTE_OFFSET\<rparr>"

lemma demo_raw: "parse_raw ''0:1:1'' [] = Some (Inr [0, 1, 1])"
  by (simp add: scan_int_def is_space_def is_digit_def digits_value_def BPF_CORE_SPEC_MAX_LEN_def)

lemma demo_sizes:
  "btf__resolve_size demo_btf 5 = Some 8" "btf__resolve_size demo_btf 1 = Some 4"
proof -
  have "resolve_size_loop (Suc n) demo_btf 5 1 = Some 8" "resolve_size_loop (Suc n) demo_btf 1 1 = Some 4" for n
    by (simp_all add: demo_type btf_eval resolve_size_done_def UINT32_MAX_def)
  from this [of 31] show "btf__resolve_size demo_btf 5 = Some 8" "btf__resolve_size demo_btf 1 = Some 4"
    by (simp_all add: btf__resolve_size_def MAX_RESOLVE_DEPTH_def)
qed

lemma demo_parse: "bpf_core_parse_spec demo_btf demo_relo = Some (Inr demo_field)"
  by (simp add: bpf_core_parse_spec_def demo_relo_def demo_names demo_raw parse_accessors_def demo_skip
      demo_sizes core_relo_is_type_based_def core_relo_is_enumval_based_def
      core_relo_is_field_based_def empty_spec_def push_accessor_def add_bits_def btf_eval
      demo_field_def del: parse_raw.simps)

lemma demo_compat: "bpf_core_fields_are_compat demo_btf 1 demo_btf 1 = Some 1"
  by (subst bpf_core_fields_are_compat.simps) (simp add: demo_skip btf_eval ints_compat_def)

lemma demo_root:
  "empty_spec demo_btf 5 BPF_CORE_FIELD_BYTE_OFFSET =
     \<lparr>sp_btf = demo_btf, sp_spec = [], sp_root_type_id = 5,
      sp_relo_kind = BPF_CORE_FIELD_BYTE_OFFSET, sp_raw = [], sp_bit_offset = 0\<rparr>"
  by (simp add: empty_spec_def)

lemma demo_member:
  "bpf_core_match_member demo_btf \<lparr>ac_type_id = 4, ac_idx = 1, ac_name = Some ''c''\<rparr> demo_btf 5
     \<lparr>sp_btf = demo_btf, sp_spec = [\<lparr>ac_type_id = 5, ac_idx = 0, ac_name = None\<rparr>],
      sp_root_type_id = 5, sp_relo_kind = BPF_CORE_FIELD_BYTE_OFFSET, sp_raw = [0],
      sp_bit_offset = 0\<rparr> 5 = Some (1, demo_field, 1)"
proof -
  have upt: "[0..<2] = [0, Suc 0]" by (simp add: upt_rec)
  have "match_member (Suc (Suc n)) demo_btf \<lparr>ac_type_id = 4, ac_idx = 1, ac_name = Some ''c''\<rparr> demo_btf 5
     \<lparr>sp_btf = demo_btf, sp_spec = [\<lparr>ac_type_id = 5, ac_idx = 0, ac_name = None\<rparr>],
      sp_root_type_id = 5, sp_relo_kind = BPF_CORE_FIELD_BYTE_OFFSET, sp_raw = [0],
      sp_bit_offset = 0\<rparr> 5 = Some (1, demo_field, 1)" for n
    by (simp add: demo_skip demo_by_id demo_type demo_names demo_compat btf_eval upt push_member_def
        pop_member_def push_accessor_def BPF_CORE_SPEC_MAX_LEN_def demo_field_def)
  from this [of 63] show ?thesis by (simp add: bpf_core_match_member_def BPF_CORE_SPEC_MAX_LEN_def)
qed

lemma demo_match: "bpf_core_spec_match demo_field demo_btf 5 = Some (1, demo_field)"
proof -
  have "match_accessors demo_btf demo_btf
      [\<lparr>ac_type_id = 5, ac_idx = 0, ac_name = None\<rparr>, \<lparr>ac_type_id = 4, ac_idx = 1, ac_name = Some ''c''\<rparr>]
      0 5 (empty_spec demo_btf 5 BPF_CORE_FIELD_BYTE_OFFSET) = Some (1, demo_field)"
    using demo_member
    by (simp add: demo_root demo_skip demo_sizes push_accessor_def add_bits_def BPF_CORE_SPEC_MAX_LEN_def
        as_int_def)
  then show ?thesis
    by (simp add: bpf_core_spec_match_def core_relo_is_type_based_def core_relo_is_enumval_based_def
        core_relo_is_field_based_def demo_field_def del: match_accessors.simps)
qed

lemma demo_skip_more:
  "skip_mods_and_typedefs demo_btf 0 = Some (btf_void, 0)"
  "skip_mods_and_typedefs demo_btf 2 =
     Some (\<lparr>bt_name_off = 0, bt_info = 0x03000000, bt_union = 0, bt_words = [1, 1, 5]\<rparr>, 2)"
  "skip_mods_and_typedefs demo_btf 3 =
     Some (\<lparr>bt_name_off = 0, bt_info = 0x03000000, bt_union = 0, bt_words = [2, 1, 3]\<rparr>, 3)"
  by (subst skip_mods_and_typedefs.simps, simp add: demo_type btf_eval btf_void_def)+

lemma demo_composite:
  assumes "skip_mods_and_typedefs demo_btf ti = Some (t, ti')" "btf_is_composite t"
  shows "ti = 4 \<and> t = \<lparr>bt_name_off = 0, bt_info = 0x84000002, bt_union = 4,
                         bt_words = [17, 1, 0x03000000, 19, 1, 0x05000003]\<rparr> \<or>
         ti = 5 \<and> t = \<lparr>bt_name_off = 5, bt_info = 0x84000002, bt_union = 8,
                         bt_words = [15, 1, 0, 0, 4, 32]\<rparr>"
proof -
  from assms(1) obtain t0 where t0: "btf__type_by_id demo_btf ti = Some t0"
    by (subst (asm) skip_mods_and_typedefs.simps) (auto simp: bind_eq_Some_conv)
  then have "unat ti < 6" by (auto simp: btf__type_by_id_def btf__type_cnt_def demo_btf_def split: if_splits)
  then have "unat ti \<in> {0, 1, 2, 3, 4, 5}" by auto
  then have "(of_nat (unat ti) :: u32) \<in> {0, 1, 2, 3, 4, 5}"
    by (elim insertE) (simp_all only: of_nat_numeral of_nat_0 of_nat_1, simp_all)
  then have "ti \<in> {0, 1, 2, 3, 4, 5}" by simp
  then consider "ti = 0" | "ti = 1" | "ti = 2" | "ti = 3" | "ti = 4" | "ti = 5" by blast
  then show ?thesis
    using assms by cases (auto simp add: demo_skip demo_skip_more btf_eval btf_void_def)
qed

text \<open>The paths to the five named fields of the demo types.\<close>

lemma demo_members:
  assumes "skip_mods_and_typedefs demo_btf ti = Some (t, ti')" "btf_is_composite t"
    and "i < btf_vlen t" "btf_members t i = Some m"
  shows "(ti, i, mb_name_off m, mb_type m) \<in> {(4, 0, 17, 1), (4, 1, 19, 1), (5, 0, 15, 1), (5, 1, 0, 4)}"
proof -
  have i: "i = 0 \<or> i = 1" using assms(3) demo_composite [OF assms(1,2)]
    by (elim disjE conjE) (simp_all add: btf_eval less_2_cases_iff)
  from demo_composite [OF assms(1,2)] show ?thesis
  proof (elim disjE conjE)
    assume "ti = 4" "t = \<lparr>bt_name_off = 0, bt_info = 0x84000002, bt_union = 4,
                         bt_words = [17, 1, 0x03000000, 19, 1, 0x05000003]\<rparr>"
    with i assms(4) show ?thesis by (elim disjE) (simp_all add: btf_members_def btf_word_def, auto)
  next
    assume "ti = 5" "t = \<lparr>bt_name_off = 5, bt_info = 0x84000002, bt_union = 8,
                         bt_words = [15, 1, 0, 0, 4, 32]\<rparr>"
    with i assms(4) show ?thesis by (elim disjE) (simp_all add: btf_members_def btf_word_def, auto)
  qed
qed

lemma demo_paths:
  "named_path demo_btf ti nm p \<Longrightarrow>
     (ti, nm, p) \<in> {(4, ''b'', [0]), (4, ''c'', [1]), (5, ''a'', [0]), (5, ''b'', [1, 0]), (5, ''c'', [1, 1])}"
proof (induction rule: named_path.induct)
  case (direct ti t ti' i m nm)
  from demo_members [OF direct(1-4)] direct(5,6) show ?case
    by (elim insertE) (simp_all add: demo_names)
next
  case (nested ti t ti' i m nm p)
  from demo_members [OF nested(1-4)] nested(5) have "ti = 5" "i = 1" "mb_type m = 4"
    by (elim insertE; simp add: demo_names str_is_empty_def)+
  with nested(7) show ?case by auto
qed

lemma demo_unique: "unique_fields demo_btf"
  unfolding unique_fields_def by (auto dest!: demo_paths)

lemma demo_anon: "anon_ok demo_btf"
  unfolding anon_ok_def
proof (intro allI impI)
  fix ti t ti' i m
  assume s: "skip_mods_and_typedefs demo_btf ti = Some (t, ti')" "btf_is_composite t"
    and i: "i < btf_vlen t" "btf_members t i = Some m"
  from demo_members [OF s i]
  show "mb_name_off m = 0 \<longleftrightarrow> str_is_empty (btf__name_by_offset demo_btf (mb_name_off m))"
    by (elim insertE) (simp_all add: demo_names str_is_empty_def)
qed

theorem spec_arrays_bounded_witness: "length (sp_spec demo_field) \<le> length (sp_raw demo_field)"
  using spec_arrays_bounded [OF demo_parse demo_match] by simp



definition demo_cand :: core_cand where
  "demo_cand = \<lparr>cd_btf = demo_btf, cd_id = 5\<rparr>"

definition demo_result :: bpf_core_relo_res where
  "demo_result = (zero_res False)\<lparr>rr_orig_val := 4, rr_new_val := 4\<rparr>"

lemma demo_calc:
  "bpf_core_calc_relo BPF_CORE_FIELD_BYTE_OFFSET demo_field (Some demo_field) = Some (0, demo_result)"
proof -
  have "bpf_core_calc_field_relo BPF_CORE_FIELD_BYTE_OFFSET (Some demo_field) rv v =
      Some (0, rv\<lparr>rv_sz := 0, rv_val := 4\<rparr>, False)" for rv v
    by (simp add: bpf_core_calc_field_relo_def demo_field_def demo_by_id demo_type member_relo_def
        member_extent_def demo_skip btf_eval bitfield_window.simps Let_def)
  then show ?thesis
    by (simp add: bpf_core_calc_relo_def core_relo_is_field_based_def calc_field_res_def zero_res_def
        orig_part_def new_part_def set_orig_def set_new_def check_resize_def demo_result_def)
qed

lemma demo_run: "bpf_core_calc_relo_insn demo_btf demo_relo [demo_cand] = Some (0, [demo_cand], Some demo_result)"
proof -
  have k: "rl_kind demo_relo = BPF_CORE_FIELD_BYTE_OFFSET" "rl_type_id demo_relo = 5"
    by (simp_all add: demo_relo_def)
  have c: "cd_btf demo_cand = demo_btf" "cd_id demo_cand = 5" by (simp_all add: demo_cand_def)
  show ?thesis
    by (simp add: bpf_core_calc_relo_insn_def demo_parse k c demo_by_id demo_type demo_names demo_match
        demo_calc)
qed

theorem candidates_agree_witness:
  "cand_relo BPF_CORE_FIELD_BYTE_OFFSET demo_field demo_cand = Some (demo_result, 35)"
proof -
  have m: "cand_matches demo_field demo_cand"
    by (simp add: cand_matches_def demo_cand_def demo_match)
  have k: "rl_kind demo_relo = BPF_CORE_FIELD_BYTE_OFFSET" by (simp add: demo_relo_def)
  have off: "cand_relo BPF_CORE_FIELD_BYTE_OFFSET demo_field demo_cand = Some (r, off) \<Longrightarrow> off = 35" for r off
    by (auto simp: cand_relo_def demo_cand_def demo_match demo_calc) (simp add: demo_field_def)
  from candidates_agree [OF demo_run] show ?thesis
    using m off by (auto simp: k demo_parse Let_def)
qed

lemma format_spec_bounded_example:
  "\<exists>len out. bpf_core_format_spec 16 demo_field = Some (len, out) \<and> length out < 16"
proof -
  obtain parts where "format_parts demo_field = Some parts"
    by (simp add: format_parts_def demo_field_def demo_by_id demo_type core_relo_is_type_based_def
        core_relo_is_enumval_based_def core_relo_is_field_based_def Let_def)
  then obtain len out where run: "bpf_core_format_spec 16 demo_field = Some (len, out)"
    by (auto simp: bpf_core_format_spec_def Let_def)
  with format_spec_bounded [OF run] show ?thesis by auto
qed

end
