(* ===== verification/Btf_Load.thy ===== *)
theory Btf_Load
  imports Btf Strset
begin

text \<open>
  Reading BTF from bytes (\<open>lib/libbpf/src/btf.c\<close>, \<open>btf_new\<close> and what it calls). The raw data is
  a byte list that a file of the other byte order has swapped in place; a pointer into it is an
  offset. The pair of a result code and the object is what a function returns and leaves;
  \<open>None\<close> is an access outside the data, a write to a read-only mapping or a null dereference.
  The allocator's answers are arguments. The machine is little endian.
\<close>

section \<open>The object\<close>

record btf_header =
  bh_magic :: u16
  bh_version :: u8
  bh_flags :: u8
  bh_hdr_len :: u32
  bh_type_off :: u32
  bh_type_len :: u32
  bh_str_off :: u32
  bh_str_len :: u32
  bh_layout_off :: u32
  bh_layout_len :: u32

definition BTF_MAGIC :: u16 where "BTF_MAGIC = 0xEB9F"
definition BTF_MAX_NR_TYPES :: nat where "BTF_MAX_NR_TYPES = 0x7fffffff"
definition BTF_MAX_STR_OFFSET :: nat where "BTF_MAX_STR_OFFSET = 0x7fffffff"
definition sizeof_btf_header :: nat where "sizeof_btf_header = 32"
definition offsetofend_str_len :: nat where "offsetofend_str_len = 24"
definition sizeof_btf_type :: nat where "sizeof_btf_type = 12"

text \<open>\<open>struct btf\<close> while it is read: the offsets of the types are relative to the type section.\<close>

record btf_file =
  bf_hdr :: btf_header
  bf_raw :: "byte list"
  bf_mmap :: bool
  bf_swapped :: bool
  bf_hdr_extra :: bool
  bf_type_offs :: "nat list"
  bf_type_offs_cap :: nat
  bf_base :: "btf option"
  bf_named_start_id :: nat

definition rd16 :: "byte list \<Rightarrow> nat \<Rightarrow> u16" where "rd16 bs off = le_u16 (drop off bs)"
definition rd32 :: "byte list \<Rightarrow> nat \<Rightarrow> u32" where "rd32 bs off = le_u32 (drop off bs)"

definition byte_at :: "byte list \<Rightarrow> nat \<Rightarrow> byte option" where
  "byte_at bs i = (if i < length bs then Some (bs ! i) else None)"

definition header_of :: "byte list \<Rightarrow> btf_header" where
  "header_of h =
     \<lparr>bh_magic = rd16 h 0, bh_version = h ! 2, bh_flags = h ! 3, bh_hdr_len = rd32 h 4,
      bh_type_off = rd32 h 8, bh_type_len = rd32 h 12, bh_str_off = rd32 h 16,
      bh_str_len = rd32 h 20, bh_layout_off = rd32 h 24, bh_layout_len = rd32 h 28\<rparr>"

definition types_data :: "btf_file \<Rightarrow> nat" where
  "types_data bf = unat (bh_hdr_len (bf_hdr bf)) + unat (bh_type_off (bf_hdr bf))"

definition strs_data :: "btf_file \<Rightarrow> nat" where
  "strs_data bf = unat (bh_hdr_len (bf_hdr bf)) + unat (bh_str_off (bf_hdr bf))"

definition layout_data :: "btf_file \<Rightarrow> nat" where
  "layout_data bf = unat (bh_hdr_len (bf_hdr bf)) + unat (bh_layout_off (bf_hdr bf))"

abbreviation type_len :: "btf_file \<Rightarrow> nat" where
  "type_len bf \<equiv> unat (bh_type_len (bf_hdr bf))"

abbreviation str_len :: "btf_file \<Rightarrow> nat" where
  "str_len bf \<equiv> unat (bh_str_len (bf_hdr bf))"

abbreviation layout_len :: "btf_file \<Rightarrow> nat" where
  "layout_len bf \<equiv> unat (bh_layout_len (bf_hdr bf))"

definition file_start_id :: "btf_file \<Rightarrow> nat" where
  "file_start_id bf = (case bf_base bf of None \<Rightarrow> 1 | Some bb \<Rightarrow> btf__type_cnt bb)"

definition file_start_str_off :: "btf_file \<Rightarrow> nat" where
  "file_start_str_off bf =
     (case bf_base bf of None \<Rightarrow> 0 | Some bb \<Rightarrow> length (str_data bb) + start_str_off bb)"

text \<open>The type at bytes \<open>a\<close> to \<open>b\<close> of the type section: the next type begins at \<open>b\<close>.\<close>

definition type_at :: "byte list \<Rightarrow> nat \<Rightarrow> nat \<Rightarrow> btf_type" where
  "type_at bs a b =
     \<lparr>bt_name_off = rd32 bs a, bt_info = rd32 bs (a + 4), bt_union = rd32 bs (a + 8),
      bt_words = map (\<lambda>k. rd32 bs (a + sizeof_btf_type + 4 * k)) [0..<(b - a - sizeof_btf_type) div 4]\<rparr>"

definition file_types :: "btf_file \<Rightarrow> btf_type list" where
  "file_types bf =
     (let bs = drop (types_data bf) (bf_raw bf)
      in map (\<lambda>(a, b). type_at bs a b)
           (zip (bf_type_offs bf) (drop 1 (bf_type_offs bf @ [type_len bf]))))"

definition file_layout :: "btf_file \<Rightarrow> btf_layout list" where
  "file_layout bf =
     (let bs = drop (layout_data bf) (bf_raw bf)
      in map (\<lambda>i. \<lparr>ly_info_sz = bs ! (4 * i), ly_elem_sz = bs ! (4 * i + 1), ly_flags = rd16 bs (4 * i + 2)\<rparr>)
           [0..<layout_len bf div 4])"

definition file_strs :: "btf_file \<Rightarrow> string" where
  "file_strs bf = map (\<lambda>b. char_of (unat b)) (slice (strs_data bf) (str_len bf) (bf_raw bf))"

text \<open>The object as the reading functions see it.\<close>

definition the_btf :: "btf_file \<Rightarrow> btf" where
  "the_btf bf =
     Btf (bf_base bf) (file_start_id bf) (file_types bf) (file_start_str_off bf) (file_strs bf)
       0 (bf_named_start_id bf) (file_layout bf)"

section \<open>Byte order\<close>

definition bswap_16 :: "u16 \<Rightarrow> u16" where "bswap_16 w = le_u16 (rev (u16_le w))"
definition bswap_32 :: "u32 \<Rightarrow> u32" where "bswap_32 w = le_u32 (rev (u32_le w))"

text \<open>Swapping the \<open>k\<close> bytes at an offset, and \<open>n\<close> consecutive 32-bit words.\<close>

definition bswap_at :: "nat \<Rightarrow> nat \<Rightarrow> byte list \<Rightarrow> byte list option" where
  "bswap_at k off bs =
     (if off + k \<le> length bs then Some (take off bs @ rev (slice off k bs) @ drop (off + k) bs)
      else None)"

fun bswap_words :: "nat \<Rightarrow> nat \<Rightarrow> byte list \<Rightarrow> byte list option" where
  "bswap_words 0 off bs = Some bs"
| "bswap_words (Suc n) off bs = do { bs \<leftarrow> bswap_at 4 off bs; bswap_words n (off + 4) bs }"

text \<open>A swap in place of the object's data faults when the data is a read-only mapping.\<close>

definition bf_swap :: "(byte list \<Rightarrow> byte list option) \<Rightarrow> btf_file \<Rightarrow> btf_file option" where
  "bf_swap f bf =
     (if bf_mmap bf then None else do { bs \<leftarrow> f (bf_raw bf); Some (bf\<lparr>bf_raw := bs\<rparr>) })"

definition btf_bswap_hdr :: "nat \<Rightarrow> byte list \<Rightarrow> byte list option" where
  "btf_bswap_hdr hdr_len bs = do {
     bs \<leftarrow> bswap_at 2 0 bs;
     bs \<leftarrow> bswap_words 5 4 bs;
     if sizeof_btf_header \<le> hdr_len then bswap_words 2 24 bs else Some bs }"

section \<open>Header and sections\<close>

definition parse_hdr_sections :: "btf_file \<Rightarrow> nat \<Rightarrow> int" where
  "parse_hdr_sections bf hdr_len =
     (let h = bf_hdr bf;
          meta_left = length (bf_raw bf) - hdr_len;
          str_off = unat (bh_str_off h); type_off = unat (bh_type_off h);
          layout_off = unat (bh_layout_off h)
      in if meta_left < str_off + str_len bf then - EINVAL
         else if str_off < type_off + type_len bf then - EINVAL
         else if type_off mod 4 \<noteq> 0 then - EINVAL
         else if layout_len bf = 0 then 0
         else if layout_off mod 4 \<noteq> 0 then - EINVAL
         else if layout_off < type_off + type_len bf then - EINVAL
         else if str_off < layout_off + layout_len bf \<or> str_off < layout_off then - EINVAL
         else 0)"

definition parse_hdr_copy :: "btf_file \<Rightarrow> nat \<Rightarrow> (int \<times> btf_file) option" where
  "parse_hdr_copy bf hdr_len =
     (if length (bf_raw bf) < hdr_len then Some (- EINVAL, bf)
      else do {
        bf \<leftarrow> (if bf_swapped bf then bf_swap (btf_bswap_hdr hdr_len) bf else Some bf);
        let n = min hdr_len sizeof_btf_header;
            bf = bf\<lparr>bf_hdr := header_of (take n (bf_raw bf) @ replicate (sizeof_btf_header - n) 0),
                    bf_hdr_extra := list_ex (\<lambda>b. b \<noteq> 0)
                      (slice sizeof_btf_header (hdr_len - sizeof_btf_header) (bf_raw bf))\<rparr>
        in Some (parse_hdr_sections bf hdr_len, bf) })"

definition btf_parse_hdr :: "btf_file \<Rightarrow> (int \<times> btf_file) option" where
  "btf_parse_hdr bf =
     (if length (bf_raw bf) < offsetofend_str_len then Some (- EINVAL, bf)
      else
        let magic = rd16 (bf_raw bf) 0;
            hdr_len = rd32 (bf_raw bf) 4
        in if magic = bswap_16 BTF_MAGIC then
             let bf = bf\<lparr>bf_swapped := True\<rparr>;
                 hdr_len = bswap_32 hdr_len
             in if unat hdr_len < offsetofend_str_len then Some (- ENOTSUP, bf)
                else parse_hdr_copy bf (unat hdr_len)
           else if magic \<noteq> BTF_MAGIC then Some (- EINVAL, bf)
           else parse_hdr_copy bf (unat hdr_len))"

definition btf_parse_str_sec :: "btf_file \<Rightarrow> int option" where
  "btf_parse_str_sec bf =
     (if bf_base bf \<noteq> None \<and> str_len bf = 0 then Some 0
      else if str_len bf = 0 \<or> BTF_MAX_STR_OFFSET < str_len bf - 1 then Some (- EINVAL)
      else do {
        e \<leftarrow> byte_at (bf_raw bf) (strs_data bf + str_len bf - 1);
        if e \<noteq> 0 then Some (- EINVAL)
        else do {
          s \<leftarrow> byte_at (bf_raw bf) (strs_data bf);
          Some (if bf_base bf = None \<and> s \<noteq> 0 then - EINVAL else 0) } })"

text \<open>The flags of the \<open>n\<close> kinds from an offset on.\<close>

fun bswap_flags :: "nat \<Rightarrow> nat \<Rightarrow> byte list \<Rightarrow> byte list option" where
  "bswap_flags 0 off bs = Some bs"
| "bswap_flags (Suc n) off bs = do { bs \<leftarrow> bswap_at 2 (off + 2) bs; bswap_flags n (off + 4) bs }"

definition btf_parse_layout_sec :: "btf_file \<Rightarrow> (int \<times> btf_file) option" where
  "btf_parse_layout_sec bf =
     (if layout_len bf = 0 then Some (0, bf)
      else if layout_len bf mod 4 \<noteq> 0 then Some (- EINVAL, bf)
      else if bf_swapped bf then do {
        bf \<leftarrow> bf_swap (bswap_flags (layout_len bf div 4) (layout_data bf)) bf;
        Some (0, bf) }
      else Some (0, bf))"

section \<open>Types\<close>

definition btf_type_size_unknown :: "btf_layout list \<Rightarrow> btf option \<Rightarrow> btf_type \<Rightarrow> int" where
  "btf_type_size_unknown own base t =
     (let l = (if own = [] then (case base of None \<Rightarrow> [] | Some bb \<Rightarrow> layout bb) else own);
          kind = unat (btf_kind t)
      in if length l \<le> kind then - EINVAL
         else if unat (ly_info_sz (l ! kind)) mod 4 \<noteq> 0 then - EINVAL
         else if unat (ly_elem_sz (l ! kind)) mod 4 \<noteq> 0 then - EINVAL
         else int (sizeof_btf_type + unat (ly_info_sz (l ! kind)) +
                   btf_vlen t * unat (ly_elem_sz (l ! kind))))"

text \<open>The number of words after a type of a known kind.\<close>

definition rest_words :: "btf_type \<Rightarrow> nat option" where
  "rest_words t =
     (let k = btf_kind t; vlen = btf_vlen t
      in if k \<in> {BTF_KIND_FWD, BTF_KIND_CONST, BTF_KIND_VOLATILE, BTF_KIND_RESTRICT, BTF_KIND_PTR,
                 BTF_KIND_TYPEDEF, BTF_KIND_FUNC, BTF_KIND_FLOAT, BTF_KIND_TYPE_TAG} then Some 0
         else if k = BTF_KIND_INT then Some 1
         else if k = BTF_KIND_ENUM then Some (vlen * 2)
         else if k = BTF_KIND_ENUM64 then Some (vlen * 3)
         else if k = BTF_KIND_ARRAY then Some 3
         else if k = BTF_KIND_STRUCT \<or> k = BTF_KIND_UNION then Some (vlen * 3)
         else if k = BTF_KIND_FUNC_PROTO then Some (vlen * 2)
         else if k = BTF_KIND_VAR then Some 1
         else if k = BTF_KIND_DATASEC then Some (vlen * 3)
         else if k = BTF_KIND_DECL_TAG then Some 1
         else None)"

definition btf_type_size :: "btf_layout list \<Rightarrow> btf option \<Rightarrow> btf_type \<Rightarrow> int" where
  "btf_type_size own base t =
     (case rest_words t of
        Some n \<Rightarrow> int (sizeof_btf_type + 4 * n)
      | None \<Rightarrow> btf_type_size_unknown own base t)"

definition btf_bswap_type_base :: "nat \<Rightarrow> byte list \<Rightarrow> byte list option" where
  "btf_bswap_type_base off bs = bswap_words 3 off bs"

text \<open>Every word after the type is swapped; the result code is \<open>-EINVAL\<close> for an unknown kind.\<close>

definition btf_bswap_type_rest :: "btf_type \<Rightarrow> nat \<Rightarrow> byte list \<Rightarrow> (int \<times> byte list) option" where
  "btf_bswap_type_rest t off bs =
     (case rest_words t of
        None \<Rightarrow> Some (- EINVAL, bs)
      | Some n \<Rightarrow> do { bs \<leftarrow> bswap_words n (off + sizeof_btf_type) bs; Some (0, bs) })"

definition btf_add_type_idx_entry :: "(nat \<Rightarrow> bool) \<Rightarrow> btf_file \<Rightarrow> nat \<Rightarrow> int \<times> btf_file" where
  "btf_add_type_idx_entry alloc bf off =
     (let nr = length (bf_type_offs bf); cap = bf_type_offs_cap bf
      in if nr + 1 \<le> cap then (0, bf\<lparr>bf_type_offs := bf_type_offs bf @ [off]\<rparr>)
         else if BTF_MAX_NR_TYPES < nr + 1 \<or> \<not> alloc nr then (- ENOMEM, bf)
         else (0, bf\<lparr>bf_type_offs := bf_type_offs bf @ [off],
                     bf_type_offs_cap := add_mem_cnt cap nr BTF_MAX_NR_TYPES 1\<rparr>))"

text \<open>The rest of a round once the size is known: swap the words after the type, index the type.\<close>

definition finish_type ::
    "(nat \<Rightarrow> bool) \<Rightarrow> btf_file \<Rightarrow> btf_type \<Rightarrow> nat \<Rightarrow> int \<Rightarrow> (int \<times> btf_file) option" where
  "finish_type alloc bf t next_type type_size = do {
     (err, bf) \<leftarrow>
       (if \<not> bf_swapped bf then Some (0, bf)
        else if bf_mmap bf then None
        else do {
          (err, bs) \<leftarrow> btf_bswap_type_rest t (types_data bf + next_type) (bf_raw bf);
          Some (err, bf\<lparr>bf_raw := bs\<rparr>) });
     if err \<noteq> 0 then Some (- EINVAL, bf)
     else
       case btf_add_type_idx_entry alloc bf next_type of
         (err, bf) \<Rightarrow> Some (if err \<noteq> 0 then err else type_size, bf) }"

text \<open>One round of the loop: the size of the type read, or a negative error code.\<close>

definition parse_one_type :: "(nat \<Rightarrow> bool) \<Rightarrow> btf_file \<Rightarrow> nat \<Rightarrow> (int \<times> btf_file) option" where
  "parse_one_type alloc bf next_type = do {
     bf \<leftarrow> (if bf_swapped bf then bf_swap (btf_bswap_type_base (types_data bf + next_type)) bf
           else Some bf);
     if length (bf_raw bf) < types_data bf + next_type + sizeof_btf_type then None
     else
       let t = type_at (drop (types_data bf) (bf_raw bf)) next_type (next_type + sizeof_btf_type);
           type_size = btf_type_size (file_layout bf) (bf_base bf) t
       in if type_size < 0 then Some (type_size, bf)
          else if type_len bf < next_type + nat type_size then Some (- EINVAL, bf)
          else finish_type alloc bf t next_type type_size }"

lemma type_size_unknown_ge: "0 \<le> btf_type_size_unknown own base t \<Longrightarrow> 12 \<le> btf_type_size_unknown own base t"
  unfolding btf_type_size_unknown_def by (simp add: Let_def sizeof_btf_type_def split: if_splits)

lemma type_size_ge: "0 \<le> btf_type_size own base t \<Longrightarrow> 12 \<le> btf_type_size own base t"
  using type_size_unknown_ge
  by (auto simp: btf_type_size_def sizeof_btf_type_def split: option.splits)

lemma bf_swap_frame: "bf_swap f bf = Some bf' \<Longrightarrow> \<exists>bs. f (bf_raw bf) = Some bs \<and> bf' = bf\<lparr>bf_raw := bs\<rparr>"
  by (auto simp: bf_swap_def bind_eq_Some_conv split: if_splits)

lemma add_idx_frame:
  "btf_add_type_idx_entry alloc bf off = (err, bf') \<Longrightarrow>
     bf_hdr bf' = bf_hdr bf \<and> bf_raw bf' = bf_raw bf \<and> bf_base bf' = bf_base bf \<and>
     (err = 0 \<and> bf_type_offs bf' = bf_type_offs bf @ [off] \<or> err = - ENOMEM \<and> bf' = bf)"
  by (auto simp: btf_add_type_idx_entry_def Let_def split: if_splits)

lemma finish_type_frame:
  "finish_type alloc bf t next_type sz = Some (r, bf') \<Longrightarrow>
     bf_hdr bf' = bf_hdr bf \<and> bf_base bf' = bf_base bf \<and> (r < 0 \<or> r = sz)"
  by (auto simp: finish_type_def bind_eq_Some_conv dest!: add_idx_frame split: if_splits prod.splits)

text \<open>What a round does: it moves by the size of a type, at least the size of its header.\<close>

lemma parse_one_progress:
  assumes "parse_one_type alloc bf next_type = Some (sz, bf')" "\<not> sz < 0"
  shows "bf_hdr bf' = bf_hdr bf \<and> 12 \<le> sz \<and> next_type + nat sz \<le> type_len bf"
proof -
  obtain bf1 where b1: "(if bf_swapped bf then bf_swap (btf_bswap_type_base (types_data bf + next_type)) bf
      else Some bf) = Some bf1"
    using assms(1) by (auto simp: parse_one_type_def bind_eq_Some_conv split: if_splits)
  have h1: "bf_hdr bf1 = bf_hdr bf" using b1 by (auto dest!: bf_swap_frame split: if_splits)
  obtain t sz1 where t: "sz1 = btf_type_size (file_layout bf1) (bf_base bf1) t" "\<not> sz1 < 0"
      "next_type + nat sz1 \<le> type_len bf1" "finish_type alloc bf1 t next_type sz1 = Some (sz, bf')"
    using assms unfolding parse_one_type_def b1 by (auto simp: Let_def split: if_splits)
  have "sz = sz1" "bf_hdr bf' = bf_hdr bf1"
    using finish_type_frame [OF t(4)] assms(2) by auto
  moreover have "12 \<le> sz1" using type_size_ge t(1,2) by simp
  ultimately show ?thesis using t(3) h1 by auto
qed

function parse_types_loop :: "(nat \<Rightarrow> bool) \<Rightarrow> btf_file \<Rightarrow> nat \<Rightarrow> (int \<times> btf_file) option" where
  "parse_types_loop alloc bf next_type =
     (if next_type + sizeof_btf_type \<le> type_len bf then
        case parse_one_type alloc bf next_type of
          None \<Rightarrow> None
        | Some (sz, bf') \<Rightarrow>
            if sz < 0 then Some (sz, bf')
            else parse_types_loop alloc bf' (next_type + nat sz)
      else Some (if next_type \<noteq> type_len bf then - EINVAL else 0, bf))"
  by pat_completeness auto
termination
proof (relation "measure (\<lambda>(alloc, bf, n). type_len bf - n)")
  fix alloc bf n p sz and bf' :: btf_file
  assume a: "n + sizeof_btf_type \<le> type_len bf" "parse_one_type alloc bf n = Some p" "(sz, bf') = p" "\<not> sz < 0"
  then have "bf_hdr bf' = bf_hdr bf \<and> 12 \<le> sz" using parse_one_progress [of alloc bf n sz bf'] by auto
  with a show "((alloc, bf', n + nat sz), (alloc, bf, n)) \<in> measure (\<lambda>(alloc, bf, n). type_len bf - n)"
    by (auto simp: sizeof_btf_type_def)
qed simp

declare parse_types_loop.simps [simp del]

definition btf_parse_type_sec :: "(nat \<Rightarrow> bool) \<Rightarrow> btf_file \<Rightarrow> (int \<times> btf_file) option" where
  "btf_parse_type_sec alloc bf = parse_types_loop alloc bf 0"

section \<open>Validation\<close>

definition btf_validate_str :: "btf \<Rightarrow> u32 \<Rightarrow> int" where
  "btf_validate_str b str_off = (if btf__name_by_offset b str_off = None then - EINVAL else 0)"

definition btf_validate_id :: "btf \<Rightarrow> u32 \<Rightarrow> int" where
  "btf_validate_id b ti = (if btf__type_by_id b ti = None then - EINVAL else 0)"

text \<open>\<open>err ?: next\<close>, and the loops over the elements of a type.\<close>

definition err_or :: "int \<Rightarrow> int \<Rightarrow> int" where
  "err_or err e = (if err \<noteq> 0 then err else e)"

fun validate_loop :: "(nat \<Rightarrow> int option) \<Rightarrow> nat list \<Rightarrow> int option" where
  "validate_loop f [] = Some 0"
| "validate_loop f (i # is) = do {
     err \<leftarrow> f i;
     if err \<noteq> 0 then Some err else validate_loop f is }"

definition validate_member :: "btf \<Rightarrow> btf_type \<Rightarrow> nat \<Rightarrow> int option" where
  "validate_member b t i = do {
     m \<leftarrow> btf_members t i;
     Some (err_or (btf_validate_str b (mb_name_off m)) (btf_validate_id b (mb_type m))) }"

definition validate_enum :: "btf \<Rightarrow> btf_type \<Rightarrow> nat \<Rightarrow> int option" where
  "validate_enum b t i = do { n \<leftarrow> btf_enum_name_off t i; Some (btf_validate_str b n) }"

definition validate_param :: "btf \<Rightarrow> btf_type \<Rightarrow> nat \<Rightarrow> int option" where
  "validate_param b t i = do {
     n \<leftarrow> btf_word t (2 * i); ty \<leftarrow> btf_params_type t i;
     Some (err_or (btf_validate_str b n) (btf_validate_id b ty)) }"

definition validate_secinfo :: "btf \<Rightarrow> btf_type \<Rightarrow> nat \<Rightarrow> int option" where
  "validate_secinfo b t i = do { ty \<leftarrow> btf_word t (3 * i); Some (btf_validate_id b ty) }"

definition validate_kind :: "btf \<Rightarrow> btf_type \<Rightarrow> int option" where
  "validate_kind b t =
     (let k = btf_kind t; ids = [0..<btf_vlen t]
      in if k \<in> {BTF_KIND_UNKN, BTF_KIND_INT, BTF_KIND_FWD, BTF_KIND_FLOAT} then Some 0
         else if k \<in> {BTF_KIND_PTR, BTF_KIND_TYPEDEF, BTF_KIND_VOLATILE, BTF_KIND_CONST, BTF_KIND_RESTRICT,
                      BTF_KIND_VAR, BTF_KIND_DECL_TAG, BTF_KIND_TYPE_TAG}
         then Some (btf_validate_id b (bt_type t))
         else if k = BTF_KIND_ARRAY then do {
           a \<leftarrow> btf_array t;
           Some (err_or (btf_validate_id b (ar_type a)) (btf_validate_id b (ar_index_type a))) }
         else if k = BTF_KIND_STRUCT \<or> k = BTF_KIND_UNION then validate_loop (validate_member b t) ids
         else if k = BTF_KIND_ENUM \<or> k = BTF_KIND_ENUM64 then validate_loop (validate_enum b t) ids
         else if k = BTF_KIND_FUNC then
           (if btf_validate_id b (bt_type t) \<noteq> 0 then Some (- EINVAL)
            else do {
              ft \<leftarrow> btf__type_by_id b (bt_type t);
              Some (if btf_kind ft \<noteq> BTF_KIND_FUNC_PROTO then - EINVAL else 0) })
         else if k = BTF_KIND_FUNC_PROTO then validate_loop (validate_param b t) ids
         else if k = BTF_KIND_DATASEC then validate_loop (validate_secinfo b t) ids
         else if btf_type_size_unknown (layout b) (base_btf b) t < 0 then Some (- EINVAL)
         else Some 0)"

definition btf_validate_type :: "btf \<Rightarrow> btf_type \<Rightarrow> int option" where
  "btf_validate_type b t =
     (let err = btf_validate_str b (bt_name_off t)
      in if err \<noteq> 0 then Some err else validate_kind b t)"

definition btf_sanity_check :: "btf \<Rightarrow> int option" where
  "btf_sanity_check b =
     validate_loop (\<lambda>i. do { t \<leftarrow> btf_type_by_id b i; btf_validate_type b t })
       [start_id b..<btf__type_cnt b]"

section \<open>Order of the types\<close>

text \<open>\<open>strcmp\<close> compares unsigned characters.\<close>

fun strcmp :: "string \<Rightarrow> string \<Rightarrow> int" where
  "strcmp [] [] = 0"
| "strcmp [] (d # ds) = - 1"
| "strcmp (c # cs) [] = 1"
| "strcmp (c # cs) (d # ds) =
     (if c = d then strcmp cs ds else if (of_char c :: nat) < of_char d then - 1 else 1)"

text \<open>The name of a type; \<open>None\<close> is a dereferenced null pointer.\<close>

definition type_name :: "btf \<Rightarrow> nat \<Rightarrow> string option" where
  "type_name b i = do { t \<leftarrow> btf_type_by_id b i; btf__name_by_offset b (bt_name_off t) }"

fun check_sorted_loop :: "btf \<Rightarrow> nat list \<Rightarrow> nat \<Rightarrow> nat option" where
  "check_sorted_loop b [] named = Some named"
| "check_sorted_loop b (i # is) named = do {
     na \<leftarrow> type_name b (i - 1);
     nb \<leftarrow> type_name b i;
     if 0 < strcmp na nb then Some 0
     else
       let named = (if named = 0 \<and> na \<noteq> [] then i - 1 else named);
           named = (if named = 0 \<and> nb \<noteq> [] then i else named)
       in check_sorted_loop b is named }"

text \<open>The first named type of a sorted object, 0 otherwise.\<close>

definition btf_check_sorted :: "btf \<Rightarrow> nat option" where
  "btf_check_sorted b = check_sorted_loop b [start_id b + 1..<btf__type_cnt b] 0"

section \<open>Reading an object\<close>

text \<open>The answers of the allocator: the object, the copy of the data, and the type index.\<close>

record load_env =
  le_obj :: bool
  le_data :: bool
  le_offs :: "nat \<Rightarrow> bool"

definition btf_file_init :: "byte list \<Rightarrow> btf option \<Rightarrow> bool \<Rightarrow> btf_file" where
  "btf_file_init data base mmap =
     \<lparr>bf_hdr = header_of (replicate sizeof_btf_header 0), bf_raw = data, bf_mmap = mmap,
      bf_swapped = False, bf_hdr_extra = False, bf_type_offs = [], bf_type_offs_cap = 0,
      bf_base = base, bf_named_start_id = 0\<rparr>"

text \<open>The steps of \<open>btf_new\<close> after the header.\<close>

definition load_sections :: "(nat \<Rightarrow> bool) \<Rightarrow> btf_file \<Rightarrow> (int \<times> btf_file) option" where
  "load_sections alloc bf = do {
     err \<leftarrow> btf_parse_str_sec bf;
     (err, bf) \<leftarrow> (if err \<noteq> 0 then Some (err, bf) else btf_parse_layout_sec bf);
     (err, bf) \<leftarrow> (if err \<noteq> 0 then Some (err, bf) else btf_parse_type_sec alloc bf);
     err \<leftarrow> (if err \<noteq> 0 then Some err else btf_sanity_check (the_btf bf));
     Some (err, bf) }"

definition btf_new :: "load_env \<Rightarrow> byte list \<Rightarrow> btf option \<Rightarrow> bool \<Rightarrow> (int + btf_file) option" where
  "btf_new env data base mmap =
     (if \<not> le_obj env then Some (Inl ENOMEM)
      else if \<not> mmap \<and> \<not> le_data env then Some (Inl ENOMEM)
      else do {
        (err, bf) \<leftarrow> btf_parse_hdr (btf_file_init data base mmap);
        if err \<noteq> 0 then Some (Inl (- err))
        else do {
          (err, bf) \<leftarrow> load_sections (le_offs env) bf;
          if err \<noteq> 0 then Some (Inl (- err))
          else do {
            named \<leftarrow> btf_check_sorted (the_btf bf);
            Some (Inr (bf\<lparr>bf_named_start_id := named\<rparr>)) } } })"

end
