(* ===== verification/Btf_Wf.thy ===== *)
theory Btf_Wf
  imports Btf_Load "HOL-Library.List_Lexorder"
begin

text \<open>
  Well-formed BTF: what libbpf's validation establishes and its readers rely on. Every
  reference of a type names a type, every name is a string, strings end in NUL, the words after
  a type are those its kind has, and the index of named types is that of a sorted object. On
  such an object no reader is stuck.
\<close>

section \<open>Well-formedness\<close>

text \<open>The type ids and the strings that a type names.\<close>

definition type_refs :: "btf_type \<Rightarrow> u32 list" where
  "type_refs t =
     (let k = btf_kind t
      in if k \<in> {BTF_KIND_PTR, BTF_KIND_TYPEDEF, BTF_KIND_VOLATILE, BTF_KIND_CONST, BTF_KIND_RESTRICT,
                 BTF_KIND_VAR, BTF_KIND_DECL_TAG, BTF_KIND_TYPE_TAG, BTF_KIND_FUNC} then [bt_type t]
         else if k = BTF_KIND_ARRAY then map (\<lambda>i. bt_words t ! i) [0, 1]
         else if k = BTF_KIND_STRUCT \<or> k = BTF_KIND_UNION
         then map (\<lambda>i. bt_words t ! (3 * i + 1)) [0..<btf_vlen t]
         else if k = BTF_KIND_FUNC_PROTO then map (\<lambda>i. bt_words t ! (2 * i + 1)) [0..<btf_vlen t]
         else if k = BTF_KIND_DATASEC then map (\<lambda>i. bt_words t ! (3 * i)) [0..<btf_vlen t]
         else [])"

definition type_strs :: "btf_type \<Rightarrow> u32 list" where
  "type_strs t =
     (let k = btf_kind t
      in bt_name_off t #
         (if k \<in> {BTF_KIND_STRUCT, BTF_KIND_UNION, BTF_KIND_ENUM64}
          then map (\<lambda>i. bt_words t ! (3 * i)) [0..<btf_vlen t]
          else if k \<in> {BTF_KIND_ENUM, BTF_KIND_FUNC_PROTO}
          then map (\<lambda>i. bt_words t ! (2 * i)) [0..<btf_vlen t]
          else []))"

definition words_ok :: "btf_type \<Rightarrow> bool" where
  "words_ok t \<longleftrightarrow> (case rest_words t of None \<Rightarrow> True | Some n \<Rightarrow> length (bt_words t) = n)"

definition wf_type :: "btf \<Rightarrow> btf_type \<Rightarrow> bool" where
  "wf_type b t \<longleftrightarrow>
     words_ok t \<and>
     (\<forall>r\<in>set (type_refs t). btf__type_by_id b r \<noteq> None) \<and>
     (\<forall>s\<in>set (type_strs t). btf__name_by_offset b s \<noteq> None) \<and>
     (btf_kind t = BTF_KIND_FUNC \<longrightarrow>
        (\<exists>ft. btf__type_by_id b (bt_type t) = Some ft \<and> btf_kind ft = BTF_KIND_FUNC_PROTO))"

text \<open>The key that \<open>strcmp\<close> compares.\<close>

definition name_key :: "string \<Rightarrow> nat list" where
  "name_key s = map of_char s"

lemma name_key_inj [simp]: "name_key s = name_key t \<longleftrightarrow> s = t"
proof -
  have "inj (of_char :: char \<Rightarrow> nat)" by (rule injI) simp
  then show ?thesis by (simp add: name_key_def inj_map_eq_map)
qed

lemma strcmp_key:
  "strcmp s t = (if s = t then 0 else if name_key s < name_key t then - 1 else 1)"
  by (induction s t rule: strcmp.induct) (auto simp: name_key_def)

lemma strcmp_le: "strcmp s t \<le> 0 \<longleftrightarrow> name_key s \<le> name_key t"
  by (auto simp: strcmp_key less_le)

lemma strcmp_eq: "strcmp s t = 0 \<longleftrightarrow> s = t"
  by (auto simp: strcmp_key)

text \<open>The names of an object's own types, in the order of the ids.\<close>

definition own_names :: "btf \<Rightarrow> string list" where
  "own_names b = map (\<lambda>i. the (type_name b i)) [start_id b..<btf__type_cnt b]"

definition named_ok :: "btf \<Rightarrow> bool" where
  "named_ok b \<longleftrightarrow>
     named_start_id b = 0 \<or>
     start_id b \<le> named_start_id b \<and> named_start_id b < btf__type_cnt b \<and>
     sorted_wrt (\<lambda>x y. strcmp x y \<le> 0) (own_names b) \<and>
     (\<forall>i\<in>{start_id b..<named_start_id b}. type_name b i = Some [])"

fun wf_btf :: "btf \<Rightarrow> bool" where
  "wf_btf (Btf base sid ts so ss p nm ly) \<longleftrightarrow>
     (case base of
        None \<Rightarrow> sid = 1 \<and> so = 0 \<and> ss \<noteq> [] \<and> hd ss = CHR 0x00
      | Some bb \<Rightarrow> wf_btf bb \<and> sid = btf__type_cnt bb \<and> so = length (str_data bb) + start_str_off bb) \<and>
     (ss \<noteq> [] \<longrightarrow> List.last ss = CHR 0x00) \<and>
     (\<forall>t\<in>set ts. wf_type (Btf base sid ts so ss p nm ly) t) \<and>
     named_ok (Btf base sid ts so ss p nm ly)"

lemma wf_btf_def':
  "wf_btf b \<longleftrightarrow>
     (case base_btf b of
        None \<Rightarrow> start_id b = 1 \<and> start_str_off b = 0 \<and> str_data b \<noteq> [] \<and> hd (str_data b) = CHR 0x00
      | Some bb \<Rightarrow> wf_btf bb \<and> start_id b = btf__type_cnt bb \<and>
          start_str_off b = length (str_data bb) + start_str_off bb) \<and>
     (str_data b \<noteq> [] \<longrightarrow> List.last (str_data b) = CHR 0x00) \<and>
     (\<forall>t\<in>set (btf_types b). wf_type b t) \<and> named_ok b"
  by (cases b) (simp split: option.split)

lemma type_by_id_def':
  "btf_type_by_id b ti =
     (if ti = 0 then Some btf_void
      else if ti < start_id b then (case base_btf b of None \<Rightarrow> None | Some bb \<Rightarrow> btf_type_by_id bb ti)
      else if ti - start_id b < length (btf_types b) then Some (btf_types b ! (ti - start_id b)) else None)"
  by (cases b) simp

lemma str_by_offset_def':
  "str_by_offset b off =
     (if off < start_str_off b then (case base_btf b of None \<Rightarrow> None | Some bb \<Rightarrow> str_by_offset bb off)
      else if off - start_str_off b < length (str_data b)
      then Some (takeWhile (\<lambda>c. c \<noteq> CHR 0x00) (drop (off - start_str_off b) (str_data b)))
      else None)"
  by (cases b) simp

section \<open>Ids and names\<close>

lemma start_id_pos: "wf_btf b \<Longrightarrow> 1 \<le> start_id b"
proof (induction b)
  case (Btf base sid ts so ss p nm ly)
  then show ?case by (cases base) (auto simp: btf__type_cnt_def)
qed

lemma type_by_id_some: "wf_btf b \<Longrightarrow> ti < btf__type_cnt b \<Longrightarrow> \<exists>t. btf_type_by_id b ti = Some t"
proof (induction b)
  case (Btf base sid ts so ss p nm ly)
  then show ?case by (cases base) (auto simp: btf__type_cnt_def)
qed

lemma type_by_id_own:
  "wf_btf b \<Longrightarrow> start_id b \<le> ti \<Longrightarrow> ti < btf__type_cnt b \<Longrightarrow>
     btf_type_by_id b ti = Some (btf_types b ! (ti - start_id b))"
  using start_id_pos [of b] by (subst type_by_id_def') (auto simp: btf__type_cnt_def)

text \<open>A reference that is valid in the base object names the same type above it.\<close>

lemma base_type:
  assumes "base_btf b = Some bb" "wf_btf b" "btf__type_by_id bb r \<noteq> None"
  shows "btf__type_by_id b r = btf__type_by_id bb r"
proof -
  have s: "start_id b = btf__type_cnt bb" using assms(1,2) by (simp add: wf_btf_def')
  have r: "unat r < btf__type_cnt bb" using assms(3) by (auto simp: btf__type_by_id_def split: if_splits)
  have z: "btf_type_by_id bb 0 = Some btf_void" by (subst type_by_id_def') simp
  show ?thesis
    using r s assms(1) z
    by (simp add: btf__type_by_id_def btf__type_cnt_def [of b] type_by_id_def' [of b])
qed

lemma base_name:
  assumes "base_btf b = Some bb" "wf_btf b" "btf__name_by_offset bb s \<noteq> None"
  shows "btf__name_by_offset b s = btf__name_by_offset bb s"
proof -
  have len: "off < start_str_off c + length (str_data c)" if "str_by_offset c off \<noteq> None" for c off
    using that by (subst (asm) str_by_offset_def') (auto split: if_splits)
  have "unat s < start_str_off b"
    using len [of bb "unat s"] assms by (simp add: wf_btf_def' btf__name_by_offset_def add.commute)
  then show ?thesis
    using assms(1) by (simp add: btf__name_by_offset_def str_by_offset_def' [of b])
qed

lemma wf_type_base:
  assumes "base_btf b = Some bb" "wf_btf b" "wf_type bb t"
  shows "wf_type b t"
proof -
  have s: "btf__name_by_offset b x \<noteq> None" if "btf__name_by_offset bb x \<noteq> None" for x
    using base_name [OF assms(1,2) that] that by simp
  have f: "btf__type_by_id b x = Some ft" if "btf__type_by_id bb x = Some ft" for x ft
    using base_type [OF assms(1,2)] that by simp
  then have r: "btf__type_by_id b x \<noteq> None" if "btf__type_by_id bb x \<noteq> None" for x
    using that by auto
  show ?thesis using assms(3) s r f unfolding wf_type_def by blast
qed

lemma void_wf: "wf_btf b \<Longrightarrow> wf_type b btf_void"
proof (induction b)
  case (Btf base sid ts so ss p nm ly)
  show ?case
  proof (cases base)
    case None
    then have "btf__name_by_offset (Btf base sid ts so ss p nm ly) 0 \<noteq> None"
      using Btf.prems by (simp add: btf__name_by_offset_def)
    then show ?thesis
      by (simp add: wf_type_def words_ok_def rest_words_def type_refs_def type_strs_def btf_void_def
          btf_kind_def btf_kinds)
  next
    case (Some bb)
    then show ?thesis
      using Btf by (intro wf_type_base [of "Btf base sid ts so ss p nm ly" bb]) auto
  qed
qed

lemma wf_type_by_id:
  "wf_btf b \<Longrightarrow> btf_type_by_id b ti = Some t \<Longrightarrow> wf_type b t"
proof (induction b)
  case (Btf base sid ts so ss p nm ly)
  let ?b = "Btf base sid ts so ss p nm ly"
  consider "ti = 0" | "ti \<noteq> 0" "ti < sid" | "sid \<le> ti" "ti \<noteq> 0" by linarith
  then show ?case
  proof cases
    case 1
    then show ?thesis using Btf.prems void_wf [of ?b] by simp
  next
    case 2
    then obtain bb where b: "base = Some bb" "btf_type_by_id bb ti = Some t"
      using Btf.prems(2) by (auto split: option.splits)
    then have "wf_type bb t" using Btf by (auto split: option.splits)
    then show ?thesis using b(1) by (intro wf_type_base [of ?b bb t] Btf.prems(1)) simp_all
  next
    case 3
    then have "t \<in> set ts" using Btf.prems(2) by (auto split: if_splits)
    then show ?thesis using Btf.prems(1) by simp
  qed
qed

lemma wf_type_lookup: "wf_btf b \<Longrightarrow> btf__type_by_id b r = Some t \<Longrightarrow> wf_type b t"
  by (auto simp: btf__type_by_id_def intro: wf_type_by_id split: if_splits)

lemma type_name_some: "wf_btf b \<Longrightarrow> i < btf__type_cnt b \<Longrightarrow> \<exists>s. type_name b i = Some s"
  using type_by_id_some [of b i] wf_type_by_id [of b i]
  by (fastforce simp: type_name_def wf_type_def type_strs_def Let_def)

lemma lookup_some: "wf_btf b \<Longrightarrow> unat r < btf__type_cnt b \<Longrightarrow> \<exists>t. btf__type_by_id b r = Some t"
  using type_by_id_some [of b "unat r"] by (simp add: btf__type_by_id_def)

text \<open>Names are terminated inside the string section.\<close>

lemma string_terminated:
  assumes "wf_btf b" "str_by_offset b off = Some s"
  shows "\<exists>c. wf_btf c \<and> start_str_off c \<le> off \<and>
    off - start_str_off c + length s < length (str_data c) \<and>
    str_data c ! (off - start_str_off c + length s) = CHR 0x00"
  using assms
proof (induction b)
  case (Btf base sid ts so ss p nm ly)
  let ?b = "Btf base sid ts so ss p nm ly"
  show ?case
  proof (cases "off < so")
    case True
    then obtain bb where "base = Some bb" "str_by_offset bb off = Some s"
      using Btf.prems by (auto split: option.splits)
    then show ?thesis using Btf by (auto split: option.splits)
  next
    case False
    define d where "d = drop (off - so) ss"
    have s: "s = takeWhile (\<lambda>c. c \<noteq> CHR 0x00) d" "off - so < length ss" "\<not> off < so"
      using Btf.prems(2) False by (auto simp: d_def split: if_splits)
    have "List.last ss = CHR 0x00" using Btf.prems(1) s(2) by auto
    then have "List.last d = CHR 0x00" "d \<noteq> []" using s(2) by (simp_all add: d_def)
    then have "\<exists>c\<in>set d. c = CHR 0x00" by (metis last_in_set)
    then have l: "length s < length d" unfolding s(1)
      by (metis (mono_tags, lifting) length_takeWhile_le nat_less_le set_takeWhileD takeWhile_eq_take take_all_iff)
    have "d ! length s = CHR 0x00" using nth_length_takeWhile [OF l [unfolded s(1)]] s(1) by simp
    then show ?thesis
      using l Btf.prems(1) s(2,3) by (intro exI [of _ ?b]) (auto simp: d_def)
  qed
qed

text \<open>None of this depends on the index of named types.\<close>

lemma named_irrelevant:
  "btf__type_by_id (Btf base sid ts so ss p nm ly) = btf__type_by_id (Btf base sid ts so ss p nm' ly)"
  "btf__name_by_offset (Btf base sid ts so ss p nm ly) = btf__name_by_offset (Btf base sid ts so ss p nm' ly)"
  "wf_type (Btf base sid ts so ss p nm ly) = wf_type (Btf base sid ts so ss p nm' ly)"
  "type_name (Btf base sid ts so ss p nm ly) = type_name (Btf base sid ts so ss p nm' ly)"
proof -
  show 1: "btf__type_by_id (Btf base sid ts so ss p nm ly) = btf__type_by_id (Btf base sid ts so ss p nm' ly)"
    "btf__name_by_offset (Btf base sid ts so ss p nm ly) = btf__name_by_offset (Btf base sid ts so ss p nm' ly)"
    by (intro ext, simp add: btf__type_by_id_def btf__type_cnt_def btf__name_by_offset_def)+
  show "wf_type (Btf base sid ts so ss p nm ly) = wf_type (Btf base sid ts so ss p nm' ly)"
    by (intro ext) (simp only: wf_type_def 1)
  show "type_name (Btf base sid ts so ss p nm ly) = type_name (Btf base sid ts so ss p nm' ly)"
    by (intro ext) (simp add: type_name_def btf__name_by_offset_def)
qed

end
