(* ===== verification/Btf_Demo.thy ===== *)
theory Btf_Demo
  imports Btf_Load
begin

text \<open>
  A small BTF file, \<open>int\<close> alone in 45 bytes with the 24-byte header, and each step of reading
  it evaluated.
\<close>

section \<open>Words of literal bytes\<close>

lemma le_enc_2: "le_enc 2 v = [of_nat v, of_nat (v div 256)]"
  by (simp add: numeral_2_eq_2)

lemma rd16_lit: "drop off bs = a # b # xs \<Longrightarrow> rd16 bs off = of_nat (unat a + 256 * unat b)"
  by (simp add: rd16_def le_u16_def)

lemma rd32_lit:
  "drop off bs = a # b # c # d # xs \<Longrightarrow>
     rd32 bs off = of_nat (unat a + 256 * unat b + 65536 * unat c + 16777216 * unat d)"
  by (simp add: rd32_def le_u32_def)

lemma rd32_drop: "rd32 (drop n bs) off = rd32 bs (n + off)"
  by (simp add: rd32_def add.commute)

lemma bswap_magic: "bswap_16 BTF_MAGIC = 0x9FEB"
  by (simp add: bswap_16_def BTF_MAGIC_def u16_le_def le_u16_def le_enc_2)

section \<open>The file\<close>

definition demo_image :: "byte list" where
  "demo_image =
     [0x9F, 0xEB, 1, 0, 24, 0, 0, 0, 0, 0, 0, 0, 16, 0, 0, 0, 16, 0, 0, 0, 5, 0, 0, 0] @
     [1, 0, 0, 0, 0, 0, 0, 1, 4, 0, 0, 0, 0x20, 0, 0, 0] @ [0, 0x69, 0x6E, 0x74, 0]"

definition image_hdr :: btf_header where
  "image_hdr =
     \<lparr>bh_magic = 0xEB9F, bh_version = 1, bh_flags = 0, bh_hdr_len = 24, bh_type_off = 0,
      bh_type_len = 16, bh_str_off = 16, bh_str_len = 5, bh_layout_off = 0, bh_layout_len = 0\<rparr>"

definition image_file :: "nat list \<Rightarrow> nat \<Rightarrow> btf_file" where
  "image_file offs cap =
     \<lparr>bf_hdr = image_hdr, bf_raw = demo_image, bf_mmap = False, bf_swapped = False,
      bf_hdr_extra = False, bf_type_offs = offs, bf_type_offs_cap = cap, bf_base = None,
      bf_named_start_id = 0\<rparr>"

definition image_btf :: btf where
  "image_btf =
     Btf None 1 [\<lparr>bt_name_off = 1, bt_info = 0x01000000, bt_union = 4, bt_words = [32]\<rparr>] 0
       [CHR 0x00, CHR ''i'', CHR ''n'', CHR ''t'', CHR 0x00] 0 0 []"

definition all_ok :: load_env where
  "all_ok = \<lparr>le_obj = True, le_data = True, le_offs = \<lambda>_. True\<rparr>"

section \<open>Reading it\<close>

lemmas image_sel = image_file_def image_hdr_def types_data_def strs_data_def layout_data_def

lemma image_drops:
  "drop 0 demo_image = 0x9F # 0xEB # drop 2 demo_image"
  "drop 4 demo_image = 24 # 0 # 0 # 0 # drop 8 demo_image"
  "drop 24 demo_image = 1 # 0 # 0 # 0 # drop 28 demo_image"
  "drop 28 demo_image = 0 # 0 # 0 # 1 # drop 32 demo_image"
  "drop 32 demo_image = 4 # 0 # 0 # 0 # drop 36 demo_image"
  "drop 36 demo_image = 0x20 # 0 # 0 # 0 # drop 40 demo_image"
  "drop 40 demo_image = [0, 0x69, 0x6E, 0x74, 0]"
  by (simp_all add: demo_image_def)

lemma image_words:
  "rd16 demo_image 0 = 0xEB9F" "rd32 demo_image 4 = 24" "rd32 demo_image 28 = 0x01000000"
  "rd32 demo_image 24 = 1" "rd32 demo_image 32 = 4" "rd32 demo_image 36 = 32" "length demo_image = 45"
  using image_drops(1-6)
  by (simp_all add: rd16_lit rd32_lit del: drop0) (simp_all add: demo_image_def)

lemma image_header: "header_of (take 24 demo_image @ replicate 8 0) = image_hdr"
proof -
  have zeros: "replicate 8 (0 :: byte) = [0, 0, 0, 0, 0, 0, 0, 0]"
    by (simp add: numeral_eq_Suc)
  have "take 24 demo_image @ replicate 8 0 =
      [0x9F, 0xEB, 1, 0, 24, 0, 0, 0, 0, 0, 0, 0, 16, 0, 0, 0, 16, 0, 0, 0, 5, 0, 0, 0,
       0, 0, 0, 0, 0, 0, 0, 0]"
    by (simp only: zeros) (simp add: demo_image_def)
  then show ?thesis by (simp add: header_of_def image_hdr_def rd16_lit rd32_lit)
qed

lemma image_parse_hdr: "btf_parse_hdr (btf_file_init demo_image None False) = Some (0, image_file [] 0)"
  unfolding image_file_def
  by (simp add: btf_parse_hdr_def btf_file_init_def bswap_magic [unfolded BTF_MAGIC_def] BTF_MAGIC_def
      image_words offsetofend_str_len_def parse_hdr_copy_def Let_def sizeof_btf_header_def image_header
      parse_hdr_sections_def slice_def image_hdr_def)

lemma image_strs: "btf_parse_str_sec (image_file [] 0) = Some 0"
  by (simp add: btf_parse_str_sec_def image_sel BTF_MAX_STR_OFFSET_def byte_at_def image_words)
    (simp add: demo_image_def)

lemma image_layout: "btf_parse_layout_sec (image_file [] 0) = Some (0, image_file [] 0)"
  by (simp add: btf_parse_layout_sec_def image_sel)

lemma image_one_type: "parse_one_type (\<lambda>_. True) (image_file [] 0) 0 = Some (16, image_file [0] 16)"
  by (simp add: parse_one_type_def Let_def image_sel image_words sizeof_btf_type_def type_at_def rd32_drop
      btf_type_size_def rest_words_def btf_kind_def btf_vlen_def btf_kinds finish_type_def
      btf_add_type_idx_entry_def BTF_MAX_NR_TYPES_def add_mem_cnt_def)

lemma image_types: "btf_parse_type_sec (\<lambda>_. True) (image_file [] 0) = Some (0, image_file [0] 16)"
proof -
  have "type_len (image_file offs cap) = 16" for offs cap by (simp add: image_sel)
  then show ?thesis
    by (simp add: btf_parse_type_sec_def parse_types_loop.simps image_one_type sizeof_btf_type_def)
qed

lemma image_the_btf: "the_btf (image_file [0] 16) = image_btf"
  by (simp add: the_btf_def image_btf_def image_sel file_start_id_def file_types_def file_start_str_off_def
      file_layout_def type_at_def rd32_drop image_words sizeof_btf_type_def upt_rec)
    (simp add: file_strs_def image_sel slice_def image_drops char_of_def bit_0)

lemma image_sane: "btf_sanity_check image_btf = Some 0"
  by (simp add: image_btf_def btf_sanity_check_def btf__type_cnt_def upt_rec btf_validate_type_def
      btf_validate_str_def btf__name_by_offset_def validate_kind_def btf_kind_def btf_kinds)

lemma image_sorted: "btf_check_sorted image_btf = Some 0"
  by (simp add: image_btf_def btf_check_sorted_def btf__type_cnt_def)

lemma image_loads: "btf_new all_ok demo_image None False = Some (Inr (image_file [0] 16))"
  using image_parse_hdr image_strs image_layout image_types image_sane image_sorted
  by (simp add: btf_new_def load_sections_def all_ok_def image_the_btf) (simp add: image_file_def)

end
