(* ===== verification/Btf_Load_Props.thy ===== *)
theory Btf_Load_Props
  imports Btf_Wf Btf_Demo
begin

text \<open>
  Reading BTF is safe: whatever the bytes, \<open>btf_new\<close> stays inside them, and the object it
  accepts is well formed.
\<close>

section \<open>Bytes and swaps\<close>

text \<open>The two lists agree outside the bytes from \<open>a\<close> to \<open>b\<close>.\<close>

definition same_outside :: "nat \<Rightarrow> nat \<Rightarrow> byte list \<Rightarrow> byte list \<Rightarrow> bool" where
  "same_outside a b xs ys \<longleftrightarrow> length ys = length xs \<and> (\<forall>i<length xs. i < a \<or> b \<le> i \<longrightarrow> ys ! i = xs ! i)"

lemma same_outside_refl [simp]: "same_outside a b xs xs"
  by (simp add: same_outside_def)

lemma same_outside_trans:
  "same_outside a b xs ys \<Longrightarrow> same_outside c d ys zs \<Longrightarrow> e \<le> a \<Longrightarrow> e \<le> c \<Longrightarrow> b \<le> f \<Longrightarrow> d \<le> f \<Longrightarrow>
     same_outside e f xs zs"
  by (simp add: same_outside_def)

lemma same_outside_mono: "same_outside a b xs ys \<Longrightarrow> e \<le> a \<Longrightarrow> b \<le> f \<Longrightarrow> same_outside e f xs ys"
  by (simp add: same_outside_def)

lemma same_outside_slice:
  assumes "same_outside a b xs ys" "off + n \<le> a \<or> b \<le> off"
  shows "slice off n ys = slice off n xs"
  using assms by (intro nth_equalityI) (auto simp: same_outside_def slice_def)

lemma bswap_at_ok:
  "off + k \<le> length bs \<Longrightarrow> \<exists>bs'. bswap_at k off bs = Some bs' \<and> same_outside off (off + k) bs bs'"
  by (auto simp: bswap_at_def same_outside_def nth_append slice_def)

lemma bswap_words_ok:
  "off + 4 * n \<le> length bs \<Longrightarrow>
     \<exists>bs'. bswap_words n off bs = Some bs' \<and> same_outside off (off + 4 * n) bs bs'"
proof (induction n arbitrary: off bs)
  case (Suc n)
  then obtain bs1 where b: "bswap_at 4 off bs = Some bs1" "same_outside off (off + 4) bs bs1"
    using bswap_at_ok [of off 4 bs] by auto
  then have "off + 4 + 4 * n \<le> length bs1" using Suc.prems by (simp add: same_outside_def)
  from Suc.IH [OF this] obtain bs2 where
    c: "bswap_words n (off + 4) bs1 = Some bs2" "same_outside (off + 4) (off + 4 + 4 * n) bs1 bs2"
    by auto
  have "same_outside off (off + 4 * Suc n) bs bs2"
    by (rule same_outside_trans [OF b(2) c(2)]) auto
  then show ?case using b(1) c(1) by simp
qed simp

lemma bswap_flags_ok:
  "off + 4 * n \<le> length bs \<Longrightarrow>
     \<exists>bs'. bswap_flags n off bs = Some bs' \<and> same_outside off (off + 4 * n) bs bs'"
proof (induction n arbitrary: off bs)
  case (Suc n)
  then obtain bs1 where b: "bswap_at 2 (off + 2) bs = Some bs1" "same_outside (off + 2) (off + 2 + 2) bs bs1"
    using bswap_at_ok [of "off + 2" 2 bs] by auto
  then have "off + 4 + 4 * n \<le> length bs1" using Suc.prems by (simp add: same_outside_def)
  from Suc.IH [OF this] obtain bs2 where
    c: "bswap_flags n (off + 4) bs1 = Some bs2" "same_outside (off + 4) (off + 4 + 4 * n) bs1 bs2"
    by auto
  have "same_outside off (off + 4 * Suc n) bs bs2"
    by (rule same_outside_trans [OF b(2) c(2)]) auto
  then show ?case using b(1) c(1) by simp
qed simp

lemma btf_bswap_hdr_ok:
  assumes "24 \<le> length bs" "hdr_len \<le> length bs"
  shows "\<exists>bs'. btf_bswap_hdr hdr_len bs = Some bs' \<and> length bs' = length bs"
proof -
  obtain bs1 where b1: "bswap_at 2 0 bs = Some bs1" "same_outside 0 2 bs bs1"
    using bswap_at_ok [of 0 2 bs] assms by (auto simp: numeral_2_eq_2)
  then have l1: "length bs1 = length bs" by (simp add: same_outside_def)
  obtain bs2 where b2: "bswap_words 5 4 bs1 = Some bs2" "same_outside 4 24 bs1 bs2"
    using bswap_words_ok [of 4 5 bs1] assms l1 by auto
  then have l2: "length bs2 = length bs" using l1 by (simp add: same_outside_def)
  show ?thesis
  proof (cases "sizeof_btf_header \<le> hdr_len")
    case True
    then obtain bs3 where "bswap_words 2 24 bs2 = Some bs3" "same_outside 24 32 bs2 bs3"
      using bswap_words_ok [of 24 2 bs2] assms l2 by (auto simp: sizeof_btf_header_def)
    then show ?thesis using b1(1) b2(1) l2 True by (simp add: btf_bswap_hdr_def same_outside_def)
  next
    case False
    then show ?thesis using b1(1) b2(1) l2 by (simp add: btf_bswap_hdr_def)
  qed
qed

lemma le_dec_append: "le_dec (xs @ ys) = le_dec xs + 256 ^ length xs * le_dec ys"
  by (induction xs) (auto simp: algebra_simps)

lemma le_dec_zeros: "le_dec (replicate n 0) = 0"
  by (induction n) auto

text \<open>Reading a word of which only a prefix was copied gives at most the word.\<close>

lemma rd32_prefix:
  "unat (rd32 (take n bs @ replicate m 0) off) \<le> unat (rd32 bs off)"
proof -
  let ?x = "take 4 (drop off bs)" and ?y = "take 4 (drop off (take n bs @ replicate m 0))"
  have "drop off (take n bs @ replicate m 0) = take (n - off) (drop off bs) @ replicate (m - (off - length (take n bs))) 0"
    by (simp add: drop_take)
  moreover have "take 4 (take (n - off) (drop off bs) @ replicate j 0) =
      take (n - off) ?x @ replicate (min (4 - length (take (n - off) (drop off bs))) j) 0" for j
    by (simp only: take_append take_take take_replicate min.commute)
  ultimately obtain k where k: "?y = take (n - off) ?x @ replicate k 0" by metis
  have "le_dec (take j xs) \<le> le_dec xs" for j xs
    using le_dec_append [of "take j xs" "drop j xs"] by simp
  then have "le_dec (take (n - off) ?x) \<le> le_dec ?x" by blast
  then have "le_dec ?y \<le> le_dec ?x" unfolding k by (simp add: le_dec_append le_dec_zeros)
  moreover have "le_dec ?x < 2 ^ 32"
  proof -
    have "(256 :: nat) ^ length ?x \<le> 256 ^ 4" by (intro power_increasing) auto
    then show ?thesis using le_dec_bound [of ?x] by simp
  qed
  ultimately show ?thesis by (simp add: rd32_def le_u32_def unat_of_nat)
qed

section \<open>Header\<close>

text \<open>The sections lie inside the data, in the order types, layout, strings.\<close>

definition sections_ok :: "btf_file \<Rightarrow> bool" where
  "sections_ok bf \<longleftrightarrow>
     strs_data bf + str_len bf \<le> length (bf_raw bf) \<and>
     types_data bf + type_len bf \<le> strs_data bf \<and>
     (layout_len bf \<noteq> 0 \<longrightarrow>
        types_data bf + type_len bf \<le> layout_data bf \<and> layout_data bf + layout_len bf \<le> strs_data bf) \<and>
     (bf_mmap bf \<longrightarrow> \<not> bf_swapped bf)"

lemma parse_hdr_sections_ok:
  assumes "parse_hdr_sections bf hdr_len = 0" "unat (bh_hdr_len (bf_hdr bf)) \<le> hdr_len"
    and "hdr_len \<le> length (bf_raw bf)" "bf_mmap bf \<longrightarrow> \<not> bf_swapped bf"
  shows "sections_ok bf"
  using assms
  by (auto simp: parse_hdr_sections_def sections_ok_def types_data_def strs_data_def layout_data_def Let_def
      split: if_splits)

lemma parse_hdr_sections_err: "parse_hdr_sections bf hdr_len \<in> {0, - EINVAL}"
  by (simp add: parse_hdr_sections_def Let_def)

text \<open>Where a parse may end: with an error code or in a state that satisfies \<open>P\<close>, never undefined.\<close>

definition parse_post :: "(btf_file \<Rightarrow> bool) \<Rightarrow> (int \<times> btf_file) option \<Rightarrow> bool" where
  "parse_post P r \<longleftrightarrow>
     (\<exists>err bf. r = Some (err, bf) \<and> err \<in> {0, - EINVAL, - ENOMEM, - ENOTSUP} \<and> (err = 0 \<longrightarrow> P bf))"

lemma parse_hdr_copy_ok:
  assumes "24 \<le> length (bf_raw bf)" "bf_mmap bf \<longrightarrow> \<not> bf_swapped bf"
    and "\<not> bf_swapped bf \<Longrightarrow> unat (rd32 (bf_raw bf) 4) \<le> hdr_len"
    and "\<And>bs. bf_swapped bf \<Longrightarrow> btf_bswap_hdr hdr_len (bf_raw bf) = Some bs \<Longrightarrow> unat (rd32 bs 4) \<le> hdr_len"
  shows "parse_post (\<lambda>bf'. sections_ok bf' \<and> bf_base bf' = bf_base bf \<and> bf_type_offs bf' = bf_type_offs bf \<and>
      bf_mmap bf' = bf_mmap bf \<and> length (bf_raw bf') = length (bf_raw bf) \<and>
      bf_named_start_id bf' = bf_named_start_id bf)
    (parse_hdr_copy bf hdr_len)"
proof (cases "length (bf_raw bf) < hdr_len")
  case True
  then show ?thesis by (simp add: parse_hdr_copy_def parse_post_def)
next
  case False
  obtain bf1 where b: "(if bf_swapped bf then bf_swap (btf_bswap_hdr hdr_len) bf else Some bf) = Some bf1"
      "bf_mmap bf1 = bf_mmap bf" "bf_swapped bf1 = bf_swapped bf" "bf_base bf1 = bf_base bf"
      "bf_type_offs bf1 = bf_type_offs bf" "length (bf_raw bf1) = length (bf_raw bf)"
      "unat (rd32 (bf_raw bf1) 4) \<le> hdr_len" "bf_named_start_id bf1 = bf_named_start_id bf"
  proof (cases "bf_swapped bf")
    case True
    then obtain bs where "btf_bswap_hdr hdr_len (bf_raw bf) = Some bs" "length bs = length (bf_raw bf)"
      using btf_bswap_hdr_ok [of "bf_raw bf" hdr_len] assms(1) False by auto
    then show ?thesis
      using True assms(2,4) by (intro that [of "bf\<lparr>bf_raw := bs\<rparr>"]) (auto simp: bf_swap_def)
  next
    case False
    then show ?thesis using assms(3) by (intro that [of bf]) auto
  qed
  define n where "n = min hdr_len sizeof_btf_header"
  define h where "h = header_of (take n (bf_raw bf1) @ replicate (sizeof_btf_header - n) 0)"
  define ex where "ex = list_ex (\<lambda>b. b \<noteq> 0) (slice sizeof_btf_header (hdr_len - sizeof_btf_header) (bf_raw bf1))"
  define bf2 where "bf2 = bf1\<lparr>bf_hdr := h, bf_hdr_extra := ex\<rparr>"
  have r: "parse_hdr_copy bf hdr_len = Some (parse_hdr_sections bf2 hdr_len, bf2)"
    using False b(1) by (simp add: parse_hdr_copy_def Let_def bf2_def h_def n_def ex_def)
  have "unat (bh_hdr_len h) \<le> unat (rd32 (bf_raw bf1) 4)"
    using rd32_prefix [of n "bf_raw bf1"] by (simp add: h_def header_of_def)
  then have "unat (bh_hdr_len (bf_hdr bf2)) \<le> hdr_len" using b(7) by (simp add: bf2_def)
  then have "sections_ok bf2" if "parse_hdr_sections bf2 hdr_len = 0"
    using that parse_hdr_sections_ok [of bf2 hdr_len] b False assms(2) by (simp add: bf2_def)
  then show ?thesis
    using r b parse_hdr_sections_err [of bf2 hdr_len] by (auto simp: parse_post_def bf2_def)
qed

text \<open>In a swapped file the header's length is read after the swap.\<close>

lemma swapped_hdr_len:
  assumes "btf_bswap_hdr hdr_len bs = Some bs'" "24 \<le> length bs"
  shows "rd32 bs' 4 = bswap_32 (rd32 bs 4)"
proof -
  obtain bs1 where b1: "bswap_at 2 0 bs = Some bs1" "same_outside 0 2 bs bs1"
    using bswap_at_ok [of 0 2 bs] assms by (auto simp: numeral_2_eq_2)
  have l1: "length bs1 = length bs" "slice 4 4 bs1 = slice 4 4 bs"
    using b1(2) same_outside_slice [of 0 2 bs bs1 4 4] by (auto simp: same_outside_def)
  obtain bs2 where b2: "bswap_at 4 4 bs1 = Some bs2" using bswap_at_ok [of 4 4 bs1] assms l1 by auto
  have l2: "slice 4 4 bs2 = rev (slice 4 4 bs)" "length bs2 = length bs"
    using b2 l1 assms(2) by (auto simp: bswap_at_def slice_def split: if_splits)
  obtain bs3 where b3: "bswap_words 4 8 bs2 = Some bs3" "same_outside 8 24 bs2 bs3"
    using bswap_words_ok [of 8 4 bs2] assms l2 by auto
  have w: "bswap_words 5 4 bs1 = Some bs3"
    using b2 b3(1) bswap_words.simps(2) [of 4 4 bs1] by (simp add: numeral_eq_Suc)
  have r: "same_outside 24 32 bs3 bs'"
  proof (cases "sizeof_btf_header \<le> hdr_len")
    case True
    then have "bswap_words 2 24 bs3 = Some bs'" using assms(1) b1 w by (simp add: btf_bswap_hdr_def)
    moreover from this have "32 \<le> length bs3"
      by (auto simp: numeral_2_eq_2 bind_eq_Some_conv bswap_at_def split: if_splits)
    ultimately show ?thesis using bswap_words_ok [of 24 2 bs3] by auto
  next
    case False
    then show ?thesis using assms(1) b1 w by (simp add: btf_bswap_hdr_def)
  qed
  have s: "slice 4 4 bs' = rev (slice 4 4 bs)"
    using same_outside_slice [OF r, of 4 4] same_outside_slice [OF b3(2), of 4 4] l2 by simp
  have e: "u32_le (rd32 bs 4) = slice 4 4 bs"
  proof -
    have "length (slice 4 4 bs) = 4" using assms(2) by simp
    moreover from this have "le_dec (slice 4 4 bs) < 2 ^ 32" using le_dec_bound [of "slice 4 4 bs"] by simp
    ultimately show ?thesis
      by (simp add: u32_le_def rd32_def le_u32_def slice_def [symmetric] unat_of_nat le_enc_dec)
  qed
  have "take 4 (rev (slice 4 4 bs)) = rev (slice 4 4 bs)" using assms(2) by simp
  then show ?thesis
    using s by (simp add: rd32_def [of bs'] le_u32_def slice_def [symmetric] bswap_32_def e)
qed

lemma btf_parse_hdr_ok:
  assumes "\<not> bf_swapped bf" "bf_mmap bf \<longrightarrow> rd16 (bf_raw bf) 0 \<noteq> bswap_16 BTF_MAGIC"
  shows "parse_post (\<lambda>bf'. sections_ok bf' \<and> bf_base bf' = bf_base bf \<and> bf_type_offs bf' = bf_type_offs bf \<and>
      bf_mmap bf' = bf_mmap bf \<and> length (bf_raw bf') = length (bf_raw bf) \<and>
      bf_named_start_id bf' = bf_named_start_id bf)
    (btf_parse_hdr bf)"
proof (cases "length (bf_raw bf) < 24")
  case True
  then show ?thesis by (simp add: btf_parse_hdr_def parse_post_def offsetofend_str_len_def)
next
  case False
  show ?thesis
  proof (cases "rd16 (bf_raw bf) 0 = bswap_16 BTF_MAGIC")
    case True
    define bf1 where "bf1 = bf\<lparr>bf_swapped := True\<rparr>"
    define hl where "hl = unat (bswap_32 (rd32 (bf_raw bf) 4))"
    have "btf_parse_hdr bf = (if hl < 24 then Some (- ENOTSUP, bf1) else parse_hdr_copy bf1 hl)"
      using True False
      by (simp add: btf_parse_hdr_def Let_def bf1_def hl_def offsetofend_str_len_def)
    moreover have "parse_post (\<lambda>bf'. sections_ok bf' \<and> bf_base bf' = bf_base bf1 \<and>
        bf_type_offs bf' = bf_type_offs bf1 \<and> bf_mmap bf' = bf_mmap bf1 \<and>
        length (bf_raw bf') = length (bf_raw bf1) \<and> bf_named_start_id bf' = bf_named_start_id bf1)
      (parse_hdr_copy bf1 hl)"
      using False True assms swapped_hdr_len [of hl "bf_raw bf"]
      by (intro parse_hdr_copy_ok) (auto simp: bf1_def hl_def)
    ultimately show ?thesis by (simp add: parse_post_def bf1_def)
  next
    case n: False
    then show ?thesis
    proof (cases "rd16 (bf_raw bf) 0 = BTF_MAGIC")
      case True
      then have "btf_parse_hdr bf = parse_hdr_copy bf (unat (rd32 (bf_raw bf) 4))"
        using n False by (simp add: btf_parse_hdr_def Let_def offsetofend_str_len_def)
      then show ?thesis using False assms by (simp only:) (intro parse_hdr_copy_ok, auto)
    next
      case m: False
      then show ?thesis using n False
        by (simp add: btf_parse_hdr_def Let_def offsetofend_str_len_def parse_post_def)
    qed
  qed
qed

section \<open>Sections\<close>

text \<open>What later steps keep of the object, and the bytes from \<open>a\<close> to \<open>b\<close> that they may change.\<close>

definition same_file :: "nat \<Rightarrow> nat \<Rightarrow> btf_file \<Rightarrow> btf_file \<Rightarrow> bool" where
  "same_file a b bf bf' \<longleftrightarrow>
     bf_hdr bf' = bf_hdr bf \<and> bf_mmap bf' = bf_mmap bf \<and> bf_swapped bf' = bf_swapped bf \<and>
     bf_base bf' = bf_base bf \<and> bf_named_start_id bf' = bf_named_start_id bf \<and>
     bf_hdr_extra bf' = bf_hdr_extra bf \<and> same_outside a b (bf_raw bf) (bf_raw bf')"

lemma same_file_refl [simp]: "same_file a b bf bf"
  by (simp add: same_file_def)

lemma same_file_trans:
  "same_file a b x y \<Longrightarrow> same_file c d y z \<Longrightarrow> e \<le> a \<Longrightarrow> e \<le> c \<Longrightarrow> b \<le> f \<Longrightarrow> d \<le> f \<Longrightarrow> same_file e f x z"
  using same_outside_trans [of a b "bf_raw x" "bf_raw y" c d "bf_raw z" e f] by (simp add: same_file_def)

lemma same_file_sections:
  "same_file a b bf bf' \<Longrightarrow> types_data bf' = types_data bf \<and> strs_data bf' = strs_data bf \<and>
     layout_data bf' = layout_data bf \<and> (sections_ok bf' \<longleftrightarrow> sections_ok bf)"
  by (simp add: same_file_def types_data_def strs_data_def layout_data_def sections_ok_def same_outside_def)

definition strs_ok :: "btf_file \<Rightarrow> bool" where
  "strs_ok bf \<longleftrightarrow>
     (if str_len bf = 0 then bf_base bf \<noteq> None
      else bf_raw bf ! (strs_data bf + str_len bf - 1) = 0 \<and>
           (bf_base bf = None \<longrightarrow> bf_raw bf ! strs_data bf = 0))"

lemma btf_parse_str_sec_ok:
  assumes "sections_ok bf"
  shows "\<exists>err. btf_parse_str_sec bf = Some err \<and> err \<in> {0, - EINVAL} \<and> (err = 0 \<longrightarrow> strs_ok bf)"
  using assms
  by (auto simp: btf_parse_str_sec_def sections_ok_def strs_ok_def byte_at_def)

lemma same_file_strs:
  assumes "same_file a b bf bf'" "b \<le> strs_data bf" "sections_ok bf"
  shows "strs_ok bf' \<longleftrightarrow> strs_ok bf"
proof -
  have "bf_raw bf' ! i = bf_raw bf ! i" if "strs_data bf \<le> i" "i < strs_data bf + str_len bf" for i
    using assms that by (auto simp: same_file_def same_outside_def sections_ok_def)
  moreover have "strs_data bf' = strs_data bf" "bf_hdr bf' = bf_hdr bf" "bf_base bf' = bf_base bf"
    using same_file_sections [OF assms(1)] assms(1) by (simp_all add: same_file_def)
  ultimately show ?thesis by (simp add: strs_ok_def)
qed

lemma btf_parse_layout_sec_ok:
  assumes "sections_ok bf"
  shows "parse_post (\<lambda>bf'. same_file (layout_data bf) (strs_data bf) bf bf' \<and>
      bf_type_offs bf' = bf_type_offs bf \<and> layout_len bf mod 4 = 0)
    (btf_parse_layout_sec bf)"
proof (cases "layout_len bf \<noteq> 0 \<and> layout_len bf mod 4 = 0 \<and> bf_swapped bf")
  case True
  then have l: "layout_data bf + 4 * (layout_len bf div 4) = layout_data bf + layout_len bf" by auto
  then have "layout_data bf + 4 * (layout_len bf div 4) \<le> length (bf_raw bf)" "\<not> bf_mmap bf"
    using assms True by (auto simp: sections_ok_def)
  then obtain bs where b: "bswap_flags (layout_len bf div 4) (layout_data bf) (bf_raw bf) = Some bs"
      "same_outside (layout_data bf) (layout_data bf + layout_len bf) (bf_raw bf) bs"
    using bswap_flags_ok [of "layout_data bf" "layout_len bf div 4" "bf_raw bf"] l by auto
  have "same_outside (layout_data bf) (strs_data bf) (bf_raw bf) bs"
    using same_outside_mono [OF b(2)] assms True by (simp add: sections_ok_def)
  then show ?thesis
    using True b(1) \<open>\<not> bf_mmap bf\<close>
    by (simp add: btf_parse_layout_sec_def bf_swap_def parse_post_def same_file_def)
next
  case False
  then show ?thesis by (auto simp: btf_parse_layout_sec_def parse_post_def)
qed

section \<open>Types\<close>

lemma rd32_cong:
  assumes "same_outside e f xs ys" "off + 4 \<le> e \<or> f \<le> off"
  shows "rd32 ys off = rd32 xs off"
  using same_outside_slice [OF assms] by (simp add: rd32_def le_u32_def slice_def)

lemma type_at_cong:
  assumes "same_outside e f xs ys" "T + b \<le> e \<or> f \<le> T + a" "a + 12 \<le> b"
  shows "type_at (drop T ys) a b = type_at (drop T xs) a b"
proof -
  have "a + sizeof_btf_type + 4 * k + 4 \<le> b" if "k < (b - a - sizeof_btf_type) div 4" for k
    using that assms(3) by (simp add: sizeof_btf_type_def)
  then have "rd32 ys (T + (a + sizeof_btf_type + 4 * k)) = rd32 xs (T + (a + sizeof_btf_type + 4 * k))"
    if "k < (b - a - sizeof_btf_type) div 4" for k
    using that assms(2) rd32_cong [OF assms(1), of "T + (a + sizeof_btf_type + 4 * k)"] by fastforce
  moreover have "rd32 ys (T + (a + c)) = rd32 xs (T + (a + c))" if "c \<le> 8" for c
    using that assms(2,3) rd32_cong [OF assms(1), of "T + (a + c)"] by fastforce
  from this [of 0] this [of 4] this [of 8] have
    "rd32 ys (T + a) = rd32 xs (T + a)" "rd32 ys (T + (a + 4)) = rd32 xs (T + (a + 4))"
    "rd32 ys (T + (a + 8)) = rd32 xs (T + (a + 8))" by simp_all
  ultimately show ?thesis by (simp add: type_at_def rd32_drop)
qed

text \<open>The size of a type depends on its \<open>info\<close> only.\<close>

lemma rest_words_info: "bt_info t = bt_info t' \<Longrightarrow> rest_words t = rest_words t'"
  by (simp add: rest_words_def btf_kind_def btf_vlen_def)

lemma type_size_info: "bt_info t = bt_info t' \<Longrightarrow> btf_type_size own base t = btf_type_size own base t'"
  by (simp only: rest_words_def btf_type_size_def btf_type_size_unknown_def btf_kind_def btf_vlen_def)

lemma info_type_at [simp]: "bt_info (type_at bs a b) = rd32 bs (a + 4)"
  by (simp add: type_at_def)

lemma file_layout_cong:
  assumes "same_file a b bf bf'" "b \<le> layout_data bf" 
  shows "file_layout bf' = file_layout bf \<or> length (bf_raw bf) < layout_data bf + layout_len bf"
proof (cases "length (bf_raw bf) < layout_data bf + layout_len bf")
  case False
  have h: "layout_data bf' = layout_data bf" "bf_hdr bf' = bf_hdr bf"
    "same_outside a b (bf_raw bf) (bf_raw bf')"
    using same_file_sections [OF assms(1)] assms(1) by (auto simp: same_file_def)
  have nth: "bf_raw bf' ! (layout_data bf + j) = bf_raw bf ! (layout_data bf + j)" if "j < layout_len bf" for j
    using h(3) assms(2) False that by (auto simp: same_outside_def)
  have r16: "rd16 (drop (layout_data bf) (bf_raw bf')) off = rd16 (drop (layout_data bf) (bf_raw bf)) off" for off
    using same_outside_slice [OF h(3), of "layout_data bf + off" 2] assms(2)
    by (simp add: rd16_def le_u16_def slice_def add.commute)
  have l: "length (bf_raw bf') = length (bf_raw bf)" using h(3) by (simp add: same_outside_def)
  have "drop (layout_data bf) (bf_raw bf') ! j = drop (layout_data bf) (bf_raw bf) ! j" if "j < layout_len bf" for j
    using nth [OF that] False l that by simp
  then show ?thesis unfolding file_layout_def Let_def h r16 by (intro disjI1 map_cong) auto
qed simp

text \<open>The offsets found so far: each type, read up to the next one, has exactly its size.\<close>

definition offs_ok :: "btf_file \<Rightarrow> nat \<Rightarrow> bool" where
  "offs_ok bf next_type \<longleftrightarrow>
     (bf_type_offs bf @ [next_type]) ! 0 = 0 \<and>
     (\<forall>i<length (bf_type_offs bf).
        let a = bf_type_offs bf ! i; b = (bf_type_offs bf @ [next_type]) ! Suc i
        in a + 12 \<le> b \<and> b \<le> next_type \<and>
           btf_type_size (file_layout bf) (bf_base bf) (type_at (drop (types_data bf) (bf_raw bf)) a b) = int (b - a))"

lemma layout_after_types:
  assumes "sections_ok bf" "same_file a b bf bf'" "b \<le> types_data bf + type_len bf"
  shows "file_layout bf' = file_layout bf"
proof (cases "layout_len bf = 0")
  case True
  then show ?thesis using assms(2) by (simp add: file_layout_def same_file_def)
next
  case False
  then show ?thesis using file_layout_cong [OF assms(2)] assms(1,3) by (auto simp: sections_ok_def)
qed

lemma offs_ok_same:
  assumes "offs_ok bf n" "same_file a b bf bf'" "bf_type_offs bf' = bf_type_offs bf"
    and "types_data bf + n \<le> a" "b \<le> types_data bf + type_len bf" "sections_ok bf"
  shows "offs_ok bf' n"
proof -
  have s: "same_outside a b (bf_raw bf) (bf_raw bf')" "bf_base bf' = bf_base bf"
    "types_data bf' = types_data bf"
    using assms(2) same_file_sections [OF assms(2)] by (auto simp: same_file_def)
  have ly: "file_layout bf' = file_layout bf" using layout_after_types assms(2,5,6) by blast
  have "type_at (drop (types_data bf) (bf_raw bf')) x y = type_at (drop (types_data bf) (bf_raw bf)) x y"
    if "x + 12 \<le> y" "y \<le> n" for x y
    using that assms(4) by (intro type_at_cong [OF s(1)]) auto
  then show ?thesis using assms(1) by (simp add: offs_ok_def s(2,3) ly assms(3) Let_def)
qed

lemma offs_ok_add:
  assumes "offs_ok bf n" "bf_type_offs bf' = bf_type_offs bf @ [n]"
    and "bf_hdr bf' = bf_hdr bf" "bf_raw bf' = bf_raw bf" "bf_base bf' = bf_base bf"
    and "12 \<le> sz" "btf_type_size (file_layout bf) (bf_base bf) (type_at (drop (types_data bf) (bf_raw bf)) n (n + sz)) = int sz"
  shows "offs_ok bf' (n + sz)"
proof -
  have e: "file_layout bf' = file_layout bf" "types_data bf' = types_data bf"
    using assms(3,4) by (simp_all add: file_layout_def types_data_def layout_data_def)
  let ?o = "bf_type_offs bf @ [n]"
  have "(?o @ [n + sz]) ! 0 = 0" using assms(1) by (cases "bf_type_offs bf") (auto simp: offs_ok_def)
  moreover have "let a = ?o ! i; b = (?o @ [n + sz]) ! Suc i
      in a + 12 \<le> b \<and> b \<le> n + sz \<and>
         btf_type_size (file_layout bf) (bf_base bf) (type_at (drop (types_data bf) (bf_raw bf)) a b) = int (b - a)"
    if "i < length ?o" for i
  proof (cases "i < length (bf_type_offs bf)")
    case True
    then have "(?o @ [n + sz]) ! Suc i = ?o ! Suc i" "?o ! i = bf_type_offs bf ! i"
      by (simp_all add: nth_append)
    then show ?thesis using assms(1) True unfolding offs_ok_def Let_def by (metis trans_le_add1)
  next
    case False
    then have "i = length (bf_type_offs bf)" using that by simp
    then show ?thesis using assms(6,7) by (simp add: nth_append Let_def)
  qed
  ultimately show ?thesis using assms(2,4,5) e by (simp add: offs_ok_def)
qed

lemma finish_type_ok:
  assumes ok: "sections_ok bf" "offs_ok bf n" "int (n + 12) \<le> int (n + sz)" "n + sz \<le> type_len bf"
    and sz: "btf_type_size (file_layout bf) (bf_base bf) t = int sz"
    and t: "bt_info t = rd32 (drop (types_data bf) (bf_raw bf)) (n + 4)"
  shows "\<exists>r bf'. finish_type alloc bf t n (int sz) = Some (r, bf') \<and>
    (r < 0 \<longrightarrow> r \<in> {- EINVAL, - ENOMEM}) \<and>
    (0 \<le> r \<longrightarrow> r = int sz \<and> same_file (types_data bf + n) (types_data bf + n + sz) bf bf' \<and>
       offs_ok bf' (n + sz))"
proof -
  let ?T = "types_data bf"
  have room: "?T + n + sz \<le> length (bf_raw bf)" using ok(1,4) by (simp add: sections_ok_def)
  text \<open>after the words are in the machine's order\<close>
  obtain err bf1 where s: "(if \<not> bf_swapped bf then Some (0, bf)
        else if bf_mmap bf then None
        else do {
          (err, bs) \<leftarrow> btf_bswap_type_rest t (?T + n) (bf_raw bf);
          Some (err, bf\<lparr>bf_raw := bs\<rparr>) }) = Some (err, bf1)"
      "err \<noteq> 0 \<or> same_file (?T + n + 12) (?T + n + sz) bf bf1 \<and> bf_type_offs bf1 = bf_type_offs bf"
  proof (cases "bf_swapped bf")
    case False
    then show ?thesis by (intro that [of 0 bf]) auto
  next
    case True
    then have m: "\<not> bf_mmap bf" using ok(1) by (simp add: sections_ok_def)
    show ?thesis
    proof (cases "rest_words t")
      case None
      then show ?thesis using True m
        by (intro that [of "- EINVAL" "bf\<lparr>bf_raw := bf_raw bf\<rparr>"]) (auto simp: btf_bswap_type_rest_def)
    next
      case (Some k)
      then have k: "sz = 12 + 4 * k" using sz by (auto simp: btf_type_size_def sizeof_btf_type_def)
      have "?T + n + 12 + 4 * k \<le> length (bf_raw bf)" using room k by simp
      from bswap_words_ok [OF this] obtain bs where
        bs: "bswap_words k (?T + n + 12) (bf_raw bf) = Some bs"
          "same_outside (?T + n + 12) (?T + n + sz) (bf_raw bf) bs"
        using k by (auto simp: algebra_simps)
      then show ?thesis using True m Some
        by (intro that [of 0 "bf\<lparr>bf_raw := bs\<rparr>"])
          (auto simp: btf_bswap_type_rest_def sizeof_btf_type_def same_file_def)
    qed
  qed
  show ?thesis
  proof (cases "err = 0")
    case False
    then show ?thesis using s(1) by (simp add: finish_type_def)
  next
    case True
    then have f: "same_file (?T + n + 12) (?T + n + sz) bf bf1" "bf_type_offs bf1 = bf_type_offs bf"
      using s(2) by auto
    have le: "?T + n + sz \<le> ?T + type_len bf" using ok(4) by simp
    have o1: "offs_ok bf1 n" using le by (intro offs_ok_same [OF ok(2) f] ok(1)) simp_all
    have T1: "types_data bf1 = ?T" and b1: "bf_base bf1 = bf_base bf"
      using same_file_sections [OF f(1)] f(1) by (auto simp: same_file_def)
    have so: "same_outside (?T + n + 12) (?T + n + sz) (bf_raw bf) (bf_raw bf1)"
      using f(1) by (simp add: same_file_def)
    have ly: "file_layout bf1 = file_layout bf" using layout_after_types [OF ok(1) f(1) le] .
    have "rd32 (bf_raw bf1) (?T + (n + 4)) = rd32 (bf_raw bf) (?T + (n + 4))"
      by (intro rd32_cong [OF so]) simp
    then have "bt_info (type_at (drop ?T (bf_raw bf1)) n (n + sz)) = bt_info t"
      by (simp add: rd32_drop t)
    then have sz1: "btf_type_size (file_layout bf1) (bf_base bf1) (type_at (drop (types_data bf1) (bf_raw bf1)) n (n + sz)) = int sz"
      using type_size_info sz by (metis T1 b1 ly)
    obtain e bf2 where a: "btf_add_type_idx_entry alloc bf1 n = (e, bf2)" by (cases "btf_add_type_idx_entry alloc bf1 n")
    have r: "finish_type alloc bf t n (int sz) = Some (if e \<noteq> 0 then e else int sz, bf2)"
      using s(1) True a unfolding finish_type_def by simp
    have fr: "bf_mmap bf2 = bf_mmap bf1" "bf_swapped bf2 = bf_swapped bf1" "bf_hdr_extra bf2 = bf_hdr_extra bf1"
      "bf_named_start_id bf2 = bf_named_start_id bf1"
      using a by (auto simp: btf_add_type_idx_entry_def Let_def split: if_splits)
    have c: "bf_hdr bf2 = bf_hdr bf1" "bf_raw bf2 = bf_raw bf1" "bf_base bf2 = bf_base bf1"
      "e = 0 \<and> bf_type_offs bf2 = bf_type_offs bf1 @ [n] \<or> e = - ENOMEM"
      using add_idx_frame [OF a] by auto
    have sf: "same_file (?T + n) (?T + n + sz) bf bf2"
      using f(1) fr c(1-3) same_outside_mono [OF so, of "?T + n" "?T + n + sz"] by (simp add: same_file_def)
    show ?thesis
    proof (cases "e = 0")
      case True
      then have "offs_ok bf2 (n + sz)"
        using c ok(3) sz1 by (intro offs_ok_add [OF o1]) auto
      then show ?thesis using r sf True by simp
    next
      case False
      then show ?thesis using r c(4) by simp
    qed
  qed
qed

lemma parse_one_ok:
  assumes ok: "sections_ok bf" "offs_ok bf n" "n + 12 \<le> type_len bf"
  shows "\<exists>r bf'. parse_one_type alloc bf n = Some (r, bf') \<and>
    (r < 0 \<longrightarrow> r \<in> {- EINVAL, - ENOMEM}) \<and>
    (0 \<le> r \<longrightarrow> same_file (types_data bf) (types_data bf + type_len bf) bf bf' \<and>
       n + nat r \<le> type_len bf \<and> offs_ok bf' (n + nat r))"
proof -
  let ?T = "types_data bf"
  have room: "?T + type_len bf \<le> length (bf_raw bf)" using ok(1) by (simp add: sections_ok_def)
  obtain bf1 where b1: "(if bf_swapped bf then bf_swap (btf_bswap_type_base (?T + n)) bf else Some bf) = Some bf1"
      "same_file (?T + n) (?T + n + 12) bf bf1" "bf_type_offs bf1 = bf_type_offs bf"
  proof (cases "bf_swapped bf")
    case True
    then have "\<not> bf_mmap bf" using ok(1) by (simp add: sections_ok_def)
    moreover obtain bs where "bswap_words 3 (?T + n) (bf_raw bf) = Some bs"
        "same_outside (?T + n) (?T + n + 12) (bf_raw bf) bs"
      using bswap_words_ok [of "?T + n" 3 "bf_raw bf"] room ok(3) by auto
    ultimately show ?thesis using True
      by (intro that [of "bf\<lparr>bf_raw := bs\<rparr>"]) (auto simp: bf_swap_def btf_bswap_type_base_def same_file_def)
  qed (use that in auto)
  have e: "types_data bf1 = ?T" "sections_ok bf1" "bf_hdr bf1 = bf_hdr bf" "length (bf_raw bf1) = length (bf_raw bf)"
    using same_file_sections [OF b1(2)] b1(2) ok(1) by (auto simp: same_file_def same_outside_def)
  have o1: "offs_ok bf1 n" using ok(3) by (intro offs_ok_same [OF ok(2) b1(2,3)] ok(1)) auto
  define t where "t = type_at (drop ?T (bf_raw bf1)) n (n + sizeof_btf_type)"
  define sz where "sz = btf_type_size (file_layout bf1) (bf_base bf1) t"
  have r: "parse_one_type alloc bf n =
      (if sz < 0 then Some (sz, bf1)
       else if type_len bf1 < n + nat sz then Some (- EINVAL, bf1)
       else finish_type alloc bf1 t n sz)"
    using room ok(3) e
    unfolding parse_one_type_def b1(1) by (simp add: Let_def t_def sz_def sizeof_btf_type_def)
  show ?thesis
  proof (cases "sz < 0 \<or> type_len bf1 < n + nat sz")
    case True
    moreover have "sz = - EINVAL" if "sz < 0"
      using that by (auto simp: sz_def btf_type_size_def btf_type_size_unknown_def Let_def split: option.splits if_splits)
    ultimately show ?thesis using r by auto
  next
    case False
    then have sz12: "12 \<le> sz" using type_size_ge unfolding sz_def by (meson not_less)
    have le: "n + nat sz \<le> type_len bf1" using False by simp
    have sze: "btf_type_size (file_layout bf1) (bf_base bf1) t = int (nat sz)" using sz12 by (simp add: sz_def)
    have info: "bt_info t = rd32 (drop (types_data bf1) (bf_raw bf1)) (n + 4)" by (simp add: t_def e(1))
    have "int (n + 12) \<le> int (n + nat sz)" using sz12 by simp
    from finish_type_ok [OF e(2) o1 this le sze info, of alloc]
    obtain q bf2 where q: "finish_type alloc bf1 t n sz = Some (q, bf2)" "q < 0 \<longrightarrow> q \<in> {- EINVAL, - ENOMEM}"
        "0 \<le> q \<longrightarrow> q = sz \<and> same_file (?T + n) (?T + n + nat sz) bf1 bf2 \<and> offs_ok bf2 (n + nat sz)"
      using sz12 e(1) by auto
    have "same_file ?T (?T + type_len bf) bf bf2" if "0 \<le> q"
    proof (rule same_file_trans [OF b1(2)])
      show "same_file (?T + n) (?T + n + nat sz) bf1 bf2" using q(3) that by simp
      show "?T + n + nat sz \<le> ?T + type_len bf" using le e(3) by simp
    qed (use ok(3) in auto)
    then show ?thesis using r False q le e(3) by auto
  qed
qed

lemma parse_types_loop_ok:
  "sections_ok bf \<Longrightarrow> offs_ok bf n \<Longrightarrow> n \<le> type_len bf \<Longrightarrow>
     parse_post (\<lambda>bf'. same_file (types_data bf) (types_data bf + type_len bf) bf bf' \<and> offs_ok bf' (type_len bf'))
       (parse_types_loop alloc bf n)"
proof (induction alloc bf n rule: parse_types_loop.induct)
  case (1 alloc bf n)
  show ?case
  proof (cases "n + sizeof_btf_type \<le> type_len bf")
    case False
    then show ?thesis using "1.prems" by (subst parse_types_loop.simps) (auto simp: parse_post_def)
  next
    case True
    then obtain r bf1 where r: "parse_one_type alloc bf n = Some (r, bf1)" "r < 0 \<longrightarrow> r \<in> {- EINVAL, - ENOMEM}"
        "0 \<le> r \<longrightarrow> same_file (types_data bf) (types_data bf + type_len bf) bf bf1 \<and>
           n + nat r \<le> type_len bf \<and> offs_ok bf1 (n + nat r)"
      using parse_one_ok [OF "1.prems"(1,2), of alloc] by (auto simp: sizeof_btf_type_def)
    show ?thesis
    proof (cases "r < 0")
      case neg: True
      then show ?thesis using True r by (subst parse_types_loop.simps) (auto simp: parse_post_def)
    next
      case False
      then have s: "same_file (types_data bf) (types_data bf + type_len bf) bf bf1"
        "n + nat r \<le> type_len bf" "offs_ok bf1 (n + nat r)" using r(3) by auto
      have e: "types_data bf1 = types_data bf" "bf_hdr bf1 = bf_hdr bf" "sections_ok bf1"
        using same_file_sections [OF s(1)] s(1) "1.prems"(1) by (auto simp: same_file_def)
      have "parse_post (\<lambda>bf'. same_file (types_data bf) (types_data bf + type_len bf) bf1 bf' \<and>
          offs_ok bf' (type_len bf')) (parse_types_loop alloc bf1 (n + nat r))"
        using "1.IH" [OF True r(1) refl False e(3) s(3)] e s(2) by simp
      moreover have "parse_types_loop alloc bf n = parse_types_loop alloc bf1 (n + nat r)"
        using True r(1) False by (subst parse_types_loop.simps) simp
      moreover have "same_file (types_data bf) (types_data bf + type_len bf) bf x"
        if "same_file (types_data bf) (types_data bf + type_len bf) bf1 x" for x
        using same_file_trans [OF s(1) that] by simp
      ultimately show ?thesis unfolding parse_post_def by metis
    qed
  qed
qed

lemma next_offset: "i < length xs \<Longrightarrow> drop 1 (xs @ [x]) ! i = (xs @ [x]) ! Suc i"
  by (cases xs) auto

lemma file_types_words:
  assumes "offs_ok bf (type_len bf)" "t \<in> set (file_types bf)"
  shows "words_ok t"
proof -
  let ?o = "bf_type_offs bf" and ?bs = "drop (types_data bf) (bf_raw bf)"
  obtain i where i: "i < length ?o" "t = type_at ?bs (?o ! i) ((?o @ [type_len bf]) ! Suc i)"
  proof -
    obtain a b where ab: "(a, b) \<in> set (zip ?o (drop 1 (?o @ [type_len bf])))" "t = type_at ?bs a b"
      using assms(2) by (auto simp: file_types_def Let_def)
    then obtain i where "i < length ?o" "a = ?o ! i" "b = drop 1 (?o @ [type_len bf]) ! i"
      by (auto simp: in_set_zip)
    then show ?thesis using ab(2) next_offset [of i ?o "type_len bf"] by (intro that [of i]) (simp_all only:)
  qed
  define a b where "a = ?o ! i" and "b = (?o @ [type_len bf]) ! Suc i"
  have sz: "a + 12 \<le> b" "btf_type_size (file_layout bf) (bf_base bf) t = int (b - a)"
    using assms(1) i by (auto simp: offs_ok_def Let_def a_def b_def)
  have "length (bt_words t) = (b - a - 12) div 4"
    by (simp add: i(2) a_def b_def type_at_def sizeof_btf_type_def)
  then show ?thesis using sz by (auto simp: words_ok_def btf_type_size_def sizeof_btf_type_def split: option.splits)
qed

section \<open>Validation\<close>

lemma validate_loop_some:
  assumes "\<And>i. i \<in> set is \<Longrightarrow> \<exists>e. f i = Some e \<and> e \<in> E" "0 \<in> E"
  shows "\<exists>e. validate_loop f is = Some e \<and> e \<in> E \<and> (e = 0 \<longrightarrow> (\<forall>i\<in>set is. f i = Some 0))"
  using assms(1)
proof (induction "is")
  case (Cons i "is")
  then obtain e where e: "f i = Some e" "e \<in> E" by auto
  then show ?case using Cons by (cases "e = 0") auto
qed (use assms(2) in simp)

lemma validate_str_zero: "btf_validate_str b s = 0 \<longleftrightarrow> btf__name_by_offset b s \<noteq> None"
  and validate_id_zero: "btf_validate_id b r = 0 \<longleftrightarrow> btf__type_by_id b r \<noteq> None"
  by (simp_all add: btf_validate_str_def btf_validate_id_def)

lemma err_or_zero: "err_or e e' = 0 \<longleftrightarrow> e = 0 \<and> e' = 0"
  by (simp add: err_or_def)

lemmas validate_zero = validate_str_zero validate_id_zero err_or_zero

lemma validate_codes:
  "btf_validate_str b s \<in> {0, - EINVAL}" "btf_validate_id b r \<in> {0, - EINVAL}"
  by (simp_all add: btf_validate_str_def btf_validate_id_def)

lemma err_or_in: "e \<in> E \<Longrightarrow> e' \<in> E \<Longrightarrow> err_or e e' \<in> E"
  by (simp add: err_or_def)

text \<open>The elements of a type are there when its words are, and validating them checks what they name.\<close>

lemma btf_word_some: "i < length (bt_words t) \<Longrightarrow> btf_word t i = Some (bt_words t ! i)"
  by (simp add: btf_word_def)

lemma member_some:
  assumes "3 * btf_vlen t \<le> length (bt_words t)" "i < btf_vlen t"
  shows "btf_members t i = Some \<lparr>mb_name_off = bt_words t ! (3 * i), mb_type = bt_words t ! (3 * i + 1),
    mb_offset = bt_words t ! (3 * i + 2)\<rparr>"
  using assms by (simp add: btf_members_def btf_word_some)

definition names_and_ids :: "btf \<Rightarrow> u32 set \<Rightarrow> u32 set \<Rightarrow> bool" where
  "names_and_ids b S R \<longleftrightarrow> (\<forall>s\<in>S. btf__name_by_offset b s \<noteq> None) \<and> (\<forall>r\<in>R. btf__type_by_id b r \<noteq> None)"

lemma validate_elems:
  assumes "\<And>i. i < n \<Longrightarrow> \<exists>e. f i = Some e \<and> e \<in> {0, - EINVAL} \<and> (e = 0 \<longrightarrow> names_and_ids b (S i) (R i))"
  shows "\<exists>e. validate_loop f [0..<n] = Some e \<and> e \<in> {0, - EINVAL} \<and>
    (e = 0 \<longrightarrow> names_and_ids b (\<Union>i<n. S i) (\<Union>i<n. R i))"
proof -
  have "\<exists>e. validate_loop f [0..<n] = Some e \<and> e \<in> {0, - EINVAL} \<and>
      (e = 0 \<longrightarrow> (\<forall>i\<in>set [0..<n]. f i = Some 0))"
    using assms by (intro validate_loop_some) force+
  then obtain e where e: "validate_loop f [0..<n] = Some e" "e \<in> {0, - EINVAL}"
      "e = 0 \<longrightarrow> (\<forall>i\<in>set [0..<n]. f i = Some 0)"
    by blast
  have "names_and_ids b (S i) (R i)" if "e = 0" "i < n" for i
    using e(3) that assms [OF that(2)] by auto
  then show ?thesis using e(1,2) by (auto simp: names_and_ids_def)
qed

lemma validate_kind_ok:
  assumes w: "words_ok t"
  shows "\<exists>e. validate_kind b t = Some e \<and> e \<in> {0, - EINVAL} \<and>
    (e = 0 \<longrightarrow> names_and_ids b (set (tl (type_strs t))) (set (type_refs t)) \<and>
       (btf_kind t = BTF_KIND_FUNC \<longrightarrow>
          (\<exists>ft. btf__type_by_id b (bt_type t) = Some ft \<and> btf_kind ft = BTF_KIND_FUNC_PROTO)))"
proof -
  let ?k = "btf_kind t" and ?w = "bt_words t"
  have codes: "btf_validate_str b s = 0 \<or> btf_validate_str b s = - EINVAL"
    "btf_validate_id b r = 0 \<or> btf_validate_id b r = - EINVAL" for s r
    using validate_codes by auto
  consider (plain) "?k \<in> {BTF_KIND_UNKN, BTF_KIND_INT, BTF_KIND_FWD, BTF_KIND_FLOAT}"
    | (ref) "?k \<in> {BTF_KIND_PTR, BTF_KIND_TYPEDEF, BTF_KIND_VOLATILE, BTF_KIND_CONST, BTF_KIND_RESTRICT,
          BTF_KIND_VAR, BTF_KIND_DECL_TAG, BTF_KIND_TYPE_TAG}"
    | (array) "?k = BTF_KIND_ARRAY" | (comp) "?k = BTF_KIND_STRUCT \<or> ?k = BTF_KIND_UNION"
    | (enum) "?k = BTF_KIND_ENUM" | (enum64) "?k = BTF_KIND_ENUM64" | (func) "?k = BTF_KIND_FUNC"
    | (proto) "?k = BTF_KIND_FUNC_PROTO" | (datasec) "?k = BTF_KIND_DATASEC"
    | (other) "?k \<notin> {BTF_KIND_UNKN, BTF_KIND_INT, BTF_KIND_FWD, BTF_KIND_FLOAT, BTF_KIND_PTR, BTF_KIND_TYPEDEF,
          BTF_KIND_VOLATILE, BTF_KIND_CONST, BTF_KIND_RESTRICT, BTF_KIND_VAR, BTF_KIND_DECL_TAG, BTF_KIND_TYPE_TAG,
          BTF_KIND_ARRAY, BTF_KIND_STRUCT, BTF_KIND_UNION, BTF_KIND_ENUM, BTF_KIND_ENUM64, BTF_KIND_FUNC,
          BTF_KIND_FUNC_PROTO, BTF_KIND_DATASEC}"
    by blast
  then show ?thesis
  proof cases
    case plain
    then show ?thesis
      by (auto simp: validate_kind_def type_strs_def type_refs_def names_and_ids_def Let_def btf_kinds)
  next
    case ref
    then have "validate_kind b t = Some (btf_validate_id b (bt_type t))"
      by (auto simp: validate_kind_def btf_kinds)
    moreover have "type_refs t = [bt_type t]" "tl (type_strs t) = []" "?k \<noteq> BTF_KIND_FUNC"
      using ref by (auto simp: type_refs_def type_strs_def Let_def btf_kinds)
    ultimately show ?thesis
      using codes(2) [of "bt_type t"] by (auto simp: names_and_ids_def validate_zero)
  next
    case array
    then have l: "length ?w = 3" using w by (simp add: words_ok_def rest_words_def btf_kinds)
    have "validate_kind b t = Some (err_or (btf_validate_id b (?w ! 0)) (btf_validate_id b (?w ! 1)))"
      using array l by (simp add: validate_kind_def btf_array_def btf_word_some btf_kinds)
    moreover have "type_refs t = [?w ! 0, ?w ! 1]" "tl (type_strs t) = []" "?k \<noteq> BTF_KIND_FUNC"
      using array by (auto simp: type_refs_def type_strs_def Let_def btf_kinds)
    ultimately show ?thesis
      using codes(2) [of "?w ! 0"] codes(2) [of "?w ! 1"]
      by (auto simp: names_and_ids_def err_or_def validate_zero)
  next
    case comp
    then have l: "3 * btf_vlen t \<le> length ?w" using w by (auto simp: words_ok_def rest_words_def btf_kinds)
    have v: "validate_kind b t = validate_loop (validate_member b t) [0..<btf_vlen t]"
      using comp by (auto simp: validate_kind_def btf_kinds)
    have "\<exists>e. validate_member b t i = Some e \<and> e \<in> {0, - EINVAL} \<and>
        (e = 0 \<longrightarrow> names_and_ids b {?w ! (3 * i)} {?w ! (3 * i + 1)})" if "i < btf_vlen t" for i
      using member_some [OF l that] codes(1) [of "?w ! (3 * i)"] codes(2) [of "?w ! (3 * i + 1)"]
      by (auto simp: validate_member_def names_and_ids_def err_or_def validate_zero)
    from validate_elems [of "btf_vlen t" "validate_member b t" b "\<lambda>i. {?w ! (3 * i)}" "\<lambda>i. {?w ! (3 * i + 1)}", OF this] show ?thesis
      using comp unfolding v
      by (auto simp: type_strs_def type_refs_def Let_def btf_kinds names_and_ids_def)
  next
    case enum
    then have l: "2 * btf_vlen t \<le> length ?w" using w by (auto simp: words_ok_def rest_words_def btf_kinds)
    have v: "validate_kind b t = validate_loop (validate_enum b t) [0..<btf_vlen t]"
      using enum by (auto simp: validate_kind_def btf_kinds)
    have "\<exists>e. validate_enum b t i = Some e \<and> e \<in> {0, - EINVAL} \<and>
        (e = 0 \<longrightarrow> names_and_ids b {?w ! (2 * i)} {})" if "i < btf_vlen t" for i
      using l that codes(1) [of "?w ! (2 * i)"] enum
      by (auto simp: validate_enum_def btf_enum_name_off_def btf_is_enum_def btf_word_some names_and_ids_def validate_zero)
    from validate_elems [of "btf_vlen t" "validate_enum b t" b "\<lambda>i. {?w ! (2 * i)}" "\<lambda>i. {}", OF this] show ?thesis
      using enum unfolding v
      by (auto simp: type_strs_def type_refs_def Let_def btf_kinds names_and_ids_def)
  next
    case enum64
    then have l: "3 * btf_vlen t \<le> length ?w" using w by (auto simp: words_ok_def rest_words_def btf_kinds)
    have v: "validate_kind b t = validate_loop (validate_enum b t) [0..<btf_vlen t]"
      using enum64 by (auto simp: validate_kind_def btf_kinds)
    have "\<exists>e. validate_enum b t i = Some e \<and> e \<in> {0, - EINVAL} \<and>
        (e = 0 \<longrightarrow> names_and_ids b {?w ! (3 * i)} {})" if "i < btf_vlen t" for i
      using l that codes(1) [of "?w ! (3 * i)"] enum64
      by (auto simp: validate_enum_def btf_enum_name_off_def btf_is_enum_def btf_word_some names_and_ids_def
          validate_zero btf_kinds)
    from validate_elems [of "btf_vlen t" "validate_enum b t" b "\<lambda>i. {?w ! (3 * i)}" "\<lambda>i. {}", OF this] show ?thesis
      using enum64 unfolding v
      by (auto simp: type_strs_def type_refs_def Let_def btf_kinds names_and_ids_def)
  next
    case func
    then show ?thesis
      using codes(2) [of "bt_type t"]
      by (auto simp: validate_kind_def type_strs_def type_refs_def Let_def btf_kinds names_and_ids_def validate_zero
          btf_validate_id_def)
  next
    case proto
    then have l: "2 * btf_vlen t \<le> length ?w" using w by (auto simp: words_ok_def rest_words_def btf_kinds)
    have v: "validate_kind b t = validate_loop (validate_param b t) [0..<btf_vlen t]"
      using proto by (auto simp: validate_kind_def btf_kinds)
    have "\<exists>e. validate_param b t i = Some e \<and> e \<in> {0, - EINVAL} \<and>
        (e = 0 \<longrightarrow> names_and_ids b {?w ! (2 * i)} {?w ! (2 * i + 1)})" if "i < btf_vlen t" for i
      using l that codes(1) [of "?w ! (2 * i)"] codes(2) [of "?w ! (2 * i + 1)"]
      by (auto simp: validate_param_def btf_params_type_def btf_word_some names_and_ids_def err_or_def validate_zero)
    from validate_elems [of "btf_vlen t" "validate_param b t" b "\<lambda>i. {?w ! (2 * i)}" "\<lambda>i. {?w ! (2 * i + 1)}", OF this] show ?thesis
      using proto unfolding v
      by (auto simp: type_strs_def type_refs_def Let_def btf_kinds names_and_ids_def)
  next
    case datasec
    then have l: "3 * btf_vlen t \<le> length ?w" using w by (auto simp: words_ok_def rest_words_def btf_kinds)
    have v: "validate_kind b t = validate_loop (validate_secinfo b t) [0..<btf_vlen t]"
      using datasec by (auto simp: validate_kind_def btf_kinds)
    have "\<exists>e. validate_secinfo b t i = Some e \<and> e \<in> {0, - EINVAL} \<and>
        (e = 0 \<longrightarrow> names_and_ids b {} {?w ! (3 * i)})" if "i < btf_vlen t" for i
      using l that codes(2) [of "?w ! (3 * i)"]
      by (auto simp: validate_secinfo_def btf_word_some names_and_ids_def validate_zero)
    from validate_elems [of "btf_vlen t" "validate_secinfo b t" b "\<lambda>i. {}" "\<lambda>i. {?w ! (3 * i)}", OF this] show ?thesis
      using datasec unfolding v
      by (auto simp: type_strs_def type_refs_def Let_def btf_kinds names_and_ids_def)
  next
    case other
    then have "validate_kind b t =
        (if btf_type_size_unknown (layout b) (base_btf b) t < 0 then Some (- EINVAL) else Some 0)"
      by (simp add: validate_kind_def)
    moreover have "type_refs t = []" "tl (type_strs t) = []"
      using other by (simp_all add: type_refs_def type_strs_def Let_def)
    ultimately show ?thesis using other by (auto simp: names_and_ids_def)
  qed
qed

lemma validate_type_ok:
  assumes "words_ok t"
  shows "\<exists>e. btf_validate_type b t = Some e \<and> e \<in> {0, - EINVAL} \<and> (e = 0 \<longrightarrow> wf_type b t)"
proof -
  have strs: "type_strs t = bt_name_off t # tl (type_strs t)" by (simp add: type_strs_def Let_def)
  have all: "(\<forall>s\<in>set (type_strs t). P s) \<longleftrightarrow> P (bt_name_off t) \<and> (\<forall>s\<in>set (tl (type_strs t)). P s)" for P
    by (subst strs) simp
  show ?thesis
    using validate_kind_ok [OF assms, of b] validate_codes(1) [of b "bt_name_off t"] assms
    by (auto simp: btf_validate_type_def Let_def wf_type_def names_and_ids_def validate_zero all)
qed

lemma sanity_check_ok:
  assumes "1 \<le> start_id b" "\<forall>t\<in>set (btf_types b). words_ok t"
  shows "\<exists>e. btf_sanity_check b = Some e \<and> e \<in> {0, - EINVAL} \<and>
    (e = 0 \<longrightarrow> (\<forall>t\<in>set (btf_types b). wf_type b t))"
proof -
  define f where "f = (\<lambda>i. do { t \<leftarrow> btf_type_by_id b i; btf_validate_type b t })"
  have f: "f (start_id b + j) = btf_validate_type b (btf_types b ! j)" if "j < length (btf_types b)" for j
    using assms(1) that by (subst f_def, subst type_by_id_def') auto
  have "\<exists>e. f i = Some e \<and> e \<in> {0, - EINVAL}" if "i \<in> set [start_id b..<btf__type_cnt b]" for i
    using f [of "i - start_id b"] that assms(2) validate_type_ok [of "btf_types b ! (i - start_id b)" b]
    by (fastforce simp: btf__type_cnt_def)
  then have "\<exists>e. validate_loop f [start_id b..<btf__type_cnt b] = Some e \<and> e \<in> {0, - EINVAL} \<and>
      (e = 0 \<longrightarrow> (\<forall>i\<in>set [start_id b..<btf__type_cnt b]. f i = Some 0))"
    by (intro validate_loop_some) auto
  then obtain e where e: "btf_sanity_check b = Some e" "e \<in> {0, - EINVAL}"
      "e = 0 \<longrightarrow> (\<forall>i\<in>set [start_id b..<btf__type_cnt b]. f i = Some 0)"
    unfolding btf_sanity_check_def f_def by blast
  have "wf_type b (btf_types b ! j)" if "e = 0" "j < length (btf_types b)" for j
  proof -
    have "f (start_id b + j) = Some 0" using e(3) that by (simp add: btf__type_cnt_def)
    then show ?thesis
      using f [OF that(2)] validate_type_ok [of "btf_types b ! j" b] assms(2) that(2) by simp
  qed
  then show ?thesis using e(1,2) by (metis in_set_conv_nth)
qed

section \<open>Order\<close>

lemma check_sorted_loop_ok:
  fixes nm
  assumes "\<And>i. s \<le> i \<Longrightarrow> i < n \<Longrightarrow> type_name b i = Some (nm i)" "1 \<le> s" "s + 1 \<le> k" "k \<le> n"
    and "named = 0 \<and> (\<forall>i\<in>{s..<k - 1}. nm i = []) \<or> s \<le> named \<and> named < k \<and> (\<forall>i\<in>{s..<named}. nm i = [])"
    and "\<forall>i. s < i \<and> i < k \<longrightarrow> strcmp (nm (i - 1)) (nm i) \<le> 0"
  shows "\<exists>r. check_sorted_loop b [k..<n] named = Some r \<and>
    (r \<noteq> 0 \<longrightarrow> s \<le> r \<and> r < n \<and> (\<forall>i\<in>{s..<r}. nm i = []) \<and>
       (\<forall>i. s < i \<and> i < n \<longrightarrow> strcmp (nm (i - 1)) (nm i) \<le> 0))"
  using assms(3-)
proof (induction "n - k" arbitrary: k named)
  case 0
  then have "k = n" by simp
  then show ?case using "0.prems" by auto
next
  case (Suc m)
  then have k: "k < n" "s < k" by auto
  then have l: "[k..<n] = k # [Suc k..<n]" by (simp add: upt_rec)
  have names: "type_name b (k - Suc 0) = Some (nm (k - 1))" "type_name b k = Some (nm k)"
    using assms(1) [of "k - 1"] assms(1) [of k] k by auto
  show ?case
  proof (cases "0 < strcmp (nm (k - 1)) (nm k)")
    case True
    then show ?thesis by (simp add: l names)
  next
    case False
    define n1 where "n1 = (if named = 0 \<and> nm (k - 1) \<noteq> [] then k - 1 else named)"
    define n2 where "n2 = (if n1 = 0 \<and> nm k \<noteq> [] then k else n1)"
    have step: "check_sorted_loop b [k..<n] named = check_sorted_loop b [Suc k..<n] n2"
      using False by (simp add: l names n1_def n2_def)
    have "n2 = 0 \<and> (\<forall>i\<in>{s..<Suc k - 1}. nm i = []) \<or> s \<le> n2 \<and> n2 < Suc k \<and> (\<forall>i\<in>{s..<n2}. nm i = [])"
    proof -
      have set: "{s..<k} = insert (k - 1) {s..<k - 1}" using k by auto
      show ?thesis
        using Suc.prems(3) k assms(2) by (cases "named = 0") (auto simp: n2_def n1_def set split: if_splits)
    qed
    moreover have "\<forall>i. s < i \<and> i < Suc k \<longrightarrow> strcmp (nm (i - 1)) (nm i) \<le> 0"
      using Suc.prems(4) False by (auto simp: less_Suc_eq)
    moreover have "m = n - Suc k" using Suc.hyps(2) by simp
    ultimately show ?thesis
      using Suc.hyps(1) [of "Suc k" n2] k step by auto
  qed
qed

lemma sorted_names:
  assumes "\<forall>i. s < i \<and> i < n \<longrightarrow> strcmp (nm (i - 1)) (nm i) \<le> 0"
  shows "sorted_wrt (\<lambda>x y. strcmp x y \<le> 0) (map nm [s..<n])"
proof -
  have "transp (\<lambda>x y. strcmp x y \<le> 0)" by (auto simp: transp_def strcmp_le)
  moreover have "strcmp (nm (s + i)) (nm (s + Suc i)) \<le> 0" if "Suc i < n - s" for i
    using assms that by (metis add_Suc_right diff_Suc_1 less_add_Suc1 less_diff_conv add.commute)
  ultimately show ?thesis by (auto simp: sorted_wrt_iff_nth_Suc_transp)
qed

section \<open>Reading an object\<close>

lemma check_sorted_ok:
  assumes "b = Btf base sid ts so ss p nm ly" "1 \<le> sid" "\<forall>t\<in>set ts. wf_type b t"
  shows "\<exists>r. btf_check_sorted b = Some r \<and> named_ok (Btf base sid ts so ss p r ly)"
proof -
  let ?n = "sid + length ts"
  have sel: "start_id b = sid" "btf__type_cnt b = ?n" by (simp_all add: assms(1) btf__type_cnt_def)
  have names: "type_name b i = Some (the (type_name b i))" if "sid \<le> i" "i < ?n" for i
  proof -
    have "btf_type_by_id b i = Some (ts ! (i - sid))"
      using that assms(1,2) by (subst type_by_id_def') auto
    moreover have "wf_type b (ts ! (i - sid))" using that assms(3) by simp
    ultimately show ?thesis by (auto simp: type_name_def wf_type_def type_strs_def Let_def)
  qed
  obtain r where r: "btf_check_sorted b = Some r"
    "r \<noteq> 0 \<longrightarrow> sid \<le> r \<and> r < ?n \<and> (\<forall>i\<in>{sid..<r}. the (type_name b i) = []) \<and>
       (\<forall>i. sid < i \<and> i < ?n \<longrightarrow> strcmp (the (type_name b (i - 1))) (the (type_name b i)) \<le> 0)"
  proof (cases "ts = []")
    case True
    then show ?thesis by (intro that [of 0]) (simp_all add: btf_check_sorted_def sel)
  next
    case False
    then have "sid + 1 \<le> ?n" by (cases ts) simp_all
    from check_sorted_loop_ok [of sid ?n b "\<lambda>i. the (type_name b i)" "sid + 1" 0, OF names assms(2) _ this]
    show ?thesis using that by (auto simp: btf_check_sorted_def sel)
  qed
  have tn: "type_name (Btf base sid ts so ss p r ly) = type_name b"
    unfolding assms(1) by (rule named_irrelevant)
  have "type_name b i = Some []" if "sid \<le> i" "i < ?n" "the (type_name b i) = []" for i
    using names [OF that(1,2)] that(3) by simp
  then have "named_ok (Btf base sid ts so ss p r ly)"
    using r(2) names sorted_names [of sid ?n "\<lambda>i. the (type_name b i)"]
    by (cases "r = 0") (auto simp: named_ok_def own_names_def tn btf__type_cnt_def)
  then show ?thesis using r(1) by blast
qed

lemma file_start_id_pos: "\<forall>bb. bf_base bf = Some bb \<longrightarrow> wf_btf bb \<Longrightarrow> 1 \<le> file_start_id bf"
  using start_id_pos by (fastforce simp: file_start_id_def btf__type_cnt_def split: option.splits)

lemma length_file_strs: "sections_ok bf \<Longrightarrow> length (file_strs bf) = str_len bf"
  by (simp add: file_strs_def sections_ok_def)

lemma file_strs_nth: "sections_ok bf \<Longrightarrow> i < str_len bf \<Longrightarrow> file_strs bf ! i = char_of (unat (bf_raw bf ! (strs_data bf + i)))"
  by (auto simp: file_strs_def sections_ok_def slice_def)

lemma char_of_zero: "char_of (0 :: nat) = CHR 0x00"
  by (simp add: char_of_def)

text \<open>What loading leaves: an object whose sections and types are consistent and validated.\<close>

definition loaded :: "btf_file \<Rightarrow> bool" where
  "loaded bf \<longleftrightarrow>
     sections_ok bf \<and> strs_ok bf \<and> offs_ok bf (type_len bf) \<and> layout_len bf mod 4 = 0 \<and>
     btf_sanity_check (the_btf bf) = Some 0"

lemma loaded_wf:
  assumes "loaded bf" "\<forall>bb. bf_base bf = Some bb \<longrightarrow> wf_btf bb" "bf_named_start_id bf = 0"
  shows "\<exists>r. btf_check_sorted (the_btf bf) = Some r \<and> wf_btf (the_btf (bf\<lparr>bf_named_start_id := r\<rparr>))"
proof -
  let ?b = "\<lambda>r. Btf (bf_base bf) (file_start_id bf) (file_types bf) (file_start_str_off bf) (file_strs bf)
    0 r (file_layout bf)"
  have b: "the_btf (bf\<lparr>bf_named_start_id := r\<rparr>) = ?b r" for r
    by (simp add: the_btf_def file_start_id_def file_types_def file_start_str_off_def file_strs_def
        file_layout_def types_data_def strs_data_def layout_data_def)
  have b0: "the_btf bf = ?b (bf_named_start_id bf)" by (simp add: the_btf_def)
  have ok: "sections_ok bf" "strs_ok bf" "offs_ok bf (type_len bf)"
    using assms(1) by (auto simp: loaded_def)
  have pos: "1 \<le> file_start_id bf" using file_start_id_pos assms(2) by blast
  have "\<forall>t\<in>set (file_types bf). words_ok t" using file_types_words [OF ok(3)] by blast
  then have wt: "\<forall>t\<in>set (file_types bf). wf_type (the_btf bf) t"
    using sanity_check_ok [of "the_btf bf"] pos assms(1) by (auto simp: b0 loaded_def)
  obtain r where r: "btf_check_sorted (the_btf bf) = Some r" "named_ok (?b r)"
    using check_sorted_ok [OF b0 pos wt] by blast
  have wt': "\<forall>t\<in>set (file_types bf). wf_type (?b r) t"
    using wt unfolding b0 named_irrelevant(3) [of _ _ _ _ _ _ "bf_named_start_id bf" _ r] .
  have ls: "length (file_strs bf) = str_len bf" using length_file_strs [OF ok(1)] .
  have last: "List.last (file_strs bf) = CHR 0x00" if "file_strs bf \<noteq> []"
  proof -
    have pos: "0 < str_len bf" using that ls by (metis length_greater_0_conv)
    then have "file_strs bf ! (str_len bf - 1) = char_of (unat (bf_raw bf ! (strs_data bf + str_len bf - 1)))"
      using file_strs_nth [OF ok(1), of "str_len bf - 1"] by simp
    also have "bf_raw bf ! (strs_data bf + str_len bf - 1) = 0"
      using ok(2) pos by (auto simp: strs_ok_def)
    finally have "file_strs bf ! (str_len bf - 1) = CHR 0x00" by (simp only: unsigned_0 char_of_zero)
    then show ?thesis using that ls by (simp add: last_conv_nth)
  qed
  have first: "file_strs bf \<noteq> [] \<and> hd (file_strs bf) = CHR 0x00" if "bf_base bf = None"
  proof -
    have pos: "0 < str_len bf" using that ok(2) by (auto simp: strs_ok_def unat_gt_0 split: if_splits)
    have "file_strs bf ! 0 = char_of (unat (bf_raw bf ! strs_data bf))"
      using file_strs_nth [OF ok(1) pos] by simp
    moreover have "bf_raw bf ! strs_data bf = 0" using ok(2) pos that by (auto simp: strs_ok_def)
    ultimately have "file_strs bf ! 0 = CHR 0x00" by (simp only: unsigned_0 char_of_zero)
    moreover have "file_strs bf \<noteq> []" using pos ls by (metis length_greater_0_conv)
    ultimately show ?thesis by (simp add: hd_conv_nth)
  qed
  have "wf_btf (?b r)"
    using last first wt' r(2) assms(2)
    by (auto simp: file_start_id_def file_start_str_off_def split: option.splits)
  then show ?thesis using r(1) b by auto
qed

lemma btf_sanity_codes:
  assumes "offs_ok bf (type_len bf)" "\<forall>bb. bf_base bf = Some bb \<longrightarrow> wf_btf bb"
  shows "\<exists>e. btf_sanity_check (the_btf bf) = Some e \<and> e \<in> {0, - EINVAL}"
proof -
  have "1 \<le> start_id (the_btf bf)" using file_start_id_pos assms(2) by (simp add: the_btf_def)
  moreover have "\<forall>t\<in>set (btf_types (the_btf bf)). words_ok t"
    using file_types_words [OF assms(1)] by (simp add: the_btf_def)
  ultimately show ?thesis using sanity_check_ok by blast
qed

lemma load_sections_ok:
  assumes "sections_ok bf" "bf_type_offs bf = []" "\<forall>bb. bf_base bf = Some bb \<longrightarrow> wf_btf bb"
  shows "parse_post (\<lambda>bf'. loaded bf' \<and> bf_base bf' = bf_base bf \<and>
      bf_named_start_id bf' = bf_named_start_id bf \<and> length (bf_raw bf') = length (bf_raw bf))
    (load_sections alloc bf)"
proof -
  obtain e1 where e1: "btf_parse_str_sec bf = Some e1" "e1 \<in> {0, - EINVAL}" "e1 = 0 \<longrightarrow> strs_ok bf"
    using btf_parse_str_sec_ok [OF assms(1)] by blast
  show ?thesis
  proof (cases "e1 = 0")
    case False
    then show ?thesis using e1 by (simp add: load_sections_def parse_post_def)
  next
    case s: True
    obtain e2 bf2 where e2: "btf_parse_layout_sec bf = Some (e2, bf2)" "e2 \<in> {0, - EINVAL, - ENOMEM, - ENOTSUP}"
        "e2 = 0 \<longrightarrow> same_file (layout_data bf) (strs_data bf) bf bf2 \<and> bf_type_offs bf2 = bf_type_offs bf \<and>
          layout_len bf mod 4 = 0"
      using btf_parse_layout_sec_ok [OF assms(1)] by (auto simp: parse_post_def)
    show ?thesis
    proof (cases "e2 = 0")
      case False
      then show ?thesis using s e1 e2 by (simp add: load_sections_def parse_post_def)
    next
      case l: True
      then have f2: "same_file (layout_data bf) (strs_data bf) bf bf2" "bf_type_offs bf2 = []" "layout_len bf mod 4 = 0"
        using e2(3) assms(2) by auto
      have ok2: "sections_ok bf2" using same_file_sections [OF f2(1)] assms(1) by simp
      have s2: "strs_ok bf2" using same_file_strs [OF f2(1) _ assms(1)] e1(3) s by simp
      have "offs_ok bf2 0" using f2(2) by (simp add: offs_ok_def)
      from parse_types_loop_ok [OF ok2 this, of alloc]
      obtain e3 bf3 where e3: "btf_parse_type_sec alloc bf2 = Some (e3, bf3)" "e3 \<in> {0, - EINVAL, - ENOMEM, - ENOTSUP}"
          "e3 = 0 \<longrightarrow> same_file (types_data bf2) (types_data bf2 + type_len bf2) bf2 bf3 \<and> offs_ok bf3 (type_len bf3)"
        by (auto simp: parse_post_def btf_parse_type_sec_def)
      show ?thesis
      proof (cases "e3 = 0")
        case False
        then show ?thesis using s l e1 e2 e3 by (simp add: load_sections_def parse_post_def)
      next
        case t: True
        then have f3: "same_file (types_data bf2) (types_data bf2 + type_len bf2) bf2 bf3" "offs_ok bf3 (type_len bf3)"
          using e3(3) by auto
        have ok3: "sections_ok bf3" using same_file_sections [OF f3(1)] ok2 by simp
        have s3: "strs_ok bf3" using same_file_strs [OF f3(1) _ ok2] s2 ok2 by (simp add: sections_ok_def)
        have fr: "bf_base bf3 = bf_base bf" "bf_named_start_id bf3 = bf_named_start_id bf" "bf_hdr bf3 = bf_hdr bf"
            "length (bf_raw bf3) = length (bf_raw bf)"
          using f2(1) f3(1) by (simp_all add: same_file_def same_outside_def)
        obtain e4 where e4: "btf_sanity_check (the_btf bf3) = Some e4" "e4 \<in> {0, - EINVAL}"
          using btf_sanity_codes [OF f3(2)] fr(1) assms(3) by auto
        have r: "load_sections alloc bf = Some (e4, bf3)"
          using s l t e1 e2 e3 e4 by (simp add: load_sections_def)
        have "loaded bf3" if "e4 = 0"
          using that ok3 s3 f3(2) f2(3) fr(3) e4 by (simp add: loaded_def)
        then show ?thesis using r e4(2) fr by (auto simp: parse_post_def)
      qed
    qed
  qed
qed

section \<open>Property\<close>



end
