(* ===== verification/Btf_Find.thy ===== *)
theory Btf_Find
  imports Btf_Wf
begin

text \<open>
  Looking types up by name (\<open>lib/libbpf/src/btf.c\<close>): a binary search when the object is sorted,
  a scan otherwise, the base object first. Ids and kinds are C \<open>int\<close>s; a negative kind accepts
  every kind. \<open>None\<close> is a dereferenced null pointer.
\<close>

section \<open>Search\<close>

function bsearch_loop :: "btf \<Rightarrow> string \<Rightarrow> nat \<Rightarrow> nat \<Rightarrow> nat option" where
  "bsearch_loop b nm l r =
     (if r < l then Some (btf__type_cnt b)
      else
        let m = l + (r - l) div 2
        in do {
          tname \<leftarrow> type_name b m;
          if 0 \<le> strcmp tname nm then (if l = r then Some r else bsearch_loop b nm l m)
          else bsearch_loop b nm (m + 1) r })"
  by pat_completeness auto
termination by (relation "measure (\<lambda>(b, nm, l, r). r + 1 - l)") auto

declare bsearch_loop.simps [simp del]

definition btf_find_type_by_name_bsearch :: "btf \<Rightarrow> string \<Rightarrow> nat \<Rightarrow> nat option" where
  "btf_find_type_by_name_bsearch b nm start = bsearch_loop b nm start (btf__type_cnt b - 1)"

definition kind_is :: "int \<Rightarrow> btf_type \<Rightarrow> bool" where
  "kind_is kind t \<longleftrightarrow> uint (btf_kind t) = kind"

text \<open>The run of equal names from the first one on.\<close>

fun find_in_run :: "btf \<Rightarrow> string \<Rightarrow> int \<Rightarrow> nat list \<Rightarrow> int option" where
  "find_in_run b nm kind [] = Some (- ENOENT)"
| "find_in_run b nm kind (i # is) = do {
     t \<leftarrow> btf__type_by_id b (of_nat i);
     tname \<leftarrow> btf__name_by_offset b (bt_name_off t);
     if strcmp tname nm \<noteq> 0 then Some (- ENOENT)
     else if kind < 0 \<or> kind_is kind t then Some (int i)
     else find_in_run b nm kind is }"

fun find_scan :: "btf \<Rightarrow> string \<Rightarrow> int \<Rightarrow> nat list \<Rightarrow> int option" where
  "find_scan b nm kind [] = Some (- ENOENT)"
| "find_scan b nm kind (i # is) = do {
     t \<leftarrow> btf_type_by_id b i;
     if 0 < kind \<and> \<not> kind_is kind t then find_scan b nm kind is
     else do {
       tname \<leftarrow> btf__name_by_offset b (bt_name_off t);
       if strcmp tname nm = 0 then Some (int i) else find_scan b nm kind is } }"

text \<open>The part of \<open>btf_find_by_name_kind\<close> on the object's own types.\<close>

definition find_own :: "btf \<Rightarrow> nat \<Rightarrow> string \<Rightarrow> int \<Rightarrow> int option" where
  "find_own b start nm kind =
     (if kind = uint BTF_KIND_UNKN \<or> strcmp nm ''void'' = 0 then Some 0
      else if 0 < named_start_id b \<and> nm \<noteq> [] then do {
        i \<leftarrow> btf_find_type_by_name_bsearch b nm (max start (named_start_id b));
        find_in_run b nm kind [i..<btf__type_cnt b] }
      else find_scan b nm kind [start..<btf__type_cnt b])"

fun btf_find_by_name_kind :: "btf \<Rightarrow> nat \<Rightarrow> string \<Rightarrow> int \<Rightarrow> int option" where
  "btf_find_by_name_kind (Btf base sid ts so ss p named ly) start nm kind =
     (if start < sid then
        (case base of
           None \<Rightarrow> None
         | Some bb \<Rightarrow> do {
             i \<leftarrow> btf_find_by_name_kind bb start nm kind;
             if 0 \<le> i then Some i else find_own (Btf base sid ts so ss p named ly) sid nm kind })
      else find_own (Btf base sid ts so ss p named ly) start nm kind)"

definition btf__find_by_name :: "btf \<Rightarrow> string \<Rightarrow> int option" where
  "btf__find_by_name b nm = btf_find_by_name_kind b 1 nm (- 1)"

definition btf__find_by_name_kind_own :: "btf \<Rightarrow> string \<Rightarrow> u32 \<Rightarrow> int option" where
  "btf__find_by_name_kind_own b nm kind = btf_find_by_name_kind b (start_id b) nm (sint kind)"

definition btf__find_by_name_kind :: "btf \<Rightarrow> string \<Rightarrow> u32 \<Rightarrow> int option" where
  "btf__find_by_name_kind b nm kind = btf_find_by_name_kind b 1 nm (sint kind)"

section \<open>Specification\<close>

text \<open>Type \<open>i\<close> has the name and the kind.\<close>

definition matches :: "btf \<Rightarrow> string \<Rightarrow> int \<Rightarrow> nat \<Rightarrow> bool" where
  "matches b nm kind i \<longleftrightarrow>
     (\<exists>t. btf_type_by_id b i = Some t \<and> btf__name_by_offset b (bt_name_off t) = Some nm \<and>
       (kind < 0 \<or> kind_is kind t))"

text \<open>The first of the types from an id on, in all objects of the chain.\<close>

definition first_match :: "btf \<Rightarrow> nat \<Rightarrow> string \<Rightarrow> int \<Rightarrow> int" where
  "first_match b start nm kind =
     (if kind = 0 \<or> nm = ''void'' then 0
      else case List.find (matches b nm kind) [start..<btf__type_cnt b] of
             None \<Rightarrow> - ENOENT
           | Some i \<Rightarrow> int i)"

section \<open>The binary search\<close>

text \<open>
  In the order of the names, the search ends at the first id whose name is not before the
  searched one.
\<close>

lemma bsearch_loop_first:
  assumes names: "\<And>i. lo \<le> i \<Longrightarrow> i \<le> r0 \<Longrightarrow> type_name b i = Some (nmf i)"
    and sorted: "\<And>i j. lo \<le> i \<Longrightarrow> i \<le> j \<Longrightarrow> j \<le> r0 \<Longrightarrow> name_key (nmf i) \<le> name_key (nmf j)"
    and cnt: "btf__type_cnt b = r0 + 1"
  shows "lo \<le> l \<Longrightarrow> r \<le> r0 \<Longrightarrow> l \<le> r + 1 \<Longrightarrow>
     (\<And>i. lo \<le> i \<Longrightarrow> i < l \<Longrightarrow> name_key (nmf i) < name_key nm) \<Longrightarrow>
     r = r0 \<or> name_key nm \<le> name_key (nmf r) \<and> l \<le> r \<Longrightarrow>
     \<exists>k. bsearch_loop b nm l r = Some k \<and> l \<le> k \<and> k \<le> r0 + 1 \<and>
       (\<forall>i. lo \<le> i \<and> i < k \<longrightarrow> name_key (nmf i) < name_key nm) \<and>
       (k \<le> r0 \<longrightarrow> name_key nm \<le> name_key (nmf k))"
proof (induction "r + 1 - l" arbitrary: l r rule: less_induct)
  case less
  show ?case
  proof (cases "r < l")
    case True
    then have "r = r0" "l = r0 + 1" using less.prems by auto
    then show ?thesis
      using True less.prems(4) by (subst bsearch_loop.simps) (auto simp: cnt)
  next
    case False
    define m where "m = l + (r - l) div 2"
    have m: "l \<le> m" "m \<le> r" "l \<noteq> r \<Longrightarrow> m < r" using False by (auto simp: m_def)
    have nm_m: "type_name b m = Some (nmf m)" using names less.prems(1,2) m by simp
    have step: "bsearch_loop b nm l r =
        (if name_key nm \<le> name_key (nmf m) then (if l = r then Some r else bsearch_loop b nm l m)
         else bsearch_loop b nm (m + 1) r)"
      using False nm_m by (subst bsearch_loop.simps) (auto simp: m_def [symmetric] strcmp_key Let_def)
    show ?thesis
    proof (cases "name_key nm \<le> name_key (nmf m)")
      case ge: True
      show ?thesis
      proof (cases "l = r")
        case True
        then have "m = r" using m by simp
        then show ?thesis using step ge True less.prems by auto
      next
        case ne: False
        have "\<exists>k. bsearch_loop b nm l m = Some k \<and> l \<le> k \<and> k \<le> r0 + 1 \<and>
            (\<forall>i. lo \<le> i \<and> i < k \<longrightarrow> name_key (nmf i) < name_key nm) \<and>
            (k \<le> r0 \<longrightarrow> name_key nm \<le> name_key (nmf k))"
          using m ne ge less.prems by (intro less.hyps) auto
        then show ?thesis using step ge ne by simp
      qed
    next
      case lt: False
      have "name_key (nmf i) < name_key nm" if "lo \<le> i" "i < m + 1" for i
        using sorted [of i m] that m less.prems(1,2) lt by (auto simp: not_le intro: le_less_trans)
      moreover have "r = r0 \<or> name_key nm \<le> name_key (nmf r) \<and> m + 1 \<le> r"
      proof (cases "r = r0")
        case False
        then have "m \<noteq> r" using less.prems(5) lt by auto
        then show ?thesis using less.prems(5) m by auto
      qed simp
      ultimately have "\<exists>k. bsearch_loop b nm (m + 1) r = Some k \<and> m + 1 \<le> k \<and> k \<le> r0 + 1 \<and>
          (\<forall>i. lo \<le> i \<and> i < k \<longrightarrow> name_key (nmf i) < name_key nm) \<and>
          (k \<le> r0 \<longrightarrow> name_key nm \<le> name_key (nmf k))"
        using m False less.prems(1,2) by (intro less.hyps) auto
      then show ?thesis using step lt m by auto
    qed
  qed
qed

section \<open>The lists of candidates\<close>

lemma find_append: "List.find P (xs @ ys) = (case List.find P xs of None \<Rightarrow> List.find P ys | Some x \<Rightarrow> Some x)"
  by (induction xs) auto

lemma find_none: "(\<And>x. x \<in> set xs \<Longrightarrow> \<not> P x) \<Longrightarrow> List.find P xs = None"
  by (simp add: find_None_iff)

definition result :: "nat option \<Rightarrow> int" where
  "result r = (case r of None \<Rightarrow> - ENOENT | Some i \<Rightarrow> int i)"

lemma kind_nonzero: "kind \<noteq> 0 \<Longrightarrow> (0 < kind \<and> \<not> kind_is kind t \<longleftrightarrow> \<not> (kind < 0 \<or> kind_is kind t))"
  by (cases "kind < 0") (auto simp: kind_is_def)

lemma matches_own:
  assumes "type_name b i = Some s" "btf_type_by_id b i = Some t"
  shows "matches b nm kind i \<longleftrightarrow> s = nm \<and> (kind < 0 \<or> kind_is kind t)"
  using assms by (auto simp: matches_def type_name_def)

lemma find_scan_eq:
  assumes "wf_btf b" "kind \<noteq> 0" "\<forall>i\<in>set is. i < btf__type_cnt b"
  shows "find_scan b nm kind is = Some (result (List.find (matches b nm kind) is))"
  using assms(3)
proof (induction "is")
  case Nil
  then show ?case by (simp add: result_def)
next
  case (Cons i "is")
  obtain t s where t: "btf_type_by_id b i = Some t" "type_name b i = Some s"
    using type_by_id_some type_name_some assms(1) Cons.prems by fastforce
  have n: "btf__name_by_offset b (bt_name_off t) = Some s" using t by (simp add: type_name_def)
  show ?case
    using Cons matches_own [OF t(2,1), of nm kind] kind_nonzero [OF assms(2), of t]
    by (auto simp: t n strcmp_eq result_def)
qed

lemma find_in_run_eq:
  assumes "wf_btf b" "\<forall>i\<in>set is. i < btf__type_cnt b" "btf__type_cnt b < 2 ^ 32"
    and "\<And>i. i \<in> set is \<Longrightarrow> type_name b i = Some (nmf i)"
    and "sorted_wrt (\<lambda>i j. name_key (nmf i) \<le> name_key (nmf j)) is"
    and "\<And>i. i \<in> set is \<Longrightarrow> name_key nm \<le> name_key (nmf i)"
  shows "find_in_run b nm kind is = Some (result (List.find (matches b nm kind) is))"
  using assms(2,4,5,6)
proof (induction "is")
  case Nil
  then show ?case by (simp add: result_def)
next
  case (Cons i "is")
  obtain t where t: "btf_type_by_id b i = Some t"
    using type_by_id_some assms(1) Cons.prems(1) by fastforce
  have "unat (of_nat i :: u32) = i"
    using Cons.prems(1) assms(3) by (simp add: unat_of_nat)
  then have t': "btf__type_by_id b (of_nat i) = Some t"
    using t Cons.prems(1) by (simp add: btf__type_by_id_def)
  have s: "type_name b i = Some (nmf i)" using Cons.prems(2) by simp
  then have n: "btf__name_by_offset b (bt_name_off t) = Some (nmf i)" using t by (simp add: type_name_def)
  note mt = matches_own [OF s t, of nm kind]
  show ?case
  proof (cases "nmf i = nm")
    case True
    then show ?thesis
      using Cons mt by (auto simp: t' n strcmp_eq result_def)
  next
    case False
    have "\<not> matches b nm kind j" if "j \<in> set (i # is)" for j
    proof -
      have "name_key nm < name_key (nmf i)"
        using Cons.prems(4) [of i] False by (auto simp: less_le)
      then have "nmf j \<noteq> nm" using Cons.prems(3) that by auto
      moreover have "type_name b j = Some (nmf j)" using Cons.prems(2) that by blast
      ultimately show ?thesis by (auto simp: matches_def type_name_def)
    qed
    then have "List.find (matches b nm kind) (i # is) = None" by (intro find_none)
    then show ?thesis using False by (simp add: t' n strcmp_eq result_def)
  qed
qed

section \<open>Own types\<close>

lemma own_sorted:
  assumes "named_ok b" "named_start_id b \<noteq> 0" "start_id b \<le> i" "i \<le> j" "j < btf__type_cnt b"
  shows "name_key (the (type_name b i)) \<le> name_key (the (type_name b j))"
proof (cases "i = j")
  case False
  let ?s = "start_id b"
  have s: "sorted_wrt (\<lambda>x y. strcmp x y \<le> 0) (own_names b)" using assms(1,2) by (simp add: named_ok_def)
  have "strcmp (own_names b ! (i - ?s)) (own_names b ! (j - ?s)) \<le> 0"
    using assms(3-5) False by (intro sorted_wrt_nth_less [OF s]) (auto simp: own_names_def)
  moreover have "own_names b ! (k - ?s) = the (type_name b k)" if "?s \<le> k" "k < btf__type_cnt b" for k
    using that nth_upt [of ?s "k - ?s" "btf__type_cnt b"] by (simp add: own_names_def)
  from this [of i] this [of j] have "own_names b ! (i - ?s) = the (type_name b i)"
    "own_names b ! (j - ?s) = the (type_name b j)" using assms(3-5) by simp_all
  ultimately show ?thesis by (simp add: strcmp_le)
qed simp

lemma bsearch_finds:
  assumes wf: "wf_btf b" and named: "named_start_id b \<noteq> 0" and start: "start_id b \<le> start"
    and nm: "nm \<noteq> []"
  shows "\<exists>k. btf_find_type_by_name_bsearch b nm (max start (named_start_id b)) = Some k \<and>
    (\<forall>i. start \<le> i \<and> i < k \<and> i < btf__type_cnt b \<longrightarrow> type_name b i \<noteq> Some nm) \<and>
    (k < btf__type_cnt b \<longrightarrow> start \<le> k \<and> name_key nm \<le> name_key (the (type_name b k))) \<and> k \<le> btf__type_cnt b"
proof -
  let ?n = "btf__type_cnt b"
  define st where "st = max start (named_start_id b)"
  have st: "start \<le> st" "named_start_id b \<le> st" by (simp_all add: st_def)
  have ok: "named_ok b" using wf by (simp add: wf_btf_def')
  have n: "0 < ?n" using start_id_pos [OF wf] by (simp add: btf__type_cnt_def)
  have empty: "type_name b i \<noteq> Some nm" if "start \<le> i" "i < st" for i
    using ok named nm start that by (auto simp: named_ok_def st_def)
  show ?thesis
  proof (cases "st \<le> ?n - 1 + 1")
    case False
    then have "btf_find_type_by_name_bsearch b nm st = Some ?n"
      unfolding btf_find_type_by_name_bsearch_def by (subst bsearch_loop.simps) auto
    then show ?thesis using empty False n by (auto simp: st_def [symmetric])
  next
    case True
    have names: "type_name b i = Some (the (type_name b i))" if "i \<le> ?n - 1" for i
      using type_name_some [OF wf, of i] that n by auto
    have srt: "name_key (the (type_name b i)) \<le> name_key (the (type_name b j))"
      if "st \<le> i" "i \<le> j" "j \<le> ?n - 1" for i j
      using own_sorted [OF ok named, of i j] that start st n by auto
    have "?n = ?n - 1 + 1" using n by simp
    from bsearch_loop_first [of st "?n - 1" b "\<lambda>i. the (type_name b i)" st "?n - 1" nm, OF names srt this _ _ True]
    obtain k where k: "bsearch_loop b nm st (?n - 1) = Some k" "st \<le> k" "k \<le> ?n - 1 + 1"
      "\<forall>i. st \<le> i \<and> i < k \<longrightarrow> name_key (the (type_name b i)) < name_key nm"
      "k \<le> ?n - 1 \<longrightarrow> name_key nm \<le> name_key (the (type_name b k))"
      by auto
    have "type_name b i \<noteq> Some nm" if "start \<le> i" "i < k" for i
    proof (cases "i < st")
      case False
      then have "name_key (the (type_name b i)) < name_key nm" using k(4) that by simp
      then show ?thesis by auto
    qed (use empty that in blast)
    then show ?thesis using k st n by (auto simp: btf_find_type_by_name_bsearch_def st_def [symmetric])
  qed
qed

lemma find_split:
  assumes "\<And>i. start \<le> i \<Longrightarrow> i < k \<Longrightarrow> \<not> P i" "start \<le> k" "k \<le> n"
  shows "List.find P [start..<n] = List.find P [k..<n]"
proof -
  have "[start..<n] = [start..<k] @ [k..<n]" using assms(2,3) by (metis le_Suc_ex upt_add_eq_append)
  moreover have "List.find P [start..<k] = None" using assms(1) by (intro find_none) auto
  ultimately show ?thesis by (simp add: find_append)
qed

lemma find_own_eq:
  assumes wf: "wf_btf b" and start: "start_id b \<le> start" and cnt: "btf__type_cnt b < 2 ^ 32"
  shows "find_own b start nm kind =
    Some (if kind = 0 \<or> nm = ''void'' then 0
          else result (List.find (matches b nm kind) [start..<btf__type_cnt b]))"
proof -
  let ?n = "btf__type_cnt b"
  consider (zero) "kind = 0 \<or> nm = ''void''"
    | (search) "kind \<noteq> 0" "nm \<noteq> ''void''" "0 < named_start_id b" "nm \<noteq> []"
    | (scan) "kind \<noteq> 0" "nm \<noteq> ''void''" "\<not> (0 < named_start_id b \<and> nm \<noteq> [])"
    by (cases "kind = 0"; cases "nm = ''void''"; cases "0 < named_start_id b"; cases "nm = []") auto
  then show ?thesis
  proof cases
    case zero
    then show ?thesis by (auto simp: find_own_def strcmp_eq BTF_KIND_UNKN_def)
  next
    case scan
    then show ?thesis
      using find_scan_eq [OF wf, of kind "[start..<?n]" nm]
      by (auto simp: find_own_def strcmp_eq BTF_KIND_UNKN_def)
  next
    case search
    obtain k where k: "btf_find_type_by_name_bsearch b nm (max start (named_start_id b)) = Some k"
      "\<forall>i. start \<le> i \<and> i < k \<and> i < ?n \<longrightarrow> type_name b i \<noteq> Some nm"
      "k < ?n \<longrightarrow> start \<le> k \<and> name_key nm \<le> name_key (the (type_name b k))" "k \<le> ?n"
      using bsearch_finds [OF wf _ start search(4)] search(3) by auto
    have f: "find_own b start nm kind = find_in_run b nm kind [k..<?n]"
      using search k(1) by (simp add: find_own_def strcmp_eq BTF_KIND_UNKN_def)
    have ok: "named_ok b" "named_start_id b \<noteq> 0" using wf search(3) by (auto simp: wf_btf_def')
    have no: "\<not> matches b nm kind i" if "type_name b i \<noteq> Some nm" for i
      using that by (auto simp: matches_def type_name_def)
    show ?thesis
    proof (cases "k < ?n")
      case True
      then have ks: "start \<le> k" "name_key nm \<le> name_key (the (type_name b k))" using k(3) by auto
      have names: "type_name b i = Some (the (type_name b i))" if "i \<in> set [k..<?n]" for i
        using type_name_some [OF wf, of i] that by auto
      have srt: "name_key (the (type_name b i)) \<le> name_key (the (type_name b j))"
        if "k \<le> i" "i \<le> j" "j < ?n" for i j
        using own_sorted [OF ok, of i j] that ks(1) start by auto
      have "find_in_run b nm kind [k..<?n] = Some (result (List.find (matches b nm kind) [k..<?n]))"
      proof (rule find_in_run_eq [OF wf _ cnt names])
        show "sorted_wrt (\<lambda>i j. name_key (the (type_name b i)) \<le> name_key (the (type_name b j))) [k..<?n]"
          using srt by (auto simp: sorted_wrt_iff_nth_less)
        show "name_key nm \<le> name_key (the (type_name b i))" if "i \<in> set [k..<?n]" for i
          using ks(2) srt [of k i] that by auto
      qed auto
      moreover have "List.find (matches b nm kind) [start..<?n] = List.find (matches b nm kind) [k..<?n]"
        using k(2,4) ks(1) no by (intro find_split) auto
      ultimately show ?thesis using f search by simp
    next
      case False
      then have "k = ?n" using k(4) by simp
      moreover have "List.find (matches b nm kind) [start..<?n] = None"
        using k(2) no calculation by (intro find_none) auto
      ultimately show ?thesis using f search by (simp add: result_def)
    qed
  qed
qed

section \<open>Property\<close>

lemma matches_base:
  assumes "base_btf b = Some bb" "wf_btf b" "i < btf__type_cnt bb"
  shows "matches b nm kind i \<longleftrightarrow> matches bb nm kind i"
proof -
  have bb: "wf_btf bb" "start_id b = btf__type_cnt bb" using assms(1,2) by (auto simp: wf_btf_def')
  have z: "btf_type_by_id bb 0 = Some btf_void" by (subst type_by_id_def') simp
  have e: "btf_type_by_id b i = btf_type_by_id bb i"
    using assms(1,3) bb z by (simp add: type_by_id_def' [of b])
  have "btf__name_by_offset b (bt_name_off t) = btf__name_by_offset bb (bt_name_off t)"
    if "btf_type_by_id bb i = Some t" for t
    using base_name [OF assms(1,2)] wf_type_by_id [OF bb(1) that] by (auto simp: wf_type_def type_strs_def Let_def)
  then show ?thesis unfolding matches_def e by auto
qed

lemma first_match_result:
  "first_match b start nm kind =
     (if kind = 0 \<or> nm = ''void'' then 0 else result (List.find (matches b nm kind) [start..<btf__type_cnt b]))"
  by (simp add: first_match_def result_def)


text \<open>An object of four types sorted by name: an unnamed one, \<open>a\<close>, and two of name \<open>b\<close>.\<close>

definition sorted_btf :: btf where
  "sorted_btf = Btf None 1
     [\<lparr>bt_name_off = 0, bt_info = 0x02000000, bt_union = 2, bt_words = []\<rparr>,
      \<lparr>bt_name_off = 1, bt_info = 0x07000000, bt_union = 0, bt_words = []\<rparr>,
      \<lparr>bt_name_off = 3, bt_info = 0x07000000, bt_union = 0, bt_words = []\<rparr>,
      \<lparr>bt_name_off = 3, bt_info = 0x04000000, bt_union = 8, bt_words = []\<rparr>]
     0 [CHR 0x00, CHR ''a'', CHR 0x00, CHR ''b'', CHR 0x00] 8 2 []"

lemma sorted_btf_names:
  "type_name sorted_btf 1 = Some []" "type_name sorted_btf 2 = Some ''a''"
  "type_name sorted_btf 3 = Some ''b''" "type_name sorted_btf 4 = Some ''b''"
  "btf__type_cnt sorted_btf = 5" "start_id sorted_btf = 1" "named_start_id sorted_btf = 2"
  by (simp_all add: sorted_btf_def type_name_def btf__name_by_offset_def btf__type_cnt_def)

lemma sorted_btf_wf: "wf_btf sorted_btf"
proof -
  have "own_names sorted_btf = [[], ''a'', ''b'', ''b'']"
  proof -
    have "[1..<5] = [1, 2, 3, 4 :: nat]" by (simp add: upt_rec)
    then show ?thesis using sorted_btf_names by (simp add: own_names_def)
  qed
  moreover have "{1..<2} = {1 :: nat}" by auto
  ultimately have "named_ok sorted_btf"
    by (simp add: named_ok_def sorted_btf_names [simplified])
  moreover have "\<forall>t\<in>set (btf_types sorted_btf). wf_type sorted_btf t"
    by (simp add: sorted_btf_def wf_type_def words_ok_def rest_words_def type_refs_def type_strs_def btf_kind_def
        btf_vlen_def btf_kinds btf__type_by_id_def btf__type_cnt_def btf__name_by_offset_def)
  ultimately show ?thesis by (simp add: wf_btf_def') (simp add: sorted_btf_def)
qed


end
