(* ===== verification/Btf_Progress.thy ===== *)
theory Btf_Progress
  imports Btf_Wf Btf_Props Btf_Demo Relo_Core
begin

text \<open>
  Validated BTF does not get the relocation code stuck. Validation leaves two things open that
  the readers need: that a chain of modifiers and typedefs ends, and that the return type of a
  function prototype exists. With them the compatibility check is defined; without the second it
  is not, which a validated object shows.
\<close>

section \<open>Skipping modifiers\<close>

definition valid_id :: "btf \<Rightarrow> u32 \<Rightarrow> bool" where
  "valid_id b r \<longleftrightarrow> btf__type_by_id b r \<noteq> None"

text \<open>Every chain of modifiers and typedefs ends, and every function prototype has a return type.\<close>

definition chains_end :: "btf \<Rightarrow> bool" where
  "chains_end b \<longleftrightarrow> (\<forall>r. valid_id b r \<longrightarrow> skip_mods_and_typedefs b r \<noteq> None)"

definition returns_valid :: "btf \<Rightarrow> bool" where
  "returns_valid b \<longleftrightarrow>
     (\<forall>r t. btf__type_by_id b r = Some t \<and> btf_kind t = BTF_KIND_FUNC_PROTO \<longrightarrow> valid_id b (bt_type t))"

lemma id_lookup: "btf__type_by_id b r = Some t \<Longrightarrow> btf_type_by_id b (unat r) = Some t"
  by (auto simp: btf__type_by_id_def split: if_splits)

section \<open>Words of a type\<close>

lemma words_some: "i < length (bt_words t) \<Longrightarrow> btf_word t i = Some (bt_words t ! i)"
  by (simp add: btf_word_def)

lemma int_offset_some:
  assumes "wf_type b t" "btf_kind t = BTF_KIND_INT"
  shows "\<exists>x. btf_int_offset t = Some x"
proof -
  have "length (bt_words t) = 1"
    using assms by (simp add: wf_type_def words_ok_def rest_words_def btf_kinds)
  then show ?thesis by (simp add: btf_int_offset_def words_some)
qed

lemma array_some:
  assumes "wf_type b t" "btf_kind t = BTF_KIND_ARRAY"
  shows "\<exists>a. btf_array t = Some a \<and> valid_id b (ar_type a) \<and> valid_id b (ar_index_type a)"
proof -
  have "length (bt_words t) = 3"
    using assms by (simp add: wf_type_def words_ok_def rest_words_def btf_kinds)
  moreover have "set (type_refs t) = {bt_words t ! 0, bt_words t ! 1}"
    using assms(2) by (simp add: type_refs_def btf_kinds)
  ultimately show ?thesis
    using assms(1) by (simp add: btf_array_def words_some wf_type_def valid_id_def)
qed

lemma ref_valid:
  assumes "wf_type b t" "btf_kind t \<in> {BTF_KIND_PTR, BTF_KIND_TYPEDEF, BTF_KIND_VOLATILE, BTF_KIND_CONST,
    BTF_KIND_RESTRICT, BTF_KIND_VAR, BTF_KIND_DECL_TAG, BTF_KIND_TYPE_TAG, BTF_KIND_FUNC}"
  shows "valid_id b (bt_type t)"
  using assms by (auto simp: wf_type_def type_refs_def valid_id_def Let_def)

lemma param_some:
  assumes "wf_type b t" "btf_kind t = BTF_KIND_FUNC_PROTO" "i < btf_vlen t"
  shows "\<exists>p. btf_params_type t i = Some p \<and> valid_id b p"
proof -
  have "length (bt_words t) = btf_vlen t * 2"
    using assms(1,2) by (simp add: wf_type_def words_ok_def rest_words_def btf_kinds)
  moreover have "bt_words t ! (2 * i + 1) \<in> set (type_refs t)"
    using assms(2,3) by (auto simp: type_refs_def btf_kinds)
  ultimately show ?thesis
    using assms(1,3) by (simp add: btf_params_type_def words_some wf_type_def valid_id_def)
qed

section \<open>The compatibility check\<close>

definition good :: "btf \<Rightarrow> bool" where
  "good b \<longleftrightarrow> wf_btf b \<and> chains_end b \<and> returns_valid b"

lemma good_skip:
  assumes "good b" "valid_id b r"
  shows "\<exists>t r'. skip_mods_and_typedefs b r = Some (t, r') \<and> btf__type_by_id b r' = Some t \<and>
    valid_id b r' \<and> wf_type b t"
proof -
  obtain t r' where s: "skip_mods_and_typedefs b r = Some (t, r')"
    using assms by (fastforce simp: good_def chains_end_def)
  then show ?thesis
    using skip_result [OF s] assms(1) wf_type_lookup by (auto simp: valid_id_def good_def)
qed

abbreviation defined_code :: "int option \<Rightarrow> bool" where
  "defined_code r \<equiv> \<exists>e. r = Some e \<and> e \<in> {0, 1, - EINVAL}"

lemma ints_compat_defined:
  "wf_type b t \<Longrightarrow> btf_kind t = BTF_KIND_INT \<Longrightarrow> wf_type b' t' \<Longrightarrow> btf_kind t' = BTF_KIND_INT \<Longrightarrow>
     defined_code (ints_compat t t')"
  using int_offset_some [of b t] int_offset_some [of b' t'] by (auto simp: ints_compat_def)

lemma core_compat_kind: "btf_kind_core_compat t t' \<Longrightarrow> btf_kind t = btf_kind t' \<or>
    btf_kind t \<in> {BTF_KIND_ENUM, BTF_KIND_ENUM64}"
  by (auto simp: btf_kind_core_compat_def btf_is_any_enum_def btf_is_enum_def btf_is_enum64_def)

lemma compat_defined:
  "good lb \<Longrightarrow> good tb \<Longrightarrow> valid_id lb li \<Longrightarrow> valid_id tb ti \<Longrightarrow>
     defined_code (types_are_compat level lb li tb ti)"
  "good lb \<Longrightarrow> good tb \<Longrightarrow> valid_id lb li \<Longrightarrow> valid_id tb ti \<Longrightarrow>
     defined_code (compat_recur level depth lb li tb ti)"
  "good lb \<Longrightarrow> good tb \<Longrightarrow> wf_type lb lt \<Longrightarrow> wf_type tb tt \<Longrightarrow>
     btf_kind lt = BTF_KIND_FUNC_PROTO \<Longrightarrow> btf_kind tt = BTF_KIND_FUNC_PROTO \<Longrightarrow>
     \<forall>i\<in>set is. i < btf_vlen lt \<and> i < btf_vlen tt \<Longrightarrow> defined_code (compat_params level lb lt tb tt is)"
proof (induction level lb li tb ti and level depth lb li tb ti and level lb lt tb tt "is"
    rule: types_are_compat_compat_recur_compat_params.induct)
  case (1 level lb li tb ti)
  then obtain t t' where "btf_type_by_id lb (unat li) = Some t" "btf_type_by_id tb (unat ti) = Some t'"
    using id_lookup by (fastforce simp: valid_id_def)
  then show ?case using 1 by simp
next
  case (3 level depth lb li tb ti)
  obtain t li' where s: "skip_mods_and_typedefs lb li = Some (t, li')" "btf__type_by_id lb li' = Some t"
      "valid_id lb li'" "wf_type lb t"
    using good_skip "3.prems" by blast
  obtain t' ti' where s': "skip_mods_and_typedefs tb ti = Some (t', ti')" "btf__type_by_id tb ti' = Some t'"
      "valid_id tb ti'" "wf_type tb t'"
    using good_skip "3.prems" by blast
  show ?case
  proof (cases "btf_kind_core_compat t t'")
    case False
    then show ?thesis by (simp add: s s')
  next
    case c: True
    consider (stop) "btf_kind t \<in> {BTF_KIND_UNKN, BTF_KIND_STRUCT, BTF_KIND_UNION, BTF_KIND_ENUM,
          BTF_KIND_FWD, BTF_KIND_ENUM64}"
      | (int) "btf_kind t = BTF_KIND_INT" | (ptr) "btf_kind t = BTF_KIND_PTR"
      | (array) "btf_kind t = BTF_KIND_ARRAY" | (proto) "btf_kind t = BTF_KIND_FUNC_PROTO"
      | (other) "btf_kind t \<notin> {BTF_KIND_UNKN, BTF_KIND_STRUCT, BTF_KIND_UNION, BTF_KIND_ENUM, BTF_KIND_FWD,
          BTF_KIND_ENUM64, BTF_KIND_INT, BTF_KIND_PTR, BTF_KIND_ARRAY, BTF_KIND_FUNC_PROTO}"
      by blast
    then show ?thesis
    proof cases
      case stop
      then show ?thesis using c by (simp add: s s')
    next
      case int
      then have "btf_kind t' = BTF_KIND_INT" using core_compat_kind [OF c] by (auto simp: btf_kinds)
      then show ?thesis
        using ints_compat_defined [OF s(4) int s'(4)] c int by (simp add: s s' btf_kinds)
    next
      case ptr
      then have k': "btf_kind t' = BTF_KIND_PTR" using core_compat_kind [OF c] by (auto simp: btf_kinds)
      then have "valid_id lb (bt_type t)" "valid_id tb (bt_type t')"
        using ref_valid s(4) s'(4) ptr by blast+
      then show ?thesis using 3 c ptr s s' by (auto simp: btf_kinds)
    next
      case array
      then have k': "btf_kind t' = BTF_KIND_ARRAY" using core_compat_kind [OF c] by (auto simp: btf_kinds)
      obtain a a' where "btf_array t = Some a" "valid_id lb (ar_type a)"
          "btf_array t' = Some a'" "valid_id tb (ar_type a')"
        using array_some [OF s(4) array] array_some [OF s'(4) k'] by blast
      then show ?thesis using 3 c array s s' by (auto simp: btf_kinds)
    next
      case proto
      then have k': "btf_kind t' = BTF_KIND_FUNC_PROTO" using core_compat_kind [OF c] by (auto simp: btf_kinds)
      have rv: "valid_id lb (bt_type t)" "valid_id tb (bt_type t')"
        using "3.prems" s(2) s'(2) proto k' by (auto simp: good_def returns_valid_def)
      obtain x y where x: "skip_mods_and_typedefs lb (bt_type t) = Some (x, y)" "valid_id lb y"
        using good_skip [OF "3.prems"(1) rv(1)] by blast
      obtain x' y' where x': "skip_mods_and_typedefs tb (bt_type t') = Some (x', y')" "valid_id tb y'"
        using good_skip [OF "3.prems"(2) rv(2)] by blast
      show ?thesis
      proof (cases "btf_vlen t = btf_vlen t'")
        case False
        then show ?thesis using c proto by (simp add: s s' btf_kinds)
      next
        case True
        have "defined_code (compat_params level lb t tb t' [0..<btf_vlen t])"
          using "3.IH" "3.prems" c proto k' s s' True by (auto simp: btf_kinds)
        then obtain e where e: "compat_params level lb t tb t' [0..<btf_vlen t] = Some e" "e \<in> {0, 1, - EINVAL}"
          by blast
        show ?thesis
        proof (cases "e \<le> 0")
          case True
          then show ?thesis using c proto s s' e \<open>btf_vlen t = btf_vlen t'\<close> by (auto simp: btf_kinds)
        next
          case False
          have "defined_code (compat_recur level depth lb y tb y')"
            using "3.IH" "3.prems" c proto s s' True e False x x' by (auto simp: btf_kinds)
          then show ?thesis using c proto s s' True e False x x' by (auto simp: btf_kinds)
        qed
      qed
    next
      case other
      then show ?thesis using c by (simp add: s s')
    qed
  qed
next
  case (6 level lb lt tb tt i "is")
  obtain p x y where p: "btf_params_type lt i = Some p" "skip_mods_and_typedefs lb p = Some (x, y)" "valid_id lb y"
    using param_some [OF "6.prems"(3,5)] good_skip [OF "6.prems"(1)] "6.prems"(7) by (metis list.set_intros(1))
  obtain p' x' y' where p': "btf_params_type tt i = Some p'" "skip_mods_and_typedefs tb p' = Some (x', y')" "valid_id tb y'"
    using param_some [OF "6.prems"(4,6)] good_skip [OF "6.prems"(2)] "6.prems"(7) by (metis list.set_intros(1))
  have "defined_code (types_are_compat level lb y tb y')" using "6.IH" "6.prems" p p' by auto
  then obtain e where e: "types_are_compat level lb y tb y' = Some e" "e \<in> {0, 1, - EINVAL}" by blast
  show ?case
  proof (cases "e \<le> 0")
    case True
    then show ?thesis using p p' e by (auto simp del: types_are_compat.simps)
  next
    case False
    then have "defined_code (compat_params (Suc level) lb lt tb tt is)"
      using "6.IH" "6.prems" p p' e by (auto simp del: types_are_compat.simps)
    then show ?thesis using p p' e False by (simp del: types_are_compat.simps)
  qed
qed simp_all

section \<open>Sizes\<close>

lemma ptr_size_loop_defined:
  assumes "wf_btf b" "\<forall>i\<in>set is. i < btf__type_cnt b"
  shows "\<exists>x. ptr_size_loop b is = Some x"
  using assms(2)
proof (induction "is")
  case (Cons i "is")
  have "unat (of_nat i :: u32) \<le> i" by (simp add: unat_of_nat)
  then obtain t where "btf__type_by_id b (of_nat i) = Some t"
    using lookup_some [OF assms(1), of "of_nat i"] Cons.prems by auto
  then show ?case using Cons by (auto split: option.splits)
qed simp

lemma ptr_sz_defined: "wf_btf b \<Longrightarrow> \<exists>p. btf_ptr_sz b = Some p"
  using ptr_size_loop_defined [of b "[1..<btf__type_cnt b]"]
  by (auto simp: btf_ptr_sz_def determine_ptr_size_def split: option.splits)

lemma resolve_size_defined: "wf_btf b \<Longrightarrow> \<exists>s. resolve_size_loop n b r k = Some s"
proof (induction n arbitrary: r k)
  case (Suc n)
  show ?case
  proof (cases "btf__type_by_id b r")
    case (Some t)
    then have "wf_type b t" using wf_type_lookup Suc.prems by blast
    then have "btf_is_array t \<Longrightarrow> \<exists>a. btf_array t = Some a"
      using array_some by (auto simp: btf_is_array_def)
    then show ?thesis using Some Suc ptr_sz_defined [OF Suc.prems] by auto
  qed simp
qed simp

section \<open>Property\<close>

text \<open>C34. No reader is stuck on validated BTF: on objects that \<open>btf_new\<close> accepts, whose typedef
  chains end and whose prototypes have return types, the CO-RE compatibility check of any two
  valid types answers yes, no or \<open>-EINVAL\<close>, and the size of any type is computed, without a
  null dereference or a read outside a type.\<close>

theorem validated_readers_defined:
  assumes "wf_btf lb" "wf_btf tb" "chains_end lb" "chains_end tb" "returns_valid lb" "returns_valid tb"
    and "valid_id lb li" "valid_id tb ti"
  shows "(\<exists>e. bpf_core_types_are_compat lb li tb ti = Some e \<and> e \<in> {0, 1, - EINVAL}) \<and>
    (\<exists>s. btf__resolve_size lb li = Some s)"
proof -
  have "good lb" "good tb" using assms(1-6) by (simp_all add: good_def)
  from compat_defined(1) [OF this assms(7,8), of 32] show ?thesis
    using resolve_size_defined [OF assms(1), of MAX_RESOLVE_DEPTH li 1]
    by (simp only: bpf_core_types_are_compat_def btf__resolve_size_def)
qed

lemma image_ids: "valid_id image_btf r \<longleftrightarrow> r = 0 \<or> r = 1"
proof -
  have "btf__type_cnt image_btf = 2" by (simp add: image_btf_def btf__type_cnt_def)
  then have "valid_id image_btf r \<longleftrightarrow> unat r < 2 \<and> btf_type_by_id image_btf (unat r) \<noteq> None"
    by (simp add: valid_id_def btf__type_by_id_def)
  also have "\<dots> \<longleftrightarrow> unat r < 2" by (auto simp: image_btf_def)
  also have "\<dots> \<longleftrightarrow> unat r = unat (0 :: u32) \<or> unat r = unat (1 :: u32)" by auto
  finally show ?thesis by (simp only: word_unat_eq_iff [symmetric])
qed

lemma image_lookup:
  "btf__type_by_id image_btf 0 = Some btf_void"
  "btf__type_by_id image_btf 1 = Some \<lparr>bt_name_off = 1, bt_info = 0x01000000, bt_union = 4, bt_words = [32]\<rparr>"
  by (simp_all add: btf__type_by_id_def image_btf_def btf__type_cnt_def)

lemma image_good: "wf_btf image_btf" "chains_end image_btf" "returns_valid image_btf"
proof -
  show "wf_btf image_btf"
    by (simp add: image_btf_def wf_type_def words_ok_def rest_words_def type_refs_def type_strs_def btf_kind_def
        btf_kinds btf__name_by_offset_def named_ok_def)
  have "skip_mods_and_typedefs image_btf r \<noteq> None" if "valid_id image_btf r" for r
    using that image_lookup
    by (subst skip_mods_and_typedefs.simps)
      (auto simp: image_ids btf_is_mod_def btf_is_typedef_def btf_kind_def btf_kinds btf_void_def)
  then show "chains_end image_btf" by (simp add: chains_end_def)
  have "btf_kind t \<noteq> BTF_KIND_FUNC_PROTO" if "btf__type_by_id image_btf r = Some t" for r t
    using image_ids [of r] image_lookup that
    by (auto simp: valid_id_def btf_kind_def btf_kinds btf_void_def)
  then show "returns_valid image_btf" by (auto simp: returns_valid_def)
qed

theorem validated_readers_defined_witness:
  "(\<exists>e. bpf_core_types_are_compat image_btf 1 image_btf 1 = Some e \<and> e \<in> {0, 1, - EINVAL}) \<and>
   (\<exists>s. btf__resolve_size image_btf 1 = Some s)"
  by (rule validated_readers_defined) (simp_all add: image_good image_ids)

text \<open>
  The hypothesis on return types is needed: the object of one prototype whose return type does
  not exist passes validation, and comparing the prototype with itself dereferences null.
\<close>

definition stray_return_btf :: btf where
  "stray_return_btf =
     Btf None 1 [\<lparr>bt_name_off = 0, bt_info = 0x0D000000, bt_union = 99, bt_words = []\<rparr>] 0 [CHR 0x00] 0 0 []"

lemma stray_return_accepted: "btf_sanity_check stray_return_btf = Some 0"
  by (simp add: stray_return_btf_def btf_sanity_check_def btf__type_cnt_def upt_rec btf_validate_type_def
      btf_validate_str_def btf__name_by_offset_def validate_kind_def btf_kind_def btf_vlen_def btf_kinds)

lemma stray_return_stuck: "bpf_core_types_are_compat stray_return_btf 1 stray_return_btf 1 = None"
proof -
  let ?t = "\<lparr>bt_name_off = 0, bt_info = 0x0D000000, bt_union = 99, bt_words = []\<rparr> :: btf_type"
  have l: "btf__type_by_id stray_return_btf 1 = Some ?t" "btf_type_by_id stray_return_btf 1 = Some ?t"
    "btf__type_by_id stray_return_btf 99 = None"
    by (simp_all add: btf__type_by_id_def stray_return_btf_def btf__type_cnt_def)
  have "skip_mods_and_typedefs stray_return_btf 1 = Some (?t, 1)"
    using l by (subst skip_mods_and_typedefs.simps) (simp add: btf_is_mod_def btf_is_typedef_def btf_kind_def btf_kinds)
  moreover have "skip_mods_and_typedefs stray_return_btf 99 = None"
    using l by (subst skip_mods_and_typedefs.simps) simp
  ultimately have stuck: "compat_recur level (Suc depth) stray_return_btf 1 stray_return_btf 1 = None" for level depth
    by (simp add: btf_kind_core_compat_def btf_kind_def btf_vlen_def btf_kinds)
  have "Suc 31 = 32" by simp
  then have "compat_recur 32 32 stray_return_btf 1 stray_return_btf 1 = None"
    using stuck [of 32 31]
    by (simp only:)
  then show ?thesis using l by (simp add: bpf_core_types_are_compat_def btf_kind_core_compat_def)
qed

end
