(* ===== verification/Btf_Build.thy ===== *)
theory Btf_Build
  imports Btf_Load
begin

text \<open>
  Building BTF (\<open>lib/libbpf/src/btf.c\<close>: \<open>btf__new_empty\<close>, \<open>btf_ensure_modifiable\<close>, the strings and
  the \<open>btf__add_*\<close> functions). An object with its bases is the list of them, the object first, as
  looking for a string makes the bases modifiable too. A result is \<open>Inr\<close> of a value or \<open>Inl e\<close> for
  \<open>-e\<close>, with the object the operation leaves. A pointer into the type memory is an offset. A C
  string is its bytes without the NUL, \<open>None\<close> the null pointer.
\<close>

section \<open>The object\<close>

text \<open>
  \<open>struct btf\<close>. The data is one block (\<open>bo_raw\<close>) until the object is modifiable; from then on the
  types, the strings and the layout are separate, and \<open>bo_types\<close> is the whole of its memory, used up
  to \<open>type_len\<close>.
\<close>

record btf_own =
  bo_hdr :: btf_header
  bo_raw :: "byte list option"
  bo_raw_swapped :: "byte list option"
  bo_raw_size :: u32
  bo_raw_mmap :: bool
  bo_swapped :: bool
  bo_hdr_extra :: bool
  bo_modifiable :: bool
  bo_types :: "byte list"
  bo_strs :: strset
  bo_strs_deduped :: bool
  bo_layout :: "byte list"
  bo_type_offs :: "nat list"
  bo_type_offs_cap :: nat
  bo_start_id :: nat
  bo_start_str_off :: nat
  bo_named_start_id :: nat
  bo_ptr_sz :: int

type_synonym btf_obj = "btf_own \<times> btf_own list"

abbreviation bo_type_len :: "btf_own \<Rightarrow> nat" where
  "bo_type_len b \<equiv> unat (bh_type_len (bo_hdr b))"

abbreviation bo_str_len :: "btf_own \<Rightarrow> nat" where
  "bo_str_len b \<equiv> unat (bh_str_len (bo_hdr b))"

abbreviation bo_layout_len :: "btf_own \<Rightarrow> nat" where
  "bo_layout_len b \<equiv> unat (bh_layout_len (bo_hdr b))"

text \<open>The memory behind \<open>types_data\<close>, the strings and the layout, wherever they are.\<close>

definition raw_section :: "btf_own \<Rightarrow> u32 \<Rightarrow> byte list" where
  "raw_section b off =
     drop (unat (bh_hdr_len (bo_hdr b)) + unat off) (case bo_raw b of None \<Rightarrow> [] | Some r \<Rightarrow> r)"

definition types_mem :: "btf_own \<Rightarrow> byte list" where
  "types_mem b = (if bo_modifiable b then bo_types b else raw_section b (bh_type_off (bo_hdr b)))"

definition btf_strs_data :: "btf_own \<Rightarrow> byte list" where
  "btf_strs_data b =
     (if bo_modifiable b then strset__data (bo_strs b) else raw_section b (bh_str_off (bo_hdr b)))"

definition layout_mem :: "btf_own \<Rightarrow> byte list" where
  "layout_mem b =
     (if bo_modifiable b then bo_layout b else raw_section b (bh_layout_off (bo_hdr b)))"

text \<open>What \<open>btf_new\<close> leaves, as such an object.\<close>

definition no_strs :: strset where
  "no_strs = \<lparr>ss_data = [], ss_len = 0, ss_cap = 0, ss_max_len = 0, ss_hash = hashmap__init\<rparr>"

definition own_of_file :: "btf_file \<Rightarrow> btf_own" where
  "own_of_file bf =
     \<lparr>bo_hdr = bf_hdr bf, bo_raw = Some (bf_raw bf), bo_raw_swapped = None,
      bo_raw_size = of_nat (length (bf_raw bf)), bo_raw_mmap = bf_mmap bf,
      bo_swapped = bf_swapped bf, bo_hdr_extra = bf_hdr_extra bf, bo_modifiable = False,
      bo_types = [], bo_strs = no_strs, bo_strs_deduped = False, bo_layout = [],
      bo_type_offs = bf_type_offs bf, bo_type_offs_cap = bf_type_offs_cap bf,
      bo_start_id = file_start_id bf, bo_start_str_off = file_start_str_off bf,
      bo_named_start_id = bf_named_start_id bf, bo_ptr_sz = 0\<rparr>"

text \<open>The object as the reading functions see it.\<close>

definition types_of :: "nat list \<Rightarrow> nat \<Rightarrow> byte list \<Rightarrow> btf_type list" where
  "types_of offs len bs =
     map (\<lambda>(a, b). type_at bs a b) (zip offs (drop 1 (offs @ [len])))"

definition layout_of :: "nat \<Rightarrow> byte list \<Rightarrow> btf_layout list" where
  "layout_of len bs =
     map (\<lambda>i. \<lparr>ly_info_sz = bs ! (4 * i), ly_elem_sz = bs ! (4 * i + 1), ly_flags = rd16 bs (4 * i + 2)\<rparr>)
       [0..<len div 4]"

definition chars_of :: "byte list \<Rightarrow> string" where
  "chars_of bs = map (\<lambda>b. char_of (unat b)) bs"

definition own_btf :: "btf_own \<Rightarrow> btf option \<Rightarrow> btf" where
  "own_btf b base =
     Btf base (bo_start_id b) (types_of (bo_type_offs b) (bo_type_len b) (types_mem b))
       (bo_start_str_off b) (chars_of (take (bo_str_len b) (btf_strs_data b))) (bo_ptr_sz b)
       (bo_named_start_id b) (layout_of (bo_layout_len b) (layout_mem b))"

fun bases_btf :: "btf_own list \<Rightarrow> btf option" where
  "bases_btf [] = None"
| "bases_btf (b # bs) = Some (own_btf b (bases_btf bs))"

definition obj_btf :: "btf_obj \<Rightarrow> btf" where
  "obj_btf x = own_btf (fst x) (bases_btf (snd x))"

section \<open>The allocator, and early returns\<close>

text \<open>
  The allocator's answers during one operation: the copies made by \<open>btf_ensure_modifiable\<close>, a
  string added, the type memory and the index grown at a length. The argument of a function from
  numbers is the level of the base.
\<close>

record build_env =
  be_types_copy :: bool
  be_layout_copy :: bool
  be_set :: bool
  be_index :: "nat \<Rightarrow> str_env"
  be_str :: str_env
  be_types :: "nat \<Rightarrow> bool"
  be_offs :: "nat \<Rightarrow> bool"

definition andthen ::
    "(int + 'a) \<times> 'o \<Rightarrow> ('a \<Rightarrow> 'o \<Rightarrow> (int + 'b) \<times> 'o) \<Rightarrow> (int + 'b) \<times> 'o" where
  "andthen p f = (case p of (Inl e, x) \<Rightarrow> (Inl e, x) | (Inr a, x) \<Rightarrow> f a x)"

lemma andthen_simps [simp]:
  "andthen (Inl e, x) f = (Inl e, x)" "andthen (Inr a, x) f = f a x"
  by (simp_all add: andthen_def)

lemma andthen_cases:
  "andthen p f = (r, x) \<longleftrightarrow>
     (\<exists>e. p = (Inl e, x) \<and> r = Inl e) \<or> (\<exists>a y. p = (Inr a, y) \<and> f a y = (r, x))"
  by (cases p; cases "fst p") (auto simp: andthen_def)

definition on_own :: "(btf_own \<Rightarrow> (int + 'a) \<times> btf_own) \<Rightarrow> btf_obj \<Rightarrow> (int + 'a) \<times> btf_obj" where
  "on_own f x = (case f (fst x) of (r, b) \<Rightarrow> (r, (b, snd x)))"

section \<open>A new object\<close>

definition header_bytes :: "btf_header \<Rightarrow> byte list" where
  "header_bytes h =
     u16_le (bh_magic h) @ [bh_version h, bh_flags h] @ u32_le (bh_hdr_len h) @
     u32_le (bh_type_off h) @ u32_le (bh_type_len h) @ u32_le (bh_str_off h) @ u32_le (bh_str_len h) @
     u32_le (bh_layout_off h) @ u32_le (bh_layout_len h)"

definition BTF_VERSION :: u8 where "BTF_VERSION = 1"

text \<open>The layouts of the twenty kinds: the singular element's size, an element's size, the flags.\<close>

definition layouts :: "byte list" where
  "layouts = concat
     [[0, 0, 0, 0], [4, 0, 0, 0], [0, 0, 0, 0], [12, 0, 0, 0], [0, 12, 0, 0], [0, 12, 0, 0],
      [0, 8, 0, 0], [0, 0, 0, 0], [0, 0, 0, 0], [0, 0, 0, 0], [0, 0, 0, 0], [0, 0, 0, 0],
      [0, 0, 0, 0], [0, 8, 0, 0], [4, 0, 0, 0], [0, 12, 0, 0], [0, 0, 0, 0], [4, 0, 0, 0],
      [0, 0, 0, 0], [0, 12, 0, 0]]"

definition empty_header :: "bool \<Rightarrow> bool \<Rightarrow> btf_header" where
  "empty_header add_layout split =
     \<lparr>bh_magic = BTF_MAGIC, bh_version = BTF_VERSION, bh_flags = 0, bh_hdr_len = 32,
      bh_type_off = 0, bh_type_len = 0,
      bh_str_off = (if add_layout then of_nat (length layouts) else 0),
      bh_str_len = (if split then 0 else 1),
      bh_layout_off = 0, bh_layout_len = (if add_layout then of_nat (length layouts) else 0)\<rparr>"

definition btf_new_empty :: "bool \<Rightarrow> bool \<Rightarrow> bool \<Rightarrow> btf_own list \<Rightarrow> int + btf_obj" where
  "btf_new_empty alloc_obj alloc_data add_layout base =
     (if \<not> alloc_obj then Inl ENOMEM
      else if \<not> alloc_data then Inl ENOMEM
      else
        let hdr = empty_header add_layout (base \<noteq> []);
            raw = header_bytes hdr @ (if add_layout then layouts else []) @ (if base \<noteq> [] then [] else [0])
        in Inr
             (\<lparr>bo_hdr = hdr, bo_raw = Some raw, bo_raw_swapped = None,
               bo_raw_size = of_nat (length raw), bo_raw_mmap = False,
               bo_swapped = (case base of [] \<Rightarrow> False | b # _ \<Rightarrow> bo_swapped b),
               bo_hdr_extra = False, bo_modifiable = False, bo_types = [], bo_strs = no_strs,
               bo_strs_deduped = False, bo_layout = [], bo_type_offs = [], bo_type_offs_cap = 0,
               bo_start_id = (case base of [] \<Rightarrow> 1 | b # _ \<Rightarrow> bo_start_id b + length (bo_type_offs b)),
               bo_start_str_off = (case base of [] \<Rightarrow> 0 | b # _ \<Rightarrow> bo_str_len b + bo_start_str_off b),
               bo_named_start_id = 0, bo_ptr_sz = 8\<rparr>, base))"

definition btf__new_empty :: "bool \<Rightarrow> bool \<Rightarrow> int + btf_obj" where
  "btf__new_empty alloc_obj alloc_data = btf_new_empty alloc_obj alloc_data False []"

definition btf__new_empty_split :: "bool \<Rightarrow> bool \<Rightarrow> btf_obj \<Rightarrow> int + btf_obj" where
  "btf__new_empty_split alloc_obj alloc_data base =
     btf_new_empty alloc_obj alloc_data False (fst base # snd base)"

text \<open>With options; \<open>opts_valid\<close> is whether the options structure is one this version knows.\<close>

definition btf__new_empty_opts :: "bool \<Rightarrow> bool \<Rightarrow> bool \<Rightarrow> bool \<Rightarrow> btf_own list \<Rightarrow> int + btf_obj" where
  "btf__new_empty_opts opts_valid alloc_obj alloc_data add_layout base =
     (if \<not> opts_valid then Inl EINVAL else btf_new_empty alloc_obj alloc_data add_layout base)"

section \<open>Making an object modifiable\<close>

definition btf_free_raw_data :: "btf_own \<Rightarrow> btf_own" where
  "btf_free_raw_data b = b\<lparr>bo_raw_mmap := False, bo_raw := None\<rparr>"

definition btf_invalidate_raw_data :: "btf_own \<Rightarrow> btf_own" where
  "btf_invalidate_raw_data b =
     (let b = (if bo_raw b = None then b else btf_free_raw_data b)
      in b\<lparr>bo_raw_swapped := None, bo_named_start_id := 0\<rparr>)"

definition btf_ensure_modifiable :: "build_env \<Rightarrow> bool \<Rightarrow> btf_own \<Rightarrow> (int + unit) \<times> btf_own" where
  "btf_ensure_modifiable env split b =
     (if bo_modifiable b then (Inr (), btf_invalidate_raw_data b)
      else if bo_hdr_extra b then (Inl EOPNOTSUPP, b)
      else if \<not> be_types_copy env then (Inl ENOMEM, b)
      else if bo_layout_len b \<noteq> 0 \<and> \<not> be_layout_copy env then (Inl ENOMEM, b)
      else
        case strset__new (be_set env) (be_index env) BTF_MAX_STR_OFFSET
               (Some (take (bo_str_len b) (btf_strs_data b))) of
          Inl e \<Rightarrow> (Inl e, b)
        | Inr st \<Rightarrow>
            let b = b\<lparr>bo_types := take (bo_type_len b) (types_mem b),
                      bo_layout := take (bo_layout_len b) (layout_mem b),
                      bo_strs := st,
                      bo_strs_deduped := bo_strs_deduped b \<or> bo_str_len b = 0 \<or> \<not> split \<and> bo_str_len b = 1\<rparr>;
                b = btf_invalidate_raw_data b
            in (Inr (), b\<lparr>bo_modifiable := True\<rparr>))"

section \<open>Strings\<close>

text \<open>The string is looked for in the bases first, the deepest one first of all.\<close>

definition own_find_str :: "build_env \<Rightarrow> bool \<Rightarrow> byte list \<Rightarrow> btf_own \<Rightarrow> (int + nat) \<times> btf_own" where
  "own_find_str env split s b =
     andthen (btf_ensure_modifiable env split b) (\<lambda>_ b.
       case strset__find_str (be_str env) (bo_strs b) s of
         (Inl e, st) \<Rightarrow> (Inl e, b\<lparr>bo_strs := st\<rparr>)
       | (Inr off, st) \<Rightarrow> (Inr (bo_start_str_off b + off), b\<lparr>bo_strs := st\<rparr>))"

fun find_str_bases ::
    "(nat \<Rightarrow> build_env) \<Rightarrow> byte list \<Rightarrow> btf_own list \<Rightarrow> (int + nat) \<times> btf_own list" where
  "find_str_bases env s [] = (Inl ENOENT, [])"
| "find_str_bases env s (b # bs) =
     (case find_str_bases (\<lambda>i. env (Suc i)) s bs of
        (r, bs') \<Rightarrow>
          if r \<noteq> Inl ENOENT then (r, b # bs')
          else case own_find_str (env 0) (bs \<noteq> []) s b of (r, b') \<Rightarrow> (r, b' # bs'))"

definition btf__find_str :: "(nat \<Rightarrow> build_env) \<Rightarrow> byte list \<Rightarrow> btf_obj \<Rightarrow> (int + nat) \<times> btf_obj" where
  "btf__find_str env s x =
     (case find_str_bases env s (fst x # snd x) of (r, bs) \<Rightarrow> (r, hd bs, tl bs))"

definition own_add_str :: "build_env \<Rightarrow> bool \<Rightarrow> byte list \<Rightarrow> btf_own \<Rightarrow> (int + nat) \<times> btf_own" where
  "own_add_str env split s b =
     andthen (btf_ensure_modifiable env split b) (\<lambda>_ b.
       case strset__add_str (be_str env) (bo_strs b) s of
         (Inl e, st) \<Rightarrow> (Inl e, b\<lparr>bo_strs := st\<rparr>)
       | (Inr off, st) \<Rightarrow>
           (Inr (bo_start_str_off b + off),
            b\<lparr>bo_strs := st, bo_hdr := (bo_hdr b)\<lparr>bh_str_len := of_nat (strset__data_size st)\<rparr>\<rparr>))"

definition btf__add_str :: "(nat \<Rightarrow> build_env) \<Rightarrow> byte list \<Rightarrow> btf_obj \<Rightarrow> (int + nat) \<times> btf_obj" where
  "btf__add_str env s x =
     (case find_str_bases (\<lambda>i. env (Suc i)) s (snd x) of
        (r, bs) \<Rightarrow>
          if r \<noteq> Inl ENOENT then (r, (fst x, bs))
          else on_own (own_add_str (env 0) (snd x \<noteq> []) s) (fst x, bs))"

section \<open>Type memory\<close>

text \<open>The offset of the new memory.\<close>

definition btf_add_type_mem :: "build_env \<Rightarrow> nat \<Rightarrow> btf_own \<Rightarrow> (int + nat) \<times> btf_own" where
  "btf_add_type_mem env add_sz b =
     (case libbpf_add_mem (be_types env (bo_type_len b)) (bo_types b) (length (bo_types b)) 1
             (bo_type_len b) (unat UINT32_MAX) add_sz of
        None \<Rightarrow> (Inl ENOMEM, b)
      | Some (p, mem, cap) \<Rightarrow> (Inr p, b\<lparr>bo_types := mem\<rparr>))"

definition btf_add_type_idx :: "build_env \<Rightarrow> nat \<Rightarrow> btf_own \<Rightarrow> (int + unit) \<times> btf_own" where
  "btf_add_type_idx env off b =
     (let nr = length (bo_type_offs b); cap = bo_type_offs_cap b
      in if nr + 1 \<le> cap then (Inr (), b\<lparr>bo_type_offs := bo_type_offs b @ [off]\<rparr>)
         else if BTF_MAX_NR_TYPES < nr + 1 \<or> \<not> be_offs env nr then (Inl ENOMEM, b)
         else (Inr (), b\<lparr>bo_type_offs := bo_type_offs b @ [off],
                         bo_type_offs_cap := add_mem_cnt cap nr BTF_MAX_NR_TYPES 1\<rparr>))"

definition btf_hdr_update_type_len :: "u32 \<Rightarrow> btf_own \<Rightarrow> btf_own" where
  "btf_hdr_update_type_len new_len b =
     (let h = (bo_hdr b)\<lparr>bh_type_len := new_len\<rparr>;
          h = (if bo_layout_len b \<noteq> 0
               then let h = h\<lparr>bh_layout_off := bh_type_off h + new_len\<rparr>
                    in h\<lparr>bh_str_off := bh_layout_off h + bh_layout_len h\<rparr>
               else h\<lparr>bh_str_off := bh_type_off h + new_len\<rparr>)
      in b\<lparr>bo_hdr := h\<rparr>)"

text \<open>Storing words at an offset of the type memory.\<close>

definition words_le :: "u32 list \<Rightarrow> byte list" where
  "words_le ws = concat (map u32_le ws)"

definition put_bytes :: "nat \<Rightarrow> byte list \<Rightarrow> byte list \<Rightarrow> byte list" where
  "put_bytes p bs data = take p data @ bs @ drop (p + length bs) data"

definition store_words :: "nat \<Rightarrow> u32 list \<Rightarrow> btf_own \<Rightarrow> btf_own" where
  "store_words p ws b = b\<lparr>bo_types := put_bytes p (words_le ws) (bo_types b)\<rparr>"

text \<open>The index entry and the new lengths; the result is the id of the type.\<close>

definition btf_commit_type :: "build_env \<Rightarrow> nat \<Rightarrow> btf_own \<Rightarrow> (int + nat) \<times> btf_own" where
  "btf_commit_type env data_sz b =
     andthen (btf_add_type_idx env (bo_type_len b) b) (\<lambda>_ b.
       let b = btf_hdr_update_type_len (bh_type_len (bo_hdr b) + of_nat data_sz) b
       in (Inr (bo_start_id b + length (bo_type_offs b) - 1), b))"

definition btf_type_info :: "u16 \<Rightarrow> nat \<Rightarrow> bool \<Rightarrow> u32" where
  "btf_type_info kind vlen kflag =
     push_bit 31 (if kflag then 1 else 0) OR push_bit 24 (ucast kind) OR of_nat vlen"

text \<open>The type at an offset of the type memory, and a change of its second word.\<close>

definition own_type :: "nat \<Rightarrow> btf_own \<Rightarrow> btf_type" where
  "own_type p b = type_at (types_mem b) p (p + sizeof_btf_type)"

definition btf_last_off :: "btf_own \<Rightarrow> nat" where
  "btf_last_off b = bo_type_offs b ! (length (bo_type_offs b) - 1)"

abbreviation btf_last_type :: "btf_own \<Rightarrow> btf_type" where
  "btf_last_type b \<equiv> own_type (btf_last_off b) b"

definition set_info :: "nat \<Rightarrow> u32 \<Rightarrow> btf_own \<Rightarrow> btf_own" where
  "set_info p info b = store_words (p + 4) [info] b"

definition btf_type_inc_vlen :: "nat \<Rightarrow> btf_own \<Rightarrow> btf_own" where
  "btf_type_inc_vlen p b =
     (let t = own_type p b
      in set_info p (btf_type_info (btf_kind t) (btf_vlen t + 1) (btf_kflag t)) b)"

definition validate_type_id :: "i32 \<Rightarrow> bool" where
  "validate_type_id ti \<longleftrightarrow> 0 \<le> sint ti"

definition bstr_empty :: "byte list option \<Rightarrow> bool" where
  "bstr_empty s \<longleftrightarrow> (case s of None \<Rightarrow> True | Some s \<Rightarrow> s = [])"

definition name_bytes :: "byte list option \<Rightarrow> byte list" where
  "name_bytes s = (case s of None \<Rightarrow> [] | Some s \<Rightarrow> s)"

section \<open>Adding types\<close>

text \<open>Every function below makes the object modifiable and reserves its memory in this order.\<close>

definition reserve_type :: "(nat \<Rightarrow> build_env) \<Rightarrow> nat \<Rightarrow> btf_obj \<Rightarrow> (int + nat) \<times> btf_obj" where
  "reserve_type env sz x =
     andthen (on_own (btf_ensure_modifiable (env 0) (snd x \<noteq> [])) x) (\<lambda>_ x.
       on_own (btf_add_type_mem (env 0) sz) x)"

text \<open>An absent or empty name is offset 0.\<close>

definition add_opt_str ::
    "(nat \<Rightarrow> build_env) \<Rightarrow> byte list option \<Rightarrow> btf_obj \<Rightarrow> (int + nat) \<times> btf_obj" where
  "add_opt_str env name x = (if bstr_empty name then (Inr 0, x) else btf__add_str env (name_bytes name) x)"

text \<open>Fill in the type at \<open>p\<close> and commit it.\<close>

definition fill_type ::
    "(nat \<Rightarrow> build_env) \<Rightarrow> nat \<Rightarrow> u32 list \<Rightarrow> btf_obj \<Rightarrow> (int + nat) \<times> btf_obj" where
  "fill_type env p ws x =
     on_own (btf_commit_type (env 0) (4 * length ws)) (store_words p ws (fst x), snd x)"

definition BTF_INT_ENC :: u32 where "BTF_INT_ENC = 7"

definition btf__add_int ::
    "(nat \<Rightarrow> build_env) \<Rightarrow> byte list option \<Rightarrow> u64 \<Rightarrow> u32 \<Rightarrow> btf_obj \<Rightarrow> (int + nat) \<times> btf_obj" where
  "btf__add_int env name byte_sz encoding x =
     (if bstr_empty name then (Inl EINVAL, x)
      else if byte_sz = 0 \<or> byte_sz AND (byte_sz - 1) \<noteq> 0 \<or> 16 < byte_sz then (Inl EINVAL, x)
      else if encoding AND NOT BTF_INT_ENC \<noteq> 0 then (Inl EINVAL, x)
      else
        andthen (reserve_type env 16 x) (\<lambda>p x.
        andthen (btf__add_str env (name_bytes name) x) (\<lambda>name_off x.
        fill_type env p
          [of_nat name_off, btf_type_info BTF_KIND_INT 0 False, ucast byte_sz,
           push_bit 24 encoding OR ucast (byte_sz * 8)] x)))"

definition btf__add_float ::
    "(nat \<Rightarrow> build_env) \<Rightarrow> byte list option \<Rightarrow> u64 \<Rightarrow> btf_obj \<Rightarrow> (int + nat) \<times> btf_obj" where
  "btf__add_float env name byte_sz x =
     (if bstr_empty name then (Inl EINVAL, x)
      else if byte_sz \<notin> {2, 4, 8, 12, 16} then (Inl EINVAL, x)
      else
        andthen (reserve_type env 12 x) (\<lambda>p x.
        andthen (btf__add_str env (name_bytes name) x) (\<lambda>name_off x.
        fill_type env p [of_nat name_off, btf_type_info BTF_KIND_FLOAT 0 False, ucast byte_sz] x)))"

definition btf_add_ref_kind ::
    "(nat \<Rightarrow> build_env) \<Rightarrow> u16 \<Rightarrow> byte list option \<Rightarrow> i32 \<Rightarrow> bool \<Rightarrow> btf_obj \<Rightarrow> (int + nat) \<times> btf_obj" where
  "btf_add_ref_kind env kind name ref_type_id kflag x =
     (if \<not> validate_type_id ref_type_id then (Inl EINVAL, x)
      else
        andthen (reserve_type env 12 x) (\<lambda>p x.
        andthen (add_opt_str env name x) (\<lambda>name_off x.
        fill_type env p [of_nat name_off, btf_type_info kind 0 kflag, ref_type_id] x)))"

definition btf__add_ptr :: "(nat \<Rightarrow> build_env) \<Rightarrow> i32 \<Rightarrow> btf_obj \<Rightarrow> (int + nat) \<times> btf_obj" where
  "btf__add_ptr env ref_type_id = btf_add_ref_kind env BTF_KIND_PTR None ref_type_id False"

definition btf__add_array ::
    "(nat \<Rightarrow> build_env) \<Rightarrow> i32 \<Rightarrow> i32 \<Rightarrow> u32 \<Rightarrow> btf_obj \<Rightarrow> (int + nat) \<times> btf_obj" where
  "btf__add_array env index_type_id elem_type_id nr_elems x =
     (if \<not> validate_type_id index_type_id \<or> \<not> validate_type_id elem_type_id then (Inl EINVAL, x)
      else
        andthen (reserve_type env 24 x) (\<lambda>p x.
        fill_type env p
          [0, btf_type_info BTF_KIND_ARRAY 0 False, 0, elem_type_id, index_type_id, nr_elems] x))"

definition btf_add_composite ::
    "(nat \<Rightarrow> build_env) \<Rightarrow> u16 \<Rightarrow> byte list option \<Rightarrow> u32 \<Rightarrow> btf_obj \<Rightarrow> (int + nat) \<times> btf_obj" where
  "btf_add_composite env kind name bytes_sz x =
     andthen (reserve_type env 12 x) (\<lambda>p x.
     andthen (add_opt_str env name x) (\<lambda>name_off x.
     fill_type env p [of_nat name_off, btf_type_info kind 0 False, bytes_sz] x))"

definition btf__add_struct ::
    "(nat \<Rightarrow> build_env) \<Rightarrow> byte list option \<Rightarrow> u32 \<Rightarrow> btf_obj \<Rightarrow> (int + nat) \<times> btf_obj" where
  "btf__add_struct env name byte_sz = btf_add_composite env BTF_KIND_STRUCT name byte_sz"

definition btf__add_union ::
    "(nat \<Rightarrow> build_env) \<Rightarrow> byte list option \<Rightarrow> u32 \<Rightarrow> btf_obj \<Rightarrow> (int + nat) \<times> btf_obj" where
  "btf__add_union env name byte_sz = btf_add_composite env BTF_KIND_UNION name byte_sz"

definition btf_add_enum_common ::
    "(nat \<Rightarrow> build_env) \<Rightarrow> byte list option \<Rightarrow> u32 \<Rightarrow> bool \<Rightarrow> u16 \<Rightarrow> btf_obj \<Rightarrow> (int + nat) \<times> btf_obj" where
  "btf_add_enum_common env name byte_sz is_signed kind x =
     (if byte_sz = 0 \<or> byte_sz AND (byte_sz - 1) \<noteq> 0 \<or> 8 < byte_sz then (Inl EINVAL, x)
      else
        andthen (reserve_type env 12 x) (\<lambda>p x.
        andthen (add_opt_str env name x) (\<lambda>name_off x.
        fill_type env p [of_nat name_off, btf_type_info kind 0 is_signed, byte_sz] x)))"

definition btf__add_enum ::
    "(nat \<Rightarrow> build_env) \<Rightarrow> byte list option \<Rightarrow> u32 \<Rightarrow> btf_obj \<Rightarrow> (int + nat) \<times> btf_obj" where
  "btf__add_enum env name byte_sz = btf_add_enum_common env name byte_sz False BTF_KIND_ENUM"

definition btf__add_enum64 ::
    "(nat \<Rightarrow> build_env) \<Rightarrow> byte list option \<Rightarrow> u32 \<Rightarrow> bool \<Rightarrow> btf_obj \<Rightarrow> (int + nat) \<times> btf_obj" where
  "btf__add_enum64 env name byte_sz is_signed = btf_add_enum_common env name byte_sz is_signed BTF_KIND_ENUM64"

section \<open>References, functions, variables, tags\<close>

definition btf__add_typedef ::
    "(nat \<Rightarrow> build_env) \<Rightarrow> byte list option \<Rightarrow> i32 \<Rightarrow> btf_obj \<Rightarrow> (int + nat) \<times> btf_obj" where
  "btf__add_typedef env name ref_type_id x =
     (if bstr_empty name then (Inl EINVAL, x)
      else btf_add_ref_kind env BTF_KIND_TYPEDEF name ref_type_id False x)"

definition btf__add_volatile :: "(nat \<Rightarrow> build_env) \<Rightarrow> i32 \<Rightarrow> btf_obj \<Rightarrow> (int + nat) \<times> btf_obj" where
  "btf__add_volatile env ref_type_id = btf_add_ref_kind env BTF_KIND_VOLATILE None ref_type_id False"

definition btf__add_const :: "(nat \<Rightarrow> build_env) \<Rightarrow> i32 \<Rightarrow> btf_obj \<Rightarrow> (int + nat) \<times> btf_obj" where
  "btf__add_const env ref_type_id = btf_add_ref_kind env BTF_KIND_CONST None ref_type_id False"

definition btf__add_restrict :: "(nat \<Rightarrow> build_env) \<Rightarrow> i32 \<Rightarrow> btf_obj \<Rightarrow> (int + nat) \<times> btf_obj" where
  "btf__add_restrict env ref_type_id = btf_add_ref_kind env BTF_KIND_RESTRICT None ref_type_id False"

definition btf__add_type_tag ::
    "(nat \<Rightarrow> build_env) \<Rightarrow> byte list option \<Rightarrow> i32 \<Rightarrow> btf_obj \<Rightarrow> (int + nat) \<times> btf_obj" where
  "btf__add_type_tag env val ref_type_id x =
     (if bstr_empty val then (Inl EINVAL, x)
      else btf_add_ref_kind env BTF_KIND_TYPE_TAG val ref_type_id False x)"

definition btf__add_type_attr ::
    "(nat \<Rightarrow> build_env) \<Rightarrow> byte list option \<Rightarrow> i32 \<Rightarrow> btf_obj \<Rightarrow> (int + nat) \<times> btf_obj" where
  "btf__add_type_attr env val ref_type_id x =
     (if bstr_empty val then (Inl EINVAL, x)
      else btf_add_ref_kind env BTF_KIND_TYPE_TAG val ref_type_id True x)"

text \<open>The info word of a type just added is replaced, through its id.\<close>

definition set_info_by_id :: "nat \<Rightarrow> u32 \<Rightarrow> btf_obj \<Rightarrow> btf_obj" where
  "set_info_by_id ti info x =
     (set_info (bo_type_offs (fst x) ! (ti - bo_start_id (fst x))) info (fst x), snd x)"

definition BTF_FWD_STRUCT :: i32 where "BTF_FWD_STRUCT = 0"
definition BTF_FWD_UNION :: i32 where "BTF_FWD_UNION = 1"
definition BTF_FWD_ENUM :: i32 where "BTF_FWD_ENUM = 2"

definition btf__add_fwd ::
    "(nat \<Rightarrow> build_env) \<Rightarrow> byte list option \<Rightarrow> i32 \<Rightarrow> btf_obj \<Rightarrow> (int + nat) \<times> btf_obj" where
  "btf__add_fwd env name fwd_kind x =
     (if bstr_empty name then (Inl EINVAL, x)
      else if fwd_kind = BTF_FWD_STRUCT \<or> fwd_kind = BTF_FWD_UNION then
        andthen (btf_add_ref_kind env BTF_KIND_FWD name 0 False x) (\<lambda>ti x.
        (Inr ti, set_info_by_id ti (btf_type_info BTF_KIND_FWD 0 (fwd_kind = BTF_FWD_UNION)) x))
      else if fwd_kind = BTF_FWD_ENUM then btf__add_enum env name 4 x
      else (Inl EINVAL, x))"

text \<open>The linkage of a function is 0, 1 or 2 (static, global, extern), as a variable's is.\<close>

definition linkage_ok :: "i32 \<Rightarrow> bool" where
  "linkage_ok linkage \<longleftrightarrow> linkage \<in> {0, 1, 2}"

definition btf__add_func ::
    "(nat \<Rightarrow> build_env) \<Rightarrow> byte list option \<Rightarrow> i32 \<Rightarrow> i32 \<Rightarrow> btf_obj \<Rightarrow> (int + nat) \<times> btf_obj" where
  "btf__add_func env name linkage proto_type_id x =
     (if bstr_empty name then (Inl EINVAL, x)
      else if \<not> linkage_ok linkage then (Inl EINVAL, x)
      else
        andthen (btf_add_ref_kind env BTF_KIND_FUNC name proto_type_id False x) (\<lambda>ti x.
        (Inr ti, if 0 < ti then set_info_by_id ti (btf_type_info BTF_KIND_FUNC (unat linkage) False) x else x)))"

definition btf__add_func_proto :: "(nat \<Rightarrow> build_env) \<Rightarrow> i32 \<Rightarrow> btf_obj \<Rightarrow> (int + nat) \<times> btf_obj" where
  "btf__add_func_proto env ret_type_id x =
     (if \<not> validate_type_id ret_type_id then (Inl EINVAL, x)
      else
        andthen (reserve_type env 12 x) (\<lambda>p x.
        fill_type env p [0, btf_type_info BTF_KIND_FUNC_PROTO 0 False, ret_type_id] x))"

definition btf__add_var ::
    "(nat \<Rightarrow> build_env) \<Rightarrow> byte list option \<Rightarrow> i32 \<Rightarrow> i32 \<Rightarrow> btf_obj \<Rightarrow> (int + nat) \<times> btf_obj" where
  "btf__add_var env name linkage type_id x =
     (if bstr_empty name then (Inl EINVAL, x)
      else if \<not> linkage_ok linkage then (Inl EINVAL, x)
      else if \<not> validate_type_id type_id then (Inl EINVAL, x)
      else
        andthen (reserve_type env 16 x) (\<lambda>p x.
        andthen (btf__add_str env (name_bytes name) x) (\<lambda>name_off x.
        fill_type env p [of_nat name_off, btf_type_info BTF_KIND_VAR 0 False, type_id, linkage] x)))"

definition btf__add_datasec ::
    "(nat \<Rightarrow> build_env) \<Rightarrow> byte list option \<Rightarrow> u32 \<Rightarrow> btf_obj \<Rightarrow> (int + nat) \<times> btf_obj" where
  "btf__add_datasec env name byte_sz x =
     (if bstr_empty name then (Inl EINVAL, x)
      else
        andthen (reserve_type env 12 x) (\<lambda>p x.
        andthen (btf__add_str env (name_bytes name) x) (\<lambda>name_off x.
        fill_type env p [of_nat name_off, btf_type_info BTF_KIND_DATASEC 0 False, byte_sz] x)))"

definition btf_add_decl_tag ::
    "(nat \<Rightarrow> build_env) \<Rightarrow> byte list option \<Rightarrow> i32 \<Rightarrow> i32 \<Rightarrow> bool \<Rightarrow> btf_obj \<Rightarrow> (int + nat) \<times> btf_obj" where
  "btf_add_decl_tag env val ref_type_id component_idx kflag x =
     (if bstr_empty val \<or> sint component_idx < - 1 then (Inl EINVAL, x)
      else if \<not> validate_type_id ref_type_id then (Inl EINVAL, x)
      else
        andthen (reserve_type env 16 x) (\<lambda>p x.
        andthen (btf__add_str env (name_bytes val) x) (\<lambda>value_off x.
        fill_type env p
          [of_nat value_off, btf_type_info BTF_KIND_DECL_TAG 0 kflag, ref_type_id, component_idx] x)))"

definition btf__add_decl_tag ::
    "(nat \<Rightarrow> build_env) \<Rightarrow> byte list option \<Rightarrow> i32 \<Rightarrow> i32 \<Rightarrow> btf_obj \<Rightarrow> (int + nat) \<times> btf_obj" where
  "btf__add_decl_tag env val ref_type_id component_idx =
     btf_add_decl_tag env val ref_type_id component_idx False"

definition btf__add_decl_attr ::
    "(nat \<Rightarrow> build_env) \<Rightarrow> byte list option \<Rightarrow> i32 \<Rightarrow> i32 \<Rightarrow> btf_obj \<Rightarrow> (int + nat) \<times> btf_obj" where
  "btf__add_decl_attr env val ref_type_id component_idx =
     btf_add_decl_tag env val ref_type_id component_idx True"

section \<open>Adding elements to the last type\<close>

text \<open>Store the element at \<open>p\<close>, change the info word of the last type, account for the memory.\<close>

definition fill_elem ::
    "nat \<Rightarrow> u32 list \<Rightarrow> (nat \<Rightarrow> btf_own \<Rightarrow> btf_own) \<Rightarrow> btf_obj \<Rightarrow> (int + nat) \<times> btf_obj" where
  "fill_elem p ws upd x =
     (let b = store_words p ws (fst x);
          b = upd (btf_last_off b) b;
          b = btf_hdr_update_type_len (bh_type_len (bo_hdr b) + of_nat (4 * length ws)) b
      in (Inr 0, (b, snd x)))"

definition field_info :: "bool \<Rightarrow> nat \<Rightarrow> btf_own \<Rightarrow> btf_own" where
  "field_info is_bitfield p b =
     (let t = own_type p b
      in set_info p (btf_type_info (btf_kind t) (btf_vlen t + 1) (is_bitfield \<or> btf_kflag t)) b)"

definition btf__add_field ::
    "(nat \<Rightarrow> build_env) \<Rightarrow> byte list option \<Rightarrow> i32 \<Rightarrow> u32 \<Rightarrow> u32 \<Rightarrow> btf_obj \<Rightarrow> (int + nat) \<times> btf_obj" where
  "btf__add_field env name type_id bit_offset bit_size x =
     (let is_bitfield = bit_size \<noteq> 0 \<or> bit_offset mod 8 \<noteq> 0
      in if bo_type_offs (fst x) = [] then (Inl EINVAL, x)
         else if \<not> btf_is_composite (btf_last_type (fst x)) then (Inl EINVAL, x)
         else if \<not> validate_type_id type_id then (Inl EINVAL, x)
         else if is_bitfield \<and> (bit_size = 0 \<or> 255 < bit_size \<or> 0xffffff < bit_offset) then (Inl EINVAL, x)
         else if btf_kind (btf_last_type (fst x)) = BTF_KIND_UNION \<and> bit_offset \<noteq> 0 then (Inl EINVAL, x)
         else
           andthen (reserve_type env 12 x) (\<lambda>p x.
           andthen (add_opt_str env name x) (\<lambda>name_off x.
           fill_elem p [of_nat name_off, type_id, bit_offset OR push_bit 24 bit_size]
             (field_info is_bitfield) x)))"

definition enum_info :: "bool \<Rightarrow> nat \<Rightarrow> btf_own \<Rightarrow> btf_own" where
  "enum_info negative p b =
     (let b = btf_type_inc_vlen p b; t = own_type p b
      in if negative then set_info p (btf_type_info (btf_kind t) (btf_vlen t) True) b else b)"

definition btf__add_enum_value ::
    "(nat \<Rightarrow> build_env) \<Rightarrow> byte list option \<Rightarrow> i64 \<Rightarrow> btf_obj \<Rightarrow> (int + nat) \<times> btf_obj" where
  "btf__add_enum_value env name val x =
     (if bo_type_offs (fst x) = [] then (Inl EINVAL, x)
      else if \<not> btf_is_enum (btf_last_type (fst x)) then (Inl EINVAL, x)
      else if bstr_empty name then (Inl EINVAL, x)
      else if sint val < - (2 ^ 31) \<or> 2 ^ 32 - 1 < sint val then (Inl E2BIG, x)
      else
        andthen (reserve_type env 8 x) (\<lambda>p x.
        andthen (btf__add_str env (name_bytes name) x) (\<lambda>name_off x.
        fill_elem p [of_nat name_off, ucast val] (enum_info (sint val < 0)) x)))"

definition btf__add_enum64_value ::
    "(nat \<Rightarrow> build_env) \<Rightarrow> byte list option \<Rightarrow> u64 \<Rightarrow> btf_obj \<Rightarrow> (int + nat) \<times> btf_obj" where
  "btf__add_enum64_value env name val x =
     (if bo_type_offs (fst x) = [] then (Inl EINVAL, x)
      else if \<not> btf_is_enum64 (btf_last_type (fst x)) then (Inl EINVAL, x)
      else if bstr_empty name then (Inl EINVAL, x)
      else
        andthen (reserve_type env 12 x) (\<lambda>p x.
        andthen (btf__add_str env (name_bytes name) x) (\<lambda>name_off x.
        fill_elem p [of_nat name_off, ucast val, ucast (drop_bit 32 val)] btf_type_inc_vlen x)))"

definition btf__add_func_param ::
    "(nat \<Rightarrow> build_env) \<Rightarrow> byte list option \<Rightarrow> i32 \<Rightarrow> btf_obj \<Rightarrow> (int + nat) \<times> btf_obj" where
  "btf__add_func_param env name type_id x =
     (if \<not> validate_type_id type_id then (Inl EINVAL, x)
      else if bo_type_offs (fst x) = [] then (Inl EINVAL, x)
      else if btf_kind (btf_last_type (fst x)) \<noteq> BTF_KIND_FUNC_PROTO then (Inl EINVAL, x)
      else
        andthen (reserve_type env 8 x) (\<lambda>p x.
        andthen (add_opt_str env name x) (\<lambda>name_off x.
        fill_elem p [of_nat name_off, type_id] btf_type_inc_vlen x)))"

definition btf__add_datasec_var_info ::
    "(nat \<Rightarrow> build_env) \<Rightarrow> i32 \<Rightarrow> u32 \<Rightarrow> u32 \<Rightarrow> btf_obj \<Rightarrow> (int + nat) \<times> btf_obj" where
  "btf__add_datasec_var_info env var_type_id offset byte_sz x =
     (if bo_type_offs (fst x) = [] then (Inl EINVAL, x)
      else if btf_kind (btf_last_type (fst x)) \<noteq> BTF_KIND_DATASEC then (Inl EINVAL, x)
      else if \<not> validate_type_id var_type_id then (Inl EINVAL, x)
      else
        andthen (reserve_type env 12 x) (\<lambda>p x.
        fill_elem p [var_type_id, offset, byte_sz] btf_type_inc_vlen x))"

end
