(* ===== verification/Btf_Write.thy ===== *)
theory Btf_Write
  imports Btf_Build
begin

text \<open>
  Writing BTF (\<open>lib/libbpf/src/btf.c\<close>, \<open>btf_get_raw_data\<close>), and the pointer size, the byte order and
  \<open>btf__resolve_type\<close>. \<open>None\<close> is an access outside an object's memory; the inner option of a write is
  the null pointer.
\<close>

section \<open>Bytes\<close>

text \<open>\<open>memcpy\<close> of a prefix of memory to an offset of the new data.\<close>

definition copy_to :: "nat \<Rightarrow> nat \<Rightarrow> byte list \<Rightarrow> byte list \<Rightarrow> byte list option" where
  "copy_to p n src data =
     (if n \<le> length src \<and> p + n \<le> length data then Some (put_bytes p (take n src) data) else None)"

text \<open>The words after each type are swapped before its header, whose info word they need.\<close>

fun swap_types :: "nat \<Rightarrow> nat list \<Rightarrow> byte list \<Rightarrow> (int \<times> byte list) option" where
  "swap_types p [] bs = Some (0, bs)"
| "swap_types p (off # offs) bs =
     (if length bs < p + off + sizeof_btf_type then None
      else do {
        (err, bs) \<leftarrow> btf_bswap_type_rest (type_at bs (p + off) (p + off + sizeof_btf_type)) (p + off) bs;
        if err \<noteq> 0 then Some (err, bs)
        else do { bs \<leftarrow> btf_bswap_type_base (p + off) bs; swap_types p offs bs } })"

section \<open>The data\<close>

definition raw_data_size :: "btf_own \<Rightarrow> u32" where
  "raw_data_size b =
     (let h = bo_hdr b; sz = bh_hdr_len h + bh_type_len h + bh_str_len h
      in if bh_layout_len h \<noteq> 0 then sz + bh_layout_len h else sz)"

definition write_header :: "bool \<Rightarrow> btf_header \<Rightarrow> byte list \<Rightarrow> byte list option" where
  "write_header swap_endian h data = do {
     data \<leftarrow> copy_to 0 (min sizeof_btf_header (unat (bh_hdr_len h))) (header_bytes h) data;
     if swap_endian then btf_bswap_hdr (unat (bh_hdr_len h)) data else Some data }"

definition write_layout :: "bool \<Rightarrow> btf_own \<Rightarrow> nat \<Rightarrow> byte list \<Rightarrow> byte list option" where
  "write_layout swap_endian b p data =
     (if bo_layout_len b = 0 then Some data
      else do {
        data \<leftarrow> copy_to p (bo_layout_len b) (layout_mem b) data;
        if swap_endian then bswap_flags ((bo_layout_len b + 3) div 4) p data else Some data })"

definition write_raw_data :: "bool \<Rightarrow> btf_own \<Rightarrow> byte list option option" where
  "write_raw_data swap_endian b =
     (let h = bo_hdr b; p = unat (bh_hdr_len h)
      in do {
        data \<leftarrow> write_header swap_endian h (replicate (unat (raw_data_size b)) 0);
        data \<leftarrow> copy_to p (bo_type_len b) (types_mem b) data;
        (err, data) \<leftarrow> (if swap_endian then swap_types p (bo_type_offs b) data else Some (0, data));
        if err \<noteq> 0 then Some None
        else do {
          data \<leftarrow> write_layout swap_endian b (p + bo_type_len b) data;
          data \<leftarrow> copy_to (p + bo_type_len b + bo_layout_len b) (bo_str_len b) (btf_strs_data b) data;
          Some (Some data) } })"

text \<open>The data and its size. Data already there is returned as it is, with the size last recorded.\<close>

definition btf_get_raw_data :: "bool \<Rightarrow> btf_own \<Rightarrow> bool \<Rightarrow> (byte list \<times> u32) option option" where
  "btf_get_raw_data alloc b swap_endian =
     (case if swap_endian then bo_raw_swapped b else bo_raw b of
        Some data \<Rightarrow> Some (Some (data, bo_raw_size b))
      | None \<Rightarrow>
          if \<not> alloc then Some None
          else map_option (map_option (\<lambda>data. (data, raw_data_size b))) (write_raw_data swap_endian b))"

definition btf__raw_data :: "bool \<Rightarrow> btf_own \<Rightarrow> ((byte list \<times> u32) option \<times> btf_own) option" where
  "btf__raw_data alloc b = do {
     data \<leftarrow> btf_get_raw_data alloc b (bo_swapped b);
     case data of
       None \<Rightarrow> Some (None, b)
     | Some (bs, data_sz) \<Rightarrow>
         let b = b\<lparr>bo_raw_size := data_sz\<rparr>
         in Some (Some (bs, data_sz),
                  if bo_swapped b then b\<lparr>bo_raw_swapped := Some bs\<rparr> else b\<lparr>bo_raw := Some bs\<rparr>) }"

section \<open>Pointer size, byte order, resolving a type\<close>

text \<open>The size guessed is stored; 0 is not known.\<close>

definition btf__pointer_size :: "btf_own \<Rightarrow> btf option \<Rightarrow> (nat \<times> btf_own) option" where
  "btf__pointer_size b base = do {
     p \<leftarrow> (if bo_ptr_sz b = 0 then determine_ptr_size (own_btf b base) else Some (bo_ptr_sz b));
     Some (if p < 0 then 0 else nat p, b\<lparr>bo_ptr_sz := p\<rparr>) }"

definition btf__set_pointer_size :: "u64 \<Rightarrow> btf_own \<Rightarrow> int \<times> btf_own" where
  "btf__set_pointer_size sz b =
     (if sz \<noteq> 4 \<and> sz \<noteq> 8 then (- EINVAL, b) else (0, b\<lparr>bo_ptr_sz := uint sz\<rparr>))"

definition BTF_LITTLE_ENDIAN :: nat where "BTF_LITTLE_ENDIAN = 0"
definition BTF_BIG_ENDIAN :: nat where "BTF_BIG_ENDIAN = 1"

definition btf__endianness :: "btf_own \<Rightarrow> nat" where
  "btf__endianness b = (if bo_swapped b then BTF_BIG_ENDIAN else BTF_LITTLE_ENDIAN)"

definition btf__set_endianness :: "nat \<Rightarrow> btf_own \<Rightarrow> int \<times> btf_own" where
  "btf__set_endianness endian b =
     (if endian \<noteq> BTF_LITTLE_ENDIAN \<and> endian \<noteq> BTF_BIG_ENDIAN then (- EINVAL, b)
      else
        let b = b\<lparr>bo_swapped := (endian = BTF_BIG_ENDIAN)\<rparr>
        in (0, if bo_swapped b then b else b\<lparr>bo_raw_swapped := None\<rparr>))"

fun resolve_type_loop :: "nat \<Rightarrow> btf \<Rightarrow> u32 \<Rightarrow> int + u32" where
  "resolve_type_loop 0 b ti = Inl EINVAL"
| "resolve_type_loop (Suc depth) b ti =
     (case btf__type_by_id b ti of
        None \<Rightarrow> Inl EINVAL
      | Some t \<Rightarrow>
          if btf_type_is_void ti t then Inl EINVAL
          else if btf_is_mod t \<or> btf_is_typedef t \<or> btf_kind t = BTF_KIND_VAR
          then resolve_type_loop depth b (bt_type t)
          else Inr ti)"

definition btf__resolve_type :: "btf \<Rightarrow> u32 \<Rightarrow> int + u32" where
  "btf__resolve_type b ti = resolve_type_loop MAX_RESOLVE_DEPTH b ti"

end
