(* ===== verification/Btf_Image.thy ===== *)
theory Btf_Image
  imports Btf_Write Btf_Wf
begin

text \<open>
  The bytes of types: a list of types of known kinds and its type section, the offsets of the
  types in it, and reading them back. The info word and its three parts.
\<close>

section \<open>Words\<close>

lemma length_words_le_list [simp]: "length (words_le ws) = 4 * length ws"
  by (induction ws) (auto simp: words_le_def)

lemma words_le_Cons [simp]: "words_le (w # ws) = u32_le w @ words_le ws"
  by (simp add: words_le_def)

lemma words_le_append: "words_le (vs @ ws) = words_le vs @ words_le ws"
  by (simp add: words_le_def)

lemma words_le_Nil [simp]: "words_le [] = []"
  by (simp add: words_le_def)

lemma rd32_at: "length pre = n \<Longrightarrow> rd32 (pre @ u32_le w @ post) n = w"
  by (auto simp: rd32_def)

lemma rd32_words:
  assumes "i < length ws" "length pre = n"
  shows "rd32 (pre @ words_le ws @ post) (n + 4 * i) = ws ! i"
proof -
  have "words_le ws = words_le (take i ws) @ u32_le (ws ! i) @ words_le (drop (Suc i) ws)"
    using assms(1) by (metis id_take_nth_drop words_le_Cons words_le_append)
  then have "pre @ words_le ws @ post =
      (pre @ words_le (take i ws)) @ u32_le (ws ! i) @ (words_le (drop (Suc i) ws) @ post)" by simp
  moreover have "length (pre @ words_le (take i ws)) = n + 4 * i" using assms by simp
  ultimately show ?thesis using rd32_at by metis
qed

section \<open>Types\<close>

definition type_words :: "btf_type \<Rightarrow> u32 list" where
  "type_words t = bt_name_off t # bt_info t # bt_union t # bt_words t"

definition type_bytes :: "btf_type \<Rightarrow> byte list" where
  "type_bytes t = words_le (type_words t)"

definition types_bytes :: "btf_type list \<Rightarrow> byte list" where
  "types_bytes ts = concat (map type_bytes ts)"

fun offs_of :: "nat \<Rightarrow> btf_type list \<Rightarrow> nat list" where
  "offs_of n [] = []"
| "offs_of n (t # ts) = n # offs_of (n + length (type_bytes t)) ts"

definition known_types :: "btf_type list \<Rightarrow> bool" where
  "known_types ts \<longleftrightarrow> (\<forall>t\<in>set ts. rest_words t = Some (length (bt_words t)))"

lemma length_type_bytes: "length (type_bytes t) = 12 + 4 * length (bt_words t)"
  by (simp add: type_bytes_def type_words_def del: words_le_Cons)

lemma types_bytes_simps [simp]:
  "types_bytes [] = []" "types_bytes (t # ts) = type_bytes t @ types_bytes ts"
  by (simp_all add: types_bytes_def)

lemma types_bytes_append [simp]: "types_bytes (ts @ us) = types_bytes ts @ types_bytes us"
  by (simp add: types_bytes_def)

lemma length_offs_of [simp]: "length (offs_of n ts) = length ts"
  by (induction n ts rule: offs_of.induct) auto

lemma offs_of_append: "offs_of n (ts @ us) = offs_of n ts @ offs_of (n + length (types_bytes ts)) us"
  by (induction n ts rule: offs_of.induct) (auto simp: add.assoc)

lemma type_at_bytes:
  assumes "length pre = n"
  shows "type_at (pre @ type_bytes t @ post) n (n + length (type_bytes t)) = t"
proof -
  have w: "rd32 (pre @ type_bytes t @ post) (n + 4 * i) = type_words t ! i" if "i < length (type_words t)" for i
    using rd32_words [OF that assms] by (simp add: type_bytes_def)
  have l: "length (type_words t) = 3 + length (bt_words t)" by (simp add: type_words_def)
  have "map (\<lambda>k. rd32 (pre @ type_bytes t @ post) (n + 12 + 4 * k)) [0..<length (bt_words t)] = bt_words t"
  proof (intro nth_equalityI)
    fix k
    assume "k < length (map (\<lambda>k. rd32 (pre @ type_bytes t @ post) (n + 12 + 4 * k)) [0..<length (bt_words t)])"
    then have k: "k < length (bt_words t)" by simp
    have "n + 12 + 4 * k = n + 4 * (3 + k)" by simp
    then show "map (\<lambda>k. rd32 (pre @ type_bytes t @ post) (n + 12 + 4 * k)) [0..<length (bt_words t)] ! k =
        bt_words t ! k"
      using k w [of "3 + k"] l by (simp add: type_words_def add.assoc del: add_mult_distrib2)
  qed simp
  then show ?thesis
    using w [of 0] w [of 1] w [of 2] l
    by (simp add: type_at_def length_type_bytes sizeof_btf_type_def type_words_def)
qed

text \<open>The header alone, read before the size is known.\<close>

lemma type_header_bytes:
  assumes "length pre = n"
  shows "type_at (pre @ type_bytes t @ post) n (n + 12) = t\<lparr>bt_words := []\<rparr>"
  using type_at_bytes [OF assms, of "t\<lparr>bt_words := []\<rparr>" "words_le (bt_words t) @ post"]
  by (simp add: type_bytes_def type_words_def)

lemma types_of_bytes_from:
  "length pre = n \<Longrightarrow> end = n + length (types_bytes ts) \<Longrightarrow>
     map (\<lambda>(a, b). type_at (pre @ types_bytes ts @ post) a b)
       (zip (offs_of n ts) (drop 1 (offs_of n ts @ [end]))) = ts"
proof (induction ts arbitrary: pre n)
  case (Cons t ts)
  let ?m = "n + length (type_bytes t)"
  have "(drop 1 (offs_of n (t # ts) @ [end])) = hd (offs_of ?m ts @ [end]) # drop 1 (offs_of ?m ts @ [end])"
    by (cases "offs_of ?m ts") auto
  moreover have "hd (offs_of ?m ts @ [end]) = ?m" using Cons.prems(2) by (cases ts) auto
  moreover have "type_at (pre @ types_bytes (t # ts) @ post) n ?m = t"
    using type_at_bytes [OF Cons.prems(1), of t "types_bytes ts @ post"] by simp
  moreover have "map (\<lambda>(a, b). type_at ((pre @ type_bytes t) @ types_bytes ts @ post) a b)
       (zip (offs_of ?m ts) (drop 1 (offs_of ?m ts @ [end]))) = ts"
    using Cons.prems by (intro Cons.IH) auto
  ultimately show ?case by simp
qed simp

lemma types_of_bytes:
  "types_of (offs_of 0 ts) (length (types_bytes ts)) (types_bytes ts @ post) = ts"
  using types_of_bytes_from [of "[]" 0 "length (types_bytes ts)" ts post] by (simp add: types_of_def)

section \<open>The info word\<close>

lemma info_value:
  assumes "kind < 32" "vlen < 65536"
  shows "unat (btf_type_info kind vlen kflag) = (if kflag then 2 ^ 31 else 0) + unat kind * 2 ^ 24 + vlen"
proof -
  have k: "unat kind < 32" using assms(1) by (simp add: word_less_nat_alt)
  have v: "(of_nat vlen :: u32) = take_bit 16 (of_nat vlen)"
    using assms(2) by (simp add: take_bit_nat_eq_self flip: of_nat_take_bit)
  have "push_bit 24 (ucast kind :: u32) OR of_nat vlen = push_bit 24 (ucast kind) + of_nat vlen"
  proof (rule disjunctive_add [symmetric])
    fix n
    show "\<not> bit (push_bit 24 (ucast kind :: u32)) n \<or> \<not> bit (of_nat vlen :: u32) n"
      by (subst v) (auto simp: bit_simps)
  qed
  moreover have "push_bit 31 (if kflag then 1 else 0 :: u32) OR (push_bit 24 (ucast kind) OR of_nat vlen) =
      push_bit 31 (if kflag then 1 else 0) + (push_bit 24 (ucast kind) OR of_nat vlen)"
  proof (rule disjunctive_add [symmetric])
    fix n
    have kb: "(kind :: u16) = take_bit 5 kind"
    proof -
      have "unat (take_bit 5 kind) = unat kind"
        using k take_bit_nat_eq_self [of "unat kind" 5] by (simp only: unsigned_take_bit_eq) simp
      then show ?thesis by (simp add: word_unat_eq_iff)
    qed
    show "\<not> bit (push_bit 31 (if kflag then 1 else 0 :: u32)) n \<or>
        \<not> bit (push_bit 24 (ucast kind :: u32) OR of_nat vlen) n"
      by (subst v, subst kb) (auto simp: bit_simps)
  qed
  ultimately have "btf_type_info kind vlen kflag =
      push_bit 31 (if kflag then 1 else 0) + (push_bit 24 (ucast kind) + of_nat vlen)"
    by (simp add: btf_type_info_def or.assoc)
  also have "\<dots> = of_nat ((if kflag then 2 ^ 31 else 0) + unat kind * 2 ^ 24 + vlen)"
    by (simp add: push_bit_eq_mult add.assoc mult.commute)
  finally have "unat (btf_type_info kind vlen kflag) =
      ((if kflag then 2 ^ 31 else 0) + unat kind * 2 ^ 24 + vlen) mod 2 ^ LENGTH(32)"
    by (simp only: unat_of_nat)
  moreover have "(if kflag then 2 ^ 31 else 0 :: nat) + unat kind * 2 ^ 24 + vlen < 2 ^ LENGTH(32)"
    using k assms(2) by auto
  ultimately show ?thesis by (simp only: mod_less)
qed

lemma unat_info_parts:
  "unat (btf_kind t) = unat (bt_info t) div 2 ^ 24 mod 32"
  "btf_vlen t = unat (bt_info t) mod 65536"
  "btf_kflag t \<longleftrightarrow> 2 ^ 31 \<le> unat (bt_info t)"
proof -
  have tb: "take_bit 32 (unat w) = unat w" for w :: u32
    using unat_bound [of w] by (simp add: take_bit_nat_eq_self)
  have d: "unat (drop_bit n w) = unat w div 2 ^ n" for n and w :: u32
    by (simp only: unsigned_drop_bit_eq) (simp add: tb drop_bit_eq_div)
  have "drop_bit 24 (bt_info t) AND 0x1f = take_bit 5 (drop_bit 24 (bt_info t))"
    by (simp add: take_bit_eq_mask mask_eq_exp_minus_1)
  then have "unat (drop_bit 24 (bt_info t) AND 0x1f) = unat (bt_info t) div 2 ^ 24 mod 32"
    by (simp only: unsigned_take_bit_eq d) (simp add: take_bit_eq_mod)
  moreover have "unat (btf_kind t) = unat (drop_bit 24 (bt_info t) AND 0x1f)"
  proof -
    have "unat (drop_bit 24 (bt_info t) AND 0x1f) < 2 ^ 16"
      using calculation by (simp add: order_less_trans [OF mod_less_divisor])
    then show ?thesis unfolding btf_kind_def by (simp add: unsigned_ucast_eq take_bit_nat_eq_self)
  qed
  ultimately show "unat (btf_kind t) = unat (bt_info t) div 2 ^ 24 mod 32" by simp
  have "bt_info t AND 0xffff = take_bit 16 (bt_info t)" by (simp add: take_bit_eq_mask mask_eq_exp_minus_1)
  then show "btf_vlen t = unat (bt_info t) mod 65536"
    unfolding btf_vlen_def by (simp only: unsigned_take_bit_eq) (simp add: take_bit_eq_mod)
  have "unat (drop_bit 31 (bt_info t)) = unat (bt_info t) div 2 ^ 31" by (rule d)
  then have "drop_bit 31 (bt_info t) = 0 \<longleftrightarrow> unat (bt_info t) div 2 ^ 31 = 0" by (metis unat_eq_zero)
  then show "btf_kflag t \<longleftrightarrow> 2 ^ 31 \<le> unat (bt_info t)"
    unfolding btf_kflag_def by (simp add: div_eq_0_iff not_less)
qed

lemma info_arith:
  assumes "v < 65536"
  shows "((if f then 2 ^ 31 else 0) + k * 2 ^ 24 + v) div 2 ^ 24 = (if f then 128 else 0) + (k :: nat)"
    "((if f then 2 ^ 31 else 0) + k * 2 ^ 24 + v) mod 65536 = v"
proof -
  let ?c = "if f then 128 else 0 :: nat"
  have e: "(if f then 2 ^ 31 else 0) + k * 2 ^ 24 + v = v + (?c + k) * 2 ^ 24"
    "(if f then 2 ^ 31 else 0) + k * 2 ^ 24 + v = v + ((?c + k) * 256) * 65536" by auto
  show "((if f then 2 ^ 31 else 0) + k * 2 ^ 24 + v) div 2 ^ 24 = ?c + k"
    unfolding e(1) using div_mult_self1 [of "2 ^ 24" v "?c + k"] assms by simp
  show "((if f then 2 ^ 31 else 0) + k * 2 ^ 24 + v) mod 65536 = v"
    unfolding e(2) mod_mult_self1 using assms by simp
qed

lemma info_parts:
  assumes "bt_info t = btf_type_info kind vlen kflag" "kind < 32" "vlen < 65536"
  shows "btf_kind t = kind" "btf_vlen t = vlen" "btf_kflag t = kflag"
proof -
  have k: "unat kind < 32" using assms(2) by (simp add: word_less_nat_alt)
  have v: "unat (bt_info t) = (if kflag then 2 ^ 31 else 0) + unat kind * 2 ^ 24 + vlen"
    using info_value [OF assms(2,3), of kflag] assms(1) by simp
  have "(128 + x) mod 32 = x" if "x < 32" for x :: nat
    using mod_mult_self1 [of x 4 32] that by (simp add: add.commute)
  then have "unat (btf_kind t) = unat kind"
    unfolding unat_info_parts v info_arith(1) [OF assms(3)] using k by simp
  then show "btf_kind t = kind" by (simp add: word_unat_eq_iff)
  show "btf_vlen t = vlen" unfolding unat_info_parts v info_arith(2) [OF assms(3)] ..
  have "unat kind * 2 ^ 24 + vlen < 2 ^ 31" using k assms(3) by simp
  then show "btf_kflag t = kflag" unfolding unat_info_parts v by (cases kflag) auto
qed

end
