(* ===== verification/Strset_Index.thy ===== *)
theory Strset_Index
  imports Strset
begin

text \<open>
  More about the packed string set: its hash table stays far below the width of a hash, indexing
  given data gives a set that satisfies the invariant, and adding leaves the old bytes alone.
\<close>

section \<open>The size of the table\<close>

text \<open>A table grows only when it is three quarters full.\<close>

definition hm_small :: "('k, 'v) hashmap \<Rightarrow> bool" where
  "hm_small m \<longleftrightarrow> 2 ^ hm_cap_bits m \<le> 4 * (hm_sz m + 2)"

lemma small_init: "hm_small hashmap__init"
  by (simp add: hm_small_def hashmap__init_def)

lemma grow_small:
  assumes "hm_small m" "hm_shape hash m"
    and "(if hashmap_needs_to_grow m then hashmap_grow hash ok m else (0, m)) = (err, m')"
  shows "hm_small m' \<and> hm_sz m' = hm_sz m"
proof (cases "hashmap_needs_to_grow m \<and> ok")
  case False
  then show ?thesis using assms(1,3) by (auto simp: hashmap_grow_def Let_def split: if_splits)
next
  case True
  define b where "b = max 2 (hm_cap_bits m + 1)"
  have m': "hm_cap_bits m' = b" "hm_sz m' = hm_sz m"
    using assms(3) True by (auto simp: hashmap_grow_def Let_def HASHMAP_MIN_CAP_BITS_def b_def split: if_splits)
  have "(2 :: nat) ^ b \<le> 4 * (hm_sz m + 2)"
  proof (cases "hm_cap m = 0")
    case True
    then have "hm_cap_bits m = 0" using assms(2) by (auto simp: hm_shape_def)
    then show ?thesis by (simp add: b_def)
  next
    case F: False
    then have c: "hm_cap m = 2 ^ hm_cap_bits m" "2 \<le> hm_cap_bits m"
      using assms(2) by (auto simp: hm_shape_def)
    define d where "d = (hm_sz m + 1) * 4 div 3"
    have "hm_cap m < d" using True F by (simp add: hashmap_needs_to_grow_def d_def)
    moreover have "3 * d \<le> (hm_sz m + 1) * 4" by (simp add: d_def)
    ultimately have "2 * hm_cap m \<le> 4 * (hm_sz m + 2)" using le0 [of "hm_sz m"] le0 [of d] by presburger
    moreover have "2 ^ b = 2 * hm_cap m" using c by (simp add: b_def max_def)
    ultimately show ?thesis by simp
  qed
  then show ?thesis using m' by (simp add: hm_small_def)
qed

lemma insert_small:
  assumes "hm_small m" "hm_shape hash m"
    and "hashmap_insert hash eq grow_ok entry_ok m k v HASHMAP_ADD = (err, old, m')"
  shows "hm_small m'"
proof (cases "hashmap_find_entry eq m k (bucket_of hash m k)")
  case None
  obtain e1 m1 where g: "(if hashmap_needs_to_grow m then hashmap_grow hash grow_ok m else (0, m)) = (e1, m1)"
    by fastforce
  have "hm_small m1" using grow_small [OF assms(1,2) g] by simp
  then show ?thesis
    using assms(3) None g
    by (auto simp: hashmap_insert_def Let_def hm_small_def split: if_splits)
next
  case (Some p)
  then show ?thesis
    using assms(1,3) by (cases p) (auto simp: hashmap_insert_def Let_def)
qed

text \<open>The keys of a set are different offsets inside it.\<close>

lemma strs_size:
  assumes "ss_inv st"
  shows "hm_sz (ss_hash st) \<le> ss_len st"
proof -
  let ?E = "entries (ss_hash st)"
  have u: "str_tab.uniq (ss_data st) ?E" and sz: "hm_sz (ss_hash st) = size ?E"
    using assms by (auto simp: ss_inv_def str_tab.hm_inv_def hm_shape_def)
  have in': "\<forall>e\<in>#?E. fst e < ss_len st" using assms by (fastforce simp: ss_inv_def)
  have c: "count (image_mset fst ?E) k \<le> 1" for k
  proof -
    have "filter_mset (\<lambda>e. fst e = k) ?E \<subseteq># filter_mset (\<lambda>e. strset_equal_fn (ss_data st) (fst e) k) ?E"
    proof -
      have "filter_mset (\<lambda>e. fst e = k) ?E =
          filter_mset (\<lambda>e. fst e = k) (filter_mset (\<lambda>e. strset_equal_fn (ss_data st) (fst e) k) ?E)"
        by (auto simp: filter_filter_mset strset_equal_fn_def intro: filter_mset_cong)
      then show ?thesis by (metis multiset_filter_subset)
    qed
    then have "size (filter_mset (\<lambda>e. fst e = k) ?E) \<le> 1"
      using u size_mset_mono unfolding str_tab.uniq_def by (metis order_trans)
    then show ?thesis by (simp add: count_image_mset' size_multiset_overloaded_eq eq_commute)
  qed
  have "image_mset fst ?E \<subseteq># mset_set {0..<ss_len st}"
  proof (rule mset_subset_eqI)
    fix k
    show "count (image_mset fst ?E) k \<le> count (mset_set {0..<ss_len st}) k"
    proof (cases "k < ss_len st")
      case True
      then show ?thesis using c [of k] by (simp add: count_mset_set')
    next
      case False
      then have "k \<notin># image_mset fst ?E" using in' by auto
      then have "count (image_mset fst ?E) k = 0" by (simp only: count_eq_zero_iff not_False_eq_True)
      then show ?thesis by simp
    qed
  qed
  then have "size (image_mset fst ?E) \<le> size (mset_set {0..<ss_len st})" by (rule size_mset_mono)
  then show ?thesis using sz by simp
qed

text \<open>The invariant with the limits under which libbpf keeps the strings of BTF.\<close>

definition ss_good :: "strset \<Rightarrow> bool" where
  "ss_good st \<longleftrightarrow> ss_inv st \<and> hm_small (ss_hash st) \<and> ss_cap st \<le> 2 ^ 31 \<and> ss_max_len st < 2 ^ 31"

lemma small_bits:
  assumes "ss_inv st" "hm_small (ss_hash st)" "ss_len st \<le> 2 ^ 31"
  shows "hm_cap_bits (ss_hash st) < 63"
proof -
  have "hm_sz (ss_hash st) \<le> 2 ^ 31" using strs_size [OF assms(1)] assms(3) by (rule order_trans)
  then have "4 * (hm_sz (ss_hash st) + 2) \<le> 4 * (2 ^ 31 + 2)" by simp
  with assms(2) have "(2 :: nat) ^ hm_cap_bits (ss_hash st) \<le> 4 * (2 ^ 31 + 2)"
    unfolding hm_small_def by (rule order_trans)
  also have "\<dots> < 2 ^ 34" by simp
  finally have "hm_cap_bits (ss_hash st) < 34" by (rule power_less_imp_less_exp [rotated]) simp
  then show ?thesis by simp
qed

lemma good_bits: "ss_good st \<Longrightarrow> hm_cap_bits (ss_hash st) < 63"
  using small_bits [of st] by (auto simp: ss_good_def ss_inv_def)

section \<open>Indexing given data\<close>

lemma index_insert:
  assumes "hashmap_insert (strset_hash_fn (ss_data st)) (strset_equal_fn (ss_data st)) grow entry
      (ss_hash st) k k HASHMAP_ADD = (err, old, hm)"
    and "ss_inv st" "hm_small (ss_hash st)" "ss_len st \<le> 2 ^ 31"
    and "k + length (cstr_at (ss_data st) k) < ss_len st"
  shows "ss_inv (st\<lparr>ss_hash := hm\<rparr>) \<and> hm_small hm \<and> err \<in> {0, - EEXIST, - ENOMEM}"
proof -
  have b: "hm_cap_bits (ss_hash st) < 63" by (rule small_bits [OF assms(2,3,4)])
  have i: "str_tab.hm_inv (ss_data st) (ss_hash st)" "hm_cap_bits (ss_hash st) < 64"
    using assms(2) by (auto simp: ss_inv_def)
  note en = str_tab.insert_add_entries [OF assms(1) i] and sp = str_tab.insert_spec [OF assms(1) i]
  have "hm_small hm"
    using insert_small [OF assms(3) _ assms(1)] i(1) by (auto simp: str_tab.hm_inv_def)
  moreover have "hm_cap_bits hm < 64" using en(3) b by simp
  moreover have "\<forall>(l, v)\<in>#entries hm. v = l \<and> l + length (cstr_at (ss_data st) l) < ss_len st"
    using assms(2,5) by (cases "err = 0") (auto simp: ss_inv_def en(2))
  moreover have "str_tab.hm_inv (ss_data st) hm" using sp(1) by simp
  ultimately show ?thesis using assms(2) sp(5) by (auto simp: ss_inv_def)
qed

text \<open>Every string of the data ends inside it.\<close>

definition strs_end :: "byte list \<Rightarrow> bool" where
  "strs_end d \<longleftrightarrow> (d \<noteq> [] \<longrightarrow> d ! (length d - 1) = 0)"

lemma strs_end_inside:
  assumes "strs_end d" "k < length d"
  shows "k + length (cstr_at d k) < length d"
proof -
  have "d ! (length d - 1) = 0" "k \<le> length d - 1" using assms by (auto simp: strs_end_def)
  then have "drop k d ! (length d - 1 - k) = 0" using assms(2) by simp
  moreover have "length d - 1 - k < length (drop k d)" using assms(2) by simp
  ultimately have "\<exists>x\<in>set (drop k d). \<not> x \<noteq> 0" using nth_mem by metis
  then have "takeWhile (\<lambda>b. b \<noteq> 0) (drop k d) \<noteq> drop k d" by (simp only: takeWhile_eq_all_conv) blast
  then have "length (takeWhile (\<lambda>b. b \<noteq> 0) (drop k d)) \<noteq> length (drop k d)"
    using takeWhile_eq_take [of "\<lambda>b. b \<noteq> 0" "drop k d"] by auto
  then have "length (takeWhile (\<lambda>b. b \<noteq> 0) (drop k d)) < length (drop k d)"
    using length_takeWhile_le [of "\<lambda>b. b \<noteq> 0" "drop k d"] by linarith
  then show ?thesis by (simp add: cstr_at_def)
qed

lemma index_loop_ok:
  assumes "ss_inv st" "hm_small (ss_hash st)" "ss_len st \<le> 2 ^ 31" "strs_end (ss_data st)"
    "ss_len st = length (ss_data st)"
  shows "case strset_index_loop env st off of
      Inl e \<Rightarrow> e = ENOMEM
    | Inr st' \<Rightarrow> ss_inv st' \<and> hm_small (ss_hash st') \<and> st' = st\<lparr>ss_hash := ss_hash st'\<rparr>"
  using assms
proof (induction env st off rule: strset_index_loop.induct)
  case (1 env st off)
  show ?case
  proof (cases "ss_len st \<le> off")
    case True
    then show ?thesis using "1.prems"(1,2) by (subst strset_index_loop.simps) simp
  next
    case False
    obtain err old hm where ins: "hashmap_insert (strset_hash_fn (ss_data st)) (strset_equal_fn (ss_data st))
        (se_grow (env off)) (se_entry (env off)) (ss_hash st) off off HASHMAP_ADD = (err, old, hm)"
      by (metis prod_cases3)
    have k: "off + length (cstr_at (ss_data st) off) < ss_len st"
      using strs_end_inside [of "ss_data st" off] "1.prems"(4,5) False by simp
    note i = index_insert [OF ins "1.prems"(1,2,3) k]
    let ?n = "off + length (cstr_at (ss_data st) off) + 1"
    have eq: "strset_index_loop env st off =
        (if err = - EEXIST then strset_index_loop env st ?n
         else if err \<noteq> 0 then Inl (- err) else strset_index_loop env (st\<lparr>ss_hash := hm\<rparr>) ?n)"
      using False ins by (subst strset_index_loop.simps) simp
    consider "err = - EEXIST" | "err = - ENOMEM" | "err = 0" using i by auto
    then show ?thesis
    proof cases
      case 1
      then show ?thesis using "1.IH"(1) [OF False ins [symmetric] refl 1 "1.prems"] eq by simp
    next
      case 2
      then show ?thesis using eq by simp
    next
      case 3
      have "case strset_index_loop env (st\<lparr>ss_hash := hm\<rparr>) ?n of
          Inl e \<Rightarrow> e = ENOMEM
        | Inr st' \<Rightarrow> ss_inv st' \<and> hm_small (ss_hash st') \<and> st' = st\<lparr>ss_hash := hm\<rparr>\<lparr>ss_hash := ss_hash st'\<rparr>"
        by (rule "1.IH"(2) [OF False ins [symmetric] refl]) (use 3 i "1.prems" in simp_all)
      then show ?thesis using eq 3 by (simp split: sum.splits)
    qed
  qed
qed

lemma strset_new_good:
  assumes "strs_end d" "length d \<le> 2 ^ 31" "mx < 2 ^ 31"
  shows "case strset__new ok env mx (Some d) of
      Inl e \<Rightarrow> e = ENOMEM
    | Inr st \<Rightarrow> ss_good st \<and> ss_data st = d \<and> ss_len st = length d \<and> ss_max_len st = mx"
proof (cases ok)
  case False
  then show ?thesis by (simp add: strset__new_def)
next
  case True
  define st where "st = \<lparr>ss_data = d, ss_len = length d, ss_cap = length d, ss_max_len = mx,
    ss_hash = hashmap__init\<rparr>"
  have n: "strset__new ok env mx (Some d) = strset_index_loop env st 0"
    using True by (simp add: strset__new_def st_def)
  have e: "entries (hashmap__init :: (nat, nat) hashmap) = {#}" "hm_cap_bits (hashmap__init :: (nat, nat) hashmap) = 0"
    by (simp_all add: hashmap__init_def entries_def)
  have "ss_inv st" using str_tab.inv_init [of d] by (simp add: ss_inv_def st_def e)
  moreover have "hm_small (ss_hash st)" by (simp add: st_def small_init)
  ultimately have "case strset_index_loop env st 0 of
      Inl e \<Rightarrow> e = ENOMEM
    | Inr st' \<Rightarrow> ss_inv st' \<and> hm_small (ss_hash st') \<and> st' = st\<lparr>ss_hash := ss_hash st'\<rparr>"
    using assms(1,2) by (intro index_loop_ok) (simp_all add: st_def)
  then show ?thesis
  proof (cases "strset_index_loop env st 0")
    case (Inr st')
    assume "case strset_index_loop env st 0 of
      Inl e \<Rightarrow> e = ENOMEM
    | Inr st' \<Rightarrow> ss_inv st' \<and> hm_small (ss_hash st') \<and> st' = st\<lparr>ss_hash := ss_hash st'\<rparr>"
    with Inr have a: "ss_inv st'" "hm_small (ss_hash st')" "st' = st\<lparr>ss_hash := ss_hash st'\<rparr>" by auto
    have "ss_data st' = d" "ss_len st' = length d" "ss_cap st' = length d" "ss_max_len st' = mx"
      by (subst a(3), simp add: st_def)+
    then show ?thesis using a(1,2) assms(2,3) n Inr by (simp add: ss_good_def)
  qed (simp add: n)
qed

section \<open>Adding and finding\<close>

lemma add_mem_cap:
  assumes "strset_add_str_mem env st n = Some (p, st1)"
  shows "p = ss_len st \<and> ss_cap st1 \<le> max (ss_cap st) (ss_max_len st) \<and>
    ss_max_len st1 = ss_max_len st \<and> ss_hash st1 = ss_hash st \<and> ss_len st1 = ss_len st \<and>
    length (ss_data st) \<le> length (ss_data st1)"
  using assms
  by (auto simp: strset_add_str_mem_def libbpf_add_mem_def add_mem_cnt_def Let_def split: if_splits)

text \<open>The bytes of the set.\<close>

definition ss_bytes :: "strset \<Rightarrow> byte list" where
  "ss_bytes st = take (ss_len st) (ss_data st)"

lemma length_ss_bytes: "ss_inv st \<Longrightarrow> length (ss_bytes st) = ss_len st"
  by (simp add: ss_bytes_def ss_inv_def)

lemma has_str_inside:
  assumes "ss_inv st" "has_str st s k"
  shows "k + length s < ss_len st \<and> cstr_at (ss_data st) k = s"
proof -
  have "(k, k) \<in># entries (ss_hash st)" "cstr_at (ss_data st) k = s"
    using assms(2) by (simp_all add: has_str_def)
  moreover have "\<forall>(k, v)\<in>#entries (ss_hash st). v = k \<and> k + length (cstr_at (ss_data st) k) < ss_len st"
    using assms(1) by (simp add: ss_inv_def)
  ultimately show ?thesis by blast
qed

lemma find_str_good:
  assumes "strset__find_str env st s = (r, st')" "ss_good st" "0 \<notin> set s"
  shows "ss_good st' \<and> ss_bytes st' = ss_bytes st \<and> ss_len st' = ss_len st \<and>
    (case r of
       Inr k \<Rightarrow> k + length s < ss_len st \<and> cstr_at (ss_data st') k = s
     | Inl e \<Rightarrow> e = ENOMEM \<or> e = ENOENT)"
proof -
  have inv: "ss_inv st" using assms(2) by (simp add: ss_good_def)
  have fs: "ss_inv st' \<and> has_str st' = has_str st \<and>
    (case r of Inr k \<Rightarrow> has_str st s k | Inl e \<Rightarrow> e = ENOMEM \<or> e = ENOENT \<and> (\<forall>k. \<not> has_str st s k))"
    by (rule find_str_spec [OF assms(1) inv assms(3)])
  have same: "ss_good st' \<and> ss_bytes st' = ss_bytes st \<and> ss_len st' = ss_len st"
  proof (cases "strset_add_str_mem env st (length s + 1)")
    case None
    then show ?thesis using assms(1,2) by (simp add: strset__find_str_def)
  next
    case (Some pst)
    obtain p st1 where mem: "strset_add_str_mem env st (length s + 1) = Some (p, st1)"
      using Some by (cases pst) auto
    define st2 where "st2 = st1\<lparr>ss_data := put_str p s (ss_data st1)\<rparr>"
    note a = add_str_mem_put [OF mem inv assms(3), folded st2_def] and c = add_mem_cap [OF mem]
    have "st' = st2"
      using assms(1) by (auto simp: strset__find_str_def mem [simplified] st2_def Let_def split: option.splits)
    moreover have "ss_cap st2 = ss_cap st1" "ss_max_len st2 = ss_max_len st1" by (simp_all add: st2_def)
    ultimately show ?thesis
      using assms(2) a(1,2,3,7) c by (auto simp: ss_good_def ss_bytes_def)
  qed
  have "k + length s < ss_len st \<and> cstr_at (ss_data st') k = s" if "has_str st s k" for k
    using has_str_inside [of st' s k] that fs same by simp
  then show ?thesis using fs same by (auto split: sum.splits)
qed

lemma add_str_good:
  assumes add: "strset__add_str env st s = (r, st')" and "ss_good st" "0 \<notin> set s"
  shows "ss_good st' \<and> ss_len st \<le> ss_len st' \<and> take (ss_len st) (ss_bytes st') = ss_bytes st \<and>
    (strs_end (ss_bytes st) \<longrightarrow> strs_end (ss_bytes st')) \<and>
    (case r of
       Inr k \<Rightarrow> k + length s < ss_len st' \<and> cstr_at (ss_data st') k = s
     | Inl e \<Rightarrow> e = ENOMEM \<and> ss_len st' = ss_len st)"
proof (cases "strset_add_str_mem env st (length s + 1)")
  case None
  then show ?thesis using assms by (auto simp: strset__add_str_def ss_bytes_def)
next
  case (Some pst)
  have inv: "ss_inv st" using assms(2) by (simp add: ss_good_def)
  have room: "hm_cap_bits (ss_hash st) < 63" using assms(2) by (rule good_bits)
  note sp = add_str_spec [OF add inv assms(3) room]
  obtain p st1 where mem: "strset_add_str_mem env st (length s + 1) = Some (p, st1)"
    using Some by (cases pst) auto
  define st2 where "st2 = st1\<lparr>ss_data := put_str p s (ss_data st1)\<rparr>"
  note a = add_str_mem_put [OF mem inv assms(3), folded st2_def] and c = add_mem_cap [OF mem]
  define n where "n = ss_len st"
  obtain err old hm where ins: "hashmap_insert (strset_hash_fn (ss_data st2)) (strset_equal_fn (ss_data st2))
      (se_grow env) (se_entry env) (ss_hash st2) n n HASHMAP_ADD = (err, old, hm)"
    by (metis prod_cases3)
  have i2: "str_tab.hm_inv (ss_data st2) (ss_hash st2)" "hm_cap_bits (ss_hash st2) < 64"
    using a(1) by (auto simp: ss_inv_def)
  have err: "err \<in> {0, - EEXIST, - ENOMEM}" using str_tab.insert_spec(5) [OF ins i2] by auto
  have res: "(r, st') =
      (if err = - EEXIST then (Inr (case old of None \<Rightarrow> 0 | Some (k, _) \<Rightarrow> k), st2\<lparr>ss_hash := hm\<rparr>)
       else if err \<noteq> 0 then (Inl (- err), st2\<lparr>ss_hash := hm\<rparr>)
       else (Inr n, st2\<lparr>ss_hash := hm, ss_len := n + (length s + 1)\<rparr>))"
    using add ins a(3) by (auto simp: strset__add_str_def mem [simplified] st2_def n_def Let_def split: if_splits)
  have small: "hm_small hm"
    using insert_small [OF _ _ ins] assms(2) a(2) i2(1) by (auto simp: ss_good_def str_tab.hm_inv_def)
  have cap: "ss_cap st2 \<le> 2 ^ 31" "ss_max_len st2 < 2 ^ 31"
    using assms(2) c by (auto simp: ss_good_def st2_def)
  have st': "ss_data st' = ss_data st2" "ss_hash st' = hm" "ss_cap st' = ss_cap st2"
      "ss_max_len st' = ss_max_len st2" "ss_len st' = (if err = 0 then n + (length s + 1) else n)"
      "r = Inl e \<longrightarrow> e = ENOMEM \<and> err \<noteq> 0" for e
    using res err a(3) by (auto simp: n_def split: if_splits)
  have good: "ss_good st'" using sp(1) small cap st' by (simp add: ss_good_def)
  have pre: "take n (ss_data st') = ss_bytes st" using a(7) st'(1) by (simp add: ss_bytes_def n_def)
  have len: "n \<le> ss_len st'" using st'(5) by simp
  then have "take n (ss_bytes st') = ss_bytes st" using pre by (simp add: ss_bytes_def min_absorb1)
  moreover have "strs_end (ss_bytes st')" if e: "strs_end (ss_bytes st)"
  proof (cases "err = 0")
    case False
    then show ?thesis using st'(5) pre e by (simp add: ss_bytes_def n_def)
  next
    case True
    have "p = n" using c by (simp add: n_def)
    have lp: "n \<le> length (ss_data st1)" "n + length s < length (ss_data st2)"
      using a(4) inv c by (simp_all add: n_def ss_inv_def)
    have "ss_data st2 = take n (ss_data st1) @ s @ [0] @ drop (n + length s + 1) (ss_data st1)"
      by (simp add: st2_def put_str_def \<open>p = n\<close>)
    then have "ss_data st2 ! (n + length s) = 0" using lp(1) by (simp add: nth_append)
    then show ?thesis using st' True lp(2) by (simp add: strs_end_def ss_bytes_def)
  qed
  moreover have "case r of
       Inr k \<Rightarrow> k + length s < ss_len st' \<and> cstr_at (ss_data st') k = s
     | Inl e \<Rightarrow> e = ENOMEM \<and> ss_len st' = ss_len st"
  proof (cases r)
    case (Inl e)
    then show ?thesis using st'(5,6) by (simp add: n_def)
  next
    case (Inr k)
    then have "has_str st' = (\<lambda>t l. has_str st t l \<or> t = s \<and> l = k)" using sp(2) by simp
    then have "has_str st' s k" by simp
    then show ?thesis using Inr has_str_inside [OF sp(1)] by simp
  qed
  ultimately show ?thesis using good len by (simp add: n_def)
qed

end
