(* ===== verification/Btf_Build_Ok.thy ===== *)
theory Btf_Build_Ok
  imports Btf_Image Strset_Index
begin

text \<open>
  The invariant of an object that is built: its type section holds a list of types of known kinds,
  the offsets lead to them, the header describes packed sections, and the strings are a set of
  terminated strings. The steps of the \<open>btf__add_*\<close> functions preserve it.
\<close>

section \<open>The invariant\<close>

definition strs_bytes :: "btf_own \<Rightarrow> byte list" where
  "strs_bytes b = take (bo_str_len b) (btf_strs_data b)"

definition layout_bytes :: "btf_own \<Rightarrow> byte list" where
  "layout_bytes b = take (bo_layout_len b) (layout_mem b)"

text \<open>The sections follow each other; a header without layout fields has no layout.\<close>

definition hdr_ok :: "btf_header \<Rightarrow> bool" where
  "hdr_ok h \<longleftrightarrow>
     bh_magic h = BTF_MAGIC \<and> 24 \<le> unat (bh_hdr_len h) \<and>
     (unat (bh_hdr_len h) < 32 \<longrightarrow> bh_layout_off h = 0 \<and> bh_layout_len h = 0) \<and>
     bh_type_off h = 0 \<and> unat (bh_layout_len h) mod 4 = 0 \<and>
     (bh_layout_len h \<noteq> 0 \<longrightarrow> bh_layout_off h = bh_type_len h) \<and>
     bh_str_off h = bh_type_len h + bh_layout_len h"

definition own_strs_ok :: "bool \<Rightarrow> btf_own \<Rightarrow> bool" where
  "own_strs_ok split b \<longleftrightarrow>
     length (strs_bytes b) = bo_str_len b \<and> bo_str_len b \<le> 2 ^ 31 \<and> strs_end (strs_bytes b) \<and>
     (\<not> split \<longrightarrow> (\<exists>s. strs_bytes b = 0 # s)) \<and>
     (bo_modifiable b \<longrightarrow> ss_good (bo_strs b) \<and> ss_len (bo_strs b) = bo_str_len b)"

definition own_ok :: "bool \<Rightarrow> btf_type list \<Rightarrow> btf_own \<Rightarrow> bool" where
  "own_ok split ts b \<longleftrightarrow>
     known_types ts \<and> bo_type_offs b = offs_of 0 ts \<and> bo_type_len b = length (types_bytes ts) \<and>
     take (length (types_bytes ts)) (types_mem b) = types_bytes ts \<and>
     (bo_modifiable b \<longrightarrow> length (bo_types b) < 2 ^ 32) \<and>
     hdr_ok (bo_hdr b) \<and> own_strs_ok split b \<and> length (layout_bytes b) = bo_layout_len b"

text \<open>What an operation keeps: all but the strings, which only grow.\<close>

definition keeps :: "btf_own \<Rightarrow> btf_own \<Rightarrow> bool" where
  "keeps b b' \<longleftrightarrow>
     bo_start_id b' = bo_start_id b \<and> bo_start_str_off b' = bo_start_str_off b \<and>
     bo_ptr_sz b' = bo_ptr_sz b \<and> bo_swapped b' = bo_swapped b \<and>
     bo_type_offs b' = bo_type_offs b \<and> layout_bytes b' = layout_bytes b \<and>
     bo_hdr b' = (bo_hdr b)\<lparr>bh_str_len := bh_str_len (bo_hdr b')\<rparr> \<and>
     bo_str_len b \<le> bo_str_len b' \<and> take (bo_str_len b) (strs_bytes b') = strs_bytes b"

lemma keeps_refl: "keeps b b"
  by (simp add: keeps_def strs_bytes_def)

lemma keeps_trans:
  assumes "keeps a b" "keeps b c"
  shows "keeps a c"
proof -
  have "take (bo_str_len a) (strs_bytes c) = take (bo_str_len a) (take (bo_str_len b) (strs_bytes c))"
    using assms(1) by (simp add: keeps_def)
  also have "\<dots> = strs_bytes a" using assms by (simp add: keeps_def)
  finally have "take (bo_str_len a) (strs_bytes c) = strs_bytes a" .
  moreover have "bo_hdr c = (bo_hdr a)\<lparr>bh_str_len := bh_str_len (bo_hdr c)\<rparr>"
  proof -
    have "bo_hdr c = (bo_hdr b)\<lparr>bh_str_len := bh_str_len (bo_hdr c)\<rparr>"
      "bo_hdr b = (bo_hdr a)\<lparr>bh_str_len := bh_str_len (bo_hdr b)\<rparr>"
      using assms by (simp_all add: keeps_def)
    then show ?thesis by (cases "bo_hdr a", cases "bo_hdr b") auto
  qed
  ultimately show ?thesis using assms by (simp add: keeps_def)
qed

text \<open>A modifiable object whose data is not cached.\<close>

definition fresh :: "btf_own \<Rightarrow> bool" where
  "fresh b \<longleftrightarrow> bo_modifiable b \<and> bo_raw b = None \<and> bo_raw_swapped b = None \<and> bo_named_start_id b = 0"

section \<open>Making an object modifiable\<close>

lemma invalidate_fields:
  "bo_hdr (btf_invalidate_raw_data b) = bo_hdr b" "bo_types (btf_invalidate_raw_data b) = bo_types b"
  "bo_strs (btf_invalidate_raw_data b) = bo_strs b" "bo_layout (btf_invalidate_raw_data b) = bo_layout b"
  "bo_type_offs (btf_invalidate_raw_data b) = bo_type_offs b"
  "bo_start_id (btf_invalidate_raw_data b) = bo_start_id b"
  "bo_start_str_off (btf_invalidate_raw_data b) = bo_start_str_off b"
  "bo_ptr_sz (btf_invalidate_raw_data b) = bo_ptr_sz b" "bo_swapped (btf_invalidate_raw_data b) = bo_swapped b"
  "bo_modifiable (btf_invalidate_raw_data b) = bo_modifiable b"
  "bo_raw (btf_invalidate_raw_data b) = None" "bo_raw_swapped (btf_invalidate_raw_data b) = None"
  "bo_named_start_id (btf_invalidate_raw_data b) = 0"
  by (simp_all add: btf_invalidate_raw_data_def btf_free_raw_data_def Let_def)

lemma max_off_less: "BTF_MAX_STR_OFFSET < 2 ^ 31"
  by (simp add: BTF_MAX_STR_OFFSET_def)

lemma ensure_modifiable_ok:
  assumes ok: "own_ok split ts b" and e: "btf_ensure_modifiable env split b = (r, b')"
  shows "case r of
      Inl e \<Rightarrow> (e = ENOMEM \<or> e = EOPNOTSUPP) \<and> b' = b
    | Inr _ \<Rightarrow> own_ok split ts b' \<and> keeps b b' \<and> fresh b' \<and> bo_str_len b' = bo_str_len b \<and>
        (bo_modifiable b \<longrightarrow> bo_types b' = bo_types b)"
proof (cases "bo_modifiable b")
  case True
  then have "r = Inr ()" "b' = btf_invalidate_raw_data b"
    using e by (auto simp: btf_ensure_modifiable_def)
  then show ?thesis
    using ok True
    by (simp add: own_ok_def own_strs_ok_def keeps_def fresh_def strs_bytes_def layout_bytes_def types_mem_def
        btf_strs_data_def layout_mem_def invalidate_fields)
next
  case False
  let ?d = "take (bo_str_len b) (btf_strs_data b)"
  let ?new = "strset__new (be_set env) (be_index env) BTF_MAX_STR_OFFSET (Some ?d)"
  have d: "strs_end ?d" "length ?d = bo_str_len b" "bo_str_len b \<le> 2 ^ 31"
    using ok by (auto simp: own_ok_def own_strs_ok_def strs_bytes_def)
  note n = strset_new_good [OF d(1) _ max_off_less, of "be_set env" "be_index env"]
  show ?thesis
  proof (cases "r")
    case (Inl c)
    then show ?thesis
      using e False n d
      by (auto simp: btf_ensure_modifiable_def Let_def split: if_splits sum.splits)
  next
    case (Inr u)
    then obtain st where st: "?new = Inr st"
      using e False by (auto simp: btf_ensure_modifiable_def Let_def split: if_splits sum.splits)
    have g: "ss_good st" "ss_data st = ?d" "ss_len st = length ?d"
      using n st d(2,3) by simp_all
    define b1 where "b1 = b\<lparr>bo_types := take (bo_type_len b) (types_mem b),
      bo_layout := take (bo_layout_len b) (layout_mem b), bo_strs := st,
      bo_strs_deduped := bo_strs_deduped b \<or> bo_str_len b = 0 \<or> \<not> split \<and> bo_str_len b = 1\<rparr>"
    have b': "b' = (btf_invalidate_raw_data b1)\<lparr>bo_modifiable := True\<rparr>"
      using e False Inr st by (auto simp: btf_ensure_modifiable_def b1_def Let_def split: if_splits)
    have f: "bo_hdr b' = bo_hdr b" "bo_types b' = take (bo_type_len b) (types_mem b)" "bo_strs b' = st"
        "bo_layout b' = layout_bytes b" "bo_type_offs b' = bo_type_offs b" "bo_modifiable b'"
        "bo_start_id b' = bo_start_id b" "bo_start_str_off b' = bo_start_str_off b"
        "bo_ptr_sz b' = bo_ptr_sz b" "bo_swapped b' = bo_swapped b" "fresh b'"
      by (simp_all add: b' invalidate_fields b1_def fresh_def layout_bytes_def)
    have s: "strs_bytes b' = strs_bytes b"
      using g(2) by (simp add: strs_bytes_def btf_strs_data_def f strset__data_def)
    have ly: "layout_bytes b' = layout_bytes b"
      using ok by (simp add: own_ok_def layout_bytes_def layout_mem_def f)
    have ty: "take (length (types_bytes ts)) (types_mem b') = types_bytes ts"
      using ok by (simp add: own_ok_def types_mem_def f)
    have tl: "length (bo_types b') < 2 ^ 32"
      using unat_bound [of "bh_type_len (bo_hdr b)"] by (simp add: f)
    have "own_strs_ok split b'" using ok g d(2) by (simp add: own_ok_def own_strs_ok_def s f(1,3))
    then have "own_ok split ts b'" using ok tl by (simp add: own_ok_def f(1,5) ty ly)
    moreover have "keeps b b'" by (simp add: keeps_def f s ly) (simp add: strs_bytes_def)
    ultimately show ?thesis using Inr f False by simp
  qed
qed

section \<open>Strings\<close>

text \<open>The string at an offset of the object's own strings.\<close>

definition own_string :: "btf_own \<Rightarrow> nat \<Rightarrow> byte list \<Rightarrow> bool" where
  "own_string b k s \<longleftrightarrow>
     (\<exists>off. k = bo_start_str_off b + off \<and> off + length s < bo_str_len b \<and> cstr_at (strs_bytes b) off = s)"

lemma set_strs_fields:
  "bo_modifiable (b\<lparr>bo_strs := st\<rparr>) = bo_modifiable b" "types_mem (b\<lparr>bo_strs := st\<rparr>) = types_mem b"
  "layout_bytes (b\<lparr>bo_strs := st\<rparr>) = layout_bytes b"
  "fresh (b\<lparr>bo_strs := st\<rparr>) = fresh b"
  by (simp_all add: types_mem_def layout_bytes_def layout_mem_def raw_section_def fresh_def)

lemma set_str_len_fields:
  "types_mem (b\<lparr>bo_hdr := (bo_hdr b)\<lparr>bh_str_len := n\<rparr>\<rparr>) = types_mem b"
  "layout_bytes (b\<lparr>bo_hdr := (bo_hdr b)\<lparr>bh_str_len := n\<rparr>\<rparr>) = layout_bytes b"
  "fresh (b\<lparr>bo_hdr := (bo_hdr b)\<lparr>bh_str_len := n\<rparr>\<rparr>) = fresh b"
  by (simp_all add: types_mem_def layout_bytes_def layout_mem_def raw_section_def fresh_def)

lemma hdr_ok_str_len [simp]: "hdr_ok (h\<lparr>bh_str_len := n\<rparr>) = hdr_ok h"
  by (simp add: hdr_ok_def)

text \<open>Replacing the set of strings by one that extends it, with its new length in the header.\<close>

lemma replace_strs:
  assumes "own_ok split ts b" "fresh b" "ss_good st" "bo_str_len b \<le> ss_len st"
    and "take (bo_str_len b) (ss_bytes st) = strs_bytes b" "strs_end (ss_bytes st)"
  defines "b' \<equiv> b\<lparr>bo_strs := st, bo_hdr := (bo_hdr b)\<lparr>bh_str_len := of_nat (ss_len st)\<rparr>\<rparr>"
  shows "own_ok split ts b' \<and> keeps b b' \<and> fresh b' \<and> bo_types b' = bo_types b \<and>
    bo_str_len b' = ss_len st \<and> strs_bytes b' = ss_bytes st"
proof -
  have m: "bo_modifiable b" "bo_modifiable b'" using assms(2) by (simp_all add: fresh_def b'_def)
  have cap: "ss_len st \<le> 2 ^ 31" using assms(3) by (auto simp: ss_good_def ss_inv_def)
  then have len: "bo_str_len b' = ss_len st" by (simp add: b'_def unat_of_nat)
  have sb: "strs_bytes b' = ss_bytes st"
    by (simp add: strs_bytes_def btf_strs_data_def m(2) len) (simp add: b'_def strset__data_def ss_bytes_def)
  have lb: "length (ss_bytes st) = ss_len st"
    using assms(3) length_ss_bytes by (simp add: ss_good_def)
  have first: "\<exists>s. ss_bytes st = 0 # s" if ns: "\<not> split"
  proof -
    obtain s where s: "strs_bytes b = 0 # s" using assms(1) ns by (auto simp: own_ok_def own_strs_ok_def)
    moreover have "bo_str_len b \<noteq> 0" using s assms(5) by (cases "bo_str_len b = 0") auto
    ultimately have "take (bo_str_len b) (ss_bytes st) ! 0 = 0" "bo_str_len b \<noteq> 0"
      using assms(5) by auto
    then have "ss_bytes st ! 0 = 0" "ss_bytes st \<noteq> []" using assms(4) lb by auto
    then show ?thesis by (cases "ss_bytes st") auto
  qed
  have ly: "layout_bytes b' = layout_bytes b" "types_mem b' = types_mem b"
    by (simp_all add: b'_def layout_bytes_def layout_mem_def types_mem_def raw_section_def)
  have "own_strs_ok split b'"
    unfolding own_strs_ok_def sb len using assms(3,6) cap lb first by (simp add: b'_def)
  then have "own_ok split ts b'"
    using assms(1) by (simp add: own_ok_def ly) (simp add: b'_def)
  moreover have "keeps b b'"
    using assms(4,5) by (simp add: keeps_def ly sb len) (simp add: b'_def)
  moreover have "fresh b'" using assms(2) by (simp add: fresh_def b'_def)
  ultimately show ?thesis using sb len by (simp add: b'_def)
qed

lemma cstr_bytes:
  assumes "ss_inv st" "k + length s < ss_len st" "cstr_at (ss_data st) k = s"
  shows "cstr_at (ss_bytes st) k = s"
  using cstr_at_prefix [of k "ss_data st" "ss_len st" "ss_bytes st"] assms
  by (simp add: ss_bytes_def ss_inv_def)

lemma own_add_str_ok:
  assumes ok: "own_ok split ts b" and s: "0 \<notin> set s" and a: "own_add_str env split s b = (r, b')"
  shows "own_ok split ts b' \<and> keeps b b' \<and> (fresh b \<longrightarrow> fresh b' \<and> bo_types b' = bo_types b) \<and>
    (case r of Inl e \<Rightarrow> e = ENOMEM \<or> e = EOPNOTSUPP | Inr k \<Rightarrow> fresh b' \<and> own_string b' k s)"
proof -
  obtain r1 b1 where e1: "btf_ensure_modifiable env split b = (r1, b1)" by fastforce
  note e = ensure_modifiable_ok [OF ok e1]
  show ?thesis
  proof (cases r1)
    case (Inl c)
    then show ?thesis using e e1 a ok by (auto simp: own_add_str_def keeps_refl)
  next
    case (Inr u)
    then have b1: "own_ok split ts b1" "keeps b b1" "fresh b1" "bo_modifiable b \<longrightarrow> bo_types b1 = bo_types b"
      using e by auto
    obtain q st where q: "strset__add_str (be_str env) (bo_strs b1) s = (q, st)" by fastforce
    have g0: "ss_good (bo_strs b1)" "ss_len (bo_strs b1) = bo_str_len b1"
      using b1(1,3) by (auto simp: own_ok_def own_strs_ok_def fresh_def)
    have sb: "ss_bytes (bo_strs b1) = strs_bytes b1"
      using b1(3) g0(2) by (simp add: ss_bytes_def strs_bytes_def btf_strs_data_def strset__data_def fresh_def)
    have se: "strs_end (strs_bytes b1)" using b1(1) by (simp add: own_ok_def own_strs_ok_def)
    note g = add_str_good [OF q g0(1) s]
    let ?b2 = "b1\<lparr>bo_strs := st, bo_hdr := (bo_hdr b1)\<lparr>bh_str_len := of_nat (ss_len st)\<rparr>\<rparr>"
    have r: "own_ok split ts ?b2 \<and> keeps b1 ?b2 \<and> fresh ?b2 \<and> bo_types ?b2 = bo_types b1 \<and>
        bo_str_len ?b2 = ss_len st \<and> strs_bytes ?b2 = ss_bytes st"
      using g g0(2) sb se by (intro replace_strs [OF b1(1,3)]) auto
    have b': "b' = ?b2"
    proof (cases q)
      case (Inl c)
      then have "ss_len st = bo_str_len b1" using g g0(2) by simp
      then have "b1\<lparr>bo_strs := st\<rparr> = ?b2" by simp
      then show ?thesis using a e1 Inr q Inl by (simp add: own_add_str_def)
    next
      case (Inr k)
      then show ?thesis using a e1 \<open>r1 = Inr u\<close> q by (simp add: own_add_str_def strset__data_size_def)
    qed
    have rr: "r = (case q of Inl c \<Rightarrow> Inl c | Inr off \<Rightarrow> Inr (bo_start_str_off b1 + off))"
      using a e1 Inr q by (auto simp: own_add_str_def split: sum.splits)
    have "own_string b' k s" if rk: "r = Inr k" for k
    proof -
      obtain off where off: "q = Inr off" "k = bo_start_str_off b1 + off"
        using rr rk by (auto split: sum.splits)
      have i: "ss_inv st" "off + length s < ss_len st" "cstr_at (ss_data st) off = s"
        using g off(1) g0 by (simp_all add: ss_good_def)
      have "cstr_at (ss_bytes st) off = s" by (rule cstr_bytes [OF i])
      then show ?thesis using r off(2) b' i(2) by (auto simp: own_string_def)
    qed
    moreover have "e = ENOMEM \<or> e = EOPNOTSUPP" if "r = Inl e" for e
      using rr that g by (auto split: sum.splits)
    moreover have "fresh b \<longrightarrow> bo_types b' = bo_types b"
      using b' b1(4) by (simp add: fresh_def)
    ultimately show ?thesis
      using r b' b1(2) keeps_trans by (auto split: sum.splits)
  qed
qed

lemma own_find_str_ok:
  assumes ok: "own_ok split ts b" and s: "0 \<notin> set s" and a: "own_find_str env split s b = (r, b')"
  shows "own_ok split ts b' \<and> keeps b b' \<and> bo_str_len b' = bo_str_len b \<and>
    (case r of Inl e \<Rightarrow> e = ENOMEM \<or> e = EOPNOTSUPP \<or> e = ENOENT | Inr k \<Rightarrow> own_string b' k s)"
proof -
  obtain r1 b1 where e1: "btf_ensure_modifiable env split b = (r1, b1)" by fastforce
  note e = ensure_modifiable_ok [OF ok e1]
  show ?thesis
  proof (cases r1)
    case (Inl c)
    then show ?thesis using e e1 a ok by (auto simp: own_find_str_def keeps_refl)
  next
    case (Inr u)
    then have b1: "own_ok split ts b1" "keeps b b1" "fresh b1" "bo_str_len b1 = bo_str_len b"
      using e by auto
    obtain q st where q: "strset__find_str (be_str env) (bo_strs b1) s = (q, st)" by fastforce
    have g0: "ss_good (bo_strs b1)" "ss_len (bo_strs b1) = bo_str_len b1"
      using b1(1,3) by (auto simp: own_ok_def own_strs_ok_def fresh_def)
    have sb: "ss_bytes (bo_strs b1) = strs_bytes b1"
      using b1(3) g0(2) by (simp add: ss_bytes_def strs_bytes_def btf_strs_data_def strset__data_def fresh_def)
    have se: "strs_end (strs_bytes b1)" using b1(1) by (simp add: own_ok_def own_strs_ok_def)
    note g = find_str_good [OF q g0(1) s]
    let ?b2 = "b1\<lparr>bo_strs := st, bo_hdr := (bo_hdr b1)\<lparr>bh_str_len := of_nat (ss_len st)\<rparr>\<rparr>"
    have lb: "length (ss_bytes st) = bo_str_len b1"
      using g g0 length_ss_bytes by (simp add: ss_good_def)
    have r: "own_ok split ts ?b2 \<and> keeps b1 ?b2 \<and> fresh ?b2 \<and> bo_types ?b2 = bo_types b1 \<and>
        bo_str_len ?b2 = ss_len st \<and> strs_bytes ?b2 = ss_bytes st"
      using g g0(2) sb se lb by (intro replace_strs [OF b1(1,3)]) auto
    have "ss_len st = bo_str_len b1" using g g0(2) by simp
    then have "b1\<lparr>bo_strs := st\<rparr> = ?b2" by simp
    then have b': "b' = ?b2"
      using a e1 Inr q by (auto simp: own_find_str_def split: sum.splits)
    have rr: "r = (case q of Inl c \<Rightarrow> Inl c | Inr off \<Rightarrow> Inr (bo_start_str_off b1 + off))"
      using a e1 Inr q by (auto simp: own_find_str_def split: sum.splits)
    have "own_string b' k s" if rk: "r = Inr k" for k
    proof -
      obtain off where off: "q = Inr off" "k = bo_start_str_off b1 + off"
        using rr rk by (auto split: sum.splits)
      have i: "ss_inv st" "off + length s < ss_len st" "cstr_at (ss_data st) off = s"
        using g off(1) g0 by (simp_all add: ss_good_def)
      have "cstr_at (ss_bytes st) off = s" by (rule cstr_bytes [OF i])
      then show ?thesis using r off(2) b' i(2) by (auto simp: own_string_def)
    qed
    moreover have "e = ENOMEM \<or> e = EOPNOTSUPP \<or> e = ENOENT" if "r = Inl e" for e
      using rr that g by (auto split: sum.splits)
    moreover have "bo_str_len b' = bo_str_len b" using r b' b1(4) g g0(2) by simp
    ultimately show ?thesis
      using r b' b1(2) keeps_trans by (auto split: sum.splits)
  qed
qed

end
