(* ===== verification/Btf_Build_Steps.thy ===== *)
theory Btf_Build_Steps
  imports Btf_Build_Ok
begin

text \<open>
  The type memory during an operation of the builder: reserving, filling in a type or an element,
  changing the info word of the last type, and the lengths in the header.
\<close>

section \<open>Memory\<close>

lemma put_bytes_append:
  "length pre = p \<Longrightarrow> length bs = length old \<Longrightarrow> put_bytes p bs (pre @ old @ post) = pre @ bs @ post"
  by (simp add: put_bytes_def)

lemma length_put_bytes: "p + length bs \<le> length data \<Longrightarrow> length (put_bytes p bs data) = length data"
  by (simp add: put_bytes_def)

text \<open>The type memory begins with the bytes of the types.\<close>

lemma types_mem_prefix:
  assumes "own_ok split ts b" "fresh b"
  obtains post where "bo_types b = types_bytes ts @ post"
proof
  have "take (length (types_bytes ts)) (bo_types b) = types_bytes ts"
    using assms by (simp add: own_ok_def types_mem_def fresh_def)
  then show "bo_types b = types_bytes ts @ drop (length (types_bytes ts)) (bo_types b)"
    by (metis append_take_drop_id)
qed

text \<open>Changes of the type memory keep everything else.\<close>

definition grows :: "btf_own \<Rightarrow> btf_own \<Rightarrow> bool" where
  "grows b b' \<longleftrightarrow>
     bo_start_id b' = bo_start_id b \<and> bo_start_str_off b' = bo_start_str_off b \<and>
     bo_ptr_sz b' = bo_ptr_sz b \<and> bo_swapped b' = bo_swapped b \<and> layout_bytes b' = layout_bytes b \<and>
     bo_str_len b \<le> bo_str_len b' \<and> take (bo_str_len b) (strs_bytes b') = strs_bytes b"

lemma keeps_grows: "keeps b b' \<Longrightarrow> grows b b'"
  by (simp add: keeps_def grows_def)

lemma grows_trans:
  assumes "grows a b" "grows b c"
  shows "grows a c"
proof -
  have "take (bo_str_len a) (strs_bytes c) = take (bo_str_len a) (take (bo_str_len b) (strs_bytes c))"
    using assms(1) by (simp add: grows_def)
  also have "\<dots> = strs_bytes a" using assms by (simp add: grows_def)
  finally show ?thesis using assms by (simp add: grows_def)
qed

lemma set_types_fields:
  "strs_bytes (b\<lparr>bo_types := m\<rparr>) = strs_bytes b" "layout_bytes (b\<lparr>bo_types := m\<rparr>) = layout_bytes b"
  "fresh (b\<lparr>bo_types := m\<rparr>) = fresh b" "own_strs_ok split (b\<lparr>bo_types := m\<rparr>) = own_strs_ok split b"
  "keeps b (b\<lparr>bo_types := m\<rparr>)"
  by (simp_all add: strs_bytes_def layout_bytes_def layout_mem_def btf_strs_data_def raw_section_def
      fresh_def own_strs_ok_def keeps_def)

lemma add_type_mem_ok:
  assumes ok: "own_ok split ts b" "fresh b" and a: "btf_add_type_mem env sz b = (r, b')"
  shows "own_ok split ts b' \<and> keeps b b' \<and> fresh b' \<and>
    (case r of Inl e \<Rightarrow> e = ENOMEM
     | Inr p \<Rightarrow> p = bo_type_len b \<and> bo_type_len b + sz \<le> length (bo_types b'))"
proof (cases "btf_add_type_mem env sz b")
  case (Pair q c)
  let ?n = "bo_type_len b"
  have m: "bo_modifiable b" using ok(2) by (simp add: fresh_def)
  then have l: "length (bo_types b) < 2 ^ 32" using ok(1) by (simp add: own_ok_def)
  show ?thesis
  proof (cases r)
    case (Inl e)
    then have "b' = b" "e = ENOMEM"
      using a by (auto simp: btf_add_type_mem_def split: option.splits)
    then show ?thesis using ok Inl keeps_refl by simp
  next
    case (Inr p)
    have tk: "types_bytes ts = take (length (types_bytes ts)) (bo_types b)" "?n = length (types_bytes ts)"
      using ok m by (simp_all add: own_ok_def types_mem_def)
    then have le: "?n \<le> length (bo_types b)" by (metis length_take min.absorb_iff2 min.commute)
    obtain k where b': "b' = b\<lparr>bo_types := bo_types b @ replicate k 0\<rparr>"
      and p: "p = ?n" "?n + sz \<le> length (bo_types b) + k" "length (bo_types b) + k < 2 ^ 32"
    proof (cases "?n + sz \<le> length (bo_types b)")
      case True
      then have "b' = b" "p = ?n"
        using a Inr by (auto simp: btf_add_type_mem_def libbpf_add_mem_def)
      then show ?thesis using that [of 0] True l by simp
    next
      case False
      define n where "n = add_mem_cnt (length (bo_types b)) ?n (unat UINT32_MAX) sz"
      have lim: "?n + sz \<le> unat UINT32_MAX" "p = ?n"
          "b' = b\<lparr>bo_types := bo_types b @ replicate (n - length (bo_types b)) 0\<rparr>"
        using a Inr False
        by (auto simp: btf_add_type_mem_def libbpf_add_mem_def n_def Let_def split: if_splits)
      have n: "?n + sz \<le> n" "n \<le> unat UINT32_MAX"
        using lim(1) by (auto simp: n_def add_mem_cnt_def Let_def)
      then have "length (bo_types b) \<le> n" "n < 2 ^ 32" using False unat_bound [of UINT32_MAX] by auto
      then show ?thesis using that [of "n - length (bo_types b)"] lim n by simp
    qed
    have "take (length (types_bytes ts)) (bo_types b') = types_bytes ts"
      using tk le by (simp add: b')
    then have "own_ok split ts b'"
      using ok(1) p(3) m by (simp add: own_ok_def set_types_fields b' types_mem_def)
    then show ?thesis
      using Inr p(1,2) ok(2) by (simp add: b' set_types_fields)
  qed
qed

section \<open>Lengths\<close>

lemma update_type_len_fields:
  "bo_types (btf_hdr_update_type_len n b) = bo_types b" "bo_strs (btf_hdr_update_type_len n b) = bo_strs b"
  "bo_type_offs (btf_hdr_update_type_len n b) = bo_type_offs b"
  "bo_modifiable (btf_hdr_update_type_len n b) = bo_modifiable b"
  "bo_layout (btf_hdr_update_type_len n b) = bo_layout b"
  "bo_start_id (btf_hdr_update_type_len n b) = bo_start_id b"
  "bo_start_str_off (btf_hdr_update_type_len n b) = bo_start_str_off b"
  "bo_ptr_sz (btf_hdr_update_type_len n b) = bo_ptr_sz b" "bo_swapped (btf_hdr_update_type_len n b) = bo_swapped b"
  "bh_type_len (bo_hdr (btf_hdr_update_type_len n b)) = n"
  "bh_str_len (bo_hdr (btf_hdr_update_type_len n b)) = bh_str_len (bo_hdr b)"
  "bh_layout_len (bo_hdr (btf_hdr_update_type_len n b)) = bh_layout_len (bo_hdr b)"
  "fresh (btf_hdr_update_type_len n b) = fresh b"
  by (simp_all add: btf_hdr_update_type_len_def Let_def fresh_def)

lemma update_type_len_hdr: "hdr_ok (bo_hdr b) \<Longrightarrow> hdr_ok (bo_hdr (btf_hdr_update_type_len n b))"
  by (auto simp: hdr_ok_def btf_hdr_update_type_len_def Let_def unat_eq_0)

text \<open>
  The types in memory become the object's types: \<open>b\<close> is an object whose memory begins with the bytes
  of \<open>us\<close> and whose index is that of \<open>us\<close>.
\<close>

lemma commit_memory:
  assumes "fresh b" "bo_types b = types_bytes us @ post" "length (bo_types b) < 2 ^ 32"
    and "bo_type_offs b = offs_of 0 us" "known_types us" "hdr_ok (bo_hdr b)" "own_strs_ok split b"
    and "length (layout_bytes b) = bo_layout_len b" "unat n = length (types_bytes us)"
  defines "b' \<equiv> btf_hdr_update_type_len n b"
  shows "own_ok split us b' \<and> grows b b' \<and> fresh b'"
proof -
  have m: "bo_modifiable b" using assms(1) by (simp add: fresh_def)
  have s: "strs_bytes b' = strs_bytes b" "layout_bytes b' = layout_bytes b" "bo_str_len b' = bo_str_len b"
    using m by (simp_all add: b'_def strs_bytes_def btf_strs_data_def layout_bytes_def layout_mem_def
        update_type_len_fields)
  have "own_strs_ok split b'" using assms(7) by (simp add: own_strs_ok_def s) (simp add: b'_def update_type_len_fields)
  moreover have "types_mem b' = types_bytes us @ post"
    using m assms(2) by (simp add: b'_def types_mem_def update_type_len_fields)
  ultimately have "own_ok split us b'"
    using assms(1-9) by (simp add: own_ok_def s) (simp add: b'_def update_type_len_fields update_type_len_hdr)
  moreover have "grows b b'"
    by (simp add: grows_def s) (simp add: b'_def update_type_len_fields strs_bytes_def)
  ultimately show ?thesis using assms(1) by (simp add: b'_def update_type_len_fields)
qed

section \<open>A new type\<close>

lemma known_types_append: "known_types (ts @ us) \<longleftrightarrow> known_types ts \<and> known_types us"
  by (auto simp: known_types_def)

text \<open>Storing words after the types.\<close>

lemma store_after_types:
  assumes "own_ok split ts b" "fresh b" "bo_type_len b + 4 * length ws \<le> length (bo_types b)"
  obtains post where
    "store_words (bo_type_len b) ws b = b\<lparr>bo_types := types_bytes ts @ words_le ws @ post\<rparr>"
    "length (types_bytes ts @ words_le ws @ post) < 2 ^ 32"
proof -
  obtain post where p: "bo_types b = types_bytes ts @ post" using types_mem_prefix [OF assms(1,2)] .
  have n: "bo_type_len b = length (types_bytes ts)" using assms(1) by (simp add: own_ok_def)
  have l: "length (take (4 * length ws) post) = length (words_le ws)" using assms(3) p n by simp
  have "put_bytes (bo_type_len b) (words_le ws) (types_bytes ts @ take (4 * length ws) post @ drop (4 * length ws) post) =
      types_bytes ts @ words_le ws @ drop (4 * length ws) post"
    using n l by (intro put_bytes_append) simp_all
  then have "store_words (bo_type_len b) ws b =
      b\<lparr>bo_types := types_bytes ts @ words_le ws @ drop (4 * length ws) post\<rparr>"
    using p by (simp add: store_words_def)
  moreover have "length (types_bytes ts @ words_le ws @ drop (4 * length ws) post) = length (bo_types b)"
    using l p by simp
  moreover have "length (bo_types b) < 2 ^ 32" using assms(1,2) by (simp add: own_ok_def fresh_def)
  ultimately show ?thesis using that by metis
qed

lemma word_add_exact: "unat (a :: u32) + n < 2 ^ 32 \<Longrightarrow> unat (a + of_nat n) = unat a + n"
  by (simp add: unat_word_ariths unat_of_nat)

lemma fill_type_ok:
  assumes ok: "own_ok split ts b" "fresh b" and room: "bo_type_len b + 4 * length ws \<le> length (bo_types b)"
    and t: "ws = type_words t" "rest_words t = Some (length (bt_words t))"
    and c: "btf_commit_type env (4 * length ws) (store_words (bo_type_len b) ws b) = (r, b')"
  shows "case r of
      Inl e \<Rightarrow> e = ENOMEM \<and> own_ok split ts b' \<and> grows b b'
    | Inr k \<Rightarrow> own_ok split (ts @ [t]) b' \<and> grows b b' \<and> fresh b' \<and> k = bo_start_id b + length ts"
proof -
  obtain post where s: "store_words (bo_type_len b) ws b = b\<lparr>bo_types := types_bytes ts @ words_le ws @ post\<rparr>"
      "length (types_bytes ts @ words_le ws @ post) < 2 ^ 32"
    using store_after_types [OF ok room] .
  define b1 where "b1 = b\<lparr>bo_types := types_bytes ts @ words_le ws @ post\<rparr>"
  have n: "bo_type_len b = length (types_bytes ts)" using ok(1) by (simp add: own_ok_def)
  have m: "bo_modifiable b" using ok(2) by (simp add: fresh_def)
  obtain r1 b2 where i: "btf_add_type_idx env (bo_type_len b) b1 = (r1, b2)" by fastforce
  have c1: "andthen (r1, b2) (\<lambda>_ b.
       let b = btf_hdr_update_type_len (bh_type_len (bo_hdr b) + of_nat (4 * length ws)) b
       in (Inr (bo_start_id b + length (bo_type_offs b) - 1), b)) = (r, b')"
    using c i unfolding s(1) b1_def [symmetric] btf_commit_type_def by (simp add: b1_def)
  show ?thesis
  proof (cases r1)
    case (Inl e)
    then have "e = ENOMEM" "b2 = b1"
      using i by (auto simp: btf_add_type_idx_def Let_def split: if_splits)
    moreover have "own_ok split ts b1"
      using ok(1) m s(2) by (simp add: own_ok_def b1_def set_types_fields types_mem_def)
    moreover have "grows b b1" using keeps_grows set_types_fields(5) by (simp add: b1_def)
    ultimately show ?thesis using c1 Inl by auto
  next
    case (Inr u)
    obtain cap where b2: "b2 = b1\<lparr>bo_type_offs := bo_type_offs b @ [bo_type_len b], bo_type_offs_cap := cap\<rparr>"
    proof (cases "length (bo_type_offs b1) + 1 \<le> bo_type_offs_cap b1")
      case True
      then show ?thesis
        using i that [of "bo_type_offs_cap b1"] by (cases b) (auto simp: btf_add_type_idx_def b1_def)
    next
      case False
      then show ?thesis
        using i Inr that [of "add_mem_cnt (bo_type_offs_cap b1) (length (bo_type_offs b1)) BTF_MAX_NR_TYPES 1"]
        by (auto simp: btf_add_type_idx_def b1_def Let_def split: if_splits)
    qed
    let ?n = "bh_type_len (bo_hdr b) + of_nat (4 * length ws)"
    have un: "unat ?n = length (types_bytes (ts @ [t]))"
      using word_add_exact [of "bh_type_len (bo_hdr b)" "4 * length ws"] s(2) n t(1)
      by (simp add: type_bytes_def)
    have r: "r = Inr (bo_start_id b + length ts)" "b' = btf_hdr_update_type_len ?n b2"
      using c1 Inr ok(1) by (simp_all add: b2 b1_def Let_def update_type_len_fields own_ok_def)
    have f: "strs_bytes b2 = strs_bytes b" "layout_bytes b2 = layout_bytes b" "own_strs_ok split b2 = own_strs_ok split b"
        "fresh b2" "grows b b2"
      using ok(2)
      by (simp_all add: b2 b1_def strs_bytes_def layout_bytes_def layout_mem_def btf_strs_data_def raw_section_def
          fresh_def own_strs_ok_def grows_def)
    have "own_ok split (ts @ [t]) (btf_hdr_update_type_len ?n b2) \<and> grows b2 (btf_hdr_update_type_len ?n b2) \<and>
        fresh (btf_hdr_update_type_len ?n b2)"
    proof (rule commit_memory)
      show "bo_types b2 = types_bytes (ts @ [t]) @ post" by (simp add: b2 b1_def type_bytes_def t(1))
      show "length (bo_types b2) < 2 ^ 32" using s(2) by (simp add: b2 b1_def)
      show "bo_type_offs b2 = offs_of 0 (ts @ [t])"
        using ok(1) n by (simp add: b2 own_ok_def offs_of_append)
      show "known_types (ts @ [t])" using ok(1) t(2) by (simp add: own_ok_def known_types_def)
      show "hdr_ok (bo_hdr b2)" using ok(1) by (simp add: b2 b1_def own_ok_def)
      show "own_strs_ok split b2" using ok(1) f(3) by (simp add: own_ok_def)
      show "length (layout_bytes b2) = bo_layout_len b2" using ok(1) f(2) by (simp add: own_ok_def b2 b1_def)
    qed (use f(4) un in simp_all)
    then show ?thesis using r f(5) grows_trans by auto
  qed
qed

section \<open>A new element of the last type\<close>

text \<open>An update of the info word of the type at an offset.\<close>

definition sets_info :: "(nat \<Rightarrow> btf_own \<Rightarrow> btf_own) \<Rightarrow> (btf_type \<Rightarrow> u32) \<Rightarrow> bool" where
  "sets_info upd f \<longleftrightarrow>
     (\<forall>q b t pre post. bo_modifiable b \<longrightarrow> bo_types b = pre @ type_bytes t @ post \<longrightarrow> length pre = q \<longrightarrow>
        upd q b = b\<lparr>bo_types := pre @ type_bytes (t\<lparr>bt_info := f t\<rparr>) @ post\<rparr>)"

lemma sets_infoD:
  "sets_info upd f \<Longrightarrow> bo_modifiable b \<Longrightarrow> bo_types b = pre @ type_bytes t @ post \<Longrightarrow> length pre = q \<Longrightarrow>
     upd q b = b\<lparr>bo_types := pre @ type_bytes (t\<lparr>bt_info := f t\<rparr>) @ post\<rparr>"
  by (auto simp: sets_info_def)

lemma set_info_bytes:
  assumes "bo_types b = pre @ type_bytes t @ post" "length pre = q"
  shows "set_info q info b = b\<lparr>bo_types := pre @ type_bytes (t\<lparr>bt_info := info\<rparr>) @ post\<rparr>"
proof -
  have "put_bytes (q + 4) (u32_le info) ((pre @ u32_le (bt_name_off t)) @ u32_le (bt_info t) @
      (words_le (bt_union t # bt_words t) @ post)) =
    (pre @ u32_le (bt_name_off t)) @ u32_le info @ (words_le (bt_union t # bt_words t) @ post)"
    using assms(2) by (intro put_bytes_append) simp_all
  then show ?thesis
    using assms(1) by (simp add: set_info_def store_words_def type_bytes_def type_words_def)
qed

lemma own_type_bytes:
  assumes "bo_modifiable b" "bo_types b = pre @ type_bytes t @ post" "length pre = q"
  shows "own_type q b = t\<lparr>bt_words := []\<rparr>"
  using type_header_bytes [OF assms(3), of t post] assms(1,2)
  by (simp add: own_type_def types_mem_def sizeof_btf_type_def)

lemma info_of_words:
  "btf_kind (t\<lparr>bt_words := ws\<rparr>) = btf_kind t" "btf_vlen (t\<lparr>bt_words := ws\<rparr>) = btf_vlen t"
  "btf_kflag (t\<lparr>bt_words := ws\<rparr>) = btf_kflag t"
  by (simp_all add: btf_kind_def btf_vlen_def btf_kflag_def)

lemma inc_vlen_sets_info:
  "sets_info btf_type_inc_vlen (\<lambda>t. btf_type_info (btf_kind t) (btf_vlen t + 1) (btf_kflag t))"
  by (simp add: sets_info_def btf_type_inc_vlen_def own_type_bytes set_info_bytes info_of_words Let_def)

lemma field_sets_info:
  "sets_info (field_info flag) (\<lambda>t. btf_type_info (btf_kind t) (btf_vlen t + 1) (flag \<or> btf_kflag t))"
  by (simp add: sets_info_def field_info_def own_type_bytes set_info_bytes info_of_words Let_def)

lemma enum_sets_info:
  "sets_info (enum_info negative) (\<lambda>t.
     let info = btf_type_info (btf_kind t) (btf_vlen t + 1) (btf_kflag t); u = t\<lparr>bt_info := info\<rparr>
     in if negative then btf_type_info (btf_kind u) (btf_vlen u) True else info)"
  unfolding sets_info_def
proof (intro allI impI)
  fix q t pre post and b :: btf_own
  assume a: "bo_modifiable b" "bo_types b = pre @ type_bytes t @ post" "length pre = q"
  let ?info = "btf_type_info (btf_kind t) (btf_vlen t + 1) (btf_kflag t)"
  let ?b1 = "b\<lparr>bo_types := pre @ type_bytes (t\<lparr>bt_info := ?info\<rparr>) @ post\<rparr>"
  have 1: "btf_type_inc_vlen q b = ?b1" by (rule sets_infoD [OF inc_vlen_sets_info a])
  have 2: "own_type q ?b1 = t\<lparr>bt_info := ?info, bt_words := []\<rparr>"
    using own_type_bytes [of ?b1 pre "t\<lparr>bt_info := ?info\<rparr>" post q] a(1,3) by simp
  have 3: "set_info q i ?b1 = b\<lparr>bo_types := pre @ type_bytes (t\<lparr>bt_info := i\<rparr>) @ post\<rparr>" for i
    using set_info_bytes [of ?b1 pre "t\<lparr>bt_info := ?info\<rparr>" post q i] a(3) by simp
  show "enum_info negative q b = b\<lparr>bo_types := pre @ type_bytes (t\<lparr>bt_info :=
      (let info = ?info; u = t\<lparr>bt_info := info\<rparr>
       in if negative then btf_type_info (btf_kind u) (btf_vlen u) True else info)\<rparr>) @ post\<rparr>"
    unfolding enum_info_def Let_def 1 2 3 info_of_words by (cases negative) (simp_all only: if_True if_False)
qed

text \<open>
  The element's words are appended to the last type, its info word updated, and the memory
  accounted for.
\<close>

lemma fill_elem_ok:
  assumes ok: "own_ok split (us @ [t]) b" "fresh b"
    and room: "bo_type_len b + 4 * length ws \<le> length (bo_types b)"
    and t': "t' = t\<lparr>bt_info := f t, bt_words := bt_words t @ ws\<rparr>" "rest_words t' = Some (length (bt_words t'))"
    and upd: "sets_info upd f" "\<And>ws'. f (t\<lparr>bt_words := ws'\<rparr>) = f t"
    and r: "fill_elem (bo_type_len b) ws upd (b, bs) = (r, x')"
  shows "\<exists>b'. x' = (b', bs) \<and> r = Inr 0 \<and> own_ok split (us @ [t']) b' \<and> grows b b' \<and> fresh b'"
proof -
  obtain post where s: "store_words (bo_type_len b) ws b =
      b\<lparr>bo_types := types_bytes (us @ [t]) @ words_le ws @ post\<rparr>"
      "length (types_bytes (us @ [t]) @ words_le ws @ post) < 2 ^ 32"
    using store_after_types [OF ok room] .
  define b1 where "b1 = b\<lparr>bo_types := types_bytes (us @ [t]) @ words_le ws @ post\<rparr>"
  let ?u = "t\<lparr>bt_words := bt_words t @ ws\<rparr>"
  have m: "bo_modifiable b1" using ok(2) by (simp add: b1_def fresh_def)
  have mem: "bo_types b1 = types_bytes us @ type_bytes ?u @ post"
    by (simp add: b1_def type_bytes_def type_words_def words_le_append)
  have n: "bo_type_len b = length (types_bytes (us @ [t]))" using ok(1) by (simp add: own_ok_def)
  have q: "length (types_bytes us) = btf_last_off b1"
    using ok(1) by (simp add: btf_last_off_def b1_def own_ok_def offs_of_append nth_append)
  have u: "upd (btf_last_off b1) b1 = b1\<lparr>bo_types := types_bytes (us @ [t']) @ post\<rparr>"
  proof -
    have "?u\<lparr>bt_info := f ?u\<rparr> = t'" using upd(2) [of "bt_words t @ ws"] by (simp add: t'(1))
    then show ?thesis using sets_infoD [OF upd(1) m mem q] by simp
  qed
  define b2 where "b2 = b1\<lparr>bo_types := types_bytes (us @ [t']) @ post\<rparr>"
  let ?n = "bh_type_len (bo_hdr b) + of_nat (4 * length ws)"
  have x: "x' = (btf_hdr_update_type_len ?n b2, bs)" "r = Inr 0"
    using r u by (simp_all add: fill_elem_def s(1) b1_def [symmetric] b2_def [symmetric] Let_def)
      (simp_all add: b2_def b1_def)
  have lt: "length (types_bytes (us @ [t'])) = length (types_bytes (us @ [t])) + 4 * length ws"
    by (simp add: length_type_bytes t'(1))
  have un: "unat ?n = length (types_bytes (us @ [t']))"
    using word_add_exact [of "bh_type_len (bo_hdr b)" "4 * length ws"] s(2) n lt by simp
  have f2: "strs_bytes b2 = strs_bytes b" "layout_bytes b2 = layout_bytes b" "own_strs_ok split b2 = own_strs_ok split b"
      "fresh b2" "grows b b2"
    using ok(2)
    by (simp_all add: b2_def b1_def strs_bytes_def layout_bytes_def layout_mem_def btf_strs_data_def raw_section_def
        fresh_def own_strs_ok_def grows_def)
  have "own_ok split (us @ [t']) (btf_hdr_update_type_len ?n b2) \<and> grows b2 (btf_hdr_update_type_len ?n b2) \<and>
      fresh (btf_hdr_update_type_len ?n b2)"
  proof (rule commit_memory)
    show "bo_types b2 = types_bytes (us @ [t']) @ post" by (simp add: b2_def)
    show "length (bo_types b2) < 2 ^ 32" using s(2) lt by (simp add: b2_def)
    show "bo_type_offs b2 = offs_of 0 (us @ [t'])"
      using ok(1) by (simp add: b2_def b1_def own_ok_def offs_of_append)
    show "known_types (us @ [t'])" using ok(1) t'(2) by (simp add: own_ok_def known_types_def)
    show "hdr_ok (bo_hdr b2)" using ok(1) by (simp add: b2_def b1_def own_ok_def)
    show "own_strs_ok split b2" using ok(1) f2(3) by (simp add: own_ok_def)
    show "length (layout_bytes b2) = bo_layout_len b2" using ok(1) f2(2) by (simp add: own_ok_def b2_def b1_def)
  qed (use f2(4) un in simp_all)
  then show ?thesis using x f2(5) grows_trans by blast
qed

end
