(* ===== verification/Btf_Build_Chain.thy ===== *)
theory Btf_Build_Chain
  imports Btf_Build_Steps
begin

text \<open>
  An object and its bases: the invariant of the list, names as offsets into all the strings, and
  what the shared steps of the builder do to it.
\<close>

section \<open>The list of objects\<close>

definition own_types :: "btf_own \<Rightarrow> btf_type list" where
  "own_types b = types_of (bo_type_offs b) (bo_type_len b) (types_mem b)"

lemma own_types_ok: "own_ok split ts b \<Longrightarrow> own_types b = ts"
  using types_of_bytes [of ts "drop (length (types_bytes ts)) (types_mem b)"]
    append_take_drop_id [of "length (types_bytes ts)" "types_mem b"]
  by (simp add: own_types_def own_ok_def)

fun chain_ok :: "btf_own list \<Rightarrow> bool" where
  "chain_ok [] \<longleftrightarrow> True"
| "chain_ok (b # bs) \<longleftrightarrow>
     own_ok (bs \<noteq> []) (own_types b) b \<and> bo_start_str_off b < 2 ^ 31 \<and>
     (case bs of
        [] \<Rightarrow> bo_start_id b = 1 \<and> bo_start_str_off b = 0
      | c # _ \<Rightarrow> bo_start_id b = bo_start_id c + length (bo_type_offs c) \<and>
          bo_start_str_off b = bo_start_str_off c + bo_str_len c) \<and>
     chain_ok bs"

definition obj_ok :: "btf_obj \<Rightarrow> bool" where
  "obj_ok x \<longleftrightarrow> chain_ok (fst x # snd x)"

definition obj_types :: "btf_obj \<Rightarrow> btf_type list" where
  "obj_types x = btf_types (obj_btf x)"

lemma obj_types_own: "obj_types x = own_types (fst x)"
  by (simp add: obj_types_def obj_btf_def own_btf_def own_types_def)

section \<open>Names\<close>

definition obj_name :: "btf_obj \<Rightarrow> nat \<Rightarrow> string option" where
  "obj_name x k = str_by_offset (obj_btf x) k"

fun bases_name :: "btf_own list \<Rightarrow> nat \<Rightarrow> string option" where
  "bases_name [] k = None"
| "bases_name (b # bs) k =
     (if k < bo_start_str_off b then bases_name bs k
      else if k - bo_start_str_off b < length (strs_bytes b)
      then Some (chars_of (cstr_at (strs_bytes b) (k - bo_start_str_off b)))
      else None)"

lemma char_zero_iff: "char_of (unat (b :: byte)) = CHR 0x00 \<longleftrightarrow> b = 0"
proof
  assume "char_of (unat b) = CHR 0x00"
  then have "(of_char (char_of (unat b) :: char) :: nat) = of_char (CHR 0x00)" by simp
  then have "unat b mod 256 = 0" by simp
  moreover have "unat b < 256" using unat_bound [of b] by simp
  ultimately show "b = 0" by (simp add: unat_eq_0)
next
  show "b = 0 \<Longrightarrow> char_of (unat b) = CHR 0x00"
    by (simp add: char_of_def)
qed

lemma length_chars_of [simp]: "length (chars_of bs) = length bs"
  by (simp add: chars_of_def)

lemma chars_of_cstr: "takeWhile (\<lambda>c. c \<noteq> CHR 0x00) (drop k (chars_of bs)) = chars_of (cstr_at bs k)"
  by (simp add: chars_of_def cstr_at_def drop_map takeWhile_map comp_def char_zero_iff)

lemma bases_name_btf:
  "bases_name (b # bs) k = str_by_offset (own_btf b (bases_btf bs)) k"
proof (induction bs arbitrary: b)
  case Nil
  then show ?case by (simp add: own_btf_def chars_of_cstr strs_bytes_def)
next
  case (Cons c bs)
  show ?case
    using Cons.IH [of c]
    by (simp add: own_btf_def [of b] chars_of_cstr strs_bytes_def)
qed

lemma obj_name_bases: "obj_name x k = bases_name (fst x # snd x) k"
  using bases_name_btf [of "fst x" "snd x"] by (simp add: obj_name_def obj_btf_def)

text \<open>The objects below are the same but for their caches and the room for strings.\<close>

definition same_own :: "btf_own \<Rightarrow> btf_own \<Rightarrow> bool" where
  "same_own b b' \<longleftrightarrow> keeps b b' \<and> bo_str_len b' = bo_str_len b \<and> own_types b' = own_types b"

definition same_bases :: "btf_own list \<Rightarrow> btf_own list \<Rightarrow> bool" where
  "same_bases bs bs' \<longleftrightarrow> list_all2 same_own bs bs'"

lemma same_own_strs:
  assumes "same_own b b'"
  shows "strs_bytes b' = strs_bytes b" "bo_start_str_off b' = bo_start_str_off b"
    "bo_start_id b' = bo_start_id b" "bo_type_offs b' = bo_type_offs b"
  using assms by (auto simp: same_own_def keeps_def strs_bytes_def)

lemma same_bases_refl: "same_bases bs bs"
  by (simp add: same_bases_def list_all2_refl same_own_def keeps_refl)

lemma same_bases_name: "same_bases bs bs' \<Longrightarrow> bases_name bs' k = bases_name bs k"
proof (induction bs arbitrary: bs')
  case Nil
  then show ?case by (simp add: same_bases_def)
next
  case (Cons b bs)
  then obtain b' cs where "bs' = b' # cs" "same_own b b'" "same_bases bs cs"
    by (auto simp: same_bases_def list_all2_Cons1)
  then show ?case using Cons.IH [of cs] same_own_strs [of b b'] by simp
qed

lemma chain_cong:
  assumes "chain_ok (b # bs)" "same_bases bs bs'" "chain_ok bs'"
  shows "chain_ok (b # bs')"
proof (cases bs)
  case Nil
  then show ?thesis using assms by (simp add: same_bases_def)
next
  case (Cons c cs)
  then obtain c' cs' where "bs' = c' # cs'" "same_own c c'"
    using assms(2) by (auto simp: same_bases_def list_all2_Cons1)
  then show ?thesis using assms Cons same_own_strs [of c c'] by (simp add: same_own_def)
qed

text \<open>A string of the head object is found by its offset; the names already there stay.\<close>

lemma own_string_name:
  assumes "own_ok split ts b" "own_string b k s"
  shows "bases_name (b # bs) k = Some (chars_of s)" "k < bo_start_str_off b + bo_str_len b"
proof -
  obtain off where "k = bo_start_str_off b + off" "off + length s < bo_str_len b" "cstr_at (strs_bytes b) off = s"
    using assms(2) by (auto simp: own_string_def)
  moreover have "length (strs_bytes b) = bo_str_len b" using assms(1) by (simp add: own_ok_def own_strs_ok_def)
  ultimately show "bases_name (b # bs) k = Some (chars_of s)" "k < bo_start_str_off b + bo_str_len b" by simp_all
qed

lemma grows_names:
  assumes "own_ok split ts b" "own_ok split' ts' b'" "grows b b'" "same_bases bs bs'"
    and "bases_name (b # bs) k = Some s"
  shows "bases_name (b' # bs') k = Some s"
proof -
  have so: "bo_start_str_off b' = bo_start_str_off b" using assms(3) by (simp add: grows_def)
  have l: "length (strs_bytes b) = bo_str_len b" "length (strs_bytes b') = bo_str_len b'"
      "bo_str_len b \<le> bo_str_len b'" "take (bo_str_len b) (strs_bytes b') = strs_bytes b"
    using assms(1,2,3) by (simp_all add: own_ok_def own_strs_ok_def grows_def)
  show ?thesis
  proof (cases "k < bo_start_str_off b")
    case True
    then show ?thesis using assms(5) so same_bases_name [OF assms(4)] by simp
  next
    case False
    let ?k = "k - bo_start_str_off b"
    have k: "?k < bo_str_len b" "s = chars_of (cstr_at (strs_bytes b) ?k)"
      using assms(5) False l(1) by (auto split: if_splits)
    have "strs_end (strs_bytes b)" using assms(1) by (simp add: own_ok_def own_strs_ok_def)
    then have in': "?k + length (cstr_at (strs_bytes b) ?k) < bo_str_len b"
      using strs_end_inside [of "strs_bytes b" ?k] k(1) l(1) by simp
    have tk: "take (bo_str_len b) (strs_bytes b') = take (bo_str_len b) (strs_bytes b)"
      using l(1,4) by simp
    have "cstr_at (strs_bytes b') ?k = cstr_at (strs_bytes b) ?k"
      by (rule cstr_at_prefix [OF in' _ tk]) (use l(1) in simp)
    then show ?thesis using False k l(2,3) so by simp
  qed
qed

section \<open>Strings\<close>

lemma find_str_bases_ok:
  assumes "chain_ok bs" "0 \<notin> set s" "find_str_bases env s bs = (r, bs')"
  shows "chain_ok bs' \<and> same_bases bs bs' \<and>
    (case r of
       Inl e \<Rightarrow> e = ENOMEM \<or> e = EOPNOTSUPP \<or> e = ENOENT
     | Inr k \<Rightarrow> bs \<noteq> [] \<and> bases_name bs' k = Some (chars_of s) \<and>
         k < bo_start_str_off (hd bs) + bo_str_len (hd bs))"
  using assms
proof (induction bs arbitrary: env r bs')
  case Nil
  then show ?case by (auto simp: same_bases_def)
next
  case (Cons b bs)
  obtain r1 cs where f: "find_str_bases (\<lambda>i. env (Suc i)) s bs = (r1, cs)" by fastforce
  have ch: "chain_ok bs" and ob: "own_ok (bs \<noteq> []) (own_types b) b" using Cons.prems(1) by simp_all
  note ih = Cons.IH [OF ch Cons.prems(2) f]
  have bcs: "chain_ok (b # cs)" using chain_cong [OF Cons.prems(1)] ih by blast
  have rb: "same_own b b" by (simp add: same_own_def keeps_refl)
  show ?case
  proof (cases "r1 = Inl ENOENT")
    case False
    then have r: "r = r1" "bs' = b # cs" using Cons.prems(3) f by auto
    have sb: "same_bases (b # bs) bs'" using ih rb r(2) by (simp add: same_bases_def)
    show ?thesis
    proof (cases r1)
      case (Inl e)
      then show ?thesis using r ih bcs sb by auto
    next
      case (Inr k)
      then obtain c ds where c: "bs = c # ds" using ih by (cases bs) auto
      have so: "bo_start_str_off b = bo_start_str_off c + bo_str_len c" using Cons.prems(1) c by simp
      then show ?thesis using r ih bcs sb Inr c by simp
    qed
  next
    case True
    obtain q b' where w: "own_find_str (env 0) (bs \<noteq> []) s b = (q, b')" by fastforce
    have r: "r = q" "bs' = b' # cs" using Cons.prems(3) f True w by auto
    note o = own_find_str_ok [OF ob Cons.prems(2) w]
    have ty: "own_types b' = own_types b" using o own_types_ok by blast
    have sb': "same_own b b'" using o ty by (simp add: same_own_def)
    have "bs = [] \<longleftrightarrow> cs = []" using ih by (auto simp: same_bases_def)
    then have "chain_ok (b' # cs)"
      using bcs o ty same_own_strs [OF sb'] by (auto split: list.splits)
    moreover have "same_bases (b # bs) (b' # cs)" using sb' ih by (simp add: same_bases_def)
    moreover have "bases_name (b' # cs) k = Some (chars_of s) \<and> k < bo_start_str_off b + bo_str_len b" if "q = Inr k" for k
    proof -
      have b': "own_ok (bs \<noteq> []) (own_types b) b'" "own_string b' k s" using o that by simp_all
      show ?thesis using own_string_name(1) [OF b'] own_string_name(2) [OF b'] o same_own_strs(2) [OF sb'] by simp
    qed
    ultimately show ?thesis using r o by (cases q) auto
  qed
qed

section \<open>Steps on an object\<close>

text \<open>What every operation leaves: the invariant, the bases, and at least the old names.\<close>

definition obj_grows :: "btf_obj \<Rightarrow> btf_obj \<Rightarrow> bool" where
  "obj_grows x x' \<longleftrightarrow> obj_ok x' \<and> grows (fst x) (fst x') \<and> same_bases (snd x) (snd x')"

definition alloc_error :: "int \<Rightarrow> bool" where
  "alloc_error e \<longleftrightarrow> e = ENOMEM \<or> e = EOPNOTSUPP"

lemma list_all2_trans_own: "same_bases as bs \<Longrightarrow> same_bases bs cs \<Longrightarrow> same_bases as cs"
proof (induction as arbitrary: bs cs)
  case Nil
  then show ?case by (simp add: same_bases_def)
next
  case (Cons a as)
  then obtain b bs' c cs' where l: "bs = b # bs'" "cs = c # cs'" "same_own a b" "same_own b c"
      "same_bases as bs'" "same_bases bs' cs'"
    by (auto simp: same_bases_def list_all2_Cons1)
  have "same_own a c" using l(3,4) keeps_trans by (auto simp: same_own_def)
  then show ?case using Cons.IH [OF l(5,6)] l(1,2) by (simp add: same_bases_def)
qed

lemma obj_grows_trans: "obj_grows x y \<Longrightarrow> obj_grows y z \<Longrightarrow> obj_grows x z"
  using grows_trans list_all2_trans_own by (auto simp: obj_grows_def)

lemma obj_ok_parts:
  "obj_ok (b, bs) \<longleftrightarrow>
     own_ok (bs \<noteq> []) (own_types b) b \<and> bo_start_str_off b < 2 ^ 31 \<and>
     (case bs of
        [] \<Rightarrow> bo_start_id b = 1 \<and> bo_start_str_off b = 0
      | c # _ \<Rightarrow> bo_start_id b = bo_start_id c + length (bo_type_offs c) \<and>
          bo_start_str_off b = bo_start_str_off c + bo_str_len c) \<and>
     chain_ok bs"
  by (simp add: obj_ok_def)

text \<open>Replacing the object itself by one that grew from it.\<close>

lemma obj_replace:
  assumes "obj_ok (b, bs)" "own_ok (bs \<noteq> []) ts b'" "grows b b'"
  shows "obj_grows (b, bs) (b', bs)" "obj_types (b', bs) = ts"
proof -
  have t: "own_types b' = ts" using assms(2) by (rule own_types_ok)
  then have "obj_ok (b', bs)"
    using assms by (auto simp: obj_ok_parts grows_def split: list.splits)
  then show "obj_grows (b, bs) (b', bs)" using assms(3) same_bases_refl by (simp add: obj_grows_def)
  show "obj_types (b', bs) = ts" using t by (simp add: obj_types_own)
qed

lemma obj_grows_refl: "obj_ok x \<Longrightarrow> obj_grows x x"
  using keeps_grows [OF keeps_refl] same_bases_refl by (simp add: obj_grows_def)

lemma obj_grows_names:
  assumes "obj_ok x" "obj_grows x x'" "obj_name x k = Some s"
  shows "obj_name x' k = Some s"
proof -
  obtain b bs b' bs' where x: "x = (b, bs)" "x' = (b', bs')" by (cases x, cases x')
  have "own_ok (bs \<noteq> []) (own_types b) b" "own_ok (bs' \<noteq> []) (own_types b') b'"
    using assms(1,2) by (auto simp: x obj_grows_def obj_ok_parts)
  then show ?thesis
    using grows_names [of "bs \<noteq> []" "own_types b" b "bs' \<noteq> []" "own_types b'" b' bs bs' k s] assms(2,3)
    by (simp add: x obj_grows_def obj_name_bases)
qed

lemma reserve_type_ok:
  assumes ok: "obj_ok (b, bs)" and r: "reserve_type env sz (b, bs) = (r, x')"
  shows "\<exists>b'. x' = (b', bs) \<and> obj_grows (b, bs) x' \<and> obj_types x' = obj_types (b, bs) \<and>
    (case r of
       Inl e \<Rightarrow> alloc_error e
     | Inr p \<Rightarrow> fresh b' \<and> p = bo_type_len b' \<and> bo_type_len b' + sz \<le> length (bo_types b'))"
proof -
  have o: "own_ok (bs \<noteq> []) (own_types b) b" using ok by (simp add: obj_ok_parts)
  obtain r1 b1 where e: "btf_ensure_modifiable (env 0) (bs \<noteq> []) b = (r1, b1)" by fastforce
  note em = ensure_modifiable_ok [OF o e]
  show ?thesis
  proof (cases r1)
    case (Inl c)
    then have "x' = (b, bs)" "r = Inl c" "alloc_error c"
      using r e em by (auto simp: reserve_type_def on_own_def alloc_error_def)
    moreover have "obj_grows (b, bs) (b, bs)" using ok by (rule obj_grows_refl)
    ultimately show ?thesis by simp
  next
    case (Inr u)
    then have b1: "own_ok (bs \<noteq> []) (own_types b) b1" "keeps b b1" "fresh b1" using em by auto
    obtain q b2 where a: "btf_add_type_mem (env 0) sz b1 = (q, b2)" by fastforce
    note am = add_type_mem_ok [OF b1(1,3) a]
    have x: "x' = (b2, bs)" "r = q"
      using r e Inr a by (auto simp: reserve_type_def on_own_def)
    have g: "grows b b2" using b1(2) am keeps_trans keeps_grows by blast
    have "bo_type_len b2 = bo_type_len b1"
    proof -
      have "bo_hdr b2 = (bo_hdr b1)\<lparr>bh_str_len := bh_str_len (bo_hdr b2)\<rparr>" using am by (simp add: keeps_def)
      then have "bh_type_len (bo_hdr b2) = bh_type_len ((bo_hdr b1)\<lparr>bh_str_len := bh_str_len (bo_hdr b2)\<rparr>)"
        by (rule arg_cong)
      then show ?thesis by simp
    qed
    then show ?thesis
      using x am obj_replace [OF ok _ g, of "own_types b"] by (cases q) (auto simp: alloc_error_def obj_types_own)
  qed
qed

text \<open>What adding a string does.\<close>

lemma add_str_ok:
  assumes ok: "obj_ok (b, bs)" and s: "0 \<notin> set s" and r: "btf__add_str env s (b, bs) = (r, x')"
  shows "\<exists>b' bs'. x' = (b', bs') \<and> obj_grows (b, bs) x' \<and> keeps b b' \<and> obj_types x' = obj_types (b, bs) \<and>
    (fresh b \<longrightarrow> fresh b' \<and> bo_types b' = bo_types b) \<and>
    (case r of Inl e \<Rightarrow> alloc_error e | Inr k \<Rightarrow> k < 2 ^ 32 \<and> obj_name x' k = Some (chars_of s))"
proof -
  have o: "own_ok (bs \<noteq> []) (own_types b) b" and ch: "chain_ok bs" using ok by (simp_all add: obj_ok_parts)
  obtain r1 cs where f: "find_str_bases (\<lambda>i. env (Suc i)) s bs = (r1, cs)" by fastforce
  note fb = find_str_bases_ok [OF ch s f]
  have bcs: "obj_ok (b, cs)" using chain_cong [of b bs cs] ok fb by (simp add: obj_ok_def)
  have g0: "obj_grows (b, bs) (b, cs)"
    using bcs fb keeps_grows [OF keeps_refl] by (simp add: obj_grows_def)
  have ne: "bs = [] \<longleftrightarrow> cs = []" using fb by (auto simp: same_bases_def)
  show ?thesis
  proof (cases "r1 = Inl ENOENT")
    case F: False
    then have x: "r = r1" "x' = (b, cs)"
      using r f F by (auto simp: btf__add_str_def)
    have "k < 2 ^ 32 \<and> obj_name x' k = Some (chars_of s)" if k: "r1 = Inr k" for k
    proof -
      obtain c ds where c: "bs = c # ds" using fb k by (cases bs) auto
      have "k < bo_start_str_off b" "bo_start_str_off b < 2 ^ 31" "bases_name cs k = Some (chars_of s)"
        using fb k c ok by (simp_all add: obj_ok_parts)
      then show ?thesis using x by (simp add: obj_name_bases)
    qed
    moreover have "alloc_error e" if "r1 = Inl e" for e
      using fb that F by (auto simp: alloc_error_def)
    ultimately show ?thesis using x g0 keeps_refl [of b] by (cases r1) (auto simp: obj_types_own)
  next
    case True
    obtain q b' where w: "own_add_str (env 0) (bs \<noteq> []) s b = (q, b')" by fastforce
    have x: "r = q" "x' = (b', cs)"
      using r f True w by (auto simp: btf__add_str_def on_own_def)
    note a = own_add_str_ok [OF o s w]
    have ob: "own_ok (cs \<noteq> []) (own_types b) b'" using a ne by simp
    have g: "obj_grows (b, cs) (b', cs)" "obj_types (b', cs) = own_types b"
      using obj_replace [OF bcs ob keeps_grows] a by simp_all
    have "k < 2 ^ 32 \<and> obj_name x' k = Some (chars_of s)" if k: "q = Inr k" for k
    proof -
      have st: "own_string b' k s" using a k by simp
      have "k < bo_start_str_off b' + bo_str_len b'" "bases_name (b' # cs) k = Some (chars_of s)"
        using own_string_name(2) [OF ob st] own_string_name(1) [OF ob st] by simp_all
      moreover have "bo_start_str_off b' < 2 ^ 31" "bo_str_len b' \<le> 2 ^ 31"
        using ok a by (auto simp: obj_ok_parts keeps_def own_ok_def own_strs_ok_def)
      ultimately show ?thesis using x by (simp add: obj_name_bases)
    qed
    then show ?thesis
      using x a g obj_grows_trans [OF g0 g(1)] by (cases q) (auto simp: obj_types_own alloc_error_def)
  qed
qed

text \<open>What adding a name does, whether there is one or not.\<close>

definition named :: "btf_obj \<Rightarrow> nat \<Rightarrow> byte list option \<Rightarrow> bool" where
  "named x k name \<longleftrightarrow>
     k < 2 ^ 32 \<and> (if bstr_empty name then k = 0 else obj_name x k = Some (chars_of (name_bytes name)))"

lemma add_opt_str_ok:
  assumes ok: "obj_ok (b, bs)" and s: "0 \<notin> set (name_bytes name)"
    and r: "add_opt_str env name (b, bs) = (r, x')"
  shows "\<exists>b' bs'. x' = (b', bs') \<and> obj_grows (b, bs) x' \<and> keeps b b' \<and> obj_types x' = obj_types (b, bs) \<and>
    (fresh b \<longrightarrow> fresh b' \<and> bo_types b' = bo_types b) \<and>
    (case r of Inl e \<Rightarrow> alloc_error e | Inr k \<Rightarrow> named x' k name)"
proof (cases "bstr_empty name")
  case True
  have "obj_grows (b, bs) (b, bs)"
    using ok by (rule obj_grows_refl)
  then show ?thesis using True r by (auto simp: add_opt_str_def named_def keeps_refl)
next
  case False
  then have "btf__add_str env (name_bytes name) (b, bs) = (r, x')" using r by (simp add: add_opt_str_def)
  from add_str_ok [OF ok s this] show ?thesis using False by (cases r) (auto simp: named_def)
qed

end
