(* ===== verification/Btf_Encode.thy ===== *)
theory Btf_Encode
  imports Btf_Build_Chain Btf_Load_Props
begin

text \<open>
  The sections of an object as bytes of either byte order, how a byte swap changes them,
  how the types are read from them, and what \<open>btf_get_raw_data\<close> writes.
\<close>

section \<open>Words of either byte order\<close>

definition enc_words :: "bool \<Rightarrow> u32 list \<Rightarrow> byte list" where
  "enc_words sw ws = concat (map (\<lambda>w. if sw then rev (u32_le w) else u32_le w) ws)"

lemma enc_words_native: "enc_words False ws = words_le ws"
  by (simp add: enc_words_def words_le_def)

lemma enc_words_simps [simp]:
  "enc_words sw [] = []" "length (enc_words sw ws) = 4 * length ws"
  by (induction ws) (auto simp: enc_words_def)

lemma enc_words_Cons: "enc_words sw (w # ws) = (if sw then rev (u32_le w) else u32_le w) @ enc_words sw ws"
  by (simp add: enc_words_def)

lemma enc_words_append: "enc_words sw (vs @ ws) = enc_words sw vs @ enc_words sw ws"
  by (simp add: enc_words_def)

lemma bswap_at_mid: "length pre = n \<Longrightarrow> length mid = k \<Longrightarrow> bswap_at k n (pre @ mid @ post) = Some (pre @ rev mid @ post)"
  by (auto simp: bswap_at_def slice_def)

lemma bswap_words_enc:
  "length pre = n \<Longrightarrow> m = length ws \<Longrightarrow>
     bswap_words m n (pre @ enc_words sw ws @ post) = Some (pre @ enc_words (\<not> sw) ws @ post)"
proof (induction ws arbitrary: pre n m)
  case (Cons w ws)
  let ?a = "if sw then rev (u32_le w) else u32_le w"
  have "bswap_at 4 n (pre @ ?a @ enc_words sw ws @ post) = Some (pre @ rev ?a @ enc_words sw ws @ post)"
    using Cons.prems(1) by (intro bswap_at_mid) simp_all
  moreover have "bswap_words (length ws) (n + 4) ((pre @ rev ?a) @ enc_words sw ws @ post) =
      Some ((pre @ rev ?a) @ enc_words (\<not> sw) ws @ post)"
    using Cons.prems(1) by (intro Cons.IH) simp_all
  ultimately show ?case using Cons.prems(2) by (simp add: enc_words_Cons)
qed simp

section \<open>Types of either byte order\<close>

definition enc_type :: "bool \<Rightarrow> btf_type \<Rightarrow> byte list" where
  "enc_type sw t = enc_words sw (type_words t)"

definition enc_types :: "bool \<Rightarrow> btf_type list \<Rightarrow> byte list" where
  "enc_types sw ts = concat (map (enc_type sw) ts)"

lemma enc_types_native: "enc_types False ts = types_bytes ts" "enc_type False t = type_bytes t"
  by (simp_all add: enc_types_def types_bytes_def enc_type_def type_bytes_def enc_words_native cong: map_cong)

lemma enc_types_simps [simp]: "enc_types sw [] = []" "enc_types sw (t # ts) = enc_type sw t @ enc_types sw ts"
  by (simp_all add: enc_types_def)

lemma length_enc_type [simp]: "length (enc_type sw t) = length (type_bytes t)"
  by (simp add: enc_type_def length_type_bytes type_words_def)

lemma length_enc_types [simp]: "length (enc_types sw ts) = length (types_bytes ts)"
  by (induction ts) auto

lemma enc_type_split: "enc_type sw t = enc_words sw [bt_name_off t, bt_info t, bt_union t] @ enc_words sw (bt_words t)"
  by (simp add: enc_type_def type_words_def flip: enc_words_append)

lemma bswap_base_enc:
  assumes "length pre = n"
  shows "btf_bswap_type_base n (pre @ enc_words sw [bt_name_off t, bt_info t, bt_union t] @ post) =
    Some (pre @ enc_words (\<not> sw) [bt_name_off t, bt_info t, bt_union t] @ post)"
  unfolding btf_bswap_type_base_def by (rule bswap_words_enc [OF assms]) simp

lemma bswap_rest_enc:
  assumes "rest_words t' = Some (length (bt_words t))" "length pre = n + sizeof_btf_type"
  shows "btf_bswap_type_rest t' n (pre @ enc_words sw (bt_words t) @ post) =
    Some (0, pre @ enc_words (\<not> sw) (bt_words t) @ post)"
  using bswap_words_enc [OF assms(2) refl, of "bt_words t" sw post]
  by (simp add: btf_bswap_type_rest_def assms(1))

text \<open>The header of a type in native order, whatever follows.\<close>

lemma header_native:
  assumes "length pre = n"
  shows "type_at (pre @ enc_words False [bt_name_off t, bt_info t, bt_union t] @ post) n (n + sizeof_btf_type) =
    t\<lparr>bt_words := []\<rparr>"
  using type_at_bytes [OF assms, of "t\<lparr>bt_words := []\<rparr>" post]
  by (simp add: enc_words_native type_bytes_def type_words_def sizeof_btf_type_def)

lemma rest_words_without: "rest_words (t\<lparr>bt_words := ws\<rparr>) = rest_words t"
  by (rule rest_words_info) simp

section \<open>Writing the types\<close>

lemma swap_types_enc:
  assumes "known_types ts" "length pre = p + n"
  shows "swap_types p (offs_of n ts) (pre @ types_bytes ts @ post) = Some (0, pre @ enc_types True ts @ post)"
  using assms
proof (induction ts arbitrary: pre n)
  case (Cons t ts)
  let ?h = "[bt_name_off t, bt_info t, bt_union t]"
  let ?post = "types_bytes ts @ post"
  have k: "rest_words t = Some (length (bt_words t))" using Cons.prems(1) by (simp add: known_types_def)
  have tb: "type_bytes t = enc_words False ?h @ enc_words False (bt_words t)"
    using enc_type_split [of False t] by (simp add: enc_types_native)
  have ta: "type_at (pre @ type_bytes t @ ?post) (p + n) (p + n + sizeof_btf_type) = t\<lparr>bt_words := []\<rparr>"
    using header_native [OF Cons.prems(2), of t "enc_words False (bt_words t) @ ?post"] by (simp add: tb)
  have r: "btf_bswap_type_rest (t\<lparr>bt_words := []\<rparr>) (p + n) (pre @ type_bytes t @ ?post) =
      Some (0, pre @ enc_words False ?h @ enc_words True (bt_words t) @ ?post)"
    using bswap_rest_enc [of "t\<lparr>bt_words := []\<rparr>" t "pre @ enc_words False ?h" "p + n" False ?post]
      k Cons.prems(2) by (simp add: tb rest_words_without sizeof_btf_type_def)
  have b: "btf_bswap_type_base (p + n) (pre @ enc_words False ?h @ enc_words True (bt_words t) @ ?post) =
      Some (pre @ enc_type True t @ ?post)"
    using bswap_base_enc [OF Cons.prems(2), of False t "enc_words True (bt_words t) @ ?post"]
    by (simp add: enc_type_split)
  have "swap_types p (offs_of (n + length (type_bytes t)) ts) ((pre @ enc_type True t) @ types_bytes ts @ post) =
      Some (0, (pre @ enc_type True t) @ enc_types True ts @ post)"
    using Cons.prems by (intro Cons.IH) (simp_all add: known_types_def)
  moreover have "\<not> length (pre @ type_bytes t @ ?post) < p + n + sizeof_btf_type"
    using Cons.prems(2) by (simp add: length_type_bytes sizeof_btf_type_def)
  ultimately show ?case using ta r b by (simp add: Let_def)
qed simp

section \<open>Reading the types\<close>

lemma nr_types_bound: "12 * length ts \<le> length (types_bytes ts)"
  by (induction ts) (auto simp: length_type_bytes)

lemma known_size: "rest_words t = Some n \<Longrightarrow> btf_type_size own base t = int (12 + 4 * n)"
  by (simp add: btf_type_size_def sizeof_btf_type_def)

lemma parse_one_enc:
  assumes raw: "bf_raw bf = pre @ types_bytes us @ enc_type (bf_swapped bf) t @ post"
    and off: "length pre = types_data bf" "length (types_bytes us) + length (type_bytes t) \<le> type_len bf"
    and idx: "bf_type_offs bf = offs_of 0 us" "length us < BTF_MAX_NR_TYPES"
    and k: "rest_words t = Some (length (bt_words t))" and mm: "\<not> bf_mmap bf" and al: "\<forall>i. alloc i"
  shows "\<exists>cap. parse_one_type alloc bf (length (types_bytes us)) =
    Some (int (length (type_bytes t)),
      bf\<lparr>bf_raw := pre @ types_bytes us @ type_bytes t @ post,
         bf_type_offs := offs_of 0 (us @ [t]), bf_type_offs_cap := cap\<rparr>)"
proof -
  let ?h = "[bt_name_off t, bt_info t, bt_union t]" and ?n = "length (types_bytes us)"
  let ?sw = "bf_swapped bf"
  define bf1 where "bf1 = bf\<lparr>bf_raw := pre @ types_bytes us @ enc_words False ?h @ enc_words ?sw (bt_words t) @ post\<rparr>"
  have l: "length (pre @ types_bytes us) = types_data bf + ?n" using off(1) by simp
  have b1: "(if ?sw then bf_swap (btf_bswap_type_base (types_data bf + ?n)) bf else Some bf) = Some bf1"
  proof (cases ?sw)
    case True
    then show ?thesis
      using bswap_base_enc [OF l, of True t "enc_words True (bt_words t) @ post"] raw mm
      by (simp add: bf_swap_def bf1_def enc_type_split)
  next
    case False
    then have "bf_raw bf = pre @ types_bytes us @ enc_words False ?h @ enc_words ?sw (bt_words t) @ post"
      using raw by (simp add: enc_type_split)
    then show ?thesis using False by (simp add: bf1_def)
  qed
  have f1: "types_data bf1 = types_data bf" "type_len bf1 = type_len bf" "bf_swapped bf1 = ?sw" "bf_mmap bf1 = bf_mmap bf"
    "bf_type_offs bf1 = bf_type_offs bf"
    by (simp_all add: bf1_def types_data_def)
  have len: "\<not> length (bf_raw bf1) < types_data bf1 + ?n + sizeof_btf_type"
    using off(1) by (simp add: bf1_def f1(1) sizeof_btf_type_def types_data_def)
  have d: "drop (types_data bf1) (bf_raw bf1) = types_bytes us @ enc_words False ?h @ enc_words ?sw (bt_words t) @ post"
    using off(1) by (simp add: f1(1)) (simp add: bf1_def)
  have ta: "type_at (drop (types_data bf1) (bf_raw bf1)) ?n (?n + sizeof_btf_type) = t\<lparr>bt_words := []\<rparr>"
    unfolding d by (rule header_native) simp
  have sz: "btf_type_size (file_layout bf1) (bf_base bf1) (t\<lparr>bt_words := []\<rparr>) = int (length (type_bytes t))"
    using known_size k by (simp add: rest_words_without length_type_bytes)
  define bf2 where "bf2 = bf\<lparr>bf_raw := pre @ types_bytes us @ type_bytes t @ post\<rparr>"
  have tb: "type_bytes t = enc_words False ?h @ enc_words False (bt_words t)"
    using enc_type_split [of False t] by (simp add: enc_types_native)
  have rest: "btf_bswap_type_rest (t\<lparr>bt_words := []\<rparr>) (types_data bf1 + ?n) (bf_raw bf1) =
      Some (0, bf_raw bf2)" if ?sw
    using bswap_rest_enc [of "t\<lparr>bt_words := []\<rparr>" t "pre @ types_bytes us @ enc_words False ?h" "types_data bf1 + ?n" True post]
      that k off(1) f1(1) by (simp add: rest_words_without sizeof_btf_type_def bf1_def bf2_def tb)
  have b2: "(if \<not> bf_swapped bf1 then Some (0, bf1)
        else if bf_mmap bf1 then None
        else do {
          (err, bs) \<leftarrow> btf_bswap_type_rest (t\<lparr>bt_words := []\<rparr>) (types_data bf1 + ?n) (bf_raw bf1);
          Some (err, bf1\<lparr>bf_raw := bs\<rparr>) }) = Some (0 :: int, bf2)"
  proof (cases ?sw)
    case True
    then show ?thesis using rest mm by (simp add: f1) (simp add: bf1_def bf2_def)
  next
    case False
    then show ?thesis by (simp add: f1(3)) (simp add: bf1_def bf2_def tb)
  qed
  obtain cap where i: "btf_add_type_idx_entry alloc bf2 ?n =
      (0, bf2\<lparr>bf_type_offs := offs_of 0 (us @ [t]), bf_type_offs_cap := cap\<rparr>)"
  proof (cases "length us + 1 \<le> bf_type_offs_cap bf")
    case True
    then show ?thesis
      using idx by (intro that [of "bf_type_offs_cap bf"])
        (simp add: btf_add_type_idx_entry_def bf2_def offs_of_append Let_def)
  next
    case False
    then show ?thesis
      using idx al by (intro that [of "add_mem_cnt (bf_type_offs_cap bf) (length us) BTF_MAX_NR_TYPES 1"])
        (simp add: btf_add_type_idx_entry_def bf2_def offs_of_append Let_def)
  qed
  have "finish_type alloc bf1 (t\<lparr>bt_words := []\<rparr>) ?n (int (length (type_bytes t))) =
      Some (int (length (type_bytes t)), bf2\<lparr>bf_type_offs := offs_of 0 (us @ [t]), bf_type_offs_cap := cap\<rparr>)"
    unfolding finish_type_def b2 by (simp add: i)
  then show ?thesis
    unfolding parse_one_type_def b1
    using len ta sz off(2) f1(2) by (auto simp: Let_def bf2_def)
qed

lemma parse_types_enc:
  assumes "bf_raw bf = pre @ types_bytes us @ enc_types (bf_swapped bf) ts @ post"
    and "length pre = types_data bf" "length (types_bytes (us @ ts)) = type_len bf"
    and "bf_type_offs bf = offs_of 0 us" "known_types ts" "\<not> bf_mmap bf" "\<forall>i. alloc i"
  shows "\<exists>cap. parse_types_loop alloc bf (length (types_bytes us)) =
    Some (0, bf\<lparr>bf_raw := pre @ types_bytes (us @ ts) @ post, bf_type_offs := offs_of 0 (us @ ts), bf_type_offs_cap := cap\<rparr>)"
  using assms
proof (induction ts arbitrary: bf us)
  case Nil
  have "parse_types_loop alloc bf (length (types_bytes us)) = Some (0, bf)"
    using Nil.prems(3) by (subst parse_types_loop.simps) (simp add: sizeof_btf_type_def)
  then show ?case using Nil.prems(1-4) by (intro exI [of _ "bf_type_offs_cap bf"]) simp
next
  case (Cons t ts)
  have tl: "length (types_bytes us) + length (type_bytes t) + length (types_bytes ts) = type_len bf"
    using Cons.prems(3) by simp
  have nr: "length us < BTF_MAX_NR_TYPES"
    using nr_types_bound [of us] tl unat_bound [of "bh_type_len (bf_hdr bf)"] by (simp add: BTF_MAX_NR_TYPES_def)
  have k: "rest_words t = Some (length (bt_words t))" "known_types ts"
    using Cons.prems(5) by (simp_all add: known_types_def)
  have raw: "bf_raw bf = pre @ types_bytes us @ enc_type (bf_swapped bf) t @ (enc_types (bf_swapped bf) ts @ post)"
    using Cons.prems(1) by simp
  obtain cap where one: "parse_one_type alloc bf (length (types_bytes us)) =
    Some (int (length (type_bytes t)),
      bf\<lparr>bf_raw := pre @ types_bytes us @ type_bytes t @ enc_types (bf_swapped bf) ts @ post,
         bf_type_offs := offs_of 0 (us @ [t]), bf_type_offs_cap := cap\<rparr>)" (is "_ = Some (_, ?bf)")
    using parse_one_enc [OF raw Cons.prems(2) _ Cons.prems(4) nr k(1) Cons.prems(6,7)] tl by auto
  have "\<exists>cap. parse_types_loop alloc ?bf (length (types_bytes (us @ [t]))) =
    Some (0, ?bf\<lparr>bf_raw := pre @ types_bytes ((us @ [t]) @ ts) @ post, bf_type_offs := offs_of 0 ((us @ [t]) @ ts),
      bf_type_offs_cap := cap\<rparr>)"
    by (rule Cons.IH) (use Cons.prems k(2) in \<open>simp_all add: types_data_def\<close>)
  moreover have "length (types_bytes us) + sizeof_btf_type \<le> type_len bf"
    using tl by (simp add: length_type_bytes sizeof_btf_type_def)
  ultimately show ?case
    using one by (subst parse_types_loop.simps) simp
qed

section \<open>The layout\<close>

text \<open>The flags are the last two of the four bytes of a kind.\<close>

fun enc_layout :: "bool \<Rightarrow> byte list \<Rightarrow> byte list" where
  "enc_layout sw (a # b # c # d # bs) = (if sw then [a, b, d, c] else [a, b, c, d]) @ enc_layout sw bs"
| "enc_layout sw bs = bs"

lemma length_enc_layout [simp]: "length (enc_layout sw bs) = length bs"
  by (induction sw bs rule: enc_layout.induct) auto

lemma enc_layout_native: "enc_layout False bs = bs"
  by (induction "False" bs rule: enc_layout.induct) auto

lemma bswap_flags_enc:
  "length pre = n \<Longrightarrow> length bs = 4 * m \<Longrightarrow>
     bswap_flags m n (pre @ enc_layout sw bs @ post) = Some (pre @ enc_layout (\<not> sw) bs @ post)"
proof (induction m arbitrary: pre n bs)
  case (Suc m)
  then obtain a b c d bs' where bs: "bs = a # b # c # d # bs'" "length bs' = 4 * m"
    by (cases bs; cases "tl bs"; cases "tl (tl bs)"; cases "tl (tl (tl bs))") auto
  let ?e = "if sw then [d, c] else [c, d]"
  have "bswap_at 2 (n + 2) ((pre @ [a, b]) @ ?e @ enc_layout sw bs' @ post) =
      Some ((pre @ [a, b]) @ rev ?e @ enc_layout sw bs' @ post)"
    using Suc.prems(1) by (intro bswap_at_mid) simp_all
  moreover have "bswap_flags m (n + 4) ((pre @ [a, b] @ rev ?e) @ enc_layout sw bs' @ post) =
      Some ((pre @ [a, b] @ rev ?e) @ enc_layout (\<not> sw) bs' @ post)"
    using Suc.prems(1) bs(2) by (intro Suc.IH) simp_all
  ultimately show ?case by (cases sw) (simp_all add: bs)
qed simp

section \<open>The header\<close>

definition short_words :: "btf_header \<Rightarrow> u32 list" where
  "short_words h = [bh_hdr_len h, bh_type_off h, bh_type_len h, bh_str_off h, bh_str_len h]"

definition layout_words :: "btf_header \<Rightarrow> u32 list" where
  "layout_words h = [bh_layout_off h, bh_layout_len h]"

text \<open>The header of \<open>hdr_len\<close> bytes: a short one ends before the layout, a long one has padding.\<close>

definition enc_header :: "bool \<Rightarrow> btf_header \<Rightarrow> byte list" where
  "enc_header sw h =
     (if sw then rev (u16_le (bh_magic h)) else u16_le (bh_magic h)) @ [bh_version h, bh_flags h] @
     enc_words sw (short_words h) @
     (if sizeof_btf_header \<le> unat (bh_hdr_len h)
      then enc_words sw (layout_words h) @ replicate (unat (bh_hdr_len h) - 32) 0
      else replicate (unat (bh_hdr_len h) - 24) 0)"

lemma length_enc_header: "24 \<le> unat (bh_hdr_len h) \<Longrightarrow> length (enc_header sw h) = unat (bh_hdr_len h)"
  by (simp add: enc_header_def short_words_def layout_words_def sizeof_btf_header_def)

lemma bswap_hdr_enc:
  "btf_bswap_hdr (unat (bh_hdr_len h)) (enc_header sw h @ post) = Some (enc_header (\<not> sw) h @ post)"
proof -
  let ?m = "\<lambda>sw. if sw then rev (u16_le (bh_magic h)) else u16_le (bh_magic h)"
  let ?v = "[bh_version h, bh_flags h]"
  let ?z = "replicate (unat (bh_hdr_len h) - 32) 0 @ post"
  let ?tail = "\<lambda>sw. if sizeof_btf_header \<le> unat (bh_hdr_len h)
      then enc_words sw (layout_words h) @ replicate (unat (bh_hdr_len h) - 32) 0
      else replicate (unat (bh_hdr_len h) - 24) 0"
  have e: "enc_header sw h @ post = ?m sw @ ?v @ enc_words sw (short_words h) @ ?tail sw @ post" for sw
    by (simp add: enc_header_def)
  have m: "bswap_at 2 0 ([] @ ?m sw @ r) = Some ([] @ rev (?m sw) @ r)" for r
    by (rule bswap_at_mid) simp_all
  have r: "rev (?m sw) = ?m (\<not> sw)" by simp
  have s: "bswap_words 5 4 ((?m (\<not> sw) @ ?v) @ enc_words sw (short_words h) @ r) =
      Some ((?m (\<not> sw) @ ?v) @ enc_words (\<not> sw) (short_words h) @ r)" for r
    by (rule bswap_words_enc) (simp_all add: short_words_def)
  have l: "bswap_words 2 24 ((?m (\<not> sw) @ ?v @ enc_words (\<not> sw) (short_words h)) @ enc_words sw (layout_words h) @ ?z) =
      Some ((?m (\<not> sw) @ ?v @ enc_words (\<not> sw) (short_words h)) @ enc_words (\<not> sw) (layout_words h) @ ?z)"
    by (rule bswap_words_enc) (simp_all add: layout_words_def short_words_def)
  show ?thesis
    unfolding btf_bswap_hdr_def e using m [simplified] s [simplified] l [simplified] r
    by (cases "sizeof_btf_header \<le> unat (bh_hdr_len h)") simp_all
qed

lemma le_enc_zero: "le_enc n 0 = replicate n 0"
  by (induction n) auto

lemma two_zero_words: "words_le [0, 0] = replicate 8 0"
  by (simp add: u32_le_def le_enc_zero flip: replicate_add)

text \<open>Reading the native header, of any length.\<close>

lemma header_of_enc:
  assumes "hdr_ok h"
  defines "n \<equiv> min (unat (bh_hdr_len h)) sizeof_btf_header"
  shows "header_of (take n (enc_header False h @ post) @ replicate (sizeof_btf_header - n) 0) = h"
proof -
  have h: "24 \<le> unat (bh_hdr_len h)" "unat (bh_hdr_len h) < 32 \<longrightarrow> bh_layout_off h = 0 \<and> bh_layout_len h = 0"
    using assms(1) by (auto simp: hdr_ok_def)
  let ?p = "u16_le (bh_magic h) @ [bh_version h, bh_flags h]"
  note z = two_zero_words
  have "take n (enc_header False h @ post) @ replicate (sizeof_btf_header - n) 0 =
      ?p @ words_le (short_words h @ layout_words h)"
  proof (cases "unat (bh_hdr_len h) < 32")
    case True
    then have n: "n = unat (bh_hdr_len h)" by (simp add: n_def sizeof_btf_header_def)
    have l: "length (enc_header False h) = n" using length_enc_header [OF h(1)] n by simp
    have r: "replicate (n - 24) (0 :: byte) @ replicate (32 - n) 0 = replicate 8 0"
      using h(1) True n by (simp flip: replicate_add)
    have e: "enc_header False h = (?p @ words_le (short_words h)) @ replicate (n - 24) 0"
      using True n by (simp add: enc_header_def sizeof_btf_header_def enc_words_native)
    have "take n (enc_header False h @ post) = enc_header False h" using l by simp
    then have "take n (enc_header False h @ post) @ replicate (sizeof_btf_header - n) 0 =
        (?p @ words_le (short_words h)) @ replicate 8 0"
      using r by (simp only: e append_assoc sizeof_btf_header_def)
    then show ?thesis
      using True h(2) z by (simp add: layout_words_def words_le_append del: words_le_Cons)
  next
    case False
    then have n: "n = 32" by (simp add: n_def sizeof_btf_header_def)
    have "length (?p @ words_le (short_words h @ layout_words h)) = 32"
      by (simp add: short_words_def layout_words_def del: words_le_Cons)
    then show ?thesis
      using False n by (simp add: enc_header_def sizeof_btf_header_def words_le_append enc_words_native del: words_le_Cons)
  qed
  moreover have "header_of (?p @ words_le (short_words h @ layout_words h)) = h"
  proof -
    define ws where "ws = short_words h @ layout_words h"
    define img where "img = ?p @ words_le ws"
    have w: "rd32 img (4 + 4 * i) = ws ! i" if "i < 7" for i
      using rd32_words [of i ws ?p 4 "[]"] that
      by (simp add: img_def ws_def short_words_def layout_words_def del: words_le_Cons)
    have v: "ws ! 0 = bh_hdr_len h" "ws ! 1 = bh_type_off h" "ws ! 2 = bh_type_len h" "ws ! 3 = bh_str_off h"
        "ws ! 4 = bh_str_len h" "ws ! 5 = bh_layout_off h" "ws ! 6 = bh_layout_len h"
      by (simp_all add: ws_def short_words_def layout_words_def)
    have "rd16 img 0 = bh_magic h" "img ! 2 = bh_version h" "img ! 3 = bh_flags h"
      by (simp_all add: img_def rd16_def nth_append)
    then have "header_of img = h"
      using w [of 0] w [of 1] w [of 2] w [of 3] w [of 4] w [of 5] w [of 6] v by (simp add: header_of_def)
    then show ?thesis by (simp add: img_def ws_def)
  qed
  ultimately show ?thesis by simp
qed

section \<open>What is written\<close>

definition raw_image :: "bool \<Rightarrow> btf_type list \<Rightarrow> btf_own \<Rightarrow> byte list" where
  "raw_image sw ts b =
     enc_header sw (bo_hdr b) @ enc_types sw ts @ enc_layout sw (layout_bytes b) @ strs_bytes b"

lemma copy_to_mid:
  assumes "length pre = p" "length mid = n" "n \<le> length src"
  shows "copy_to p n src (pre @ mid @ post) = Some (pre @ take n src @ post)"
  using assms by (simp add: copy_to_def put_bytes_def)

lemma header_bytes_enc: "header_bytes h = u16_le (bh_magic h) @ [bh_version h, bh_flags h] @
    words_le (short_words h) @ words_le (layout_words h)"
  by (simp add: header_bytes_def short_words_def layout_words_def)

lemma write_header_enc:
  assumes "hdr_ok h"
  shows "write_header sw h (replicate (unat (bh_hdr_len h)) 0 @ post) = Some (enc_header sw h @ post)"
proof -
  have h: "24 \<le> unat (bh_hdr_len h)" "unat (bh_hdr_len h) < 32 \<longrightarrow> bh_layout_off h = 0 \<and> bh_layout_len h = 0"
    using assms(1) by (auto simp: hdr_ok_def)
  let ?l = "unat (bh_hdr_len h)" and ?n = "min sizeof_btf_header (unat (bh_hdr_len h))"
  note z = two_zero_words
  have "copy_to 0 ?n (header_bytes h) ([] @ replicate ?n 0 @ (replicate (?l - ?n) 0 @ post)) =
      Some ([] @ take ?n (header_bytes h) @ (replicate (?l - ?n) 0 @ post))"
    by (rule copy_to_mid) (simp_all add: header_bytes_enc short_words_def layout_words_def sizeof_btf_header_def del: words_le_Cons)
  moreover have "replicate ?n (0 :: byte) @ replicate (?l - ?n) 0 = replicate ?l 0"
    by (simp flip: replicate_add)
  ultimately have "copy_to 0 ?n (header_bytes h) (replicate ?l 0 @ post) =
      Some (take ?n (header_bytes h) @ replicate (?l - ?n) 0 @ post)"
    by (metis append_Nil append.assoc)
  moreover have "take ?n (header_bytes h) @ replicate (?l - ?n) 0 = enc_header False h"
  proof (cases "?l < 32")
    case True
    then have "header_bytes h = (u16_le (bh_magic h) @ [bh_version h, bh_flags h] @ words_le (short_words h)) @ replicate 8 0"
      using h(2) z by (simp add: header_bytes_enc layout_words_def del: words_le_Cons)
    moreover have "length (u16_le (bh_magic h) @ [bh_version h, bh_flags h] @ words_le (short_words h)) = 24"
      by (simp add: short_words_def del: words_le_Cons)
    ultimately show ?thesis
      using True h(1) by (simp add: enc_header_def sizeof_btf_header_def enc_words_native del: words_le_Cons append_assoc)
  next
    case False
    moreover have "length (header_bytes h) = 32"
      by (simp add: header_bytes_enc short_words_def layout_words_def del: words_le_Cons)
    ultimately show ?thesis
      by (simp add: sizeof_btf_header_def) (simp add: enc_header_def header_bytes_enc sizeof_btf_header_def enc_words_native del: words_le_Cons)
  qed
  ultimately have "copy_to 0 ?n (header_bytes h) (replicate ?l 0 @ post) = Some (enc_header False h @ post)"
    by simp
  then show ?thesis
    using bswap_hdr_enc [of h False post] by (cases sw) (simp_all add: write_header_def)
qed

lemma own_lengths:
  assumes "own_ok split ts b"
  shows "24 \<le> unat (bh_hdr_len (bo_hdr b))" "length (layout_bytes b) = bo_layout_len b"
    "length (strs_bytes b) = bo_str_len b" "bo_type_len b = length (types_bytes ts)" "bo_layout_len b mod 4 = 0"
    "hdr_ok (bo_hdr b)" "known_types ts" "bo_type_offs b = offs_of 0 ts"
  using assms by (auto simp: own_ok_def hdr_ok_def own_strs_ok_def)

lemma length_raw_image:
  assumes "own_ok split ts b"
  shows "length (raw_image sw ts b) = unat (bh_hdr_len (bo_hdr b)) + bo_type_len b + bo_layout_len b + bo_str_len b"
  using own_lengths [OF assms] by (simp add: raw_image_def length_enc_header)

lemma unat_sum: "unat a + unat b < 2 ^ 32 \<Longrightarrow> unat (a + b :: u32) = unat a + unat b"
  by (simp add: unat_word_ariths)

lemma raw_data_size_image:
  assumes "own_ok split ts b" "length (raw_image sw ts b) < 2 ^ 32"
  shows "unat (raw_data_size b) = length (raw_image sw ts b)"
proof -
  let ?h = "bo_hdr b"
  have t: "unat (bh_hdr_len ?h) + unat (bh_type_len ?h) + unat (bh_layout_len ?h) + unat (bh_str_len ?h) < 2 ^ 32"
    using assms length_raw_image by simp
  have s: "unat (bh_hdr_len ?h + bh_type_len ?h) = unat (bh_hdr_len ?h) + unat (bh_type_len ?h)"
    using t by (intro unat_sum) linarith
  have s2: "unat (bh_hdr_len ?h + bh_type_len ?h + bh_str_len ?h) =
      unat (bh_hdr_len ?h) + unat (bh_type_len ?h) + unat (bh_str_len ?h)"
    using t s unat_sum [of "bh_hdr_len ?h + bh_type_len ?h" "bh_str_len ?h"] by linarith
  have s3: "unat (bh_hdr_len ?h + bh_type_len ?h + bh_str_len ?h + bh_layout_len ?h) =
      unat (bh_hdr_len ?h) + unat (bh_type_len ?h) + unat (bh_str_len ?h) + unat (bh_layout_len ?h)"
    using t s2 unat_sum [of "bh_hdr_len ?h + bh_type_len ?h + bh_str_len ?h" "bh_layout_len ?h"] by linarith
  show ?thesis
    using s2 s3 length_raw_image [OF assms(1)] by (simp add: raw_data_size_def Let_def)
qed

lemma write_layout_enc:
  assumes "length (layout_bytes b) = bo_layout_len b" "bo_layout_len b mod 4 = 0" "length pre = p"
    "length mid = bo_layout_len b"
  shows "write_layout sw b p (pre @ mid @ post) = Some (pre @ enc_layout sw (layout_bytes b) @ post)"
proof (cases "bo_layout_len b = 0")
  case True
  then have "mid = []" "layout_bytes b = []" using assms(1,4) by simp_all
  then show ?thesis using True by (simp add: write_layout_def)
next
  case False
  have "bo_layout_len b \<le> length (layout_mem b)"
    using assms(1) by (simp add: layout_bytes_def)
  then have c: "copy_to p (bo_layout_len b) (layout_mem b) (pre @ mid @ post) = Some (pre @ layout_bytes b @ post)"
    using copy_to_mid [OF assms(3,4)] by (simp add: layout_bytes_def)
  have d: "(bo_layout_len b + 3) div 4 = bo_layout_len b div 4" "length (layout_bytes b) = 4 * (bo_layout_len b div 4)"
    using assms(1,2) by presburger+
  then show ?thesis
    using False c bswap_flags_enc [OF assms(3) d(2), of False post]
    by (cases sw) (simp_all add: write_layout_def enc_layout_native)
qed

lemma write_raw_data_image:
  assumes ok: "own_ok split ts b" and sz: "length (raw_image sw ts b) < 2 ^ 32"
  shows "write_raw_data sw b = Some (Some (raw_image sw ts b))"
proof -
  let ?h = "bo_hdr b"
  let ?H = "unat (bh_hdr_len ?h)" and ?T = "bo_type_len b" and ?L = "bo_layout_len b" and ?S = "bo_str_len b"
  note l = own_lengths [OF ok]
  have z: "replicate (unat (raw_data_size b)) (0 :: byte) =
      replicate ?H 0 @ replicate ?T 0 @ replicate ?L 0 @ replicate ?S 0"
    unfolding raw_data_size_image [OF ok sz] length_raw_image [OF ok] by (simp add: add.assoc flip: replicate_add)
  let ?e = "enc_header sw ?h"
  have le: "length ?e = ?H" by (rule length_enc_header [OF l(1)])
  have w1: "write_header sw ?h (replicate ?H 0 @ replicate ?T 0 @ replicate ?L 0 @ replicate ?S 0) =
      Some (?e @ replicate ?T 0 @ replicate ?L 0 @ replicate ?S 0)"
    by (rule write_header_enc [OF l(6)])
  have tm: "take ?T (types_mem b) = types_bytes ts" using ok by (simp add: own_ok_def)
  then have "?T \<le> length (types_mem b)" using l(4) by (metis length_take min.absorb_iff2 min.commute)
  then have w2: "copy_to ?H ?T (types_mem b) (?e @ replicate ?T 0 @ replicate ?L 0 @ replicate ?S 0) =
      Some (?e @ types_bytes ts @ replicate ?L 0 @ replicate ?S 0)"
    using copy_to_mid [OF le, of "replicate ?T 0" ?T "types_mem b"] tm by simp
  have w3: "(if sw then swap_types ?H (bo_type_offs b) (?e @ types_bytes ts @ replicate ?L 0 @ replicate ?S 0)
        else Some (0, ?e @ types_bytes ts @ replicate ?L 0 @ replicate ?S 0)) =
      Some (0, ?e @ enc_types sw ts @ replicate ?L 0 @ replicate ?S 0)"
    using swap_types_enc [OF l(7), of ?e ?H 0 "replicate ?L 0 @ replicate ?S 0"] le l(8)
    by (cases sw) (simp_all add: enc_types_native)
  have w4: "write_layout sw b (?H + ?T) (?e @ enc_types sw ts @ replicate ?L 0 @ replicate ?S 0) =
      Some (?e @ enc_types sw ts @ enc_layout sw (layout_bytes b) @ replicate ?S 0)"
    using write_layout_enc [OF l(2,5), of "?e @ enc_types sw ts" "?H + ?T" "replicate ?L 0"] le l(4) by simp
  have "?S \<le> length (btf_strs_data b)" using l(3) by (simp add: strs_bytes_def)
  then have w5: "copy_to (?H + ?T + ?L) ?S (btf_strs_data b)
        (?e @ enc_types sw ts @ enc_layout sw (layout_bytes b) @ replicate ?S 0) = Some (raw_image sw ts b)"
    using copy_to_mid [of "?e @ enc_types sw ts @ enc_layout sw (layout_bytes b)" "?H + ?T + ?L" "replicate ?S 0" ?S
        "btf_strs_data b" "[]"] le l(2,4)
    by (simp add: raw_image_def strs_bytes_def)
  show ?thesis
    unfolding write_raw_data_def Let_def z using w1 w2 w3 w4 w5 by simp
qed

end
