(* ===== verification/Btf_Roundtrip.thy ===== *)
theory Btf_Roundtrip
  imports Btf_Encode Btf_Demo
begin

text \<open>
  What \<open>btf_new\<close> makes of the bytes written for an object, in both byte orders.
\<close>

section \<open>Words in the other order\<close>

lemma u32_le_of: "length bs = 4 \<Longrightarrow> u32_le (le_u32 bs) = bs"
  using le_dec_bound [of bs] by (simp add: u32_le_def le_u32_def unat_of_nat le_enc_dec)

lemma bswap_32_twice: "bswap_32 (bswap_32 w) = w"
  by (simp add: bswap_32_def u32_le_of)

lemma header_words:
  assumes "bh_magic h = BTF_MAGIC"
  shows "rd16 (enc_header sw h @ post) 0 = (if sw then bswap_16 BTF_MAGIC else BTF_MAGIC)"
    "rd32 (enc_header sw h @ post) 4 = (if sw then bswap_32 (bh_hdr_len h) else bh_hdr_len h)"
proof -
  have l: "le_u16 (bs @ r) = le_u16 bs" if "length bs = 2" for bs r using that by (simp add: le_u16_def)
  have l4: "le_u32 (bs @ r) = le_u32 bs" if "length bs = 4" for bs r using that by (simp add: le_u32_def)
  show "rd16 (enc_header sw h @ post) 0 = (if sw then bswap_16 BTF_MAGIC else BTF_MAGIC)"
    using assms by (cases sw) (simp_all add: rd16_def enc_header_def bswap_16_def l)
  have "drop 4 (enc_header sw h @ post) =
      (if sw then rev (u32_le (bh_hdr_len h)) else u32_le (bh_hdr_len h)) @ drop 8 (enc_header sw h @ post)"
    by (cases sw) (simp_all add: enc_header_def short_words_def enc_words_Cons)
  then show "rd32 (enc_header sw h @ post) 4 = (if sw then bswap_32 (bh_hdr_len h) else bh_hdr_len h)"
    by (cases sw) (simp_all add: rd32_def bswap_32_def l4)
qed

section \<open>The header\<close>

text \<open>An image of the right size: the lengths of its header are those of its sections.\<close>

definition image_of :: "bool \<Rightarrow> btf_header \<Rightarrow> byte list \<Rightarrow> byte list \<Rightarrow> byte list \<Rightarrow> byte list" where
  "image_of sw h ts ly ss = enc_header sw h @ ts @ ly @ ss"

lemma parse_image_hdr:
  assumes h: "hdr_ok h" and l: "length ts = unat (bh_type_len h)" "length ly = unat (bh_layout_len h)"
      "length ss = unat (bh_str_len h)" "length ts mod 4 = 0"
    and sz: "length (image_of sw h ts ly ss) < 2 ^ 32"
  shows "btf_parse_hdr (btf_file_init (image_of sw h ts ly ss) base False) =
    Some (0, (btf_file_init (image_of False h ts ly ss) base False)\<lparr>bf_hdr := h, bf_swapped := sw\<rparr>)"
proof -
  let ?H = "unat (bh_hdr_len h)" and ?img = "\<lambda>sw. image_of sw h ts ly ss"
  have h': "24 \<le> ?H" "bh_magic h = BTF_MAGIC" "bh_type_off h = 0" "bh_str_off h = bh_type_len h + bh_layout_len h"
      "bh_layout_len h \<noteq> 0 \<longrightarrow> bh_layout_off h = bh_type_len h" "unat (bh_layout_len h) mod 4 = 0"
    using h by (auto simp: hdr_ok_def)
  have len: "length (?img s) = ?H + length ts + length ly + length ss" for s
    using length_enc_header [OF h'(1)] by (simp add: image_of_def)
  have words: "rd16 (?img sw) 0 = (if sw then bswap_16 BTF_MAGIC else BTF_MAGIC)"
    "rd32 (?img sw) 4 = (if sw then bswap_32 (bh_hdr_len h) else bh_hdr_len h)"
    unfolding image_of_def using header_words [OF h'(2)] by simp_all
  have magic: "BTF_MAGIC \<noteq> bswap_16 BTF_MAGIC" unfolding bswap_magic by (simp add: BTF_MAGIC_def)
  define bf where "bf = (btf_file_init (?img sw) base False)\<lparr>bf_swapped := sw\<rparr>"
  define bf' where "bf' = (btf_file_init (?img False) base False)\<lparr>bf_hdr := h, bf_swapped := sw\<rparr>"
  have start: "btf_parse_hdr (btf_file_init (?img sw) base False) = parse_hdr_copy bf ?H"
    using h'(1) len [of sw] words magic
    by (cases sw) (simp_all add: btf_parse_hdr_def Let_def offsetofend_str_len_def btf_file_init_def bf_def bswap_32_twice)
  have swap: "(if bf_swapped bf then bf_swap (btf_bswap_hdr ?H) bf else Some bf) =
      Some (bf\<lparr>bf_raw := ?img False\<rparr>)"
    using bswap_hdr_enc [of h True "ts @ ly @ ss"]
    by (cases sw) (simp_all add: bf_swap_def bf_def btf_file_init_def image_of_def)
  have hd: "header_of (take (min ?H sizeof_btf_header) (?img False) @ replicate (sizeof_btf_header - min ?H sizeof_btf_header) 0) = h"
    unfolding image_of_def by (rule header_of_enc [OF h])
  have extra: "\<not> list_ex (\<lambda>b. b \<noteq> 0) (slice sizeof_btf_header (?H - sizeof_btf_header) (?img False))"
  proof (cases "32 \<le> ?H")
    case True
    then have "slice 32 (?H - 32) (?img False) = replicate (?H - 32) 0"
      by (simp add: slice_def image_of_def enc_header_def sizeof_btf_header_def short_words_def layout_words_def)
    then show ?thesis by (simp add: sizeof_btf_header_def list_ex_iff)
  next
    case False
    then show ?thesis by (simp add: sizeof_btf_header_def slice_def)
  qed
  have so: "unat (bh_str_off h) = unat (bh_type_len h) + unat (bh_layout_len h)"
    unfolding h'(4) using sz len [of sw] l by (intro unat_sum) linarith
  have lo: "bh_layout_len h \<noteq> 0 \<longrightarrow> unat (bh_layout_off h) = unat (bh_type_len h)" using h'(5) by simp
  have "length (bf_raw bf') - ?H = unat (bh_str_off h) + unat (bh_str_len h)" "bf_hdr bf' = h"
    using len [of False] so l by (simp_all add: bf'_def btf_file_init_def)
  then have "parse_hdr_sections bf' ?H = 0"
    using so lo l h'(3) by (cases "bh_layout_len h = 0") (simp_all add: parse_hdr_sections_def Let_def)
  moreover have "\<not> length (bf_raw bf) < ?H" using len [of sw] by (simp add: bf_def btf_file_init_def)
  moreover have "bf\<lparr>bf_raw := ?img False, bf_hdr := h, bf_hdr_extra := False\<rparr> = bf'"
    by (simp add: bf_def bf'_def btf_file_init_def)
  ultimately have "parse_hdr_copy bf ?H = Some (0, bf')"
    unfolding parse_hdr_copy_def swap using hd extra by (simp add: Let_def)
  then show ?thesis using start by (simp add: bf'_def)
qed

section \<open>The sections\<close>

lemma layout_of_prefix: "n \<le> length bs \<Longrightarrow> layout_of n (bs @ post) = layout_of n bs"
proof -
  assume n: "n \<le> length bs"
  have "(bs @ post) ! (4 * i) = bs ! (4 * i)" "(bs @ post) ! (4 * i + 1) = bs ! (4 * i + 1)"
    "rd16 (bs @ post) (4 * i + 2) = rd16 bs (4 * i + 2)" if "i < n div 4" for i
  proof -
    have i: "4 * i + 4 \<le> length bs" using that n by linarith
    then show "(bs @ post) ! (4 * i) = bs ! (4 * i)" "(bs @ post) ! (4 * i + 1) = bs ! (4 * i + 1)"
      by (simp_all add: nth_append)
    show "rd16 (bs @ post) (4 * i + 2) = rd16 bs (4 * i + 2)"
      using i by (simp add: rd16_def le_u16_def)
  qed
  then show ?thesis by (auto simp: layout_of_def)
qed

text \<open>The object after the header, with its sections in some order of bytes each.\<close>

definition at_sections :: "btf_file \<Rightarrow> byte list \<Rightarrow> byte list \<Rightarrow> byte list \<Rightarrow> byte list \<Rightarrow> bool" where
  "at_sections bf hs ts ly ss \<longleftrightarrow>
     bf_raw bf = hs @ ts @ ly @ ss \<and> length hs = unat (bh_hdr_len (bf_hdr bf)) \<and> length ts = type_len bf \<and>
     length ly = layout_len bf \<and> length ss = str_len bf \<and> bh_type_off (bf_hdr bf) = 0 \<and>
     unat (bh_str_off (bf_hdr bf)) = type_len bf + layout_len bf \<and>
     (layout_len bf \<noteq> 0 \<longrightarrow> unat (bh_layout_off (bf_hdr bf)) = type_len bf)"

lemma at_sections_data:
  assumes "at_sections bf hs ts ly ss"
  shows "types_data bf = length hs" "strs_data bf = length hs + length ts + length ly"
    "layout_len bf \<noteq> 0 \<Longrightarrow> layout_data bf = length hs + length ts"
  using assms by (auto simp: at_sections_def types_data_def strs_data_def layout_data_def)

lemma parse_image_strs:
  assumes "at_sections bf hs ts ly ss" "strs_end ss" "str_len bf \<le> 2 ^ 31"
    and "bf_base bf = None \<longrightarrow> (\<exists>s. ss = 0 # s)"
  shows "btf_parse_str_sec bf = Some 0"
proof (cases "ss = []")
  case True
  then show ?thesis using assms(1,4) by (auto simp: btf_parse_str_sec_def at_sections_def)
next
  case False
  have raw: "bf_raw bf ! (length hs + length ts + length ly + i) = ss ! i" for i
    using assms(1) by (simp add: at_sections_def nth_append)
  have n: "str_len bf = length ss" using assms(1) by (simp add: at_sections_def)
  have n2: "0 < length ss" using False by simp
  have e: "length hs + length ts + length ly + length ss - Suc 0 = length hs + length ts + length ly + (length ss - Suc 0)"
    using n2 by linarith
  have len: "length (bf_raw bf) = length hs + length ts + length ly + length ss"
    using assms(1) by (simp add: at_sections_def)
  have "byte_at (bf_raw bf) (strs_data bf + str_len bf - 1) = Some 0"
    using assms(2) n2 raw [of "length ss - 1"]
    by (simp add: byte_at_def at_sections_data [OF assms(1)] n e len strs_end_def)
  moreover have "byte_at (bf_raw bf) (strs_data bf) = Some (ss ! 0)"
    using n2 raw [of 0] by (simp add: byte_at_def at_sections_data [OF assms(1)] len)
  moreover have "bf_base bf = None \<longrightarrow> ss ! 0 = 0" using assms(4) by auto
  ultimately show ?thesis
    using n n2 assms(3) by (auto simp: btf_parse_str_sec_def BTF_MAX_STR_OFFSET_def)
qed

lemma parse_image_layout:
  assumes "at_sections bf hs ts (enc_layout (bf_swapped bf) ly) ss" "\<not> bf_mmap bf" "layout_len bf mod 4 = 0"
  shows "btf_parse_layout_sec bf = Some (0, bf\<lparr>bf_raw := hs @ ts @ ly @ ss\<rparr>)"
proof (cases "layout_len bf \<noteq> 0 \<and> bf_swapped bf")
  case False
  then have "enc_layout (bf_swapped bf) ly = ly"
    using assms(1) by (cases "bf_swapped bf") (auto simp: at_sections_def enc_layout_native)
  then have "bf_raw bf = hs @ ts @ ly @ ss" using assms(1) by (simp add: at_sections_def)
  then have "bf\<lparr>bf_raw := hs @ ts @ ly @ ss\<rparr> = bf" by simp
  then show ?thesis using False assms(3) by (auto simp: btf_parse_layout_sec_def)
next
  case True
  have "bswap_flags (layout_len bf div 4) (layout_data bf) ((hs @ ts) @ enc_layout True ly @ ss) =
      Some ((hs @ ts) @ enc_layout (\<not> True) ly @ ss)"
    using at_sections_data(3) [OF assms(1)] True assms(1,3)
    by (intro bswap_flags_enc) (auto simp: at_sections_def)
  then show ?thesis
    using True assms by (simp add: btf_parse_layout_sec_def bf_swap_def at_sections_def enc_layout_native)
qed

text \<open>The views of the object, all sections in native order.\<close>

lemma image_views:
  assumes "at_sections bf hs (types_bytes ts) ly ss" "bf_type_offs bf = offs_of 0 ts"
  shows "file_types bf = ts" "file_layout bf = layout_of (layout_len bf) ly" "file_strs bf = chars_of ss"
proof -
  have l: "type_len bf = length (types_bytes ts)" using assms(1) by (simp add: at_sections_def)
  have d: "drop (types_data bf) (bf_raw bf) = types_bytes ts @ ly @ ss"
    using at_sections_data(1) [OF assms(1)] assms(1) by (simp add: at_sections_def)
  have "file_types bf = types_of (offs_of 0 ts) (length (types_bytes ts)) (types_bytes ts @ ly @ ss)"
    unfolding file_types_def types_of_def Let_def d assms(2) l ..
  then show "file_types bf = ts" by (simp only: types_of_bytes)
  show "file_layout bf = layout_of (layout_len bf) ly"
  proof (cases "layout_len bf = 0")
    case True
    then show ?thesis by (simp add: file_layout_def layout_of_def)
  next
    case False
    then have "drop (layout_data bf) (bf_raw bf) = ly @ ss"
      using at_sections_data(3) [OF assms(1)] assms(1) by (simp add: at_sections_def)
    then have "file_layout bf = layout_of (layout_len bf) (ly @ ss)"
      by (simp add: file_layout_def layout_of_def Let_def)
    also have "\<dots> = layout_of (layout_len bf) ly"
      using assms(1) by (intro layout_of_prefix) (simp add: at_sections_def)
    finally show ?thesis .
  qed
  show "file_strs bf = chars_of ss"
    using at_sections_data(2) [OF assms(1)] assms(1)
    by (simp add: file_strs_def chars_of_def slice_def at_sections_def)
qed

section \<open>Validation\<close>

text \<open>Validation and the order do not depend on the pointer size and the index of named types.\<close>

lemma sane_irrelevant:
  "btf_sanity_check (Btf base sid ts so ss p nm ly) = btf_sanity_check (Btf base sid ts so ss p' nm' ly)"
proof -
  let ?b = "Btf base sid ts so ss p nm ly" and ?c = "Btf base sid ts so ss p' nm' ly"
  have ti: "btf__type_by_id ?b = btf__type_by_id ?c" "btf__name_by_offset ?b = btf__name_by_offset ?c"
    by (intro ext, simp add: btf__type_by_id_def btf__type_cnt_def btf__name_by_offset_def)+
  have v: "btf_validate_str ?b = btf_validate_str ?c" "btf_validate_id ?b = btf_validate_id ?c"
    by (intro ext, simp only: btf_validate_str_def btf_validate_id_def ti)+
  have e: "validate_member ?b = validate_member ?c" "validate_enum ?b = validate_enum ?c"
      "validate_param ?b = validate_param ?c" "validate_secinfo ?b = validate_secinfo ?c"
    by (intro ext, simp only: validate_member_def validate_enum_def validate_param_def validate_secinfo_def v)+
  have "btf_validate_type ?b = btf_validate_type ?c"
    by (intro ext, simp only: btf_validate_type_def validate_kind_def v e ti btf.sel)
  moreover have "btf_type_by_id ?b = btf_type_by_id ?c" by (intro ext) simp
  ultimately show ?thesis by (simp add: btf_sanity_check_def btf__type_cnt_def)
qed

lemma known_words: "known_types ts \<Longrightarrow> \<forall>t\<in>set ts. words_ok t"
  by (auto simp: known_types_def words_ok_def)

lemma sane_sorted:
  assumes "btf_sanity_check (Btf base sid ts so ss p nm ly) = Some 0" "1 \<le> sid" "known_types ts"
  shows "\<exists>r. btf_check_sorted (Btf base sid ts so ss p nm ly) = Some r"
proof -
  let ?b = "Btf base sid ts so ss p nm ly"
  have "\<forall>t\<in>set ts. wf_type ?b t"
    using sanity_check_ok [of ?b] known_words [OF assms(3)] assms(1,2) by auto
  then show ?thesis using check_sorted_ok [OF refl assms(2)] by blast
qed

section \<open>Loading the image\<close>

lemma load_image:
  assumes at: "at_sections bf hs (enc_types (bf_swapped bf) ts) (enc_layout (bf_swapped bf) ly) ss"
    and st: "strs_end ss" "str_len bf \<le> 2 ^ 31" "bf_base bf = None \<longrightarrow> (\<exists>s. ss = 0 # s)"
    and ok: "known_types ts" "layout_len bf mod 4 = 0" "\<not> bf_mmap bf" "bf_type_offs bf = []" "\<forall>i. alloc i"
    and sane: "btf_sanity_check (Btf (bf_base bf) (file_start_id bf) ts (file_start_str_off bf) (chars_of ss) p nm
      (layout_of (layout_len bf) ly)) = Some 0"
  shows "\<exists>cap. load_sections alloc bf = Some (0, bf\<lparr>bf_raw := hs @ types_bytes ts @ ly @ ss,
      bf_type_offs := offs_of 0 ts, bf_type_offs_cap := cap\<rparr>)"
proof -
  define bf2 where "bf2 = bf\<lparr>bf_raw := hs @ enc_types (bf_swapped bf) ts @ ly @ ss\<rparr>"
  have s: "btf_parse_str_sec bf = Some 0" by (rule parse_image_strs [OF at st])
  have l: "btf_parse_layout_sec bf = Some (0, bf2)"
    unfolding bf2_def by (rule parse_image_layout [OF at ok(3,2)])
  have "\<exists>cap. parse_types_loop alloc bf2 (length (types_bytes [])) = Some (0, bf2\<lparr>bf_raw := hs @ types_bytes ([] @ ts) @ (ly @ ss),
      bf_type_offs := offs_of 0 ([] @ ts), bf_type_offs_cap := cap\<rparr>)"
    using at ok by (intro parse_types_enc) (simp_all add: bf2_def types_data_def at_sections_def)
  then obtain cap where t: "btf_parse_type_sec alloc bf2 = Some (0, bf\<lparr>bf_raw := hs @ types_bytes ts @ ly @ ss,
      bf_type_offs := offs_of 0 ts, bf_type_offs_cap := cap\<rparr>)" (is "_ = Some (0, ?bf)")
    by (auto simp: btf_parse_type_sec_def bf2_def)
  have at': "at_sections ?bf hs (types_bytes ts) ly ss" using at by (simp add: at_sections_def)
  have "the_btf ?bf = Btf (bf_base bf) (file_start_id bf) ts (file_start_str_off bf) (chars_of ss)
      0 (bf_named_start_id bf) (layout_of (layout_len bf) ly)"
    using image_views [OF at'] by (simp add: the_btf_def file_start_id_def file_start_str_off_def)
  then have "btf_sanity_check (the_btf ?bf) = Some 0"
    using sane sane_irrelevant by metis
  then show ?thesis using s l t by (intro exI [of _ cap]) (simp add: load_sections_def)
qed

section \<open>Writing and reading back\<close>

text \<open>Where the ids and the strings of an object begin follows from its base.\<close>

lemma obj_start:
  assumes "obj_ok (b, bs)" "bf_base bf = bases_btf bs"
  shows "file_start_id bf = bo_start_id b" "file_start_str_off bf = bo_start_str_off b" "1 \<le> bo_start_id b"
proof -
  have st: "1 \<le> bo_start_id (hd cs)" if "chain_ok cs" "cs \<noteq> []" for cs
    using that by (induction cs rule: chain_ok.induct) (auto split: list.splits)
  then show "1 \<le> bo_start_id b" using st [of "b # bs"] assms(1) by (simp add: obj_ok_def)
  show "file_start_id bf = bo_start_id b" "file_start_str_off bf = bo_start_str_off b"
  proof (atomize (full), cases bs)
    case Nil
    then show "file_start_id bf = bo_start_id b \<and> file_start_str_off bf = bo_start_str_off b"
      using assms by (simp add: obj_ok_parts file_start_id_def file_start_str_off_def)
  next
    case (Cons c cs)
    then have "own_ok (cs \<noteq> []) (own_types c) c" using assms(1) by (simp add: obj_ok_parts)
    then have "length (strs_bytes c) = bo_str_len c" by (rule own_lengths)
    moreover have "length (types_of offs n mem) = length offs" for offs n mem by (simp add: types_of_def)
    ultimately show "file_start_id bf = bo_start_id b \<and> file_start_str_off bf = bo_start_str_off b"
      using assms Cons
      by (simp add: obj_ok_parts file_start_id_def file_start_str_off_def btf__type_cnt_def own_btf_def
          chars_of_def strs_bytes_def)
  qed
qed

lemma own_btf_image:
  "own_ok split ts b \<Longrightarrow> own_btf b base = Btf base (bo_start_id b) ts (bo_start_str_off b) (chars_of (strs_bytes b))
     (bo_ptr_sz b) (bo_named_start_id b) (layout_of (bo_layout_len b) (layout_bytes b))"
proof -
  assume ok: "own_ok split ts b"
  have "layout_of (bo_layout_len b) (layout_bytes b @ drop (bo_layout_len b) (layout_mem b)) =
      layout_of (bo_layout_len b) (layout_bytes b)"
    using own_lengths(2) [OF ok] by (intro layout_of_prefix) simp
  then have "layout_of (bo_layout_len b) (layout_mem b) = layout_of (bo_layout_len b) (layout_bytes b)"
    by (simp add: layout_bytes_def)
  then show ?thesis
    using own_types_ok [OF ok] by (simp add: own_btf_def own_types_def strs_bytes_def)
qed

lemma types_bytes_mod: "length (types_bytes ts) mod 4 = 0"
  by (induction ts) (auto simp: length_type_bytes mod_simps intro: mod_0_imp_dvd)

text \<open>The object after the header of an image is read.\<close>

definition header_read :: "bool \<Rightarrow> btf_own \<Rightarrow> btf option \<Rightarrow> btf_file" where
  "header_read sw b base =
     (btf_file_init (image_of False (bo_hdr b) (enc_types sw (own_types b)) (enc_layout sw (layout_bytes b)) (strs_bytes b))
        base False)\<lparr>bf_hdr := bo_hdr b, bf_swapped := sw\<rparr>"

lemma header_read_fields:
  "bf_base (header_read sw b base) = base" "bf_hdr (header_read sw b base) = bo_hdr b"
  "\<not> bf_mmap (header_read sw b base)" "bf_type_offs (header_read sw b base) = []"
  "bf_swapped (header_read sw b base) = sw" "bf_named_start_id (header_read sw b base) = 0"
  by (simp_all add: header_read_def btf_file_init_def)

lemma parse_own:
  assumes o: "own_ok split (own_types b) b" and sz: "length (raw_image sw (own_types b) b) < 2 ^ 32"
  shows "btf_parse_hdr (btf_file_init (raw_image sw (own_types b) b) base False) = Some (0, header_read sw b base)"
    "at_sections (header_read sw b base) (enc_header False (bo_hdr b)) (enc_types sw (own_types b))
      (enc_layout sw (layout_bytes b)) (strs_bytes b)"
proof -
  let ?h = "bo_hdr b"
  note l = own_lengths [OF o]
  show "btf_parse_hdr (btf_file_init (raw_image sw (own_types b) b) base False) = Some (0, header_read sw b base)"
    using parse_image_hdr [OF l(6), of "enc_types sw (own_types b)" "enc_layout sw (layout_bytes b)" "strs_bytes b" sw base]
      l(2,3,4) types_bytes_mod sz by (simp add: raw_image_def image_of_def header_read_def)
  have hdr: "bh_type_off ?h = 0" "bh_str_off ?h = bh_type_len ?h + bh_layout_len ?h"
      "bh_layout_len ?h \<noteq> 0 \<longrightarrow> bh_layout_off ?h = bh_type_len ?h"
    using l(6) by (simp_all add: hdr_ok_def)
  have "unat (bh_str_off ?h) = bo_type_len b + bo_layout_len b"
    unfolding hdr(2) using sz length_raw_image [OF o, of sw] by (intro unat_sum) linarith
  then show "at_sections (header_read sw b base) (enc_header False ?h) (enc_types sw (own_types b))
      (enc_layout sw (layout_bytes b)) (strs_bytes b)"
    using l hdr length_enc_header [OF l(1)]
    by (auto simp: at_sections_def header_read_def btf_file_init_def image_of_def)
qed

lemma load_own:
  assumes ok: "obj_ok (b, bs)" and sane: "btf_sanity_check (obj_btf (b, bs)) = Some 0"
    and env: "le_obj env" "le_data env" "\<forall>i. le_offs env i"
    and sz: "length (raw_image sw (own_types b) b) < 2 ^ 32"
  shows "\<exists>bf. btf_new env (raw_image sw (own_types b) b) (bases_btf bs) False = Some (Inr bf) \<and>
    bf_swapped bf = sw \<and> bf_hdr bf = bo_hdr b \<and>
    the_btf bf = (case obj_btf (b, bs) of Btf base sid ts so ss p nm ly \<Rightarrow>
      Btf base sid ts so ss 0 (bf_named_start_id bf) ly)"
proof -
  let ?ts = "own_types b" and ?ly = "layout_bytes b" and ?ss = "strs_bytes b" and ?base = "bases_btf bs"
  define bf where "bf = header_read sw b ?base"
  have o: "own_ok (bs \<noteq> []) ?ts b" using ok by (simp add: obj_ok_parts)
  note l = own_lengths [OF o] and fields = header_read_fields [of sw b ?base, folded bf_def]
    and read = parse_own [OF o sz, of ?base, folded bf_def] and start = obj_start [OF ok, of bf]
  let ?b = "\<lambda>p r. Btf ?base (bo_start_id b) ?ts (bo_start_str_off b) (chars_of ?ss) p r (layout_of (bo_layout_len b) ?ly)"
  have view: "obj_btf (b, bs) = ?b (bo_ptr_sz b) (bo_named_start_id b)"
    using own_btf_image [OF o, of ?base] by (simp add: obj_btf_def)
  have sane': "btf_sanity_check (?b p r) = Some 0" for p r
    using sane sane_irrelevant by (metis view)
  have st: "strs_end ?ss" "bo_str_len b \<le> 2 ^ 31" "?base = None \<longrightarrow> (\<exists>s. ?ss = 0 # s)"
    using o by (cases bs; auto simp: own_ok_def own_strs_ok_def)+
  obtain cap where ld: "load_sections (le_offs env) bf = Some (0, bf\<lparr>bf_raw := enc_header False (bo_hdr b) @ types_bytes ?ts @ ?ly @ ?ss,
      bf_type_offs := offs_of 0 ?ts, bf_type_offs_cap := cap\<rparr>)" (is "_ = Some (0, ?bf)")
    using load_image [of bf "enc_header False (bo_hdr b)" ?ts ?ly ?ss "le_offs env" 0 0] read(2) st l(5,7) env(3) sane' fields start by auto
  have the: "the_btf (?bf\<lparr>bf_named_start_id := r\<rparr>) = ?b 0 r" for r
  proof -
    have "at_sections (?bf\<lparr>bf_named_start_id := r\<rparr>) (enc_header False (bo_hdr b)) (types_bytes ?ts) ?ly ?ss"
      using read(2) by (simp add: at_sections_def)
    from image_views [OF this] show ?thesis
      using fields start by (simp add: the_btf_def file_start_id_def file_start_str_off_def)
  qed
  have "?bf\<lparr>bf_named_start_id := 0\<rparr> = ?bf" by (simp add: bf_def header_read_def btf_file_init_def)
  then have the0: "the_btf ?bf = ?b 0 0" using the by metis
  then obtain r where r: "btf_check_sorted (the_btf ?bf) = Some r"
    using sane_sorted [OF sane' start(3) l(7)] fields by auto
  have "btf_new env (raw_image sw ?ts b) ?base False = Some (Inr (?bf\<lparr>bf_named_start_id := r\<rparr>))"
    unfolding btf_new_def using env(1,2) read(1) ld r by simp
  then show ?thesis
    using the [of r] fields by (intro exI [of _ "?bf\<lparr>bf_named_start_id := r\<rparr>"]) (simp add: view)
qed

text \<open>C39. Writing an object and reading the data back gives the object: for any object the builder can
  leave, in either byte order, the data has the size the header gives, and \<open>btf_new\<close> on it succeeds,
  recognises the byte order and finds the same header, the same types under the same ids and the same
  strings and layout. The object has to pass the validation every loaded object passes, and its data
  must fit the 32 bits of its size.\<close>

theorem raw_data_roundtrip:
  assumes "obj_ok x" "btf_sanity_check (obj_btf x) = Some 0"
    and "(if sw then bo_raw_swapped (fst x) else bo_raw (fst x)) = None"
    and "le_obj env" "le_data env" "\<forall>i. le_offs env i"
    and "unat (bh_hdr_len (bo_hdr (fst x))) + bo_type_len (fst x) + bo_layout_len (fst x) + bo_str_len (fst x) < 2 ^ 32"
  shows "\<exists>data sz bf. btf_get_raw_data True (fst x) sw = Some (Some (data, sz)) \<and> unat sz = length data \<and>
    btf_new env data (bases_btf (snd x)) False = Some (Inr bf) \<and> bf_swapped bf = sw \<and>
    bf_hdr bf = bo_hdr (fst x) \<and>
    the_btf bf = (case obj_btf x of Btf base sid ts so ss p nm ly \<Rightarrow>
      Btf base sid ts so ss 0 (bf_named_start_id bf) ly)"
proof -
  obtain b bs where x: "x = (b, bs)" by (cases x)
  have o: "own_ok (bs \<noteq> []) (own_types b) b" using assms(1) by (simp add: x obj_ok_parts)
  have sz: "length (raw_image sw (own_types b) b) < 2 ^ 32"
    using assms(7) length_raw_image [OF o] by (simp add: x)
  have "btf_get_raw_data True b sw = Some (Some (raw_image sw (own_types b) b, raw_data_size b))"
    using write_raw_data_image [OF o sz] assms(3) unfolding x by (cases sw) (simp_all add: btf_get_raw_data_def)
  then show ?thesis
    using load_own [OF assms(1) [unfolded x] assms(2) [unfolded x] assms(4,5,6) sz] raw_data_size_image [OF o sz]
    unfolding x by auto
qed

text \<open>The file of one type, read, written in the other order and read again.\<close>

lemma u32_le_lit: "u32_le w = [of_nat (unat w), of_nat (unat w div 256), of_nat (unat w div 65536), of_nat (unat w div 16777216)]"
proof -
  have "(4 :: nat) = Suc (Suc (Suc (Suc 0)))" by simp
  then have "u32_le w = le_enc (Suc (Suc (Suc (Suc 0)))) (unat w)" by (simp only: u32_le_def)
  then show ?thesis by (simp add: div_mult2_eq [symmetric] del: of_nat_unat)
qed

definition image_own :: btf_own where
  "image_own = own_of_file (image_file [0] 16)"

lemma image_own_ok: "own_ok False [\<lparr>bt_name_off = 1, bt_info = 0x01000000, bt_union = 4, bt_words = [32]\<rparr>] image_own"
proof -
  let ?t = "\<lparr>bt_name_off = 1, bt_info = 0x01000000, bt_union = 4, bt_words = [32 :: u32]\<rparr>"
  have tb: "type_bytes ?t = [1, 0, 0, 0, 0, 0, 0, 1, 4, 0, 0, 0, 0x20, 0, 0, 0]"
    by (simp add: type_bytes_def type_words_def u32_le_lit)
  have sel: "bo_hdr image_own = image_hdr" "bo_modifiable image_own = False" "bo_raw image_own = Some demo_image"
    "bo_type_offs image_own = [0]"
    by (simp_all add: image_own_def own_of_file_def image_file_def)
  have h: "hdr_ok image_hdr" by (simp add: hdr_ok_def image_hdr_def BTF_MAGIC_def)
  have m: "types_mem image_own = drop 24 demo_image" "btf_strs_data image_own = [0, 0x69, 0x6E, 0x74, 0]"
    by (simp_all add: types_mem_def btf_strs_data_def raw_section_def sel) (simp_all add: image_hdr_def demo_image_def)
  have k: "known_types [?t]"
    by (simp add: known_types_def rest_words_def btf_kind_def btf_vlen_def btf_kinds)
  have s: "own_strs_ok False image_own"
    by (simp add: own_strs_ok_def strs_bytes_def m sel strs_end_def) (simp add: image_hdr_def)
  show ?thesis
    using h k s by (simp add: own_ok_def tb sel m layout_bytes_def) (simp add: image_hdr_def demo_image_def)
qed

theorem raw_data_roundtrip_witness:
  "\<exists>data sz bf. btf_get_raw_data True image_own True = Some (Some (data, sz)) \<and> unat sz = length data \<and>
     btf_new all_ok data None False = Some (Inr bf) \<and> bf_swapped bf \<and> bf_hdr bf = image_hdr \<and>
     btf_types (the_btf bf) = btf_types image_btf \<and> str_data (the_btf bf) = str_data image_btf"
proof -
  let ?x = "(image_own, []) :: btf_obj"
  have t: "own_types image_own = btf_types image_btf"
    using own_types_ok [OF image_own_ok] by (simp add: image_btf_def)
  have f: "bo_hdr image_own = image_hdr" "bo_raw_swapped image_own = None" "bo_start_id image_own = 1"
      "bo_start_str_off image_own = 0"
    by (simp_all add: image_own_def own_of_file_def image_file_def file_start_id_def file_start_str_off_def)
  have ok: "obj_ok ?x" using image_own_ok t f by (simp add: obj_ok_parts image_btf_def)
  have v: "obj_btf ?x = Btf None 1 (btf_types image_btf) 0 (str_data image_btf) (bo_ptr_sz image_own)
      (bo_named_start_id image_own) []"
    using own_btf_image [OF image_own_ok, of None] f
    by (simp add: obj_btf_def image_btf_def chars_of_def strs_bytes_def layout_of_def)
      (simp add: image_hdr_def btf_strs_data_def raw_section_def image_own_def own_of_file_def image_file_def
        demo_image_def char_of_def bit_0)
  have "image_btf = Btf None 1 (btf_types image_btf) 0 (str_data image_btf) 0 0 []" by (simp add: image_btf_def)
  then have "btf_sanity_check (obj_btf ?x) = Some 0" using image_sane sane_irrelevant unfolding v by metis
  then show ?thesis
    using raw_data_roundtrip [OF ok, of True all_ok] f
    by (auto simp: v all_ok_def image_hdr_def)
qed

end
