(* ===== verification/Btf_Iter.thy ===== *)
theory Btf_Iter
  imports Btf_Image
begin

text \<open>
  \<open>lib/libbpf/src/btf_iter.c\<close>: walking over the fields of a type that hold type ids or offsets of
  strings. A pointer into the type memory is its offset there. The walk visits exactly the fields
  that the kind of the type has, in their order, and ends.
\<close>

section \<open>The iterator\<close>

datatype btf_field_iter_kind = BTF_FIELD_ITER_IDS | BTF_FIELD_ITER_STRS

text \<open>The once-per-type offsets, the size of a member or zero, and the offsets in each member.\<close>

record btf_field_desc =
  fd_t_offs :: "nat list"
  fd_m_sz :: nat
  fd_m_offs :: "nat list"

record btf_field_iter =
  fi_desc :: btf_field_desc
  fi_p :: "nat option"
  fi_m_idx :: int
  fi_off_idx :: nat
  fi_vlen :: nat

definition field_desc :: "nat list \<Rightarrow> nat \<Rightarrow> nat list \<Rightarrow> btf_field_desc" where
  "field_desc t_offs m_sz m_offs = \<lparr>fd_t_offs = t_offs, fd_m_sz = m_sz, fd_m_offs = m_offs\<rparr>"

definition ids_desc :: "u16 \<Rightarrow> btf_field_desc option" where
  "ids_desc k =
     (if k \<in> {BTF_KIND_UNKN, BTF_KIND_INT, BTF_KIND_FLOAT, BTF_KIND_ENUM, BTF_KIND_ENUM64}
      then Some (field_desc [] 0 [])
      else if k \<in> {BTF_KIND_FWD, BTF_KIND_CONST, BTF_KIND_VOLATILE, BTF_KIND_RESTRICT, BTF_KIND_PTR,
                   BTF_KIND_TYPEDEF, BTF_KIND_FUNC, BTF_KIND_VAR, BTF_KIND_DECL_TAG, BTF_KIND_TYPE_TAG}
      then Some (field_desc [8] 0 [])
      else if k = BTF_KIND_ARRAY
      then Some (field_desc [sizeof_btf_type + 0, sizeof_btf_type + 4] 0 [])
      else if k = BTF_KIND_STRUCT \<or> k = BTF_KIND_UNION then Some (field_desc [] 12 [4])
      else if k = BTF_KIND_FUNC_PROTO then Some (field_desc [8] 8 [4])
      else if k = BTF_KIND_DATASEC then Some (field_desc [] 12 [0])
      else None)"

definition strs_desc :: "u16 \<Rightarrow> btf_field_desc option" where
  "strs_desc k =
     (if k = BTF_KIND_UNKN then Some (field_desc [] 0 [])
      else if k \<in> {BTF_KIND_INT, BTF_KIND_FLOAT, BTF_KIND_FWD, BTF_KIND_ARRAY, BTF_KIND_CONST,
                   BTF_KIND_VOLATILE, BTF_KIND_RESTRICT, BTF_KIND_PTR, BTF_KIND_TYPEDEF, BTF_KIND_FUNC,
                   BTF_KIND_VAR, BTF_KIND_DECL_TAG, BTF_KIND_TYPE_TAG, BTF_KIND_DATASEC}
      then Some (field_desc [0] 0 [])
      else if k = BTF_KIND_ENUM then Some (field_desc [0] 8 [0])
      else if k = BTF_KIND_ENUM64 then Some (field_desc [0] 12 [0])
      else if k = BTF_KIND_STRUCT \<or> k = BTF_KIND_UNION then Some (field_desc [0] 12 [0])
      else if k = BTF_KIND_FUNC_PROTO then Some (field_desc [0] 8 [0])
      else None)"

definition btf_field_iter_init :: "btf_field_iter_kind \<Rightarrow> btf_type \<Rightarrow> nat \<Rightarrow> int + btf_field_iter" where
  "btf_field_iter_init iter_kind t p =
     (case (case iter_kind of BTF_FIELD_ITER_IDS \<Rightarrow> ids_desc (btf_kind t)
            | BTF_FIELD_ITER_STRS \<Rightarrow> strs_desc (btf_kind t)) of
        None \<Rightarrow> Inl EINVAL
      | Some d \<Rightarrow>
          Inr \<lparr>fi_desc = d, fi_p = Some p, fi_m_idx = - 1, fi_off_idx = 0,
               fi_vlen = (if fd_m_sz d \<noteq> 0 then btf_vlen t else 0)\<rparr>)"

definition members_next :: "nat \<Rightarrow> btf_field_iter \<Rightarrow> nat option \<times> btf_field_iter" where
  "members_next p it =
     (let d = fi_desc it
      in if fd_m_sz d = 0 then (None, it\<lparr>fi_p := None\<rparr>)
         else
           let (p, it) = (if length (fd_m_offs d) \<le> fi_off_idx it
                          then (p + fd_m_sz d, it\<lparr>fi_m_idx := fi_m_idx it + 1, fi_off_idx := 0\<rparr>) else (p, it))
           in if fi_m_idx it < int (fi_vlen it)
              then (Some (p + fd_m_offs d ! fi_off_idx it), it\<lparr>fi_p := Some p, fi_off_idx := fi_off_idx it + 1\<rparr>)
              else (None, it\<lparr>fi_p := None\<rparr>))"

definition btf_field_iter_next :: "btf_field_iter \<Rightarrow> nat option \<times> btf_field_iter" where
  "btf_field_iter_next it =
     (case fi_p it of
        None \<Rightarrow> (None, it)
      | Some p \<Rightarrow>
          if fi_m_idx it < 0
          then if fi_off_idx it < length (fd_t_offs (fi_desc it))
               then (Some (p + fd_t_offs (fi_desc it) ! fi_off_idx it), it\<lparr>fi_off_idx := fi_off_idx it + 1\<rparr>)
               else members_next (p + sizeof_btf_type) (it\<lparr>fi_m_idx := 0, fi_off_idx := 0\<rparr>)
          else members_next p it)"

section \<open>The walk ends\<close>

text \<open>The steps left: those of the type itself, then those of its members.\<close>

definition members_left :: "btf_field_iter \<Rightarrow> nat" where
  "members_left it =
     (fi_vlen it - nat (fi_m_idx it)) * (length (fd_m_offs (fi_desc it)) + 2) +
     (length (fd_m_offs (fi_desc it)) + 1 - fi_off_idx it)"

definition fields_left :: "btf_field_iter \<Rightarrow> nat" where
  "fields_left it =
     (if fi_m_idx it < 0
      then length (fd_t_offs (fi_desc it)) + 1 - fi_off_idx it + members_left (it\<lparr>fi_m_idx := 0, fi_off_idx := 0\<rparr>)
      else members_left it)"

lemma members_next_left:
  assumes "members_next p it = (Some q, it')" "0 \<le> fi_m_idx it"
  shows "fields_left it' < fields_left it"
proof -
  let ?c = "length (fd_m_offs (fi_desc it))"
  have s: "fd_m_sz (fi_desc it) \<noteq> 0" by (rule notI) (use assms(1) in \<open>simp add: members_next_def\<close>)
  show ?thesis
  proof (cases "?c \<le> fi_off_idx it")
    case True
    then have m: "fi_m_idx it + 1 < int (fi_vlen it)"
        "it' = it\<lparr>fi_m_idx := fi_m_idx it + 1, fi_p := fi_p it', fi_off_idx := 1\<rparr>"
      using assms(1) s by (auto simp: members_next_def Let_def split: if_splits)
    define n where "n = fi_vlen it - nat (fi_m_idx it)"
    have n: "fi_vlen it - nat (fi_m_idx it + 1) = n - 1" "1 < n" using m(1) assms(2) by (simp_all add: n_def)
    have f: "fi_m_idx it' = fi_m_idx it + 1" "fi_off_idx it' = 1" "fi_vlen it' = fi_vlen it" "fi_desc it' = fi_desc it"
      by (subst m(2), simp)+
    have "fields_left it' = (n - 1) * (?c + 2) + ?c"
      using assms(2) unfolding fields_left_def members_left_def f n(1) by simp
    moreover have "n * (?c + 2) \<le> fields_left it"
      using assms(2) unfolding fields_left_def members_left_def n_def by simp
    moreover have "(n - 1) * (?c + 2) + (?c + 2) = n * (?c + 2)" using n(2) by (cases n) simp_all
    ultimately show ?thesis by linarith
  next
    case False
    then have "it' = it\<lparr>fi_p := Some p, fi_off_idx := fi_off_idx it + 1\<rparr>"
      using assms(1) s by (auto simp: members_next_def Let_def split: if_splits)
    then show ?thesis using False assms(2) by (simp add: fields_left_def members_left_def) linarith
  qed
qed

lemma next_left:
  assumes "btf_field_iter_next it = (Some q, it')"
  shows "fields_left it' < fields_left it"
proof -
  obtain p where p: "fi_p it = Some p" using assms by (cases "fi_p it") (auto simp: btf_field_iter_next_def)
  consider "0 \<le> fi_m_idx it" | "fi_m_idx it < 0" "fi_off_idx it < length (fd_t_offs (fi_desc it))"
    | "fi_m_idx it < 0" "length (fd_t_offs (fi_desc it)) \<le> fi_off_idx it" by linarith
  then show ?thesis
  proof cases
    case 1
    then show ?thesis using assms p members_next_left by (simp add: btf_field_iter_next_def)
  next
    case 2
    then have "it' = it\<lparr>fi_off_idx := fi_off_idx it + 1\<rparr>" using assms p by (simp add: btf_field_iter_next_def)
    then show ?thesis using 2 by (simp add: fields_left_def)
  next
    case 3
    then have "members_next (p + sizeof_btf_type) (it\<lparr>fi_m_idx := 0, fi_off_idx := 0\<rparr>) = (Some q, it')"
      using assms p by (simp add: btf_field_iter_next_def)
    from members_next_left [OF this] show ?thesis using 3 by (simp add: fields_left_def)
  qed
qed

text \<open>The fields a loop over the iterator sees.\<close>

function field_offs :: "btf_field_iter \<Rightarrow> nat list" where
  "field_offs it = (case btf_field_iter_next it of (None, _) \<Rightarrow> [] | (Some q, it') \<Rightarrow> q # field_offs it')"
  by pat_completeness auto
termination
  by (relation "measure fields_left") (auto intro: next_left [OF sym])

declare field_offs.simps [simp del]

section \<open>The fields visited\<close>

text \<open>The places of the fields among the words of a type, by its kind.\<close>

definition id_words :: "btf_type \<Rightarrow> nat list" where
  "id_words t =
     (let k = btf_kind t
      in if k \<in> {BTF_KIND_FWD, BTF_KIND_CONST, BTF_KIND_VOLATILE, BTF_KIND_RESTRICT, BTF_KIND_PTR,
                 BTF_KIND_TYPEDEF, BTF_KIND_FUNC, BTF_KIND_VAR, BTF_KIND_DECL_TAG, BTF_KIND_TYPE_TAG} then [2]
         else if k = BTF_KIND_ARRAY then [3, 4]
         else if k = BTF_KIND_STRUCT \<or> k = BTF_KIND_UNION then map (\<lambda>i. 3 + (3 * i + 1)) [0..<btf_vlen t]
         else if k = BTF_KIND_FUNC_PROTO then 2 # map (\<lambda>i. 3 + (2 * i + 1)) [0..<btf_vlen t]
         else if k = BTF_KIND_DATASEC then map (\<lambda>i. 3 + 3 * i) [0..<btf_vlen t]
         else [])"

definition str_words :: "btf_type \<Rightarrow> nat list" where
  "str_words t =
     (let k = btf_kind t
      in if k \<in> {BTF_KIND_STRUCT, BTF_KIND_UNION, BTF_KIND_ENUM64} then 0 # map (\<lambda>i. 3 + 3 * i) [0..<btf_vlen t]
         else if k \<in> {BTF_KIND_ENUM, BTF_KIND_FUNC_PROTO} then 0 # map (\<lambda>i. 3 + 2 * i) [0..<btf_vlen t]
         else [0])"

text \<open>Those of the members, from a member on whose fields have been seen.\<close>

lemma members_walk:
  "fi_m_idx it = int i \<Longrightarrow> fi_off_idx it = 1 \<Longrightarrow> fi_p it = Some p \<Longrightarrow> fd_m_offs (fi_desc it) = [mo] \<Longrightarrow>
     fd_m_sz (fi_desc it) \<noteq> 0 \<Longrightarrow>
     field_offs it = map (\<lambda>j. p + fd_m_sz (fi_desc it) * (j - i) + mo) [Suc i..<fi_vlen it]"
proof (induction "fi_vlen it - i" arbitrary: it i p)
  case 0
  then show ?case
    by (subst field_offs.simps) (simp add: btf_field_iter_next_def members_next_def Let_def)
next
  case (Suc n)
  show ?case
  proof (cases "Suc i < fi_vlen it")
    case False
    then show ?thesis
      using Suc.prems by (subst field_offs.simps) (simp add: btf_field_iter_next_def members_next_def Let_def)
  next
    case True
    let ?p = "p + fd_m_sz (fi_desc it)"
    define it' where "it' = it\<lparr>fi_m_idx := int (Suc i), fi_p := Some ?p, fi_off_idx := 1\<rparr>"
    have "btf_field_iter_next it = (Some (?p + mo), it')"
      using Suc.prems True by (cases it) (simp add: btf_field_iter_next_def members_next_def Let_def it'_def)
    moreover have "field_offs it' = map (\<lambda>j. ?p + fd_m_sz (fi_desc it') * (j - Suc i) + mo) [Suc (Suc i)..<fi_vlen it']"
      using Suc.hyps(2) Suc.prems by (intro Suc.hyps(1)) (simp_all add: it'_def)
    ultimately have "field_offs it = (?p + mo) #
        map (\<lambda>j. ?p + fd_m_sz (fi_desc it) * (j - Suc i) + mo) [Suc (Suc i)..<fi_vlen it]"
      by (subst field_offs.simps) (simp add: it'_def)
    also have "\<dots> = map (\<lambda>j. p + fd_m_sz (fi_desc it) * (j - i) + mo) [Suc i..<fi_vlen it]"
    proof -
      have "m + m * (j - Suc i) = m * (j - i)" if "Suc i < j" for m j :: nat
        using that by (cases "j - i") (auto simp: diff_Suc split: nat.splits)
      then show ?thesis using True by (simp add: upt_conv_Cons)
    qed
    finally show ?thesis .
  qed
qed

definition walk_from :: "nat \<Rightarrow> btf_field_desc \<Rightarrow> nat \<Rightarrow> nat list" where
  "walk_from p d vlen =
     map (\<lambda>o'. p + o') (fd_t_offs d) @
     (if fd_m_sz d = 0 then []
      else map (\<lambda>i. p + sizeof_btf_type + fd_m_sz d * i + List.last (fd_m_offs d)) [0..<vlen])"

lemma type_walk:
  assumes "fi_m_idx it = - 1" "fi_p it = Some p" "fd_m_sz d \<noteq> 0 \<longrightarrow> length (fd_m_offs d) = 1" "fi_desc it = d"
  shows "field_offs it = drop (fi_off_idx it) (map (\<lambda>o'. p + o') (fd_t_offs d)) @
     (if fd_m_sz d = 0 then []
      else map (\<lambda>i. p + sizeof_btf_type + fd_m_sz d * i + List.last (fd_m_offs d)) [0..<fi_vlen it])"
  using assms
proof (induction "length (fd_t_offs d) - fi_off_idx it" arbitrary: it)
  case 0
  then have n: "btf_field_iter_next it =
      members_next (p + sizeof_btf_type) (it\<lparr>fi_m_idx := 0, fi_off_idx := 0\<rparr>)"
    by (simp add: btf_field_iter_next_def)
  show ?case
  proof (cases "fd_m_sz d = 0 \<or> fi_vlen it = 0")
    case True
    then show ?thesis
      using 0 n by (subst field_offs.simps) (auto simp: members_next_def Let_def)
  next
    case False
    obtain mo where mo: "fd_m_offs d = [mo]" using 0 False by (auto simp: length_Suc_conv)
    define it' where "it' = it\<lparr>fi_m_idx := 0, fi_p := Some (p + sizeof_btf_type), fi_off_idx := 1\<rparr>"
    have "btf_field_iter_next it = (Some (p + sizeof_btf_type + mo), it')"
      using n False mo 0 by (simp add: members_next_def Let_def it'_def)
    then have "field_offs it = (p + sizeof_btf_type + mo) # field_offs it'"
      by (subst field_offs.simps) simp
    also have "field_offs it' = map (\<lambda>j. p + sizeof_btf_type + fd_m_sz (fi_desc it') * (j - 0) + mo) [Suc 0..<fi_vlen it']"
      using 0 False mo by (intro members_walk) (simp_all add: it'_def)
    finally show ?thesis using 0 False mo by (simp add: it'_def upt_conv_Cons)
  qed
next
  case (Suc n)
  define it' where "it' = it\<lparr>fi_off_idx := fi_off_idx it + 1\<rparr>"
  have l: "fi_off_idx it < length (fd_t_offs d)" using Suc.hyps(2) by linarith
  then have "btf_field_iter_next it = (Some (p + fd_t_offs d ! fi_off_idx it), it')"
    using Suc.prems by (simp add: btf_field_iter_next_def it'_def)
  then have "field_offs it = (p + fd_t_offs d ! fi_off_idx it) # field_offs it'"
    by (subst field_offs.simps) simp
  also have "field_offs it' = drop (fi_off_idx it') (map (\<lambda>o'. p + o') (fd_t_offs d)) @
     (if fd_m_sz d = 0 then []
      else map (\<lambda>i. p + sizeof_btf_type + fd_m_sz d * i + List.last (fd_m_offs d)) [0..<fi_vlen it'])"
    using Suc.hyps(2) Suc.prems by (intro Suc.hyps(1)) (simp_all add: it'_def)
  finally show ?case
    using l Cons_nth_drop_Suc [of "fi_off_idx it" "map (\<lambda>o'. p + o') (fd_t_offs d)"] by (simp add: it'_def)
qed

lemma ids_walk:
  assumes "ids_desc (btf_kind t) = Some d"
  shows "walk_from p d (btf_vlen t) = map (\<lambda>i. p + 4 * i) (id_words t)"
    "fd_m_sz d \<noteq> 0 \<longrightarrow> length (fd_m_offs d) = 1"
proof -
  let ?k = "btf_kind t"
  let ?none = "{BTF_KIND_UNKN, BTF_KIND_INT, BTF_KIND_FLOAT, BTF_KIND_ENUM, BTF_KIND_ENUM64}"
  let ?one = "{BTF_KIND_FWD, BTF_KIND_CONST, BTF_KIND_VOLATILE, BTF_KIND_RESTRICT, BTF_KIND_PTR,
    BTF_KIND_TYPEDEF, BTF_KIND_FUNC, BTF_KIND_VAR, BTF_KIND_DECL_TAG, BTF_KIND_TYPE_TAG}"
  note desc = assms [unfolded ids_desc_def field_desc_def]
  have "walk_from p d (btf_vlen t) = map (\<lambda>i. p + 4 * i) (id_words t) \<and> (fd_m_sz d \<noteq> 0 \<longrightarrow> length (fd_m_offs d) = 1)"
  proof (cases "?k \<in> ?none")
    case True
    moreover from True have "id_words t = []" by (auto simp: id_words_def btf_kinds)
    moreover have "d = \<lparr>fd_t_offs = [], fd_m_sz = 0, fd_m_offs = []\<rparr>"
      using desc True by (simp only: if_True option.inject)
    ultimately show ?thesis by (simp add: walk_from_def)
  next
    case none: False
    show ?thesis
    proof (cases "?k \<in> ?one")
      case True
      then have "id_words t = [2]" unfolding id_words_def Let_def by (simp only: if_True)
      moreover have "d = \<lparr>fd_t_offs = [8], fd_m_sz = 0, fd_m_offs = []\<rparr>"
        using desc none True by (simp only: if_True if_False option.inject)
      ultimately show ?thesis by (simp add: walk_from_def)
    next
      case False
      then show ?thesis
        using desc none unfolding id_words_def Let_def
        by (auto simp only: if_False walk_from_def sizeof_btf_type_def option.inject option.distinct split: if_splits) simp_all
    qed
  qed
  then show "walk_from p d (btf_vlen t) = map (\<lambda>i. p + 4 * i) (id_words t)"
    "fd_m_sz d \<noteq> 0 \<longrightarrow> length (fd_m_offs d) = 1" by blast+
qed

lemma strs_walk:
  assumes "strs_desc (btf_kind t) = Some d" "btf_kind t \<noteq> BTF_KIND_UNKN"
  shows "walk_from p d (btf_vlen t) = map (\<lambda>i. p + 4 * i) (str_words t)"
    "fd_m_sz d \<noteq> 0 \<longrightarrow> length (fd_m_offs d) = 1"
proof -
  let ?k = "btf_kind t"
  let ?one = "{BTF_KIND_INT, BTF_KIND_FLOAT, BTF_KIND_FWD, BTF_KIND_ARRAY, BTF_KIND_CONST,
    BTF_KIND_VOLATILE, BTF_KIND_RESTRICT, BTF_KIND_PTR, BTF_KIND_TYPEDEF, BTF_KIND_FUNC,
    BTF_KIND_VAR, BTF_KIND_DECL_TAG, BTF_KIND_TYPE_TAG, BTF_KIND_DATASEC}"
  note desc = assms(1) [unfolded strs_desc_def field_desc_def]
  have "walk_from p d (btf_vlen t) = map (\<lambda>i. p + 4 * i) (str_words t) \<and> (fd_m_sz d \<noteq> 0 \<longrightarrow> length (fd_m_offs d) = 1)"
  proof (cases "?k \<in> ?one")
    case True
    moreover from True have "str_words t = [0]" by (auto simp: str_words_def btf_kinds)
    moreover have "d = \<lparr>fd_t_offs = [0], fd_m_sz = 0, fd_m_offs = []\<rparr>"
      using desc assms(2) True by (simp only: if_True if_False option.inject)
    ultimately show ?thesis by (simp add: walk_from_def)
  next
    case False
    then show ?thesis
      using desc assms(2) unfolding str_words_def Let_def
      by (auto simp: walk_from_def sizeof_btf_type_def btf_kinds split: if_splits)
  qed
  then show "walk_from p d (btf_vlen t) = map (\<lambda>i. p + 4 * i) (str_words t)"
    "fd_m_sz d \<noteq> 0 \<longrightarrow> length (fd_m_offs d) = 1" by blast+
qed

lemma walk_init:
  assumes "btf_field_iter_init k t p = Inr it" "btf_kind t \<noteq> BTF_KIND_UNKN"
  shows "field_offs it =
    map (\<lambda>i. p + 4 * i) (case k of BTF_FIELD_ITER_IDS \<Rightarrow> id_words t | BTF_FIELD_ITER_STRS \<Rightarrow> str_words t)"
proof -
  obtain d where d: "(case k of BTF_FIELD_ITER_IDS \<Rightarrow> ids_desc (btf_kind t)
        | BTF_FIELD_ITER_STRS \<Rightarrow> strs_desc (btf_kind t)) = Some d"
      "it = \<lparr>fi_desc = d, fi_p = Some p, fi_m_idx = - 1, fi_off_idx = 0, fi_vlen = if fd_m_sz d \<noteq> 0 then btf_vlen t else 0\<rparr>"
    using assms by (auto simp: btf_field_iter_init_def split: option.splits)
  have w: "field_offs it = walk_from p d (btf_vlen t)" if m: "fd_m_sz d \<noteq> 0 \<longrightarrow> length (fd_m_offs d) = 1"
    using type_walk [OF _ _ m, of it p] by (auto simp: d(2) walk_from_def)
  show ?thesis
    using d(1) w ids_walk(1) [of t d p] ids_walk(2) [of t d] strs_walk(1) [OF _ assms(2), of d p] strs_walk(2) [OF _ assms(2), of d]
    by (cases k) simp_all
qed

end
