(* ===== verification/Btf_Copy.thy ===== *)
theory Btf_Copy
  imports Btf_Iter Btf_Build
begin

text \<open>
  Copying types from one object to another (\<open>btf__add_type\<close> and \<open>btf__add_btf\<close> of
  \<open>lib/libbpf/src/btf.c\<close>). The bytes are copied, then the strings they name are added to the
  destination and their offsets rewritten in place; \<open>btf__add_btf\<close> also moves the ids. The
  source is neither the destination nor one of its bases. \<open>None\<close> is a null pointer used as a string, or a read outside
  the memory of the types.
\<close>

section \<open>Strings\<close>

text \<open>The offsets already added: a hash table from those of the source, hashed by themselves.\<close>

type_synonym off_map = "(u32, nat) hashmap"

definition btf_dedup_identity_hash_fn :: "u32 \<Rightarrow> u64" where
  "btf_dedup_identity_hash_fn key = ucast key"

definition btf_dedup_equal_fn :: "u32 \<Rightarrow> u32 \<Rightarrow> bool" where
  "btf_dedup_equal_fn k1 k2 \<longleftrightarrow> k1 = k2"

text \<open>The allocator's answers to growing the table and to its entry, and to the strings added.\<close>

record copy_env =
  ce_grow :: bool
  ce_entry :: bool
  ce_build :: "nat \<Rightarrow> build_env"

definition bytes_of :: "string \<Rightarrow> byte list" where
  "bytes_of s = map (\<lambda>c. of_nat (of_char c)) s"

definition store_word :: "nat \<Rightarrow> u32 \<Rightarrow> btf_obj \<Rightarrow> btf_obj" where
  "store_word q w x = (store_words q [w] (fst x), snd x)"

definition load_word :: "nat \<Rightarrow> btf_obj \<Rightarrow> u32" where
  "load_word q x = rd32 (bo_types (fst x)) q"

definition btf_rewrite_str ::
    "btf \<Rightarrow> copy_env \<Rightarrow> nat \<Rightarrow> off_map option \<times> btf_obj \<Rightarrow> ((int + unit) \<times> off_map option \<times> btf_obj) option" where
  "btf_rewrite_str src env q st =
     (let (m, x) = st; off = load_word q x
      in if off = 0 then Some (Inr (), m, x)
         else
           case (case m of None \<Rightarrow> None | Some h \<Rightarrow> hashmap_find btf_dedup_identity_hash_fn btf_dedup_equal_fn h off) of
             Some mapped \<Rightarrow> Some (Inr (), m, store_word q (of_nat mapped) x)
           | None \<Rightarrow>
               (case btf__name_by_offset src off of
                  None \<Rightarrow> None
                | Some s \<Rightarrow>
                    (case btf__add_str (ce_build env) (bytes_of s) x of
                       (Inl e, x) \<Rightarrow> Some (Inl e, m, x)
                     | (Inr k, x) \<Rightarrow>
                         (case m of
                            None \<Rightarrow> Some (Inr (), None, store_word q (of_nat k) x)
                          | Some h \<Rightarrow>
                              (case hashmap_insert btf_dedup_identity_hash_fn btf_dedup_equal_fn (ce_grow env)
                                      (ce_entry env) h off k HASHMAP_APPEND of
                                 (err, _, h) \<Rightarrow>
                                   if err \<noteq> 0 then Some (Inl (- err), Some h, x)
                                   else Some (Inr (), Some h, store_word q (of_nat k) x))))))"

text \<open>
  The loop over the strings of a type. Offsets below \<open>lo\<close> are those of a shared base and stay;
  \<open>i\<close> counts the strings, for the allocator.
\<close>

fun rewrite_strs ::
    "btf \<Rightarrow> (nat \<Rightarrow> copy_env) \<Rightarrow> nat \<Rightarrow> nat \<Rightarrow> nat list \<Rightarrow> off_map option \<times> btf_obj \<Rightarrow>
       ((int + unit) \<times> off_map option \<times> btf_obj) option" where
  "rewrite_strs src env lo i [] st = Some (Inr (), st)"
| "rewrite_strs src env lo i (q # qs) st =
     (if unat (load_word q (snd st)) < lo then rewrite_strs src env lo (Suc i) qs st
      else
        case btf_rewrite_str src (env i) q st of
          None \<Rightarrow> None
        | Some (Inl e, st) \<Rightarrow> Some (Inl e, st)
        | Some (Inr _, st) \<Rightarrow> rewrite_strs src env lo (Suc i) qs st)"

section \<open>One type\<close>

definition btf_add_type ::
    "btf \<Rightarrow> (nat \<Rightarrow> build_env) \<Rightarrow> (nat \<Rightarrow> copy_env) \<Rightarrow> btf_type \<Rightarrow> btf_obj \<Rightarrow> ((int + nat) \<times> btf_obj) option" where
  "btf_add_type src env cenv src_type x =
     (let sz = btf_type_size (layout src) (base_btf src) src_type
      in if sz < 0 then Some (Inl (- sz), x)
         else
           case reserve_type env (nat sz) x of
             (Inl e, x) \<Rightarrow> Some (Inl e, x)
           | (Inr p, x) \<Rightarrow>
               if length (type_bytes src_type) < nat sz then None
               else
                 let x = ((fst x)\<lparr>bo_types := put_bytes p (take (nat sz) (type_bytes src_type)) (bo_types (fst x))\<rparr>, snd x)
                 in case btf_field_iter_init BTF_FIELD_ITER_STRS src_type p of
                      Inl e \<Rightarrow> Some (Inl e, x)
                    | Inr it \<Rightarrow>
                        (case rewrite_strs src cenv 0 0 (field_offs it) (None, x) of
                           None \<Rightarrow> None
                         | Some (Inl e, _, x) \<Rightarrow> Some (Inl e, x)
                         | Some (Inr _, _, x) \<Rightarrow> Some (on_own (btf_commit_type (env 0) (nat sz)) x)))"

definition btf__add_type ::
    "(nat \<Rightarrow> build_env) \<Rightarrow> (nat \<Rightarrow> copy_env) \<Rightarrow> btf \<Rightarrow> btf_type \<Rightarrow> btf_obj \<Rightarrow> ((int + nat) \<times> btf_obj) option" where
  "btf__add_type env cenv src src_type x = btf_add_type src env cenv src_type x"

section \<open>All the types of an object\<close>

text \<open>Before the first type the index is the null pointer, which no types at all leave as it is.\<close>

definition btf_add_type_offs_mem :: "build_env \<Rightarrow> nat \<Rightarrow> btf_own \<Rightarrow> (int + unit) \<times> btf_own" where
  "btf_add_type_offs_mem env add_cnt b =
     (let nr = length (bo_type_offs b); cap = bo_type_offs_cap b
      in if nr + add_cnt \<le> cap then (if cap = 0 then Inl ENOMEM else Inr (), b)
         else if BTF_MAX_NR_TYPES < nr + add_cnt \<or> \<not> be_offs env nr then (Inl ENOMEM, b)
         else (Inr (), b\<lparr>bo_type_offs_cap := add_mem_cnt cap nr BTF_MAX_NR_TYPES add_cnt\<rparr>))"

text \<open>Ids that are zero or below \<open>src_start_id\<close> stay; the sum wraps around.\<close>

fun remap_ids :: "nat \<Rightarrow> u32 \<Rightarrow> nat list \<Rightarrow> btf_obj \<Rightarrow> btf_obj" where
  "remap_ids src_start_id dst_id [] x = x"
| "remap_ids src_start_id dst_id (q # qs) x =
     (let type_id = load_word q x
      in remap_ids src_start_id dst_id qs
           (if type_id = 0 \<or> unat type_id < src_start_id then x
            else store_word q (type_id + (dst_id - of_nat src_start_id)) x))"

text \<open>The loop over the types copied to \<open>q\<close>; \<open>offs\<close> is the index so far.\<close>

fun copy_types ::
    "btf \<Rightarrow> (nat \<Rightarrow> copy_env) \<Rightarrow> nat \<Rightarrow> nat \<Rightarrow> u32 \<Rightarrow> nat \<Rightarrow> nat \<Rightarrow> nat \<Rightarrow> nat list \<Rightarrow> off_map \<times> btf_obj \<Rightarrow>
       ((int + nat list) \<times> btf_obj) option" where
  "copy_types src env lo src_start_id dst_id 0 i q offs (m, x) = Some (Inr offs, x)"
| "copy_types src env lo src_start_id dst_id (Suc n) i q offs (m, x) =
     (if length (bo_types (fst x)) < q + sizeof_btf_type then None
      else
        let t = own_type q (fst x);
            sz = btf_type_size (layout src) (base_btf src) t
        in if sz < 0 then Some (Inl (- sz), x)
           else if length (bo_types (fst x)) < q + nat sz then None
           else
             case btf_field_iter_init BTF_FIELD_ITER_STRS t q of
               Inl e \<Rightarrow> Some (Inl e, x)
             | Inr its \<Rightarrow>
                 (case rewrite_strs src env lo i (field_offs its) (Some m, x) of
                    None \<Rightarrow> None
                  | Some (Inl e, _, x) \<Rightarrow> Some (Inl e, x)
                  | Some (Inr _, m', x) \<Rightarrow>
                      (case btf_field_iter_init BTF_FIELD_ITER_IDS t q of
                         Inl e \<Rightarrow> Some (Inl e, x)
                       | Inr iti \<Rightarrow>
                           copy_types src env lo src_start_id dst_id n (i + length (field_offs its)) (q + nat sz)
                             (offs @ [q])
                             (case m' of None \<Rightarrow> m | Some m \<Rightarrow> m, remap_ids src_start_id dst_id (field_offs iti) x))))"

definition btf__add_btf ::
    "(nat \<Rightarrow> build_env) \<Rightarrow> (nat \<Rightarrow> copy_env) \<Rightarrow> bool \<Rightarrow> bool \<Rightarrow> btf_obj \<Rightarrow> btf_obj \<Rightarrow> ((int + nat) \<times> btf_obj) option" where
  "btf__add_btf env cenv map_ok same_base src x =
     (if snd src \<noteq> [] \<and> \<not> same_base then Some (Inl EOPNOTSUPP, x)
      else
        let src_start_id = (case snd src of [] \<Rightarrow> 1 | c # bs \<Rightarrow> btf__type_cnt (obj_btf (c, bs)));
            data_sz = bo_type_len (fst src);
            cnt = length (bo_type_offs (fst src))
        in case reserve_type env data_sz x of
             (Inl e, x) \<Rightarrow> Some (Inl e, x)
           | (Inr p, x) \<Rightarrow>
               (case on_own (btf_add_type_offs_mem (env 0) cnt) x of
                  (Inl e, x) \<Rightarrow> Some (Inl e, x)
                | (Inr _, x) \<Rightarrow>
                    if \<not> map_ok then Some (Inl ENOMEM, x)
                    else
                      let x = ((fst x)\<lparr>bo_types := put_bytes p (take data_sz (types_mem (fst src))) (bo_types (fst x))\<rparr>, snd x);
                          nr = length (bo_type_offs (fst x));
                          old_strs_len = bh_str_len (bo_hdr (fst x))
                      in case copy_types (obj_btf src) cenv (bo_start_str_off (fst src)) src_start_id
                                (of_nat (bo_start_id (fst x) + nr)) cnt 0 p [] (hashmap__init, x) of
                           None \<Rightarrow> None
                         | Some (Inl e, b, bs) \<Rightarrow>
                             Some (Inl e, (b\<lparr>bo_types := put_bytes (bo_type_len b) (replicate data_sz 0) (bo_types b),
                                             bo_hdr := (bo_hdr b)\<lparr>bh_str_len := old_strs_len\<rparr>\<rparr>, bs))
                         | Some (Inr offs, b, bs) \<Rightarrow>
                             let b = btf_hdr_update_type_len (bh_type_len (bo_hdr b) + of_nat data_sz)
                                       (b\<lparr>bo_type_offs := bo_type_offs b @ offs\<rparr>)
                             in Some (Inr (bo_start_id b + length (bo_type_offs b) - cnt), b, bs)))"

end
