(* ===== verification/Btf_Build_Props.thy ===== *)
theory Btf_Build_Props
  imports Btf_Build_Chain
begin

text \<open>
  What the builder promises: a request is refused because of its arguments, fails for lack of
  memory and leaves the types alone, or adds exactly the type or element asked for, whose name is
  found at its offset; names and types already there stay.
\<close>

section \<open>The two forms of a request\<close>

lemma named_grows: "obj_ok x \<Longrightarrow> obj_grows x x' \<Longrightarrow> named x k name \<Longrightarrow> named x' k name"
  using obj_grows_names by (auto simp: named_def)

lemma keeps_type_len: "keeps b b' \<Longrightarrow> bo_type_len b' = bo_type_len b \<and> bo_type_offs b' = bo_type_offs b"
  by (auto simp: keeps_def dest: arg_cong [where f = bh_type_len])

text \<open>Reserving memory and adding the name.\<close>

lemma reserve_and_name:
  assumes ok: "obj_ok x" and s: "0 \<notin> set (name_bytes name)"
    and r: "andthen (reserve_type env sz x) (\<lambda>p x. andthen (add_opt_str env name x) (\<lambda>off x. fin p off x)) = (r, x')"
  shows "(\<exists>e. r = Inl e \<and> alloc_error e \<and> obj_grows x x' \<and> obj_types x' = obj_types x) \<or>
    (\<exists>b bs off. obj_ok (b, bs) \<and> obj_grows x (b, bs) \<and> obj_types (b, bs) = obj_types x \<and> fresh b \<and>
       bo_type_len b + sz \<le> length (bo_types b) \<and> named (b, bs) off name \<and> fin (bo_type_len b) off (b, bs) = (r, x'))"
proof -
  obtain b0 bs where x: "x = (b0, bs)" by (cases x)
  obtain r1 x1 where a1: "reserve_type env sz (b0, bs) = (r1, x1)" by (cases "reserve_type env sz (b0, bs)")
  obtain b1 where b1: "x1 = (b1, bs)" "obj_grows (b0, bs) (b1, bs)" "obj_types (b1, bs) = obj_types (b0, bs)"
      "case r1 of Inl e \<Rightarrow> alloc_error e
       | Inr p \<Rightarrow> fresh b1 \<and> p = bo_type_len b1 \<and> bo_type_len b1 + sz \<le> length (bo_types b1)"
    using reserve_type_ok [OF _ a1] ok x by auto
  show ?thesis
  proof (cases r1)
    case (Inl e)
    then have "r = Inl e" "x' = (b1, bs)" "alloc_error e" using r x a1 b1(1,4) by simp_all
    then show ?thesis using b1(2,3) x by simp
  next
    case (Inr p)
    then have p: "fresh b1" "p = bo_type_len b1" "bo_type_len b1 + sz \<le> length (bo_types b1)" using b1(4) by simp_all
    have ok1: "obj_ok (b1, bs)" using b1(2) by (simp add: obj_grows_def)
    obtain r2 x2 where a2: "add_opt_str env name (b1, bs) = (r2, x2)" by (cases "add_opt_str env name (b1, bs)")
    obtain b2 cs where b2: "x2 = (b2, cs)" "obj_grows (b1, bs) (b2, cs)" "keeps b1 b2"
        "obj_types (b2, cs) = obj_types (b1, bs)" "fresh b2 \<and> bo_types b2 = bo_types b1"
        "case r2 of Inl e \<Rightarrow> alloc_error e | Inr k \<Rightarrow> named (b2, cs) k name"
      using add_opt_str_ok [OF ok1 s a2] p(1) by blast
    have g: "obj_grows x (b2, cs)" using obj_grows_trans [OF b1(2) b2(2)] x by simp
    have ty: "obj_types (b2, cs) = obj_types x" using b1(3) b2(4) x by simp
    show ?thesis
    proof (cases r2)
      case (Inl e)
      then have "r = Inl e" "x' = (b2, cs)" "alloc_error e" using r x a1 \<open>r1 = Inr p\<close> b1(1) a2 b2(1,6) by simp_all
      then show ?thesis using g ty by simp
    next
      case (Inr off)
      have "fin (bo_type_len b2) off (b2, cs) = (r, x')"
        using r x a1 \<open>r1 = Inr p\<close> b1(1) a2 b2(1) Inr p(2) keeps_type_len [OF b2(3)] by simp
      moreover have "obj_ok (b2, cs)" using b2(2) by (simp add: obj_grows_def)
      moreover have "bo_type_len b2 + sz \<le> length (bo_types b2)"
        using p(3) b2(5) keeps_type_len [OF b2(3)] by simp
      ultimately show ?thesis using g ty b2(5,6) Inr by auto
    qed
  qed
qed

lemma type_cnt_own: "btf__type_cnt (obj_btf x) = bo_start_id (fst x) + length (obj_types x)"
  by (simp add: btf__type_cnt_def obj_btf_def own_btf_def obj_types_def)

lemma append_type:
  assumes ok: "obj_ok x" and s: "0 \<notin> set (name_bytes name)"
    and r: "andthen (reserve_type env sz x) (\<lambda>p x.
        andthen (add_opt_str env name x) (\<lambda>off x. fill_type env p (ws off) x)) = (r, x')"
    and t: "\<And>off. ws off = type_words (t off)" "\<And>off. sz = 4 * length (ws off)"
      "\<And>off. rest_words (t off) = Some (length (bt_words (t off)))"
  shows "obj_grows x x' \<and>
    (case r of
       Inl e \<Rightarrow> alloc_error e \<and> obj_types x' = obj_types x
     | Inr k \<Rightarrow> k = btf__type_cnt (obj_btf x) \<and> fresh (fst x') \<and>
         (\<exists>off. named x' off name \<and> obj_types x' = obj_types x @ [t off]))"
proof -
  consider e where "r = Inl e" "alloc_error e" "obj_grows x x'" "obj_types x' = obj_types x"
    | b bs off where "obj_ok (b, bs)" "obj_grows x (b, bs)" "obj_types (b, bs) = obj_types x" "fresh b"
      "bo_type_len b + sz \<le> length (bo_types b)" "named (b, bs) off name"
      "fill_type env (bo_type_len b) (ws off) (b, bs) = (r, x')"
    using reserve_and_name [OF ok s r] by blast
  then show ?thesis
  proof cases
    case 1
    then show ?thesis by simp
  next
    case 2
    have o: "own_ok (bs \<noteq> []) (own_types b) b" using 2(1) by (simp add: obj_ok_parts)
    obtain b' where c: "btf_commit_type (env 0) (4 * length (ws off)) (store_words (bo_type_len b) (ws off) b) = (r, b')"
        "x' = (b', bs)"
      using 2(7) by (auto simp: fill_type_def on_own_def split: prod.splits)
    have room: "bo_type_len b + 4 * length (ws off) \<le> length (bo_types b)" using 2(5) t(2) [of off] by simp
    note f = fill_type_ok [OF o 2(4) room t(1,3) c(1)]
    show ?thesis
    proof (cases r)
      case (Inl e)
      then have "own_ok (bs \<noteq> []) (own_types b) b'" "grows b b'" using f by simp_all
      then have "obj_grows (b, bs) (b', bs)" "obj_types (b', bs) = own_types b"
        using obj_replace [OF 2(1)] by blast+
      then show ?thesis
        using Inl f c(2) 2(3) obj_grows_trans [OF 2(2)] by (auto simp: alloc_error_def obj_types_own)
    next
      case (Inr k)
      then have "own_ok (bs \<noteq> []) (own_types b @ [t off]) b'" "grows b b'" using f by simp_all
      then have g: "obj_grows (b, bs) (b', bs)" "obj_types (b', bs) = own_types b @ [t off]"
        using obj_replace [OF 2(1)] by blast+
      have "k = btf__type_cnt (obj_btf x)"
        using f Inr 2(2,3) by (simp add: type_cnt_own obj_types_own obj_grows_def grows_def)
      moreover have "named x' off name" using named_grows [OF 2(1) _ 2(6)] g(1) c(2) by simp
      ultimately show ?thesis
        using Inr f c(2) g 2(3) obj_grows_trans [OF 2(2) g(1)] by (auto simp: obj_types_own)
    qed
  qed
qed

lemma append_elem:
  assumes ok: "obj_ok x" and s: "0 \<notin> set (name_bytes name)"
    and r: "andthen (reserve_type env sz x) (\<lambda>p x.
        andthen (add_opt_str env name x) (\<lambda>off x. fill_elem p (ws off) upd x)) = (r, x')"
    and ty: "obj_types x = us @ [t]"
    and u: "sets_info upd f" "\<And>ws'. f (t\<lparr>bt_words := ws'\<rparr>) = f t" "\<And>off. sz = 4 * length (ws off)"
      "\<And>off. rest_words (t\<lparr>bt_info := f t, bt_words := bt_words t @ ws off\<rparr>) =
         Some (length (bt_words t) + length (ws off))"
  shows "obj_grows x x' \<and>
    (case r of
       Inl e \<Rightarrow> alloc_error e \<and> obj_types x' = obj_types x
     | Inr k \<Rightarrow> k = 0 \<and> fresh (fst x') \<and>
         (\<exists>off. named x' off name \<and> obj_types x' = us @ [t\<lparr>bt_info := f t, bt_words := bt_words t @ ws off\<rparr>]))"
proof -
  consider e where "r = Inl e" "alloc_error e" "obj_grows x x'" "obj_types x' = obj_types x"
    | b bs off where "obj_ok (b, bs)" "obj_grows x (b, bs)" "obj_types (b, bs) = obj_types x" "fresh b"
      "bo_type_len b + sz \<le> length (bo_types b)" "named (b, bs) off name"
      "fill_elem (bo_type_len b) (ws off) upd (b, bs) = (r, x')"
    using reserve_and_name [OF ok s r] by blast
  then show ?thesis
  proof cases
    case 1
    then show ?thesis by simp
  next
    case 2
    have "own_types b = us @ [t]" using 2(3) ty by (simp add: obj_types_own)
    then have o: "own_ok (bs \<noteq> []) (us @ [t]) b" using 2(1) by (simp add: obj_ok_parts)
    let ?t = "t\<lparr>bt_info := f t, bt_words := bt_words t @ ws off\<rparr>"
    have room: "bo_type_len b + 4 * length (ws off) \<le> length (bo_types b)" using 2(5) u(3) [of off] by simp
    have rw: "rest_words ?t = Some (length (bt_words ?t))" using u(4) [of off] by simp
    obtain b' where b': "x' = (b', bs)" "r = Inr 0" "own_ok (bs \<noteq> []) (us @ [?t]) b'" "grows b b'" "fresh b'"
      using fill_elem_ok [OF o 2(4) room refl rw u(1,2) 2(7)] by blast
    have g: "obj_grows (b, bs) (b', bs)" "obj_types (b', bs) = us @ [?t]"
      using obj_replace [OF 2(1) b'(3,4)] .
    have "named x' off name" using named_grows [OF 2(1) _ 2(6)] g(1) b'(1) by simp
    then show ?thesis using b' g 2(2) obj_grows_trans by auto
  qed
qed

end
