(* ===== verification/Btf_Copy_Steps.thy ===== *)
theory Btf_Copy_Steps
  imports Btf_Copy Btf_Build_Props
begin

text \<open>
  The steps of copying: the table of offsets only holds pairs with the same name, rewriting the
  strings and the ids of a type changes exactly their words, and the object stays as it is up to
  the new strings.
\<close>

section \<open>The table of offsets\<close>

interpretation off_tab: hash_laws btf_dedup_identity_hash_fn btf_dedup_equal_fn
  by unfold_locales (auto simp: btf_dedup_identity_hash_fn_def btf_dedup_equal_fn_def)

definition off_map_ok :: "nat \<Rightarrow> (u32 \<Rightarrow> nat \<Rightarrow> bool) \<Rightarrow> off_map \<Rightarrow> bool" where
  "off_map_ok n P h \<longleftrightarrow>
     off_tab.hm_inv h \<and> hm_small h \<and> hm_sz h \<le> n \<and> (\<forall>k v. off_tab.lookup h k = Some v \<longrightarrow> P k v)"

lemma off_map_init: "off_map_ok 0 P hashmap__init"
proof -
  have "off_tab.lookup (hashmap__init :: off_map) k = None" for k
    by (simp add: hashmap_find_def hashmap_find_entry_def hashmap__init_def)
  then show ?thesis using off_tab.inv_init small_init by (simp add: off_map_ok_def hashmap__init_def)
qed

lemma off_map_mono: "off_map_ok n P h \<Longrightarrow> n \<le> n' \<Longrightarrow> (\<And>k v. P k v \<Longrightarrow> Q k v) \<Longrightarrow> off_map_ok n' Q h"
  by (auto simp: off_map_ok_def)

lemma off_map_append:
  assumes ok: "off_map_ok n P h" "n < 2 ^ 33" and none: "off_tab.lookup h k = None"
    and i: "hashmap_insert btf_dedup_identity_hash_fn btf_dedup_equal_fn g e h k v HASHMAP_APPEND = (err, old, h')"
  shows "err = 0 \<or> err = - ENOMEM" "P k v \<Longrightarrow> off_map_ok (Suc n) P h'"
proof -
  have f: "off_tab.fresh_insert g e h k v = (err, h')"
    using i by (auto simp: off_tab.insert_cases split: prod.splits)
  have inv: "off_tab.hm_inv h" "hm_small h" "hm_sz h \<le> n" using ok(1) by (simp_all add: off_map_ok_def)
  have "(2 :: nat) ^ hm_cap_bits h \<le> 4 * (2 ^ 33 + 2)" using inv(2,3) ok(2) by (simp add: hm_small_def)
  also have "\<dots> < 2 ^ 36" by simp
  finally have "hm_cap_bits h < 36" by (rule power_less_imp_less_exp [rotated]) simp
  then have b: "hm_cap_bits h < 64" by simp
  note s = off_tab.fresh_insert_spec [OF f inv(1) b none]
  note en = off_tab.fresh_insert_entries [OF f inv(1) b none]
  show "err = 0 \<or> err = - ENOMEM" using s by blast
  have sz: "hm_sz h' = size (entries h')" "hm_sz h = size (entries h)"
    using s inv(1) by (simp_all add: off_tab.hm_inv_def hm_shape_def)
  obtain e1 h1 where g: "(if hashmap_needs_to_grow h then hashmap_grow btf_dedup_identity_hash_fn g h else (0, h)) = (e1, h1)"
    by fastforce
  have "hm_small h1" using grow_small [OF inv(2) _ g] inv(1) by (simp add: off_tab.hm_inv_def)
  then have "hm_small h'"
    using f g by (auto simp: off_tab.fresh_insert_def hm_small_def split: if_splits)
  moreover have "off_tab.hm_inv h'" using s by blast
  moreover have "hm_sz h' \<le> Suc n" using sz en(1) inv(3) by (auto split: if_splits)
  moreover have "P k' v'" if "P k v" "off_tab.lookup h' k' = Some v'" for k' v'
    using that s ok(1) by (auto simp: off_map_ok_def btf_dedup_equal_fn_def split: if_splits)
  ultimately show "P k v \<Longrightarrow> off_map_ok (Suc n) P h'" by (simp add: off_map_ok_def)
qed

section \<open>Names\<close>

lemma chars_of_bytes_of [simp]: "chars_of (bytes_of s) = s"
proof -
  have "char_of (unat (of_nat (of_char c) :: byte)) = c" for c :: char
    by (simp add: unat_of_nat)
  then show ?thesis by (simp add: chars_of_def bytes_of_def comp_def map_idI)
qed

lemma name_no_nul: "str_by_offset b k = Some s \<Longrightarrow> CHR 0x00 \<notin> set s"
proof (induction b k rule: str_by_offset.induct)
  case (1 bb sid ts so ss p nm ly off)
  then show ?case
    by (auto split: if_splits option.splits dest: set_takeWhileD)
qed

lemma bytes_of_no_nul:
  assumes "CHR 0x00 \<notin> set s"
  shows "0 \<notin> set (bytes_of s)"
proof
  assume "0 \<in> set (bytes_of s)"
  then obtain c where c: "c \<in> set s" "(of_nat (of_char c) :: byte) = 0" by (auto simp: bytes_of_def)
  then have "char_of (unat (of_nat (of_char c) :: byte)) = CHR 0x00" by (simp only: char_zero_iff)
  then have "c = CHR 0x00" by (simp add: unat_of_nat)
  then show False using assms c(1) by simp
qed

text \<open>An offset of the source and one of the destination with the same name.\<close>

definition name_pair :: "btf \<Rightarrow> btf_obj \<Rightarrow> u32 \<Rightarrow> nat \<Rightarrow> bool" where
  "name_pair src x k v \<longleftrightarrow> v < 2 ^ 32 \<and> (\<exists>s. btf__name_by_offset src k = Some s \<and> obj_name x v = Some s)"

definition renamed :: "btf \<Rightarrow> nat \<Rightarrow> btf_obj \<Rightarrow> u32 \<Rightarrow> u32 \<Rightarrow> bool" where
  "renamed src lo x k k' \<longleftrightarrow> (if k = 0 \<or> unat k < lo then k' = k else name_pair src x k (unat k'))"

lemma name_pair_grows: "obj_ok x \<Longrightarrow> obj_grows x x' \<Longrightarrow> name_pair src x k v \<Longrightarrow> name_pair src x' k v"
  unfolding name_pair_def using obj_grows_names [of x x'] by blast

lemma renamed_grows: "obj_ok x \<Longrightarrow> obj_grows x x' \<Longrightarrow> renamed src lo x k k' \<Longrightarrow> renamed src lo x' k k'"
  using name_pair_grows by (auto simp: renamed_def)

section \<open>Words of the type memory\<close>

lemma put_word:
  assumes "i < length ws" "length pre = p"
  shows "put_bytes (p + 4 * i) (words_le [w]) (pre @ words_le ws @ post) = pre @ words_le (ws[i := w]) @ post"
proof -
  have "words_le ws = words_le (take i ws) @ u32_le (ws ! i) @ words_le (drop (Suc i) ws)"
    using assms(1) by (metis id_take_nth_drop words_le_Cons words_le_append)
  then have "pre @ words_le ws @ post =
      (pre @ words_le (take i ws)) @ u32_le (ws ! i) @ (words_le (drop (Suc i) ws) @ post)" by simp
  moreover have "put_bytes (p + 4 * i) (words_le [w])
      ((pre @ words_le (take i ws)) @ u32_le (ws ! i) @ (words_le (drop (Suc i) ws) @ post)) =
    (pre @ words_le (take i ws)) @ words_le [w] @ (words_le (drop (Suc i) ws) @ post)"
    using assms by (intro put_bytes_append) simp_all
  moreover have "words_le (ws[i := w]) = words_le (take i ws) @ u32_le w @ words_le (drop (Suc i) ws)"
    using assms(1) by (simp add: upd_conv_take_nth_drop words_le_append)
  ultimately show ?thesis by simp
qed

lemma load_word_region:
  assumes "bo_types b = pre @ words_le ws @ post" "length pre = p" "i < length ws"
  shows "load_word (p + 4 * i) (b, bs) = ws ! i"
  using rd32_words [OF assms(3,2)] assms(1) by (simp add: load_word_def)

lemma store_word_region:
  assumes "bo_types b = pre @ words_le ws @ post" "length pre = p" "i < length ws"
  shows "store_word (p + 4 * i) w (b, bs) = (b\<lparr>bo_types := pre @ words_le (ws[i := w]) @ post\<rparr>, bs)"
  using put_word [OF assms(3,2)] assms(1) by (simp add: store_word_def store_words_def)

lemma store_same:
  assumes "bo_types b = pre @ words_le ws @ post" "length pre = p"
  shows "store_words p ws b = b"
  using put_bytes_append [OF assms(2), of "words_le ws" "words_le ws" post] assms(1) by (simp add: store_words_def)

text \<open>Memory after the types is not part of the object.\<close>

lemma region_change:
  assumes ok: "obj_ok (b, bs)" and f: "fresh b" and m: "bo_types b = pre @ old @ post"
    and l: "bo_type_len b \<le> length pre" "length new = length old"
  defines "b' \<equiv> b\<lparr>bo_types := pre @ new @ post\<rparr>"
  shows "obj_grows (b, bs) (b', bs)" "obj_types (b', bs) = obj_types (b, bs)" "fresh b'" "keeps b b'"
proof -
  have o: "own_ok (bs \<noteq> []) (own_types b) b" using ok by (simp add: obj_ok_parts)
  have md: "bo_modifiable b" using f by (simp add: fresh_def)
  show k: "keeps b b'" by (simp add: b'_def set_types_fields)
  show "fresh b'" using f by (simp add: b'_def set_types_fields)
  have "length (types_bytes (own_types b)) \<le> length pre" using o l(1) by (simp add: own_ok_def)
  then have "take (length (types_bytes (own_types b))) (pre @ new @ post) =
      take (length (types_bytes (own_types b))) (pre @ old @ post)" by simp
  then have "own_ok (bs \<noteq> []) (own_types b) b'"
    using o md m l(2) by (simp add: own_ok_def b'_def set_types_fields types_mem_def)
  then have g: "obj_grows (b, bs) (b', bs)" "obj_types (b', bs) = own_types b"
    using obj_replace [OF ok _ keeps_grows [OF k]] by blast+
  show "obj_grows (b, bs) (b', bs)" by (rule g(1))
  show "obj_types (b', bs) = obj_types (b, bs)" using g(2) by (simp add: obj_types_own)
qed

section \<open>Rewriting the strings of a type\<close>

definition opt_map_ok :: "nat \<Rightarrow> btf \<Rightarrow> btf_obj \<Rightarrow> off_map option \<Rightarrow> bool" where
  "opt_map_ok n src x m \<longleftrightarrow> (case m of None \<Rightarrow> True | Some h \<Rightarrow> off_map_ok n (name_pair src x) h)"

lemma opt_map_grows:
  assumes "opt_map_ok n src x m" "obj_ok x" "obj_grows x x'" "n \<le> n'"
  shows "opt_map_ok n' src x' m"
  using assms(1,4) off_map_mono [where Q = "name_pair src x'"] name_pair_grows [OF assms(2,3)]
  by (auto simp: opt_map_ok_def split: option.splits)

text \<open>What copying strings keeps of the object while the words of a type change.\<close>

definition copying :: "btf_obj \<Rightarrow> btf_obj \<Rightarrow> bool" where
  "copying x x' \<longleftrightarrow>
     obj_grows x x' \<and> obj_types x' = obj_types x \<and> fresh (fst x') \<and> keeps (fst x) (fst x') \<and>
     length (bo_types (fst x')) = length (bo_types (fst x))"

lemma copying_trans: "copying x y \<Longrightarrow> copying y z \<Longrightarrow> copying x z"
  using obj_grows_trans [of x y z] keeps_trans [of "fst x" "fst y" "fst z"] by (simp add: copying_def)

lemma copying_ok: "copying x x' \<Longrightarrow> obj_ok x'"
  by (simp add: copying_def obj_grows_def)

lemma copying_refl: "obj_ok x \<Longrightarrow> fresh (fst x) \<Longrightarrow> copying x x"
  by (simp add: copying_def obj_grows_refl keeps_refl)

lemma copying_word:
  assumes "obj_ok (b, bs)" "fresh b" "bo_types b = pre @ words_le ws @ post" "bo_type_len b \<le> length pre"
    and "length ws' = length ws"
  shows "copying (b, bs) (b\<lparr>bo_types := pre @ words_le ws' @ post\<rparr>, bs)"
  using region_change [OF assms(1-4), of "words_le ws'"] assms(3,5) by (simp add: copying_def)

text \<open>Storing a word that has the right name, in memory copied before strings were added.\<close>

lemma copying_store:
  assumes c: "copying (b, bs) (c, cs)" "bo_types c = bo_types b"
    and mem: "bo_types b = pre @ words_le ws @ post" "length pre = p" "bo_type_len b \<le> p" "i < length ws"
    and np: "name_pair src (c, cs) (ws ! i) k" "ws ! i \<noteq> 0" and m: "opt_map_ok n src (c, cs) m"
  shows "\<exists>c'. store_word (p + 4 * i) (of_nat k) (c, cs) = (c', cs) \<and> copying (b, bs) (c', cs) \<and>
    opt_map_ok n src (c', cs) m \<and> bo_types c' = pre @ words_le (ws[i := of_nat k]) @ post \<and>
    renamed src 0 (c', cs) (ws ! i) (of_nat k)"
proof -
  let ?c' = "c\<lparr>bo_types := pre @ words_le (ws[i := of_nat k]) @ post\<rparr>"
  have c': "obj_ok (c, cs)" "fresh c" "bo_types c = pre @ words_le ws @ post" "bo_type_len c \<le> length pre"
    using c copying_ok [OF c(1)] keeps_type_len [of b c] mem by (simp_all add: copying_def)
  have s: "copying (c, cs) (?c', cs)" using copying_word [OF c'] by simp
  then have g: "obj_grows (c, cs) (?c', cs)" by (simp add: copying_def)
  have "name_pair src (?c', cs) (ws ! i) k" by (rule name_pair_grows [OF c'(1) g np(1)])
  then have "renamed src 0 (?c', cs) (ws ! i) (of_nat k)" using np(2) by (auto simp: renamed_def name_pair_def unat_of_nat)
  moreover have "opt_map_ok n src (?c', cs) m" using opt_map_grows [OF m c'(1) g] by simp
  ultimately show ?thesis
    using copying_trans [OF c(1) s] store_word_region [OF c'(3) mem(2,4)] by auto
qed

text \<open>A string that was not seen before.\<close>

lemma rewrite_new_str:
  assumes ok: "obj_ok (b, bs)" "fresh b" and mem: "bo_types b = pre @ words_le ws @ post" "length pre = p"
    and l: "bo_type_len b \<le> p" "i < length ws" and m: "opt_map_ok n src (b, bs) m" "n < 2 ^ 33"
    and name: "btf__name_by_offset src (ws ! i) = Some nm"
    and new: "ws ! i \<noteq> 0" "(case m of None \<Rightarrow> None | Some h \<Rightarrow> off_tab.lookup h (ws ! i)) = None"
  shows "\<exists>r m' b' bs'. btf_rewrite_str src env (p + 4 * i) (m, b, bs) = Some (r, m', b', bs') \<and>
    copying (b, bs) (b', bs') \<and> opt_map_ok (Suc n) src (b', bs') m' \<and>
    (case r of Inl e \<Rightarrow> alloc_error e
     | Inr _ \<Rightarrow> \<exists>k. bo_types b' = pre @ words_le (ws[i := k]) @ post \<and> renamed src 0 (b', bs') (ws ! i) k)"
proof -
  let ?off = "ws ! i"
  have ld: "load_word (p + 4 * i) (b, bs) = ?off" by (rule load_word_region [OF mem l(2)])
  have nul: "0 \<notin> set (bytes_of nm)"
    using name name_no_nul bytes_of_no_nul by (auto simp: btf__name_by_offset_def)
  obtain r1 x1 where a: "btf__add_str (ce_build env) (bytes_of nm) (b, bs) = (r1, x1)"
    by (cases "btf__add_str (ce_build env) (bytes_of nm) (b, bs)")
  obtain b1 cs where b1: "x1 = (b1, cs)" "obj_grows (b, bs) (b1, cs)" "keeps b b1" "obj_types (b1, cs) = obj_types (b, bs)"
      "fresh b1" "bo_types b1 = bo_types b"
      "case r1 of Inl e \<Rightarrow> alloc_error e | Inr k \<Rightarrow> k < 2 ^ 32 \<and> obj_name (b1, cs) k = Some nm"
    using add_str_ok [OF ok(1) nul a, unfolded chars_of_bytes_of] ok(2) by blast
  have c1: "copying (b, bs) (b1, cs)" using b1 by (simp add: copying_def)
  have map1: "opt_map_ok n src (b1, cs) m" "opt_map_ok (Suc n) src (b1, cs) m"
    using opt_map_grows [OF m(1) ok(1) b1(2)] by simp_all
  note eval = new ld name a b1(1) btf_rewrite_str_def
  show ?thesis
  proof (cases r1)
    case (Inl e)
    then show ?thesis using eval b1(7) c1 map1(2) by simp
  next
    case (Inr k)
    then have np: "name_pair src (b1, cs) ?off k" using b1(7) name by (simp add: name_pair_def)
    note store = copying_store [OF c1 b1(6) mem l np new(1)]
    show ?thesis
    proof (cases m)
      case None
      then show ?thesis using eval Inr store [of "Suc n" None] by (auto simp: opt_map_ok_def)
    next
      case (Some h)
      obtain err old h' where hi: "hashmap_insert btf_dedup_identity_hash_fn btf_dedup_equal_fn (ce_grow env)
          (ce_entry env) h ?off k HASHMAP_APPEND = (err, old, h')" by (metis prod_cases3)
      have hm: "off_map_ok n (name_pair src (b1, cs)) h" "off_tab.lookup h ?off = None"
        using map1(1) new(2) Some by (simp_all add: opt_map_ok_def)
      note ha = off_map_append [OF hm(1) m(2) hm(2) hi]
      have om: "opt_map_ok (Suc n) src (b1, cs) (Some h')" using ha(2) np by (simp add: opt_map_ok_def)
      show ?thesis
      proof (cases "err = 0")
        case True
        then show ?thesis using eval Inr Some hi store [OF om] by auto
      next
        case False
        then have "alloc_error (- err)" using ha(1) by (simp add: alloc_error_def)
        then show ?thesis using eval Inr Some hi om c1 False by simp
      qed
    qed
  qed
qed

lemma rewrite_str_ok:
  assumes ok: "obj_ok (b, bs)" "fresh b" and mem: "bo_types b = pre @ words_le ws @ post" "length pre = p"
    and l: "bo_type_len b \<le> p" "i < length ws" and m: "opt_map_ok n src (b, bs) m" "n < 2 ^ 33"
    and name: "ws ! i \<noteq> 0 \<longrightarrow> btf__name_by_offset src (ws ! i) \<noteq> None"
  shows "\<exists>r m' b' bs'. btf_rewrite_str src env (p + 4 * i) (m, b, bs) = Some (r, m', b', bs') \<and>
    copying (b, bs) (b', bs') \<and> opt_map_ok (Suc n) src (b', bs') m' \<and>
    (case r of Inl e \<Rightarrow> alloc_error e
     | Inr _ \<Rightarrow> \<exists>k. bo_types b' = pre @ words_le (ws[i := k]) @ post \<and> renamed src 0 (b', bs') (ws ! i) k)"
proof -
  let ?off = "ws ! i"
  have ld: "load_word (p + 4 * i) (b, bs) = ?off" by (rule load_word_region [OF mem l(2)])
  have c0: "copying (b, bs) (b, bs)" using ok by (simp add: copying_refl)
  have map0: "opt_map_ok (Suc n) src (b, bs) m" using opt_map_grows [OF m(1) ok(1) obj_grows_refl [OF ok(1)]] by simp
  consider "?off = 0"
    | h k where "?off \<noteq> 0" "m = Some h" "off_tab.lookup h ?off = Some k"
    | nm where "?off \<noteq> 0" "(case m of None \<Rightarrow> None | Some h \<Rightarrow> off_tab.lookup h ?off) = None"
        "btf__name_by_offset src ?off = Some nm"
    using name by (cases "case m of None \<Rightarrow> None | Some h \<Rightarrow> off_tab.lookup h ?off") (auto split: option.splits)
  then show ?thesis
  proof cases
    case 1
    then have w: "bo_types b = pre @ words_le (ws[i := 0]) @ post" using mem(1) by (metis list_update_id)
    have "btf_rewrite_str src env (p + 4 * i) (m, b, bs) = Some (Inr (), m, b, bs)"
      using 1 ld by (simp add: btf_rewrite_str_def)
    then show ?thesis using c0 map0 w 1 by (auto simp: renamed_def)
  next
    case 2
    have np: "name_pair src (b, bs) ?off k" using m(1) 2 by (simp add: opt_map_ok_def off_map_ok_def)
    show ?thesis
      using 2 ld copying_store [OF c0 refl mem l np 2(1) map0] by (auto simp: btf_rewrite_str_def)
  next
    case 3
    then show ?thesis using rewrite_new_str [OF ok mem l m] by blast
  qed
qed

text \<open>All the strings of a type.\<close>

definition words_renamed :: "btf \<Rightarrow> nat \<Rightarrow> btf_obj \<Rightarrow> nat set \<Rightarrow> u32 list \<Rightarrow> u32 list \<Rightarrow> bool" where
  "words_renamed src lo x I ws ws' \<longleftrightarrow>
     length ws' = length ws \<and>
     (\<forall>i<length ws. if i \<in> I then renamed src lo x (ws ! i) (ws' ! i) else ws' ! i = ws ! i)"

lemma words_renamed_step:
  assumes "words_renamed src lo x' (set is) (ws[i := k]) ws'" "i \<notin> set is" "i < length ws" "renamed src lo x' (ws ! i) k"
  shows "words_renamed src lo x' (set (i # is)) ws ws'"
  using assms unfolding words_renamed_def by (auto simp: nth_list_update split: if_splits)

lemma words_renamed_skip:
  assumes "words_renamed src lo x' (set is) ws ws'" "i \<notin> set is" "i < length ws" "unat (ws ! i) < lo"
  shows "words_renamed src lo x' (set (i # is)) ws ws'"
  using assms unfolding words_renamed_def by (auto simp: renamed_def)

definition name_known :: "btf \<Rightarrow> nat \<Rightarrow> u32 \<Rightarrow> bool" where
  "name_known src lo k \<longleftrightarrow> k = 0 \<or> unat k < lo \<or> btf__name_by_offset src k \<noteq> None"

lemma rewrite_strs_ok:
  assumes "obj_ok (b, bs)" "fresh b" "bo_types b = pre @ words_le ws @ post" "length pre = p" "bo_type_len b \<le> p"
    and "opt_map_ok n src (b, bs) m" "n + length is < 2 ^ 33" "distinct is" "\<forall>i\<in>set is. i < length ws"
    and "\<forall>i\<in>set is. name_known src lo (ws ! i)"
  shows "\<exists>r m' b' bs'. rewrite_strs src env lo c (map (\<lambda>i. p + 4 * i) is) (m, b, bs) = Some (r, m', b', bs') \<and>
    copying (b, bs) (b', bs') \<and> opt_map_ok (n + length is) src (b', bs') m' \<and>
    (case r of Inl e \<Rightarrow> alloc_error e
     | Inr _ \<Rightarrow> \<exists>ws'. bo_types b' = pre @ words_le ws' @ post \<and> words_renamed src lo (b', bs') (set is) ws ws')"
  using assms
proof (induction "is" arbitrary: b bs ws n m c)
  case Nil
  have "copying (b, bs) (b, bs)" using Nil.prems by (simp add: copying_refl)
  then show ?case using Nil.prems by (auto simp: words_renamed_def)
next
  case (Cons i "is")
  have ld: "load_word (p + 4 * i) (b, bs) = ws ! i"
    using load_word_region [OF Cons.prems(3,4)] Cons.prems(9) by simp
  have i: "i < length ws" "i \<notin> set is" "distinct is" "\<forall>j\<in>set is. j < length ws" "name_known src lo (ws ! i)"
      "\<forall>j\<in>set is. name_known src lo (ws ! j)" "n < 2 ^ 33" "Suc n + length is < 2 ^ 33"
    using Cons.prems(7-10) by simp_all
  show ?case
  proof (cases "unat (ws ! i) < lo")
    case True
    have "opt_map_ok (Suc n) src (b, bs) m"
      using opt_map_grows [OF Cons.prems(6,1) obj_grows_refl [OF Cons.prems(1)]] by simp
    from Cons.IH [OF Cons.prems(1-5) this i(8,3,4,6), of "Suc c"] show ?thesis
      using True ld words_renamed_skip [OF _ i(2,1) True] by (auto split: sum.splits) blast+
  next
    case False
    have nm: "ws ! i \<noteq> 0 \<longrightarrow> btf__name_by_offset src (ws ! i) \<noteq> None" using i(5) False by (auto simp: name_known_def)
    obtain r1 m1 b1 cs where s: "btf_rewrite_str src (env c) (p + 4 * i) (m, b, bs) = Some (r1, m1, b1, cs)"
      "copying (b, bs) (b1, cs)" "opt_map_ok (Suc n) src (b1, cs) m1"
      "case r1 of Inl e \<Rightarrow> alloc_error e
       | Inr _ \<Rightarrow> \<exists>k. bo_types b1 = pre @ words_le (ws[i := k]) @ post \<and> renamed src 0 (b1, cs) (ws ! i) k"
      using rewrite_str_ok [OF Cons.prems(1-5) i(1) Cons.prems(6) i(7) nm] by blast
    show ?thesis
    proof (cases r1)
      case (Inl e)
      have "opt_map_ok (n + length (i # is)) src (b1, cs) m1"
        using opt_map_grows [OF s(3) copying_ok [OF s(2)] obj_grows_refl [OF copying_ok [OF s(2)]]] by simp
      then show ?thesis using Inl False ld s by simp
    next
      case (Inr u)
      then obtain k where k: "bo_types b1 = pre @ words_le (ws[i := k]) @ post" "renamed src 0 (b1, cs) (ws ! i) k"
        using s(4) by auto
      have tl: "bo_type_len b1 \<le> p" using s(2) Cons.prems(5) keeps_type_len [of b b1] by (simp add: copying_def)
      have ok1: "obj_ok (b1, cs)" "fresh b1" using copying_ok [OF s(2)] s(2) by (simp_all add: copying_def)
      have l: "\<forall>j\<in>set is. j < length (ws[i := k])" "\<forall>j\<in>set is. name_known src lo (ws[i := k] ! j)"
        using i(2,4,6) by (simp, metis nth_list_update_neq)
      obtain r m' b' bs' where ih: "rewrite_strs src env lo (Suc c) (map (\<lambda>i. p + 4 * i) is) (m1, b1, cs) = Some (r, m', b', bs')"
        "copying (b1, cs) (b', bs')" "opt_map_ok (Suc n + length is) src (b', bs') m'"
        "case r of Inl e \<Rightarrow> alloc_error e
         | Inr _ \<Rightarrow> \<exists>ws'. bo_types b' = pre @ words_le ws' @ post \<and> words_renamed src lo (b', bs') (set is) (ws[i := k]) ws'"
        using Cons.IH [OF ok1 k(1) Cons.prems(4) tl s(3) i(8,3) l] by blast
      have "renamed src lo (b', bs') (ws ! i) k"
        using renamed_grows [OF ok1(1) _ k(2)] ih(2) False by (auto simp: renamed_def copying_def)
      then have "words_renamed src lo (b', bs') (set (i # is)) ws ws'"
        if "words_renamed src lo (b', bs') (set is) (ws[i := k]) ws'" for ws'
        using words_renamed_step [OF that i(2,1)] by blast
      then show ?thesis
        using Inr False ld s(1) ih copying_trans [OF s(2) ih(2)] by (cases r) auto
    qed
  qed
qed

section \<open>Moving the ids of a type\<close>

definition new_id :: "nat \<Rightarrow> u32 \<Rightarrow> u32 \<Rightarrow> u32" where
  "new_id src_start_id dst_id ti =
     (if ti = 0 \<or> unat ti < src_start_id then ti else ti + (dst_id - of_nat src_start_id))"

definition words_moved :: "nat \<Rightarrow> u32 \<Rightarrow> nat set \<Rightarrow> u32 list \<Rightarrow> u32 list \<Rightarrow> bool" where
  "words_moved sid did I ws ws' \<longleftrightarrow>
     length ws' = length ws \<and> (\<forall>i<length ws. ws' ! i = (if i \<in> I then new_id sid did (ws ! i) else ws ! i))"

lemma remap_ids_ok:
  assumes "obj_ok (b, bs)" "fresh b" "bo_types b = pre @ words_le ws @ post" "length pre = p" "bo_type_len b \<le> p"
    and "distinct is" "\<forall>i\<in>set is. i < length ws"
  shows "\<exists>b' ws'. remap_ids sid did (map (\<lambda>i. p + 4 * i) is) (b, bs) = (b', bs) \<and> copying (b, bs) (b', bs) \<and>
    bo_types b' = pre @ words_le ws' @ post \<and> words_moved sid did (set is) ws ws'"
  using assms
proof (induction "is" arbitrary: b ws)
  case Nil
  have "copying (b, bs) (b, bs)" using Nil.prems by (simp add: copying_refl)
  then show ?case using Nil.prems(3) by (auto simp: words_moved_def)
next
  case (Cons i "is")
  have i: "i < length ws" "i \<notin> set is" "distinct is" using Cons.prems(6,7) by simp_all
  let ?w = "new_id sid did (ws ! i)"
  let ?b1 = "b\<lparr>bo_types := pre @ words_le (ws[i := ?w]) @ post\<rparr>"
  have ld: "load_word (p + 4 * i) (b, bs) = ws ! i" by (rule load_word_region [OF Cons.prems(3,4) i(1)])
  have same: "?b1 = b" if "?w = ws ! i" using that Cons.prems(3) by simp
  have step: "remap_ids sid did (map (\<lambda>i. p + 4 * i) (i # is)) (b, bs) =
      remap_ids sid did (map (\<lambda>i. p + 4 * i) is) (?b1, bs)"
    using store_word_region [OF Cons.prems(3,4) i(1)] same by (simp add: ld new_id_def Let_def)
  have tl: "bo_type_len b \<le> length pre" using Cons.prems(4,5) by simp
  have c: "copying (b, bs) (?b1, bs)" using copying_word [OF Cons.prems(1-3) tl] by simp
  have ok1: "obj_ok (?b1, bs)" "fresh ?b1" using copying_ok [OF c] c by (simp_all add: copying_def)
  obtain b' ws' where ih: "remap_ids sid did (map (\<lambda>i. p + 4 * i) is) (?b1, bs) = (b', bs)"
      "copying (?b1, bs) (b', bs)" "bo_types b' = pre @ words_le ws' @ post" "words_moved sid did (set is) (ws[i := ?w]) ws'"
    using Cons.IH [OF ok1 _ Cons.prems(4), of "ws[i := ?w]"] Cons.prems(5,7) i by auto
  have "words_moved sid did (set (i # is)) ws ws'"
    using ih(4) i(1,2) unfolding words_moved_def by (auto simp: nth_list_update)
  then show ?case using step ih copying_trans [OF c ih(2)] by auto
qed

end
