(* ===== verification/Btf_Builder.thy ===== *)
theory Btf_Builder
  imports Btf_Build_Props
begin

text \<open>
  The calls of the builder as requests, what each of them promises, and that it keeps the promise.
\<close>

section \<open>Requests\<close>

type_synonym cname = "byte list option"

datatype request =
    Add_int cname u64 u32 | Add_float cname u64 | Add_ptr i32 | Add_array i32 i32 u32
  | Add_struct cname u32 | Add_union cname u32 | Add_field cname i32 u32 u32
  | Add_enum cname u32 | Add_enum_value cname i64 | Add_enum64 cname u32 bool | Add_enum64_value cname u64
  | Add_fwd cname i32 | Add_typedef cname i32 | Add_volatile i32 | Add_const i32 | Add_restrict i32
  | Add_type_tag cname i32 | Add_type_attr cname i32 | Add_func cname i32 i32 | Add_func_proto i32
  | Add_func_param cname i32 | Add_var cname i32 i32 | Add_datasec cname u32
  | Add_datasec_var_info i32 u32 u32 | Add_decl_tag cname i32 i32 | Add_decl_attr cname i32 i32

fun run_request :: "(nat \<Rightarrow> build_env) \<Rightarrow> request \<Rightarrow> btf_obj \<Rightarrow> (int + nat) \<times> btf_obj" where
  "run_request env (Add_int nm sz enc) = btf__add_int env nm sz enc"
| "run_request env (Add_float nm sz) = btf__add_float env nm sz"
| "run_request env (Add_ptr ti) = btf__add_ptr env ti"
| "run_request env (Add_array ix el n) = btf__add_array env ix el n"
| "run_request env (Add_struct nm sz) = btf__add_struct env nm sz"
| "run_request env (Add_union nm sz) = btf__add_union env nm sz"
| "run_request env (Add_field nm ti bo bs) = btf__add_field env nm ti bo bs"
| "run_request env (Add_enum nm sz) = btf__add_enum env nm sz"
| "run_request env (Add_enum_value nm v) = btf__add_enum_value env nm v"
| "run_request env (Add_enum64 nm sz sg) = btf__add_enum64 env nm sz sg"
| "run_request env (Add_enum64_value nm v) = btf__add_enum64_value env nm v"
| "run_request env (Add_fwd nm k) = btf__add_fwd env nm k"
| "run_request env (Add_typedef nm ti) = btf__add_typedef env nm ti"
| "run_request env (Add_volatile ti) = btf__add_volatile env ti"
| "run_request env (Add_const ti) = btf__add_const env ti"
| "run_request env (Add_restrict ti) = btf__add_restrict env ti"
| "run_request env (Add_type_tag nm ti) = btf__add_type_tag env nm ti"
| "run_request env (Add_type_attr nm ti) = btf__add_type_attr env nm ti"
| "run_request env (Add_func nm l ti) = btf__add_func env nm l ti"
| "run_request env (Add_func_proto ti) = btf__add_func_proto env ti"
| "run_request env (Add_func_param nm ti) = btf__add_func_param env nm ti"
| "run_request env (Add_var nm l ti) = btf__add_var env nm l ti"
| "run_request env (Add_datasec nm sz) = btf__add_datasec env nm sz"
| "run_request env (Add_datasec_var_info ti off sz) = btf__add_datasec_var_info env ti off sz"
| "run_request env (Add_decl_tag nm ti ix) = btf__add_decl_tag env nm ti ix"
| "run_request env (Add_decl_attr nm ti ix) = btf__add_decl_attr env nm ti ix"

fun request_name :: "request \<Rightarrow> cname" where
  "request_name (Add_int nm _ _) = nm" | "request_name (Add_float nm _) = nm"
| "request_name (Add_struct nm _) = nm" | "request_name (Add_union nm _) = nm"
| "request_name (Add_field nm _ _ _) = nm" | "request_name (Add_enum nm _) = nm"
| "request_name (Add_enum_value nm _) = nm" | "request_name (Add_enum64 nm _ _) = nm"
| "request_name (Add_enum64_value nm _) = nm" | "request_name (Add_fwd nm _) = nm"
| "request_name (Add_typedef nm _) = nm" | "request_name (Add_type_tag nm _) = nm"
| "request_name (Add_type_attr nm _) = nm" | "request_name (Add_func nm _ _) = nm"
| "request_name (Add_func_param nm _) = nm" | "request_name (Add_var nm _ _) = nm"
| "request_name (Add_datasec nm _) = nm" | "request_name (Add_decl_tag nm _ _) = nm"
| "request_name (Add_decl_attr nm _ _) = nm" | "request_name _ = None"

section \<open>What they promise\<close>

text \<open>The kind, the length, the flag, the size or type and the words of the type asked for.\<close>

type_synonym shape = "u16 \<times> nat \<times> bool \<times> u32 \<times> u32 list"

fun new_shape :: "request \<Rightarrow> shape option" where
  "new_shape (Add_int nm sz enc) =
     Some (BTF_KIND_INT, 0, False, ucast sz, [push_bit 24 enc OR ucast (sz * 8)])"
| "new_shape (Add_float nm sz) = Some (BTF_KIND_FLOAT, 0, False, ucast sz, [])"
| "new_shape (Add_ptr ti) = Some (BTF_KIND_PTR, 0, False, ti, [])"
| "new_shape (Add_array ix el n) = Some (BTF_KIND_ARRAY, 0, False, 0, [el, ix, n])"
| "new_shape (Add_struct nm sz) = Some (BTF_KIND_STRUCT, 0, False, sz, [])"
| "new_shape (Add_union nm sz) = Some (BTF_KIND_UNION, 0, False, sz, [])"
| "new_shape (Add_enum nm sz) = Some (BTF_KIND_ENUM, 0, False, sz, [])"
| "new_shape (Add_enum64 nm sz sg) = Some (BTF_KIND_ENUM64, 0, sg, sz, [])"
| "new_shape (Add_fwd nm k) =
     Some (if k = BTF_FWD_ENUM then (BTF_KIND_ENUM, 0, False, 4, [])
           else (BTF_KIND_FWD, 0, k = BTF_FWD_UNION, 0, []))"
| "new_shape (Add_typedef nm ti) = Some (BTF_KIND_TYPEDEF, 0, False, ti, [])"
| "new_shape (Add_volatile ti) = Some (BTF_KIND_VOLATILE, 0, False, ti, [])"
| "new_shape (Add_const ti) = Some (BTF_KIND_CONST, 0, False, ti, [])"
| "new_shape (Add_restrict ti) = Some (BTF_KIND_RESTRICT, 0, False, ti, [])"
| "new_shape (Add_type_tag nm ti) = Some (BTF_KIND_TYPE_TAG, 0, False, ti, [])"
| "new_shape (Add_type_attr nm ti) = Some (BTF_KIND_TYPE_TAG, 0, True, ti, [])"
| "new_shape (Add_func nm l ti) = Some (BTF_KIND_FUNC, unat l, False, ti, [])"
| "new_shape (Add_func_proto ti) = Some (BTF_KIND_FUNC_PROTO, 0, False, ti, [])"
| "new_shape (Add_var nm l ti) = Some (BTF_KIND_VAR, 0, False, ti, [l])"
| "new_shape (Add_datasec nm sz) = Some (BTF_KIND_DATASEC, 0, False, sz, [])"
| "new_shape (Add_decl_tag nm ti ix) = Some (BTF_KIND_DECL_TAG, 0, False, ti, [ix])"
| "new_shape (Add_decl_attr nm ti ix) = Some (BTF_KIND_DECL_TAG, 0, True, ti, [ix])"
| "new_shape _ = None"

text \<open>For an element: the kinds of the last type, the words at a name, whether the flag is set.\<close>

fun elem_kinds :: "request \<Rightarrow> u16 list" where
  "elem_kinds (Add_field nm ti bo bs) = (if bo = 0 then [BTF_KIND_STRUCT, BTF_KIND_UNION] else [BTF_KIND_STRUCT])"
| "elem_kinds (Add_enum_value nm v) = [BTF_KIND_ENUM]"
| "elem_kinds (Add_enum64_value nm v) = [BTF_KIND_ENUM64]"
| "elem_kinds (Add_func_param nm ti) = [BTF_KIND_FUNC_PROTO]"
| "elem_kinds (Add_datasec_var_info ti off sz) = [BTF_KIND_DATASEC]"
| "elem_kinds _ = []"

fun elem_words :: "request \<Rightarrow> u32 \<Rightarrow> u32 list" where
  "elem_words (Add_field nm ti bo bs) off = [off, ti, bo OR push_bit 24 bs]"
| "elem_words (Add_enum_value nm v) off = [off, ucast v]"
| "elem_words (Add_enum64_value nm v) off = [off, ucast v, ucast (drop_bit 32 v)]"
| "elem_words (Add_func_param nm ti) off = [off, ti]"
| "elem_words (Add_datasec_var_info ti o' sz) off = [ti, o', sz]"
| "elem_words _ off = []"

definition bitfield_args :: "u32 \<Rightarrow> u32 \<Rightarrow> bool" where
  "bitfield_args bo bs \<longleftrightarrow> bs \<noteq> 0 \<or> bo mod 8 \<noteq> 0"

fun elem_flag :: "request \<Rightarrow> bool" where
  "elem_flag (Add_field nm ti bo bs) = bitfield_args bo bs"
| "elem_flag (Add_enum_value nm v) = (sint v < 0)"
| "elem_flag _ = False"

text \<open>The documented limits of the arguments.\<close>

fun args_ok :: "request \<Rightarrow> bool" where
  "args_ok (Add_int nm sz enc) = (\<not> bstr_empty nm \<and> sz \<in> {1, 2, 4, 8, 16} \<and> enc \<le> 7)"
| "args_ok (Add_float nm sz) = (\<not> bstr_empty nm \<and> sz \<in> {2, 4, 8, 12, 16})"
| "args_ok (Add_ptr ti) = (0 \<le> sint ti)"
| "args_ok (Add_array ix el n) = (0 \<le> sint ix \<and> 0 \<le> sint el)"
| "args_ok (Add_field nm ti bo bs) =
     (0 \<le> sint ti \<and> (bitfield_args bo bs \<longrightarrow> bs \<noteq> 0 \<and> bs \<le> 255 \<and> bo \<le> 0xffffff))"
| "args_ok (Add_enum nm sz) = (sz \<in> {1, 2, 4, 8})"
| "args_ok (Add_enum_value nm v) = (\<not> bstr_empty nm \<and> - (2 ^ 31) \<le> sint v \<and> sint v < 2 ^ 32)"
| "args_ok (Add_enum64 nm sz sg) = (sz \<in> {1, 2, 4, 8})"
| "args_ok (Add_enum64_value nm v) = (\<not> bstr_empty nm)"
| "args_ok (Add_fwd nm k) = (\<not> bstr_empty nm \<and> k \<in> {BTF_FWD_STRUCT, BTF_FWD_UNION, BTF_FWD_ENUM})"
| "args_ok (Add_typedef nm ti) = (\<not> bstr_empty nm \<and> 0 \<le> sint ti)"
| "args_ok (Add_volatile ti) = (0 \<le> sint ti)"
| "args_ok (Add_const ti) = (0 \<le> sint ti)"
| "args_ok (Add_restrict ti) = (0 \<le> sint ti)"
| "args_ok (Add_type_tag nm ti) = (\<not> bstr_empty nm \<and> 0 \<le> sint ti)"
| "args_ok (Add_type_attr nm ti) = (\<not> bstr_empty nm \<and> 0 \<le> sint ti)"
| "args_ok (Add_func nm l ti) = (\<not> bstr_empty nm \<and> linkage_ok l \<and> 0 \<le> sint ti)"
| "args_ok (Add_func_proto ti) = (0 \<le> sint ti)"
| "args_ok (Add_func_param nm ti) = (0 \<le> sint ti)"
| "args_ok (Add_var nm l ti) = (\<not> bstr_empty nm \<and> linkage_ok l \<and> 0 \<le> sint ti)"
| "args_ok (Add_datasec nm sz) = (\<not> bstr_empty nm)"
| "args_ok (Add_datasec_var_info ti off sz) = (0 \<le> sint ti)"
| "args_ok (Add_decl_tag nm ti ix) = (\<not> bstr_empty nm \<and> - 1 \<le> sint ix \<and> 0 \<le> sint ti)"
| "args_ok (Add_decl_attr nm ti ix) = (\<not> bstr_empty nm \<and> - 1 \<le> sint ix \<and> 0 \<le> sint ti)"
| "args_ok _ = True"

definition accepted :: "request \<Rightarrow> btf_type list \<Rightarrow> bool" where
  "accepted rq ts \<longleftrightarrow>
     args_ok rq \<and> (new_shape rq = None \<longrightarrow> ts \<noteq> [] \<and> btf_kind (List.last ts) \<in> set (elem_kinds rq))"

definition has_shape :: "btf_type \<Rightarrow> u32 \<Rightarrow> shape \<Rightarrow> bool" where
  "has_shape t off sh \<longleftrightarrow>
     (case sh of (kind, vlen, kflag, u, ws) \<Rightarrow>
        t = \<lparr>bt_name_off = off, bt_info = bt_info t, bt_union = u, bt_words = ws\<rparr> \<and>
        btf_kind t = kind \<and> btf_vlen t = vlen \<and> btf_kflag t = kflag)"

definition has_elem :: "btf_type \<Rightarrow> btf_type \<Rightarrow> u32 list \<Rightarrow> bool \<Rightarrow> bool" where
  "has_elem t t' ws flag \<longleftrightarrow>
     t' = t\<lparr>bt_info := bt_info t', bt_words := bt_words t @ ws\<rparr> \<and>
     btf_kind t' = btf_kind t \<and> btf_vlen t' = btf_vlen t + 1 \<and> btf_kflag t' = (flag \<or> btf_kflag t)"

definition fulfilled :: "request \<Rightarrow> btf_obj \<Rightarrow> nat \<Rightarrow> btf_obj \<Rightarrow> bool" where
  "fulfilled rq x k x' \<longleftrightarrow>
     (\<exists>off. named x' off (request_name rq) \<and>
       (case new_shape rq of
          Some sh \<Rightarrow> k = btf__type_cnt (obj_btf x) \<and>
            (\<exists>t. obj_types x' = obj_types x @ [t] \<and> has_shape t (of_nat off) sh)
        | None \<Rightarrow> k = 0 \<and>
            (\<exists>us t t'. obj_types x = us @ [t] \<and> obj_types x' = us @ [t'] \<and>
               has_elem t t' (elem_words rq (of_nat off)) (elem_flag rq))))"

section \<open>Arguments\<close>

lemma small_cases: "n \<le> (16 :: nat) \<Longrightarrow> n \<in> {0, 1, 2, 3, 4, 5, 6, 7, 8, 9, 10, 11, 12, 13, 14, 15, 16}"
  by (simp only: insert_iff empty_iff) presburger

lemma word_le_nat: "(w :: 'a::len word) \<le> of_nat n \<Longrightarrow> n < 2 ^ LENGTH('a) \<Longrightarrow> \<exists>k\<le>n. w = of_nat k"
  by (rule exI [of _ "unat w"]) (simp add: word_le_nat_alt unat_of_nat)

lemma int_size_ok: "sz = 0 \<or> sz AND (sz - 1) \<noteq> 0 \<or> 16 < sz \<longleftrightarrow> (sz :: u64) \<notin> {1, 2, 4, 8, 16}"
proof (cases "sz \<le> 16")
  case True
  then obtain k where k: "k \<le> 16" "sz = of_nat k" using word_le_nat [of sz 16] by auto
  then have "k \<in> {0, 1, 2, 3, 4, 5, 6, 7, 8, 9, 10, 11, 12, 13, 14, 15, 16}" by (intro small_cases) simp
  then show ?thesis using k by (elim insertE) simp_all
next
  case False
  then show ?thesis by auto
qed

lemma enum_size_ok: "sz = 0 \<or> sz AND (sz - 1) \<noteq> 0 \<or> 8 < sz \<longleftrightarrow> (sz :: u32) \<notin> {1, 2, 4, 8}"
proof (cases "sz \<le> 8")
  case True
  then obtain k where k: "k \<le> 8" "sz = of_nat k" using word_le_nat [of sz 8] by auto
  then have "k \<in> {0, 1, 2, 3, 4, 5, 6, 7, 8, 9, 10, 11, 12, 13, 14, 15, 16}" by (intro small_cases) simp
  then show ?thesis using k by (elim insertE) simp_all
next
  case False
  then show ?thesis by auto
qed

lemma encoding_ok: "(enc :: u32) AND NOT BTF_INT_ENC = 0 \<longleftrightarrow> enc \<le> 7"
proof -
  have m: "(7 :: u32) = mask 3" by (simp add: mask_eq_exp_minus_1)
  have j: "enc = (enc AND mask 3) OR (enc AND NOT (mask 3))"
    by (rule bit_eqI) (auto simp: bit_simps)
  show ?thesis
  proof
    assume "enc AND NOT BTF_INT_ENC = 0"
    then have "enc = enc AND mask 3" using j by (simp add: BTF_INT_ENC_def m)
    then have "enc \<le> mask 3" by (metis word_and_le1)
    then show "enc \<le> 7" by (simp add: m)
  next
    assume "enc \<le> 7"
    then obtain k where k: "k \<le> 7" "enc = of_nat k" using word_le_nat [of enc 7] by auto
    then have "k \<in> {0, 1, 2, 3, 4, 5, 6, 7, 8, 9, 10, 11, 12, 13, 14, 15, 16}" by (intro small_cases) simp
    then show "enc AND NOT BTF_INT_ENC = 0"
      using k by (elim insertE) (simp_all add: BTF_INT_ENC_def)
  qed
qed

section \<open>Shapes\<close>

lemma mk_type_info:
  assumes "kind < 32" "vlen < 65536"
  shows "btf_kind \<lparr>bt_name_off = a, bt_info = btf_type_info kind vlen kflag, bt_union = u, bt_words = ws\<rparr> = kind"
    "btf_vlen \<lparr>bt_name_off = a, bt_info = btf_type_info kind vlen kflag, bt_union = u, bt_words = ws\<rparr> = vlen"
    "btf_kflag \<lparr>bt_name_off = a, bt_info = btf_type_info kind vlen kflag, bt_union = u, bt_words = ws\<rparr> = kflag"
  by (rule info_parts [OF _ assms], simp)+

lemma kind_less: "btf_kind t < 32"
proof -
  have "unat (btf_kind t) < 32" unfolding unat_info_parts by simp
  then show ?thesis by (simp add: word_less_nat_alt)
qed

text \<open>The outcome of a request whose arguments are accepted.\<close>

definition met :: "request \<Rightarrow> btf_obj \<Rightarrow> int + nat \<Rightarrow> btf_obj \<Rightarrow> bool" where
  "met rq x r x' \<longleftrightarrow> obj_grows x x' \<and>
     (case r of
        Inl e \<Rightarrow> alloc_error e \<and> obj_types x' = obj_types x
      | Inr k \<Rightarrow> fresh (fst x') \<and> fulfilled rq x k x')"

lemma met_new:
  assumes "obj_ok x" "0 \<notin> set (name_bytes (request_name rq))"
    and sh: "new_shape rq = Some (kind, vlen, kflag, u, ws)" and k: "kind < 32" "vlen < 65536"
    and r: "andthen (reserve_type env sz x) (\<lambda>p x. andthen (add_opt_str env (request_name rq) x) (\<lambda>off x.
        fill_type env p (of_nat off # btf_type_info kind vlen kflag # u # ws) x)) = (r, x')"
    and sz: "sz = 12 + 4 * length ws"
    and rw: "rest_words \<lparr>bt_name_off = 0, bt_info = btf_type_info kind vlen kflag, bt_union = u, bt_words = ws\<rparr> =
        Some (length ws)"
  shows "met rq x r x'"
proof -
  define t where "t = (\<lambda>off :: nat. \<lparr>bt_name_off = of_nat off, bt_info = btf_type_info kind vlen kflag, bt_union = u, bt_words = ws\<rparr>)"
  have rw': "rest_words (t off) = Some (length (bt_words (t off)))" for off
    using rw by (simp add: t_def rest_words_def btf_kind_def btf_vlen_def)
  have "obj_grows x x' \<and>
    (case r of
       Inl e \<Rightarrow> alloc_error e \<and> obj_types x' = obj_types x
     | Inr k \<Rightarrow> k = btf__type_cnt (obj_btf x) \<and> fresh (fst x') \<and>
         (\<exists>off. named x' off (request_name rq) \<and> obj_types x' = obj_types x @ [t off]))"
    by (rule append_type [OF assms(1,2) r _ _ rw']) (simp_all add: t_def type_words_def sz)
  moreover have "has_shape (t off) (of_nat off) (kind, vlen, kflag, u, ws)" for off
    by (simp add: has_shape_def t_def mk_type_info k)
  ultimately show ?thesis using sh by (auto simp: met_def fulfilled_def split: sum.splits)
qed

lemma met_elem:
  assumes ok: "obj_ok x" and "0 \<notin> set (name_bytes (request_name rq))"
    and sh: "new_shape rq = None" and ty: "obj_types x = us @ [t]" and v: "btf_vlen t < 65535"
    and r: "andthen (reserve_type env sz x) (\<lambda>p x. andthen (add_opt_str env (request_name rq) x) (\<lambda>off x.
        fill_elem p (elem_words rq (of_nat off)) upd x)) = (r, x')"
    and upd: "sets_info upd f" "\<And>ws. f (t\<lparr>bt_words := ws\<rparr>) = f t"
      "f t = btf_type_info (btf_kind t) (btf_vlen t + 1) (elem_flag rq \<or> btf_kflag t)"
    and sz: "\<And>off. sz = 4 * length (elem_words rq off)"
    and rw: "\<And>u. btf_kind u = btf_kind t \<Longrightarrow> btf_vlen u = btf_vlen t + 1 \<Longrightarrow>
        rest_words u = map_option (\<lambda>n. n + sz div 4) (rest_words t)"
  shows "met rq x r x'"
proof -
  have kt: "rest_words t = Some (length (bt_words t))"
  proof -
    have "known_types (own_types (fst x))" using ok by (auto simp: obj_ok_def own_ok_def)
    then show ?thesis using ty by (simp add: obj_types_own known_types_def)
  qed
  have parts: "btf_kind u = btf_kind t" "btf_vlen u = btf_vlen t + 1" "btf_kflag u = (elem_flag rq \<or> btf_kflag t)"
    if "bt_info u = f t" for u
    using info_parts [of u "btf_kind t" "btf_vlen t + 1" "elem_flag rq \<or> btf_kflag t"] kind_less v that upd(3)
    by simp_all
  have n: "sz div 4 = length (elem_words rq off)" for off using sz [of off] by simp
  have rw': "rest_words (t\<lparr>bt_info := f t, bt_words := bt_words t @ elem_words rq (of_nat off)\<rparr>) =
      Some (length (bt_words t) + length (elem_words rq (of_nat off)))" for off
    using rw [OF parts(1,2)] kt n by simp
  have "obj_grows x x' \<and>
    (case r of
       Inl e \<Rightarrow> alloc_error e \<and> obj_types x' = obj_types x
     | Inr k \<Rightarrow> k = 0 \<and> fresh (fst x') \<and>
         (\<exists>off. named x' off (request_name rq) \<and>
            obj_types x' = us @ [t\<lparr>bt_info := f t, bt_words := bt_words t @ elem_words rq (of_nat off)\<rparr>]))"
    by (rule append_elem [OF assms(1,2) r ty upd(1,2) sz rw'])
  moreover have "has_elem t (t\<lparr>bt_info := f t, bt_words := bt_words t @ ws\<rparr>) ws (elem_flag rq)" for ws
    using parts by (simp add: has_elem_def)
  ultimately show ?thesis using sh ty by (auto simp: met_def fulfilled_def split: sum.splits)
qed

text \<open>Replacing the info word of the type just added.\<close>

lemma set_info_by_id_ok:
  assumes ok: "obj_ok x" "fresh (fst x)" and ty: "obj_types x = us @ [t]"
    and k: "k = bo_start_id (fst x) + length us"
    and rw: "rest_words (t\<lparr>bt_info := info\<rparr>) = Some (length (bt_words t))"
  shows "obj_grows x (set_info_by_id k info x) \<and> fresh (fst (set_info_by_id k info x)) \<and>
    obj_types (set_info_by_id k info x) = us @ [t\<lparr>bt_info := info\<rparr>]"
proof -
  obtain b bs where x: "x = (b, bs)" by (cases x)
  have "own_types b = us @ [t]" using ty by (simp add: obj_types_own x)
  then have o: "own_ok (bs \<noteq> []) (us @ [t]) b" using ok(1) by (simp add: obj_ok_parts x)
  have fr: "fresh b" using ok(2) x by simp
  obtain post where p: "bo_types b = types_bytes (us @ [t]) @ post" using types_mem_prefix [OF o fr] .
  have q: "bo_type_offs b ! (k - bo_start_id b) = length (types_bytes us)"
    using o k x by (simp add: own_ok_def offs_of_append nth_append)
  have p': "bo_types b = types_bytes us @ type_bytes t @ post" using p by simp
  define b' where "b' = b\<lparr>bo_types := types_bytes (us @ [t\<lparr>bt_info := info\<rparr>]) @ post\<rparr>"
  have s: "set_info_by_id k info x = (b', bs)"
    using set_info_bytes [OF p' refl, of info] by (simp add: set_info_by_id_def x q b'_def)
  have l: "length (type_bytes (t\<lparr>bt_info := info\<rparr>)) = length (type_bytes t)" by (simp add: length_type_bytes)
  then have of': "offs_of 0 (us @ [t\<lparr>bt_info := info\<rparr>]) = offs_of 0 (us @ [t])" by (simp add: offs_of_append)
  have len: "length (types_bytes (us @ [t\<lparr>bt_info := info\<rparr>]) @ post) = length (bo_types b)" using p l by simp
  have o': "own_ok (bs \<noteq> []) (us @ [t\<lparr>bt_info := info\<rparr>]) b'"
    using o fr rw l of' len
    by (simp add: own_ok_def b'_def set_types_fields types_mem_def fresh_def known_types_append)
      (simp add: known_types_def)
  have g: "grows b b'" using keeps_grows [OF set_types_fields(5)] by (simp add: b'_def)
  have "obj_ok (b, bs)" using ok(1) x by simp
  note r = obj_replace [OF this o' g]
  have "fresh b'" using fr by (simp add: b'_def set_types_fields)
  then show ?thesis unfolding s using r by (simp add: x)
qed

lemma add_opt_nonempty: "\<not> bstr_empty nm \<Longrightarrow> btf__add_str env (name_bytes nm) = add_opt_str env nm"
  by (rule ext) (simp add: add_opt_str_def)

lemma add_opt_none: "add_opt_str env None x = (Inr 0, x)"
  by (simp add: add_opt_str_def bstr_empty_def)

definition ref_kind :: "u16 \<Rightarrow> bool" where
  "ref_kind k \<longleftrightarrow> k \<in> {BTF_KIND_FWD, BTF_KIND_CONST, BTF_KIND_VOLATILE, BTF_KIND_RESTRICT, BTF_KIND_PTR,
     BTF_KIND_TYPEDEF, BTF_KIND_FUNC, BTF_KIND_TYPE_TAG}"

lemma ref_kind_words: "ref_kind (btf_kind t) \<Longrightarrow> rest_words t = Some 0"
proof -
  assume "ref_kind (btf_kind t)"
  then have "btf_kind t \<in> {BTF_KIND_FWD, BTF_KIND_CONST, BTF_KIND_VOLATILE, BTF_KIND_RESTRICT, BTF_KIND_PTR,
      BTF_KIND_TYPEDEF, BTF_KIND_FUNC, BTF_KIND_FLOAT, BTF_KIND_TYPE_TAG}"
    unfolding ref_kind_def by blast
  then show ?thesis by (simp only: rest_words_def Let_def if_True)
qed

lemma ref_kind_less: "ref_kind k \<Longrightarrow> k < 32"
  by (auto simp: ref_kind_def btf_kinds)

lemma ref_kind_append:
  assumes ok: "obj_ok x" "0 \<notin> set (name_bytes name)" and a: "0 \<le> sint ti" "ref_kind kind"
    and r: "btf_add_ref_kind env kind name ti kflag x = (r, x')"
  shows "obj_grows x x' \<and>
    (case r of
       Inl e \<Rightarrow> alloc_error e \<and> obj_types x' = obj_types x
     | Inr k \<Rightarrow> k = btf__type_cnt (obj_btf x) \<and> fresh (fst x') \<and>
         (\<exists>off. named x' off name \<and> obj_types x' = obj_types x @
            [\<lparr>bt_name_off = of_nat off, bt_info = btf_type_info kind 0 kflag, bt_union = ti, bt_words = []\<rparr>]))"
proof (rule append_type [OF ok])
  show "andthen (reserve_type env 12 x) (\<lambda>p x. andthen (add_opt_str env name x) (\<lambda>off x.
      fill_type env p [of_nat off, btf_type_info kind 0 kflag, ti] x)) = (r, x')"
    using r a(1) by (simp add: btf_add_ref_kind_def validate_type_id_def)
qed (simp_all add: type_words_def ref_kind_words mk_type_info ref_kind_less a(2))

lemma ref_kind_met:
  assumes ok: "obj_ok x" "0 \<notin> set (name_bytes (request_name rq))" and a: "0 \<le> sint ti" "ref_kind kind"
    and r: "btf_add_ref_kind env kind (request_name rq) ti kflag x = (r, x')"
    and sh: "new_shape rq = Some (kind, 0, kflag, ti, [])"
  shows "met rq x r x'"
proof -
  have "has_shape \<lparr>bt_name_off = off, bt_info = btf_type_info kind 0 kflag, bt_union = ti, bt_words = []\<rparr> off
      (kind, 0, kflag, ti, [])" for off
    by (simp add: has_shape_def mk_type_info ref_kind_less a(2))
  then show ?thesis
    using ref_kind_append [OF ok a r] sh by (auto simp: met_def fulfilled_def split: sum.splits)
qed

text \<open>A forward declaration and a function get their final info word afterwards.\<close>

lemma ref_kind_then_info:
  assumes ok: "obj_ok x" "0 \<notin> set (name_bytes (request_name rq))" and a: "0 \<le> sint ti" "ref_kind kind" "vlen < 65536"
    and r: "andthen (btf_add_ref_kind env kind (request_name rq) ti False x) (\<lambda>k x.
        (Inr k, if c k then set_info_by_id k (btf_type_info kind vlen kflag) x else x)) = (r, x')"
    and c: "c (btf__type_cnt (obj_btf x))"
    and sh: "new_shape rq = Some (kind, vlen, kflag, ti, [])"
  shows "met rq x r x'"
proof -
  obtain q y where q: "btf_add_ref_kind env kind (request_name rq) ti False x = (q, y)"
    by (cases "btf_add_ref_kind env kind (request_name rq) ti False x")
  note p = ref_kind_append [OF ok a(1,2) q]
  show ?thesis
  proof (cases q)
    case (Inl e)
    then show ?thesis using p q r by (auto simp: met_def)
  next
    case (Inr k)
    then obtain off where o: "k = btf__type_cnt (obj_btf x)" "fresh (fst y)" "named y off (request_name rq)"
        "obj_types y = obj_types x @
          [\<lparr>bt_name_off = of_nat off, bt_info = btf_type_info kind 0 False, bt_union = ti, bt_words = []\<rparr>]"
        "obj_grows x y"
      using p by auto
    let ?info = "btf_type_info kind vlen kflag"
    let ?t = "\<lparr>bt_name_off = of_nat off, bt_info = ?info, bt_union = ti, bt_words = []\<rparr>"
    have x': "r = Inr k" "x' = set_info_by_id k ?info y" using r q Inr c o(1) by simp_all
    have okY: "obj_ok y" using o(5) by (simp add: obj_grows_def)
    have k: "k = bo_start_id (fst y) + length (obj_types x)"
      using o(1,5) by (simp add: type_cnt_own obj_grows_def grows_def)
    have rw: "rest_words (\<lparr>bt_name_off = of_nat off, bt_info = btf_type_info kind 0 False, bt_union = ti, bt_words = []\<rparr>
        \<lparr>bt_info := ?info\<rparr>) = Some 0"
      using a by (simp add: ref_kind_words mk_type_info ref_kind_less)
    have s: "obj_grows y x' \<and> fresh (fst x') \<and> obj_types x' = obj_types x @ [?t]"
      using set_info_by_id_ok [OF okY o(2,4) k] rw by (simp add: x'(2))
    have "named x' off (request_name rq)" using named_grows [OF okY _ o(3)] s by blast
    moreover have "has_shape ?t (of_nat off) (kind, vlen, kflag, ti, [])"
      by (simp add: has_shape_def mk_type_info ref_kind_less a)
    ultimately show ?thesis
      using s x'(1) o(1) sh obj_grows_trans [OF o(5)] by (auto simp: met_def fulfilled_def)
  qed
qed

section \<open>Every request\<close>

lemma sint_zero_word: "sint (0 :: i32) = 0"
  by simp

lemma composite_met:
  assumes "obj_ok x" "0 \<notin> set (name_bytes (request_name rq))"
    and "btf_add_composite env kind (request_name rq) sz x = (r, x')"
    and "new_shape rq = Some (kind, 0, False, sz, [])" "kind = BTF_KIND_STRUCT \<or> kind = BTF_KIND_UNION"
  shows "met rq x r x'"
proof (rule met_new [OF assms(1,2,4)])
  show "andthen (reserve_type env 12 x) (\<lambda>p x. andthen (add_opt_str env (request_name rq) x) (\<lambda>off x.
      fill_type env p [of_nat off, btf_type_info kind 0 False, sz] x)) = (r, x')"
    using assms(3) by (simp add: btf_add_composite_def)
qed (use assms(5) in \<open>auto simp: rest_words_def mk_type_info btf_kinds\<close>)

lemma enum_met:
  assumes "obj_ok x" "0 \<notin> set (name_bytes (request_name rq))"
    and "btf_add_enum_common env (request_name rq) sz sg kind x = (r, x')" "sz \<in> {1, 2, 4, 8}"
    and "new_shape rq = Some (kind, 0, sg, sz, [])" "kind = BTF_KIND_ENUM \<or> kind = BTF_KIND_ENUM64"
  shows "met rq x r x'"
proof (rule met_new [OF assms(1,2,5)])
  show "andthen (reserve_type env 12 x) (\<lambda>p x. andthen (add_opt_str env (request_name rq) x) (\<lambda>off x.
      fill_type env p [of_nat off, btf_type_info kind 0 sg, sz] x)) = (r, x')"
    using assms(3,4) enum_size_ok [of sz] by (auto simp: btf_add_enum_common_def)
qed (use assms(6) in \<open>auto simp: rest_words_def mk_type_info btf_kinds\<close>)

lemma decl_tag_met:
  assumes "obj_ok x" "0 \<notin> set (name_bytes (request_name rq))"
    and "btf_add_decl_tag env (request_name rq) ti ix flag x = (r, x')"
    and "\<not> bstr_empty (request_name rq)" "- 1 \<le> sint ix" "0 \<le> sint ti"
    and "new_shape rq = Some (BTF_KIND_DECL_TAG, 0, flag, ti, [ix])"
  shows "met rq x r x'"
proof (rule met_new [OF assms(1,2,7)])
  show "andthen (reserve_type env 16 x) (\<lambda>p x. andthen (add_opt_str env (request_name rq) x) (\<lambda>off x.
      fill_type env p [of_nat off, btf_type_info BTF_KIND_DECL_TAG 0 flag, ti, ix] x)) = (r, x')"
    using assms(3-6) by (simp add: btf_add_decl_tag_def add_opt_nonempty validate_type_id_def not_less)
qed (auto simp: rest_words_def mk_type_info btf_kinds)

lemma linkage_vlen: "linkage_ok l \<Longrightarrow> unat l < 65536"
  by (auto simp: linkage_ok_def)

text \<open>The references, and the types with a name that is not empty.\<close>

lemma run_ref_met:
  assumes ok: "obj_ok x" "0 \<notin> set (name_bytes (request_name rq))" and a: "args_ok rq"
    and r: "run_request env rq x = (r, x')"
    and k: "case rq of Add_ptr _ \<Rightarrow> True | Add_typedef _ _ \<Rightarrow> True | Add_volatile _ \<Rightarrow> True | Add_const _ \<Rightarrow> True
      | Add_restrict _ \<Rightarrow> True | Add_type_tag _ _ \<Rightarrow> True | Add_type_attr _ _ \<Rightarrow> True | _ \<Rightarrow> False"
  shows "met rq x r x'"
proof -
  obtain kind kflag ti where sh: "new_shape rq = Some (kind, 0, kflag, ti, [])"
    and c: "btf_add_ref_kind env kind (request_name rq) ti kflag x = (r, x')" "0 \<le> sint ti" "ref_kind kind"
    using k a r
    by (cases rq) (auto simp: btf__add_ptr_def btf__add_typedef_def btf__add_volatile_def btf__add_const_def
        btf__add_restrict_def btf__add_type_tag_def btf__add_type_attr_def ref_kind_def)
  show ?thesis by (rule ref_kind_met [OF ok c(2,3,1) sh])
qed

lemma run_new_met:
  assumes ok: "obj_ok x" "0 \<notin> set (name_bytes (request_name rq))" and a: "args_ok rq"
    and n: "new_shape rq \<noteq> None" and r: "run_request env rq x = (r, x')"
  shows "met rq x r x'"
proof (cases rq)
  case (Add_int nm sz enc)
  have sh: "new_shape rq = Some (BTF_KIND_INT, 0, False, ucast sz, [push_bit 24 enc OR ucast (sz * 8)])"
    by (simp add: Add_int)
  show ?thesis
  proof (rule met_new [OF ok sh])
    show "andthen (reserve_type env 16 x) (\<lambda>p x. andthen (add_opt_str env (request_name rq) x) (\<lambda>off x.
        fill_type env p [of_nat off, btf_type_info BTF_KIND_INT 0 False, ucast sz,
          push_bit 24 enc OR ucast (sz * 8)] x)) = (r, x')"
      using r a int_size_ok [of sz] encoding_ok [of enc]
      by (auto simp: Add_int btf__add_int_def add_opt_nonempty)
  qed (simp_all add: rest_words_def mk_type_info btf_kinds)
next
  case (Add_float nm sz)
  have sh: "new_shape rq = Some (BTF_KIND_FLOAT, 0, False, ucast sz, [])" by (simp add: Add_float)
  show ?thesis
  proof (rule met_new [OF ok sh])
    show "andthen (reserve_type env 12 x) (\<lambda>p x. andthen (add_opt_str env (request_name rq) x) (\<lambda>off x.
        fill_type env p [of_nat off, btf_type_info BTF_KIND_FLOAT 0 False, ucast sz] x)) = (r, x')"
      using r a by (simp add: Add_float btf__add_float_def add_opt_nonempty)
  qed (simp_all add: rest_words_def mk_type_info btf_kinds)
next
  case (Add_array ix el n)
  have sh: "new_shape rq = Some (BTF_KIND_ARRAY, 0, False, 0, [el, ix, n])" by (simp add: Add_array)
  show ?thesis
  proof (rule met_new [OF ok sh])
    show "andthen (reserve_type env 24 x) (\<lambda>p x. andthen (add_opt_str env (request_name rq) x) (\<lambda>off x.
        fill_type env p [of_nat off, btf_type_info BTF_KIND_ARRAY 0 False, 0, el, ix, n] x)) = (r, x')"
      using r a by (simp add: Add_array btf__add_array_def add_opt_none validate_type_id_def)
  qed (simp_all add: rest_words_def mk_type_info btf_kinds)
next
  case (Add_struct nm sz)
  then show ?thesis using composite_met [OF ok, of env _ sz] r by (simp add: btf__add_struct_def)
next
  case (Add_union nm sz)
  then show ?thesis using composite_met [OF ok, of env _ sz] r by (simp add: btf__add_union_def)
next
  case (Add_enum nm sz)
  then show ?thesis using enum_met [OF ok, of env sz False] r a by (simp add: btf__add_enum_def)
next
  case (Add_enum64 nm sz sg)
  then show ?thesis using enum_met [OF ok, of env sz sg] r a by (simp add: btf__add_enum64_def)
next
  case (Add_fwd nm k)
  then have k: "\<not> bstr_empty nm" "k \<in> {BTF_FWD_STRUCT, BTF_FWD_UNION, BTF_FWD_ENUM}" using a by simp_all
  show ?thesis
  proof (cases "k = BTF_FWD_ENUM")
    case True
    then show ?thesis
      using enum_met [OF ok, of env 4 False] r k
      by (simp add: Add_fwd btf__add_fwd_def btf__add_enum_def BTF_FWD_STRUCT_def BTF_FWD_UNION_def BTF_FWD_ENUM_def)
  next
    case False
    then have "btf__add_fwd env nm k x = andthen (btf_add_ref_kind env BTF_KIND_FWD nm 0 False x) (\<lambda>ti x.
        (Inr ti, set_info_by_id ti (btf_type_info BTF_KIND_FWD 0 (k = BTF_FWD_UNION)) x))"
      using k by (auto simp: btf__add_fwd_def)
    then show ?thesis
      using r False Add_fwd
      by (intro ref_kind_then_info [OF ok, where ti = 0 and kind = BTF_KIND_FWD and c = "\<lambda>_. True"])
         (simp_all add: ref_kind_def)
  qed
next
  case (Add_func nm l ti)
  then have l: "\<not> bstr_empty nm" "linkage_ok l" "0 \<le> sint ti" using a by simp_all
  have pos: "0 < btf__type_cnt (obj_btf x)"
  proof -
    have "chain_ok bs \<Longrightarrow> bs \<noteq> [] \<Longrightarrow> 1 \<le> bo_start_id (hd bs)" for bs
      by (induction bs) (auto split: list.splits)
    from this [of "fst x # snd x"] show ?thesis using ok(1) by (simp add: type_cnt_own obj_ok_def)
  qed
  have "btf__add_func env nm l ti x = andthen (btf_add_ref_kind env BTF_KIND_FUNC nm ti False x) (\<lambda>k x.
      (Inr k, if 0 < k then set_info_by_id k (btf_type_info BTF_KIND_FUNC (unat l) False) x else x))"
    using l by (simp add: btf__add_func_def)
  then show ?thesis
    using r Add_func l pos linkage_vlen
    by (intro ref_kind_then_info [OF ok, where ti = ti and kind = BTF_KIND_FUNC and vlen = "unat l" and
        kflag = False and c = "\<lambda>k. 0 < k"])
       (simp_all add: ref_kind_def)
next
  case (Add_func_proto ti)
  have sh: "new_shape rq = Some (BTF_KIND_FUNC_PROTO, 0, False, ti, [])" by (simp add: Add_func_proto)
  show ?thesis
  proof (rule met_new [OF ok sh])
    show "andthen (reserve_type env 12 x) (\<lambda>p x. andthen (add_opt_str env (request_name rq) x) (\<lambda>off x.
        fill_type env p [of_nat off, btf_type_info BTF_KIND_FUNC_PROTO 0 False, ti] x)) = (r, x')"
      using r a by (simp add: Add_func_proto btf__add_func_proto_def add_opt_none validate_type_id_def)
  qed (simp_all add: rest_words_def mk_type_info btf_kinds)
next
  case (Add_var nm l ti)
  have sh: "new_shape rq = Some (BTF_KIND_VAR, 0, False, ti, [l])" by (simp add: Add_var)
  show ?thesis
  proof (rule met_new [OF ok sh])
    show "andthen (reserve_type env 16 x) (\<lambda>p x. andthen (add_opt_str env (request_name rq) x) (\<lambda>off x.
        fill_type env p [of_nat off, btf_type_info BTF_KIND_VAR 0 False, ti, l] x)) = (r, x')"
      using r a by (simp add: Add_var btf__add_var_def add_opt_nonempty validate_type_id_def)
  qed (simp_all add: rest_words_def mk_type_info btf_kinds)
next
  case (Add_datasec nm sz)
  have sh: "new_shape rq = Some (BTF_KIND_DATASEC, 0, False, sz, [])" by (simp add: Add_datasec)
  show ?thesis
  proof (rule met_new [OF ok sh])
    show "andthen (reserve_type env 12 x) (\<lambda>p x. andthen (add_opt_str env (request_name rq) x) (\<lambda>off x.
        fill_type env p [of_nat off, btf_type_info BTF_KIND_DATASEC 0 False, sz] x)) = (r, x')"
      using r a by (simp add: Add_datasec btf__add_datasec_def add_opt_nonempty)
  qed (simp_all add: rest_words_def mk_type_info btf_kinds)
next
  case (Add_decl_tag nm ti ix)
  then show ?thesis using decl_tag_met [OF ok, where flag = False] r a by (simp add: btf__add_decl_tag_def)
next
  case (Add_decl_attr nm ti ix)
  then show ?thesis using decl_tag_met [OF ok, where flag = True] r a by (simp add: btf__add_decl_attr_def)
qed (use n run_ref_met [OF ok a r] in simp_all)

text \<open>The last type, and the elements.\<close>

lemma last_type_ok:
  assumes "obj_ok x" "obj_types x = us @ [t]"
  shows "bo_type_offs (fst x) \<noteq> []" "btf_last_type (fst x) = t\<lparr>bt_words := []\<rparr>"
proof -
  obtain b bs where x: "x = (b, bs)" by (cases x)
  have "own_types b = us @ [t]" using assms(2) by (simp add: obj_types_own x)
  then have o: "own_ok (bs \<noteq> []) (us @ [t]) b" using assms(1) by (simp add: obj_ok_parts x)
  then have offs: "bo_type_offs b = offs_of 0 (us @ [t])" by (simp add: own_ok_def)
  then show "bo_type_offs (fst x) \<noteq> []" by (simp add: x offs_of_append)
  have q: "btf_last_off b = length (types_bytes us)"
    using offs by (simp add: btf_last_off_def offs_of_append nth_append)
  have "take (length (types_bytes (us @ [t]))) (types_mem b) = types_bytes (us @ [t])"
    using o by (simp add: own_ok_def)
  then obtain post where "types_mem b = types_bytes (us @ [t]) @ post"
    by (metis append_take_drop_id)
  then have "types_mem b = types_bytes us @ type_bytes t @ post" by simp
  then show "btf_last_type (fst x) = t\<lparr>bt_words := []\<rparr>"
    using type_header_bytes [of "types_bytes us" "length (types_bytes us)" t post]
    by (simp add: x q own_type_def sizeof_btf_type_def)
qed

lemma no_types:
  assumes "obj_ok x" "obj_types x = []"
  shows "bo_type_offs (fst x) = []"
proof -
  have "own_ok (snd x \<noteq> []) (own_types (fst x)) (fst x)" using assms(1) by (simp add: obj_ok_def)
  then show ?thesis using assms(2) by (simp add: obj_types_own own_ok_def)
qed

lemma elem_words_count:
  assumes "btf_kind u = btf_kind t" "btf_vlen u = btf_vlen t + 1"
  shows "btf_kind t = BTF_KIND_STRUCT \<or> btf_kind t = BTF_KIND_UNION \<or> btf_kind t = BTF_KIND_ENUM64 \<or>
      btf_kind t = BTF_KIND_DATASEC \<Longrightarrow> rest_words u = map_option (\<lambda>n. n + 3) (rest_words t)"
    "btf_kind t = BTF_KIND_ENUM \<or> btf_kind t = BTF_KIND_FUNC_PROTO \<Longrightarrow>
      rest_words u = map_option (\<lambda>n. n + 2) (rest_words t)"
  using assms by (auto simp: rest_words_def btf_kinds)

lemma info_without_words:
  "btf_kind (t\<lparr>bt_words := ws, bt_info := i\<rparr>) = btf_kind (t\<lparr>bt_info := i\<rparr>)"
  "btf_vlen (t\<lparr>bt_words := ws, bt_info := i\<rparr>) = btf_vlen (t\<lparr>bt_info := i\<rparr>)"
  by (simp_all add: btf_kind_def btf_vlen_def)

lemma run_elem_met:
  assumes ok: "obj_ok x" "0 \<notin> set (name_bytes (request_name rq))" and a: "accepted rq (obj_types x)"
    and n: "new_shape rq = None" and v: "btf_vlen (List.last (obj_types x)) < 65535"
    and r: "run_request env rq x = (r, x')"
  shows "met rq x r x'"
proof -
  obtain us t where ty: "obj_types x = us @ [t]" and k: "btf_kind t \<in> set (elem_kinds rq)" "args_ok rq"
    using a n by (cases "obj_types x" rule: rev_cases) (auto simp: accepted_def)
  have vt: "btf_vlen t < 65535" using v ty by simp
  note l = last_type_ok [OF ok(1) ty]
  note met = met_elem [OF ok n ty vt]
  note cnt = elem_words_count [where t = t]
  show ?thesis
  proof (cases rq)
    case (Add_field nm ti bo bs)
    have su: "BTF_KIND_STRUCT \<noteq> BTF_KIND_UNION" by (simp add: btf_kinds)
    have "andthen (reserve_type env 12 x) (\<lambda>p x. andthen (add_opt_str env (request_name rq) x) (\<lambda>off x.
        fill_elem p (elem_words rq (of_nat off)) (field_info (elem_flag rq)) x)) = (r, x')"
      using r k l su
      by (auto simp: Add_field btf__add_field_def btf_is_composite_def info_of_words validate_type_id_def
          bitfield_args_def Let_def not_less split: if_splits)
    then show ?thesis
      by (rule met [OF _ field_sets_info]) (use k cnt in \<open>auto simp: Add_field info_of_words split: if_splits\<close>)
  next
    case (Add_enum_value nm w)
    have "andthen (reserve_type env 8 x) (\<lambda>p x. andthen (add_opt_str env (request_name rq) x) (\<lambda>off x.
        fill_elem p (elem_words rq (of_nat off)) (enum_info (elem_flag rq)) x)) = (r, x')"
      using r k l
      by (auto simp: Add_enum_value btf__add_enum_value_def btf_is_enum_def info_of_words add_opt_nonempty not_less
          split: if_splits)
    then show ?thesis
    proof (rule met [OF _ enum_sets_info])
      let ?info = "btf_type_info (btf_kind t) (btf_vlen t + 1) (btf_kflag t)"
      have p: "btf_kind (t\<lparr>bt_info := ?info\<rparr>) = btf_kind t" "btf_vlen (t\<lparr>bt_info := ?info\<rparr>) = btf_vlen t + 1"
        using info_parts [of "t\<lparr>bt_info := ?info\<rparr>", OF _ kind_less] vt by simp_all
      show "(let info = ?info; u = t\<lparr>bt_info := info\<rparr>
          in if elem_flag rq then btf_type_info (btf_kind u) (btf_vlen u) True else info) =
        btf_type_info (btf_kind t) (btf_vlen t + 1) (elem_flag rq \<or> btf_kflag t)"
        unfolding Let_def p by (cases "elem_flag rq") simp_all
    qed (use k cnt in \<open>auto simp: Add_enum_value info_of_words info_without_words Let_def\<close>)
  next
    case (Add_enum64_value nm w)
    have "andthen (reserve_type env 12 x) (\<lambda>p x. andthen (add_opt_str env (request_name rq) x) (\<lambda>off x.
        fill_elem p (elem_words rq (of_nat off)) btf_type_inc_vlen x)) = (r, x')"
      using r k l
      by (auto simp: Add_enum64_value btf__add_enum64_value_def btf_is_enum64_def info_of_words add_opt_nonempty
          split: if_splits)
    then show ?thesis
      by (rule met [OF _ inc_vlen_sets_info]) (use k cnt in \<open>auto simp: Add_enum64_value info_of_words\<close>)
  next
    case (Add_func_param nm ti)
    have "andthen (reserve_type env 8 x) (\<lambda>p x. andthen (add_opt_str env (request_name rq) x) (\<lambda>off x.
        fill_elem p (elem_words rq (of_nat off)) btf_type_inc_vlen x)) = (r, x')"
      using r k l
      by (auto simp: Add_func_param btf__add_func_param_def info_of_words validate_type_id_def split: if_splits)
    then show ?thesis
      by (rule met [OF _ inc_vlen_sets_info]) (use k cnt in \<open>auto simp: Add_func_param info_of_words\<close>)
  next
    case (Add_datasec_var_info ti off sz)
    have "andthen (reserve_type env 12 x) (\<lambda>p x. andthen (add_opt_str env (request_name rq) x) (\<lambda>off x.
        fill_elem p (elem_words rq (of_nat off)) btf_type_inc_vlen x)) = (r, x')"
      using r k l
      by (auto simp: Add_datasec_var_info btf__add_datasec_var_info_def info_of_words validate_type_id_def
          add_opt_none split: if_splits)
    then show ?thesis
      by (rule met [OF _ inc_vlen_sets_info]) (use k cnt in \<open>auto simp: Add_datasec_var_info info_of_words\<close>)
  qed (use n in simp_all)
qed

text \<open>Arguments that are not accepted are refused before anything is touched.\<close>

lemma ref_kind_refused:
  "sint ti < 0 \<Longrightarrow> btf_add_ref_kind env kind name ti kflag x = (Inl EINVAL, x)"
  by (simp add: btf_add_ref_kind_def validate_type_id_def)

lemma refused_new:
  assumes "\<not> args_ok rq" "new_shape rq \<noteq> None" "run_request env rq x = (r, x')"
  shows "x' = x \<and> r = Inl EINVAL"
proof (cases rq)
  case (Add_int nm sz enc)
  have "bstr_empty nm \<or> sz \<notin> {1, 2, 4, 8, 16} \<or> \<not> enc \<le> 7" using assms Add_int by simp
  then show ?thesis
    using assms(3) unfolding Add_int run_request.simps btf__add_int_def int_size_ok encoding_ok
    by (simp split: if_splits)
next
  case (Add_enum nm sz)
  then show ?thesis
    using assms enum_size_ok [of sz] by (simp add: btf__add_enum_def btf_add_enum_common_def)
next
  case (Add_enum64 nm sz sg)
  then show ?thesis
    using assms enum_size_ok [of sz] by (simp add: btf__add_enum64_def btf_add_enum_common_def)
next
  case (Add_fwd nm k)
  then show ?thesis using assms by (auto simp: btf__add_fwd_def split: if_splits)
next
  case (Add_func nm l ti)
  then show ?thesis using assms by (auto simp: btf__add_func_def ref_kind_refused not_le split: if_splits)
qed (use assms in \<open>auto simp: ref_kind_refused validate_type_id_def not_le btf__add_float_def btf__add_ptr_def
    btf__add_array_def btf__add_typedef_def btf__add_volatile_def btf__add_const_def btf__add_restrict_def
    btf__add_type_tag_def btf__add_type_attr_def btf__add_func_proto_def btf__add_var_def btf__add_datasec_def
    btf__add_decl_tag_def btf__add_decl_attr_def btf_add_decl_tag_def split: if_splits\<close>)

lemma refused_elem:
  assumes ok: "obj_ok x" and a: "\<not> accepted rq (obj_types x)" and n: "new_shape rq = None"
    and r: "run_request env rq x = (r, x')"
  shows "x' = x \<and> (r = Inl EINVAL \<or> r = Inl E2BIG)"
proof -
  have su: "BTF_KIND_STRUCT \<noteq> BTF_KIND_UNION" by (simp add: btf_kinds)
  show ?thesis
  proof (cases "obj_types x" rule: rev_cases)
    case Nil
    then have "bo_type_offs (fst x) = []" by (rule no_types [OF ok])
    then show ?thesis
      using r n
      by (cases rq) (auto simp: btf__add_field_def btf__add_enum_value_def btf__add_enum64_value_def
          btf__add_func_param_def btf__add_datasec_var_info_def Let_def split: if_splits)
  next
    case (snoc us t)
    note l = last_type_ok [OF ok snoc]
    have k: "\<not> args_ok rq \<or> btf_kind t \<notin> set (elem_kinds rq)"
      using a n snoc by (auto simp: accepted_def)
    show ?thesis
      using r n k l su
      by (cases rq) (auto simp: btf__add_field_def btf__add_enum_value_def btf__add_enum64_value_def
          btf__add_func_param_def btf__add_datasec_var_info_def btf_is_composite_def btf_is_enum_def btf_is_enum64_def
          info_of_words validate_type_id_def bitfield_args_def not_le not_less Let_def split: if_splits)
  qed
qed

section \<open>Where a build starts\<close>

lemma length_layouts: "length layouts = 80"
  by (simp add: layouts_def)

lemma length_header_bytes: "length (header_bytes h) = 32"
  by (simp add: header_bytes_def u16_le_def u32_le_def)

lemma new_empty_ok:
  assumes base: "chain_ok base" "base \<noteq> [] \<longrightarrow> bo_start_str_off (hd base) + bo_str_len (hd base) < 2 ^ 31"
    and r: "btf_new_empty alloc_obj alloc_data add_layout base = Inr x"
  shows "obj_ok x" "obj_types x = []" "snd x = base"
proof -
  have l: "unat (of_nat (length layouts) :: u32) = 80" by (simp add: length_layouts)
  obtain b where x: "x = (b, base)" using r by (auto simp: btf_new_empty_def Let_def split: if_splits)
  note f = r [unfolded x btf_new_empty_def Let_def]
  have t: "own_types b = []"
    using f by (auto simp: own_types_def types_of_def split: if_splits)
  have "own_ok (base \<noteq> []) [] b"
    using f
    by (auto simp: own_ok_def known_types_def types_bytes_def empty_header_def hdr_ok_def own_strs_ok_def strs_bytes_def
        layout_bytes_def types_mem_def btf_strs_data_def layout_mem_def raw_section_def strs_end_def
        length_header_bytes length_layouts split: if_splits)
  then show "obj_ok x"
    using f base unfolding x obj_ok_parts t by (cases base) (auto split: if_splits)
  show "obj_types x = []" using t by (simp add: obj_types_own x)
  show "snd x = base" by (simp add: x)
qed

section \<open>The property\<close>


text \<open>The first type of an empty object.\<close>

definition plenty :: build_env where
  "plenty =
     \<lparr>be_types_copy = True, be_layout_copy = True, be_set = True,
      be_index = (\<lambda>_. \<lparr>se_mem = True, se_grow = True, se_entry = True\<rparr>),
      be_str = \<lparr>se_mem = True, se_grow = True, se_entry = True\<rparr>, be_types = (\<lambda>_. True), be_offs = (\<lambda>_. True)\<rparr>"

definition int_request :: request where
  "int_request = Add_int (Some [0x69, 0x6E, 0x74]) 4 1"


end
