(* ===== verification/Btf_Copy_Props.thy ===== *)
theory Btf_Copy_Props
  imports Btf_Copy_Steps Btf_Builder
begin

text \<open>
  What copying promises: a type, or all the types of an object, arrive with the same words but for
  their strings, which read the same, and their ids, which are moved by the types already there.
\<close>

section \<open>Types and their words\<close>

definition type_of_words :: "u32 list \<Rightarrow> btf_type" where
  "type_of_words ws = \<lparr>bt_name_off = ws ! 0, bt_info = ws ! 1, bt_union = ws ! 2, bt_words = drop 3 ws\<rparr>"

lemma type_words_of_words: "3 \<le> length ws \<Longrightarrow> type_words (type_of_words ws) = ws"
  by (cases ws; cases "tl ws"; cases "tl (tl ws)") (auto simp: type_of_words_def type_words_def)

lemma length_type_words: "length (type_words t) = 3 + length (bt_words t)"
  by (simp add: type_words_def)

lemma kind_known:
  "rest_words t = Some n \<Longrightarrow> btf_kind t \<in> {BTF_KIND_INT, BTF_KIND_PTR, BTF_KIND_ARRAY, BTF_KIND_STRUCT,
     BTF_KIND_UNION, BTF_KIND_ENUM, BTF_KIND_FWD, BTF_KIND_TYPEDEF, BTF_KIND_VOLATILE, BTF_KIND_CONST,
     BTF_KIND_RESTRICT, BTF_KIND_FUNC, BTF_KIND_FUNC_PROTO, BTF_KIND_VAR, BTF_KIND_DATASEC, BTF_KIND_FLOAT,
     BTF_KIND_DECL_TAG, BTF_KIND_TYPE_TAG, BTF_KIND_ENUM64}"
  unfolding rest_words_def Let_def by (auto split: if_splits)

lemma member_fields:
  fixes i v :: nat
  shows "i \<in> (\<lambda>x. 3 + 3 * x) ` {0..<v} \<Longrightarrow> 3 \<le> i \<and> i < 3 + v * 3 \<and> i mod 3 = 0"
    "i \<in> (\<lambda>x. 4 + 3 * x) ` {0..<v} \<Longrightarrow> 3 \<le> i \<and> i < 3 + v * 3 \<and> i mod 3 = 1"
    "i \<in> (\<lambda>x. 3 + 2 * x) ` {0..<v} \<Longrightarrow> 3 \<le> i \<and> i < 3 + v * 2 \<and> i mod 2 = 1"
    "i \<in> (\<lambda>x. 4 + 2 * x) ` {0..<v} \<Longrightarrow> 3 \<le> i \<and> i < 3 + v * 2 \<and> i mod 2 = 0"
  by (elim imageE; simp; presburger)+

lemma fields_inside:
  assumes "rest_words t = Some n"
  shows "i \<in> set (str_words t) \<Longrightarrow> i < 3 + n \<and> i \<noteq> 1" "i \<in> set (id_words t) \<Longrightarrow> i < 3 + n \<and> i \<noteq> 1"
    "i \<in> set (str_words t) \<Longrightarrow> i \<notin> set (id_words t)"
proof -
  have "(i \<in> set (str_words t) \<longrightarrow> i < 3 + n \<and> i \<noteq> 1 \<and> i \<notin> set (id_words t)) \<and>
      (i \<in> set (id_words t) \<longrightarrow> i < 3 + n \<and> i \<noteq> 1)"
    using kind_known [OF assms] assms [symmetric]
    by (elim insertE emptyE; simp add: rest_words_def str_words_def id_words_def btf_kinds;
        (auto del: imageE dest!: member_fields)?)
  then show "i \<in> set (str_words t) \<Longrightarrow> i < 3 + n \<and> i \<noteq> 1" "i \<in> set (id_words t) \<Longrightarrow> i < 3 + n \<and> i \<noteq> 1"
    "i \<in> set (str_words t) \<Longrightarrow> i \<notin> set (id_words t)" by blast+
qed

lemma words_known:
  assumes "rest_words t = Some (length (bt_words t))"
  shows "distinct (str_words t)" "distinct (id_words t)"
    "\<forall>i\<in>set (str_words t). i < length (type_words t)" "\<forall>i\<in>set (id_words t). i < length (type_words t)"
    "1 \<notin> set (str_words t)" "1 \<notin> set (id_words t)" "set (str_words t) \<inter> set (id_words t) = {}"
    "btf_kind t \<noteq> BTF_KIND_UNKN"
proof -
  have 3: "inj_on (\<lambda>i. 3 + 3 * i) S" "inj_on (\<lambda>i. 3 + 2 * i) S" "inj_on (\<lambda>i. 3 + (3 * i + 1)) S"
      "inj_on (\<lambda>i. 3 + (2 * i + 1)) S" for S :: "nat set"
    by (auto simp: inj_on_def)
  show "distinct (str_words t)" using 3 by (auto simp: str_words_def Let_def distinct_map)
  show "distinct (id_words t)" using 3 by (auto simp: id_words_def Let_def distinct_map)
  show "btf_kind t \<noteq> BTF_KIND_UNKN" using assms by (auto simp: rest_words_def btf_kinds)
qed (use fields_inside [OF assms] in \<open>auto simp: length_type_words\<close>)

lemma str_words_count:
  assumes "rest_words t = Some (length (bt_words t))"
  shows "length (str_words t) \<le> length (type_words t)"
proof -
  have "set (str_words t) \<subseteq> {..<length (type_words t)}" using words_known(3) [OF assms] by auto
  then have "card (set (str_words t)) \<le> length (type_words t)" by (metis card_lessThan card_mono finite_lessThan)
  then show ?thesis using words_known(1) [OF assms] by (simp add: distinct_card)
qed

lemma iter_known:
  assumes "rest_words t = Some n" "rest_words t = Some (length (bt_words t))"
  obtains it where "btf_field_iter_init k t p = Inr it"
    "field_offs it = map (\<lambda>i. p + 4 * i) (case k of BTF_FIELD_ITER_IDS \<Rightarrow> id_words t | BTF_FIELD_ITER_STRS \<Rightarrow> str_words t)"
proof -
  have "ids_desc (btf_kind t) \<noteq> None \<and> strs_desc (btf_kind t) \<noteq> None"
    using kind_known [OF assms(1)] by (elim insertE emptyE) (simp_all add: ids_desc_def strs_desc_def btf_kinds)
  then obtain it where "btf_field_iter_init k t p = Inr it"
    by (cases k) (auto simp: btf_field_iter_init_def)
  then show ?thesis using walk_init [OF _ words_known(8) [OF assms(2)]] that by blast
qed

text \<open>Only the header of a type decides its size and its fields.\<close>

lemma header_decides:
  "rest_words (t\<lparr>bt_words := ws\<rparr>) = rest_words t"
  "btf_field_iter_init k (t\<lparr>bt_words := ws\<rparr>) p = btf_field_iter_init k t p"
  unfolding rest_words_def btf_field_iter_init_def info_of_words by (rule refl)+

lemma size_known:
  "rest_words t = Some (length (bt_words t)) \<Longrightarrow> btf_type_size ly bb t = int (length (type_bytes t))"
  by (simp add: btf_type_size_def sizeof_btf_type_def length_type_bytes)

section \<open>Copies\<close>

definition copied :: "btf \<Rightarrow> nat \<Rightarrow> btf_obj \<Rightarrow> (u32 \<Rightarrow> u32) \<Rightarrow> btf_type \<Rightarrow> btf_type \<Rightarrow> bool" where
  "copied src lo x f t t' \<longleftrightarrow>
     length (type_words t') = length (type_words t) \<and>
     (\<forall>i<length (type_words t).
        if i \<in> set (str_words t) then renamed src lo x (type_words t ! i) (type_words t' ! i)
        else type_words t' ! i = (if i \<in> set (id_words t) then f (type_words t ! i) else type_words t ! i))"

lemma copied_grows: "obj_ok x \<Longrightarrow> obj_grows x x' \<Longrightarrow> copied src lo x f t t' \<Longrightarrow> copied src lo x' f t t'"
  unfolding copied_def using renamed_grows [of x x' src lo] by metis

lemma copied_known:
  assumes "copied src lo x f t t'" "rest_words t = Some (length (bt_words t))"
  shows "bt_info t' = bt_info t" "rest_words t' = Some (length (bt_words t'))"
proof -
  have l: "length (bt_words t') = length (bt_words t)" using assms(1) by (simp add: copied_def length_type_words)
  have "1 \<notin> set (str_words t)" "1 \<notin> set (id_words t)" using words_known [OF assms(2)] by auto
  then have "type_words t' ! 1 = type_words t ! 1"
    using assms(1) by (auto simp: copied_def length_type_words)
  then show i: "bt_info t' = bt_info t" by (simp add: type_words_def)
  have "rest_words t' = rest_words t" by (simp add: rest_words_def btf_kind_def btf_vlen_def i)
  then show "rest_words t' = Some (length (bt_words t'))" using assms(2) l by simp
qed

definition type_named :: "btf \<Rightarrow> nat \<Rightarrow> btf_type \<Rightarrow> bool" where
  "type_named src lo t \<longleftrightarrow> (\<forall>i\<in>set (str_words t). name_known src lo (type_words t ! i))"

text \<open>The words of a type, its strings rewritten.\<close>

lemma type_strs_ok:
  assumes "obj_ok (b, bs)" "fresh b" "bo_types b = pre @ type_bytes t @ post" "length pre = p" "bo_type_len b \<le> p"
    and "opt_map_ok n src (b, bs) m" "n + length (type_words t) < 2 ^ 33"
    and t: "rest_words t = Some (length (bt_words t))" "type_named src lo t"
  shows "\<exists>it r m' b' bs'. btf_field_iter_init BTF_FIELD_ITER_STRS t p = Inr it \<and>
    rewrite_strs src env lo c (field_offs it) (m, b, bs) = Some (r, m', b', bs') \<and>
    copying (b, bs) (b', bs') \<and> opt_map_ok (n + length (type_words t)) src (b', bs') m' \<and>
    (case r of Inl e \<Rightarrow> alloc_error e
     | Inr _ \<Rightarrow> \<exists>ws. bo_types b' = pre @ words_le ws @ post \<and> words_renamed src lo (b', bs') (set (str_words t)) (type_words t) ws)"
proof -
  obtain it where it: "btf_field_iter_init BTF_FIELD_ITER_STRS t p = Inr it"
      "field_offs it = map (\<lambda>i. p + 4 * i) (str_words t)"
    using iter_known [OF t(1,1), of BTF_FIELD_ITER_STRS p] by auto
  have l: "n + length (str_words t) < 2 ^ 33" "\<forall>i\<in>set (str_words t). i < length (type_words t)"
    using str_words_count [OF t(1)] words_known(3) [OF t(1)] assms(7) by auto
  have nm: "\<forall>i\<in>set (str_words t). name_known src lo (type_words t ! i)" using t(2) by (simp add: type_named_def)
  have mem: "bo_types b = pre @ words_le (type_words t) @ post" using assms(3) by (simp add: type_bytes_def)
  obtain r m' b' bs' where
    r: "rewrite_strs src env lo c (field_offs it) (m, b, bs) = Some (r, m', b', bs')" "copying (b, bs) (b', bs')"
      "opt_map_ok (n + length (str_words t)) src (b', bs') m'"
      "case r of Inl e \<Rightarrow> alloc_error e
       | Inr _ \<Rightarrow> \<exists>ws. bo_types b' = pre @ words_le ws @ post \<and> words_renamed src lo (b', bs') (set (str_words t)) (type_words t) ws"
    using rewrite_strs_ok [OF assms(1,2) mem assms(4-6) l(1) words_known(1) [OF t(1)] l(2) nm]
    unfolding it(2) by blast
  moreover have "opt_map_ok (n + length (type_words t)) src (b', bs') m'"
    using opt_map_grows [OF r(3) copying_ok [OF r(2)] obj_grows_refl [OF copying_ok [OF r(2)]]]
      str_words_count [OF t(1)] by simp
  ultimately show ?thesis using it(1) by blast
qed

section \<open>One type\<close>

text \<open>Memory just reserved, and the bytes of a type put there.\<close>

lemma put_after_types:
  assumes ok: "obj_ok (b, bs)" "fresh b" and room: "bo_type_len b + length new \<le> length (bo_types b)"
  defines "b' \<equiv> b\<lparr>bo_types := put_bytes (bo_type_len b) new (bo_types b)\<rparr>"
  shows "copying (b, bs) (b', bs)"
    "\<exists>pre post. bo_types b' = pre @ new @ post \<and> length pre = bo_type_len b \<and> pre = types_bytes (obj_types (b, bs))"
proof -
  have o: "own_ok (bs \<noteq> []) (own_types b) b" using ok(1) by (simp add: obj_ok_parts)
  obtain post where p: "bo_types b = types_bytes (own_types b) @ post" using types_mem_prefix [OF o ok(2)] .
  have n: "length (types_bytes (own_types b)) = bo_type_len b" using o by (simp add: own_ok_def)
  let ?old = "take (length new) post" and ?post = "drop (length new) post"
  have m: "bo_types b = types_bytes (own_types b) @ ?old @ ?post" using p by simp
  have l: "length new = length ?old" using room p n by simp
  have b': "b' = b\<lparr>bo_types := types_bytes (own_types b) @ new @ ?post\<rparr>"
    using put_bytes_append [OF n l, of ?post] m by (simp add: b'_def)
  show "copying (b, bs) (b', bs)"
    using region_change [OF ok m _ l] n l m by (simp add: copying_def b')
  show "\<exists>pre post. bo_types b' = pre @ new @ post \<and> length pre = bo_type_len b \<and> pre = types_bytes (obj_types (b, bs))"
    using n by (auto simp: b' obj_types_own)
qed

text \<open>A copied type in the memory after the types becomes one of them.\<close>

lemma commit_copied:
  assumes ok: "obj_ok (b, bs)" "fresh b" and m: "bo_types b = pre @ words_le (type_words t) @ post"
      "length pre = bo_type_len b"
    and t: "rest_words t = Some (length (bt_words t))"
    and r: "btf_commit_type env (4 * length (type_words t)) b = (r, b')"
  shows "obj_grows (b, bs) (b', bs)"
    "case r of Inl e \<Rightarrow> alloc_error e \<and> obj_types (b', bs) = obj_types (b, bs)
     | Inr k \<Rightarrow> k = btf__type_cnt (obj_btf (b, bs)) \<and> fresh b' \<and> obj_types (b', bs) = obj_types (b, bs) @ [t]"
proof -
  have o: "own_ok (bs \<noteq> []) (own_types b) b" using ok(1) by (simp add: obj_ok_parts)
  have room: "bo_type_len b + 4 * length (type_words t) \<le> length (bo_types b)" using m by simp
  have r': "btf_commit_type env (4 * length (type_words t)) (store_words (bo_type_len b) (type_words t) b) = (r, b')"
    using r store_same [OF m] by simp
  note f = fill_type_ok [OF o ok(2) room refl t r']
  have "\<exists>ts. own_ok (bs \<noteq> []) ts b' \<and> grows b b' \<and>
      ts = (case r of Inl _ \<Rightarrow> own_types b | Inr _ \<Rightarrow> own_types b @ [t])" using f by (cases r) auto
  then have g: "obj_grows (b, bs) (b', bs)"
      "obj_types (b', bs) = (case r of Inl _ \<Rightarrow> own_types b | Inr _ \<Rightarrow> own_types b @ [t])"
    using obj_replace [OF ok(1)] by blast+
  show "obj_grows (b, bs) (b', bs)" by (rule g(1))
  show "case r of Inl e \<Rightarrow> alloc_error e \<and> obj_types (b', bs) = obj_types (b, bs)
     | Inr k \<Rightarrow> k = btf__type_cnt (obj_btf (b, bs)) \<and> fresh b' \<and> obj_types (b', bs) = obj_types (b, bs) @ [t]"
    using f g(2) by (cases r) (simp_all add: alloc_error_def obj_types_own type_cnt_own)
qed

lemma add_type_ok:
  assumes ok: "obj_ok x" and t: "rest_words t = Some (length (bt_words t))" "type_named src 0 t"
  shows "\<exists>r x'. btf__add_type env cenv src t x = Some (r, x') \<and> obj_grows x x' \<and>
    (case r of Inl e \<Rightarrow> alloc_error e \<and> obj_types x' = obj_types x
     | Inr k \<Rightarrow> k = btf__type_cnt (obj_btf x) \<and> fresh (fst x') \<and>
         (\<exists>t'. obj_types x' = obj_types x @ [t'] \<and> copied src 0 x' (\<lambda>i. i) t t'))"
proof -
  obtain b0 bs where x: "x = (b0, bs)" by (cases x)
  let ?n = "length (type_bytes t)"
  obtain r1 x1 where r1: "reserve_type env ?n (b0, bs) = (r1, x1)" by (cases "reserve_type env ?n (b0, bs)")
  obtain b where b: "x1 = (b, bs)" "obj_grows (b0, bs) (b, bs)" "obj_types (b, bs) = obj_types (b0, bs)"
      "case r1 of Inl e \<Rightarrow> alloc_error e | Inr p \<Rightarrow> fresh b \<and> p = bo_type_len b \<and> bo_type_len b + ?n \<le> length (bo_types b)"
    using reserve_type_ok [OF _ r1] ok x by auto
  note eval = btf__add_type_def btf_add_type_def size_known [OF t(1)] r1 b(1)
  show ?thesis
  proof (cases r1)
    case (Inl e)
    then show ?thesis using eval b x by simp
  next
    case (Inr p)
    have ok1: "obj_ok (b, bs)" "fresh b" using b(2,4) Inr by (simp_all add: obj_grows_def)
    have p: "p = bo_type_len b" "bo_type_len b + ?n \<le> length (bo_types b)" using b(4) Inr by simp_all
    define b2 where "b2 = b\<lparr>bo_types := put_bytes p (type_bytes t) (bo_types b)\<rparr>"
    note put = put_after_types [OF ok1 p(2), folded p(1), folded b2_def]
    obtain pre post where m: "bo_types b2 = pre @ type_bytes t @ post" "length pre = p" "pre = types_bytes (obj_types (b, bs))"
      using put(2) by blast
    have ok2: "obj_ok (b2, bs)" "fresh b2" "bo_type_len b2 \<le> p"
      using copying_ok [OF put(1)] put(1) p(1) keeps_type_len [of b b2] by (auto simp: copying_def)
    have len: "0 + length (type_words t) < 2 ^ 33"
    proof -
      have "own_ok (bs \<noteq> []) (own_types b2) b2" using ok2(1) by (simp add: obj_ok_parts)
      then have "length (bo_types b2) < 2 ^ 32" using ok2(2) by (simp add: own_ok_def fresh_def)
      then show ?thesis using m(1) by (simp add: type_bytes_def)
    qed
    have m0: "opt_map_ok 0 src (b2, bs) None" by (simp add: opt_map_ok_def)
    obtain it r m' b3 cs where r: "btf_field_iter_init BTF_FIELD_ITER_STRS t p = Inr it"
        "rewrite_strs src cenv 0 0 (field_offs it) (None, b2, bs) = Some (r, m', b3, cs)" "copying (b2, bs) (b3, cs)"
        "case r of Inl e \<Rightarrow> alloc_error e
         | Inr _ \<Rightarrow> \<exists>ws. bo_types b3 = pre @ words_le ws @ post \<and>
             words_renamed src 0 (b3, cs) (set (str_words t)) (type_words t) ws"
      using type_strs_ok [OF ok2(1,2) m(1,2) ok2(3) m0 len t] by blast
    have c: "copying (b, bs) (b3, cs)" using copying_trans [OF put(1) r(3)] .
    have g: "obj_grows x (b3, cs)" "obj_types (b3, cs) = obj_types x"
      using c b(2,3) x obj_grows_trans by (auto simp: copying_def)
    have ev: "btf__add_type env cenv src t x =
        (case (r, m', b3, cs) of (Inl e, _, x) \<Rightarrow> Some (Inl e, x)
         | (Inr _, _, x) \<Rightarrow> Some (on_own (btf_commit_type (env 0) ?n) x))"
      using eval Inr x r(1,2) by (simp add: b2_def split: sum.splits)
    show ?thesis
    proof (cases r)
      case (Inl e)
      then show ?thesis using ev r(4) g by simp
    next
      case (Inr u)
      then obtain ws where ws: "bo_types b3 = pre @ words_le ws @ post"
          "words_renamed src 0 (b3, cs) (set (str_words t)) (type_words t) ws" using r(4) by auto
      define t' where "t' = type_of_words ws"
      have lw: "length ws = length (type_words t)" using ws(2) by (simp add: words_renamed_def)
      have tw: "type_words t' = ws" using type_words_of_words lw by (simp add: t'_def length_type_words)
      have cp: "copied src 0 (b3, cs) (\<lambda>i. i) t t'"
        using ws(2) by (auto simp: copied_def words_renamed_def tw)
      note kn = copied_known [OF cp t(1)]
      have ok3: "obj_ok (b3, cs)" "fresh b3" "length pre = bo_type_len b3"
        using copying_ok [OF c] c p(1) m(2) keeps_type_len [of b b3] by (auto simp: copying_def)
      have n: "4 * length (type_words t') = ?n" using lw tw by (simp add: type_bytes_def)
      obtain r4 b4 where com: "btf_commit_type (env 0) (4 * length (type_words t')) b3 = (r4, b4)"
        by (cases "btf_commit_type (env 0) (4 * length (type_words t')) b3")
      note f = commit_copied [OF ok3(1,2) ws(1) [folded tw] ok3(3) kn(2) com]
      have ev': "btf__add_type env cenv src t x = Some (r4, b4, cs)" using ev Inr com n by (simp add: on_own_def)
      have cnt: "btf__type_cnt (obj_btf (b3, cs)) = btf__type_cnt (obj_btf x)"
        using g by (simp add: type_cnt_own obj_grows_def grows_def)
      have "copied src 0 (b4, cs) (\<lambda>i. i) t t'" by (rule copied_grows [OF ok3(1) f(1) cp])
      then show ?thesis
        using ev' f cnt g(2) obj_grows_trans [OF g(1) f(1)] by (cases r4) auto
    qed
  qed
qed

section \<open>All the types of an object\<close>

lemma words_moved_copied:
  assumes r: "words_renamed src lo x (set (str_words t)) (type_words t) ws" and m: "words_moved sid did (set (id_words t)) ws ws'"
    and t: "rest_words t = Some (length (bt_words t))"
  shows "type_words (type_of_words ws') = ws'" "copied src lo x (new_id sid did) t (type_of_words ws')"
proof -
  have l: "length ws' = length (type_words t)" "length ws = length (type_words t)"
    using r m by (simp_all add: words_renamed_def words_moved_def)
  show tw: "type_words (type_of_words ws') = ws'" using l type_words_of_words by (simp add: length_type_words)
  have d: "i \<in> set (str_words t) \<Longrightarrow> i \<notin> set (id_words t)" for i using words_known(7) [OF t] by auto
  show "copied src lo x (new_id sid did) t (type_of_words ws')"
    using r m d l unfolding copied_def words_renamed_def words_moved_def tw by auto
qed

text \<open>One round of the loop: the type at \<open>q\<close> is copied, or the loop is left.\<close>

lemma copy_round:
  assumes ok: "obj_ok (b, bs)" "fresh b" and mem: "bo_types b = pre @ type_bytes t @ post" "length pre = q" "bo_type_len b \<le> q"
    and m: "off_map_ok n (name_pair src (b, bs)) m" "n + length (type_words t) < 2 ^ 33"
    and t: "rest_words t = Some (length (bt_words t))" "type_named src lo t"
  shows "(\<exists>e b' bs'. copy_types src cenv lo sid did (Suc k) c q offs (m, b, bs) = Some (Inl e, b', bs') \<and>
      alloc_error e \<and> copying (b, bs) (b', bs')) \<or>
    (\<exists>c' m' b' bs' t'. copy_types src cenv lo sid did (Suc k) c q offs (m, b, bs) =
        copy_types src cenv lo sid did k c' (q + length (type_bytes t)) (offs @ [q]) (m', b', bs') \<and>
      copying (b, bs) (b', bs') \<and> off_map_ok (n + length (type_words t)) (name_pair src (b', bs')) m' \<and>
      bo_types b' = (pre @ type_bytes t') @ post \<and> copied src lo (b', bs') (new_id sid did) t t')"
proof -
  have md: "bo_modifiable b" using ok(2) by (simp add: fresh_def)
  have hd: "own_type q b = t\<lparr>bt_words := []\<rparr>" by (rule own_type_bytes [OF md mem(1,2)])
  have sz: "btf_type_size ly bb (own_type q b) = int (length (type_bytes t))" for ly bb
    unfolding hd btf_type_size_def header_decides by (simp add: t(1) length_type_bytes sizeof_btf_type_def)
  have room: "q + sizeof_btf_type \<le> length (bo_types b)" "q + length (type_bytes t) \<le> length (bo_types b)"
    using mem by (simp_all add: length_type_bytes sizeof_btf_type_def)
  have om: "opt_map_ok n src (b, bs) (Some m)" using m(1) by (simp add: opt_map_ok_def)
  obtain its r1 m1 b1 cs where s: "btf_field_iter_init BTF_FIELD_ITER_STRS t q = Inr its"
      "rewrite_strs src cenv lo c (field_offs its) (Some m, b, bs) = Some (r1, m1, b1, cs)" "copying (b, bs) (b1, cs)"
      "opt_map_ok (n + length (type_words t)) src (b1, cs) m1"
      "case r1 of Inl e \<Rightarrow> alloc_error e
       | Inr _ \<Rightarrow> \<exists>ws. bo_types b1 = pre @ words_le ws @ post \<and>
           words_renamed src lo (b1, cs) (set (str_words t)) (type_words t) ws"
    using type_strs_ok [OF ok mem om m(2) t] by blast
  obtain iti where i: "btf_field_iter_init BTF_FIELD_ITER_IDS t q = Inr iti" "field_offs iti = map (\<lambda>i. q + 4 * i) (id_words t)"
    using iter_known [OF t(1,1), of BTF_FIELD_ITER_IDS q] by auto
  define m2 where "m2 = (case m1 of None \<Rightarrow> m | Some m \<Rightarrow> m)"
  have ev: "copy_types src cenv lo sid did (Suc k) c q offs (m, b, bs) =
      (case r1 of Inl e \<Rightarrow> Some (Inl e, b1, cs)
       | Inr _ \<Rightarrow> copy_types src cenv lo sid did k (c + length (field_offs its)) (q + length (type_bytes t))
           (offs @ [q]) (m2, remap_ids sid did (field_offs iti) (b1, cs)))"
    using room s(1,2) i(1) by (simp add: hd sz [unfolded hd] not_less Let_def header_decides m2_def split: sum.splits)
  show ?thesis
  proof (cases r1)
    case (Inl e)
    then show ?thesis using ev s(3,5) by simp
  next
    case (Inr u)
    then obtain ws where ws: "bo_types b1 = pre @ words_le ws @ post"
        "words_renamed src lo (b1, cs) (set (str_words t)) (type_words t) ws" using s(5) by auto
    have ok1: "obj_ok (b1, cs)" "fresh b1" "bo_type_len b1 \<le> q"
      using copying_ok [OF s(3)] s(3) mem(3) keeps_type_len [of b b1] by (auto simp: copying_def)
    have il: "\<forall>j\<in>set (id_words t). j < length ws"
      using words_known(4) [OF t(1)] ws(2) by (simp add: words_renamed_def)
    obtain b2 ws' where id: "remap_ids sid did (field_offs iti) (b1, cs) = (b2, cs)" "copying (b1, cs) (b2, cs)"
        "bo_types b2 = pre @ words_le ws' @ post" "words_moved sid did (set (id_words t)) ws ws'"
      using remap_ids_ok [OF ok1(1,2) ws(1) mem(2) ok1(3) words_known(2) [OF t(1)] il] unfolding i(2) by blast
    define t' where "t' = type_of_words ws'"
    note wm = words_moved_copied [OF ws(2) id(4) t(1), folded t'_def]
    have "bo_types b2 = (pre @ type_bytes t') @ post" using id(3) wm(1) by (simp add: type_bytes_def)
    moreover have cp: "copying (b, bs) (b2, cs)" using copying_trans [OF s(3) id(2)] .
    moreover have "off_map_ok (n + length (type_words t)) (name_pair src (b2, cs)) m2"
    proof -
      have "opt_map_ok (n + length (type_words t)) src (b2, cs) m1" "opt_map_ok (n + length (type_words t)) src (b2, cs) (Some m)"
        using opt_map_grows [OF s(4) ok1(1)] opt_map_grows [OF om ok(1)] id(2) cp by (simp_all add: copying_def)
      then show ?thesis by (cases m1) (simp_all add: m2_def opt_map_ok_def)
    qed
    moreover have "copied src lo (b2, cs) (new_id sid did) t t'"
      using copied_grows [OF ok1(1) _ wm(2)] id(2) by (simp add: copying_def)
    ultimately show ?thesis using ev Inr id(1) by (simp only: sum.case) blast
  qed
qed

lemma copy_types_ok:
  assumes "obj_ok (b, bs)" "fresh b" "bo_types b = pre @ types_bytes ts @ post" "length pre = q" "bo_type_len b \<le> q"
    and "off_map_ok n (name_pair src (b, bs)) m" "n + length (types_bytes ts) < 2 ^ 33"
    and "known_types ts" "\<forall>t\<in>set ts. type_named src lo t"
  shows "\<exists>r b' bs'. copy_types src cenv lo sid did (length ts) c q offs (m, b, bs) = Some (r, b', bs') \<and>
    copying (b, bs) (b', bs') \<and>
    (case r of Inl e \<Rightarrow> alloc_error e
     | Inr offs' \<Rightarrow> \<exists>ts'. offs' = offs @ offs_of q ts \<and> bo_types b' = pre @ types_bytes ts' @ post \<and>
         list_all2 (copied src lo (b', bs') (new_id sid did)) ts ts')"
  using assms
proof (induction ts arbitrary: b bs pre q n m c offs)
  case Nil
  have "copying (b, bs) (b, bs)" using Nil.prems by (simp add: copying_refl)
  then show ?case using Nil.prems(3) by auto
next
  case (Cons t ts)
  have t: "rest_words t = Some (length (bt_words t))" "type_named src lo t" "known_types ts" "\<forall>t\<in>set ts. type_named src lo t"
    using Cons.prems(8,9) by (simp_all add: known_types_def)
  have mem: "bo_types b = pre @ type_bytes t @ types_bytes ts @ post" using Cons.prems(3) by simp
  have lw: "n + length (type_words t) < 2 ^ 33" "n + length (type_words t) + length (types_bytes ts) < 2 ^ 33"
    using Cons.prems(7) by (simp_all add: type_bytes_def)
  show ?case
    using copy_round [OF Cons.prems(1,2) mem Cons.prems(4-6) lw(1) t(1,2), of cenv sid did "length ts" c offs]
  proof (elim disjE exE conjE)
    fix e b' bs'
    assume "copy_types src cenv lo sid did (Suc (length ts)) c q offs (m, b, bs) = Some (Inl e, b', bs')"
      "alloc_error e" "copying (b, bs) (b', bs')"
    then show ?thesis by simp
  next
    fix c' m' b1 cs t'
    assume s: "copy_types src cenv lo sid did (Suc (length ts)) c q offs (m, b, bs) =
        copy_types src cenv lo sid did (length ts) c' (q + length (type_bytes t)) (offs @ [q]) (m', b1, cs)"
      "copying (b, bs) (b1, cs)" "off_map_ok (n + length (type_words t)) (name_pair src (b1, cs)) m'"
      "bo_types b1 = (pre @ type_bytes t') @ types_bytes ts @ post" "copied src lo (b1, cs) (new_id sid did) t t'"
    have ok1: "obj_ok (b1, cs)" "fresh b1" "bo_type_len b1 \<le> q + length (type_bytes t)"
      using copying_ok [OF s(2)] s(2) Cons.prems(5) keeps_type_len [of b b1] by (auto simp: copying_def)
    have lp: "length (pre @ type_bytes t') = q + length (type_bytes t)"
      using Cons.prems(4) s(5) by (simp add: copied_def type_bytes_def)
    obtain r b' bs' where ih: "copy_types src cenv lo sid did (length ts) c' (q + length (type_bytes t)) (offs @ [q]) (m', b1, cs) =
          Some (r, b', bs')" "copying (b1, cs) (b', bs')"
        "case r of Inl e \<Rightarrow> alloc_error e
         | Inr offs' \<Rightarrow> \<exists>ts'. offs' = (offs @ [q]) @ offs_of (q + length (type_bytes t)) ts \<and>
             bo_types b' = (pre @ type_bytes t') @ types_bytes ts' @ post \<and>
             list_all2 (copied src lo (b', bs') (new_id sid did)) ts ts'"
      using Cons.IH [OF ok1(1,2) s(4) lp ok1(3) s(3) lw(2) t(3,4)] by blast
    have "copied src lo (b', bs') (new_id sid did) t t'"
      using copied_grows [OF ok1(1) _ s(5)] ih(2) by (simp add: copying_def)
    then have cp: "list_all2 (copied src lo (b', bs') (new_id sid did)) (t # ts) (t' # ts')"
      if "list_all2 (copied src lo (b', bs') (new_id sid did)) ts ts'" for ts' using that by simp
    have "\<exists>us. offs' = offs @ offs_of q (t # ts) \<and> bo_types b' = pre @ types_bytes us @ post \<and>
        list_all2 (copied src lo (b', bs') (new_id sid did)) (t # ts) us" if r: "r = Inr offs'" for offs'
    proof -
      obtain ts' where "offs' = (offs @ [q]) @ offs_of (q + length (type_bytes t)) ts"
          "bo_types b' = (pre @ type_bytes t') @ types_bytes ts' @ post"
          "list_all2 (copied src lo (b', bs') (new_id sid did)) ts ts'" using ih(3) r by auto
      then show ?thesis using cp by (intro exI [of _ "t' # ts'"]) simp
    qed
    then show ?thesis
      using s(1) ih copying_trans [OF s(2) ih(2)] by (cases r) auto
  qed
qed

text \<open>The index is given room; the capacity is not part of the object's meaning.\<close>

lemma set_cap_copying:
  assumes "obj_ok (b, bs)" "fresh b"
  shows "copying (b, bs) (b\<lparr>bo_type_offs_cap := cap\<rparr>, bs)"
proof -
  let ?b = "b\<lparr>bo_type_offs_cap := cap\<rparr>"
  have f: "strs_bytes ?b = strs_bytes b" "layout_bytes ?b = layout_bytes b" "types_mem ?b = types_mem b" "fresh ?b"
      "own_strs_ok split ?b = own_strs_ok split b" for split
    using assms(2) by (simp_all add: strs_bytes_def layout_bytes_def layout_mem_def btf_strs_data_def raw_section_def
        types_mem_def fresh_def own_strs_ok_def)
  have k: "keeps b ?b" by (simp add: keeps_def f) (simp add: strs_bytes_def)
  have "own_ok (bs \<noteq> []) (own_types b) ?b" using assms(1) by (simp add: obj_ok_parts own_ok_def f)
  then show ?thesis
    using obj_replace [OF assms(1) _ keeps_grows [OF k]] k f by (simp add: copying_def obj_types_own)
qed

lemma offs_mem_ok:
  assumes "obj_ok (b, bs)" "fresh b" "on_own (btf_add_type_offs_mem env cnt) (b, bs) = (r, x')"
  shows "\<exists>b'. x' = (b', bs) \<and> copying (b, bs) (b', bs) \<and> bo_types b' = bo_types b \<and> (\<forall>e. r = Inl e \<longrightarrow> e = ENOMEM)"
  using assms(3) set_cap_copying [OF assms(1,2)] copying_refl [of "(b, bs)"] assms(1,2)
  by (auto simp: on_own_def btf_add_type_offs_mem_def Let_def split: if_splits)

text \<open>A copy that failed: the memory is cleared and the length of the strings is the old one.\<close>

lemma rollback_ok:
  assumes c: "copying (b, bs) (b', bs')" and f: "fresh b" and ok: "obj_ok (b, bs)"
    and room: "bo_type_len b' + length zs \<le> length (bo_types b')"
  defines "x' \<equiv> (b'\<lparr>bo_types := put_bytes (bo_type_len b') zs (bo_types b'),
    bo_hdr := (bo_hdr b')\<lparr>bh_str_len := bh_str_len (bo_hdr b)\<rparr>\<rparr>, bs')"
  shows "obj_types x' = obj_types (b, bs)" "obj_name x' k = obj_name (b, bs) k"
proof -
  have ok': "obj_ok (b', bs')" "fresh b'" using copying_ok [OF c] c by (simp_all add: copying_def)
  note put = put_after_types [OF ok' room]
  let ?b2 = "b'\<lparr>bo_types := put_bytes (bo_type_len b') zs (bo_types b')\<rparr>"
  have c2: "copying (b, bs) (?b2, bs')" by (rule copying_trans [OF c put(1)])
  have k2: "keeps b ?b2" "fresh ?b2" "same_bases bs bs'" "obj_types (?b2, bs') = obj_types (b, bs)"
    using c2 by (simp_all add: copying_def obj_grows_def)
  have x: "x' = (?b2\<lparr>bo_hdr := (bo_hdr ?b2)\<lparr>bh_str_len := bh_str_len (bo_hdr b)\<rparr>\<rparr>, bs')" by (simp add: x'_def)
  have t: "own_types (fst x') = own_types ?b2" using ok'(2) by (simp add: x own_types_def types_mem_def fresh_def)
  then show "obj_types x' = obj_types (b, bs)" using k2(4) by (simp add: obj_types_own)
  have le: "bo_str_len b \<le> bo_str_len ?b2" "take (bo_str_len b) (strs_bytes ?b2) = strs_bytes b"
    using k2(1) by (simp_all only: keeps_def)
  have sb: "strs_bytes (fst x') = strs_bytes b"
  proof -
    have "strs_bytes (fst x') = take (bo_str_len b) (btf_strs_data ?b2)"
      using k2(2) by (simp add: x strs_bytes_def btf_strs_data_def fresh_def)
    also have "\<dots> = take (bo_str_len b) (strs_bytes ?b2)" using le(1) by (simp add: strs_bytes_def)
    finally show ?thesis using le(2) by simp
  qed
  have "bo_start_str_off (fst x') = bo_start_str_off b" using k2(1) by (simp add: x keeps_def)
  then show "obj_name x' k = obj_name (b, bs) k"
    using sb same_bases_name [OF k2(3)] by (simp add: obj_name_bases x)
qed

text \<open>The types copied into the memory after the types become types of the object.\<close>

lemma commit_types:
  assumes ok: "obj_ok (b, bs)" "fresh b" and m: "bo_types b = types_bytes (obj_types (b, bs)) @ types_bytes us @ post"
    and kn: "known_types us" and d: "d = length (types_bytes us)"
  defines "b' \<equiv> btf_hdr_update_type_len (bh_type_len (bo_hdr b) + of_nat d)
      (b\<lparr>bo_type_offs := bo_type_offs b @ offs_of (bo_type_len b) us\<rparr>)"
  shows "obj_grows (b, bs) (b', bs)" "obj_types (b', bs) = obj_types (b, bs) @ us"
proof -
  let ?ts = "own_types b"
  let ?b1 = "b\<lparr>bo_type_offs := bo_type_offs b @ offs_of (bo_type_len b) us\<rparr>"
  have o: "own_ok (bs \<noteq> []) ?ts b" using ok(1) by (simp add: obj_ok_parts)
  have l: "length (bo_types b) < 2 ^ 32" using o ok(2) by (simp add: own_ok_def fresh_def)
  have f: "strs_bytes ?b1 = strs_bytes b" "layout_bytes ?b1 = layout_bytes b" "own_strs_ok split ?b1 = own_strs_ok split b" for split
    by (simp_all add: strs_bytes_def layout_bytes_def layout_mem_def btf_strs_data_def raw_section_def own_strs_ok_def)
  have n: "bo_type_len b = length (types_bytes ?ts)" using o by (simp add: own_ok_def)
  have "own_ok (bs \<noteq> []) (?ts @ us) b' \<and> grows ?b1 b' \<and> fresh b'"
    unfolding b'_def
  proof (rule commit_memory)
    show "bo_types ?b1 = types_bytes (?ts @ us) @ post" using m by (simp add: obj_types_own)
    show "bo_type_offs ?b1 = offs_of 0 (?ts @ us)" using o n by (simp add: own_ok_def offs_of_append)
    show "known_types (?ts @ us)" using o kn by (simp add: own_ok_def known_types_append)
    show "own_strs_ok (bs \<noteq> []) ?b1" using o f by (simp add: own_ok_def)
    show "length (layout_bytes ?b1) = bo_layout_len ?b1" using o f by (simp add: own_ok_def)
    show "unat (bh_type_len (bo_hdr b) + of_nat d) = length (types_bytes (?ts @ us))"
      using word_add_exact [of "bh_type_len (bo_hdr b)" d] l m n d by (simp add: obj_types_own)
  qed (use ok(2) o l in \<open>simp_all add: fresh_def own_ok_def\<close>)
  moreover have "grows b ?b1" by (simp add: grows_def f) (simp add: strs_bytes_def)
  ultimately show "obj_grows (b, bs) (b', bs)" "obj_types (b', bs) = obj_types (b, bs) @ us"
    using obj_replace [OF ok(1)] grows_trans by (auto simp: obj_types_own)
qed

lemma copied_list:
  assumes "list_all2 (copied src lo x f) ts us" "known_types ts"
  shows "offs_of n us = offs_of n ts \<and> known_types us \<and> length (types_bytes us) = length (types_bytes ts)"
  using assms
proof (induction ts us arbitrary: n rule: list_all2_induct)
  case (Cons t ts u us)
  have t: "rest_words t = Some (length (bt_words t))" "known_types ts" using Cons.prems by (simp_all add: known_types_def)
  have "length (type_bytes u) = length (type_bytes t)" using Cons.hyps(1) by (simp add: copied_def type_bytes_def)
  moreover have "rest_words u = Some (length (bt_words u))" by (rule copied_known(2) [OF Cons.hyps(1) t(1)])
  ultimately show ?case using Cons.IH [OF t(2)] by (simp add: known_types_def)
qed (simp add: known_types_def)

lemma copy_all:
  assumes ok: "obj_ok (b, bs)" "fresh b" and room: "bo_type_len b + length (types_bytes ts) \<le> length (bo_types b)"
    and kn: "known_types ts" "\<forall>t\<in>set ts. type_named src lo t"
  defines "b1 \<equiv> b\<lparr>bo_types := put_bytes (bo_type_len b) (types_bytes ts) (bo_types b)\<rparr>"
  shows "\<exists>r c cs. copy_types src cenv lo sid did (length ts) 0 (bo_type_len b) [] (hashmap__init, b1, bs) = Some (r, c, cs) \<and>
    copying (b, bs) (c, cs) \<and>
    (case r of Inl e \<Rightarrow> alloc_error e
     | Inr offs \<Rightarrow>
         \<exists>us. obj_grows (c, cs) (btf_hdr_update_type_len (bh_type_len (bo_hdr c) + of_nat (length (types_bytes ts)))
                  (c\<lparr>bo_type_offs := bo_type_offs c @ offs\<rparr>), cs) \<and>
           obj_types (btf_hdr_update_type_len (bh_type_len (bo_hdr c) + of_nat (length (types_bytes ts)))
                  (c\<lparr>bo_type_offs := bo_type_offs c @ offs\<rparr>), cs) = obj_types (b, bs) @ us \<and>
           list_all2 (copied src lo (c, cs) (new_id sid did)) ts us)"
proof -
  note put = put_after_types [OF ok room, folded b1_def]
  obtain pre post where m: "bo_types b1 = pre @ types_bytes ts @ post" "length pre = bo_type_len b"
      "pre = types_bytes (obj_types (b, bs))" using put(2) by blast
  have ok1: "obj_ok (b1, bs)" "fresh b1" "bo_type_len b1 \<le> bo_type_len b"
    using copying_ok [OF put(1)] put(1) keeps_type_len [of b b1] by (auto simp: copying_def)
  have "own_ok (bs \<noteq> []) (own_types b1) b1" using ok1(1) by (simp add: obj_ok_parts)
  then have "length (bo_types b1) < 2 ^ 32" using ok1(2) by (simp add: own_ok_def fresh_def)
  then have le: "0 + length (types_bytes ts) < 2 ^ 33" using m(1) by simp
  obtain r c cs where r: "copy_types src cenv lo sid did (length ts) 0 (bo_type_len b) [] (hashmap__init, b1, bs) = Some (r, c, cs)"
      "copying (b1, bs) (c, cs)"
      "case r of Inl e \<Rightarrow> alloc_error e
       | Inr offs \<Rightarrow> \<exists>us. offs = [] @ offs_of (bo_type_len b) ts \<and> bo_types c = pre @ types_bytes us @ post \<and>
           list_all2 (copied src lo (c, cs) (new_id sid did)) ts us"
    using copy_types_ok [OF ok1(1,2) m(1,2) ok1(3) off_map_init le kn] by blast
  have cp: "copying (b, bs) (c, cs)" by (rule copying_trans [OF put(1) r(2)])
  show ?thesis
  proof (cases r)
    case (Inl e)
    then show ?thesis using r cp by simp
  next
    case (Inr offs)
    then obtain us where us: "offs = offs_of (bo_type_len b) ts" "bo_types c = pre @ types_bytes us @ post"
        "list_all2 (copied src lo (c, cs) (new_id sid did)) ts us" using r(3) by auto
    note lu = copied_list [OF us(3) kn(1)]
    have okc: "obj_ok (c, cs)" "fresh c" "bo_type_len c = bo_type_len b" "obj_types (c, cs) = obj_types (b, bs)"
      using copying_ok [OF cp] cp keeps_type_len [of b c] by (auto simp: copying_def)
    have mc: "bo_types c = types_bytes (obj_types (c, cs)) @ types_bytes us @ post" using us(2) m(3) okc(4) by simp
    have ku: "known_types us" "length (types_bytes ts) = length (types_bytes us)" using lu by simp_all
    have of: "offs = offs_of (bo_type_len c) us" using us(1) lu okc(3) by simp
    have "obj_grows (c, cs) (btf_hdr_update_type_len (bh_type_len (bo_hdr c) + of_nat (length (types_bytes ts)))
            (c\<lparr>bo_type_offs := bo_type_offs c @ offs\<rparr>), cs)"
      "obj_types (btf_hdr_update_type_len (bh_type_len (bo_hdr c) + of_nat (length (types_bytes ts)))
            (c\<lparr>bo_type_offs := bo_type_offs c @ offs\<rparr>), cs) = obj_types (c, cs) @ us"
      using commit_types [OF okc(1,2) mc ku] unfolding of by blast+
    then show ?thesis using r(1) cp Inr us(3) okc(4) by auto
  qed
qed

lemma source_bytes:
  assumes "obj_ok src"
  shows "take (bo_type_len (fst src)) (types_mem (fst src)) = types_bytes (obj_types src)"
    "bo_type_len (fst src) = length (types_bytes (obj_types src))"
    "length (bo_type_offs (fst src)) = length (obj_types src)" "known_types (obj_types src)"
proof -
  have "own_ok (snd src \<noteq> []) (own_types (fst src)) (fst src)" using assms by (cases src) (simp add: obj_ok_parts)
  then show "take (bo_type_len (fst src)) (types_mem (fst src)) = types_bytes (obj_types src)"
    "bo_type_len (fst src) = length (types_bytes (obj_types src))"
    "length (bo_type_offs (fst src)) = length (obj_types src)" "known_types (obj_types src)"
    by (simp_all add: own_ok_def obj_types_own)
qed

definition first_own_id :: "btf_obj \<Rightarrow> nat" where
  "first_own_id src = (case snd src of [] \<Rightarrow> 1 | c # bs \<Rightarrow> btf__type_cnt (obj_btf (c, bs)))"

text \<open>Once the memory is there, the types are copied and committed, or the copy is rolled back.\<close>

lemma add_btf_go:
  assumes ok: "obj_ok x" "obj_ok src" and base: "\<not> (snd src \<noteq> [] \<and> \<not> same_base)"
    and nm: "\<forall>t\<in>set (obj_types src). type_named (obj_btf src) (bo_start_str_off (fst src)) t"
  defines "d \<equiv> length (types_bytes (obj_types src))"
  assumes r1: "reserve_type env d x = (Inr p, b, bs)"
    and r2: "on_own (btf_add_type_offs_mem (env 0) (length (obj_types src))) (b, bs) = (Inr (), c, bs)" and map_ok
    and gc: "obj_grows x (c, bs)" "obj_types (c, bs) = obj_types x" "fresh c" "bo_type_len c = p" "p + d \<le> length (bo_types c)"
  shows "\<exists>r x'. btf__add_btf env cenv map_ok same_base src x = Some (r, x') \<and>
    (\<forall>k s. obj_name x k = Some s \<longrightarrow> obj_name x' k = Some s) \<and>
    (case r of Inl e \<Rightarrow> alloc_error e \<and> obj_types x' = obj_types x
     | Inr k \<Rightarrow> k = btf__type_cnt (obj_btf x) \<and> obj_grows x x' \<and>
         (snd src \<noteq> [] \<longrightarrow> same_base) \<and>
         (\<exists>us. obj_types x' = obj_types x @ us \<and>
            list_all2 (copied (obj_btf src) (bo_start_str_off (fst src)) x'
                (new_id (first_own_id src) (of_nat (btf__type_cnt (obj_btf x))))) (obj_types src) us))"
proof -
  let ?ts = "obj_types src"
  note names = obj_grows_names [OF ok(1)]
  note src = source_bytes [OF ok(2), folded d_def]
  have okc: "obj_ok (c, bs)" "fresh c" "bo_type_len c = p" "bo_type_len c + d \<le> length (bo_types c)"
    using gc by (simp_all add: obj_grows_def)
  define did where "did = (of_nat (bo_start_id c + length (bo_type_offs c)) :: u32)"
  define c1 where "c1 = c\<lparr>bo_types := put_bytes (bo_type_len c) (types_bytes ?ts) (bo_types c)\<rparr>"
  obtain r3 e es where r3: "copy_types (obj_btf src) cenv (bo_start_str_off (fst src)) (first_own_id src) did (length ?ts) 0
        (bo_type_len c) [] (hashmap__init, c1, bs) = Some (r3, e, es)" "copying (c, bs) (e, es)"
    and r3': "case r3 of Inl e \<Rightarrow> alloc_error e
      | Inr offs \<Rightarrow>
         \<exists>us. obj_grows (e, es) (btf_hdr_update_type_len (bh_type_len (bo_hdr e) + of_nat d)
                  (e\<lparr>bo_type_offs := bo_type_offs e @ offs\<rparr>), es) \<and>
           obj_types (btf_hdr_update_type_len (bh_type_len (bo_hdr e) + of_nat d)
                  (e\<lparr>bo_type_offs := bo_type_offs e @ offs\<rparr>), es) = obj_types (c, bs) @ us \<and>
           list_all2 (copied (obj_btf src) (bo_start_str_off (fst src)) (e, es) (new_id (first_own_id src) did)) ?ts us"
    using copy_all [OF okc(1,2) _ src(4) nm] okc(4) unfolding c1_def d_def by blast
  have cnt: "bo_start_id c + length (bo_type_offs c) = btf__type_cnt (obj_btf x)"
    using source_bytes(3) [OF okc(1)] gc by (simp add: type_cnt_own obj_grows_def grows_def)
  have ge: "obj_grows x (e, es)" "obj_types (e, es) = obj_types x" "fresh e"
    using r3(2) gc obj_grows_trans [OF gc(1)] by (simp_all add: copying_def)
  define upd where "upd offs = btf_hdr_update_type_len (bh_type_len (bo_hdr e) + of_nat d)
      (e\<lparr>bo_type_offs := bo_type_offs e @ offs\<rparr>)" for offs
  have ev: "btf__add_btf env cenv map_ok same_base src x =
      (case r3 of
         Inl c' \<Rightarrow> Some (Inl c', e\<lparr>bo_types := put_bytes (bo_type_len e) (replicate d 0) (bo_types e),
                              bo_hdr := (bo_hdr e)\<lparr>bh_str_len := bh_str_len (bo_hdr c)\<rparr>\<rparr>, es)
       | Inr offs \<Rightarrow> Some (Inr (bo_start_id (upd offs) + length (bo_type_offs (upd offs)) - length ?ts), upd offs, es))"
    using base src(1-3) r1 r2 \<open>map_ok\<close> r3(1) okc(3) unfolding btf__add_btf_def
    by (auto simp: Let_def first_own_id_def c1_def did_def upd_def split: sum.splits)
  show ?thesis
  proof (cases r3)
    case (Inl q)
    have room: "bo_type_len e + length (replicate d (0 :: byte)) \<le> length (bo_types e)"
      using okc(4) r3(2) keeps_type_len [of c e] by (auto simp: copying_def)
    note rb = rollback_ok [OF r3(2) okc(2,1) room]
    show ?thesis using ev Inl r3' rb gc names by simp
  next
    case (Inr offs)
    obtain us where us: "obj_grows (e, es) (upd offs, es)" "obj_types (upd offs, es) = obj_types x @ us"
        "list_all2 (copied (obj_btf src) (bo_start_str_off (fst src)) (e, es) (new_id (first_own_id src) did)) ?ts us"
      using r3' Inr gc(2) by (auto simp: upd_def)
    have gx: "obj_grows x (upd offs, es)" by (rule obj_grows_trans [OF ge(1) us(1)])
    have oe: "obj_ok (e, es)" "obj_ok (upd offs, es)" using ge(1) gx by (simp_all add: obj_grows_def)
    have "list_all2 (copied (obj_btf src) (bo_start_str_off (fst src)) (upd offs, es) (new_id (first_own_id src) did)) ?ts us"
      using us(3) by (rule list_all2_mono) (rule copied_grows [OF oe(1) us(1)])
    moreover have "bo_start_id (upd offs) + length (bo_type_offs (upd offs)) - length ?ts = btf__type_cnt (obj_btf x)"
      using source_bytes(3) [OF oe(2)] us(2) list_all2_lengthD [OF us(3)] gx
      by (simp add: type_cnt_own obj_grows_def grows_def)
    ultimately show ?thesis
      using ev Inr gx us(2) names [OF gx] base unfolding did_def cnt by auto
  qed
qed

lemma add_btf_ok:
  assumes ok: "obj_ok x" "obj_ok src"
    and nm: "\<forall>t\<in>set (obj_types src). type_named (obj_btf src) (bo_start_str_off (fst src)) t"
  shows "\<exists>r x'. btf__add_btf env cenv map_ok same_base src x = Some (r, x') \<and>
    (\<forall>k s. obj_name x k = Some s \<longrightarrow> obj_name x' k = Some s) \<and>
    (case r of Inl e \<Rightarrow> alloc_error e \<and> obj_types x' = obj_types x
     | Inr k \<Rightarrow> k = btf__type_cnt (obj_btf x) \<and> obj_grows x x' \<and>
         (snd src \<noteq> [] \<longrightarrow> same_base) \<and>
         (\<exists>us. obj_types x' = obj_types x @ us \<and>
            list_all2 (copied (obj_btf src) (bo_start_str_off (fst src)) x'
                (new_id (first_own_id src) (of_nat (btf__type_cnt (obj_btf x))))) (obj_types src) us))"
proof (cases "snd src \<noteq> [] \<and> \<not> same_base")
  case True
  then have "btf__add_btf env cenv map_ok same_base src x = Some (Inl EOPNOTSUPP, x)" by (simp add: btf__add_btf_def)
  then show ?thesis by (simp add: alloc_error_def)
next
  case base: False
  note names = obj_grows_names [OF ok(1)]
  obtain b0 bs where x: "x = (b0, bs)" by (cases x)
  let ?ts = "obj_types src"
  let ?d = "length (types_bytes ?ts)"
  note src = source_bytes [OF ok(2)]
  obtain r1 x1 where r1: "reserve_type env ?d (b0, bs) = (r1, x1)" by (cases "reserve_type env ?d (b0, bs)")
  obtain b where b: "x1 = (b, bs)" "obj_grows (b0, bs) (b, bs)" "obj_types (b, bs) = obj_types (b0, bs)"
      "case r1 of Inl e \<Rightarrow> alloc_error e | Inr p \<Rightarrow> fresh b \<and> p = bo_type_len b \<and> bo_type_len b + ?d \<le> length (bo_types b)"
    using reserve_type_ok [OF _ r1] ok(1) x by auto
  note eval = btf__add_btf_def base src(2,3) r1 b(1) x
  show ?thesis
  proof (cases r1)
    case (Inl e)
    then show ?thesis using eval b names by (auto simp: Let_def)
  next
    case (Inr p)
    have ok1: "obj_ok (b, bs)" "fresh b" using b(2,4) Inr by (simp_all add: obj_grows_def)
    have p: "p = bo_type_len b" "bo_type_len b + ?d \<le> length (bo_types b)" using b(4) Inr by simp_all
    obtain r2 x2 where r2: "on_own (btf_add_type_offs_mem (env 0) (length ?ts)) (b, bs) = (r2, x2)"
      by (cases "on_own (btf_add_type_offs_mem (env 0) (length ?ts)) (b, bs)")
    obtain c where c: "x2 = (c, bs)" "copying (b, bs) (c, bs)" "bo_types c = bo_types b" "\<forall>e. r2 = Inl e \<longrightarrow> e = ENOMEM"
      using offs_mem_ok [OF ok1 r2] by blast
    have gc: "obj_grows x (c, bs)" "obj_types (c, bs) = obj_types x"
      using c(2) b(2,3) x obj_grows_trans by (auto simp: copying_def)
    show ?thesis
    proof (cases "(\<exists>e. r2 = Inl e) \<or> \<not> map_ok")
      case True
      then have "btf__add_btf env cenv map_ok same_base src x = Some (Inl ENOMEM, c, bs)"
        using eval Inr r2 c(1,4) by (cases r2) (auto simp: Let_def)
      then show ?thesis using gc names by (auto simp: alloc_error_def)
    next
      case False
      then have go: "r2 = Inr ()" map_ok by (cases r2; auto)+
      have "fresh c" "bo_type_len c = p" "p + ?d \<le> length (bo_types c)"
        using c(2,3) p keeps_type_len [of b c] by (auto simp: copying_def)
      then show ?thesis
        using add_btf_go [OF ok base nm, of env p b bs c map_ok cenv] r1 r2 b(1) c(1) Inr go gc x by simp
    qed
  qed
qed

section \<open>Names in full\<close>

text \<open>Offset zero is the empty name of the deepest base.\<close>

lemma name_zero: "chain_ok bs \<Longrightarrow> bs \<noteq> [] \<Longrightarrow> bases_name bs 0 = Some []"
proof (induction bs)
  case (Cons b bs)
  have o: "own_ok (bs \<noteq> []) (own_types b) b" using Cons.prems by simp
  show ?case
  proof (cases bs)
    case Nil
    then obtain s where "strs_bytes b = 0 # s" using o by (auto simp: own_ok_def own_strs_ok_def)
    then show ?thesis using Cons.prems Nil by (simp add: cstr_at_def chars_of_def)
  next
    case (Cons c cs)
    have ih: "bases_name bs 0 = Some []" using Cons.IH Cons Cons.prems by simp
    have "0 < bo_start_str_off b"
    proof -
      have "bo_start_str_off b = bo_start_str_off c + bo_str_len c" using Cons.prems Cons by simp
      moreover have "bases_name (c # cs) 0 = Some []" using ih Cons by simp
      moreover have "length (strs_bytes c) = bo_str_len c"
        using Cons.prems Cons by (simp add: own_ok_def own_strs_ok_def)
      ultimately show ?thesis by (auto split: if_splits)
    qed
    then show ?thesis using ih by simp
  qed
qed simp

lemma obj_name_zero: "obj_ok x \<Longrightarrow> obj_name x 0 = Some []"
  using name_zero [of "fst x # snd x"] by (simp add: obj_ok_def obj_name_bases)

text \<open>Offsets below the own strings of two objects on the same base are the same names.\<close>

lemma base_names:
  assumes "obj_ok x" "obj_ok src" "snd src = snd x" "k < bo_start_str_off (fst src)"
  shows "obj_name x k = obj_name src k"
proof -
  have "bo_start_str_off (fst x) = bo_start_str_off (fst src)"
    using assms(1-4) by (cases x, cases src) (auto simp: obj_ok_parts split: list.splits)
  then show ?thesis using assms(3,4) by (simp add: obj_name_bases)
qed

end
