(* ===== verification/Btf_Copies.thy ===== *)
theory Btf_Copies
  imports Btf_Copy_Props
begin

text \<open>
  Adding all the types of one object to another: the property, and a small object to copy.
\<close>

section \<open>Copies of types\<close>

text \<open>
  A copy has the words of the original, but its names are where the same names are in the new
  object, and its ids are moved from the first own id of the source to \<open>k\<close>.
\<close>

definition copy_of :: "btf_obj \<Rightarrow> btf_obj \<Rightarrow> nat \<Rightarrow> btf_type \<Rightarrow> btf_type \<Rightarrow> bool" where
  "copy_of src x' k t t' \<longleftrightarrow>
     length (type_words t') = length (type_words t) \<and>
     (\<forall>i<length (type_words t).
        if i \<in> set (str_words t) then obj_name x' (unat (type_words t' ! i)) = obj_name src (unat (type_words t ! i))
        else if i \<in> set (id_words t)
        then type_words t' ! i = new_id (first_own_id src) (of_nat k) (type_words t ! i)
        else type_words t' ! i = type_words t ! i)"

definition names_found :: "btf_obj \<Rightarrow> bool" where
  "names_found src \<longleftrightarrow>
     (\<forall>t\<in>set (obj_types src). \<forall>i\<in>set (str_words t). obj_name src (unat (type_words t ! i)) \<noteq> None)"

lemma name_of_word: "btf__name_by_offset (obj_btf x) w = obj_name x (unat w)"
  by (simp add: btf__name_by_offset_def obj_name_def)

lemma renamed_name:
  assumes ok: "obj_ok x" "obj_ok src" "obj_ok x'" "obj_grows x x'" and base: "snd src = [] \<or> snd src = snd x"
    and r: "renamed (obj_btf src) (bo_start_str_off (fst src)) x' w w'" and n: "obj_name src (unat w) \<noteq> None"
  shows "obj_name x' (unat w') = obj_name src (unat w)"
proof -
  consider "w = 0" | "w \<noteq> 0" "unat w < bo_start_str_off (fst src)" | "w \<noteq> 0" "\<not> unat w < bo_start_str_off (fst src)"
    by blast
  then show ?thesis
  proof cases
    case 1
    then show ?thesis using r obj_name_zero [OF ok(2)] obj_name_zero [OF ok(3)] by (simp add: renamed_def)
  next
    case 2
    have "snd src \<noteq> []" using 2(2) ok(2) by (cases src) (auto simp: obj_ok_parts)
    then have "obj_name x (unat w) = obj_name src (unat w)" using base_names [OF ok(1,2) _ 2(2)] base by blast
    moreover obtain s where "obj_name src (unat w) = Some s" using n by auto
    ultimately have "obj_name x' (unat w) = obj_name src (unat w)" using obj_grows_names [OF ok(1,4)] by simp
    then show ?thesis using r 2 by (simp add: renamed_def)
  next
    case 3
    then show ?thesis using r by (auto simp: renamed_def name_pair_def name_of_word)
  qed
qed

lemma copied_copy:
  assumes ok: "obj_ok x" "obj_ok src" "obj_ok x'" "obj_grows x x'" and base: "snd src = [] \<or> snd src = snd x"
    and c: "copied (obj_btf src) (bo_start_str_off (fst src)) x' (new_id (first_own_id src) (of_nat k)) t t'"
    and n: "\<forall>i\<in>set (str_words t). obj_name src (unat (type_words t ! i)) \<noteq> None"
  shows "copy_of src x' k t t'"
  using c n renamed_name [OF ok base] unfolding copied_def copy_of_def by metis

section \<open>The property\<close>


text \<open>An object read from data, with an \<open>int\<close> and a typedef \<open>t\<close> of it.\<close>

definition demo_src_types :: "btf_type list" where
  "demo_src_types =
     [\<lparr>bt_name_off = 1, bt_info = 0x01000000, bt_union = 4, bt_words = [0x01000020]\<rparr>,
      \<lparr>bt_name_off = 5, bt_info = 0x08000000, bt_union = 1, bt_words = []\<rparr>]"

definition demo_src :: btf_own where
  "demo_src =
     \<lparr>bo_hdr = \<lparr>bh_magic = BTF_MAGIC, bh_version = BTF_VERSION, bh_flags = 0, bh_hdr_len = 32,
        bh_type_off = 0, bh_type_len = 28, bh_str_off = 28, bh_str_len = 7, bh_layout_off = 0, bh_layout_len = 0\<rparr>,
      bo_raw = Some (replicate 32 0 @ types_bytes demo_src_types @ [0, 0x69, 0x6E, 0x74, 0, 0x74, 0]),
      bo_raw_swapped = None, bo_raw_size = 67, bo_raw_mmap = False, bo_swapped = False, bo_hdr_extra = False,
      bo_modifiable = False, bo_types = [], bo_strs = no_strs, bo_strs_deduped = False, bo_layout = [],
      bo_type_offs = [0, 16], bo_type_offs_cap = 16, bo_start_id = 1, bo_start_str_off = 0,
      bo_named_start_id = 0, bo_ptr_sz = 8\<rparr>"

lemma demo_src_ok:
  "obj_ok (demo_src, [])" "obj_types (demo_src, []) = demo_src_types" "names_found (demo_src, [])"
proof -
  have l: "length (types_bytes demo_src_types) = 28" by (simp add: demo_src_types_def length_type_bytes)
  have sb: "strs_bytes demo_src = [0, 0x69, 0x6E, 0x74, 0, 0x74, 0]"
    using l by (simp add: strs_bytes_def btf_strs_data_def raw_section_def demo_src_def)
  have tm: "types_mem demo_src = types_bytes demo_src_types @ [0, 0x69, 0x6E, 0x74, 0, 0x74, 0]"
    by (simp add: types_mem_def raw_section_def demo_src_def)
  have k: "known_types demo_src_types"
    by (simp add: known_types_def demo_src_types_def rest_words_def btf_kind_def btf_vlen_def btf_kinds)
  have o: "own_ok False demo_src_types demo_src"
    using l k by (simp add: own_ok_def tm own_strs_ok_def sb)
      (simp add: demo_src_def demo_src_types_def length_type_bytes hdr_ok_def strs_end_def layout_bytes_def)
  have t: "own_types demo_src = demo_src_types" by (rule own_types_ok [OF o])
  show "obj_ok (demo_src, [])" using o t by (simp add: obj_ok_parts) (simp add: demo_src_def)
  show ty: "obj_types (demo_src, []) = demo_src_types" using t by (simp add: obj_types_own)
  show "names_found (demo_src, [])"
    unfolding names_found_def ty
    by (simp add: obj_name_bases sb) (simp add: demo_src_def demo_src_types_def str_words_def type_words_def btf_kind_def
        btf_kinds)
qed


end
