(* ===== verification/Btf_Succeeds.thy ===== *)
theory Btf_Succeeds
  imports Btf_Builder
begin

text \<open>
  The builder succeeds: a request that is accepted is carried out when memory is granted and there
  is room for its string, its bytes and its index entry.
\<close>

section \<open>Memory and room\<close>

definition granted :: "str_env \<Rightarrow> bool" where
  "granted e \<longleftrightarrow> se_mem e \<and> se_grow e \<and> se_entry e"

definition generous :: "build_env \<Rightarrow> bool" where
  "generous e \<longleftrightarrow>
     be_types_copy e \<and> be_layout_copy e \<and> be_set e \<and> (\<forall>i. granted (be_index e i)) \<and> granted (be_str e) \<and>
     (\<forall>n. be_types e n) \<and> (\<forall>n. be_offs e n)"

text \<open>The strings of one object can take \<open>n\<close> more bytes, and nothing forbids changing it.\<close>

definition str_room :: "nat \<Rightarrow> btf_own \<Rightarrow> bool" where
  "str_room n b \<longleftrightarrow>
     (if bo_modifiable b then ss_len (bo_strs b) + n \<le> ss_max_len (bo_strs b)
      else \<not> bo_hdr_extra b \<and> bo_str_len b + n \<le> BTF_MAX_STR_OFFSET)"

text \<open>The largest type or element written at once has 24 bytes.\<close>

definition roomy :: "nat \<Rightarrow> btf_obj \<Rightarrow> bool" where
  "roomy n x \<longleftrightarrow>
     (\<forall>b\<in>set (fst x # snd x). str_room n b) \<and> bo_type_len (fst x) + 24 \<le> unat UINT32_MAX \<and>
     length (bo_type_offs (fst x)) < BTF_MAX_NR_TYPES"

section \<open>Strings\<close>

lemma insert_granted:
  "hashmap_insert hash eq True True m k v HASHMAP_ADD = (err, old, m') \<Longrightarrow> err = 0 \<or> err = - EEXIST"
  by (auto simp: hashmap_insert_def hashmap_grow_def Let_def split: option.splits if_splits)

lemma index_loop_granted:
  "(\<forall>i. granted (env i)) \<Longrightarrow> \<exists>st'. strset_index_loop env st off = Inr st'"
proof (induction env st off rule: strset_index_loop.induct)
  case (1 env st off)
  show ?case
  proof (cases "ss_len st \<le> off")
    case True
    then show ?thesis by (subst strset_index_loop.simps) simp
  next
    case False
    obtain err old hm where ins: "hashmap_insert (strset_hash_fn (ss_data st)) (strset_equal_fn (ss_data st))
        (se_grow (env off)) (se_entry (env off)) (ss_hash st) off off HASHMAP_ADD = (err, old, hm)"
      by (metis prod_cases3)
    have "se_grow (env off)" "se_entry (env off)" using "1.prems" by (auto simp: granted_def)
    then have "err = 0 \<or> err = - EEXIST" using insert_granted [of _ _ "ss_hash st" off off err old hm] ins by (metis (full_types))
    moreover have "(0 :: int) \<noteq> - EEXIST" by simp
    ultimately show ?thesis
      using "1.IH" (1) [OF False ins [symmetric] refl] "1.IH" (2) [OF False ins [symmetric] refl] "1.prems" ins False
      by (subst strset_index_loop.simps) auto
  qed
qed

lemma strset_new_granted:
  "(\<forall>i. granted (env i)) \<Longrightarrow> \<exists>st. strset__new True env mx (Some d) = Inr st"
  using index_loop_granted by (simp add: strset__new_def)

lemma str_mem_granted:
  "granted e \<Longrightarrow> ss_len st + n \<le> ss_max_len st \<Longrightarrow> \<exists>p st'. strset_add_str_mem e st n = Some (p, st')"
  by (auto simp: strset_add_str_mem_def libbpf_add_mem_def granted_def Let_def)

lemma find_str_granted:
  assumes "granted e" "ss_len st + (length s + 1) \<le> ss_max_len st" "strset__find_str e st s = (Inl c, st')"
  shows "c = ENOENT"
proof -
  obtain p st1 where m: "strset_add_str_mem e st (length s + 1) = Some (p, st1)"
    using str_mem_granted [OF assms(1,2)] by blast
  show ?thesis
    using assms(3) unfolding strset__find_str_def m Let_def by (auto split: option.splits)
qed

lemma add_str_granted:
  assumes "granted e" "ss_len st + (length s + 1) \<le> ss_max_len st"
  shows "\<exists>k st'. strset__add_str e st s = (Inr k, st')"
proof -
  obtain p st1 where m: "strset_add_str_mem e st (length s + 1) = Some (p, st1)"
    using str_mem_granted [OF assms] by blast
  define st2 where "st2 = st1\<lparr>ss_data := put_str p s (ss_data st1)\<rparr>"
  obtain err old hm where ins: "hashmap_insert (strset_hash_fn (ss_data st2)) (strset_equal_fn (ss_data st2))
      (se_grow e) (se_entry e) (ss_hash st2) (ss_len st2) (ss_len st2) HASHMAP_ADD = (err, old, hm)"
    by (metis prod_cases3)
  have "se_grow e" "se_entry e" using assms(1) by (auto simp: granted_def)
  then have "err = 0 \<or> err = - EEXIST"
    using insert_granted [of _ _ "ss_hash st2" "ss_len st2" "ss_len st2" err old hm] ins by (metis (full_types))
  then show ?thesis using ins by (auto simp: strset__add_str_def m [simplified] st2_def Let_def)
qed

section \<open>Objects\<close>

lemma ensure_granted:
  assumes g: "generous env" and ok: "own_ok split ts b" and room: "str_room n b"
  obtains b' where "btf_ensure_modifiable env split b = (Inr (), b')"
    "bo_modifiable b'" "ss_len (bo_strs b') + n \<le> ss_max_len (bo_strs b')"
proof (cases "bo_modifiable b")
  case True
  then have "btf_ensure_modifiable env split b = (Inr (), btf_invalidate_raw_data b)"
    by (simp add: btf_ensure_modifiable_def)
  then show ?thesis using that True room by (simp add: str_room_def invalidate_fields)
next
  case False
  let ?d = "take (bo_str_len b) (btf_strs_data b)"
  have d: "strs_end ?d" "length ?d \<le> 2 ^ 31" "length ?d = bo_str_len b"
    using ok by (auto simp: own_ok_def own_strs_ok_def strs_bytes_def)
  obtain st where st: "strset__new True (be_index env) BTF_MAX_STR_OFFSET (Some ?d) = Inr st"
    using strset_new_granted [of "be_index env" BTF_MAX_STR_OFFSET ?d] g unfolding generous_def by blast
  have "ss_len st = bo_str_len b" "ss_max_len st = BTF_MAX_STR_OFFSET"
    using strset_new_good [OF d(1,2) max_off_less, of True "be_index env"] st d(3) by auto
  then show ?thesis
    using that False room g st by (auto simp: str_room_def btf_ensure_modifiable_def generous_def Let_def invalidate_fields)
qed

lemma own_find_granted:
  assumes g: "generous env" and ok: "own_ok split ts b" and room: "str_room (length s + 1) b"
    and r: "own_find_str env split s b = (Inl e, b')"
  shows "e = ENOENT"
proof -
  obtain b1 where b1: "btf_ensure_modifiable env split b = (Inr (), b1)"
      "ss_len (bo_strs b1) + (length s + 1) \<le> ss_max_len (bo_strs b1)"
    using ensure_granted [OF g ok room] by metis
  have "granted (be_str env)" using g by (simp add: generous_def)
  then show ?thesis
    using r b1 find_str_granted [OF _ b1(2)] by (auto simp: own_find_str_def split: prod.splits sum.splits)
qed

lemma find_bases_granted:
  assumes "\<And>i. generous (env i)" "chain_ok bs" "\<forall>b\<in>set bs. str_room (length s + 1) b"
    and "find_str_bases env s bs = (Inl e, bs')"
  shows "e = ENOENT"
  using assms
proof (induction bs arbitrary: env e bs')
  case (Cons b bs)
  obtain r cs where f: "find_str_bases (\<lambda>i. env (Suc i)) s bs = (r, cs)"
    by (cases "find_str_bases (\<lambda>i. env (Suc i)) s bs")
  have o: "own_ok (bs \<noteq> []) (own_types b) b" "chain_ok bs" using Cons.prems(2) by simp_all
  have ih: "c = ENOENT" if "r = Inl c" for c
    using Cons.IH [of "\<lambda>i. env (Suc i)" c cs] Cons.prems(1,3) o(2) f that by simp
  show ?case
  proof (cases "r = Inl ENOENT")
    case False
    then show ?thesis using Cons.prems(4) f ih by auto
  next
    case True
    obtain q b' where w: "own_find_str (env 0) (bs \<noteq> []) s b = (q, b')"
      by (cases "own_find_str (env 0) (bs \<noteq> []) s b")
    have "q = Inl e" using Cons.prems(4) f True w by simp
    then show ?thesis using own_find_granted [OF Cons.prems(1) [of 0] o(1) _ w [unfolded \<open>q = Inl e\<close>]] Cons.prems(3) by simp
  qed
qed simp

lemma add_opt_granted:
  assumes g: "\<And>i. generous (env i)" and ok: "obj_ok (b, bs)" and m: "bo_modifiable b"
      "ss_len (bo_strs b) + (length (name_bytes name) + 1) \<le> ss_max_len (bo_strs b)"
    and room: "\<forall>b\<in>set bs. str_room (length (name_bytes name) + 1) b"
  shows "\<exists>k y. add_opt_str env name (b, bs) = (Inr k, y)"
proof (cases "bstr_empty name")
  case True
  then show ?thesis by (simp add: add_opt_str_def)
next
  case False
  let ?s = "name_bytes name"
  obtain r cs where f: "find_str_bases (\<lambda>i. env (Suc i)) ?s bs = (r, cs)"
    by (cases "find_str_bases (\<lambda>i. env (Suc i)) ?s bs")
  have "chain_ok bs" using ok by (simp add: obj_ok_parts)
  then have e: "c = ENOENT" if "r = Inl c" for c
    using find_bases_granted [OF g _ room, of "\<lambda>i. Suc i"] f that by blast
  have "granted (be_str (env 0))" using g [of 0] by (simp add: generous_def)
  then obtain k st where a: "strset__add_str (be_str (env 0)) (bo_strs b) ?s = (Inr k, st)"
    using add_str_granted [OF _ m(2)] by blast
  have "\<exists>k b'. own_add_str (env 0) (bs \<noteq> []) ?s b = (Inr k, b')"
    using m(1) a by (auto simp: own_add_str_def btf_ensure_modifiable_def invalidate_fields)
  then show ?thesis
    using False f e by (cases r) (auto simp: add_opt_str_def btf__add_str_def on_own_def)
qed

lemma reserve_granted:
  assumes g: "\<And>i. generous (env i)" and ok: "obj_ok (b, bs)" and room: "roomy n (b, bs)" and sz: "sz \<le> 24"
  obtains p b' where "reserve_type env sz (b, bs) = (Inr p, b', bs)" "bo_modifiable b'"
    "ss_len (bo_strs b') + n \<le> ss_max_len (bo_strs b')"
proof -
  have o: "own_ok (bs \<noteq> []) (own_types b) b" using ok by (simp add: obj_ok_parts)
  obtain b1 where b1: "btf_ensure_modifiable (env 0) (bs \<noteq> []) b = (Inr (), b1)"
      "bo_modifiable b1" "ss_len (bo_strs b1) + n \<le> ss_max_len (bo_strs b1)"
    using ensure_granted [OF g o, of n] room by (auto simp: roomy_def)
  have "bo_type_len b1 = bo_type_len b"
    using ensure_modifiable_ok [OF o b1(1)] keeps_type_len [of b b1] by simp
  then have "bo_type_len b1 + sz \<le> unat UINT32_MAX" using room sz by (simp add: roomy_def)
  moreover have "be_types (env 0) k" for k using g [of 0] by (simp add: generous_def)
  ultimately have "\<exists>p b2. btf_add_type_mem (env 0) sz b1 = (Inr p, b2) \<and> bo_modifiable b2 = bo_modifiable b1 \<and>
      bo_strs b2 = bo_strs b1"
    by (cases "bo_type_len b1 + sz \<le> length (bo_types b1)") (simp_all add: btf_add_type_mem_def libbpf_add_mem_def Let_def)
  then obtain p b2 where "btf_add_type_mem (env 0) sz b1 = (Inr p, b2)" "bo_modifiable b2 = bo_modifiable b1"
      "bo_strs b2 = bo_strs b1" by blast
  then show ?thesis using that b1 by (simp add: reserve_type_def on_own_def)
qed

section \<open>Requests\<close>

definition succeeds :: "(int + 'a) \<times> 'b \<Rightarrow> bool" where
  "succeeds p \<longleftrightarrow> (\<exists>k y. p = (Inr k, y))"

lemma succeeds_simps [simp]: "succeeds (Inr k, y)" "\<not> succeeds (Inl e, y)"
  by (simp_all add: succeeds_def)

text \<open>The last step, on an object with the same index.\<close>

definition finishes :: "nat \<Rightarrow> (nat \<Rightarrow> nat \<Rightarrow> btf_obj \<Rightarrow> (int + nat) \<times> btf_obj) \<Rightarrow> bool" where
  "finishes nr fin \<longleftrightarrow> (\<forall>p off y. length (bo_type_offs (fst y)) = nr \<longrightarrow> succeeds (fin p off y))"

lemma steps_succeed:
  assumes g: "\<And>i. generous (env i)" and ok: "obj_ok x" "0 \<notin> set (name_bytes name)"
    and room: "roomy (length (name_bytes name) + 1) x" and sz: "sz \<le> 24"
    and fin: "finishes (length (bo_type_offs (fst x))) fin"
  shows "succeeds (andthen (reserve_type env sz x) (\<lambda>p x. andthen (add_opt_str env name x) (\<lambda>off x. fin p off x)))"
proof -
  obtain b0 bs where x: "x = (b0, bs)" by (cases x)
  obtain p b where b: "reserve_type env sz (b0, bs) = (Inr p, b, bs)" "bo_modifiable b"
      "ss_len (bo_strs b) + (length (name_bytes name) + 1) \<le> ss_max_len (bo_strs b)"
    by (rule reserve_granted [of env, OF g ok(1) [unfolded x] room [unfolded x] sz]) blast
  have r: "obj_ok (b, bs)" "obj_types (b, bs) = obj_types (b0, bs)"
    using reserve_type_ok [OF _ b(1)] ok(1) x by (auto simp: obj_grows_def)
  have rb: "\<forall>b\<in>set bs. str_room (length (name_bytes name) + 1) b" using room x by (simp add: roomy_def)
  obtain k y where a: "add_opt_str env name (b, bs) = (Inr k, y)"
    using add_opt_granted [of env, OF g r(1) b(2,3) rb] by blast
  obtain b' bs' where y: "y = (b', bs')" "obj_ok (b', bs')" "obj_types (b', bs') = obj_types (b, bs)"
    using add_opt_str_ok [OF r(1) ok(2) a] by (auto simp: obj_grows_def)
  have n: "length (bo_type_offs c) = length (obj_types (c, cs))" if "obj_ok (c, cs)" for c cs
    using that by (simp add: obj_ok_parts own_ok_def obj_types_own)
  have "length (bo_type_offs (fst y)) = length (bo_type_offs (fst x))"
    using n [OF y(2)] n [of b0 bs] y(1,3) r(2) ok(1) x by simp
  then show ?thesis using fin b(1) a x by (cases y) (simp add: finishes_def)
qed


text \<open>What a request needs: memory, room, and a name without a NUL.\<close>

definition ready :: "(nat \<Rightarrow> build_env) \<Rightarrow> cname \<Rightarrow> btf_obj \<Rightarrow> bool" where
  "ready env name x \<longleftrightarrow>
     (\<forall>i. generous (env i)) \<and> obj_ok x \<and> 0 \<notin> set (name_bytes name) \<and> roomy (length (name_bytes name) + 1) x"

lemma fill_finishes: "ready env name x \<Longrightarrow> finishes (length (bo_type_offs (fst x))) (\<lambda>p off. fill_type env p (ws off))"
proof -
  assume r: "ready env name x"
  then have "generous (env 0)" "length (bo_type_offs (fst x)) < BTF_MAX_NR_TYPES"
    by (auto simp: ready_def roomy_def)
  then show ?thesis
    by (auto simp: finishes_def fill_type_def on_own_def btf_commit_type_def btf_add_type_idx_def store_words_def
        generous_def Let_def)
qed

lemma elem_finishes: "finishes n (\<lambda>p off. fill_elem p (ws off) upd)"
  by (simp add: finishes_def fill_elem_def Let_def)

lemma new_succeeds:
  "ready env name x \<Longrightarrow> sz \<le> 24 \<Longrightarrow>
   succeeds (andthen (reserve_type env sz x) (\<lambda>p x. andthen (add_opt_str env name x) (\<lambda>off x. fill_type env p (ws off) x)))"
  by (rule steps_succeed [OF _ _ _ _ _ fill_finishes]) (auto simp: ready_def)

lemma elem_succeeds:
  "ready env name x \<Longrightarrow> sz \<le> 24 \<Longrightarrow>
   succeeds (andthen (reserve_type env sz x) (\<lambda>p x. andthen (add_opt_str env name x) (\<lambda>off x. fill_elem p (ws off) upd x)))"
  by (rule steps_succeed [OF _ _ _ _ _ elem_finishes]) (auto simp: ready_def)

lemma then_succeeds: "succeeds p \<Longrightarrow> succeeds (andthen p (\<lambda>k x. (Inr k, f k x)))"
  by (auto simp: succeeds_def)

lemma ref_kind_succeeds:
  "ready env name x \<Longrightarrow> 0 \<le> sint ti \<Longrightarrow> succeeds (btf_add_ref_kind env kind name ti kflag x)"
  using new_succeeds [of env name x 12 "\<lambda>off. [of_nat off, btf_type_info kind 0 kflag, ti]"]
  by (simp add: btf_add_ref_kind_def validate_type_id_def)

lemma composite_succeeds: "ready env name x \<Longrightarrow> succeeds (btf_add_composite env kind name sz x)"
  using new_succeeds [of env name x 12 "\<lambda>off. [of_nat off, btf_type_info kind 0 False, sz]"]
  by (simp add: btf_add_composite_def)

lemma enum_succeeds:
  "ready env name x \<Longrightarrow> sz \<in> {1, 2, 4, 8} \<Longrightarrow> succeeds (btf_add_enum_common env name sz sg kind x)"
  using new_succeeds [of env name x 12 "\<lambda>off. [of_nat off, btf_type_info kind 0 sg, sz]"] enum_size_ok [of sz]
  by (auto simp: btf_add_enum_common_def)

lemma decl_tag_succeeds:
  "ready env name x \<Longrightarrow> \<not> bstr_empty name \<Longrightarrow> - 1 \<le> sint ix \<Longrightarrow> 0 \<le> sint ti \<Longrightarrow>
   succeeds (btf_add_decl_tag env name ti ix flag x)"
  using new_succeeds [of env name x 16 "\<lambda>off. [of_nat off, btf_type_info BTF_KIND_DECL_TAG 0 flag, ti, ix]"]
  by (simp add: btf_add_decl_tag_def validate_type_id_def add_opt_nonempty not_less)

lemma new_request_succeeds:
  assumes r: "ready env (request_name rq) x" and a: "args_ok rq" and n: "new_shape rq \<noteq> None"
  shows "succeeds (run_request env rq x)"
proof -
  note new = new_succeeds [OF r]
  show ?thesis
  proof (cases rq)
    case (Add_int nm sz enc)
    show ?thesis
      using new [of 16 "\<lambda>off. [of_nat off, btf_type_info BTF_KIND_INT 0 False, ucast sz,
          push_bit 24 enc OR ucast (sz * 8)]"] a int_size_ok [of sz] encoding_ok [of enc]
      by (auto simp: Add_int btf__add_int_def add_opt_nonempty)
  next
    case (Add_float nm sz)
    show ?thesis
      using new [of 12 "\<lambda>off. [of_nat off, btf_type_info BTF_KIND_FLOAT 0 False, ucast sz]"] a
      by (simp add: Add_float btf__add_float_def add_opt_nonempty)
  next
    case (Add_array ix el n)
    show ?thesis
      using new [of 24 "\<lambda>off. [0, btf_type_info BTF_KIND_ARRAY 0 False, 0, el, ix, n]"] a
      by (simp add: Add_array btf__add_array_def add_opt_none validate_type_id_def)
  next
    case (Add_func_proto ti)
    show ?thesis
      using new [of 12 "\<lambda>off. [0, btf_type_info BTF_KIND_FUNC_PROTO 0 False, ti]"] a
      by (simp add: Add_func_proto btf__add_func_proto_def add_opt_none validate_type_id_def)
  next
    case (Add_var nm l ti)
    show ?thesis
      using new [of 16 "\<lambda>off. [of_nat off, btf_type_info BTF_KIND_VAR 0 False, ti, l]"] a
      by (simp add: Add_var btf__add_var_def add_opt_nonempty validate_type_id_def)
  next
    case (Add_datasec nm sz)
    show ?thesis
      using new [of 12 "\<lambda>off. [of_nat off, btf_type_info BTF_KIND_DATASEC 0 False, sz]"] a
      by (simp add: Add_datasec btf__add_datasec_def add_opt_nonempty)
  next
    case (Add_fwd nm k)
    have "ready env nm x" using r Add_fwd by simp
    then have ref: "succeeds (btf_add_ref_kind env BTF_KIND_FWD nm 0 False x)" "succeeds (btf__add_enum env nm 4 x)"
      using enum_succeeds [of env nm x 4] by (simp_all add: ref_kind_succeeds btf__add_enum_def)
    show ?thesis
      using a ref(2) then_succeeds [OF ref(1)] unfolding Add_fwd run_request.simps btf__add_fwd_def
      by (auto split: if_splits)
  next
    case (Add_func nm l ti)
    have "ready env nm x" using r Add_func by simp
    then have ref: "succeeds (btf_add_ref_kind env BTF_KIND_FUNC nm ti False x)"
      using a Add_func by (simp add: ref_kind_succeeds)
    show ?thesis
      using a then_succeeds [OF ref] unfolding Add_func run_request.simps btf__add_func_def by simp
  qed (use r a n in \<open>simp_all add: ref_kind_succeeds composite_succeeds enum_succeeds decl_tag_succeeds btf__add_ptr_def
      btf__add_struct_def btf__add_union_def btf__add_enum_def btf__add_enum64_def btf__add_typedef_def
      btf__add_volatile_def btf__add_const_def btf__add_restrict_def btf__add_type_tag_def btf__add_type_attr_def
      btf__add_decl_tag_def btf__add_decl_attr_def\<close>)
qed

lemma elem_request_succeeds:
  assumes r: "ready env (request_name rq) x" and a: "accepted rq (obj_types x)" and n: "new_shape rq = None"
  shows "succeeds (run_request env rq x)"
proof -
  obtain us t where ty: "obj_types x = us @ [t]" and k: "btf_kind t \<in> set (elem_kinds rq)" "args_ok rq"
    using a n by (cases "obj_types x" rule: rev_cases) (auto simp: accepted_def)
  have ok: "obj_ok x" using r by (simp add: ready_def)
  note l = last_type_ok [OF ok ty]
  have su: "BTF_KIND_STRUCT \<noteq> BTF_KIND_UNION" by (simp add: btf_kinds)
  note el = elem_succeeds [OF r]
  show ?thesis
  proof (cases rq)
    case (Add_field nm ti bo bs)
    have "succeeds (btf__add_field env nm ti bo bs x)"
      using el [of 12 "\<lambda>off. [of_nat off, ti, bo OR push_bit 24 bs]" "field_info (bitfield_args bo bs)"] k l su
      unfolding btf__add_field_def Let_def bitfield_args_def [symmetric]
      by (auto simp: Add_field btf_is_composite_def info_of_words validate_type_id_def not_less split: if_splits)
    then show ?thesis by (simp add: Add_field)
  next
    case (Add_enum_value nm v)
    show ?thesis
      using el [of 8 "\<lambda>off. [of_nat off, ucast v]" "enum_info (sint v < 0)"] k l
      by (auto simp: Add_enum_value btf__add_enum_value_def btf_is_enum_def info_of_words add_opt_nonempty not_less)
  next
    case (Add_enum64_value nm v)
    show ?thesis
      using el [of 12 "\<lambda>off. [of_nat off, ucast v, ucast (drop_bit 32 v)]" btf_type_inc_vlen] k l
      by (auto simp: Add_enum64_value btf__add_enum64_value_def btf_is_enum64_def info_of_words add_opt_nonempty)
  next
    case (Add_func_param nm ti)
    show ?thesis
      using el [of 8 "\<lambda>off. [of_nat off, ti]" btf_type_inc_vlen] k l
      by (auto simp: Add_func_param btf__add_func_param_def info_of_words validate_type_id_def)
  next
    case (Add_datasec_var_info ti off sz)
    show ?thesis
      using el [of 12 "\<lambda>_. [ti, off, sz]" btf_type_inc_vlen] k l
      by (auto simp: Add_datasec_var_info btf__add_datasec_var_info_def info_of_words validate_type_id_def add_opt_none)
  qed (use n in simp_all)
qed

section \<open>The property\<close>


lemma plenty_generous: "generous plenty"
  by (simp add: generous_def plenty_def granted_def)

lemma new_empty_roomy:
  assumes "btf__new_empty True True = Inr x" "n + 1 \<le> BTF_MAX_STR_OFFSET"
  shows "roomy n x"
proof -
  obtain b where x: "x = (b, [])" and b: "b = fst x"
    using assms(1) by (auto simp: btf__new_empty_def btf_new_empty_def Let_def)
  have "bo_modifiable b = False" "bo_hdr_extra b = False" "bo_str_len b = 1" "bo_type_len b = 0" "bo_type_offs b = []"
    using assms(1) unfolding b by (auto simp: btf__new_empty_def btf_new_empty_def empty_header_def Let_def)
  then show ?thesis
    using assms(2) by (simp add: x roomy_def str_room_def BTF_MAX_NR_TYPES_def UINT32_MAX_def)
qed


end
