(* ===== verification/Spec2Isabelle.thy ===== *)
theory Spec2Isabelle
  imports Probe_Props Report_Props Ring_Image Main_Live Hashmap_Props Strset Nlattr Prog_Linfo Zip
    Json_Writer Utils Cfg_Props Match_Props Btf_Load_Props Btf_Find Btf_Progress Btf_Roundtrip Btf_Copies
    Btf_Succeeds
begin

text \<open>
  Verification library for the eBPF SOME/IP collector.

  The program. A BPF object attaches uprobes to a vsomeip daemon (\<open>src/bpf\<close>); each probe fills an
  event structure (\<open>src/common\<close>) and submits it to one of three ring buffers (routing, app, sd).
  The user process (\<open>src/user\<close>) loads and attaches the object, polls the rings with epoll, decodes
  every record, counts it, matches requests with responses and writes log lines. Which functions
  are probed comes from \<open>config/hooks.json\<close> through \<open>scripts/gen_hook_config.sh\<close>. The rings, the
  relocation of the BPF programs against the running kernel and several containers are libbpf's
  (\<open>lib/libbpf/src\<close>); bpftool (\<open>lib/bpftool/src\<close>) is used to build and to inspect.

  The theories, in the order data flows:
  \<^item> \<open>Prelude\<close>: integer types, bytes, printf text, shared lemmas.
  \<^item> \<open>Hook_Config\<close> (hooks.json and the generator script), \<open>Events\<close> (the structures and their byte
    layout), \<open>Bpf_Probes\<close> (the twelve probe programs and their helpers); \<open>Probe_Props\<close>: headers are
    parsed in network order, hooks label themselves, layouts round trip, and unread headers are stale.
  \<^item> \<open>Output\<close> and \<open>Float_Text\<close> (log writers, \<open>%.1f\<close>), \<open>Stats\<close> (\<open>stats_collector.cpp\<close>), \<open>Handlers\<close> (the
    three handlers). \<open>Stats_Props\<close>, \<open>Latency_Props\<close> and \<open>Report_Props\<close>: the pending table and samples
    refine an abstract request/response machine, eviction is exact, counters are conserved, percentile
    indices and line lengths are bounded. Locale \<open>log_sink\<close> is what the statistics need of a writer.
  \<^item> \<open>Ringbuf\<close> and \<open>User_Ringbuf\<close> (\<open>ringbuf.c\<close>, both directions), \<open>Ringbuf_Props\<close>, \<open>User_Ringbuf_Props\<close>,
    \<open>Ring_Image\<close>: the consumer delivers exactly the committed records, under any interleaving with
    the producer it returns what it delivered and stays aligned, reserve and submit round trip,
    creation and release balance. Locale \<open>sample_consumer\<close> is what the loop needs of a callback.
  \<^item> \<open>Collector\<close>, \<open>Manager\<close>, \<open>Main_Program\<close> (\<open>collector.cpp\<close>, \<open>collector_manager.cpp\<close>, \<open>main.cpp\<close>) and
    \<open>Collector_Props\<close>, \<open>Main_Props\<close>, \<open>Attach_Props\<close>: every resource taken is accounted for through
    loading, attaching, the event loop and shutdown. \<open>Main_Live\<close>: every run ends.
  \<^item> libbpf containers and parsers: \<open>Hashmap\<close>, \<open>Hashmap_Props\<close> (\<open>hashmap.c\<close>, against the locale
    \<open>hash_laws\<close>), \<open>Strset\<close> (\<open>strset.c\<close>, a table of strings whatever the allocator answers), \<open>Nlattr\<close> (\<open>nlattr.c\<close>), \<open>Prog_Linfo\<close> (\<open>bpf_prog_linfo.c\<close>), \<open>Zip\<close>
    (\<open>zip.c\<close>), \<open>Utils\<close> (\<open>libbpf_utils.c\<close>; its SHA-256 is the
    standard's).
  \<^item> BTF: \<open>Btf_Load\<close> (\<open>btf_new\<close> in \<open>btf.c\<close>: header, sections, byte order, validation, sorting),
    \<open>Btf_Wf\<close> (what validation guarantees), \<open>Btf_Demo\<close> (a file of 45 bytes), \<open>Btf_Load_Props\<close>: any
    bytes are read inside the data and give an error or a well-formed object; \<open>Btf_Find\<close>: lookup by
    name and kind is one scan in id order; \<open>Btf_Progress\<close>: which readers are then defined.
  \<^item> Building and writing BTF: \<open>Btf_Build\<close> (the object with its bases, \<open>btf_ensure_modifiable\<close>, the
    strings and every \<open>btf__add_*\<close> of \<open>btf.c\<close>), \<open>Btf_Write\<close> (\<open>btf_get_raw_data\<close>), \<open>Strset_Index\<close> and
    \<open>Btf_Image\<close> (string sets from given data, types as bytes), \<open>Btf_Build_Ok\<close>, \<open>Btf_Build_Steps\<close>,
    \<open>Btf_Build_Chain\<close>, \<open>Btf_Build_Props\<close> (the invariant of an object and of its chain of bases, and
    each step), \<open>Btf_Builder\<close>: the calls as requests and what each promises; \<open>Btf_Succeeds\<close>:
    with memory and room an accepted call succeeds; \<open>Btf_Encode\<close>, \<open>Btf_Roundtrip\<close>: what is written in
    either byte order is read back as the same object.
  \<^item> Copying BTF: \<open>Btf_Iter\<close> (\<open>btf_iter.c\<close>), \<open>Btf_Copy\<close> (\<open>btf__add_type\<close> and \<open>btf__add_btf\<close>),
    \<open>Btf_Copy_Steps\<close>, \<open>Btf_Copy_Props\<close>, \<open>Btf_Copies\<close>: the iterator visits exactly the fields of a kind,
    and copies keep their names and refer to copies.
  \<^item> CO-RE relocation: \<open>Btf\<close> (types, names and sizes of \<open>btf.h\<close>, \<open>btf.c\<close>, \<open>libbpf.c\<close>), \<open>Relo_Core\<close>,
    \<open>Relo_Calc\<close>, \<open>Relo_Patch\<close> (all of \<open>relo_core.c\<close>); \<open>Btf_Props\<close>: exact sizes and candidates;
    \<open>Relo_Props\<close>: bitfield reads; \<open>Patch_Props\<close>: what is patched; \<open>Match_Props\<close>: a match is the parse of
    its own path, within the arrays and the fuel, and ambiguous relocations never succeed.
  \<^item> bpftool: \<open>Json_Writer\<close> (\<open>json_writer.c\<close>), \<open>Cfg\<close> and \<open>Cfg_Props\<close> (\<open>cfg.c\<close>: blocks partition the
    program, drawing is defined, memory is accounted for).

  This theory states the properties that span components.

  State and errors. A C or C++ object is a record, its operations functions from the record to the
  record; error codes are negative integers or the left of a sum; \<open>None\<close> is undefined behaviour (a
  read out of bounds, a null pointer, a division by zero) or fuel that ran out. System calls and
  the BPF runtime are parameters: \<open>bpf_env\<close> for the helpers, \<open>kernel_env\<close> and \<open>ring_new_env\<close> for libbpf's
  loading and the kernel, a function from time to ring contents for the producer.

  Bounds and fuel. \<open>process_loop\<close> takes fuel because a producer may add records for ever; the
  properties give the number of records, or hold for every run that returns, and \<open>run_ends\<close> shows
  that \<open>P/4 + 4\<close> rounds are enough for a producer that stops after \<open>P\<close> bytes.
  \<open>me_fuel\<close> and the list of ticks bound a run of the event loop. \<open>match_member\<close> takes 65 levels, which
  \<open>match_member_terminates\<close> shows to be enough. \<open>skip_mods_and_typedefs\<close> and
  \<open>bpf_core_fields_are_compat\<close> are partial functions, as a cycle of types makes the code loop.

  Not modelled: terminal messages and logging of libbpf, getopt itself, ELF loading, the system
  calls, libbpf's linker, USDT, loader generator, BTF deduplication, splitting and dumping, netlink
  sockets, bpftool's commands, and the generated vmlinux headers.
\<close>

section \<open>Concrete inputs\<close>

definition demo_offsets :: "string \<Rightarrow> string \<Rightarrow> nat option" where
  "demo_offsets lib nm = Some 4096"

definition sd_group :: file_group where
  "sd_group = gen_file_group demo_offsets (hooks_json ! 2)"

definition demo_kernel :: kernel_env where
  "demo_kernel = \<lparr>be_open = (\<lambda>_. Some 1), be_load = (\<lambda>_. 0), be_find_program = (\<lambda>_ _. Some 2),
     be_attach = (\<lambda>_ _ cfg. Some (length (hc_name cfg))), be_find_map = (\<lambda>_ _. Some 5),
     be_ring = (\<lambda>_. demo_new_env), be_consumer_pos = (\<lambda>_. 0)\<rparr>"

definition demo_main_env :: main_env where
  "demo_main_env = \<lparr>me_bpf = demo_kernel, me_utc_offset = 0, me_can_open = True,
     me_epoll = Some 20, me_epoll_ctl = (\<lambda>_. True), me_fuel = 100, me_ticks = [Tick_signal],
     me_report_clock = 10, me_evict_clock = 10, me_evict_order = []\<rparr>"

definition empty_world :: world where
  "empty_world = \<lparr>w_objs = [], w_links = [], w_sys = \<lparr>sys_maps = [], sys_fds = [3]\<rparr>\<rparr>"

definition sd_record :: sd_event where
  "sd_record = \<lparr>se_hdr = \<lparr>timestamp_ns = 5, pid = 1, tid = 1, comm = replicate 16 0, module_id = 3,
     hook_id = 1, direction = DIR_RECV, is_retprobe = False\<rparr>, se_service_id = 0x1111,
     se_instance_id = 1, se_eventgroup_id = 0, se_ttl = 0\<rparr>"

lemma sd_group_ok: "group_ok sd_group"
  unfolding sd_group_def gen_file_group_ok_iff by (simp add: demo_offsets_def)

lemma demo_env_sel:
  "me_bpf demo_main_env = demo_kernel" "me_epoll demo_main_env = Some 20"
  "me_epoll_ctl demo_main_env = (\<lambda>_. True)" "me_fuel demo_main_env = 100"
  "me_ticks demo_main_env = [Tick_signal]" "o_target_pid default_options = - 1"
  by (simp_all add: demo_main_env_def default_options_def)

section \<open>Records and handlers\<close>

lemma generated_group_names:
  "fg_hook_count (gen_file_group offs fg) = length (hf_hooks fg)"
  "fg_hook_names (gen_file_group offs fg) = map hk_name (hf_hooks fg)"
  by (simp_all add: gen_file_group_def)

lemma linked_handlers:
  "linked_handler (fg_handler (gen_file_group offs (hooks_json ! 0))) = Some routing_event_handler"
  "linked_handler (fg_handler (gen_file_group offs (hooks_json ! 1))) = Some app_event_handler"
  "linked_handler (fg_handler (gen_file_group offs (hooks_json ! 2))) = Some sd_event_handler"
  by (simp_all add: gen_file_group_def hooks_json_def linked_handler_def)

lemma hooks_in_group:
  "length (hf_hooks (hooks_json ! 0)) = 5" "length (hf_hooks (hooks_json ! 1)) = 3"
  "length (hf_hooks (hooks_json ! 2)) = 4"
  by (simp_all add: hooks_json_def)

lemmas group_simps = generated_group_names linked_handlers hooks_in_group

lemma hook_name_generated:
  "unat i < length (hf_hooks fg) \<Longrightarrow>
     hook_name_of (gen_file_group offs fg) i = hk_name (hf_hooks fg ! unat i)"
  by (simp add: hook_name_of_def generated_group_names)

lemma callback_routing:
  assumes "header_wf (re_hdr e)" "length pad = 4" "unat (hook_id (re_hdr e)) < 5"
  shows "ringbuf_callback (gen_file_group offs (hooks_json ! 0)) True (enc_routing_event pad e) (Some c) =
    (0, handle_with (re_hdr e) (hk_name (hf_hooks (hooks_json ! 0) ! unat (hook_id (re_hdr e))))
          (re_retval e) (Some (on_latency e)) (routing_payload e) c)"
proof -
  have "dec_event_header (enc_routing_event pad e) = Some (re_hdr e)"
    by (rule header_of_any_event(1) [OF dec_enc_routing_event [OF assms(1,2)]])
  with assms show ?thesis
    by (simp add: ringbuf_callback_def linked_handlers hook_name_generated hooks_in_group
        routing_event_handler_def dec_enc_routing_event layout_simps)
qed

lemma callback_app:
  assumes "header_wf (ae_hdr e)" "length pad = 4" "unat (hook_id (ae_hdr e)) < 3"
  shows "ringbuf_callback (gen_file_group offs (hooks_json ! 1)) True (enc_app_event pad e) (Some c) =
    (0, handle_with (ae_hdr e) (hk_name (hf_hooks (hooks_json ! 1) ! unat (hook_id (ae_hdr e))))
          (ae_retval e) None (app_payload e) c)"
proof -
  have "dec_event_header (enc_app_event pad e) = Some (ae_hdr e)"
    by (rule header_of_any_event(2) [OF dec_enc_app_event [OF assms(1,2)]])
  with assms show ?thesis
    by (simp add: ringbuf_callback_def linked_handlers hook_name_generated hooks_in_group
        app_event_handler_def dec_enc_app_event layout_simps del: One_nat_def)
qed

lemma callback_sd:
  assumes "header_wf (se_hdr e)" "length pad = 4" "length pad2 = 2" "length pad3 = 4"
    "unat (hook_id (se_hdr e)) < 4"
  shows "ringbuf_callback (gen_file_group offs (hooks_json ! 2)) True (enc_sd_event pad pad2 pad3 e) (Some c) =
    (0, handle_with (se_hdr e) (hk_name (hf_hooks (hooks_json ! 2) ! unat (hook_id (se_hdr e))))
          0 None (sd_payload e) c)"
proof -
  have "dec_event_header (enc_sd_event pad pad2 pad3 e) = Some (se_hdr e)"
    by (rule header_of_any_event(3) [OF dec_enc_sd_event [OF assms(1-4)]])
  with assms show ?thesis
    by (simp add: ringbuf_callback_def linked_handlers hook_name_generated hooks_in_group
        sd_event_handler_def dec_enc_sd_event layout_simps)
qed

section \<open>Module lists\<close>

definition module_names :: "string list" where
  "module_names = [''routing'', ''app'', ''sd'']"

fun comma_list :: "string list \<Rightarrow> string" where
  "comma_list [] = []"
| "comma_list [nm] = nm"
| "comma_list (nm # nms) = nm @ '','' @ comma_list nms"

lemma generated_names: "map fg_name (gen_file_groups offs hooks_json) = module_names"
  by (simp add: gen_file_groups_def gen_file_group_def hooks_json_def module_names_def)

lemma map_filter_name: "map fg_name (filter (\<lambda>g. P (fg_name g)) gs) = filter P (map fg_name gs)"
  by (simp add: filter_map comp_def)

lemma select_enabled:
  "map fg_name (select_groups (default_options\<lparr>o_enable := l\<rparr>) (gen_file_groups offs hooks_json)) =
     filter (\<lambda>nm. l = [] \<or> sublist nm l) module_names"
  unfolding select_groups_def map_filter_name generated_names
  by (rule filter_cong) (simp_all add: module_enabled_def default_options_def)

lemma select_disabled:
  "map fg_name (select_groups (default_options\<lparr>o_disable := l\<rparr>) (gen_file_groups offs hooks_json)) =
     filter (\<lambda>nm. \<not> (l \<noteq> [] \<and> sublist nm l)) module_names"
  unfolding select_groups_def map_filter_name generated_names
  by (rule filter_cong) (simp_all add: module_enabled_def default_options_def)

lemma enable_cases:
  "filter (\<lambda>nm. comma_list ns = [] \<or> sublist nm (comma_list ns)) module_names = ns"
  if "ns \<in> {[''routing'', ''app'', ''sd''], [''routing'', ''app''], [''routing'', ''sd''],
      [''routing''], [''app'', ''sd''], [''app''], [''sd'']}"
  using that by (elim insertE emptyE) (simp_all add: module_names_def sublist_code)

lemma disable_cases:
  "filter (\<lambda>nm. \<not> (comma_list ns \<noteq> [] \<and> sublist nm (comma_list ns))) module_names =
     filter (\<lambda>nm. nm \<notin> set ns) module_names"
  if "ns \<in> {[''routing'', ''app'', ''sd''], [''routing'', ''app''], [''routing'', ''sd''],
      [''routing''], [''app'', ''sd''], [''app''], [''sd'']}"
  using that by (elim insertE emptyE) (simp_all add: module_names_def sublist_code)

section \<open>The collector program\<close>




text \<open>A wait interrupted by a signal, then a ring whose contents and positions are arbitrary.\<close>

definition noisy_env :: main_env where
  "noisy_env = demo_main_env\<lparr>me_fuel := 2000, me_ticks :=
     [Tick_error EINTR,
      Tick_ready [(0, \<lambda>i t. \<lparr>rm_producer = of_nat (min (t * 1000) 4096), rm_data = (\<lambda>k. of_nat (k * t))\<rparr>)],
      Tick_signal]\<rparr>"

lemma demo_attached:
  assumes "collector_attach demo_kernel tp c w = Some (n, c', w')" "c_obj c = Some obj"
  shows "c_attached c' \<and> c_ringbuf_fd c' = 9"
proof -
  obtain st where "attach_ring demo_kernel obj st = (n, c', w')"
    using assms by (auto simp: collector_attach_def split: prod.splits)
  then show ?thesis
    by (cases st) (auto simp: attach_ring_def demo_kernel_def demo_new_env_def ring_buffer__new_def
        ring_buffer__add_def Let_def)
qed

lemma noisy_ticks: "ticks_ok 4096 [] noisy_env [sd_group] empty_world"
proof -
  have fp: "finite_producer 4096 (\<lambda>i t. \<lparr>rm_producer = of_nat (min (t * 1000) 4096), rm_data = f i t\<rparr>)" for f
    by (simp add: finite_producer_def unat_of_nat min_def)
  have "0 \<in> set (register_collectors (\<lambda>_. True) (mg_collectors m2))"
    if i: "init_all demo_kernel (wire default_options noisy_env [sd_group] empty_world) = (n, m1)"
      and a: "attach_all demo_kernel (- 1) m1 = Some m2" for n m1 m2
  proof -
    have "mg_collectors m1 = [collector_new sd_group\<lparr>c_obj := Some 1\<rparr>]"
      using i by (auto simp: init_all_def wire_parts select_groups_default default_options_def
          collector_init_def demo_kernel_def)
    then obtain c n' w' where "collector_attach demo_kernel (- 1)
        (set_collector_ctx (collector_new sd_group\<lparr>c_obj := Some 1\<rparr>)) (mg_world m1) = Some (n', c, w')"
      "mg_collectors m2 = [c]"
      using a by (auto simp: attach_all_def split: option.splits)
    then show ?thesis
      using demo_attached [of "- 1" "set_collector_ctx (collector_new sd_group\<lparr>c_obj := Some 1\<rparr>)" "mg_world m1" n' c w']
      by (simp add: register_collectors_def set_collector_ctx_def)
  qed
  then show ?thesis
    by (auto simp: ticks_ok_def noisy_env_def demo_env_sel tick_ok_def fp simp del: of_nat_min)
qed


text \<open>C2. Polling an attached collector on a ring that stands still hands exactly the committed
  records, in order, to the group's handler (those too short for a header are skipped), moves
  the consumer past them, and changes nothing else of the collector.\<close>

theorem poll_delivers_records:
  assumes "c_ringbuf c = Some rh" "rh_pages rh = [pg]"
    and "recs_from m (rp_mask pg) (unat (rh_consumer rh)) rs q" "q \<le> unat (rm_producer m)"
    and "unat (rm_producer m) = q \<or> busy_at m (rp_mask pg) q"
    and "length (samples rs) < 2 ^ 31 - 1" "length rs + 2 < fuel"
    and "linked_handler (fg_handler (c_group c)) = Some f" "c_has_ctx c" "counters_ok (fst s)"
  shows "collector_poll fuel (\<lambda>_ _. m) c (Some s) =
    Some (int (length (samples rs)), c\<lparr>c_ringbuf := Some (rh\<lparr>rh_consumer := of_nat q\<rparr>)\<rparr>,
          handle_records (c_group c) f (samples rs) s)"
  by (rule poll_drains [OF assms])

definition demo_handle :: ring_handle where
  "demo_handle = \<lparr>rh_page_size = 4096, rh_epoll_fd = 9,
     rh_pages = [\<lparr>rp_consumer = Some 0x7000, rp_producer = Some 0x9000, rp_mask = mask 12\<rparr>],
     rh_map_fd = 5, rh_consumer = 0\<rparr>"

definition demo_collector :: collector where
  "demo_collector = \<lparr>c_group = sd_group, c_has_ctx = True, c_obj = Some 1,
     c_ringbuf = Some demo_handle, c_ringbuf_fd = 9, c_attached = True, c_links = [7]\<rparr>"

definition sd_bytes :: "byte list" where
  "sd_bytes = enc_sd_event [0, 0, 0, 0] [0, 0] [0, 0, 0, 0] sd_record"

definition demo_ctx :: ectx where
  "demo_ctx = (stats_new, Stdout_writer \<lparr>so_json = True, so_utc_offset = 0, so_text = []\<rparr>)"

theorem poll_delivers_records_witness:
  "collector_poll 10 (\<lambda>_ _. image_mem (ring_image [Ring_rec True [1, 2], Ring_rec False sd_bytes]))
     demo_collector (Some demo_ctx) =
   Some (1, demo_collector\<lparr>c_ringbuf := Some (demo_handle\<lparr>rh_consumer := 80\<rparr>)\<rparr>,
         sd_event_handler sd_bytes ''sd_process_offer'' demo_ctx)"
proof -
  let ?rs = "[Ring_rec True [1, 2], Ring_rec False sd_bytes]"
  have wf: "header_wf (se_hdr sd_record)" by (simp add: sd_record_def header_wf_def)
  have len: "length sd_bytes = 56" using wf by (simp add: sd_bytes_def sizeof_sd_event_def)
  have span: "length (ring_image ?rs) = 80" by (simp add: rec_span_def len)
  have recs: "recs_from (image_mem (ring_image ?rs)) (mask 12) 0 ?rs 80"
    using recs_from_image [of 12 "[]" ?rs "[]"] span by (simp add: len)
  have prod: "unat (rm_producer (image_mem (ring_image ?rs))) = 80"
    using span by (simp add: image_mem_def del: ring_image_simps)
  have hdr: "dec_event_header sd_bytes = Some (se_hdr sd_record)"
    by (simp add: sd_bytes_def enc_sd_event_def dec_enc_event_header wf)
  have name: "record_name sd_group sd_bytes = ''sd_process_offer''"
    by (simp add: record_name_def hdr, simp add: sd_record_def sd_group_def hook_name_of_def
        gen_file_group_def hooks_json_def)
  have linked: "linked_handler (fg_handler sd_group) = Some sd_event_handler"
    by (simp add: linked_handler_def sd_group_def gen_file_group_def hooks_json_def)
  have ok: "counters_ok (fst demo_ctx)" by (simp add: demo_ctx_def counters_ok_new)
  have "samples ?rs = [sd_bytes]" by (simp add: samples_def)
  then show ?thesis
    using poll_delivers_records [of demo_collector demo_handle _ "image_mem (ring_image ?rs)" ?rs 80 10
        sd_event_handler demo_ctx] recs prod linked ok
    by (cases "sd_event_handler sd_bytes ''sd_process_offer'' demo_ctx")
       (simp_all add: demo_collector_def demo_handle_def handle_records_def name len
        sizeof_event_header_def del: ring_image_simps recs_from.simps)
qed

text \<open>C15. Attaching never reads outside the generated hook table exactly when every hook of the
  module has an offset in the symbol tables; one missing symbol makes \<open>Collector::attach\<close> read
  past the end of the array.\<close>

theorem attach_reads_in_bounds:
  "collector_attach env tp (c\<lparr>c_group := gen_file_group offs fg, c_obj := Some obj\<rparr>) w \<noteq> None \<longleftrightarrow>
     list_all (\<lambda>h. offs (hf_lib fg) (hk_demangled h) \<noteq> None) (hf_hooks fg)"
proof -
  have "length (fg_hooks (gen_file_group offs fg)) \<le> fg_hook_count (gen_file_group offs fg)"
    by (simp add: gen_file_group_def gen_hook_cfgs_def List.map_filter_def)
  then have "group_ok (gen_file_group offs fg) \<longleftrightarrow>
      \<not> length (fg_hooks (gen_file_group offs fg)) < fg_hook_count (gen_file_group offs fg)"
    by (auto simp: group_ok_def)
  then show ?thesis
    using gen_file_group_ok_iff [of offs fg]
    by (simp add: collector_attach_undefined list_all_iff)
qed

text \<open>C3. From probe to handler: a record that a BPF program submits, copied through the ring
  byte for byte, is decoded by the handler of the module that submitted it and counted and
  logged under the name that \<open>hooks.json\<close> gives the program's hook.\<close>

theorem probe_record_reaches_handler:
  assumes "length (be_comm env) = 16" "length pad = 4" "length pad2 = 2" "length pad3 = 4"
    and "unat i < 5" "snd (submit_routing env (Some e0) i d r p l v) = Some e"
    and "unat j < 3" "snd (submit_app env (Some a0) j d r p q v) = Some a"
    and "unat k < 4" "snd (submit_sd env (Some s0) k d x y z) = Some s"
  shows "ringbuf_callback (gen_file_group offs (hooks_json ! 0)) True (enc_routing_event pad e) (Some c) =
      (0, handle_with (re_hdr e) (hk_name (hf_hooks (hooks_json ! 0) ! unat i)) v
            (Some (on_latency e)) (routing_payload e) c) \<and>
    ringbuf_callback (gen_file_group offs (hooks_json ! 1)) True (enc_app_event pad a) (Some c) =
      (0, handle_with (ae_hdr a) (hk_name (hf_hooks (hooks_json ! 1) ! unat j)) v
            None (app_payload a) c) \<and>
    ringbuf_callback (gen_file_group offs (hooks_json ! 2)) True (enc_sd_event pad pad2 pad3 s) (Some c) =
      (0, handle_with (se_hdr s) (hk_name (hf_hooks (hooks_json ! 2) ! unat k)) 0
            None (sd_payload s) c)"
proof -
  have h: "re_hdr e = fill_header env MODULE_ROUTING i d r (re_hdr e0)" "re_retval e = v"
    using assms(6) submit_routing_header [OF assms(6)] by (auto simp: submit_routing_def Let_def)
  have a: "ae_hdr a = fill_header env MODULE_APP j d r (ae_hdr a0)" "ae_retval a = v"
    using assms(8) by (auto simp: submit_app_def)
  have s: "se_hdr s = fill_header env MODULE_SD k d False (se_hdr s0)"
    using assms(10) by (auto simp: submit_sd_def)
  show ?thesis
    using assms(1-5,7,9) callback_routing [of e pad offs c] callback_app [of a pad offs c]
      callback_sd [of s pad pad2 pad3 offs c]
    by (simp add: h a s fill_header_wf del: One_nat_def)
qed

theorem probe_record_reaches_handler_witness:
  "ringbuf_callback (gen_file_group demo_offsets (hooks_json ! 2)) True
     (enc_sd_event [1, 2, 3, 4] [5, 6] [7, 8, 9, 10]
       (the (snd (submit_sd demo_env (Some sd_record) HOOK_SD_SEND DIR_SEND 17 18 19))))
     (Some demo_ctx) =
   (0, handle_with (fill_header demo_env MODULE_SD HOOK_SD_SEND DIR_SEND False (se_hdr sd_record))
         ''sd_send'' 0 None
         (sd_payload (the (snd (submit_sd demo_env (Some sd_record) HOOK_SD_SEND DIR_SEND 17 18 19))))
         demo_ctx)"
proof -
  have "hk_name (hf_hooks (hooks_json ! 2) ! 0) = ''sd_send''" by (simp add: hooks_json_def)
  then show ?thesis
    using probe_record_reaches_handler [of demo_env "[1, 2, 3, 4]" "[5, 6]" "[7, 8, 9, 10]"
        0 demo_event DIR_SEND False 0 0 7 _ 0
        "\<lparr>ae_hdr = re_hdr demo_event, ae_this_ptr = 1, ae_message_ptr = 2, ae_retval = 3\<rparr>" 5 _
        HOOK_SD_SEND sd_record 17 18 19 _ demo_offsets demo_ctx]
    by (simp add: submit_routing_def submit_app_def submit_sd_def demo_env_def)
qed





end
